(* ===== verification/Prelude.thy ===== *)
theory Prelude
  imports Main "HOL-Library.Char_ord" "HOL-Library.List_Lexorder" "HOL-Library.Word"
begin

text \<open>
  What every component shares: the named collections of rewrite rules, the C++ integer
  widths as explicit wrap-around on \<^typ>\<open>int\<close>, and \<^verbatim>\<open>std::map\<close> and \<^verbatim>\<open>std::set\<close> as key-sorted
  lists (so that iteration order, \<^verbatim>\<open>begin()\<close> and the last entry are those of the library),
  with the laws the clients use stated once in the locale \<open>ordered_map\<close>.
\<close>

named_theorems wrap_simps \<open>identities of the fixed-width conversions inside their range\<close>
named_theorems stdmap_simps \<open>lookup laws of the ordered map operations\<close>

section \<open>Fixed-width integers\<close>

text \<open>
  The conversions of a value to \<^verbatim>\<open>int\<close>, \<^verbatim>\<open>long long\<close>, \<^verbatim>\<open>short\<close>, \<^verbatim>\<open>char\<close> (two's complement) and
  to \<^verbatim>\<open>uint32_t\<close>, \<^verbatim>\<open>unsigned long long\<close>. A C++ expression of that type is the conversion
  of the unbounded result.
\<close>

definition i8 :: "int \<Rightarrow> int" where
  "i8 x = (x + 128) mod 256 - 128"

definition i16 :: "int \<Rightarrow> int" where
  "i16 x = (x + 32768) mod 65536 - 32768"

definition i32 :: "int \<Rightarrow> int" where
  "i32 x = (x + 2147483648) mod 4294967296 - 2147483648"

definition i64 :: "int \<Rightarrow> int" where
  "i64 x = (x + 9223372036854775808) mod 18446744073709551616 - 9223372036854775808"

definition u32 :: "int \<Rightarrow> int" where
  "u32 x = x mod 4294967296"

definition u64 :: "int \<Rightarrow> int" where
  "u64 x = x mod 18446744073709551616"

lemma i8_id [wrap_simps]: "- 128 \<le> x \<Longrightarrow> x < 128 \<Longrightarrow> i8 x = x"
  by (simp add: i8_def)

lemma i16_id [wrap_simps]: "- 32768 \<le> x \<Longrightarrow> x < 32768 \<Longrightarrow> i16 x = x"
  by (simp add: i16_def)

lemma i32_id [wrap_simps]: "- 2147483648 \<le> x \<Longrightarrow> x < 2147483648 \<Longrightarrow> i32 x = x"
  by (simp add: i32_def)

lemma i64_id [wrap_simps]:
  "- 9223372036854775808 \<le> x \<Longrightarrow> x < 9223372036854775808 \<Longrightarrow> i64 x = x"
  by (simp add: i64_def)

lemma u32_id [wrap_simps]: "0 \<le> x \<Longrightarrow> x < 4294967296 \<Longrightarrow> u32 x = x"
  by (simp add: u32_def)

lemma u64_id [wrap_simps]: "0 \<le> x \<Longrightarrow> x < 18446744073709551616 \<Longrightarrow> u64 x = x"
  by (simp add: u64_def)

lemma i32_range: "- 2147483648 \<le> i32 x" "i32 x < 2147483648"
  using pos_mod_bound [of 4294967296 "x + 2147483648"] by (simp_all add: i32_def)

lemma i64_range: "- 9223372036854775808 \<le> i64 x" "i64 x < 9223372036854775808"
  using pos_mod_bound [of 18446744073709551616 "x + 9223372036854775808"]
  by (simp_all add: i64_def)

lemma u32_range: "0 \<le> u32 x" "u32 x < 4294967296"
  by (simp_all add: u32_def)

lemma i32_u32 [simp]: "i32 (u32 x) = i32 x"
  by (simp add: i32_def u32_def mod_simps)

lemma u32_i32 [simp]: "u32 (i32 x) = u32 x"
  by (simp add: i32_def u32_def mod_simps)

lemma i64_u64 [simp]: "i64 (u64 x) = i64 x"
  by (simp add: i64_def u64_def mod_simps)

lemma u64_i64 [simp]: "u64 (i64 x) = u64 x"
  by (simp add: i64_def u64_def mod_simps)

lemma i16_i32 [simp]: "i16 (i32 x) = i16 x"
proof -
  have "(x + 2147483648) mod 4294967296 mod 65536 = (x + 2147483648) mod 65536"
    by (rule mod_mod_cancel) simp
  then have "((x + 2147483648) mod 4294967296 - 2147450880) mod 65536 =
      (x + 2147483648 - 2147450880) mod 65536"
    by (metis mod_diff_left_eq)
  then show ?thesis by (simp add: i16_def i32_def algebra_simps)
qed

lemma i32_idem [simp]: "i32 (i32 x) = i32 x"
  by (simp add: i32_id i32_range)

lemma i64_idem [simp]: "i64 (i64 x) = i64 x"
  by (simp add: i64_id i64_range)

section \<open>Ordered maps\<close>

type_synonym ('k, 'v) stdmap = "('k \<times> 'v) list"

fun mput :: "'k::linorder \<Rightarrow> 'v \<Rightarrow> ('k, 'v) stdmap \<Rightarrow> ('k, 'v) stdmap" where
  "mput k v [] = [(k, v)]"
| "mput k v (e # m) =
     (if fst e = k then (k, v) # m
      else if fst e < k then e # mput k v m
      else (k, v) # e # m)"

fun mdel :: "'k::linorder \<Rightarrow> ('k, 'v) stdmap \<Rightarrow> ('k, 'v) stdmap" where
  "mdel k [] = []"
| "mdel k (e # m) = (if fst e = k then m else e # mdel k m)"

abbreviation mget :: "('k, 'v) stdmap \<Rightarrow> 'k \<Rightarrow> 'v option" where
  "mget \<equiv> map_of"

definition mkeys :: "('k, 'v) stdmap \<Rightarrow> 'k list" where
  "mkeys m = map fst m"

definition mok :: "('k::linorder, 'v) stdmap \<Rightarrow> bool" where
  "mok m \<longleftrightarrow> sorted_wrt (<) (mkeys m)"

lemma mkeys_simps [simp]: "mkeys [] = []" "mkeys (e # m) = fst e # mkeys m"
  "mkeys (m @ n) = mkeys m @ mkeys n"
  by (simp_all add: mkeys_def)

lemma set_mkeys: "set (mkeys m) = dom (mget m)"
  by (simp add: mkeys_def dom_map_of_conv_image_fst)

lemma mok_simps [simp]: "mok []" "mok (e # m) \<longleftrightarrow> (\<forall>k \<in> set (mkeys m). fst e < k) \<and> mok m"
  by (simp_all add: mok_def)

lemma mok_distinct: "mok m \<Longrightarrow> distinct (mkeys m)"
  by (simp add: mok_def strict_sorted_iff)

lemma mget_mput: "mget (mput k v m) = (mget m)(k \<mapsto> v)"
  by (induction k v m rule: mput.induct) (auto simp: fun_eq_iff)

lemma mkeys_mput: "set (mkeys (mput k v m)) = insert k (set (mkeys m))"
  by (induction k v m rule: mput.induct) auto

lemma set_mput_subset: "set (mput k v m) \<subseteq> insert (k, v) (set m)"
  by (induction k v m rule: mput.induct) auto

lemma mok_mput: "mok m \<Longrightarrow> mok (mput k v m)"
  by (induction k v m rule: mput.induct) (auto simp: mkeys_mput)

lemma mget_notin: "k \<notin> set (mkeys m) \<Longrightarrow> mget m k = None"
  by (simp add: set_mkeys domIff)

lemma mget_mdel: "mok m \<Longrightarrow> mget (mdel k m) = (mget m)(k := None)"
proof (induction m)
  case (Cons e m)
  then have "fst e \<notin> set (mkeys m)" by auto
  with Cons show ?case by (auto simp: fun_eq_iff dest: mget_notin)
qed (simp add: fun_eq_iff)

lemma mkeys_mdel_subset: "set (mkeys (mdel k m)) \<subseteq> set (mkeys m)"
  by (induction m) auto

lemma mok_mdel: "mok m \<Longrightarrow> mok (mdel k m)"
  using mkeys_mdel_subset by (induction m) fastforce+

text \<open>
  The map interface the components rely on: what a lookup returns after an insertion or
  an erasure, and that both keep the representation in key order.
\<close>

locale ordered_map =
  fixes put :: "'k \<Rightarrow> 'v \<Rightarrow> 'm \<Rightarrow> 'm"
    and del :: "'k \<Rightarrow> 'm \<Rightarrow> 'm"
    and get :: "'m \<Rightarrow> 'k \<Rightarrow> 'v option"
    and ok :: "'m \<Rightarrow> bool"
  assumes get_put: "ok m \<Longrightarrow> get (put k v m) = (get m)(k \<mapsto> v)"
    and get_del: "ok m \<Longrightarrow> get (del k m) = (get m)(k := None)"
    and ok_put: "ok m \<Longrightarrow> ok (put k v m)"
    and ok_del: "ok m \<Longrightarrow> ok (del k m)"
begin

text \<open>The loop that inserts a list of entries, and the loop that erases a list of keys.\<close>

lemma ok_fold_put: "ok m \<Longrightarrow> ok (fold (\<lambda>x. put (f x) (g x)) xs m)"
  by (induction xs arbitrary: m) (simp_all add: ok_put)

lemma get_fold_put:
  "ok m \<Longrightarrow> get (fold (\<lambda>x. put (f x) (g x)) xs m) =
     get m ++ map_of (rev (map (\<lambda>x. (f x, g x)) xs))"
proof (induction xs arbitrary: m)
  case (Cons x xs)
  then show ?case
    by (auto simp: get_put ok_put map_add_def fun_eq_iff split: option.splits)
qed simp

lemma ok_fold_del: "ok m \<Longrightarrow> ok (fold (\<lambda>x. del (f x)) xs m)"
  by (induction xs arbitrary: m) (simp_all add: ok_del)

lemma get_fold_del:
  "ok m \<Longrightarrow> get (fold (\<lambda>x. del (f x)) xs m) = get m |` (- f ` set xs)"
proof (induction xs arbitrary: m)
  case (Cons x xs)
  then show ?case
    by (auto simp: get_del ok_del restrict_map_def fun_eq_iff)
qed (simp add: restrict_map_def fun_eq_iff)

lemma put_del_cancel: "ok m \<Longrightarrow> get m k = Some v \<Longrightarrow> get (put k v (del k m)) = get m"
  by (simp add: get_put get_del ok_del fun_eq_iff)

end

interpretation stdmap: ordered_map mput mdel mget mok
  by unfold_locales (simp_all add: mget_mput mget_mdel mok_mput mok_mdel)

lemmas stdmap_laws [stdmap_simps] =
  mget_mput mget_mdel mok_mput mok_mdel

text \<open>Two ordered maps with the same lookups are the same list: the representation is canonical.\<close>

lemma sorted_wrt_less_unique:
  fixes xs ys :: "'a::linorder list"
  assumes "sorted_wrt (<) xs" "sorted_wrt (<) ys" "set xs = set ys"
  shows "xs = ys"
  using assms by (simp add: strict_sorted_equal)

lemma alist_eqI:
  assumes "distinct (map fst m)" "map fst m = map fst n" "map_of m = map_of n"
  shows "m = n"
proof (rule nth_equalityI)
  show len: "length m = length n"
    using assms(2) by (metis length_map)
  fix i assume i: "i < length m"
  have key: "fst (m ! i) = fst (n ! i)"
    using assms(2) i len by (metis nth_map)
  have "map_of m (fst (m ! i)) = Some (snd (m ! i))"
    using assms(1) i by (simp add: map_of_eq_Some_iff)
  moreover have "map_of n (fst (n ! i)) = Some (snd (n ! i))"
    using assms(1,2) i len by (simp add: map_of_eq_Some_iff)
  ultimately show "m ! i = n ! i"
    using assms(3) key by (simp add: prod_eq_iff)
qed

lemma stdmap_ext:
  assumes "mok m" "mok n" "mget m = mget n"
  shows "m = n"
proof (rule alist_eqI)
  have "set (mkeys m) = set (mkeys n)"
    using assms(3) by (simp add: set_mkeys)
  then have "mkeys m = mkeys n"
    using assms(1,2) unfolding mok_def by (rule sorted_wrt_less_unique [rotated 2])
  then show "map fst m = map fst n" by (simp add: mkeys_def)
  show "distinct (map fst m)"
    using assms(1) mok_distinct by (simp add: mkeys_def)
qed (fact assms(3))

section \<open>Ordered sets\<close>

text \<open>\<^verbatim>\<open>std::set<T>\<close> as a strictly increasing list.\<close>

fun sput :: "'a::linorder \<Rightarrow> 'a list \<Rightarrow> 'a list" where
  "sput x [] = [x]"
| "sput x (y # ys) = (if y = x then y # ys else if y < x then y # sput x ys else x # y # ys)"

definition sok :: "'a::linorder list \<Rightarrow> bool" where
  "sok xs \<longleftrightarrow> sorted_wrt (<) xs"

lemma set_sput [simp]: "set (sput x xs) = insert x (set xs)"
  by (induction x xs rule: sput.induct) auto

lemma sok_sput: "sok xs \<Longrightarrow> sok (sput x xs)"
  unfolding sok_def by (induction x xs rule: sput.induct) auto

lemma sok_distinct: "sok xs \<Longrightarrow> distinct xs"
  by (simp add: sok_def strict_sorted_iff)

lemma set_fold_sput [simp]: "set (fold sput xs s) = set s \<union> set xs"
  by (induction xs arbitrary: s) auto

lemma sok_fold_sput: "sok s \<Longrightarrow> sok (fold sput xs s)"
  by (induction xs arbitrary: s) (simp_all add: sok_sput)

section \<open>Errors\<close>

text \<open>
  The exception classes of \<^verbatim>\<open>include/MQClientException.h\<close> with the error code they carry,
  and the outcomes the language leaves undefined, which the model never hides.
\<close>

datatype error =
    MQClientException string int
  | MQBrokerException string int
  | InterruptedException string int
  | RemotingException string int
  | UnknownHostException string int
  | StdException
  | Undefined

type_synonym 'a result = "error + 'a"

section \<open>C++ integer division\<close>

text \<open>Division truncates towards zero and the remainder takes the sign of the dividend.\<close>

definition cdiv :: "int \<Rightarrow> int \<Rightarrow> int" where
  "cdiv a b = sgn a * sgn b * (\<bar>a\<bar> div \<bar>b\<bar>)"

definition cmod :: "int \<Rightarrow> int \<Rightarrow> int" where
  "cmod a b = a - b * cdiv a b"

lemma cdiv_nonneg [wrap_simps]: "0 \<le> a \<Longrightarrow> 0 < b \<Longrightarrow> cdiv a b = a div b"
  by (cases "a = 0") (simp_all add: cdiv_def)

lemma cmod_nonneg [wrap_simps]: "0 \<le> a \<Longrightarrow> 0 < b \<Longrightarrow> cmod a b = a mod b"
  by (simp add: cmod_def cdiv_nonneg minus_mult_div_eq_mod)

text \<open>The size of a container converted to \<^verbatim>\<open>int\<close>.\<close>

definition isize :: "'a list \<Rightarrow> int" where
  "isize xs = i32 (int (length xs))"

definition small :: "'a list \<Rightarrow> bool" where
  "small xs \<longleftrightarrow> length xs < 2147483648"

lemma isize_small [wrap_simps]: "small xs \<Longrightarrow> isize xs = int (length xs)"
  by (simp add: isize_def small_def i32_id)

section \<open>The contract of a work queue\<close>

text \<open>
  What the code that hands out work relies on, whether the work are the pull requests of a
  service or the items of a thread pool: an open queue keeps what is added, in order, and gives
  it out from the front; a closed one refuses and gives nothing. \<open>take_many\<close> asks \<open>n\<close> times.
\<close>

fun take_many :: "('s \<Rightarrow> 's \<times> 'w option) \<Rightarrow> nat \<Rightarrow> 's \<Rightarrow> 's \<times> 'w option list" where
  "take_many get 0 s = (s, [])"
| "take_many get (Suc n) s = (let (s', w) = get s; (s'', ws) = take_many get n s' in (s'', w # ws))"

locale work_queue =
  fixes add :: "'w \<Rightarrow> 's \<Rightarrow> 's"
    and get :: "'s \<Rightarrow> 's \<times> 'w option"
    and queue :: "'s \<Rightarrow> 'w list"
    and closed :: "'s \<Rightarrow> bool"
  assumes queue_add: "queue (add w s) = (if closed s then queue s else queue s @ [w])"
    and closed_add: "closed (add w s) = closed s"
    and get_none: "closed s \<or> queue s = [] \<Longrightarrow> get s = (s, None)"
    and get_some: "\<not> closed s \<Longrightarrow> queue s = w # ws \<Longrightarrow> snd (get s) = Some w \<and> queue (fst (get s)) = ws"
    and closed_get: "closed (fst (get s)) = closed s"
begin

lemma add_all: "\<not> closed s \<Longrightarrow> queue (fold add ws s) = queue s @ ws \<and> \<not> closed (fold add ws s)"
  by (induction ws arbitrary: s) (simp_all add: queue_add closed_add)

lemma take_many_queue:
  assumes "\<not> closed s" "n \<le> length (queue s)"
  shows "snd (take_many get n s) = map Some (take n (queue s)) \<and> queue (fst (take_many get n s)) = drop n (queue s)"
  using assms
proof (induction n arbitrary: s)
  case (Suc n)
  then obtain w ws where q: "queue s = w # ws" by (cases "queue s") auto
  obtain s' x where g: "get s = (s', x)" by (cases "get s")
  have s: "x = Some w" "queue s' = ws" "\<not> closed s'" using get_some [OF Suc.prems(1) q] closed_get [of s] Suc.prems(1) g by auto
  obtain s'' l where t: "take_many get n s' = (s'', l)" by (cases "take_many get n s'")
  from Suc.IH [of s'] Suc.prems(2) s q t show ?case by (simp add: g)
qed simp

lemma first_in_first_out:
  assumes "\<not> closed s" "queue s = []"
  shows "snd (take_many get (length ws) (fold add ws s)) = map Some ws \<and> queue (fst (take_many get (length ws) (fold add ws s))) = []"
  using take_many_queue [of "fold add ws s" "length ws"] add_all [OF assms(1), of ws] assms(2) by simp

lemma closed_stays_empty: "closed s \<Longrightarrow> snd (take_many get n (fold add ws s)) = replicate n None"
proof -
  assume "closed s"
  then have "closed (fold add ws s)" by (induction ws arbitrary: s) (simp_all add: closed_add)
  then show ?thesis by (induction n) (auto simp: get_none Let_def split: prod.split)
qed

end

end
