(* ===== verification/Util.thy ===== *)
theory Util
  imports Prelude
begin

text \<open>
  The string helpers of \<^verbatim>\<open>src/src/common/UtilAll.h\<close> and the parts of \<^verbatim>\<open>std::string\<close>, \<^verbatim>\<open>sprintf\<close>,
  \<^verbatim>\<open>atoi\<close> and \<^verbatim>\<open>strtoull\<close> that the sources use. Strings are byte strings (\<^typ>\<open>string\<close>); a
  byte's value is \<open>of_char\<close>, its value as a (signed) \<^verbatim>\<open>char\<close> is \<open>i8 (of_char c)\<close>.
\<close>

section \<open>std::string and the C library\<close>

definition substr :: "string \<Rightarrow> nat \<Rightarrow> nat \<Rightarrow> string" where
  "substr s pos n = take n (drop pos s)"

definition find_from :: "string \<Rightarrow> string \<Rightarrow> nat \<Rightarrow> nat option" where
  "find_from s d p =
     List.find (\<lambda>i. take (length d) (drop i s) = d) [p ..< Suc (length s) - length d]"

definition contains :: "string \<Rightarrow> string \<Rightarrow> bool" where
  "contains s d \<longleftrightarrow> find_from s d 0 \<noteq> None"

definition find_last_of :: "string \<Rightarrow> string \<Rightarrow> nat option" where
  "find_last_of s cs = List.find (\<lambda>i. s ! i \<in> set cs) (rev [0 ..< length s])"

definition c_str :: "string \<Rightarrow> string" where
  "c_str s = takeWhile (\<lambda>c. c \<noteq> CHR 0x00) s"

fun show_nat :: "nat \<Rightarrow> string" where
  "show_nat n = (if n < 10 then [char_of (48 + n)] else show_nat (n div 10) @ [char_of (48 + n mod 10)])"

declare show_nat.simps [simp del]

definition show_int :: "int \<Rightarrow> string" where
  "show_int x = (if x < 0 then CHR ''-'' # show_nat (nat (- x)) else show_nat (nat x))"

definition is_digit :: "char \<Rightarrow> bool" where
  "is_digit c \<longleftrightarrow> 48 \<le> (of_char c :: nat) \<and> (of_char c :: nat) \<le> 57"

definition is_space :: "char \<Rightarrow> bool" where
  "is_space c \<longleftrightarrow> c = CHR '' '' \<or> (9 \<le> (of_char c :: nat) \<and> (of_char c :: nat) \<le> 13)"

definition digits_val :: "nat \<Rightarrow> nat list \<Rightarrow> nat" where
  "digits_val b ds = foldl (\<lambda>a d. b * a + d) 0 ds"

definition read_nat :: "string \<Rightarrow> nat" where
  "read_nat s = digits_val 10 (map (\<lambda>c. of_char c - 48) (takeWhile is_digit s))"

definition read_signed :: "string \<Rightarrow> int" where
  "read_signed s =
     (case dropWhile is_space s of
        [] \<Rightarrow> 0
      | c # r \<Rightarrow> if c = CHR ''-'' then - int (read_nat r)
                else if c = CHR ''+'' then int (read_nat r)
                else int (read_nat (c # r)))"

text \<open>\<^verbatim>\<open>atoi\<close> is \<^verbatim>\<open>(int) strtol\<close>: the 64-bit value saturates, then its low 32 bits are the result.\<close>

definition sat64 :: "int \<Rightarrow> int" where
  "sat64 x = max (- 9223372036854775808) (min 9223372036854775807 x)"

definition atoi :: "string \<Rightarrow> int" where
  "atoi s = i32 (sat64 (read_signed (c_str s)))"

definition hex_digit :: "nat \<Rightarrow> char" where
  "hex_digit n = (if n < 10 then char_of (48 + n) else char_of (55 + n))"

definition hex_val :: "char \<Rightarrow> nat option" where
  "hex_val c =
     (let n = (of_char c :: nat) in
      if 48 \<le> n \<and> n \<le> 57 then Some (n - 48)
      else if 65 \<le> n \<and> n \<le> 70 then Some (n - 55)
      else if 97 \<le> n \<and> n \<le> 102 then Some (n - 87)
      else None)"

fun read_hex :: "nat \<Rightarrow> string \<Rightarrow> nat" where
  "read_hex a [] = a"
| "read_hex a (c # s) = (case hex_val c of None \<Rightarrow> a | Some d \<Rightarrow> read_hex (16 * a + d) s)"

definition skip_0x :: "string \<Rightarrow> string" where
  "skip_0x s =
     (case s of
        z # x # d # r \<Rightarrow>
          (if z = CHR ''0'' \<and> (x = CHR ''x'' \<or> x = CHR ''X'') \<and> hex_val d \<noteq> None then d # r else s)
      | _ \<Rightarrow> s)"

text \<open>\<^verbatim>\<open>strtoull(s, _, 16)\<close>: white space, an optional sign, an optional \<^verbatim>\<open>0x\<close>, digits; saturating.\<close>

definition strtoull16 :: "string \<Rightarrow> int" where
  "strtoull16 s =
     (let t = dropWhile is_space s;
          neg = (t \<noteq> [] \<and> hd t = CHR ''-'');
          r = (if t \<noteq> [] \<and> (hd t = CHR ''-'' \<or> hd t = CHR ''+'') then tl t else t);
          v = int (read_hex 0 (skip_0x r))
      in if v \<ge> 18446744073709551616 then 18446744073709551615
         else if neg then u64 (- v) else v)"

section \<open>UtilAll\<close>

definition WHITESPACE :: string where
  "WHITESPACE = [CHR '' '', CHR 0x09, CHR 0x0D, CHR 0x0A]"

text \<open>
  \<^verbatim>\<open>Split\<close>: the loop runs at most \<^verbatim>\<open>in.size() - 1\<close> times (the counter starts at 1), each
  round cutting at the next delimiter; what is left is the last piece.
\<close>

fun split_loop :: "nat \<Rightarrow> string \<Rightarrow> string \<Rightarrow> nat \<Rightarrow> string list" where
  "split_loop 0 inp d left = [drop left inp]"
| "split_loop (Suc n) inp d left =
     (case find_from inp d left of
        None \<Rightarrow> [drop left inp]
      | Some right \<Rightarrow> substr inp left (right - left) # split_loop n inp d (right + length d))"

definition Split :: "string list \<Rightarrow> string \<Rightarrow> string \<Rightarrow> string list" where
  "Split out inp d = out @ split_loop (length inp - 1) inp d 0"

definition Split_char :: "string list \<Rightarrow> string \<Rightarrow> char \<Rightarrow> string list" where
  "Split_char out inp d = out @ split_loop (length inp - 1) inp [d] 0"

definition find_first_not_of :: "string \<Rightarrow> string \<Rightarrow> nat option" where
  "find_first_not_of s cs = List.find (\<lambda>i. s ! i \<notin> set cs) [0 ..< length s]"

definition find_last_not_of :: "string \<Rightarrow> string \<Rightarrow> nat option" where
  "find_last_not_of s cs = List.find (\<lambda>i. s ! i \<notin> set cs) (rev [0 ..< length s])"

definition Trim :: "string \<Rightarrow> string" where
  "Trim str =
     (if str = [] then str
      else (case find_first_not_of str WHITESPACE of
              None \<Rightarrow> []
            | Some left \<Rightarrow>
                (case find_last_not_of str WHITESPACE of
                   None \<Rightarrow> drop left str
                 | Some right \<Rightarrow> substr str left (right + 1 - left))))"

definition isBlank :: "string \<Rightarrow> bool" where
  "isBlank str =
     (if str = [] then True
      else (case find_first_not_of str WHITESPACE of None \<Rightarrow> True | Some _ \<Rightarrow> False))"

definition availableProcessors :: int where
  "availableProcessors = 4"

definition hashCode_void :: "string \<Rightarrow> int" where
  "hashCode_void pData = 0"

definition stringHashCode :: "string \<Rightarrow> int" where
  "stringHashCode pData = foldl (\<lambda>hash c. i32 (31 * hash + i8 (of_char c))) 0 pData"

definition hexstr2ull :: "string \<Rightarrow> int" where
  "hexstr2ull str = strtoull16 (c_str str)"

section \<open>Search lemmas\<close>

lemma find_upt_Some:
  "List.find P [a ..< b] = Some i \<longleftrightarrow> a \<le> i \<and> i < b \<and> P i \<and> (\<forall>j. a \<le> j \<and> j < i \<longrightarrow> \<not> P j)"
  by (induction "b - a" arbitrary: a)
    (auto simp: upt_conv_Cons split: if_splits, (metis le_antisym not_less_eq_eq)+)

lemma find_from_Some:
  "find_from s d p = Some i \<longleftrightarrow>
     p \<le> i \<and> i + length d \<le> length s \<and> take (length d) (drop i s) = d \<and>
     (\<forall>j. p \<le> j \<and> j < i \<longrightarrow> take (length d) (drop j s) \<noteq> d)"
  unfolding find_from_def find_upt_Some by auto

lemma find_from_None:
  "find_from s d p = None \<longleftrightarrow>
     (\<forall>i. p \<le> i \<and> i + length d \<le> length s \<longrightarrow> take (length d) (drop i s) \<noteq> d)"
  unfolding find_from_def find_None_iff by auto

text \<open>Where a search succeeds, the text is the skipped part, the delimiter and the rest.\<close>

lemma find_from_decomp:
  assumes "find_from s d p = Some i"
  shows "drop p s = substr s p (i - p) @ d @ drop (i + length d) s"
proof -
  have i: "p \<le> i" "take (length d) (drop i s) = d"
    using assms by (simp_all add: find_from_Some)
  have "drop p s = take (i - p) (drop p s) @ drop i s"
    using i(1) by (metis append_take_drop_id drop_drop le_add_diff_inverse2)
  also have "drop i s = d @ drop (i + length d) s"
    using i(2) by (metis append_take_drop_id drop_drop add.commute)
  finally show ?thesis by (simp add: substr_def)
qed


section \<open>Splitting and joining\<close>

text \<open>Specification side: joining pieces with a delimiter, and cutting at every occurrence of a byte.\<close>

fun join :: "string \<Rightarrow> string list \<Rightarrow> string" where
  "join d [] = []"
| "join d [x] = x"
| "join d (x # y # ys) = x @ d @ join d (y # ys)"

fun split_on :: "char \<Rightarrow> string \<Rightarrow> string list" where
  "split_on c [] = [[]]"
| "split_on c (x # xs) =
     (if x = c then [] # split_on c xs
      else (case split_on c xs of [] \<Rightarrow> [[x]] | y # ys \<Rightarrow> (x # y) # ys))"

lemma split_loop_not_Nil [simp]: "split_loop n s d left \<noteq> []"
  by (cases n) (auto split: option.splits)

lemma join_Cons: "ys \<noteq> [] \<Longrightarrow> join d (x # ys) = x @ d @ join d ys"
  by (cases ys) simp_all

lemma join_split_loop: "join d (split_loop n s d left) = drop left s"
proof (induction n arbitrary: left)
  case (Suc n)
  show ?case
  proof (cases "find_from s d left")
    case (Some right)
    with Suc.IH show ?thesis
      using find_from_decomp [OF Some] by (simp add: join_Cons)
  qed simp
qed simp

lemma split_on_not_Nil [simp]: "split_on c s \<noteq> []"
  by (induction s) (auto split: list.splits)

lemma split_on_notin: "c \<notin> set s \<Longrightarrow> split_on c s = [s]"
  by (induction s) auto

lemma split_on_append: "c \<notin> set a \<Longrightarrow> split_on c (a @ c # b) = a # split_on c b"
  by (induction a) auto

lemma take_1_drop: "take (Suc 0) (drop j s) = [c] \<longleftrightarrow> j < length s \<and> s ! j = c"
  by (cases "j < length s") (auto simp: take_Suc_conv_app_nth hd_drop_conv_nth take_Suc)

lemma find_from_char_notin:
  assumes "find_from s [c] p = Some i"
  shows "c \<notin> set (substr s p (i - p))"
proof -
  have bound: "i < length s" and none: "\<And>j. p \<le> j \<Longrightarrow> j < i \<Longrightarrow> s ! j \<noteq> c"
    using assms by (auto simp: find_from_Some take_1_drop)
  show ?thesis
    unfolding substr_def in_set_conv_nth using bound none by auto
qed

lemma find_from_char_None: "find_from s [c] p = None \<Longrightarrow> c \<notin> set (drop p s)"
  by (auto simp: find_from_None take_1_drop in_set_conv_nth)

text \<open>With at least as many rounds as there are delimiters, the loop cuts everywhere.\<close>

lemma split_loop_split_on:
  "count_list (drop left s) c \<le> n \<Longrightarrow> split_loop n s [c] left = split_on c (drop left s)"
proof (induction n arbitrary: left)
  case 0
  then have "c \<notin> set (drop left s)" by (simp add: count_list_0_iff)
  then show ?case by (simp add: split_on_notin)
next
  case (Suc n)
  show ?case
  proof (cases "find_from s [c] left")
    case None
    then show ?thesis by (simp add: split_on_notin find_from_char_None)
  next
    case (Some right)
    let ?a = "substr s left (right - left)" and ?b = "drop (Suc right) s"
    have dec: "drop left s = ?a @ c # ?b" and na: "c \<notin> set ?a"
      using find_from_decomp [OF Some] find_from_char_notin [OF Some] by simp_all
    from na have "count_list ?a c = 0" by (simp add: count_list_0_iff)
    with dec Suc.prems have "count_list ?b c \<le> n" by simp
    then have "split_loop n s [c] (Suc right) = split_on c ?b" by (rule Suc.IH)
    with Some dec na show ?thesis by (simp add: split_on_append)
  qed
qed

lemma count_list_less_length: "\<exists>x \<in> set s. x \<noteq> c \<Longrightarrow> count_list s c \<le> length s - 1"
proof -
  assume "\<exists>x \<in> set s. x \<noteq> c"
  then obtain x where x: "x \<in> set s" "x \<noteq> c" by blast
  from x(1) have "0 < count_list s x" using count_list_0_iff [of s x] by auto
  moreover have "count_list s c + count_list s x \<le> length s"
    using x(2) by (induction s) auto
  ultimately show ?thesis by linarith
qed

lemma Split_char_split_on:
  assumes "\<exists>x \<in> set s. x \<noteq> c"
  shows "Split_char out s c = out @ split_on c s"
  using split_loop_split_on [of 0 s c "length s - 1"] count_list_less_length [OF assms]
  by (simp add: Split_char_def)

section \<open>Blank strings and trimming\<close>

lemma find_first_not_of_None: "find_first_not_of s cs = None \<longleftrightarrow> set s \<subseteq> set cs"
  by (auto simp: find_first_not_of_def find_None_iff in_set_conv_nth subset_iff)

lemma isBlank_iff: "isBlank s \<longleftrightarrow> set s \<subseteq> set WHITESPACE"
  using find_first_not_of_None [of s WHITESPACE]
  by (cases "find_first_not_of s WHITESPACE"; cases s) (auto simp: isBlank_def)

lemma find_rev_upt_Some:
  "List.find P (rev [0 ..< n]) = Some i \<longleftrightarrow> i < n \<and> P i \<and> (\<forall>j. i < j \<and> j < n \<longrightarrow> \<not> P j)"
proof (induction n)
  case (Suc n)
  then show ?case
    by (cases "P n") (auto simp: less_Suc_eq)
qed simp

lemma find_last_not_of_None: "find_last_not_of s cs = None \<longleftrightarrow> set s \<subseteq> set cs"
  by (auto simp: find_last_not_of_def find_None_iff in_set_conv_nth subset_iff)

text \<open>\<^verbatim>\<open>Trim\<close> removes exactly the longest blank prefix and the longest blank suffix.\<close>

lemma Trim_decomp:
  "\<exists>a b. s = a @ Trim s @ b \<and> set a \<subseteq> set WHITESPACE \<and> set b \<subseteq> set WHITESPACE \<and>
     (Trim s \<noteq> [] \<longrightarrow> hd (Trim s) \<notin> set WHITESPACE \<and> last (Trim s) \<notin> set WHITESPACE)"
proof (cases "find_first_not_of s WHITESPACE")
  case None
  then have "set s \<subseteq> set WHITESPACE" by (simp add: find_first_not_of_None)
  with None show ?thesis by (intro exI [of _ s] exI [of _ "[]"]) (simp add: Trim_def)
next
  case (Some l)
  have ne: "s \<noteq> []" using Some by (auto simp: find_first_not_of_def)
  have l: "l < length s" "s ! l \<notin> set WHITESPACE"
    "\<And>j. j < l \<Longrightarrow> s ! j \<in> set WHITESPACE"
    using Some by (auto simp: find_first_not_of_def find_upt_Some)
  from l(1,2) have "\<not> set s \<subseteq> set WHITESPACE" by (meson nth_mem subsetD)
  then obtain r where R: "find_last_not_of s WHITESPACE = Some r"
    by (metis find_last_not_of_None not_None_eq)
  then have r: "r < length s" "s ! r \<notin> set WHITESPACE"
    "\<And>j. r < j \<Longrightarrow> j < length s \<Longrightarrow> s ! j \<in> set WHITESPACE"
    by (auto simp: find_last_not_of_def find_rev_upt_Some)
  have lr: "l \<le> r" using l r by (metis not_le_imp_less)
  have T: "Trim s = take (Suc r - l) (drop l s)"
    using Some R ne by (simp add: Trim_def substr_def)
  have "s = take l s @ take (Suc r - l) (drop l s) @ drop (Suc r) s"
    using lr by (metis append_take_drop_id drop_drop le_Suc_eq le_add_diff_inverse2)
  moreover have "set (take l s) \<subseteq> set WHITESPACE"
    using l(1,3) by (auto simp: in_set_conv_nth)
  moreover have "set (drop (Suc r) s) \<subseteq> set WHITESPACE"
    using r(1,3) by (auto simp: in_set_conv_nth)
  moreover have "hd (Trim s) = s ! l"
    using T lr l(1) by (simp add: hd_take hd_drop_conv_nth)
  moreover have "last (Trim s) = s ! r"
    using T lr r(1) by (simp add: last_conv_nth)
  ultimately show ?thesis using l(2) r(2) T by metis
qed

lemma Trim_Nil_iff: "Trim s = [] \<longleftrightarrow> isBlank s"
  using Trim_decomp [of s] unfolding isBlank_iff
  by (metis append_Nil2 append_self_conv2 hd_in_set le_sup_iff set_append subsetD self_append_conv
      append_Nil)

section \<open>Decimal numerals\<close>

lemma of_char_digit: "n < 10 \<Longrightarrow> of_char (char_of (48 + n) :: char) = (48 + n :: nat)"
  by simp

lemma show_nat_digits: "\<forall>c \<in> set (show_nat n). is_digit c"
proof (induction n rule: show_nat.induct)
  case (1 n)
  have last: "is_digit (char_of (48 + n mod 10))" by (simp add: is_digit_def)
  show ?case
  proof (cases "n < 10")
    case True
    then show ?thesis by (simp add: show_nat.simps [of n] is_digit_def)
  next
    case False
    with 1 last show ?thesis by (auto simp: show_nat.simps [of n])
  qed
qed

lemma show_nat_not_Nil [simp]: "show_nat n \<noteq> []"
  by (simp add: show_nat.simps [of n])

lemma digits_val_snoc: "digits_val b (ds @ [d]) = b * digits_val b ds + d"
  by (simp add: digits_val_def)

lemma digits_val_show_nat: "digits_val 10 (map (\<lambda>c. of_char c - 48) (show_nat n)) = n"
proof (induction n rule: show_nat.induct)
  case (1 n)
  show ?case
  proof (cases "n < 10")
    case True
    then show ?thesis by (simp add: show_nat.simps [of n] digits_val_def)
  next
    case False
    with 1 show ?thesis by (simp add: show_nat.simps [of n] digits_val_snoc)
  qed
qed

lemma read_nat_show_nat: "read_nat (show_nat n) = n"
proof -
  have "takeWhile is_digit (show_nat n) = show_nat n"
    using show_nat_digits by simp
  then show ?thesis unfolding read_nat_def by (simp only: digits_val_show_nat)
qed

lemma digit_char_facts: "is_digit c \<Longrightarrow> \<not> is_space c \<and> c \<noteq> CHR ''-'' \<and> c \<noteq> CHR ''+'' \<and> c \<noteq> CHR 0x00"
  by (auto simp: is_digit_def is_space_def)

lemma read_signed_show_int: "read_signed (show_int x) = x"
proof (cases "x < 0")
  case True
  then show ?thesis
    by (simp add: read_signed_def show_int_def is_space_def read_nat_show_nat)
next
  case False
  obtain c r where cr: "show_nat (nat x) = c # r" by (cases "show_nat (nat x)") simp_all
  then have "is_digit c" using show_nat_digits [of "nat x"] by simp
  with False cr show ?thesis
    using digit_char_facts [of c] read_nat_show_nat [of "nat x"]
    by (simp add: read_signed_def show_int_def)
qed

lemma c_str_id: "CHR 0x00 \<notin> set s \<Longrightarrow> c_str s = s"
  unfolding c_str_def by (rule takeWhile_eq_all_conv [THEN iffD2]) auto

lemma nul_notin_show_nat: "CHR 0x00 \<notin> set (show_nat n)"
  using show_nat_digits digit_char_facts by blast

lemma c_str_show_int [simp]: "c_str (show_int x) = show_int x"
  by (rule c_str_id) (auto simp: show_int_def nul_notin_show_nat)

lemma atoi_show_int:
  "- 2147483648 \<le> x \<Longrightarrow> x < 2147483648 \<Longrightarrow> atoi (show_int x) = x"
  by (simp add: atoi_def read_signed_show_int sat64_def i32_id)

section \<open>The string hash\<close>

text \<open>
  The wrapped accumulation is the wrapped value of the unbounded polynomial, the hash the
  broker computes for a tag.
\<close>

definition poly_hash :: "string \<Rightarrow> int" where
  "poly_hash s = foldl (\<lambda>h c. 31 * h + i8 (of_char c)) 0 s"

lemma i32_mult_add: "i32 (a * i32 h + b) = i32 (a * h + b)"
proof -
  have "(a * i32 h + b + 2147483648) mod 4294967296 = (a * h + b + 2147483648) mod 4294967296"
    by (rule mod_add_cong, rule mod_add_cong, rule mod_mult_cong)
      (simp_all add: i32_def mod_simps)
  then show ?thesis by (simp add: i32_def [of "a * i32 h + b"] i32_def [of "a * h + b"])
qed

lemma foldl_i32: "foldl (\<lambda>h c. i32 (31 * h + f c)) (i32 a) s = i32 (foldl (\<lambda>h c. 31 * h + f c) a s)"
  by (induction s arbitrary: a) (simp_all add: i32_mult_add)

lemma stringHashCode_poly: "stringHashCode s = i32 (poly_hash s)"
  using foldl_i32 [of "\<lambda>c. i8 (of_char c)" 0 s]
  by (simp add: stringHashCode_def poly_hash_def i32_id)

section \<open>Properties\<close>

text \<open>
  \<^verbatim>\<open>UtilAll::Split\<close> loses nothing, whatever the delimiter and however early its
  round counter stops the loop: joining the pieces with the delimiter gives the input back.
\<close>

theorem Split_join: "join d (Split [] s d) = s"
  by (simp add: Split_def join_split_loop)

text \<open>
  \<^verbatim>\<open>UtilAll::Split\<close> with a one-byte delimiter cuts at every occurrence as soon as
  the input holds one other byte; \<open>split_on\<close> is the textbook definition.
\<close>

theorem Split_char_complete:
  assumes "\<exists>x \<in> set s. x \<noteq> c"
  shows "Split_char [] s c = split_on c s"
  using Split_char_split_on [OF assms, of "[]"] by simp

theorem Split_char_complete_witness:
  "(\<exists>x \<in> set ''a;b;''. x \<noteq> CHR '';'') \<and> Split_char [] ''a;b;'' CHR '';'' = [''a'', ''b'', '''']"
proof -
  have h: "\<exists>x \<in> set ''a;b;''. x \<noteq> CHR '';''" by simp
  show ?thesis using h Split_char_complete [OF h] by simp
qed

text \<open>
  \<^verbatim>\<open>UtilAll::Trim\<close> strips a blank prefix and a blank suffix and nothing else: what
  is left neither starts nor ends with white space.
\<close>

theorem Trim_correct:
  "\<exists>a b. s = a @ Trim s @ b \<and> isBlank a \<and> isBlank b \<and>
     (Trim s = [] \<or> (\<not> isBlank [hd (Trim s)] \<and> \<not> isBlank [last (Trim s)]))"
  using Trim_decomp [of s] by (auto simp: isBlank_iff)

end
