(* ===== verification/Bytes.thy ===== *)
theory Bytes
  imports Util
begin

text \<open>
  Memory layout: what \<^verbatim>\<open>memcpy\<close> between an integer and a byte buffer does on a little-endian or
  a big-endian host, the byte-order conversions \<^verbatim>\<open>htonl\<close>, \<^verbatim>\<open>ntohl\<close>, \<^verbatim>\<open>htons\<close>, \<^verbatim>\<open>ntohs\<close> and the
  64-bit ones of \<^verbatim>\<open>src/src/transport/SocketUtil.cpp\<close>. The byte order of the host is a parameter
  of every definition that depends on it, and the macro \<^verbatim>\<open>ENDIANMODE_BIG\<close> is assumed to agree
  with it.
\<close>

unbundle bit_operations_syntax

section \<open>Bytes and integers\<close>

datatype endian = LE | BE

fun le_val :: "string \<Rightarrow> int" where
  "le_val [] = 0"
| "le_val (c # cs) = of_char c + 256 * le_val cs"

fun le_bytes :: "nat \<Rightarrow> int \<Rightarrow> string" where
  "le_bytes 0 v = []"
| "le_bytes (Suc n) v = char_of (v mod 256) # le_bytes n (v div 256)"

definition be_val :: "string \<Rightarrow> int" where
  "be_val bs = le_val (rev bs)"

definition be_bytes :: "nat \<Rightarrow> int \<Rightarrow> string" where
  "be_bytes n v = rev (le_bytes n v)"

definition load :: "endian \<Rightarrow> string \<Rightarrow> int" where
  "load e bs = (case e of LE \<Rightarrow> le_val bs | BE \<Rightarrow> be_val bs)"

definition store :: "endian \<Rightarrow> nat \<Rightarrow> int \<Rightarrow> string" where
  "store e n v = (case e of LE \<Rightarrow> le_bytes n v | BE \<Rightarrow> be_bytes n v)"

lemma length_le_bytes [simp]: "length (le_bytes n v) = n"
  by (induction n arbitrary: v) simp_all

lemma length_be_bytes [simp]: "length (be_bytes n v) = n"
  by (simp add: be_bytes_def)

lemma length_store [simp]: "length (store e n v) = n"
  by (simp add: store_def split: endian.split)

lemma of_char_range: "0 \<le> (of_char c :: int)" "(of_char c :: int) < 256"
  by (metis of_char_of of_nat_of_char of_nat_0_le_iff)
    (metis char_of_quasi_inj of_char_mod_256 pos_mod_bound zero_less_numeral)

lemma le_val_bytes: "le_val (le_bytes n v) = v mod 256 ^ n"
proof (induction n arbitrary: v)
  case (Suc n)
  have "v mod 256 ^ Suc n = v mod 256 + 256 * (v div 256 mod 256 ^ n)"
    by (simp add: zmod_zmult2_eq mult.commute)
  with Suc show ?case by (simp add: of_char_of)
qed simp

lemma le_bytes_val: "le_bytes (length bs) (le_val bs) = bs"
proof (induction bs)
  case (Cons c cs)
  have "(of_char c + 256 * le_val cs) mod 256 = (of_char c :: int)"
    using of_char_range [of c] by simp
  moreover have "(of_char c + 256 * le_val cs) div 256 = le_val cs"
    using of_char_range [of c] by simp
  ultimately show ?case using Cons by simp
qed simp

lemma le_val_range: "0 \<le> le_val bs" "le_val bs < 256 ^ length bs"
  by (metis le_bytes_val le_val_bytes pos_mod_sign zero_less_numeral zero_less_power)
    (metis le_bytes_val le_val_bytes pos_mod_bound zero_less_numeral zero_less_power)

lemma be_val_range: "0 \<le> be_val bs" "be_val bs < 256 ^ length bs"
  using le_val_range [of "rev bs"] by (simp_all add: be_val_def)

lemma be_val_bytes: "be_val (be_bytes n v) = v mod 256 ^ n"
  by (simp add: be_val_def be_bytes_def le_val_bytes)

lemma be_bytes_val: "length bs = n \<Longrightarrow> be_bytes n (be_val bs) = bs"
  using le_bytes_val [of "rev bs"] by (simp add: be_val_def be_bytes_def)

lemma load_store: "load e (store e n v) = v mod 256 ^ n"
  by (simp add: load_def store_def le_val_bytes be_val_bytes split: endian.split)

lemma store_load: "length bs = n \<Longrightarrow> store e n (load e bs) = bs"
  using le_bytes_val [of bs] by (simp add: load_def store_def be_bytes_val split: endian.split)

section \<open>Byte order conversions\<close>

definition ntohl :: "endian \<Rightarrow> int \<Rightarrow> int" where
  "ntohl e v = (case e of BE \<Rightarrow> u32 v | LE \<Rightarrow> be_val (le_bytes 4 v))"

definition htonl :: "endian \<Rightarrow> int \<Rightarrow> int" where
  "htonl e v = ntohl e v"

definition ntohs :: "endian \<Rightarrow> int \<Rightarrow> int" where
  "ntohs e v = (case e of BE \<Rightarrow> v mod 65536 | LE \<Rightarrow> be_val (le_bytes 2 v))"

definition htons :: "endian \<Rightarrow> int \<Rightarrow> int" where
  "htons e v = ntohs e v"

definition swapll :: "endian \<Rightarrow> 64 word \<Rightarrow> 64 word" where
  "swapll e v =
    (case e of
       BE \<Rightarrow> v
     | LE \<Rightarrow> (push_bit 56 v
            OR push_bit 40 (v AND 0xff00)
            OR push_bit 24 (v AND 0xff0000)
            OR push_bit 8 (v AND 0xff000000)
            OR (drop_bit 8 v AND 0xff000000)
            OR (drop_bit 24 v AND 0xff0000)
            OR (drop_bit 40 v AND 0xff00)
            OR drop_bit 56 v))"

definition h2nll :: "endian \<Rightarrow> int \<Rightarrow> int" where
  "h2nll e v = uint (swapll e (word_of_int v))"

definition n2hll :: "endian \<Rightarrow> int \<Rightarrow> int" where
  "n2hll e v = uint (swapll e (word_of_int v))"

lemma swapll_bit:
  assumes "n < 64"
  shows "bit (swapll LE v) n \<longleftrightarrow> bit v (56 - 8 * (n div 8) + n mod 8)"
proof -
  have big: "\<not> bit v m" if "64 \<le> m" for m
    using bit_imp_le_length [of v m] that by auto
  have "n \<in> {..< 64}" using assms by simp
  then show ?thesis
    unfolding swapll_def lessThan_nat_numeral pred_numeral_simps
    by (simp add: lessThan_nat_numeral; elim disjE; simp add: bit_simps big numeral_2_eq_2 [symmetric])
qed

text \<open>The value of a byte string has the bits of its bytes.\<close>

lemma bit_le_val: "bit (le_val bs) n \<longleftrightarrow> n div 8 < length bs \<and> bit (of_char (bs ! (n div 8)) :: int) (n mod 8)"
proof (induction bs arbitrary: n)
  case (Cons c cs)
  have split: "(of_char c + 256 * le_val cs :: int) = concat_bit 8 (of_char c) (le_val cs)"
    using of_char_range [of c] by (simp add: concat_bit_eq push_bit_eq_mult take_bit_int_eq_self)
  show ?case
  proof (cases "n < 8")
    case True
    then show ?thesis by (simp add: split bit_concat_bit_iff)
  next
    case False
    then have "n div 8 = Suc ((n - 8) div 8)" "n mod 8 = (n - 8) mod 8"
      by (simp_all add: le_div_geq le_mod_geq)
    with False Cons [of "n - 8"] show ?thesis by (simp add: split bit_concat_bit_iff)
  qed
qed simp

lemma swapll_le_val:
  assumes "length bs = 8"
  shows "swapll LE (word_of_int (le_val bs)) = word_of_int (be_val bs)"
proof (rule bit_word_eqI)
  fix n assume "n < LENGTH(64)"
  then have n: "n < 64" by simp
  define k where "k = 56 - 8 * (n div 8) + n mod 8"
  have "k = 8 * (7 - n div 8) + n mod 8" using n by (simp add: k_def diff_mult_distrib2)
  then have kd: "k div 8 = 7 - n div 8" "k mod 8 = n mod 8" "k < 64"
    using n by (simp_all add: k_def)
  have "rev bs ! (n div 8) = bs ! (7 - n div 8)" using n assms by (simp add: rev_nth)
  moreover have "n div 8 < 8" "7 - n div 8 < 8" using n by simp_all
  ultimately show "bit (swapll LE (word_of_int (le_val bs))) n =
      bit (word_of_int (be_val bs) :: 64 word) n"
    using n kd assms
    by (simp add: swapll_bit bit_word_of_int_iff bit_le_val be_val_def flip: k_def)
qed

lemma n2hll_load:
  assumes "length bs = 8"
  shows "n2hll e (load e bs) = be_val bs"
proof -
  have "be_val bs < 2 ^ 64" using be_val_range [of bs] assms by simp
  then show ?thesis
    using swapll_le_val [OF assms] be_val_range(1) [of bs]
    by (cases e) (simp_all add: n2hll_def load_def swapll_def uint_word_of_int take_bit_int_eq_self)
qed

lemma ntohl_load:
  assumes "length bs = 4"
  shows "ntohl e (load e bs) = be_val bs"
  using be_val_range [of bs] le_bytes_val [of bs] assms
  by (cases e) (simp_all add: ntohl_def load_def u32_id)

lemma ntohs_load:
  assumes "length bs = 2"
  shows "ntohs e (load e bs) = be_val bs"
  using be_val_range [of bs] le_bytes_val [of bs] assms
  by (cases e) (simp_all add: ntohs_def load_def)

lemma le_bytes_mod: "le_bytes n (v mod 256 ^ n) = le_bytes n v"
  using le_bytes_val [of "le_bytes n v"] by (simp add: le_val_bytes)

lemma le_bytes_wrap [simp]: "le_bytes 4 (u32 v) = le_bytes 4 v" "le_bytes 4 (i32 v) = le_bytes 4 v"
  using le_bytes_mod [of 4 v] le_bytes_mod [of 4 "i32 v"] u32_i32 [of v] by (simp_all add: u32_def)

lemma store_htonl: "store e 4 (htonl e v) = be_bytes 4 v"
  using le_bytes_val [of "rev (le_bytes 4 v)"]
  by (cases e) (simp_all add: store_def htonl_def ntohl_def be_bytes_def be_val_def)

lemma store_h2nll: "store e 8 (h2nll e v) = be_bytes 8 v"
proof (cases e)
  case LE
  have "word_of_int v = (word_of_int (le_val (le_bytes 8 v)) :: 64 word)"
    by (simp add: le_val_bytes word_of_int_eq_iff take_bit_eq_mod)
  then have "h2nll LE v = be_val (le_bytes 8 v)"
    using swapll_le_val [of "le_bytes 8 v"] be_val_range [of "le_bytes 8 v"]
    by (simp add: h2nll_def uint_word_of_int take_bit_int_eq_self)
  then show ?thesis
    using LE le_bytes_val [of "rev (le_bytes 8 v)"] by (simp add: store_def be_bytes_def be_val_def)
next
  case BE
  then show ?thesis
    using le_bytes_mod [of 8 v]
    by (simp add: store_def h2nll_def swapll_def be_bytes_def uint_word_of_int take_bit_eq_mod)
qed

lemma le_val_append: "le_val (a @ b) = le_val a + 256 ^ length a * le_val b"
  by (induction a) (simp_all add: algebra_simps)

lemma le_bytes_numeral:
  "le_bytes (numeral k) v = char_of (v mod 256) # le_bytes (pred_numeral k) (v div 256)"
  by (simp add: numeral_eq_Suc)

end
