(* ===== verification/Flags.thy ===== *)
theory Flags
  imports Bytes
begin

text \<open>
  The flag words of \<^verbatim>\<open>src/src/common\<close>: \<^verbatim>\<open>MessageSysFlag\<close> (compression, multi tags, transaction
  state), \<^verbatim>\<open>PermName\<close> (topic permissions) and \<^verbatim>\<open>PullSysFlag\<close> (options of a pull request). An
  \<^verbatim>\<open>int\<close> is an \<^typ>\<open>int\<close>, on which the bitwise operations are those of two's complement.
\<close>

section \<open>MessageSysFlag\<close>

definition CompressedFlag :: int where "CompressedFlag = push_bit 0 1"
definition MultiTagsFlag :: int where "MultiTagsFlag = push_bit 1 1"
definition TransactionNotType :: int where "TransactionNotType = push_bit 2 0"
definition TransactionPreparedType :: int where "TransactionPreparedType = push_bit 2 1"
definition TransactionCommitType :: int where "TransactionCommitType = push_bit 2 2"
definition TransactionRollbackType :: int where "TransactionRollbackType = push_bit 2 3"

definition getTransactionValue :: "int \<Rightarrow> int" where
  "getTransactionValue flag = flag AND TransactionRollbackType"

definition resetTransactionValue :: "int \<Rightarrow> int \<Rightarrow> int" where
  "resetTransactionValue flag type = (flag AND NOT TransactionRollbackType) OR type"

section \<open>PermName\<close>

definition PERM_PRIORITY :: int where "PERM_PRIORITY = push_bit 3 1"
definition PERM_READ :: int where "PERM_READ = push_bit 2 1"
definition PERM_WRITE :: int where "PERM_WRITE = push_bit 1 1"
definition PERM_INHERIT :: int where "PERM_INHERIT = push_bit 0 1"

definition isReadable :: "int \<Rightarrow> bool" where
  "isReadable perm \<longleftrightarrow> perm AND PERM_READ = PERM_READ"

definition isWriteable :: "int \<Rightarrow> bool" where
  "isWriteable perm \<longleftrightarrow> perm AND PERM_WRITE = PERM_WRITE"

definition isInherited :: "int \<Rightarrow> bool" where
  "isInherited perm \<longleftrightarrow> perm AND PERM_INHERIT = PERM_INHERIT"

text \<open>\<^verbatim>\<open>std::string::replace(pos, n, s)\<close>, which raises when \<open>pos\<close> is past the end.\<close>

definition str_replace :: "string \<Rightarrow> nat \<Rightarrow> nat \<Rightarrow> string \<Rightarrow> string result" where
  "str_replace s pos n t =
     (if pos > length s then Inl StdException else Inr (take pos s @ t @ drop (pos + n) s))"

definition perm2String :: "int \<Rightarrow> string result" where
  "perm2String perm =
     (let pm0 = ''---'';
          pm1 = (if isReadable perm then str_replace pm0 0 1 ''R'' else Inr pm0)
      in case pm1 of Inl x \<Rightarrow> Inl x | Inr p1 \<Rightarrow>
        (case (if isWriteable perm then str_replace p1 1 2 ''W'' else Inr p1) of Inl x \<Rightarrow> Inl x
         | Inr p2 \<Rightarrow> if isInherited perm then str_replace p2 2 3 ''X'' else Inr p2))"

section \<open>PullSysFlag\<close>

definition FLAG_COMMIT_OFFSET :: int where "FLAG_COMMIT_OFFSET = push_bit 0 1"
definition FLAG_SUSPEND :: int where "FLAG_SUSPEND = push_bit 1 1"
definition FLAG_SUBSCRIPTION :: int where "FLAG_SUBSCRIPTION = push_bit 2 1"

definition buildSysFlag :: "bool \<Rightarrow> bool \<Rightarrow> bool \<Rightarrow> int" where
  "buildSysFlag commitOffset suspend subscription =
     (let flag0 = 0;
          flag1 = (if commitOffset then flag0 OR FLAG_COMMIT_OFFSET else flag0);
          flag2 = (if suspend then flag1 OR FLAG_SUSPEND else flag1)
      in if subscription then flag2 OR FLAG_SUBSCRIPTION else flag2)"

definition clearCommitOffsetFlag :: "int \<Rightarrow> int" where
  "clearCommitOffsetFlag sysFlag = sysFlag AND NOT FLAG_COMMIT_OFFSET"

definition hasCommitOffsetFlag :: "int \<Rightarrow> bool" where
  "hasCommitOffsetFlag sysFlag \<longleftrightarrow> sysFlag AND FLAG_COMMIT_OFFSET = FLAG_COMMIT_OFFSET"

definition hasSuspendFlag :: "int \<Rightarrow> bool" where
  "hasSuspendFlag sysFlag \<longleftrightarrow> sysFlag AND FLAG_SUSPEND = FLAG_SUSPEND"

definition hasSubscriptionFlag :: "int \<Rightarrow> bool" where
  "hasSubscriptionFlag sysFlag \<longleftrightarrow> sysFlag AND FLAG_SUBSCRIPTION = FLAG_SUBSCRIPTION"

section \<open>Single-bit tests\<close>

lemma and_power_eq_iff: "(x :: int) AND push_bit n 1 = push_bit n 1 \<longleftrightarrow> bit x n"
proof
  assume "x AND push_bit n 1 = push_bit n 1"
  then have "bit (x AND push_bit n 1) n = bit (push_bit n 1 :: int) n" by simp
  then show "bit x n" by (simp add: bit_simps)
qed (auto intro!: bit_eqI simp: bit_simps)

lemma bit_push_bit_1: "bit (push_bit n 1 :: int) m \<longleftrightarrow> m = n"
  by (auto simp: bit_simps)

lemma flag_tests:
  "isReadable w \<longleftrightarrow> bit w 2" "isWriteable w \<longleftrightarrow> bit w 1" "isInherited w \<longleftrightarrow> bit w 0"
  "hasCommitOffsetFlag w \<longleftrightarrow> bit w 0" "hasSuspendFlag w \<longleftrightarrow> bit w 1"
  "hasSubscriptionFlag w \<longleftrightarrow> bit w 2"
  unfolding isReadable_def isWriteable_def isInherited_def hasCommitOffsetFlag_def
    hasSuspendFlag_def hasSubscriptionFlag_def PERM_READ_def PERM_WRITE_def PERM_INHERIT_def
    FLAG_COMMIT_OFFSET_def FLAG_SUSPEND_def FLAG_SUBSCRIPTION_def by (rule and_power_eq_iff)+

lemma flag_constant_bits:
  "bit FLAG_COMMIT_OFFSET n \<longleftrightarrow> n = 0" "bit FLAG_SUSPEND n \<longleftrightarrow> n = 1"
  "bit FLAG_SUBSCRIPTION n \<longleftrightarrow> n = 2"
  unfolding FLAG_COMMIT_OFFSET_def FLAG_SUSPEND_def FLAG_SUBSCRIPTION_def by (rule bit_push_bit_1)+

lemma bit_rollback: "bit TransactionRollbackType m \<longleftrightarrow> m = 2 \<or> m = 3"
proof -
  have e: "TransactionRollbackType = push_bit 2 (mask 2)"
    by (simp add: TransactionRollbackType_def mask_eq_exp_minus_1)
  show ?thesis unfolding e bit_push_bit_iff bit_mask_iff by auto
qed

section \<open>Properties\<close>

text \<open>
  The pull flags are independent: the word built from the three options answers
  each test with the option it was built from, and clearing the commit flag of any word
  changes the answer of that test only.
\<close>

theorem pull_flags_independent:
  "(hasCommitOffsetFlag (buildSysFlag a b c) \<longleftrightarrow> a) \<and> (hasSuspendFlag (buildSysFlag a b c) \<longleftrightarrow> b) \<and>
   (hasSubscriptionFlag (buildSysFlag a b c) \<longleftrightarrow> c) \<and>
   \<not> hasCommitOffsetFlag (clearCommitOffsetFlag w) \<and>
   (hasSuspendFlag (clearCommitOffsetFlag w) \<longleftrightarrow> hasSuspendFlag w) \<and>
   (hasSubscriptionFlag (clearCommitOffsetFlag w) \<longleftrightarrow> hasSubscriptionFlag w)"
  by (simp add: buildSysFlag_def clearCommitOffsetFlag_def flag_tests flag_constant_bits
      bit_or_iff bit_and_iff bit_not_iff Let_def)

text \<open>
  Resetting the transaction state of a message flag to one of the four states
  makes it that state, and leaves every other bit of the flag (compression, multi tags and
  the unused ones) as it was.
\<close>

theorem reset_transaction_value:
  assumes "t \<in> {TransactionNotType, TransactionPreparedType, TransactionCommitType,
                TransactionRollbackType}"
  shows "getTransactionValue (resetTransactionValue flag t) = t \<and>
    (\<forall>n. n \<noteq> 2 \<and> n \<noteq> 3 \<longrightarrow> bit (resetTransactionValue flag t) n = bit flag n)"
proof -
  have t: "t AND TransactionRollbackType = t"
    using assms by (auto simp: TransactionNotType_def TransactionPreparedType_def
        TransactionCommitType_def TransactionRollbackType_def)
  then have bt: "bit t n \<Longrightarrow> n = 2 \<or> n = 3" for n
    by (metis bit_and_iff bit_rollback)
  have "getTransactionValue (resetTransactionValue flag t) = t"
    unfolding getTransactionValue_def resetTransactionValue_def
    by (rule bit_eqI) (auto simp: bit_simps bit_rollback dest: bt)
  moreover have "bit (resetTransactionValue flag t) n = bit flag n" if "n \<noteq> 2" "n \<noteq> 3" for n
    using that bt by (auto simp: resetTransactionValue_def bit_simps bit_rollback)
  ultimately show ?thesis by blast
qed

theorem reset_transaction_value_witness:
  "getTransactionValue (resetTransactionValue 7 TransactionCommitType) = TransactionCommitType \<and>
   bit (resetTransactionValue 7 TransactionCommitType) 1"
proof -
  have "TransactionCommitType \<in> {TransactionNotType, TransactionPreparedType,
    TransactionCommitType, TransactionRollbackType}" by simp
  from reset_transaction_value [OF this, of 7] show ?thesis
    by (auto dest: spec [of _ 1] simp: bit_iff_odd)
qed

text \<open>
  \<^verbatim>\<open>perm2String\<close> renders the eight combinations; a writeable topic loses the
  third character, because \<^verbatim>\<open>replace(1, 2, "W")\<close> removes two characters and inserts one.
\<close>

theorem perm2String_rendering:
  "perm2String perm = Inr ((if isReadable perm then ''R'' else ''-'') @
     (if isWriteable perm then ''W'' else ''-'') @
     (if isInherited perm then ''X'' else if isWriteable perm then [] else ''-''))"
  by (simp add: perm2String_def str_replace_def Let_def)

end
