(* ===== verification/Message.thy ===== *)
theory Message
  imports Flags
begin

text \<open>
  \<^verbatim>\<open>src/src/message/Message.cpp\<close> and \<^verbatim>\<open>MessageExt.cpp\<close>: a message (topic, flag, properties,
  body) and the received message, which extends it with what the broker stores. The body
  pointer is an option (\<^const>\<open>None\<close> is \<^verbatim>\<open>NULL\<close>); its length is the separate field it is in the
  code.
\<close>

section \<open>Message\<close>

definition PROPERTY_KEYS :: string where "PROPERTY_KEYS = ''KEYS''"
definition PROPERTY_TAGS :: string where "PROPERTY_TAGS = ''TAGS''"
definition PROPERTY_WAIT_STORE_MSG_OK :: string where "PROPERTY_WAIT_STORE_MSG_OK = ''WAIT''"
definition PROPERTY_DELAY_TIME_LEVEL :: string where "PROPERTY_DELAY_TIME_LEVEL = ''DELAY''"
definition PROPERTY_RETRY_TOPIC :: string where "PROPERTY_RETRY_TOPIC = ''RETRY_TOPIC''"
definition PROPERTY_MIN_OFFSET :: string where "PROPERTY_MIN_OFFSET = ''MIN_OFFSET''"
definition PROPERTY_MAX_OFFSET :: string where "PROPERTY_MAX_OFFSET = ''MAX_OFFSET''"
definition KEY_SEPARATOR :: string where "KEY_SEPARATOR = '' ''"

lemmas property_names = PROPERTY_KEYS_def PROPERTY_TAGS_def PROPERTY_WAIT_STORE_MSG_OK_def
  PROPERTY_DELAY_TIME_LEVEL_def PROPERTY_RETRY_TOPIC_def PROPERTY_MIN_OFFSET_def
  PROPERTY_MAX_OFFSET_def

record Message =
  m_topic :: string
  m_flag :: int
  m_properties :: "(string, string) stdmap"
  m_body :: "string option"
  m_bodyLen :: int

definition clearProperty :: "string \<Rightarrow> 'a Message_scheme \<Rightarrow> 'a Message_scheme" where
  "clearProperty name m = m\<lparr>m_properties := mdel name (m_properties m)\<rparr>"

definition putProperty :: "string \<Rightarrow> string \<Rightarrow> 'a Message_scheme \<Rightarrow> 'a Message_scheme" where
  "putProperty name value m = m\<lparr>m_properties := mput name value (m_properties m)\<rparr>"

definition getProperty :: "string \<Rightarrow> 'a Message_scheme \<Rightarrow> string" where
  "getProperty name m = (case mget (m_properties m) name of None \<Rightarrow> [] | Some v \<Rightarrow> v)"

definition setTopic_msg :: "string \<Rightarrow> 'a Message_scheme \<Rightarrow> 'a Message_scheme" where
  "setTopic_msg topic m = m\<lparr>m_topic := topic\<rparr>"

definition getTags :: "'a Message_scheme \<Rightarrow> string" where
  "getTags m = getProperty PROPERTY_TAGS m"

definition setTags :: "string \<Rightarrow> 'a Message_scheme \<Rightarrow> 'a Message_scheme" where
  "setTags tags m = putProperty PROPERTY_TAGS tags m"

definition getKeys :: "'a Message_scheme \<Rightarrow> string" where
  "getKeys m = getProperty PROPERTY_KEYS m"

definition setKeys :: "string \<Rightarrow> 'a Message_scheme \<Rightarrow> 'a Message_scheme" where
  "setKeys keys m = putProperty PROPERTY_KEYS keys m"

definition setKeys_list :: "string list \<Rightarrow> 'a Message_scheme \<Rightarrow> 'a Message_scheme" where
  "setKeys_list keys m =
     (case keys of
        [] \<Rightarrow> m
      | k # ks \<Rightarrow> setKeys (foldl (\<lambda>str x. str @ KEY_SEPARATOR @ x) k ks) m)"

definition getDelayTimeLevel :: "'a Message_scheme \<Rightarrow> int" where
  "getDelayTimeLevel m =
     (let tmp = getProperty PROPERTY_DELAY_TIME_LEVEL m in if tmp \<noteq> [] then atoi tmp else 0)"

definition setDelayTimeLevel :: "int \<Rightarrow> 'a Message_scheme \<Rightarrow> 'a Message_scheme" where
  "setDelayTimeLevel level m = putProperty PROPERTY_DELAY_TIME_LEVEL (show_int level) m"

definition isWaitStoreMsgOK :: "'a Message_scheme \<Rightarrow> bool" where
  "isWaitStoreMsgOK m =
     (let tmp = getProperty PROPERTY_WAIT_STORE_MSG_OK m in if tmp = [] then True else tmp = ''true'')"

definition setWaitStoreMsgOK :: "bool \<Rightarrow> 'a Message_scheme \<Rightarrow> 'a Message_scheme" where
  "setWaitStoreMsgOK waitStoreMsgOK m =
     (if waitStoreMsgOK then putProperty PROPERTY_WAIT_STORE_MSG_OK ''true'' m
      else putProperty PROPERTY_WAIT_STORE_MSG_OK ''false'' m)"

definition setFlag :: "int \<Rightarrow> 'a Message_scheme \<Rightarrow> 'a Message_scheme" where
  "setFlag flag m = m\<lparr>m_flag := flag\<rparr>"

definition setProperties :: "(string, string) stdmap \<Rightarrow> 'a Message_scheme \<Rightarrow> 'a Message_scheme" where
  "setProperties properties m = m\<lparr>m_properties := properties\<rparr>"

text \<open>\<^verbatim>\<open>memcpy\<close> of \<open>len\<close> bytes from a buffer: undefined when the buffer is shorter or \<^verbatim>\<open>NULL\<close>.\<close>

definition copy_bytes :: "string option \<Rightarrow> int \<Rightarrow> string result" where
  "copy_bytes body len =
     (case body of
        None \<Rightarrow> Inl Undefined
      | Some b \<Rightarrow> if int (length b) < len then Inl Undefined else Inr (take (nat len) b))"

definition setBody :: "string option \<Rightarrow> int \<Rightarrow> 'a Message_scheme \<Rightarrow> 'a Message_scheme result" where
  "setBody body len m =
     (if len > 0 then
        (case copy_bytes body len of
           Inl x \<Rightarrow> Inl x
         | Inr b \<Rightarrow> Inr (m\<lparr>m_bodyLen := len, m_body := Some b\<rparr>))
      else Inr m)"

definition Message_Init ::
  "string \<Rightarrow> string \<Rightarrow> string \<Rightarrow> int \<Rightarrow> string option \<Rightarrow> int \<Rightarrow> bool \<Rightarrow> Message result" where
  "Message_Init topic tags keys flag body len waitStoreMsgOK =
     (case (if len > 0 then map_sum id Some (copy_bytes body len) else Inr None) of
        Inl x \<Rightarrow> Inl x
      | Inr b \<Rightarrow>
          let m0 = \<lparr>m_topic = topic, m_flag = flag, m_properties = [], m_body = b, m_bodyLen = len\<rparr>;
              m1 = (if length tags > 0 then setTags tags m0 else m0);
              m2 = (if length keys > 0 then setKeys keys m1 else m1)
          in Inr (setWaitStoreMsgOK waitStoreMsgOK m2))"

definition Message_new :: "Message" where
  "Message_new = projr (Message_Init [] [] [] 0 None 0 True)"

text \<open>The copy constructor; the assignment operator copies the same fields.\<close>

definition Message_copy :: "'a Message_scheme \<Rightarrow> 'a Message_scheme result" where
  "Message_copy other =
     (if m_bodyLen other < 0 then Inl StdException
      else if m_bodyLen other = 0 then Inr (other\<lparr>m_body := Some []\<rparr>)
      else (case copy_bytes (m_body other) (m_bodyLen other) of
              Inl x \<Rightarrow> Inl x
            | Inr b \<Rightarrow> Inr (other\<lparr>m_body := Some b\<rparr>)))"

section \<open>MessageExt\<close>

record sockaddr =
  sin_family :: int
  sin_port :: int
  s_addr :: int

definition AF_INET :: int where "AF_INET = 2"

record MessageExt = Message +
  m_queueOffset :: int
  m_commitLogOffset :: int
  m_bornTimestamp :: int
  m_storeTimestamp :: int
  m_preparedTransactionOffset :: int
  m_queueId :: int
  m_storeSize :: int
  m_sysFlag :: int
  m_bodyCRC :: int
  m_reconsumeTimes :: int
  m_bornHost :: "sockaddr option"
  m_storeHost :: "sockaddr option"
  m_msgId :: string

datatype TopicFilterType = SINGLE_TAG | MULTI_TAG

definition MessageExt_new :: MessageExt where
  "MessageExt_new =
     \<lparr>m_topic = m_topic Message_new, m_flag = m_flag Message_new,
      m_properties = m_properties Message_new, m_body = m_body Message_new,
      m_bodyLen = m_bodyLen Message_new, m_queueOffset = 0, m_commitLogOffset = 0, m_bornTimestamp = 0, m_storeTimestamp = 0,
      m_preparedTransactionOffset = 0, m_queueId = 0, m_storeSize = 0, m_sysFlag = 0,
      m_bodyCRC = 0, m_reconsumeTimes = 3, m_bornHost = None, m_storeHost = None, m_msgId = []\<rparr>"

definition setQueueOffset_ext :: "int \<Rightarrow> MessageExt \<Rightarrow> MessageExt" where
  "setQueueOffset_ext queueOffset m = m\<lparr>m_queueOffset := queueOffset\<rparr>"

definition setReconsumeTimes :: "int \<Rightarrow> MessageExt \<Rightarrow> MessageExt" where
  "setReconsumeTimes reconsumeTimes m = m\<lparr>m_reconsumeTimes := reconsumeTimes\<rparr>"

definition parseTopicFilterType :: "int \<Rightarrow> TopicFilterType" where
  "parseTopicFilterType sysFlag =
     (if sysFlag AND MultiTagsFlag = MultiTagsFlag then MULTI_TAG else SINGLE_TAG)"

section \<open>Well-formed messages\<close>

definition msg_ok :: "'a Message_scheme \<Rightarrow> bool" where
  "msg_ok m \<longleftrightarrow> mok (m_properties m) \<and>
     (case m_body m of None \<Rightarrow> m_bodyLen m \<le> 0 | Some b \<Rightarrow> m_bodyLen m = int (length b))"

lemma getProperty_put [simp]:
  "getProperty k (putProperty k' v m) = (if k = k' then v else getProperty k m)"
  by (simp add: getProperty_def putProperty_def mget_mput)

lemma getProperty_clear:
  "mok (m_properties m) \<Longrightarrow>
   getProperty k (clearProperty k' m) = (if k = k' then [] else getProperty k m)"
  by (simp add: getProperty_def clearProperty_def mget_mdel)

lemma put_clear_ok:
  "msg_ok m \<Longrightarrow> msg_ok (putProperty k v m)" "msg_ok m \<Longrightarrow> msg_ok (clearProperty k m)"
  by (simp_all add: msg_ok_def putProperty_def clearProperty_def mok_mput mok_mdel split: option.splits)

lemma setters_ok:
  assumes "msg_ok m"
  shows "msg_ok (setTags t m)" "msg_ok (setKeys t m)" "msg_ok (setKeys_list ks m)"
    "msg_ok (setDelayTimeLevel l m)" "msg_ok (setWaitStoreMsgOK w m)"
  using assms by (simp_all add: setTags_def setKeys_def setKeys_list_def setDelayTimeLevel_def
      setWaitStoreMsgOK_def put_clear_ok split: list.split)

lemma copy_bytes_Inr: "copy_bytes body len = Inr b \<Longrightarrow> 0 \<le> len \<Longrightarrow> int (length b) = len"
  by (auto simp: copy_bytes_def split: option.splits if_splits)

lemma setBody_ok: "msg_ok m \<Longrightarrow> setBody body len m = Inr m' \<Longrightarrow> msg_ok m'"
  by (auto simp: setBody_def msg_ok_def dest: copy_bytes_Inr split: sum.splits if_splits)

lemma Message_Init_ok:
  assumes "Message_Init topic tags keys flag body len w = Inr m"
  shows "msg_ok m"
proof -
  obtain b where b: "(if len > 0 then map_sum id Some (copy_bytes body len) else Inr None) = Inr b"
    using assms by (auto simp: Message_Init_def split: sum.splits)
  then have "msg_ok \<lparr>m_topic = topic, m_flag = flag, m_properties = [], m_body = b, m_bodyLen = len\<rparr>"
    by (cases "copy_bytes body len") (auto simp: msg_ok_def dest: copy_bytes_Inr split: if_splits)
  then show ?thesis
    using assms unfolding Message_Init_def b by (auto simp: Let_def setters_ok split: if_splits)
qed

lemma Message_copy_ok: "msg_ok m \<Longrightarrow> Message_copy m = Inr m' \<Longrightarrow> msg_ok m'"
  by (auto simp: Message_copy_def msg_ok_def dest: copy_bytes_Inr split: sum.splits if_splits)

lemma Message_new_simp:
  "Message_new = \<lparr>m_topic = [], m_flag = 0, m_properties = [(''WAIT'', ''true'')], m_body = None, m_bodyLen = 0\<rparr>"
  by (simp add: Message_new_def Message_Init_def setWaitStoreMsgOK_def putProperty_def property_names)

section \<open>Properties\<close>

text \<open>
  The reserved properties of a message are independent: after setting the delay
  level, the wait flag, the tags and the keys (in any of the orders the setters allow), each
  getter returns the value that was set, the delay level for every 32-bit integer.
\<close>

theorem message_properties_roundtrip:
  assumes "- 2147483648 \<le> level" "level < 2147483648"
  shows "getDelayTimeLevel (setDelayTimeLevel level m) = level \<and>
    isWaitStoreMsgOK (setWaitStoreMsgOK w m) = w \<and>
    getTags (setTags t m) = t \<and> getKeys (setKeys k m) = k \<and>
    getDelayTimeLevel (setWaitStoreMsgOK w (setTags t (setKeys k m))) = getDelayTimeLevel m \<and>
    isWaitStoreMsgOK (setDelayTimeLevel level (setTags t (setKeys k m))) = isWaitStoreMsgOK m \<and>
    getTags (setDelayTimeLevel level (setWaitStoreMsgOK w (setKeys k m))) = getTags m \<and>
    getKeys (setDelayTimeLevel level (setWaitStoreMsgOK w (setTags t m))) = getKeys m"
proof -
  have "show_int level \<noteq> []" by (simp add: show_int_def show_nat.simps)
  then show ?thesis
    using atoi_show_int [OF assms]
    by (simp add: getDelayTimeLevel_def setDelayTimeLevel_def isWaitStoreMsgOK_def
        setWaitStoreMsgOK_def getTags_def setTags_def getKeys_def setKeys_def property_names)
qed

theorem message_properties_roundtrip_witness:
  "getDelayTimeLevel (setDelayTimeLevel (- 3) Message_new) = - 3"
  using message_properties_roundtrip [of "- 3" Message_new] by simp

text \<open>
  A constructed message is well formed (the properties are in key order, the
  body buffer has exactly the recorded length), and every operation that changes a message
  keeps it so.
\<close>

theorem message_invariant:
  "(Message_Init topic tags keys flag body len w = Inr m0 \<longrightarrow> msg_ok m0) \<and>
   (msg_ok m \<longrightarrow>
      msg_ok (putProperty k v m) \<and> msg_ok (clearProperty k m) \<and> msg_ok (setTags tags m) \<and>
      msg_ok (setKeys keys m) \<and> msg_ok (setKeys_list ks m) \<and> msg_ok (setDelayTimeLevel l m) \<and>
      msg_ok (setWaitStoreMsgOK w m) \<and>
      (setBody body len m = Inr m1 \<longrightarrow> msg_ok m1) \<and> (Message_copy m = Inr m2 \<longrightarrow> msg_ok m2))"
  by (intro conjI impI)
    (erule Message_Init_ok | erule (1) setBody_ok | erule (1) Message_copy_ok
      | simp add: setters_ok put_clear_ok)+

theorem message_invariant_witness:
  "msg_ok (putProperty ''k'' ''v'' (projr (Message_Init ''T'' ''tag'' [] 0 (Some ''xy'') 2 True)))"
proof -
  obtain m where m: "Message_Init ''T'' ''tag'' [] 0 (Some ''xy'') 2 True = Inr m"
    by (simp add: Message_Init_def copy_bytes_def)
  have "msg_ok m" by (rule message_invariant [THEN conjunct1, rule_format, OF m])
  then have "msg_ok (putProperty ''k'' ''v'' m)"
    by (rule message_invariant [THEN conjunct2, rule_format, THEN conjunct1])
  with m show ?thesis by simp
qed

end
