(* ===== verification/Queue.thy ===== *)
theory Queue
  imports Util
begin

text \<open>
  \<^verbatim>\<open>src/src/message/MessageQueue.cpp\<close>: the name of a queue (topic, broker, queue number) and
  the order that sorts it in every \<^verbatim>\<open>std::set\<close> and \<^verbatim>\<open>std::map\<close> of the client.
\<close>

datatype MessageQueue =
  MessageQueue (getTopic: string) (getBrokerName: string) (getQueueId: int)

definition setTopic_mq :: "MessageQueue \<Rightarrow> string \<Rightarrow> MessageQueue" where
  "setTopic_mq mq topic = MessageQueue topic (getBrokerName mq) (getQueueId mq)"

definition setBrokerName :: "MessageQueue \<Rightarrow> string \<Rightarrow> MessageQueue" where
  "setBrokerName mq brokerName = MessageQueue (getTopic mq) brokerName (getQueueId mq)"

definition setQueueId_mq :: "MessageQueue \<Rightarrow> int \<Rightarrow> MessageQueue" where
  "setQueueId_mq mq queueId = MessageQueue (getTopic mq) (getBrokerName mq) queueId"

definition toString_mq :: "MessageQueue \<Rightarrow> string" where
  "toString_mq mq =
     ''{'' @ ''Topic:'' @ getTopic mq @ '', BrokerName: '' @ getBrokerName mq @
     '', QueueId: '' @ show_int (getQueueId mq) @ ''}''"

text \<open>The operator compares the fields one by one and answers at the first difference.\<close>

definition operator_eq :: "MessageQueue \<Rightarrow> MessageQueue \<Rightarrow> bool" where
  "operator_eq a b =
     (if getBrokerName a \<noteq> getBrokerName b then False
      else if getQueueId a \<noteq> getQueueId b then False
      else if getTopic a \<noteq> getTopic b then False
      else True)"

text \<open>\<^verbatim>\<open>strcmp\<close>: only the sign of its result is specified.\<close>

definition strcmp :: "string \<Rightarrow> string \<Rightarrow> int" where
  "strcmp s t = (if c_str s < c_str t then - 1 else if c_str s = c_str t then 0 else 1)"

definition compareTo :: "MessageQueue \<Rightarrow> MessageQueue \<Rightarrow> int" where
  "compareTo a b =
     (let result = strcmp (getTopic a) (getTopic b) in
      if result \<noteq> 0 then result
      else (let result = strcmp (getBrokerName a) (getBrokerName b) in
            if result \<noteq> 0 then result
            else i32 (getQueueId a - getQueueId b)))"

definition operator_less :: "MessageQueue \<Rightarrow> MessageQueue \<Rightarrow> bool" where
  "operator_less a b \<longleftrightarrow> compareTo a b < 0"

text \<open>
  What the class promises its containers: names without a NUL byte and queue numbers a
  broker hands out (not negative), on which \<^verbatim>\<open>operator<\<close> is the lexicographic order.
\<close>

definition mq_ok :: "MessageQueue \<Rightarrow> bool" where
  "mq_ok mq \<longleftrightarrow> CHR 0x00 \<notin> set (getTopic mq) \<and> CHR 0x00 \<notin> set (getBrokerName mq) \<and>
     0 \<le> getQueueId mq \<and> getQueueId mq < 2147483648"

instantiation MessageQueue :: linorder
begin

definition less_MessageQueue :: "MessageQueue \<Rightarrow> MessageQueue \<Rightarrow> bool" where
  "less_MessageQueue a b \<longleftrightarrow>
     getTopic a < getTopic b \<or>
     (getTopic a = getTopic b \<and>
      (getBrokerName a < getBrokerName b \<or>
       (getBrokerName a = getBrokerName b \<and> getQueueId a < getQueueId b)))"

definition less_eq_MessageQueue :: "MessageQueue \<Rightarrow> MessageQueue \<Rightarrow> bool" where
  "less_eq_MessageQueue a b \<longleftrightarrow> a = b \<or> a < b"

instance
proof
  fix x y z :: MessageQueue
  show "(x < y) = (x \<le> y \<and> \<not> y \<le> x)"
    by (auto simp: less_MessageQueue_def less_eq_MessageQueue_def)
  show "x \<le> x" by (simp add: less_eq_MessageQueue_def)
  show "x \<le> y \<Longrightarrow> y \<le> z \<Longrightarrow> x \<le> z"
    by (auto simp: less_MessageQueue_def less_eq_MessageQueue_def)
  show "x \<le> y \<Longrightarrow> y \<le> x \<Longrightarrow> x = y"
    by (auto simp: less_MessageQueue_def less_eq_MessageQueue_def)
  show "x \<le> y \<or> y \<le> x"
    by (cases x; cases y) (auto simp: less_MessageQueue_def less_eq_MessageQueue_def)
qed

end

lemma operator_eq_iff: "operator_eq a b \<longleftrightarrow> a = b"
  by (cases a; cases b) (auto simp: operator_eq_def)

lemma strcmp_facts:
  assumes "CHR 0x00 \<notin> set s" "CHR 0x00 \<notin> set t"
  shows "strcmp s t < 0 \<longleftrightarrow> s < t" "strcmp s t = 0 \<longleftrightarrow> s = t"
  using assms by (auto simp: strcmp_def c_str_id)

lemma operator_less_iff:
  assumes "mq_ok a" "mq_ok b"
  shows "operator_less a b \<longleftrightarrow> a < b"
proof -
  have t: "strcmp (getTopic a) (getTopic b) < 0 \<longleftrightarrow> getTopic a < getTopic b"
      "strcmp (getTopic a) (getTopic b) = 0 \<longleftrightarrow> getTopic a = getTopic b"
    and n: "strcmp (getBrokerName a) (getBrokerName b) < 0 \<longleftrightarrow> getBrokerName a < getBrokerName b"
      "strcmp (getBrokerName a) (getBrokerName b) = 0 \<longleftrightarrow> getBrokerName a = getBrokerName b"
    using assms strcmp_facts by (simp_all add: mq_ok_def)
  have q: "i32 (getQueueId a - getQueueId b) = getQueueId a - getQueueId b"
    using assms by (simp add: mq_ok_def i32_id)
  show ?thesis
    unfolding operator_less_def compareTo_def Let_def less_MessageQueue_def
    using t n q by auto
qed

text \<open>
  Property C40. On well-formed queue names \<^verbatim>\<open>MessageQueue::operator<\<close> is a strict total order
  that agrees with \<^verbatim>\<open>operator==\<close>: exactly one of less, equal and greater holds, and it is
  transitive, so the containers keyed by a queue are well defined.
\<close>

theorem operator_less_total_order:
  assumes "mq_ok a" "mq_ok b" "mq_ok c"
  shows "\<not> operator_less a a \<and>
    (operator_less a b \<and> operator_less b c \<longrightarrow> operator_less a c) \<and>
    (operator_eq a b \<longleftrightarrow> \<not> operator_less a b \<and> \<not> operator_less b a) \<and>
    (operator_less a b \<longleftrightarrow> a < b)"
  using assms by (auto simp: operator_less_iff operator_eq_iff)

theorem operator_less_total_order_witness:
  "operator_less (MessageQueue ''T'' ''b'' 1) (MessageQueue ''T'' ''b'' 2) \<and>
   mq_ok (MessageQueue ''T'' ''b'' 1) \<and> mq_ok (MessageQueue ''T'' ''b'' 2)"
proof -
  have ok: "mq_ok (MessageQueue ''T'' ''b'' 1)" "mq_ok (MessageQueue ''T'' ''b'' 2)"
    by (simp_all add: mq_ok_def)
  show ?thesis
    using ok operator_less_total_order [OF ok(1) ok(2) ok(1)] by (simp add: less_MessageQueue_def)
qed

end
