(* ===== verification/Common.thy ===== *)
theory Common
  imports Message Queue
begin

text \<open>
  The rest of \<^verbatim>\<open>src/src/common\<close> that the clients call: \<^verbatim>\<open>VirtualEnvUtil\<close> (project suffixes),
  \<^verbatim>\<open>MixAll\<close> (retry topics, the increase-only compare-and-set loop, the choice of a broker
  address), \<^verbatim>\<open>Validators\<close>, \<^verbatim>\<open>FilterAPI\<close> with \<^verbatim>\<open>SubscriptionData\<close>, and \<^verbatim>\<open>SendResult\<close>.
\<close>

section \<open>VirtualEnvUtil\<close>

text \<open>\<^verbatim>\<open>sprintf(prefix, "%%PROJECT_%s%%", g)\<close> into 1024 bytes.\<close>

definition project_prefix :: "string \<Rightarrow> string result" where
  "project_prefix projectGroup =
     (let prefix = ''%PROJECT_'' @ c_str projectGroup @ ''%'' in
      if length prefix + 1 > 1024 then Inl Undefined else Inr prefix)"

definition buildWithProjectGroup :: "string \<Rightarrow> string \<Rightarrow> string result" where
  "buildWithProjectGroup origin projectGroup =
     (if \<not> isBlank projectGroup then
        (case project_prefix projectGroup of
           Inl x \<Rightarrow> Inl x
         | Inr prefix \<Rightarrow>
             if find_last_of origin prefix = None then Inr (origin @ prefix) else Inr origin)
      else Inr origin)"

definition clearProjectGroup :: "string \<Rightarrow> string \<Rightarrow> string result" where
  "clearProjectGroup origin projectGroup =
     (case project_prefix projectGroup of
        Inl x \<Rightarrow> Inl x
      | Inr prefix \<Rightarrow>
          (case find_last_of origin prefix of
             Some pos \<Rightarrow> if \<not> isBlank prefix then Inr (substr origin 0 pos) else Inr origin
           | None \<Rightarrow> Inr origin))"

section \<open>MixAll\<close>

definition DEFAULT_TOPIC :: string where "DEFAULT_TOPIC = ''TBW102''"
definition DEFAULT_PRODUCER_GROUP :: string where "DEFAULT_PRODUCER_GROUP = ''DEFAULT_PRODUCER''"
definition DEFAULT_CONSUMER_GROUP :: string where "DEFAULT_CONSUMER_GROUP = ''DEFAULT_CONSUMER''"
definition CLIENT_INNER_PRODUCER_GROUP :: string where
  "CLIENT_INNER_PRODUCER_GROUP = ''CLIENT_INNER_PRODUCER''"
definition RETRY_GROUP_TOPIC_PREFIX :: string where "RETRY_GROUP_TOPIC_PREFIX = ''%RETRY%''"
definition MASTER_ID :: int where "MASTER_ID = 0"

definition getRetryTopic :: "string \<Rightarrow> string" where
  "getRetryTopic consumerGroup = RETRY_GROUP_TOPIC_PREFIX @ consumerGroup"

text \<open>
  The compare-and-set loop among other threads: \<open>env\<close> lists what they leave in the target, for
  each round the value met by the compare-and-set and the value read after its failure; when
  the list ends nobody interferes any more. The result is the answer and the target then.
\<close>

fun compareAndIncreaseOnly :: "(int \<times> int) list \<Rightarrow> int \<Rightarrow> int \<Rightarrow> bool \<times> int" where
  "compareAndIncreaseOnly [] current value =
     (if value > current then (True, value) else (False, current))"
| "compareAndIncreaseOnly ((met, next) # env) current value =
     (if value > current then
        if met = current then (True, value) else compareAndIncreaseOnly env next value
      else (False, current))"

text \<open>
  \<^verbatim>\<open>is_public_ip\<close>: \<open>pton\<close> stands for \<^verbatim>\<open>inet_pton\<close>, the address as the host reads it. The test
  compares with the base address of a block only, not with its mask.
\<close>

definition CIDR :: "string list" where
  "CIDR = [''10.0.0.0/8'', ''172.16.0.0/12'', ''192.168.0.0/16'']"

definition is_public_ip :: "(string \<Rightarrow> int) \<Rightarrow> string \<Rightarrow> bool" where
  "is_public_ip pton ip \<longleftrightarrow>
     \<not> list_ex (\<lambda>cidr.
          let base = (case find_from cidr ''/'' 0 of None \<Rightarrow> cidr | Some pos \<Rightarrow> substr cidr 0 pos) in
          pton base = pton base AND pton ip) CIDR"

text \<open>The loop that cuts the comma-separated addresses: it ends after the last comma.\<close>

fun cut_ips :: "nat \<Rightarrow> string \<Rightarrow> nat \<Rightarrow> string list" where
  "cut_ips 0 addr previous = []"
| "cut_ips (Suc n) addr previous =
     (case find_from addr '','' previous of
        None \<Rightarrow> []
      | Some current \<Rightarrow>
          substr addr previous (current - previous) #
          (if find_last_of addr '','' = Some current then [drop (current + 1) addr]
           else cut_ips n addr (current + 1)))"

text \<open>\<open>ifs\<close> are the IPv4 interfaces of the host (address and mask), a parameter of the model.\<close>

definition filterIP :: "(string \<Rightarrow> int) \<Rightarrow> (int \<times> int) list \<Rightarrow> string \<Rightarrow> string" where
  "filterIP pton ifs addr =
     (if find_from addr '','' 0 = None then addr
      else
        let ips = cut_ips (length addr) addr 0 in
        case List.find (\<lambda>ip. list_ex (\<lambda>(a, m). a AND m = pton ip AND m) ifs) ips of
          Some ip \<Rightarrow> ip
        | None \<Rightarrow>
            (case List.find (is_public_ip pton) ips of Some ip \<Rightarrow> ip | None \<Rightarrow> hd ips))"

section \<open>Validators\<close>

definition validPatternStr :: string where "validPatternStr = ''^[a-zA-Z0-9_-]+$''"
definition CHARACTER_MAX_LENGTH :: nat where "CHARACTER_MAX_LENGTH = 255"

definition regularExpressionMatcher :: "string \<Rightarrow> string \<Rightarrow> bool" where
  "regularExpressionMatcher origin patternStr =
     (if isBlank origin then False else if isBlank patternStr then True else True)"

definition getGroupWithRegularExpression :: "string \<Rightarrow> string \<Rightarrow> string" where
  "getGroupWithRegularExpression origin patternStr = []"

definition checkTopic :: "string \<Rightarrow> unit result" where
  "checkTopic topic =
     (if isBlank topic then Inl (MQClientException ''the specified topic is blank'' (- 1))
      else if length topic > CHARACTER_MAX_LENGTH
      then Inl (MQClientException ''the specified topic is longer than topic max length 255.'' (- 1))
      else if topic = DEFAULT_TOPIC
      then Inl (MQClientException (''the topic['' @ topic @ ''] is conflict with default topic.'') (- 1))
      else if \<not> regularExpressionMatcher topic validPatternStr
      then Inl (MQClientException (''the specified topic['' @ topic @
             ''] contains illegal characters, allowing only'' @ validPatternStr) (- 1))
      else Inr ())"

definition checkGroup :: "string \<Rightarrow> unit result" where
  "checkGroup grp =
     (if isBlank grp then Inl (MQClientException ''the specified group is blank'' (- 1))
      else if \<not> regularExpressionMatcher grp validPatternStr
      then Inl (MQClientException (''the specified group['' @ grp @
             ''] contains illegal characters, allowing only'' @ validPatternStr) (- 1))
      else if length grp > CHARACTER_MAX_LENGTH
      then Inl (MQClientException ''the specified group is longer than group max length 255.'' (- 1))
      else Inr ())"

definition checkMessage :: "'a Message_scheme \<Rightarrow> int \<Rightarrow> unit result" where
  "checkMessage msg maxMessageSize =
     (case checkTopic (m_topic msg) of
        Inl x \<Rightarrow> Inl x
      | Inr _ \<Rightarrow>
          if m_body msg = None then Inl (MQClientException ''the message body is null'' (- 1))
          else if m_bodyLen msg = 0
          then Inl (MQClientException ''the message body length is zero'' (- 1))
          else if m_bodyLen msg > maxMessageSize
          then Inl (MQClientException
                 (''the message body size over max value, MAX: '' @ show_int maxMessageSize) (- 1))
          else Inr ())"

section \<open>Subscriptions\<close>

text \<open>\<^verbatim>\<open>src/include/ConsumeType.h\<close>: how a group shares messages, where a consumer starts, and who asks for messages.\<close>

datatype MessageModel = BROADCASTING | CLUSTERING

datatype ConsumeFromWhere =
    CONSUME_FROM_LAST_OFFSET
  | CONSUME_FROM_LAST_OFFSET_AND_FROM_MIN_WHEN_BOOT_FIRST
  | CONSUME_FROM_MIN_OFFSET
  | CONSUME_FROM_MAX_OFFSET

datatype ConsumeType = CONSUME_ACTIVELY | CONSUME_PASSIVELY

definition SUB_ALL :: string where "SUB_ALL = ''*''"

record SubscriptionData =
  sd_topic :: string
  sd_subString :: string
  sd_tagsSet :: "string list"
  sd_codeSet :: "int list"
  sd_subVersion :: int

text \<open>The constructors stamp the subscription with the current time, a parameter.\<close>

definition SubscriptionData_new :: "int \<Rightarrow> string \<Rightarrow> string \<Rightarrow> SubscriptionData" where
  "SubscriptionData_new now topic subString =
     \<lparr>sd_topic = topic, sd_subString = subString, sd_tagsSet = [], sd_codeSet = [], sd_subVersion = now\<rparr>"

definition SubscriptionData_eq :: "SubscriptionData \<Rightarrow> SubscriptionData \<Rightarrow> bool" where
  "SubscriptionData_eq a b =
     (if sd_codeSet a \<noteq> sd_codeSet b then False
      else if sd_subString a \<noteq> sd_subString b then False
      else if sd_subVersion a \<noteq> sd_subVersion b then False
      else if sd_tagsSet a \<noteq> sd_tagsSet b then False
      else if sd_topic a \<noteq> sd_topic b then False
      else True)"

definition SubscriptionData_less :: "SubscriptionData \<Rightarrow> SubscriptionData \<Rightarrow> bool" where
  "SubscriptionData_less a b =
     (if sd_topic a < sd_topic b then True
      else if sd_topic a = sd_topic b then (if sd_subString a < sd_subString b then True else False)
      else False)"

text \<open>Quoted or plain items separated by commas: the loop appends a comma each, the last is removed.\<close>

definition comma_items :: "('a \<Rightarrow> string) \<Rightarrow> 'a list \<Rightarrow> string" where
  "comma_items f xs = (let s = concat (map (\<lambda>x. f x @ '','') xs) in if s \<noteq> [] then butlast s else s)"

definition quote :: "string \<Rightarrow> string" where
  "quote s = [CHR 0x22] @ s @ [CHR 0x22]"

definition SubscriptionData_encode :: "SubscriptionData \<Rightarrow> string" where
  "SubscriptionData_encode sd =
     ''{'' @ quote ''codeSet'' @ '':['' @ comma_items show_int (sd_codeSet sd) @ ''],'' @
     quote ''subString'' @ '':'' @ quote (sd_subString sd) @ '','' @
     quote ''subVersion'' @ '':'' @ show_int (sd_subVersion sd) @ '','' @
     quote ''tagsSet'' @ '':['' @ comma_items quote (sd_tagsSet sd) @ ''],'' @
     quote ''topic'' @ '':'' @ quote (sd_topic sd) @ ''}''"

definition add_tag :: "string \<Rightarrow> SubscriptionData \<Rightarrow> SubscriptionData" where
  "add_tag tag sd =
     (if tag \<noteq> [] then
        let trimString = Trim tag in
        if trimString \<noteq> [] then
          sd\<lparr>sd_tagsSet := sput trimString (sd_tagsSet sd),
             sd_codeSet := sput (stringHashCode trimString) (sd_codeSet sd)\<rparr>
        else sd
      else sd)"

definition buildSubscriptionData :: "int \<Rightarrow> string \<Rightarrow> string \<Rightarrow> SubscriptionData result" where
  "buildSubscriptionData now topic subString =
     (let sd = SubscriptionData_new now topic subString in
      if subString = [] \<or> subString = SUB_ALL then Inr (sd\<lparr>sd_subString := SUB_ALL\<rparr>)
      else
        let out = Split [] subString ''||'' in
        if out = [] then Inl (MQClientException ''FilterAPI subString split error'' (- 1))
        else Inr (fold add_tag out sd))"

section \<open>SendResult\<close>

datatype SendStatus = SEND_OK | FLUSH_DISK_TIMEOUT | FLUSH_SLAVE_TIMEOUT | SLAVE_NOT_AVAILABLE

text \<open>The offset of a default-constructed result is not initialised: \<^const>\<open>None\<close>.\<close>

record SendResult =
  sr_sendStatus :: SendStatus
  sr_msgId :: string
  sr_messageQueue :: "MessageQueue option"
  sr_queueOffset :: "int option"

definition SendResult_default :: SendResult where
  "SendResult_default =
     \<lparr>sr_sendStatus = SEND_OK, sr_msgId = [], sr_messageQueue = None, sr_queueOffset = None\<rparr>"

definition SendResult_new ::
  "SendStatus \<Rightarrow> string \<Rightarrow> MessageQueue \<Rightarrow> int \<Rightarrow> string \<Rightarrow> SendResult result" where
  "SendResult_new sendStatus msgId messageQueue queueOffset projectGroupPrefix =
     (if \<not> isBlank projectGroupPrefix then
        (case clearProjectGroup (getTopic messageQueue) projectGroupPrefix of
           Inl x \<Rightarrow> Inl x
         | Inr t \<Rightarrow> Inr \<lparr>sr_sendStatus = sendStatus, sr_msgId = msgId,
             sr_messageQueue = Some (setTopic_mq messageQueue t), sr_queueOffset = Some queueOffset\<rparr>)
      else Inr \<lparr>sr_sendStatus = sendStatus, sr_msgId = msgId, sr_messageQueue = Some messageQueue,
                sr_queueOffset = Some queueOffset\<rparr>)"

text \<open>The two setters assign the member to itself.\<close>

definition setMsgId_sr :: "string \<Rightarrow> SendResult \<Rightarrow> SendResult" where
  "setMsgId_sr msgId r = r\<lparr>sr_msgId := sr_msgId r\<rparr>"

definition setSendStatus :: "SendStatus \<Rightarrow> SendResult \<Rightarrow> SendResult" where
  "setSendStatus sendStatus r = r\<lparr>sr_sendStatus := sendStatus\<rparr>"

definition setMessageQueue_sr :: "MessageQueue \<Rightarrow> SendResult \<Rightarrow> SendResult" where
  "setMessageQueue_sr messageQueue r = r\<lparr>sr_messageQueue := Some messageQueue\<rparr>"

definition setQueueOffset_sr :: "int \<Rightarrow> SendResult \<Rightarrow> SendResult" where
  "setQueueOffset_sr queueOffset r = r\<lparr>sr_queueOffset := sr_queueOffset r\<rparr>"

section \<open>Lemmas\<close>

lemma find_last_of_Some:
  "find_last_of s cs = Some i \<longleftrightarrow> i < length s \<and> s ! i \<in> set cs \<and> (\<forall>j. i < j \<and> j < length s \<longrightarrow> s ! j \<notin> set cs)"
  by (simp add: find_last_of_def find_rev_upt_Some)

lemma find_last_of_None: "find_last_of s cs = None \<longleftrightarrow> set s \<inter> set cs = {}"
proof -
  have "set s \<inter> set cs = {} \<longleftrightarrow> (\<forall>x \<in> set s. x \<notin> set cs)" by auto
  then show ?thesis by (auto simp: find_last_of_def find_None_iff all_set_conv_all_nth)
qed

lemma find_last_of_snoc: "c \<in> set cs \<Longrightarrow> find_last_of (s @ [c]) cs = Some (length s)"
  by (auto simp: find_last_of_Some)

lemma in_set_drop: "c \<in> set (drop p s) \<longleftrightarrow> (\<exists>i. p \<le> i \<and> i < length s \<and> s ! i = c)"
proof
  assume "\<exists>i. p \<le> i \<and> i < length s \<and> s ! i = c"
  then obtain i where "p \<le> i" "i < length s" "s ! i = c" by blast
  then show "c \<in> set (drop p s)" unfolding in_set_conv_nth by (intro exI [of _ "i - p"]) simp
next
  assume "c \<in> set (drop p s)"
  then obtain i where "i < length s - p" "c = s ! (p + i)" by (auto simp: in_set_conv_nth)
  then show "\<exists>i. p \<le> i \<and> i < length s \<and> s ! i = c" by (intro exI [of _ "p + i"]) simp
qed

lemma find_from_comma_None: "find_from s [c] p = None \<longleftrightarrow> c \<notin> set (drop p s)"
proof -
  have "find_from s [c] p = None \<longleftrightarrow> (\<forall>i. p \<le> i \<and> i < length s \<longrightarrow> s ! i \<noteq> c)"
    unfolding find_from_None by (auto simp: take_1_drop Suc_le_eq)
  also have "\<dots> \<longleftrightarrow> c \<notin> set (drop p s)"
    by (auto simp: in_set_drop)
  finally show ?thesis .
qed

lemma cut_ips_split:
  "CHR '','' \<in> set (drop p s) \<Longrightarrow> length (drop p s) \<le> n \<Longrightarrow>
   cut_ips n s p = split_on CHR '','' (drop p s)"
proof (induction n arbitrary: p)
  case (Suc n)
  then obtain i where i: "find_from s '','' p = Some i"
    using find_from_comma_None [of s "CHR '',''" p] by (cases "find_from s '','' p") auto
  have d: "drop p s = substr s p (i - p) @ CHR '','' # drop (Suc i) s"
    using find_from_decomp [OF i] by simp
  have pi: "p \<le> i" "i < length s" "s ! i = CHR '',''"
    using i by (auto simp: find_from_Some take_1_drop)
  have sp: "split_on CHR '','' (drop p s) = substr s p (i - p) # split_on CHR '','' (drop (Suc i) s)"
    unfolding d using find_from_char_notin [OF i] by (rule split_on_append)
  show ?case
  proof (cases "CHR '','' \<in> set (drop (Suc i) s)")
    case True
    then obtain j where "j < length s" "i < j" "s ! j = CHR '',''"
      by (auto simp: in_set_drop Suc_le_eq)
    then have "find_last_of s '','' \<noteq> Some i" by (auto simp: find_last_of_Some)
    then show ?thesis
      using i sp Suc.IH [of "Suc i"] True Suc.prems(2) pi by simp
  next
    case False
    then have "find_last_of s '','' = Some i"
      using pi by (auto simp: find_last_of_Some in_set_drop Suc_le_eq)
    then show ?thesis using i sp False by (simp add: split_on_notin)
  qed
qed simp

lemma add_tag_sets:
  "set (sd_tagsSet (add_tag t sd)) = set (sd_tagsSet sd) \<union> ({Trim t} - {[]})"
  "set (sd_codeSet (add_tag t sd)) = set (sd_codeSet sd) \<union> stringHashCode ` ({Trim t} - {[]})"
proof -
  have "Trim [] = []" by (simp add: Trim_def)
  then show "set (sd_tagsSet (add_tag t sd)) = set (sd_tagsSet sd) \<union> ({Trim t} - {[]})"
    "set (sd_codeSet (add_tag t sd)) = set (sd_codeSet sd) \<union> stringHashCode ` ({Trim t} - {[]})"
    by (auto simp: add_tag_def Let_def)
qed

lemma tags_of_fold:
  "set (sd_tagsSet (fold add_tag out sd)) = set (sd_tagsSet sd) \<union> (Trim ` set out - {[]}) \<and>
   set (sd_codeSet (fold add_tag out sd)) = set (sd_codeSet sd) \<union> stringHashCode ` (Trim ` set out - {[]})"
proof (induction out arbitrary: sd)
  case (Cons t out)
  show ?case unfolding fold_Cons comp_apply by (simp only: Cons.IH add_tag_sets) auto
qed simp

lemma tags_sorted:
  "sok (sd_tagsSet sd) \<Longrightarrow> sok (sd_codeSet sd) \<Longrightarrow>
   sok (sd_tagsSet (fold add_tag out sd)) \<and> sok (sd_codeSet (fold add_tag out sd))"
proof (induction out arbitrary: sd)
  case (Cons t out)
  have "sok (sd_tagsSet (add_tag t sd))" "sok (sd_codeSet (add_tag t sd))"
    using Cons.prems by (simp_all add: add_tag_def Let_def sok_sput)
  with Cons.IH show ?case by simp
qed simp

lemma fold_add_tag_keeps:
  "sd_topic (fold add_tag out sd) = sd_topic sd \<and> sd_subString (fold add_tag out sd) = sd_subString sd"
  by (induction out arbitrary: sd) (auto simp: add_tag_def Let_def)

text \<open>Interference that only increases the target, as every client of the loop does.\<close>

fun increasing :: "int \<Rightarrow> (int \<times> int) list \<Rightarrow> bool" where
  "increasing c [] \<longleftrightarrow> True"
| "increasing c ((met, next) # env) \<longleftrightarrow> c \<le> met \<and> met \<le> next \<and> increasing next env"

section \<open>Properties\<close>

text \<open>
  The increase-only update among other increasing threads never loses ground: the
  target ends at least as large as the new value and as the value it had, and exactly at the
  new value when the call reports success; it reports failure only when the target is
  already as large.
\<close>

theorem compareAndIncreaseOnly_monotone:
  assumes "increasing current env" "compareAndIncreaseOnly env current value = (ok, target)"
  shows "value \<le> target \<and> current \<le> target \<and> (ok \<longrightarrow> target = value)"
  using assms
proof (induction env current "value" rule: compareAndIncreaseOnly.induct)
  case (2 met nxt env current v)
  then show ?case by (auto split: if_splits)
qed (auto split: if_splits)

theorem compareAndIncreaseOnly_monotone_witness:
  "compareAndIncreaseOnly [(5, 6)] 3 9 = (True, 9)"
proof -
  have "compareAndIncreaseOnly [(5, 6)] 3 9 = (True, 9)" by simp
  moreover from this have "(9 :: int) \<le> 9 \<and> (3 :: int) \<le> 9 \<and> (True \<longrightarrow> (9 :: int) = 9)"
    by (intro compareAndIncreaseOnly_monotone [of 3 "[(5, 6)]" 9 True 9]) simp_all
  ultimately show ?thesis by simp
qed

text \<open>
  The subscription built from an expression holds exactly the trimmed non-blank
  pieces between the bars, their hash codes, both without duplicates in increasing order;
  the empty expression and the star subscribe to everything with no tag at all.
\<close>

theorem buildSubscriptionData_tags:
  "\<exists>sd. buildSubscriptionData now topic sub = Inr sd \<and> sd_topic sd = topic \<and>
     sok (sd_tagsSet sd) \<and> sok (sd_codeSet sd) \<and>
     set (sd_codeSet sd) = stringHashCode ` set (sd_tagsSet sd) \<and>
     (if sub = [] \<or> sub = SUB_ALL then sd_subString sd = SUB_ALL \<and> sd_tagsSet sd = []
      else sd_subString sd = sub \<and> set (sd_tagsSet sd) = Trim ` set (Split [] sub ''||'') - {[]})"
proof (cases "sub = [] \<or> sub = SUB_ALL")
  case True
  then show ?thesis
    by (simp add: buildSubscriptionData_def SubscriptionData_new_def sok_def)
next
  case False
  let ?sd = "SubscriptionData_new now topic sub"
  have "Split [] sub ''||'' \<noteq> []"
    by (cases "length sub - 1") (auto simp: Split_def split: option.split)
  moreover have "sd_tagsSet ?sd = []" "sd_codeSet ?sd = []" "sd_topic ?sd = topic" "sd_subString ?sd = sub"
    by (simp_all add: SubscriptionData_new_def)
  ultimately show ?thesis
    using False tags_sorted [of ?sd] fold_add_tag_keeps [of _ ?sd]
    by (simp add: buildSubscriptionData_def Let_def tags_of_fold sok_def)
qed

text \<open>
  What the validators accept: a topic passes when it is not blank, has at most
  255 characters and is not the default topic; a group when it is not blank and not longer;
  a message when its topic passes and its body is present, not empty and within the limit.
  The pattern of legal characters is never applied.
\<close>

theorem validators_accept:
  "(checkTopic t = Inr () \<longleftrightarrow> \<not> isBlank t \<and> length t \<le> 255 \<and> t \<noteq> DEFAULT_TOPIC) \<and>
   (checkGroup g = Inr () \<longleftrightarrow> \<not> isBlank g \<and> length g \<le> 255) \<and>
   (checkMessage m mx = Inr () \<longleftrightarrow>
      checkTopic (m_topic m) = Inr () \<and> m_body m \<noteq> None \<and> m_bodyLen m \<noteq> 0 \<and> m_bodyLen m \<le> mx)"
proof -
  have "\<not> isBlank validPatternStr" by (simp add: validPatternStr_def isBlank_iff WHITESPACE_def)
  then have "regularExpressionMatcher s validPatternStr \<longleftrightarrow> \<not> isBlank s" for s
    by (simp add: regularExpressionMatcher_def)
  then show ?thesis
    by (auto simp: checkTopic_def checkGroup_def checkMessage_def CHARACTER_MAX_LENGTH_def
        split: sum.split)
qed

text \<open>
  Clearing the project suffix does not undo adding it: the suffix is searched as
  a set of characters, so only its last character is removed.
\<close>

theorem clearProjectGroup_not_inverse:
  assumes "\<not> isBlank g" "project_prefix g = Inr prefix" "set origin \<inter> set prefix = {}"
  shows "buildWithProjectGroup origin g = Inr (origin @ prefix) \<and>
    clearProjectGroup (origin @ prefix) g = Inr (origin @ butlast prefix)"
proof -
  have p: "prefix = ''%PROJECT_'' @ c_str g @ ''%''"
    using assms(2) by (auto simp: project_prefix_def Let_def split: if_splits)
  have "find_last_of (origin @ prefix) prefix = Some (length (origin @ butlast prefix))"
    using find_last_of_snoc [of "CHR ''%''" prefix "origin @ butlast prefix"] by (simp add: p butlast_append)
  moreover have "\<not> isBlank prefix" by (simp add: p isBlank_iff WHITESPACE_def)
  moreover have "substr (origin @ prefix) 0 (length (origin @ butlast prefix)) = origin @ butlast prefix"
    by (simp add: substr_def butlast_conv_take)
  ultimately show ?thesis
    using assms find_last_of_None [of origin prefix]
    by (simp add: buildWithProjectGroup_def clearProjectGroup_def)
qed

theorem clearProjectGroup_not_inverse_witness:
  "clearProjectGroup ''abc%PROJECT_x%'' ''x'' = Inr ''abc%PROJECT_x''"
proof -
  have "project_prefix ''x'' = Inr ''%PROJECT_x%''" by (simp add: project_prefix_def c_str_def)
  then show ?thesis
    using clearProjectGroup_not_inverse [of "''x''" "''%PROJECT_x%''" "''abc''"]
    by (simp add: isBlank_iff WHITESPACE_def)
qed

text \<open>
  The setters of the message id and of the queue offset of a send result have no
  effect, whatever they are given.
\<close>

theorem send_result_setters_ignored:
  "setMsgId_sr x r = r \<and> setQueueOffset_sr off r = r"
  by (simp add: setMsgId_sr_def setQueueOffset_sr_def)

text \<open>
  The address chosen from a comma-separated list is one of its items, and when an
  item is in the network of an interface, the choice is the first such item.
\<close>

theorem filterIP_chooses_item:
  "filterIP pton ifs addr \<in> set (split_on CHR '','' addr) \<and>
   (CHR '','' \<in> set addr \<longrightarrow>
      (\<forall>ip. List.find (\<lambda>ip. list_ex (\<lambda>(a, m). a AND m = pton ip AND m) ifs) (split_on CHR '','' addr) = Some ip \<longrightarrow>
         filterIP pton ifs addr = ip))"
proof (cases "CHR '','' \<in> set addr")
  case True
  let ?ips = "split_on CHR '','' addr"
  have c: "cut_ips (length addr) addr 0 = ?ips" using cut_ips_split [of 0 addr "length addr"] True by simp
  have f: "find_from addr '','' 0 \<noteq> None" using True find_from_comma_None [of addr _ 0] by simp
  have mem: "List.find P ?ips = Some ip \<Longrightarrow> ip \<in> set ?ips" for P ip by (auto simp: find_Some_iff)
  show ?thesis
    using f mem by (auto simp: filterIP_def c Let_def split: option.splits)
next
  case False
  then show ?thesis
    using find_from_comma_None [of addr "CHR '',''" 0]
    by (simp add: filterIP_def split_on_notin)
qed

theorem filterIP_chooses_item_witness:
  "filterIP (\<lambda>s. if s = ''b'' then 7 else 8) [(7, 15)] ''a,b'' = ''b''"
proof -
  have "split_on CHR '','' ''a,b'' = [''a'', ''b'']" by simp
  then show ?thesis
    using filterIP_chooses_item [of "\<lambda>s. if s = ''b'' then 7 else 8" "[(7, 15)]" "''a,b''"] by simp
qed

end
