(* ===== verification/Json.thy ===== *)
theory Json
  imports Complex_Main Common "HOL-Library.Sublist"
begin

text \<open>
  The JSON library the client is built with, \<^verbatim>\<open>src/libs/jsoncpp-src-0.5.0\<close>: the values as the client reads
  them (\<^verbatim>\<open>json_value.cpp\<close>) and the reader (\<^verbatim>\<open>json_reader.cpp\<close>), which the authors of the client have
  extended to accept numbers as member names. The texts come from C strings. Comments are read
  and not kept; the error list is not modelled, a failed reading is a value. A printer of
  values serves as the reference for the texts the client writes by hand.
\<close>

unbundle bit_operations_syntax

section \<open>Numbers of type double\<close>

text \<open>A finite value or an infinity with its sign.\<close>

datatype double = Finite rat | Infinite bool

fun bit_len :: "nat \<Rightarrow> nat" where
  "bit_len n = (if n = 0 then 0 else Suc (bit_len (n div 2)))"

declare bit_len.simps [simp del]

definition two_to :: "int \<Rightarrow> rat" where
  "two_to e = (if e \<ge> 0 then 2 ^ nat e else 1 / 2 ^ nat (- e))"

definition exponent :: "rat \<Rightarrow> int" where
  "exponent x =
     (let (a, b) = quotient_of x; k = int (bit_len (nat \<bar>a\<bar>)) - int (bit_len (nat b))
      in if two_to k \<le> \<bar>x\<bar> then k else k - 1)"

definition round_even :: "rat \<Rightarrow> int" where
  "round_even x =
     (let f = \<lfloor>x\<rfloor>; d = x - of_int f in
      if d < 1 / 2 then f else if d > 1 / 2 then f + 1 else if even f then f else f + 1)"

definition to_double :: "rat \<Rightarrow> double" where
  "to_double x =
     (if x = 0 then Finite 0
      else (let e = max (exponent x - 52) (- 1074); y = of_int (round_even (x / two_to e)) * two_to e
            in if \<bar>y\<bar> \<ge> two_to 1024 then Infinite (x < 0) else Finite y))"

text \<open>
  \<^verbatim>\<open>sscanf(text, "%lf", &value)\<close> on a text of digits, signs, points and exponent letters: the longest
  text that is or begins a number is taken, and it has to be a number.
\<close>

definition scan_double :: "string \<Rightarrow> double option" where
  "scan_double s =
     (let neg = (s \<noteq> [] \<and> hd s = CHR ''-'');
          s1 = (if s \<noteq> [] \<and> (hd s = CHR ''-'' \<or> hd s = CHR ''+'') then tl s else s);
          ip = takeWhile is_digit s1;
          s2 = dropWhile is_digit s1;
          fp = (if s2 \<noteq> [] \<and> hd s2 = CHR ''.'' then takeWhile is_digit (tl s2) else []);
          s3 = (if s2 \<noteq> [] \<and> hd s2 = CHR ''.'' then dropWhile is_digit (tl s2) else s2);
          has_exp = (s3 \<noteq> [] \<and> (hd s3 = CHR ''e'' \<or> hd s3 = CHR ''E''));
          s4 = tl s3;
          s5 = (if s4 \<noteq> [] \<and> (hd s4 = CHR ''-'' \<or> hd s4 = CHR ''+'') then tl s4 else s4);
          ex = (if s4 \<noteq> [] \<and> hd s4 = CHR ''-'' then - int (read_nat s5) else int (read_nat s5));
          m = rat_of_nat (read_nat (ip @ fp));
          p = (if has_exp then ex else 0) - int (length fp);
          v = (if p \<ge> 0 then m * 10 ^ nat p else m / 10 ^ nat (- p))
      in if ip = [] \<and> fp = [] then None
         else if has_exp \<and> takeWhile is_digit s5 = [] then None
         else Some (to_double (if neg then - v else v)))"

section \<open>Values\<close>

datatype json = JNull | JBool bool | JInt int | JReal double | JStr string | JObj "(string \<times> json) list" | JArr "json list"

text \<open>
  The accessors: a missing member of an object and any member of null are null; a conversion to
  a type that does not fit raises, a failed assertion ends the program. A string is handed out
  as a C string. An integer stands for both integer types of the library.
\<close>

fun jget :: "json \<Rightarrow> string \<Rightarrow> json result" where
  "jget JNull k = Inr JNull"
| "jget (JObj m) k = Inr (case map_of m k of None \<Rightarrow> JNull | Some v \<Rightarrow> v)"
| "jget _ k = Inl Undefined"

definition truncate_rat :: "rat \<Rightarrow> int" where
  "truncate_rat r = (if r \<ge> 0 then \<lfloor>r\<rfloor> else \<lceil>r\<rceil>)"

fun asInt :: "json \<Rightarrow> int result" where
  "asInt JNull = Inr 0"
| "asInt (JInt i) = (if - 2147483648 \<le> i \<and> i < 2147483648 then Inr i else Inl StdException)"
| "asInt (JReal (Finite r)) =
     (if - 2147483648 \<le> r \<and> r \<le> 2147483647 then Inr (truncate_rat r) else Inl StdException)"
| "asInt (JReal (Infinite n)) = Inl StdException"
| "asInt (JBool b) = Inr (if b then 1 else 0)"
| "asInt _ = Inl StdException"

fun asString :: "json \<Rightarrow> string result" where
  "asString JNull = Inr []"
| "asString (JStr s) = Inr (c_str s)"
| "asString (JBool b) = Inr (if b then ''true'' else ''false'')"
| "asString _ = Inl StdException"

fun asCString :: "json \<Rightarrow> string result" where
  "asCString (JStr s) = Inr (c_str s)"
| "asCString _ = Inl Undefined"

text \<open>The elements a loop over \<^verbatim>\<open>size()\<close> and \<^verbatim>\<open>[i]\<close> visits, and \<^verbatim>\<open>getMemberNames\<close>.\<close>

fun jelems :: "json \<Rightarrow> json list result" where
  "jelems (JArr l) = Inr l"
| "jelems (JObj m) = (if m = [] then Inr [] else Inl Undefined)"
| "jelems _ = Inr []"

fun jmembers :: "json \<Rightarrow> string list result" where
  "jmembers (JObj m) = Inr (sort (remdups (map fst m)))"
| "jmembers JNull = Inr []"
| "jmembers _ = Inl Undefined"

section \<open>Tokens\<close>

datatype TokenType = tokenEndOfStream | tokenObjectBegin | tokenObjectEnd | tokenArrayBegin | tokenArrayEnd
  | tokenString | tokenNumber | tokenTrue | tokenFalse | tokenNull | tokenArraySeparator | tokenMemberSeparator
  | tokenComment | tokenError

definition skipSpaces :: "string \<Rightarrow> string" where
  "skipSpaces s = dropWhile (\<lambda>c. c \<in> {CHR '' '', CHR 0x09, CHR 0x0D, CHR 0x0A}) s"

text \<open>What follows the opening quote: the text up to and with the closing quote, the rest, and whether it was closed.\<close>

fun readString :: "string \<Rightarrow> string \<times> string \<times> bool" where
  "readString [] = ([], [], False)"
| "readString (c # s) =
     (if c = CHR 0x5C then
        (case s of
           [] \<Rightarrow> ([c], [], False)
         | d # s' \<Rightarrow> (let (t, r, ok) = readString s' in (c # d # t, r, ok)))
      else if c = CHR 0x22 then ([c], s, True)
      else (let (t, r, ok) = readString s in (c # t, r, ok)))"

fun readCStyleComment :: "string \<Rightarrow> string \<times> bool" where
  "readCStyleComment [] = ([], False)"
| "readCStyleComment (c # s) =
     (if c = CHR ''*'' \<and> s \<noteq> [] \<and> hd s = CHR ''/'' then (tl s, True) else readCStyleComment s)"

fun readCppStyleComment :: "string \<Rightarrow> string" where
  "readCppStyleComment [] = []"
| "readCppStyleComment (c # s) = (if c = CHR 0x0D \<or> c = CHR 0x0A then s else readCppStyleComment s)"

definition readComment :: "string \<Rightarrow> string \<times> bool" where
  "readComment s =
     (case s of
        [] \<Rightarrow> ([], False)
      | c # r \<Rightarrow> if c = CHR ''*'' then readCStyleComment r
                else if c = CHR ''/'' then (readCppStyleComment r, True) else (r, False))"

definition number_char :: "char \<Rightarrow> bool" where
  "number_char c \<longleftrightarrow> is_digit c \<or> c \<in> {CHR ''.'', CHR ''e'', CHR ''E'', CHR ''+'', CHR ''-''}"

definition match_text :: "string \<Rightarrow> string \<Rightarrow> string \<times> bool" where
  "match_text pattern s =
     (if take (length pattern) s = pattern then (drop (length pattern) s, True) else (s, False))"

text \<open>The type, the text from start to end (of strings and numbers) and what is left.\<close>

definition readToken :: "string \<Rightarrow> TokenType \<times> string \<times> string" where
  "readToken s0 =
     (case skipSpaces s0 of
        [] \<Rightarrow> (tokenEndOfStream, [], [])
      | c # s \<Rightarrow>
          if c = CHR ''{'' then (tokenObjectBegin, [], s)
          else if c = CHR ''}'' then (tokenObjectEnd, [], s)
          else if c = CHR ''['' then (tokenArrayBegin, [], s)
          else if c = CHR '']'' then (tokenArrayEnd, [], s)
          else if c = CHR 0x22 then (let (t, r, ok) = readString s in (if ok then tokenString else tokenError, c # t, r))
          else if c = CHR ''/'' then (let (r, ok) = readComment s in (if ok then tokenComment else tokenError, [], r))
          else if is_digit c \<or> c = CHR ''-'' then (tokenNumber, c # takeWhile number_char s, dropWhile number_char s)
          else if c = CHR ''t'' then (let (r, ok) = match_text ''rue'' s in (if ok then tokenTrue else tokenError, [], r))
          else if c = CHR ''f'' then (let (r, ok) = match_text ''alse'' s in (if ok then tokenFalse else tokenError, [], r))
          else if c = CHR ''n'' then (let (r, ok) = match_text ''ull'' s in (if ok then tokenNull else tokenError, [], r))
          else if c = CHR '','' then (tokenArraySeparator, [], s)
          else if c = CHR '':'' then (tokenMemberSeparator, [], s)
          else if c = CHR 0x00 then (tokenEndOfStream, [], s)
          else (tokenError, [], s))"

lemma length_dropWhile_le: "length (dropWhile P s) \<le> length s"
  by (induction s) simp_all

lemma readCStyleComment_le: "length (fst (readCStyleComment s)) \<le> length s"
proof (induction s)
  case (Cons c s)
  then show ?case by (cases s) auto
qed simp

lemma readCppStyleComment_le: "length (readCppStyleComment s) \<le> length s"
  by (induction s) auto

lemma readComment_le: "length (fst (readComment s)) \<le> length s"
  using readCStyleComment_le [of "tl s"] readCppStyleComment_le [of "tl s"] by (cases s) (auto simp: readComment_def)

lemma readString_le: "length (fst (snd (readString s))) \<le> length s"
proof (induction s rule: length_induct)
  case (1 s)
  show ?case
  proof (cases s)
    case (Cons c s')
    have l: "length (fst (snd (readString x))) \<le> length x" if "length x < length s" for x using 1 that by blast
    show ?thesis using l [of s'] l [of "tl s'"] by (cases s') (simp_all add: Cons case_prod_unfold Let_def)
  qed simp
qed

text \<open>Every token but the end of the text takes at least one character.\<close>

lemma readToken_less:
  assumes "readToken s = (t, tok, r)" "t \<noteq> tokenEndOfStream"
  shows "length r < length s"
proof (cases "skipSpaces s")
  case Nil
  with assms show ?thesis by (simp add: readToken_def)
next
  case (Cons c s')
  have l: "length s' < length s" using length_dropWhile_le [of _ s] Cons unfolding skipSpaces_def by (metis Suc_le_eq length_Cons)
  have "length r \<le> length s'"
    using assms(1) Cons readString_le [of s'] readComment_le [of s'] length_dropWhile_le [of number_char s']
    by (auto simp: readToken_def match_text_def case_prod_unfold Let_def split: if_splits prod.splits)
  with l show ?thesis by simp
qed

text \<open>\<^verbatim>\<open>skipCommentTokens\<close>.\<close>

function next_token :: "string \<Rightarrow> TokenType \<times> string \<times> string" where
  "next_token s = (let (t, tok, r) = readToken s in if t = tokenComment then next_token r else (t, tok, r))"
  by pat_completeness auto
termination
  by (relation "measure length") (auto dest: readToken_less [OF sym])

declare next_token.simps [simp del]

section \<open>Strings and numbers\<close>

definition hex_digit :: "char \<Rightarrow> nat option" where
  "hex_digit c =
     (if is_digit c then Some (of_char c - 48)
      else if 97 \<le> (of_char c :: nat) \<and> (of_char c :: nat) \<le> 102 then Some (of_char c - 97 + 10)
      else if 65 \<le> (of_char c :: nat) \<and> (of_char c :: nat) \<le> 70 then Some (of_char c - 65 + 10)
      else None)"

definition decodeUnicodeEscapeSequence :: "string \<Rightarrow> (nat \<times> string) option" where
  "decodeUnicodeEscapeSequence s =
     (if length s < 4 then None
      else if list_all (\<lambda>c. hex_digit c \<noteq> None) (take 4 s)
      then Some (digits_val 16 (map (\<lambda>c. the (hex_digit c)) (take 4 s)), drop 4 s) else None)"

definition decodeUnicodeCodePoint :: "string \<Rightarrow> (nat \<times> string) option" where
  "decodeUnicodeCodePoint s =
     (case decodeUnicodeEscapeSequence s of
        None \<Rightarrow> None
      | Some (unicode, r) \<Rightarrow>
          if 0xD800 \<le> unicode \<and> unicode \<le> 0xDBFF then
            (if length r < 6 then None
             else if take 2 r = [CHR 0x5C, CHR ''u''] then
               (case decodeUnicodeEscapeSequence (drop 2 r) of
                  None \<Rightarrow> None
                | Some (surrogatePair, r') \<Rightarrow>
                    Some (0x10000 + push_bit 10 (unicode AND 0x3FF) + (surrogatePair AND 0x3FF), r'))
             else None)
          else Some (unicode, r))"

definition codePointToUTF8 :: "nat \<Rightarrow> string" where
  "codePointToUTF8 cp =
     (if cp \<le> 0x7F then [char_of cp]
      else if cp \<le> 0x7FF then [char_of (0xC0 OR (0x1F AND drop_bit 6 cp)), char_of (0x80 OR (0x3F AND cp))]
      else if cp \<le> 0xFFFF then
        [char_of (0xE0 OR (0xF AND drop_bit 12 cp)), char_of (0x80 OR (0x3F AND drop_bit 6 cp)), char_of (0x80 OR (0x3F AND cp))]
      else if cp \<le> 0x10FFFF then
        [char_of (0xF0 OR (0x7 AND drop_bit 18 cp)), char_of (0x80 OR (0x3F AND drop_bit 12 cp)),
         char_of (0x80 OR (0x3F AND drop_bit 6 cp)), char_of (0x80 OR (0x3F AND cp))]
      else [])"

lemma decodeUnicodeCodePoint_less: "decodeUnicodeCodePoint s = Some (u, r) \<Longrightarrow> length r < length s"
  by (auto simp: decodeUnicodeCodePoint_def decodeUnicodeEscapeSequence_def split: option.splits if_splits)

definition escape_value :: "char \<Rightarrow> char option" where
  "escape_value c =
     (if c = CHR 0x22 then Some (CHR 0x22) else if c = CHR ''/'' then Some (CHR ''/'')
      else if c = CHR 0x5C then Some (CHR 0x5C) else if c = CHR ''b'' then Some (CHR 0x08)
      else if c = CHR ''f'' then Some (CHR 0x0C) else if c = CHR ''n'' then Some (CHR 0x0A)
      else if c = CHR ''r'' then Some (CHR 0x0D) else if c = CHR ''t'' then Some (CHR 0x09) else None)"

text \<open>\<^verbatim>\<open>decodeString\<close> over what stands between the quotes.\<close>

function decode_chars :: "string \<Rightarrow> string option" where
  "decode_chars [] = Some []"
| "decode_chars (c # s) =
     (if c = CHR 0x22 then Some []
      else if c = CHR 0x5C then
        (case s of
           [] \<Rightarrow> None
         | d # s' \<Rightarrow>
             if d = CHR ''u'' then
               (case decodeUnicodeCodePoint s' of
                  None \<Rightarrow> None
                | Some (u, r) \<Rightarrow> map_option (\<lambda>x. codePointToUTF8 u @ x) (decode_chars r))
             else
               (case escape_value d of
                  None \<Rightarrow> None
                | Some x \<Rightarrow> map_option (\<lambda>y. x # y) (decode_chars s')))
      else map_option (\<lambda>y. c # y) (decode_chars s))"
  by pat_completeness auto
termination
  by (relation "measure length") (auto dest: decodeUnicodeCodePoint_less)

definition decodeString :: "string \<Rightarrow> string option" where
  "decodeString tok = decode_chars (butlast (tl tok))"

text \<open>
  What a reading can come to: a value with the rest of the text, a failure, undefined behaviour;
  the recursion may also run out of fuel.
\<close>

datatype 'a reading = Read 'a string | Failed | Crashed | OutOfFuel

text \<open>\<^verbatim>\<open>decodeDouble\<close> copies up to 32 characters into a buffer of 32 and writes the end mark behind them.\<close>

definition decodeDouble :: "string \<Rightarrow> string \<Rightarrow> json reading" where
  "decodeDouble tok r =
     (if length tok = 32 then Crashed
      else (case scan_double tok of None \<Rightarrow> Failed | Some v \<Rightarrow> Read (JReal v) r))"

fun digits_loop :: "nat \<Rightarrow> nat \<Rightarrow> string \<Rightarrow> nat option option" where
  "digits_loop threshold v [] = Some (Some v)"
| "digits_loop threshold v (c # s) =
     (if \<not> is_digit c then None
      else if v \<ge> threshold then Some None
      else digits_loop threshold (v * 10 + (of_char c - 48)) s)"

definition decodeNumber :: "string \<Rightarrow> string \<Rightarrow> json reading" where
  "decodeNumber tok r =
     (let isDouble = (list_ex (\<lambda>c. c \<in> {CHR ''.'', CHR ''e'', CHR ''E'', CHR ''+''}) tok \<or> CHR ''-'' \<in> set (tl tok));
          isNegative = (hd tok = CHR ''-'');
          threshold = (if isNegative then 2147483648 else 4294967295) div 10
      in if isDouble then decodeDouble tok r
         else
           (case digits_loop threshold 0 (if isNegative then tl tok else tok) of
              None \<Rightarrow> Failed
            | Some None \<Rightarrow> decodeDouble tok r
            | Some (Some v) \<Rightarrow> Read (JInt (if isNegative then - int v else int v)) r))"

section \<open>The reader\<close>

text \<open>
  The loops of \<^verbatim>\<open>readObject\<close> (with the last member name and the members so far) and \<^verbatim>\<open>readArray\<close>,
  over the function \<open>rv\<close> that reads a value inside. A failure inside is a failure of the whole,
  whatever the recovery skips.
\<close>

primrec read_object :: "(string \<Rightarrow> json reading) \<Rightarrow> nat \<Rightarrow> string \<Rightarrow> (string, json) stdmap \<Rightarrow> string \<Rightarrow> json reading" where
  "read_object rv 0 name m s = OutOfFuel"
| "read_object rv (Suc n) name m s =
     (let (t, tok, r) = next_token s in
      if t = tokenObjectEnd \<and> name = [] then Read (JObj m) r
      else if t \<noteq> tokenString \<and> t \<noteq> tokenNumber then Failed
      else
        (case (if t = tokenNumber then Some tok else decodeString tok) of
           None \<Rightarrow> Failed
         | Some name' \<Rightarrow>
             (let (tc, _, r1) = readToken r in
              if tc \<noteq> tokenMemberSeparator then Failed
              else
                (case rv r1 of
                   Read v r2 \<Rightarrow>
                     (let m' = mput (c_str name') v m;
                          (ts, _, r3) = readToken r2
                      in if ts \<notin> {tokenObjectEnd, tokenArraySeparator, tokenComment} then Failed
                         else
                           (let (te, _, r4) = (if ts = tokenComment then next_token r3 else (ts, [], r3))
                            in if te = tokenObjectEnd then Read (JObj m') r4 else read_object rv n name' m' r4))
                 | x \<Rightarrow> x))))"

primrec read_array :: "(string \<Rightarrow> json reading) \<Rightarrow> nat \<Rightarrow> json list \<Rightarrow> string \<Rightarrow> json reading" where
  "read_array rv 0 l s = OutOfFuel"
| "read_array rv (Suc n) l s =
     (case rv s of
        Read v r \<Rightarrow>
          (let (t, _, r') = next_token r
           in if t = tokenArrayEnd then Read (JArr (l @ [v])) r' else read_array rv n (l @ [v]) r')
      | x \<Rightarrow> x)"

text \<open>\<^verbatim>\<open>readValue\<close>; the fuel bounds the nesting.\<close>

primrec read_value :: "nat \<Rightarrow> string \<Rightarrow> json reading" where
  "read_value 0 s = OutOfFuel"
| "read_value (Suc n) s =
     (let (t, tok, r) = next_token s in
      if t = tokenObjectBegin then read_object (read_value n) (Suc (length r)) [] [] r
      else if t = tokenArrayBegin then
        (let r' = skipSpaces r in
         if r' \<noteq> [] \<and> hd r' = CHR '']'' then Read (JArr []) (tl r')
         else read_array (read_value n) (Suc (length r')) [] r')
      else if t = tokenNumber then decodeNumber tok r
      else if t = tokenString then (case decodeString tok of None \<Rightarrow> Failed | Some x \<Rightarrow> Read (JStr x) r)
      else if t = tokenTrue then Read (JBool True) r
      else if t = tokenFalse then Read (JBool False) r
      else if t = tokenNull then Read JNull r
      else Failed)"

definition Reader_parse :: "string \<Rightarrow> json reading" where
  "Reader_parse document = read_value (Suc (length document)) document"

text \<open>As the callers see it: the value, \<^const>\<open>None\<close> when the text is refused.\<close>

definition json_parse :: "string \<Rightarrow> json option result" where
  "json_parse document =
     (case Reader_parse document of
        Read v r \<Rightarrow> Inr (Some v)
      | Failed \<Rightarrow> Inr None
      | _ \<Rightarrow> Inl Undefined)"

section \<open>Printing\<close>

text \<open>
  A printer of values without white space, the reference for the texts the client writes. It
  escapes quotes, backslashes and NUL bytes and leaves other control characters as they are, as
  the client does with the separators of message properties; values that are no integers are
  not printed.
\<close>

definition hex_char :: "nat \<Rightarrow> char" where
  "hex_char n = (if n < 10 then char_of (48 + n) else char_of (97 + (n - 10)))"

definition plain_char :: "char \<Rightarrow> bool" where
  "plain_char c \<longleftrightarrow> c \<noteq> CHR 0x22 \<and> c \<noteq> CHR 0x5C \<and> c \<noteq> CHR 0x00"

definition escape_char :: "char \<Rightarrow> string" where
  "escape_char c =
     (if plain_char c then [c]
      else if c = CHR 0x22 \<or> c = CHR 0x5C then [CHR 0x5C, c]
      else [CHR 0x5C, CHR ''u'', CHR ''0'', CHR ''0'', hex_char (of_char c div 16), hex_char (of_char c mod 16)])"

definition jquote :: "string \<Rightarrow> string" where
  "jquote s = quote (concat (map escape_char s))"

primrec jprint :: "json \<Rightarrow> string" where
  "jprint JNull = ''null''"
| "jprint (JBool b) = (if b then ''true'' else ''false'')"
| "jprint (JInt i) = show_int i"
| "jprint (JReal d) = ''null''"
| "jprint (JStr s) = jquote s"
| "jprint (JObj m) = ''{'' @ join '','' (map (\<lambda>(k, p). jquote k @ '':'' @ p) (map (map_prod id jprint) m)) @ ''}''"
| "jprint (JArr l) = ''['' @ join '','' (map jprint l) @ '']''"

text \<open>Values the printer keeps: no reals, and integers that fit 64 bits.\<close>

definition int64 :: "int \<Rightarrow> bool" where
  "int64 i \<longleftrightarrow> - 9223372036854775808 \<le> i \<and> i < 18446744073709551616"

primrec printable :: "json \<Rightarrow> bool" where
  "printable JNull = True"
| "printable (JBool b) = True"
| "printable (JInt i) = int64 i"
| "printable (JReal d) = False"
| "printable (JStr s) = True"
| "printable (JObj m) = list_all snd (map (map_prod id printable) m)"
| "printable (JArr l) = list_all id (map printable l)"

text \<open>
  What reading gives back: members are ordered, the last of several with one name counts, and
  integers of large magnitude come back as doubles.
\<close>

definition read_integer :: "int \<Rightarrow> json" where
  "read_integer i = (if - 2147483640 < i \<and> i < 4294967290 then JInt i else JReal (to_double (of_int i)))"

primrec canon :: "json \<Rightarrow> json" where
  "canon JNull = JNull"
| "canon (JBool b) = JBool b"
| "canon (JInt i) = read_integer i"
| "canon (JReal d) = JReal d"
| "canon (JStr s) = JStr s"
| "canon (JObj m) = JObj (fold (\<lambda>(k, v). mput (c_str k) v) (map (map_prod id canon) m) [])"
| "canon (JArr l) = JArr (map canon l)"

section \<open>Reading what was printed: strings and numbers\<close>

lemma escape_cases:
  obtains "plain_char c" "escape_char c = [c]"
  | "c \<in> {CHR 0x22, CHR 0x5C}" "escape_char c = [CHR 0x5C, c]"
  | "(of_char c :: nat) < 32" "\<not> plain_char c" "escape_char c = [CHR 0x5C, CHR ''u'', CHR ''0'', CHR ''0'', hex_char (of_char c div 16), hex_char (of_char c mod 16)]"
proof -
  consider "plain_char c" | "\<not> plain_char c" "c \<in> {CHR 0x22, CHR 0x5C}" | "\<not> plain_char c" "c \<notin> {CHR 0x22, CHR 0x5C}" by blast
  then show thesis
  proof cases
    case 3
    then have "(of_char c :: nat) < 32" by (auto simp: plain_char_def)
    with 3 that(3) show thesis by (simp add: escape_char_def)
  qed (use that(1,2) in \<open>auto simp: escape_char_def\<close>)
qed

lemma hex_char_facts:
  assumes "n < 16"
  shows "hex_digit (hex_char n) = Some n \<and> plain_char (hex_char n)"
proof -
  have v: "(of_char (hex_char n) :: nat) = (if n < 10 then 48 + n else 87 + n)"
    using assms by (simp add: hex_char_def)
  then have "hex_char n \<noteq> CHR 0x22 \<and> hex_char n \<noteq> CHR 0x5C \<and> hex_char n \<noteq> CHR 0x00" using assms by (auto split: if_splits)
  with v assms show ?thesis by (simp add: hex_digit_def plain_char_def is_digit_def)
qed

lemma readString_escape:
  "readString (concat (map escape_char s) @ CHR 0x22 # r) = (concat (map escape_char s) @ [CHR 0x22], r, True)"
proof (induction s)
  case (Cons c s)
  show ?case
  proof (cases c rule: escape_cases)
    case 1
    with Cons show ?thesis by (simp add: plain_char_def)
  next
    case 2
    with Cons show ?thesis by simp
  next
    case 3
    then have "(of_char c :: nat) div 16 < 16" "(of_char c :: nat) mod 16 < 16" by simp_all
    with hex_char_facts Cons 3 show ?thesis by (simp add: plain_char_def)
  qed
qed simp

lemma codePoint_small: "u < 32 \<Longrightarrow> codePointToUTF8 u = [char_of u]"
  by (simp add: codePointToUTF8_def)

lemma decode_escape: "decode_chars (concat (map escape_char s)) = Some s"
proof (induction s)
  case (Cons c s)
  show ?case
  proof (cases c rule: escape_cases)
    case 1
    with Cons show ?thesis by (simp add: plain_char_def)
  next
    case 2
    with Cons show ?thesis by (auto simp: escape_value_def)
  next
    case 3
    define a b where "a = (of_char c :: nat) div 16" and "b = (of_char c :: nat) mod 16"
    have ab: "a < 16" "b < 16" "16 * a + b = of_char c" using 3(1) by (simp_all add: a_def b_def)
    let ?x = "concat (map escape_char s)"
    have "decodeUnicodeEscapeSequence (CHR ''0'' # CHR ''0'' # hex_char a # hex_char b # ?x) = Some (of_char c, ?x)"
      using hex_char_facts [OF ab(1)] hex_char_facts [OF ab(2)] ab(3)
      by (simp add: decodeUnicodeEscapeSequence_def hex_digit_def [of "CHR ''0''"] is_digit_def digits_val_def)
    then have "decodeUnicodeCodePoint (CHR ''0'' # CHR ''0'' # hex_char a # hex_char b # ?x) = Some (of_char c, ?x)"
      using 3(1) by (simp add: decodeUnicodeCodePoint_def)
    with Cons 3 show ?thesis by (simp add: codePoint_small flip: a_def b_def)
  qed
qed simp

lemma skipSpaces_token: "c \<notin> {CHR '' '', CHR 0x09, CHR 0x0D, CHR 0x0A} \<Longrightarrow> skipSpaces (c # s) = c # s"
  by (simp add: skipSpaces_def)

lemma readToken_quote: "readToken (jquote k @ r) = (tokenString, jquote k, r)"
  by (simp add: readToken_def jquote_def quote_def skipSpaces_token readString_escape)

lemma decodeString_quote: "decodeString (jquote k) = Some k"
  by (simp add: decodeString_def jquote_def quote_def butlast_append decode_escape)

definition stops :: "string \<Rightarrow> bool" where
  "stops r \<longleftrightarrow> r = [] \<or> \<not> number_char (hd r)"

lemma digits_loop_snoc:
  assumes "\<forall>c \<in> set xs. is_digit c" "is_digit d"
  shows "digits_loop th v (xs @ [d]) =
    (case digits_loop th v xs of
       Some (Some w) \<Rightarrow> if w \<ge> th then Some None else Some (Some (w * 10 + (of_char d - 48)))
     | x \<Rightarrow> x)"
  using assms by (induction xs arbitrary: v) auto

lemma digits_loop_show:
  assumes "0 < th"
  shows "digits_loop th 0 (show_nat n) = Some (if n div 10 < th then Some n else None)"
proof (induction n rule: show_nat.induct)
  case (1 n)
  have d: "is_digit (char_of (48 + k))" "(of_char (char_of (48 + k)) :: nat) = 48 + k" if "k < 10" for k :: nat
    using that by (simp_all add: is_digit_def)
  show ?case
  proof (cases "n < 10")
    case True
    with assms d [of n] show ?thesis by (simp add: show_nat.simps [of n])
  next
    case False
    have "n div 10 div 10 \<le> n div 10" by simp
    moreover have "show_nat n = show_nat (n div 10) @ [char_of (48 + n mod 10)]" using False by (simp add: show_nat.simps [of n])
    ultimately show ?thesis
      using 1 [OF False] digits_loop_snoc [OF show_nat_digits, of "char_of (48 + n mod 10)" th 0 "n div 10"] d [of "n mod 10"] by auto
  qed
qed

lemma length_show_nat: "n < 10 ^ Suc k \<Longrightarrow> length (show_nat n) \<le> Suc k"
proof (induction k arbitrary: n)
  case 0
  then show ?case by (simp add: show_nat.simps [of n])
next
  case (Suc k)
  then have "n div 10 < 10 ^ Suc k" by (simp add: less_mult_imp_div_less)
  with Suc.IH show ?case by (simp add: show_nat.simps [of n])
qed

text \<open>A printed integer is a sign and digits.\<close>

lemma show_int_parts:
  obtains ds where "show_int i = (if i < 0 then CHR ''-'' # ds else ds)" "ds = show_nat (nat \<bar>i\<bar>)"
    "\<forall>c \<in> set ds. is_digit c" "ds \<noteq> []" "hd ds \<noteq> CHR ''-''" "hd ds \<noteq> CHR ''+''" "is_digit (hd ds)"
proof -
  have d: "\<forall>c \<in> set (show_nat (nat \<bar>i\<bar>)). is_digit c" "show_nat (nat \<bar>i\<bar>) \<noteq> []" by (simp_all add: show_nat_digits)
  then have h: "is_digit (hd (show_nat (nat \<bar>i\<bar>)))" by simp
  then have "hd (show_nat (nat \<bar>i\<bar>)) \<noteq> CHR ''-''" "hd (show_nat (nat \<bar>i\<bar>)) \<noteq> CHR ''+''" by (auto simp: is_digit_def)
  with d h that [of "show_nat (nat \<bar>i\<bar>)"] show thesis by (simp add: show_int_def)
qed

lemma scan_show: "scan_double (show_int i) = Some (to_double (of_int i))"
proof -
  obtain ds where p: "show_int i = (if i < 0 then CHR ''-'' # ds else ds)" "ds = show_nat (nat \<bar>i\<bar>)"
    "\<forall>c \<in> set ds. is_digit c" "ds \<noteq> []" "hd ds \<noteq> CHR ''-''" "hd ds \<noteq> CHR ''+''" by (rule show_int_parts)
  have t: "takeWhile is_digit ds = ds" "dropWhile is_digit ds = []" using p(3) by (simp_all add: takeWhile_eq_all_conv dropWhile_eq_Nil_conv)
  have r: "read_nat ds = nat \<bar>i\<bar>" by (simp add: p(2) read_nat_show_nat)
  have m: "(if i < 0 then - rat_of_nat (nat \<bar>i\<bar>) else rat_of_nat (nat \<bar>i\<bar>)) = of_int i" by simp
  show ?thesis
    by (cases "i < 0") (use p(4-6) m in \<open>simp_all add: scan_double_def p(1) t r Let_def\<close>)
qed

lemma decodeNumber_show:
  assumes "int64 i"
  shows "decodeNumber (show_int i) r = Read (read_integer i) r"
proof -
  obtain ds where p: "show_int i = (if i < 0 then CHR ''-'' # ds else ds)" "ds = show_nat (nat \<bar>i\<bar>)"
    "\<forall>c \<in> set ds. is_digit c" "ds \<noteq> []" "hd ds \<noteq> CHR ''-''" by (rule show_int_parts)
  have nd: "\<not> is_digit c" if "c \<in> {CHR ''.'', CHR ''e'', CHR ''E'', CHR ''+'', CHR ''-''}" for c
    using that by (auto simp: is_digit_def)
  have ns: "CHR ''.'' \<notin> set ds" "CHR ''e'' \<notin> set ds" "CHR ''E'' \<notin> set ds" "CHR ''+'' \<notin> set ds" "CHR ''-'' \<notin> set ds"
    using p(3) nd by blast+
  then have s: "\<not> list_ex (\<lambda>c. c \<in> {CHR ''.'', CHR ''e'', CHR ''E'', CHR ''+''}) (show_int i)"
    unfolding p(1) list_ex_iff by (cases "i < 0"; simp; blast)
  have "set (tl ds) \<subseteq> set ds" by (cases ds) auto
  with ns(5) have s': "CHR ''-'' \<notin> set (tl (show_int i))" by (auto simp: p(1))
  have "\<bar>i\<bar> < 100000000000000000000" using assms unfolding int64_def by linarith
  then have "nat \<bar>i\<bar> < 10 ^ Suc 19" by simp
  then have "length ds \<le> 20" using length_show_nat [of "nat \<bar>i\<bar>" 19] p(2) by simp
  then have l: "length (show_int i) \<noteq> 32" by (simp add: p(1))
  have dd: "decodeDouble (show_int i) r = Read (JReal (to_double (of_int i))) r" using l by (simp add: decodeDouble_def scan_show)
  have g: "digits_loop th 0 ds = Some (if nat \<bar>i\<bar> div 10 < th then Some (nat \<bar>i\<bar>) else None)" if "0 < th" for th
    unfolding p(2) by (rule digits_loop_show [OF that])
  show ?thesis
  proof (cases "i < 0")
    case True
    then have "nat \<bar>i\<bar> div 10 < 214748364 \<longleftrightarrow> - 2147483640 < i" by (simp add: nat_less_iff zdiv_int [symmetric]) linarith
    with True s s' dd g [of 214748364] show ?thesis
      by (simp add: decodeNumber_def p(1) read_integer_def Let_def)
  next
    case False
    then have "nat \<bar>i\<bar> div 10 < 429496729 \<longleftrightarrow> i < 4294967290" by linarith
    with False s s' dd g [of 429496729] p(5) show ?thesis
      by (simp add: decodeNumber_def p(1) read_integer_def Let_def)
  qed
qed

lemma digit_start:
  assumes "is_digit c \<or> c = CHR ''-''"
  shows "c \<notin> {CHR '' '', CHR 0x09, CHR 0x0D, CHR 0x0A}" "c \<noteq> CHR ''{''" "c \<noteq> CHR ''}''" "c \<noteq> CHR ''[''" "c \<noteq> CHR '']''"
    "c \<noteq> CHR 0x22" "c \<noteq> CHR ''/''"
  using assms by (auto simp: is_digit_def)

lemma readToken_number:
  assumes "stops r"
  shows "readToken (show_int i @ r) = (tokenNumber, show_int i, r)"
proof -
  obtain ds where p: "show_int i = (if i < 0 then CHR ''-'' # ds else ds)" "ds = show_nat (nat \<bar>i\<bar>)"
    "\<forall>c \<in> set ds. is_digit c" "ds \<noteq> []" "hd ds \<noteq> CHR ''-''" "hd ds \<noteq> CHR ''+''" "is_digit (hd ds)" by (rule show_int_parts)
  have r: "takeWhile number_char r = []" "dropWhile number_char r = r" using assms by (cases r; simp add: stops_def)+
  obtain c cs where c: "show_int i = c # cs" "is_digit c \<or> c = CHR ''-''" "\<forall>x \<in> set cs. number_char x"
  proof (cases "i < 0")
    case True
    with p(3) that [of "CHR ''-''" ds] show ?thesis by (simp add: p(1) number_char_def)
  next
    case False
    with p(3,4) that [of "hd ds" "tl ds"] show ?thesis by (cases ds) (simp_all add: p(1) number_char_def)
  qed
  have "takeWhile number_char (cs @ r) = cs" "dropWhile number_char (cs @ r) = r"
    using c(3) r by (simp_all add: takeWhile_append2 dropWhile_append2)
  with c(1,2) digit_start [OF c(2)] show ?thesis by (simp add: readToken_def skipSpaces_token)
qed

section \<open>Reading what was printed: values\<close>

definition print_member :: "string \<times> json \<Rightarrow> string" where
  "print_member e = jquote (fst e) @ '':'' @ jprint (snd e)"

definition add_member :: "string \<times> json \<Rightarrow> (string, json) stdmap \<Rightarrow> (string, json) stdmap" where
  "add_member e = mput (c_str (fst e)) (canon (snd e))"

lemma jprint_JObj: "jprint (JObj m) = ''{'' @ join '','' (map print_member m) @ ''}''"
  by (simp add: print_member_def [abs_def] case_prod_unfold comp_def)

lemma canon_JObj: "canon (JObj m) = JObj (fold add_member m [])"
  by (simp add: add_member_def [abs_def] fold_map comp_def case_prod_unfold)

lemma printable_JObj: "printable (JObj m) \<longleftrightarrow> (\<forall>e \<in> set m. printable (snd e))"
  by (simp add: list_all_iff)

lemma printable_JArr: "printable (JArr l) \<longleftrightarrow> (\<forall>v \<in> set l. printable v)"
  by (simp add: list_all_iff)

lemma next_token_readToken: "readToken s = (t, tok, r) \<Longrightarrow> t \<noteq> tokenComment \<Longrightarrow> next_token s = (t, tok, r)"
  by (simp add: next_token.simps)

lemma join_length: "x \<in> set xs \<Longrightarrow> length x \<le> length (join d xs)"
proof (induction xs)
  case (Cons y ys)
  then show ?case by (cases "ys = []") (auto simp: join_Cons)
qed simp

lemma join_count: "(\<And>x. x \<in> set xs \<Longrightarrow> x \<noteq> []) \<Longrightarrow> length xs \<le> length (join d xs)"
proof (induction xs)
  case (Cons y ys)
  then have "length ys \<le> length (join d ys)" "y \<noteq> []" by auto
  then have y: "length ys \<le> length (join d ys)" "Suc 0 \<le> length y" by (simp_all add: Suc_leI)
  have "length (join d (y # ys)) = length y + length d + length (join d ys)" if "ys \<noteq> []" using that by (simp add: join_Cons)
  with y show ?case by (cases "ys = []") auto
qed simp

lemma jprint_start:
  obtains c cs where "jprint v = c # cs" "c \<notin> {CHR '' '', CHR 0x09, CHR 0x0D, CHR 0x0A}" "c \<noteq> CHR '']''"
proof (cases v)
  case (JInt i)
  obtain ds where p: "show_int i = (if i < 0 then CHR ''-'' # ds else ds)" "ds = show_nat (nat \<bar>i\<bar>)"
    "\<forall>c \<in> set ds. is_digit c" "ds \<noteq> []" "hd ds \<noteq> CHR ''-''" "hd ds \<noteq> CHR ''+''" "is_digit (hd ds)" by (rule show_int_parts)
  have "\<exists>c cs. show_int i = c # cs \<and> (is_digit c \<or> c = CHR ''-'')"
    unfolding p(1) using p(4,7) by (cases ds) simp_all
  with JInt that digit_start show thesis by auto
next
  case (JBool b)
  with that show thesis by (cases b) simp_all
qed (use that in \<open>auto simp: jquote_def quote_def\<close>)

lemmas token_simps = readToken_def skipSpaces_token is_digit_def

lemma punctuation_tokens:
  "readToken (CHR ''{'' # s) = (tokenObjectBegin, [], s)" "readToken (CHR ''}'' # s) = (tokenObjectEnd, [], s)"
  "readToken (CHR ''['' # s) = (tokenArrayBegin, [], s)" "readToken (CHR '']'' # s) = (tokenArrayEnd, [], s)"
  "readToken (CHR '','' # s) = (tokenArraySeparator, [], s)" "readToken (CHR '':'' # s) = (tokenMemberSeparator, [], s)"
  by (simp_all add: token_simps)

lemma punctuation_next:
  "next_token (CHR ''{'' # s) = (tokenObjectBegin, [], s)" "next_token (CHR ''}'' # s) = (tokenObjectEnd, [], s)"
  "next_token (CHR ''['' # s) = (tokenArrayBegin, [], s)" "next_token (CHR '']'' # s) = (tokenArrayEnd, [], s)"
  "next_token (CHR '','' # s) = (tokenArraySeparator, [], s)"
  by (simp_all add: next_token_readToken punctuation_tokens)

lemma word_tokens:
  "next_token (''null'' @ s) = (tokenNull, [], s)" "next_token (''true'' @ s) = (tokenTrue, [], s)"
  "next_token (''false'' @ s) = (tokenFalse, [], s)"
  by (simp_all add: next_token_readToken token_simps match_text_def)

lemma punctuation_stops: "stops (CHR ''}'' # s)" "stops (CHR '']'' # s)" "stops (CHR '','' # s)"
  by (simp_all add: stops_def number_char_def is_digit_def)

lemma read_array_print:
  assumes "\<And>v r. v \<in> set l \<Longrightarrow> stops r \<Longrightarrow> rv (jprint v @ r) = Read (canon v) r" "l \<noteq> []" "length l \<le> n"
  shows "read_array rv n acc (join '','' (map jprint l) @ CHR '']'' # r) = Read (JArr (acc @ map canon l)) r"
  using assms
proof (induction l arbitrary: n acc)
  case (Cons v l)
  then obtain k where n: "n = Suc k" "length l \<le> k" by (cases n) auto
  show ?case
  proof (cases "l = []")
    case True
    with Cons.prems(1) [of v] n show ?thesis by (simp add: punctuation_stops punctuation_next)
  next
    case False
    with Cons.prems(1) [of v "CHR '','' # join '','' (map jprint l) @ CHR '']'' # r"] Cons.IH [of k "acc @ [canon v]"] Cons.prems n
    show ?thesis by (simp add: join_Cons punctuation_stops punctuation_next)
  qed
qed simp

lemma read_object_print:
  assumes "\<And>e r. e \<in> set m \<Longrightarrow> stops r \<Longrightarrow> rv (jprint (snd e) @ r) = Read (canon (snd e)) r" "m \<noteq> []" "length m \<le> n"
  shows "read_object rv n name acc (join '','' (map print_member m) @ CHR ''}'' # r) = Read (JObj (fold add_member m acc)) r"
  using assms
proof (induction m arbitrary: n acc name)
  case (Cons e m)
  then obtain k where n: "n = Suc k" "length m \<le> k" by (cases n) auto
  have nt: "next_token (jquote x @ s) = (tokenString, jquote x, s)" for x s
    by (simp add: next_token_readToken readToken_quote)
  show ?case
  proof (cases "m = []")
    case True
    with Cons.prems(1) [of e] n show ?thesis
      by (simp add: print_member_def nt decodeString_quote punctuation_stops punctuation_tokens punctuation_next add_member_def)
  next
    case False
    with Cons.prems(1) [of e "CHR '','' # join '','' (map print_member m) @ CHR ''}'' # r"]
      Cons.IH [of k "fst e" "add_member e acc"] Cons.prems n
    show ?thesis
      by (simp add: join_Cons print_member_def [of e] nt decodeString_quote punctuation_stops punctuation_tokens
          punctuation_next add_member_def [of e])
  qed
qed simp

lemma member_shorter: "e \<in> set m \<Longrightarrow> length (jprint (snd e)) < length (jprint (JObj m))"
  using join_length [of "print_member e" "map print_member m" "'',''"]
  by (auto simp: jprint_JObj print_member_def simp del: jprint.simps)

lemma element_shorter: "v \<in> set l \<Longrightarrow> length (jprint v) < length (jprint (JArr l))"
  using join_length [of "jprint v" "map jprint l" "'',''"] by auto

text \<open>The reader gives back what was printed, whatever follows; a number has to end where it ends.\<close>

lemma read_value_print:
  assumes "printable v" "length (jprint v) \<le> n" "(\<exists>i. v = JInt i) \<Longrightarrow> stops r"
  shows "read_value n (jprint v @ r) = Read (canon v) r"
  using assms
proof (induction v arbitrary: n r)
  case (JObj m)
  obtain k where n: "n = Suc k" using JObj.prems(2) by (cases n) (simp_all add: jprint_JObj del: jprint.simps)
  let ?t = "join '','' (map print_member m) @ CHR ''}'' # r"
  have t: "jprint (JObj m) @ r = CHR ''{'' # ?t" by (simp add: jprint_JObj del: jprint.simps)
  show ?case
  proof (cases "m = []")
    case True
    then show ?thesis by (simp add: n punctuation_next)
  next
    case False
    have "read_value k (jprint (snd e) @ r') = Read (canon (snd e)) r'" if "e \<in> set m" "stops r'" for e r'
    proof (rule JObj.IH [of e "snd e"])
      show "snd e \<in> Basic_BNFs.snds e" by (cases e) simp
      show "length (jprint (snd e)) \<le> k" using member_shorter [OF that(1)] JObj.prems(2) n by simp
    qed (use that JObj.prems(1) in \<open>auto simp: printable_JObj simp del: printable.simps\<close>)
    moreover have "length m \<le> Suc (length ?t)"
    proof -
      have "x \<noteq> []" if "x \<in> set (map print_member m)" for x using that by (auto simp: print_member_def)
      then show ?thesis using join_count [of "map print_member m" "'',''"] by auto
    qed
    ultimately have "read_object (read_value k) (Suc (length ?t)) [] [] ?t = Read (JObj (fold add_member m [])) r"
      using False by (intro read_object_print) auto
    then show ?thesis unfolding t n canon_JObj by (simp add: punctuation_next del: read_object.simps)
  qed
next
  case (JArr l)
  obtain k where n: "n = Suc k" using JArr.prems(2) by (cases n) auto
  let ?t = "join '','' (map jprint l) @ CHR '']'' # r"
  have t: "jprint (JArr l) @ r = CHR ''['' # ?t" by simp
  show ?case
  proof (cases l)
    case Nil
    then show ?thesis by (simp add: n punctuation_next skipSpaces_token)
  next
    case (Cons v0 l')
    have "read_value k (jprint v @ r') = Read (canon v) r'" if "v \<in> set l" "stops r'" for v r'
    proof (rule JArr.IH [OF that(1)])
      show "length (jprint v) \<le> k" using element_shorter [OF that(1)] JArr.prems(2) n by simp
    qed (use that JArr.prems(1) in \<open>auto simp: printable_JArr simp del: printable.simps\<close>)
    moreover have "length l \<le> Suc (length ?t)"
    proof -
      have "x \<noteq> []" if "x \<in> set (map jprint l)" for x using that jprint_start by (metis ex_map_conv list.distinct(1))
      then show ?thesis using join_count [of "map jprint l" "'',''"] by auto
    qed
    ultimately have a: "read_array (read_value k) (Suc (length ?t)) [] ?t = Read (JArr (map canon l)) r"
      using read_array_print [of l "read_value k" "Suc (length ?t)" "[]" r] Cons by simp
    obtain c cs where c: "jprint v0 = c # cs" "c \<notin> {CHR '' '', CHR 0x09, CHR 0x0D, CHR 0x0A}" "c \<noteq> CHR '']''" by (rule jprint_start)
    then have "\<exists>cs'. ?t = c # cs'" by (cases l') (simp_all add: Cons)
    then obtain cs' where cs': "?t = c # cs'" by blast
    show ?thesis unfolding t n using a c(2,3) unfolding cs' by (simp add: punctuation_next skipSpaces_token del: read_array.simps)
  qed
next
  case (JInt i)
  then obtain k where n: "n = Suc k" by (cases n) (auto simp: show_int_def split: if_splits)
  with JInt show ?case by (simp add: next_token_readToken readToken_number decodeNumber_show)
next
  case (JStr s)
  then obtain k where n: "n = Suc k" by (cases n) (auto simp: jquote_def quote_def)
  then show ?case by (simp add: next_token_readToken readToken_quote decodeString_quote)
next
  case JNull
  then obtain k where n: "n = Suc k" by (cases n) auto
  with word_tokens(1) [of r] show ?case by simp
next
  case (JBool b)
  then obtain k where n: "n = Suc k" by (cases n) (auto split: if_splits)
  with word_tokens(2,3) [of r] show ?case by (cases b) simp_all
qed simp

section \<open>Small integers survive the detour over double\<close>

lemma bit_len_le: "n < 2 ^ k \<Longrightarrow> bit_len n \<le> k"
proof (induction k arbitrary: n)
  case 0
  then show ?case by (simp add: bit_len.simps)
next
  case (Suc k)
  then have "n div 2 < 2 ^ k" by auto
  with Suc.IH [of "n div 2"] show ?case by (simp add: bit_len.simps [of n])
qed

lemma round_even_int [simp]: "round_even (of_int z) = z"
  by (simp add: round_even_def)

lemma to_double_int:
  assumes "\<bar>n\<bar> < 2 ^ 53"
  shows "to_double (of_int n) = Finite (of_int n)"
proof (cases "n = 0")
  case False
  let ?x = "of_int n :: rat"
  have "bit_len (nat \<bar>n\<bar>) \<le> 53" using assms by (intro bit_len_le) (simp add: nat_less_iff)
  moreover have "bit_len (nat 1) = 1" by (simp add: bit_len.simps [of "Suc 0"] bit_len.simps [of 0])
  ultimately have "exponent ?x \<le> 52" by (simp add: exponent_def Let_def quotient_of_int)
  define e where "e = max (exponent ?x - 52) (- 1074)"
  define j where "j = nat (- e)"
  have e: "e \<le> 0" using \<open>exponent ?x \<le> 52\<close> by (simp add: e_def)
  have t: "two_to e = 1 / 2 ^ j" using e by (cases "e = 0") (simp_all add: two_to_def j_def)
  have z: "?x / two_to e = of_int (n * 2 ^ j)" by (simp add: t)
  have y: "of_int (round_even (?x / two_to e)) * two_to e = ?x" unfolding z unfolding round_even_int t by simp
  have "\<bar>?x\<bar> < 2 ^ 53" using assms by (metis of_int_abs of_int_less_iff of_int_numeral of_int_power)
  also have "(2 :: rat) ^ 53 \<le> two_to 1024" unfolding two_to_def by (simp add: power_increasing)
  finally show ?thesis using False y by (simp add: to_double_def Let_def flip: e_def)
qed (simp add: to_double_def)

lemma asInt_read:
  assumes "- 2147483648 \<le> i" "i < 2147483648"
  shows "asInt (read_integer i) = Inr i"
proof (cases "- 2147483640 < i")
  case True
  with assms show ?thesis by (simp add: read_integer_def)
next
  case False
  have "\<bar>i\<bar> < 2 ^ 53" using assms by simp
  with False assms show ?thesis
    by (simp add: read_integer_def to_double_int truncate_rat_def)
qed

section \<open>The reader ends\<close>

text \<open>What is left is an end of the text, and a number token stands before it.\<close>

lemma readString_suffix: "suffix (fst (snd (readString s))) s"
proof (induction s rule: length_induct)
  case (1 s)
  show ?case
  proof (cases s)
    case (Cons c s')
    have l: "suffix (fst (snd (readString x))) x" if "length x < length s" for x using 1 that by blast
    have "suffix (fst (snd (readString s'))) s" using l [of s'] Cons by (auto intro: suffix_ConsI)
    moreover have "suffix (fst (snd (readString s''))) s" if "s' = d # s''" for d s''
      using l [of s''] Cons that by (auto intro: suffix_ConsI)
    ultimately show ?thesis by (cases s') (auto simp: Cons case_prod_unfold Let_def suffix_ConsI)
  qed simp
qed

lemma readComment_suffix: "suffix (fst (readComment s)) s"
proof -
  have c: "suffix (fst (readCStyleComment x)) x" for x
  proof (induction x)
    case (Cons c x)
    then show ?case by (cases x) (auto intro: suffix_ConsI)
  qed simp
  have p: "suffix (readCppStyleComment x) x" for x by (induction x) (auto intro: suffix_ConsI)
  show ?thesis using c [of "tl s"] p [of "tl s"] by (cases s) (auto simp: readComment_def intro: suffix_ConsI)
qed

lemma readToken_suffix:
  assumes "readToken s = (t, tok, r)"
  shows "suffix r s \<and> (t = tokenNumber \<longrightarrow> (\<exists>a. s = a @ tok @ r \<and> list_all number_char tok))"
proof -
  have sp: "suffix (skipSpaces s) s" by (simp add: skipSpaces_def suffix_dropWhile)
  show ?thesis
  proof (cases "skipSpaces s")
    case Nil
    with assms show ?thesis by (auto simp: readToken_def)
  next
    case (Cons c s')
    have "r = s' \<or> r = fst (snd (readString s')) \<or> r = fst (readComment s') \<or> r = dropWhile number_char s' \<or> (\<exists>k. r = drop k s')"
      using assms Cons by (auto simp: readToken_def match_text_def case_prod_unfold Let_def split: if_splits)
    then have "suffix r s'"
      using readString_suffix [of s'] readComment_suffix [of s'] by (elim disjE exE) (simp_all add: suffix_dropWhile suffix_drop)
    then have "suffix r (c # s')" by (rule suffix_ConsI)
    moreover have "t = tokenNumber \<longrightarrow> c # s' = tok @ r \<and> list_all number_char tok"
    proof
      assume "t = tokenNumber"
      then have n: "is_digit c \<or> c = CHR ''-''" "tok = c # takeWhile number_char s'" "r = dropWhile number_char s'"
        using assms Cons by (auto simp: readToken_def match_text_def case_prod_unfold Let_def split: if_splits)
      then have "number_char c" by (auto simp: number_char_def)
      with n(2,3) show "c # s' = tok @ r \<and> list_all number_char tok" by (auto simp: list_all_iff dest: set_takeWhileD)
    qed
    moreover obtain b where "s = b @ c # s'" using sp unfolding Cons suffix_def by blast
    ultimately show ?thesis unfolding suffix_def by auto
  qed
qed

lemma next_token_facts:
  "next_token s = (t, tok, r) \<Longrightarrow> suffix r s \<and> (t \<noteq> tokenEndOfStream \<longrightarrow> length r < length s) \<and>
     (t = tokenNumber \<longrightarrow> (\<exists>a. s = a @ tok @ r \<and> list_all number_char tok))"
proof (induction s rule: next_token.induct)
  case (1 s)
  obtain t' tok' r' where rt: "readToken s = (t', tok', r')" by (cases "readToken s")
  note f = readToken_suffix [OF rt] readToken_less [OF rt]
  show ?case
  proof (cases "t' = tokenComment")
    case True
    with 1(2) rt have n: "next_token r' = (t, tok, r)" by (simp add: next_token.simps [of s])
    from 1(1) [OF rt [symmetric] refl refl True n] f True have "suffix r s \<and> (t \<noteq> tokenEndOfStream \<longrightarrow> length r < length s)"
      by (auto intro: suffix_order.trans)
    moreover have "\<exists>a. s = a @ tok @ r \<and> list_all number_char tok" if "t = tokenNumber"
      using 1(1) [OF rt [symmetric] refl refl True n] f that unfolding suffix_def by (metis append.assoc)
    ultimately show ?thesis by blast
  next
    case False
    with 1(2) rt f show ?thesis by (simp add: next_token.simps [of s])
  qed
qed

definition long_number :: "string \<Rightarrow> bool" where
  "long_number s \<longleftrightarrow> (\<exists>a tok b. s = a @ tok @ b \<and> length tok = 32 \<and> list_all number_char tok)"

lemma long_number_suffix: "suffix r s \<Longrightarrow> long_number r \<Longrightarrow> long_number s"
  unfolding long_number_def suffix_def by (metis append.assoc)

text \<open>A reading that has ended, and not beyond its text.\<close>

fun ends :: "string \<Rightarrow> json reading \<Rightarrow> bool" where
  "ends s (Read v r) \<longleftrightarrow> suffix r s \<and> length r < length s"
| "ends s Failed \<longleftrightarrow> True"
| "ends s Crashed \<longleftrightarrow> long_number s"
| "ends s OutOfFuel \<longleftrightarrow> False"

lemma ends_suffix: "ends r x \<Longrightarrow> suffix r s \<Longrightarrow> ends s x"
proof (cases x)
  case (Read v q)
  assume "ends r x" "suffix r s"
  with Read show ?thesis using suffix_length_le [of r s] by (auto intro: suffix_order.trans)
qed (auto intro: long_number_suffix)

lemma decodeNumber_ends:
  assumes "next_token s = (tokenNumber, tok, r)"
  shows "ends s (decodeNumber tok r)"
proof -
  obtain a where a: "s = a @ tok @ r" "list_all number_char tok" "suffix r s" "length r < length s"
    using next_token_facts [OF assms] by blast
  have d: "ends s (decodeDouble tok r)"
  proof (cases "length tok = 32")
    case True
    then have "long_number s" using a unfolding long_number_def by blast
    with True show ?thesis by (simp add: decodeDouble_def)
  next
    case False
    with a show ?thesis by (simp add: decodeDouble_def split: option.splits)
  qed
  have "ends s (Read v r)" for v using a(3,4) by simp
  with d have "ends s (if P then decodeDouble tok r else case x of None \<Rightarrow> Failed | Some None \<Rightarrow> decodeDouble tok r | Some (Some v) \<Rightarrow> Read (f v) r)"
    for P x and f :: "nat \<Rightarrow> json" by (simp split: option.split)
  then show ?thesis unfolding decodeNumber_def Let_def .
qed

lemma read_object_ends:
  assumes "\<And>x. length x < N \<Longrightarrow> ends x (rv x)" "length s \<le> N" "length s < n"
  shows "ends s (read_object rv n name m s)"
  using assms(2,3)
proof (induction n arbitrary: s name m)
  case (Suc n)
  obtain t tok r where t: "next_token s = (t, tok, r)" by (cases "next_token s")
  note f = next_token_facts [OF t]
  show ?case
  proof (cases "t \<in> {tokenString, tokenNumber} \<and> (if t = tokenNumber then Some tok else decodeString tok) \<noteq> None")
    case False
    with t f show ?thesis by (auto simp: Let_def split: option.splits)
  next
    case True
    then obtain name' where nm: "(if t = tokenNumber then Some tok else decodeString tok) = Some name'" by blast
    from True f have r: "suffix r s" "length r < length s" by auto
    obtain tc x1 r1 where c: "readToken r = (tc, x1, r1)" by (cases "readToken r")
    show ?thesis
    proof (cases "tc = tokenMemberSeparator")
      case False
      with t nm c True show ?thesis by (auto simp: Let_def)
    next
      case sep: True
      then have r1: "suffix r1 s" "length r1 < length s"
        using readToken_suffix [OF c] readToken_less [OF c] r by (auto intro: suffix_order.trans)
      then have e: "ends s (rv r1)" using ends_suffix assms(1) Suc.prems(1) by (meson less_le_trans)
      show ?thesis
      proof (cases "rv r1")
        case (Read v r2)
        then have r2: "suffix r2 r1" "length r2 < length r1" using assms(1) [of r1] r1 Suc.prems(1) by auto
        obtain ts x2 r3 where s3: "readToken r2 = (ts, x2, r3)" by (cases "readToken r2")
        show ?thesis
        proof (cases "ts \<in> {tokenObjectEnd, tokenArraySeparator, tokenComment}")
          case False
          with t nm c True sep Read s3 show ?thesis by (auto simp: Let_def)
        next
          case more: True
          obtain te x4 r4 where s4: "(if ts = tokenComment then next_token r3 else (ts, [], r3)) = (te, x4, r4)" by (metis prod_cases3)
          have "suffix r4 r3" using s4 next_token_facts [of r3 te x4 r4] by (auto split: if_splits)
          moreover have "suffix r3 r2" using readToken_suffix [OF s3] by simp
          ultimately have r4: "suffix r4 s" "length r4 < length s"
            using r2 r1 suffix_length_le by (meson suffix_order.trans, meson le_less_trans suffix_length_le suffix_order.trans)
          have "ends r4 (read_object rv n name' (mput (c_str name') v m) r4)"
            using Suc.IH r4 Suc.prems by simp
          with r4 have "ends s (read_object rv n name' (mput (c_str name') v m) r4)" by (blast intro: ends_suffix)
          with t nm c True sep Read s3 s4 more r4 show ?thesis by (auto simp: Let_def)
        qed
      qed (use e t nm c True sep in \<open>auto simp: Let_def\<close>)
    qed
  qed
qed simp

lemma read_array_ends:
  assumes "\<And>x. length x \<le> N \<Longrightarrow> ends x (rv x)" "length s \<le> N" "length s < n"
  shows "ends s (read_array rv n l s)"
  using assms(2,3)
proof (induction n arbitrary: s l)
  case (Suc n)
  show ?case
  proof (cases "rv s")
    case (Read v r)
    then have r: "suffix r s" "length r < length s" using assms(1) [of s] Suc.prems(1) by auto
    obtain t tok r' where t: "next_token r = (t, tok, r')" by (cases "next_token r")
    then have r': "suffix r' s" "length r' < length s"
      using next_token_facts [OF t] r suffix_length_le [of r' r] by (auto intro: suffix_order.trans)
    then have "ends s (read_array rv n (l @ [v]) r')" using Suc.IH [of r' "l @ [v]"] Suc.prems ends_suffix by auto
    with Read t r' show ?thesis by simp
  qed (use assms(1) [of s] Suc.prems(1) in auto)
qed simp

lemma read_value_ends: "length s < n \<Longrightarrow> ends s (read_value n s)"
proof (induction n arbitrary: s)
  case (Suc n)
  obtain t tok r where t: "next_token s = (t, tok, r)" by (cases "next_token s")
  note f = next_token_facts [OF t]
  have o: "ends s (read_object (read_value n) (Suc (length r)) [] [] r)" if "t = tokenObjectBegin"
  proof (rule ends_suffix [OF read_object_ends [where N = "length s - 1"]])
    show "ends x (read_value n x)" if "length x < length s - 1" for x using Suc that by simp
  qed (use f that in auto)
  have a: "ends s (read_array (read_value n) (Suc (length (skipSpaces r))) [] (skipSpaces r))" if "t = tokenArrayBegin"
  proof (rule ends_suffix [OF read_array_ends [where N = "length s - 1"]])
    have k: "suffix (skipSpaces r) r" by (simp add: skipSpaces_def suffix_dropWhile)
    then show "suffix (skipSpaces r) s" using f by (auto intro: suffix_order.trans)
    show "length (skipSpaces r) \<le> length s - 1" using suffix_length_le [OF k] f that by auto
    have p: "0 < length s" using f that by auto
    show "ends x (read_value n x)" if "length x \<le> length s - 1" for x
      by (rule Suc.IH) (use that p Suc.prems in linarith)
  qed simp
  have q: "suffix (tl (skipSpaces r)) s \<and> length (tl (skipSpaces r)) < length s" if "t = tokenArrayBegin"
  proof -
    have k: "suffix (tl (skipSpaces r)) r"
      by (metis skipSpaces_def suffix_dropWhile suffix_order.trans suffix_tl)
    have "suffix r s" "length r < length s" using f that by simp_all
    with k suffix_length_le [OF k] show ?thesis by (meson le_less_trans suffix_order.trans)
  qed
  show ?case
    using t f o a q decodeNumber_ends [of s tok r]
    by (auto simp: Let_def simp del: read_object.simps read_array.simps split: option.splits)
qed simp

section \<open>Properties\<close>

text \<open>
  Property C35. The JSON reader ends on every text, and writes outside its buffers only on a text
  with 32 characters of a number in a row.
\<close>

theorem json_reader_ends:
  "(\<exists>v rest. Reader_parse document = Read v rest \<and> suffix rest document) \<or> Reader_parse document = Failed \<or>
   Reader_parse document = Crashed \<and> (\<exists>a number b. document = a @ number @ b \<and> length number = 32 \<and> list_all number_char number)"
proof -
  have "ends document (Reader_parse document)" unfolding Reader_parse_def by (rule read_value_ends) simp
  then show ?thesis by (cases "Reader_parse document") (auto simp: long_number_def)
qed

text \<open>The value of a printed object, whatever follows it.\<close>

lemma parse_object:
  assumes "printable (JObj m)"
  shows "Reader_parse (jprint (JObj m) @ rest) = Read (canon (JObj m)) rest"
  unfolding Reader_parse_def by (rule read_value_print) (use assms in simp_all)

lemma json_parse_object:
  assumes "printable (JObj m)"
  shows "json_parse (jprint (JObj m) @ rest) = Inr (Some (canon (JObj m)))"
  by (simp add: json_parse_def parse_object [OF assms] del: jprint.simps canon.simps)

text \<open>Looking up a member of what was read: the last one written under the name.\<close>

lemma canon_get:
  "jget (canon (JObj m)) k =
     Inr (case map_of (rev (map (\<lambda>e. (c_str (fst e), canon (snd e))) m)) k of None \<Rightarrow> JNull | Some v \<Rightarrow> v)"
  using stdmap.get_fold_put [of "[]" "\<lambda>e. c_str (fst e)" "\<lambda>e. canon (snd e)" m]
  by (simp add: canon_JObj add_member_def [abs_def] del: canon.simps)

text \<open>Texts that need no escapes.\<close>

definition plain :: "string \<Rightarrow> bool" where
  "plain s \<longleftrightarrow> list_all plain_char s"

lemma jquote_plain: "plain s \<Longrightarrow> jquote s = quote s"
  by (induction s) (simp_all add: plain_def jquote_def quote_def escape_char_def)

lemma plain_simps [simp]: "plain []" "plain (c # s) \<longleftrightarrow> plain_char c \<and> plain s" "plain (s @ t) \<longleftrightarrow> plain s \<and> plain t"
  by (simp_all add: plain_def)

lemma plain_c_str: "plain s \<Longrightarrow> c_str s = s"
proof (rule c_str_id)
  have "\<not> plain_char (CHR 0x00)" by (simp add: plain_char_def)
  then show "plain s \<Longrightarrow> CHR 0x00 \<notin> set s" unfolding plain_def list_all_iff by blast
qed

lemma plain_digit:
  assumes "is_digit c"
  shows "plain_char c"
proof -
  have "\<not> is_digit (CHR 0x22)" "\<not> is_digit (CHR 0x5C)" "\<not> is_digit (CHR 0x00)" by (simp_all add: is_digit_def)
  then show ?thesis using assms unfolding plain_char_def by blast
qed

lemma plain_show_int [simp]: "plain (show_int i)"
proof -
  have "plain (show_nat n)" for n
    unfolding plain_def list_all_iff using show_nat_digits [of n] plain_digit by blast
  then show ?thesis by (simp add: show_int_def plain_char_def)
qed

text \<open>No printed text holds a NUL byte, so the reader sees all of it in a C string.\<close>

lemma c_str_append: "CHR 0x00 \<notin> set a \<Longrightarrow> c_str (a @ b) = a @ c_str b"
  by (induction a) (auto simp: c_str_def)

lemma quote_no_nul: "CHR 0x00 \<notin> set (jquote s)"
proof (induction s)
  case (Cons c s)
  have "CHR 0x00 \<notin> set (escape_char c)"
  proof (cases c rule: escape_cases)
    case 3
    then have "(of_char c :: nat) div 16 < 16" "(of_char c :: nat) mod 16 < 16" by simp_all
    with hex_char_facts [of "of_char c div 16"] hex_char_facts [of "of_char c mod 16"] 3(3) show ?thesis
      by (auto simp: plain_char_def)
  qed (auto simp: plain_char_def)
  with Cons show ?case by (simp add: jquote_def quote_def)
qed (simp add: jquote_def quote_def)

lemma set_join: "set (join d xs) \<subseteq> set d \<union> (\<Union>x \<in> set xs. set x)"
proof (induction xs)
  case (Cons x xs)
  then show ?case by (cases "xs = []") (auto simp: join_Cons)
qed simp

lemma jprint_no_nul: "CHR 0x00 \<notin> set (jprint v)"
proof (induction v)
  case (JInt i)
  then show ?case by (simp add: show_int_def nul_notin_show_nat)
next
  case (JObj m)
  let ?ps = "map (\<lambda>(k, p). jquote k @ '':'' @ p) (map (map_prod id jprint) m)"
  have "\<forall>x \<in> set ?ps. CHR 0x00 \<notin> set x" using JObj quote_no_nul by fastforce
  then show ?case using set_join [of "'',''" ?ps] by (auto simp del: map_map)
next
  case (JArr l)
  then have "\<forall>x \<in> set (map jprint l). CHR 0x00 \<notin> set x" by simp
  then show ?case using set_join [of "'',''" "map jprint l"] by auto
next
  case (JStr s)
  then show ?case by (simp add: quote_no_nul)
qed simp_all

fun plain_value :: "json \<Rightarrow> bool" where
  "plain_value (JStr s) = plain s"
| "plain_value _ = True"

lemma comma_items_join: "comma_items f xs = join '','' (map f xs)"
proof -
  have "concat (map (\<lambda>x. f x @ '','') xs) = (if xs = [] then [] else join '','' (map f xs) @ '','')"
  proof (induction xs)
    case (Cons x xs)
    then show ?case by (cases "xs = []") (simp_all add: join_Cons)
  qed simp
  then show ?thesis by (simp add: comma_items_def Let_def butlast_append)
qed

text \<open>
  Property C13. Reading what was printed gives back the value, for every value without reals and every
  string, control characters and quotes included: the members of objects come back ordered by
  name, and integers of large magnitude as doubles.
\<close>

theorem json_print_read:
  assumes "printable v"
  shows "Reader_parse (jprint v) = Read (canon v) []"
proof -
  have "read_value (Suc (length (jprint v))) (jprint v @ []) = Read (canon v) []"
    by (rule read_value_print) (use assms in \<open>simp_all add: stops_def\<close>)
  then show ?thesis by (simp add: Reader_parse_def)
qed

theorem json_print_read_witness:
  "Reader_parse (jprint (JObj [(''b'', JArr [JInt 7, JNull]), (''a'', JStr [CHR 0x22])])) =
     Read (JObj [(''a'', JStr [CHR 0x22]), (''b'', JArr [JInt 7, JNull])]) []"
  using json_print_read [of "JObj [(''b'', JArr [JInt 7, JNull]), (''a'', JStr [CHR 0x22])]"]
  by (simp add: int64_def read_integer_def c_str_def del: jprint.simps)

end
