(* ===== verification/Headers.thy ===== *)
theory Headers
  imports Json
begin

text \<open>
  \<^verbatim>\<open>src/src/protocol/CommandCustomHeader.cpp\<close>: the extension headers of the remoting commands,
  written as JSON text by hand and read back through the JSON library.
\<close>

section \<open>Reading values\<close>

fun bind_r :: "'a result \<Rightarrow> ('a \<Rightarrow> 'b result) \<Rightarrow> 'b result" where
  "bind_r (Inl x) f = Inl x"
| "bind_r (Inr v) f = f v"

lemma bind_r_Inr: "bind_r x f = Inr y \<longleftrightarrow> (\<exists>v. x = Inr v \<and> f v = Inr y)"
  by (cases x) auto

fun map_r :: "('a \<Rightarrow> 'b result) \<Rightarrow> 'a list \<Rightarrow> 'b list result" where
  "map_r f [] = Inr []"
| "map_r f (x # xs) = bind_r (f x) (\<lambda>y. bind_r (map_r f xs) (\<lambda>ys. Inr (y # ys)))"

lemma map_r_map: "(\<And>x. x \<in> set xs \<Longrightarrow> f x = Inr (g x)) \<Longrightarrow> map_r f xs = Inr (map g xs)"
  by (induction xs) simp_all

definition jstring :: "json \<Rightarrow> string \<Rightarrow> string result" where
  "jstring o' k = bind_r (jget o' k) asString"

definition jint :: "json \<Rightarrow> string \<Rightarrow> int result" where
  "jint o' k = bind_r (jget o' k) asInt"

definition jcstr :: "json \<Rightarrow> string \<Rightarrow> string result" where
  "jcstr o' k = bind_r (jget o' k) asCString"

text \<open>\<^verbatim>\<open>str2ll\<close> is \<^verbatim>\<open>std::stoll\<close>: it raises without a digit and out of the 64-bit range.\<close>

definition starts_number :: "string \<Rightarrow> bool" where
  "starts_number s =
     (case dropWhile is_space s of
        [] \<Rightarrow> False
      | c # r \<Rightarrow> if c = CHR ''-'' \<or> c = CHR ''+'' then r \<noteq> [] \<and> is_digit (hd r) else is_digit c)"

definition str2ll :: "string \<Rightarrow> int result" where
  "str2ll str =
     (let s = c_str str; v = read_signed s in
      if \<not> starts_number s then Inl StdException
      else if v < - 9223372036854775808 \<or> v > 9223372036854775807 then Inl StdException
      else Inr v)"

definition jll :: "json \<Rightarrow> string \<Rightarrow> int result" where
  "jll o' k = bind_r (jcstr o' k) str2ll"

section \<open>The headers\<close>

datatype CommandCustomHeader =
    GetRouteInfoRequestHeader (h_topic: string)
  | CreateTopicRequestHeader (ct_topic: string) (ct_defaultTopic: string) (ct_readQueueNums: int)
      (ct_writeQueueNums: int) (ct_perm: int) (ct_topicFilterType: string)
  | SendMessageRequestHeader (sm_producerGroup: string) (sm_topic: string) (sm_defaultTopic: string)
      (sm_defaultTopicQueueNums: int) (sm_queueId: int) (sm_sysFlag: int) (sm_bornTimestamp: int)
      (sm_flag: int) (sm_properties: string) (sm_reconsumeTimes: int)
  | SendMessageResponseHeader (sr_h_msgId: string) (sr_h_queueId: int) (sr_h_queueOffset: int)
  | PullMessageRequestHeader (pm_consumerGroup: string) (pm_topic: string) (pm_queueId: int)
      (pm_queueOffset: int) (pm_maxMsgNums: int) (pm_sysFlag: int) (pm_commitOffset: int)
      (pm_suspendTimeoutMillis: int) (pm_subscription: string) (pm_subVersion: int)
  | PullMessageResponseHeader (pr_suggestWhichBrokerId: int) (pr_nextBeginOffset: int)
      (pr_minOffset: int) (pr_maxOffset: int)
  | GetConsumerListByGroupRequestHeader (gc_consumerGroup: string)
  | GetConsumerListByGroupResponseHeader
  | ConsumerSendMsgBackRequestHeader (sb_offset: int) (sb_group: string) (sb_delayLevel: int)
  | QueryConsumerOffsetRequestHeader (qo_consumerGroup: string) (qo_topic: string) (qo_queueId: int)
  | QueryConsumerOffsetResponseHeader (qr_offset: int)
  | UpdateConsumerOffsetRequestHeader (uo_consumerGroup: string) (uo_topic: string) (uo_queueId: int)
      (uo_commitOffset: int)

text \<open>A member with a quoted and one with a plain value.\<close>

definition member_str :: "string \<Rightarrow> string \<Rightarrow> string" where
  "member_str k v = quote k @ '':'' @ quote v"

definition member_num :: "string \<Rightarrow> int \<Rightarrow> string" where
  "member_num k v = quote k @ '':'' @ show_int v"

definition GetRouteInfoRequestHeader_Encode :: "string \<Rightarrow> string" where
  "GetRouteInfoRequestHeader_Encode topic = ''{'' @ member_str ''topic'' topic @ ''}''"

definition CreateTopicRequestHeader_Encode ::
  "string \<Rightarrow> string \<Rightarrow> int \<Rightarrow> int \<Rightarrow> int \<Rightarrow> string \<Rightarrow> string" where
  "CreateTopicRequestHeader_Encode topic defaultTopic readQueueNums writeQueueNums perm topicFilterType =
     ''{'' @ member_str ''topic'' topic @ '','' @ member_str ''defaultTopic'' defaultTopic @ '','' @
     member_num ''readQueueNums'' readQueueNums @ '','' @
     member_num ''writeQueueNums'' writeQueueNums @ '','' @ member_num ''perm'' perm @ '','' @
     member_str ''topicFilterType'' topicFilterType @ ''}''"

definition SendMessageRequestHeader_Encode ::
  "string \<Rightarrow> string \<Rightarrow> string \<Rightarrow> int \<Rightarrow> int \<Rightarrow> int \<Rightarrow> int \<Rightarrow> int \<Rightarrow> string \<Rightarrow> int \<Rightarrow> string" where
  "SendMessageRequestHeader_Encode producerGroup topic defaultTopic defaultTopicQueueNums queueId
       sysFlag bornTimestamp flag properties reconsumeTimes =
     ''{'' @ member_str ''producerGroup'' producerGroup @ '','' @ member_str ''topic'' topic @ '','' @
     member_str ''defaultTopic'' defaultTopic @ '','' @
     member_num ''defaultTopicQueueNums'' defaultTopicQueueNums @ '','' @
     member_num ''queueId'' queueId @ '','' @ member_num ''sysFlag'' sysFlag @ '','' @
     member_num ''bornTimestamp'' bornTimestamp @ '','' @ member_num ''flag'' flag @ '','' @
     member_str ''properties'' properties @ '','' @ member_num ''reconsumeTimes'' reconsumeTimes @ ''}''"

definition SendMessageResponseHeader_Encode :: "string \<Rightarrow> int \<Rightarrow> int \<Rightarrow> string" where
  "SendMessageResponseHeader_Encode msgId queueId queueOffset =
     ''{'' @ member_str ''msgId'' msgId @ '','' @ member_num ''queueId'' queueId @ '','' @
     member_num ''queueOffset'' queueOffset @ ''}''"

definition PullMessageRequestHeader_Encode ::
  "string \<Rightarrow> string \<Rightarrow> int \<Rightarrow> int \<Rightarrow> int \<Rightarrow> int \<Rightarrow> int \<Rightarrow> int \<Rightarrow> string \<Rightarrow> int \<Rightarrow> string" where
  "PullMessageRequestHeader_Encode consumerGroup topic queueId queueOffset maxMsgNums sysFlag
       commitOffset suspendTimeoutMillis subscription subVersion =
     ''{'' @ member_str ''consumerGroup'' consumerGroup @ '','' @ member_str ''topic'' topic @ '','' @
     member_num ''queueId'' queueId @ '','' @ member_num ''queueOffset'' queueOffset @ '','' @
     member_num ''maxMsgNums'' maxMsgNums @ '','' @ member_num ''sysFlag'' sysFlag @ '','' @
     member_num ''commitOffset'' commitOffset @ '','' @
     member_num ''suspendTimeoutMillis'' suspendTimeoutMillis @ '','' @
     member_str ''subscription'' subscription @ '','' @ member_num ''subVersion'' subVersion @ ''}''"

definition PullMessageResponseHeader_Encode :: "int \<Rightarrow> int \<Rightarrow> int \<Rightarrow> int \<Rightarrow> string" where
  "PullMessageResponseHeader_Encode suggestWhichBrokerId nextBeginOffset minOffset maxOffset =
     ''{'' @ member_num ''suggestWhichBrokerId'' suggestWhichBrokerId @ '','' @
     member_num ''nextBeginOffset'' nextBeginOffset @ '','' @ member_num ''minOffset'' minOffset @ '','' @
     member_num ''maxOffset'' maxOffset @ ''}''"

definition GetConsumerListByGroupRequestHeader_Encode :: "string \<Rightarrow> string" where
  "GetConsumerListByGroupRequestHeader_Encode consumerGroup =
     ''{'' @ member_str ''consumerGroup'' consumerGroup @ ''}''"

definition ConsumerSendMsgBackRequestHeader_Encode :: "int \<Rightarrow> string \<Rightarrow> int \<Rightarrow> string" where
  "ConsumerSendMsgBackRequestHeader_Encode offset grp delayLevel =
     ''{'' @ member_str ''offset'' (show_int offset) @ '','' @ member_str ''group'' grp @ '','' @
     member_str ''delayLevel'' (show_int delayLevel) @ ''}''"

definition QueryConsumerOffsetRequestHeader_Encode :: "string \<Rightarrow> string \<Rightarrow> int \<Rightarrow> string" where
  "QueryConsumerOffsetRequestHeader_Encode consumerGroup topic queueId =
     ''{'' @ member_str ''consumerGroup'' consumerGroup @ '','' @ member_str ''topic'' topic @ '','' @
     member_num ''queueId'' queueId @ ''}''"

definition QueryConsumerOffsetResponseHeader_Encode :: "int \<Rightarrow> string" where
  "QueryConsumerOffsetResponseHeader_Encode offset = ''{'' @ member_num ''offset'' offset @ ''}''"

definition UpdateConsumerOffsetRequestHeader_Encode :: "string \<Rightarrow> string \<Rightarrow> int \<Rightarrow> int \<Rightarrow> string" where
  "UpdateConsumerOffsetRequestHeader_Encode consumerGroup topic queueId commitOffset =
     ''{'' @ member_str ''consumerGroup'' consumerGroup @ '','' @ member_str ''topic'' topic @ '','' @
     member_num ''queueId'' queueId @ '','' @ member_num ''commitOffset'' commitOffset @ ''}''"

text \<open>The virtual \<^verbatim>\<open>Encode\<close>.\<close>

fun header_Encode :: "CommandCustomHeader \<Rightarrow> string" where
  "header_Encode (GetRouteInfoRequestHeader t) = GetRouteInfoRequestHeader_Encode t"
| "header_Encode (CreateTopicRequestHeader a b c d e f) = CreateTopicRequestHeader_Encode a b c d e f"
| "header_Encode (SendMessageRequestHeader a b c d e f g h i j) =
     SendMessageRequestHeader_Encode a b c d e f g h i j"
| "header_Encode (SendMessageResponseHeader a b c) = SendMessageResponseHeader_Encode a b c"
| "header_Encode (PullMessageRequestHeader a b c d e f g h i j) =
     PullMessageRequestHeader_Encode a b c d e f g h i j"
| "header_Encode (PullMessageResponseHeader a b c d) = PullMessageResponseHeader_Encode a b c d"
| "header_Encode (GetConsumerListByGroupRequestHeader a) = GetConsumerListByGroupRequestHeader_Encode a"
| "header_Encode GetConsumerListByGroupResponseHeader = ''{}''"
| "header_Encode (ConsumerSendMsgBackRequestHeader a b c) = ConsumerSendMsgBackRequestHeader_Encode a b c"
| "header_Encode (QueryConsumerOffsetRequestHeader a b c) = QueryConsumerOffsetRequestHeader_Encode a b c"
| "header_Encode (QueryConsumerOffsetResponseHeader a) = QueryConsumerOffsetResponseHeader_Encode a"
| "header_Encode (UpdateConsumerOffsetRequestHeader a b c d) =
     UpdateConsumerOffsetRequestHeader_Encode a b c d"

section \<open>Reading response headers\<close>

text \<open>Each reader parses the text behind the two length words, up to the first NUL byte.\<close>

definition SendMessageResponseHeader_Decode ::
  "string \<Rightarrow> CommandCustomHeader option result" where
  "SendMessageResponseHeader_Decode pData =
     bind_r (json_parse (c_str (drop 8 pData))) (\<lambda>parsed. case parsed of
        None \<Rightarrow> Inr None
      | Some object \<Rightarrow>
          bind_r (jget object ''extFields'') (\<lambda>ext.
          bind_r (jstring ext ''msgId'') (\<lambda>msgId.
          bind_r (jcstr ext ''queueId'') (\<lambda>q.
          bind_r (jll ext ''queueOffset'') (\<lambda>queueOffset.
            Inr (Some (SendMessageResponseHeader msgId (atoi q) queueOffset)))))))"

definition PullMessageResponseHeader_Decode ::
  "string \<Rightarrow> CommandCustomHeader option result" where
  "PullMessageResponseHeader_Decode pData =
     bind_r (json_parse (c_str (drop 8 pData))) (\<lambda>parsed. case parsed of
        None \<Rightarrow> Inr None
      | Some object \<Rightarrow>
          bind_r (jget object ''extFields'') (\<lambda>ext.
          bind_r (jll ext ''suggestWhichBrokerId'') (\<lambda>suggestWhichBrokerId.
          bind_r (jll ext ''nextBeginOffset'') (\<lambda>nextBeginOffset.
          bind_r (jll ext ''minOffset'') (\<lambda>minOffset.
          bind_r (jll ext ''maxOffset'') (\<lambda>maxOffset.
            Inr (Some (PullMessageResponseHeader suggestWhichBrokerId nextBeginOffset minOffset maxOffset))))))))"

text \<open>An empty or missing extension gives offset -1.\<close>

definition QueryConsumerOffsetResponseHeader_Decode ::
  "string \<Rightarrow> CommandCustomHeader option result" where
  "QueryConsumerOffsetResponseHeader_Decode pData =
     bind_r (json_parse (c_str (drop 8 pData))) (\<lambda>parsed. case parsed of
        None \<Rightarrow> Inr None
      | Some object \<Rightarrow>
          bind_r (jget object ''extFields'') (\<lambda>ext.
          if (case ext of JObj (m # ms) \<Rightarrow> True | JArr (x # xs) \<Rightarrow> True | _ \<Rightarrow> False) then
            bind_r (jget ext ''offset'') (\<lambda>offsetValue.
            if offsetValue \<noteq> JNull then
              bind_r (bind_r (asCString offsetValue) str2ll) (\<lambda>offset.
                Inr (Some (QueryConsumerOffsetResponseHeader offset)))
            else Inr (Some (QueryConsumerOffsetResponseHeader (- 1))))
          else
            bind_r (jstring object ''remark'') (\<lambda>_.
              Inr (Some (QueryConsumerOffsetResponseHeader (- 1))))))"

definition SEND_MESSAGE_VALUE :: int where "SEND_MESSAGE_VALUE = 10"
definition PULL_MESSAGE_VALUE :: int where "PULL_MESSAGE_VALUE = 11"
definition QUERY_CONSUMER_OFFSET_VALUE :: int where "QUERY_CONSUMER_OFFSET_VALUE = 14"

definition header_Decode ::
  "int \<Rightarrow> string \<Rightarrow> bool \<Rightarrow> CommandCustomHeader option result" where
  "header_Decode code pData isResponseType =
     (if isResponseType then
        if code = SEND_MESSAGE_VALUE then SendMessageResponseHeader_Decode pData
        else if code = PULL_MESSAGE_VALUE then PullMessageResponseHeader_Decode pData
        else if code = QUERY_CONSUMER_OFFSET_VALUE then QueryConsumerOffsetResponseHeader_Decode pData
        else Inr None
      else Inr None)"

section \<open>Numbers in headers\<close>

lemma read_signed_c_str [simp]: "read_signed (c_str (show_int x)) = x"
  by (simp add: read_signed_show_int)

lemma starts_number_show: "starts_number (show_int x)"
proof -
  have dg: "show_nat n \<noteq> [] \<and> is_digit (hd (show_nat n)) \<and> \<not> is_space (hd (show_nat n)) \<and>
      hd (show_nat n) \<noteq> CHR ''-'' \<and> hd (show_nat n) \<noteq> CHR ''+''" for n
  proof -
    have ne: "show_nat n \<noteq> []" by (subst show_nat.simps) simp
    then have "hd (show_nat n) \<in> set (show_nat n)" by simp
    then show ?thesis using ne show_nat_digits digit_char_facts by metis
  qed
  show ?thesis
    using dg [of "nat x"] dg [of "nat (- x)"]
    by (cases "show_nat (nat x)"; cases "show_nat (nat (- x))")
      (auto simp: starts_number_def show_int_def is_space_def)
qed

lemma str2ll_show:
  "- 9223372036854775808 \<le> x \<Longrightarrow> x < 9223372036854775808 \<Longrightarrow> str2ll (show_int x) = Inr x"
  by (simp add: str2ll_def Let_def starts_number_show read_signed_show_int)

lemma jll_show:
  assumes "map_of m k = Some (JStr (show_int v))" "- 9223372036854775808 \<le> v" "v < 9223372036854775808"
  shows "jll (JObj m) k = Inr v"
  using assms by (simp add: jll_def jcstr_def str2ll_show)

section \<open>Properties\<close>

text \<open>
  Response headers are read exactly: from a text with the extension fields as decimal strings of
  64-bit values, the pull header holds these four values and the offset header this offset;
  without an offset the offset is -1.
\<close>

theorem response_headers_exact:
  assumes "json_parse (c_str (drop 8 d)) = Inr (Some object)" "jget object ''extFields'' = Inr (JObj m)"
    and "map_of m ''suggestWhichBrokerId'' = Some (JStr (show_int a))"
    and "map_of m ''nextBeginOffset'' = Some (JStr (show_int b))"
    and "map_of m ''minOffset'' = Some (JStr (show_int c))"
    and "map_of m ''maxOffset'' = Some (JStr (show_int d'))"
    and "\<forall>v \<in> {a, b, c, d'}. - 9223372036854775808 \<le> v \<and> v < 9223372036854775808"
  shows "header_Decode PULL_MESSAGE_VALUE d True = Inr (Some (PullMessageResponseHeader a b c d')) \<and>
    (map_of m ''offset'' = Some (JStr (show_int a)) \<longrightarrow>
       header_Decode QUERY_CONSUMER_OFFSET_VALUE d True = Inr (Some (QueryConsumerOffsetResponseHeader a))) \<and>
    (map_of m ''offset'' = None \<longrightarrow>
       header_Decode QUERY_CONSUMER_OFFSET_VALUE d True = Inr (Some (QueryConsumerOffsetResponseHeader (- 1))))"
proof -
  obtain e ms where m: "m = e # ms" using assms(3) by (cases m) auto
  have j: "jll (JObj m) ''suggestWhichBrokerId'' = Inr a" "jll (JObj m) ''nextBeginOffset'' = Inr b"
    "jll (JObj m) ''minOffset'' = Inr c" "jll (JObj m) ''maxOffset'' = Inr d'"
    using assms by (simp_all add: jll_show)
  have "str2ll (show_int a) = Inr a" using assms(7) by (simp add: str2ll_show)
  then show ?thesis
    using assms(1,2) j unfolding m
    by (simp add: header_Decode_def PULL_MESSAGE_VALUE_def QUERY_CONSUMER_OFFSET_VALUE_def
        SEND_MESSAGE_VALUE_def PullMessageResponseHeader_Decode_def
        QueryConsumerOffsetResponseHeader_Decode_def)
qed

definition sample_extension :: json where
  "sample_extension = JObj [(''suggestWhichBrokerId'', JStr (show_int 0)), (''nextBeginOffset'', JStr (show_int 7)),
     (''minOffset'', JStr (show_int (- 1))), (''maxOffset'', JStr (show_int 9))]"

theorem response_headers_exact_witness:
  "header_Decode PULL_MESSAGE_VALUE (replicate 8 (CHR 0x00) @ jprint (JObj [(''extFields'', sample_extension)])) True =
     Inr (Some (PullMessageResponseHeader 0 7 (- 1) 9))"
proof -
  let ?o = "JObj [(''extFields'', sample_extension)]"
  have "printable ?o" by (simp add: sample_extension_def)
  from json_parse_object [OF this, of "[]"] have p: "json_parse (c_str (jprint ?o)) = Inr (Some (canon ?o))"
    by (simp add: c_str_id jprint_no_nul del: jprint.simps canon.simps)
  have g: "jget (canon ?o) ''extFields'' = Inr (canon sample_extension)"
    unfolding canon_get by (simp add: c_str_def)
  have c: "canon sample_extension = JObj [(''maxOffset'', JStr (show_int 9)), (''minOffset'', JStr (show_int (- 1))),
     (''nextBeginOffset'', JStr (show_int 7)), (''suggestWhichBrokerId'', JStr (show_int 0))]"
    by (simp add: sample_extension_def c_str_def)
  have m: "map_of [(''maxOffset'', a), (''minOffset'', b), (''nextBeginOffset'', c), (''suggestWhichBrokerId'', d)] ''suggestWhichBrokerId'' = Some d"
    "map_of [(''maxOffset'', a), (''minOffset'', b), (''nextBeginOffset'', c), (''suggestWhichBrokerId'', d)] ''nextBeginOffset'' = Some c"
    "map_of [(''maxOffset'', a), (''minOffset'', b), (''nextBeginOffset'', c), (''suggestWhichBrokerId'', d)] ''minOffset'' = Some b"
    "map_of [(''maxOffset'', a), (''minOffset'', b), (''nextBeginOffset'', c), (''suggestWhichBrokerId'', d)] ''maxOffset'' = Some a"
    for a b c d :: json by simp_all
  show ?thesis
    by (rule response_headers_exact [OF _ g [unfolded c] m, THEN conjunct1]) (simp_all add: p del: jprint.simps canon.simps)
qed

text \<open>The members a header stands for.\<close>

fun header_fields :: "CommandCustomHeader \<Rightarrow> (string \<times> json) list" where
  "header_fields (GetRouteInfoRequestHeader t) = [(''topic'', JStr t)]"
| "header_fields (CreateTopicRequestHeader a b c d e f) =
     [(''topic'', JStr a), (''defaultTopic'', JStr b), (''readQueueNums'', JInt c), (''writeQueueNums'', JInt d),
      (''perm'', JInt e), (''topicFilterType'', JStr f)]"
| "header_fields (SendMessageRequestHeader a b c d e f g h i j) =
     [(''producerGroup'', JStr a), (''topic'', JStr b), (''defaultTopic'', JStr c), (''defaultTopicQueueNums'', JInt d),
      (''queueId'', JInt e), (''sysFlag'', JInt f), (''bornTimestamp'', JInt g), (''flag'', JInt h),
      (''properties'', JStr i), (''reconsumeTimes'', JInt j)]"
| "header_fields (SendMessageResponseHeader a b c) =
     [(''msgId'', JStr a), (''queueId'', JInt b), (''queueOffset'', JInt c)]"
| "header_fields (PullMessageRequestHeader a b c d e f g h i j) =
     [(''consumerGroup'', JStr a), (''topic'', JStr b), (''queueId'', JInt c), (''queueOffset'', JInt d),
      (''maxMsgNums'', JInt e), (''sysFlag'', JInt f), (''commitOffset'', JInt g), (''suspendTimeoutMillis'', JInt h),
      (''subscription'', JStr i), (''subVersion'', JInt j)]"
| "header_fields (PullMessageResponseHeader a b c d) =
     [(''suggestWhichBrokerId'', JInt a), (''nextBeginOffset'', JInt b), (''minOffset'', JInt c), (''maxOffset'', JInt d)]"
| "header_fields (GetConsumerListByGroupRequestHeader a) = [(''consumerGroup'', JStr a)]"
| "header_fields GetConsumerListByGroupResponseHeader = []"
| "header_fields (ConsumerSendMsgBackRequestHeader a b c) =
     [(''offset'', JStr (show_int a)), (''group'', JStr b), (''delayLevel'', JStr (show_int c))]"
| "header_fields (QueryConsumerOffsetRequestHeader a b c) =
     [(''consumerGroup'', JStr a), (''topic'', JStr b), (''queueId'', JInt c)]"
| "header_fields (QueryConsumerOffsetResponseHeader a) = [(''offset'', JInt a)]"
| "header_fields (UpdateConsumerOffsetRequestHeader a b c d) =
     [(''consumerGroup'', JStr a), (''topic'', JStr b), (''queueId'', JInt c), (''commitOffset'', JInt d)]"

text \<open>Headers whose strings need no escapes, and whose numbers fit 64 bits.\<close>

definition plain_header :: "CommandCustomHeader \<Rightarrow> bool" where
  "plain_header h \<longleftrightarrow> list_all (\<lambda>(k, v). plain_value v \<and> printable v) (header_fields h)"

lemma jprint_members: "jprint (JObj m) = ''{'' @ join '','' (map (\<lambda>(k, v). jquote k @ '':'' @ jprint v) m) @ ''}''"
  by (simp add: comp_def case_prod_unfold)

lemma jquote_literal: "plain k \<Longrightarrow> quote k = jquote k"
  by (simp add: jquote_plain)

lemma header_Encode_print: "plain_header h \<Longrightarrow> header_Encode h = jprint (JObj (header_fields h))"
  unfolding jprint_members plain_header_def
  by (cases h)
    (simp_all add: GetRouteInfoRequestHeader_Encode_def CreateTopicRequestHeader_Encode_def
      SendMessageRequestHeader_Encode_def SendMessageResponseHeader_Encode_def PullMessageRequestHeader_Encode_def
      PullMessageResponseHeader_Encode_def GetConsumerListByGroupRequestHeader_Encode_def
      ConsumerSendMsgBackRequestHeader_Encode_def QueryConsumerOffsetRequestHeader_Encode_def
      QueryConsumerOffsetResponseHeader_Encode_def UpdateConsumerOffsetRequestHeader_Encode_def
      member_str_def member_num_def jquote_plain plain_char_def)

text \<open>
  Property C22. The texts of the request headers, written by hand without escapes, are JSON: for strings
  without quotes, backslashes and NUL bytes (the control characters between message properties
  allowed) and 64-bit numbers, every header is the printed object of its fields, and the JSON reader reads
  exactly these fields back, whatever follows.
\<close>

theorem header_text_is_json:
  assumes "plain_header h"
  shows "header_Encode h = jprint (JObj (header_fields h)) \<and>
    Reader_parse (header_Encode h @ rest) = Read (canon (JObj (header_fields h))) rest"
proof
  show e: "header_Encode h = jprint (JObj (header_fields h))" by (rule header_Encode_print [OF assms])
  have "printable (JObj (header_fields h))"
    using assms by (auto simp: plain_header_def list_all_iff)
  then show "Reader_parse (header_Encode h @ rest) = Read (canon (JObj (header_fields h))) rest"
    unfolding e by (rule parse_object)
qed

theorem header_text_is_json_witness:
  "Reader_parse (header_Encode (QueryConsumerOffsetRequestHeader ''g'' ''t'' 3)) =
     Read (JObj [(''consumerGroup'', JStr ''g''), (''queueId'', JInt 3), (''topic'', JStr ''t'')]) []"
  using header_text_is_json [THEN conjunct2, of "QueryConsumerOffsetRequestHeader ''g'' ''t'' 3" "[]"]
  by (simp add: plain_header_def plain_char_def int64_def read_integer_def c_str_def)

end
