(* ===== verification/Transport.thy ===== *)
theory Transport
  imports Common
begin

text \<open>
  \<^verbatim>\<open>src/src/transport/TcpTransport.cpp\<close>: one TCP connection, its state, the send loop and the
  receive buffer that cuts the byte stream into frames (a big-endian length, then that many
  bytes). The socket is a parameter: what \<^verbatim>\<open>connect\<close>, \<^verbatim>\<open>send\<close>, \<^verbatim>\<open>recv\<close> and \<^verbatim>\<open>select\<close> answer is given
  to the operations, and \<open>alloc\<close> says for which sizes \<^verbatim>\<open>malloc\<close> and \<^verbatim>\<open>realloc\<close> succeed. The buffer is
  represented by its used part.
\<close>

section \<open>State\<close>

datatype client_state =
  CLIENT_STATE_UNINIT | CLIENT_STATE_INITED | CLIENT_STATE_DISCONNECT | CLIENT_STATE_CONNECTED

definition CLIENT_ERROR_SUCCESS :: int where "CLIENT_ERROR_SUCCESS = 0"
definition CLIENT_ERROR_INIT :: int where "CLIENT_ERROR_INIT = 1"
definition CLIENT_ERROR_INVALID_URL :: int where "CLIENT_ERROR_INVALID_URL = 2"
definition CLIENT_ERROR_CONNECT :: int where "CLIENT_ERROR_CONNECT = 3"

definition DEFAULT_SHRINK_COUNT :: int where "DEFAULT_SHRINK_COUNT = 32"
definition DEFAULT_RECV_BUFFER_SIZE :: int where "DEFAULT_RECV_BUFFER_SIZE = 1024 * 16"

text \<open>\<open>t_enableSSL\<close> is \<^const>\<open>None\<close> while the member has not been initialised.\<close>

record TcpTransport =
  t_state :: client_state
  t_serverURL :: string
  t_recvBuf :: string
  t_recvBufSize :: int
  t_shrinkMax :: int
  t_shrinkCheckCnt :: int
  t_enableSSL :: "bool option"

definition TcpTransport_new :: "(int \<Rightarrow> bool) \<Rightarrow> (string, string) stdmap \<Rightarrow> TcpTransport" where
  "TcpTransport_new alloc config =
     (let size = (case mget config ''tcp.transport.recvBufferSize'' of
                    Some v \<Rightarrow> u64 (atoi v) | None \<Rightarrow> DEFAULT_RECV_BUFFER_SIZE);
          ssl = (case mget config ''tcp.transport.enableSSL'' of
                   Some v \<Rightarrow> Some (v = ''true'' \<or> atoi v \<noteq> 0) | None \<Rightarrow> None);
          cnt = (case mget config ''tcp.transport.shrinkCheckMax'' of
                   Some v \<Rightarrow> atoi v | None \<Rightarrow> DEFAULT_SHRINK_COUNT)
      in \<lparr>t_state = (if alloc size then CLIENT_STATE_INITED else CLIENT_STATE_UNINIT),
          t_serverURL = [], t_recvBuf = [], t_recvBufSize = size,
          t_shrinkMax = DEFAULT_RECV_BUFFER_SIZE, t_shrinkCheckCnt = cnt, t_enableSSL = ssl\<rparr>)"

definition IsConnected :: "TcpTransport \<Rightarrow> bool" where
  "IsConnected t \<longleftrightarrow> t_state t = CLIENT_STATE_CONNECTED"

definition Close :: "TcpTransport \<Rightarrow> TcpTransport" where
  "Close t =
     (if t_state t = CLIENT_STATE_CONNECTED then t\<lparr>t_state := CLIENT_STATE_DISCONNECT\<rparr> else t)"

section \<open>Connecting\<close>

definition SplitURL :: "(string \<Rightarrow> int) \<Rightarrow> (int \<times> int) list \<Rightarrow> string \<Rightarrow> (string \<times> int) option" where
  "SplitURL pton ifs serverURL =
     (case find_from serverURL '':'' 0 of
        None \<Rightarrow> None
      | Some pos \<Rightarrow>
          let addr0 = substr serverURL 0 pos;
              addr = (if addr0 = ''localhost'' then ''127.0.0.1'' else filterIP pton ifs addr0);
              port = drop (pos + 1) serverURL
          in Some (addr, i16 (atoi port)))"

text \<open>The answers of the socket layer to one connection attempt.\<close>

record conn_env =
  ce_nodelay :: bool
  ce_ssl_tcp :: bool
  ce_ssl_handshake :: bool
  ce_nonblocking :: bool
  ce_connect :: bool
  ce_inprogress :: bool
  ce_select :: bool
  ce_writable :: bool
  ce_getsockopt :: bool
  ce_opterr :: int

definition connect_outcome :: "conn_env \<Rightarrow> bool \<Rightarrow> bool" where
  "connect_outcome env enableSSL =
     (if \<not> ce_nodelay env then False
      else if enableSSL \<and> \<not> ce_ssl_tcp env then False
      else if enableSSL \<and> \<not> ce_ssl_handshake env then False
      else if \<not> ce_nonblocking env then False
      else if \<not> enableSSL \<and> \<not> ce_connect env then
        (if ce_inprogress env then
           (if \<not> ce_select env then False
            else if \<not> ce_writable env then False
            else if \<not> ce_getsockopt env then False
            else if ce_opterr env \<noteq> 0 then False
            else True)
         else False)
      else True)"

definition Connect ::
  "(string \<Rightarrow> int) \<Rightarrow> (int \<times> int) list \<Rightarrow> conn_env \<Rightarrow> string \<Rightarrow> TcpTransport \<Rightarrow> (TcpTransport \<times> int) result" where
  "Connect pton ifs env strServerURL t =
     (if t_state t = CLIENT_STATE_UNINIT then Inr (t, CLIENT_ERROR_INIT)
      else if IsConnected t \<and> strServerURL = t_serverURL t then Inr (t, CLIENT_ERROR_SUCCESS)
      else
        let t1 = (if IsConnected t then Close t else t) in
        case SplitURL pton ifs strServerURL of
          None \<Rightarrow> Inr (t1, CLIENT_ERROR_INVALID_URL)
        | Some (addr, port) \<Rightarrow>
            (case t_enableSSL t1 of
               None \<Rightarrow> Inl Undefined
             | Some enableSSL \<Rightarrow>
                 if connect_outcome env enableSSL
                 then Inr (t1\<lparr>t_serverURL := strServerURL, t_state := CLIENT_STATE_CONNECTED, t_recvBuf := []\<rparr>,
                           CLIENT_ERROR_SUCCESS)
                 else Inr (t1, CLIENT_ERROR_CONNECT)))"

section \<open>Sending\<close>

text \<open>
  One answer of \<^verbatim>\<open>send\<close>: a number of bytes accepted, 0, would-block with the answer of \<^verbatim>\<open>select\<close>
  (whether it failed, whether the socket became writable), or another error.
\<close>

datatype send_answer = Accepted nat | Peer_closed | Would_block bool bool | Send_error

text \<open>The result is the transport, the bytes handed to the socket and the return value; \<^const>\<open>None\<close> while the loop still waits for answers.\<close>

fun SendOneMsg ::
  "send_answer list \<Rightarrow> string \<Rightarrow> int \<Rightarrow> TcpTransport \<Rightarrow> (TcpTransport \<times> string \<times> int) option" where
  "SendOneMsg answers [] nTimeOut t = Some (t, [], 0)"
| "SendOneMsg answers (b # bs) nTimeOut t =
     (if t_state t \<noteq> CLIENT_STATE_CONNECTED then Some (t, [], - 1)
      else
        (case answers of
           [] \<Rightarrow> None
         | a # as \<Rightarrow>
             (case a of
                Accepted n \<Rightarrow>
                  (let k = Suc (n mod length (b # bs)) in
                   case SendOneMsg as (drop k (b # bs)) nTimeOut t of
                     None \<Rightarrow> None
                   | Some (t', sent, r) \<Rightarrow> Some (t', take k (b # bs) @ sent, r))
              | Peer_closed \<Rightarrow> Some (Close t, [], - 1)
              | Would_block failed writable \<Rightarrow>
                  (if failed then Some (Close t, [], - 1)
                   else if nTimeOut > 0 \<and> \<not> writable then Some (Close t, [], - 1)
                   else SendOneMsg as (b # bs) nTimeOut t)
              | Send_error \<Rightarrow> Some (Close t, [], - 1))))"

section \<open>Receiving\<close>

definition ResizeBuf :: "(int \<Rightarrow> bool) \<Rightarrow> int \<Rightarrow> TcpTransport \<Rightarrow> TcpTransport \<times> bool" where
  "ResizeBuf alloc nNewSize t =
     (if \<not> alloc nNewSize then (t, False) else (t\<lparr>t_recvBufSize := nNewSize\<rparr>, True))"

definition TryShrink :: "(int \<Rightarrow> bool) \<Rightarrow> int \<Rightarrow> TcpTransport \<Rightarrow> TcpTransport" where
  "TryShrink alloc MsgLen t =
     (let t1 = t\<lparr>t_shrinkMax := (if MsgLen > t_shrinkMax t then MsgLen else t_shrinkMax t)\<rparr> in
      if t_shrinkCheckCnt t1 = 0 then
        let t2 = t1\<lparr>t_shrinkCheckCnt := DEFAULT_SHRINK_COUNT\<rparr> in
        if t_recvBufSize t2 > t_shrinkMax t2 then fst (ResizeBuf alloc (t_shrinkMax t2) t2) else t2
      else t1\<lparr>t_shrinkCheckCnt := i32 (t_shrinkCheckCnt t1 - 1)\<rparr>)"

definition GetMsgSize :: "endian \<Rightarrow> string \<Rightarrow> int" where
  "GetMsgSize e pBuf = u32 (ntohl e (load e (take 4 pBuf)) + 4)"

text \<open>
  The framing loop. A buffer shrunk below its used part is read past its end by the
  \<^verbatim>\<open>memmove\<close> that follows. \<^const>\<open>None\<close> when the fuel does not suffice.
\<close>

fun ProcessData ::
  "nat \<Rightarrow> endian \<Rightarrow> (int \<Rightarrow> bool) \<Rightarrow> TcpTransport \<Rightarrow> string list \<Rightarrow> (TcpTransport \<times> string list) result option" where
  "ProcessData 0 e alloc t outDataList = None"
| "ProcessData (Suc n) e alloc t outDataList =
     (if length (t_recvBuf t) > 4 then
        let msgLen = GetMsgSize e (t_recvBuf t) in
        if msgLen > t_recvBufSize t then
          (let (t1, ok) = ResizeBuf alloc msgLen t in
           Some (Inr (if ok then t1\<lparr>t_shrinkCheckCnt := DEFAULT_SHRINK_COUNT\<rparr> else t1, outDataList)))
        else
          let t1 = TryShrink alloc msgLen t in
          if int (length (t_recvBuf t1)) > t_recvBufSize t1 then Some (Inl Undefined)
          else if int (length (t_recvBuf t1)) \<ge> msgLen then
            ProcessData n e alloc (t1\<lparr>t_recvBuf := drop (nat msgLen) (t_recvBuf t1)\<rparr>)
              (outDataList @ [take (nat msgLen) (t_recvBuf t1)])
          else Some (Inr (t1, outDataList))
      else Some (Inr (t, outDataList)))"

text \<open>One answer of \<^verbatim>\<open>recv\<close>: some bytes, the end of the stream, or an error.\<close>

datatype recv_answer = Data string | Eof | Recv_error bool

text \<open>\<^verbatim>\<open>recv\<close> is given the room left in the buffer; with more bytes than room the answer is not one of \<^verbatim>\<open>recv\<close>.\<close>

definition RecvMsg :: "recv_answer \<Rightarrow> TcpTransport \<Rightarrow> (TcpTransport \<times> int) result" where
  "RecvMsg ans t =
     (case ans of
        Data c \<Rightarrow>
          if c = [] \<or> int (length (t_recvBuf t) + length c) > t_recvBufSize t then Inl Undefined
          else Inr (t\<lparr>t_recvBuf := t_recvBuf t @ c\<rparr>, int (length c))
      | Eof \<Rightarrow> Inr (Close t, 0)
      | Recv_error wouldblock \<Rightarrow> Inr (if \<not> wouldblock then Close t else t, - 1))"

definition RecvData ::
  "endian \<Rightarrow> (int \<Rightarrow> bool) \<Rightarrow> recv_answer \<Rightarrow> TcpTransport \<Rightarrow> (TcpTransport \<times> string list \<times> int) result option" where
  "RecvData e alloc ans t =
     (case RecvMsg ans t of
        Inl x \<Rightarrow> Some (Inl x)
      | Inr (t1, ret) \<Rightarrow>
          (case ProcessData (Suc (length (t_recvBuf t1))) e alloc t1 [] of
             None \<Rightarrow> None
           | Some (Inl x) \<Rightarrow> Some (Inl x)
           | Some (Inr (t2, out)) \<Rightarrow> Some (Inr (t2, out, ret))))"

section \<open>Frames\<close>

definition frame :: "string \<Rightarrow> string" where
  "frame p = be_bytes 4 (int (length p)) @ p"

definition payload_ok :: "string \<Rightarrow> bool" where
  "payload_ok p \<longleftrightarrow> p \<noteq> [] \<and> length p < 4294967292"

lemma length_frame [simp]: "length (frame p) = length p + 4"
  by (simp add: frame_def)

lemma GetMsgSize_frame:
  assumes "payload_ok p"
  shows "GetMsgSize e (frame p @ rest) = int (length (frame p))"
proof -
  have "take 4 (frame p @ rest) = be_bytes 4 (int (length p))" by (simp add: frame_def)
  then show ?thesis
    using assms by (simp add: GetMsgSize_def ntohl_load be_val_bytes payload_ok_def u32_def)
qed

text \<open>
  The receive buffer between two calls: there is room, and a buffer larger than the shrink
  limit was grown for the frame whose header it holds.
\<close>

definition recv_ok :: "endian \<Rightarrow> TcpTransport \<Rightarrow> bool" where
  "recv_ok e t \<longleftrightarrow> 5 \<le> t_recvBufSize t \<and> int (length (t_recvBuf t)) < t_recvBufSize t \<and>
     (t_recvBufSize t \<le> t_shrinkMax t \<or>
      (4 < length (t_recvBuf t) \<and> GetMsgSize e (t_recvBuf t) = t_recvBufSize t))"

lemma TryShrink_keeps:
  assumes "t_recvBufSize t \<le> max (t_shrinkMax t) msgLen"
  shows "t_recvBuf (TryShrink alloc msgLen t) = t_recvBuf t"
    "t_recvBufSize (TryShrink alloc msgLen t) = t_recvBufSize t"
    "t_shrinkMax (TryShrink alloc msgLen t) = max (t_shrinkMax t) msgLen"
    "t_state (TryShrink alloc msgLen t) = t_state t"
  using assms by (auto simp: TryShrink_def Let_def)

lemma frame_prefix:
  assumes "buf @ rest = frame p @ others" "4 < length buf" "payload_ok p"
  shows "GetMsgSize e buf = int (length (frame p))"
    "length (frame p) \<le> length buf \<Longrightarrow>
      buf = frame p @ drop (length (frame p)) buf \<and> drop (length (frame p)) buf @ rest = others"
    "length buf < length (frame p) \<Longrightarrow> rest \<noteq> []"
proof -
  have "take 4 buf = take 4 (buf @ rest)" using assms(2) by simp
  also have "\<dots> = take 4 (frame p @ others)" using assms(1) by simp
  finally show "GetMsgSize e buf = int (length (frame p))"
    using GetMsgSize_frame [OF assms(3), of e others] by (simp add: GetMsgSize_def)
  show "buf = frame p @ drop (length (frame p)) buf \<and> drop (length (frame p)) buf @ rest = others"
    if "length (frame p) \<le> length buf"
  proof -
    have "take (length (frame p)) buf = take (length (frame p)) (buf @ rest)" using that by simp
    then have "take (length (frame p)) buf = frame p" unfolding assms(1) by simp
    then have b: "buf = frame p @ drop (length (frame p)) buf" by (metis append_take_drop_id)
    then have "frame p @ (drop (length (frame p)) buf @ rest) = frame p @ others"
      using assms(1) by (metis append.assoc)
    with b show ?thesis by simp
  qed
  show "rest \<noteq> []" if "length buf < length (frame p)"
    using that assms(1) by (metis append_Nil2 length_append not_add_less1)
qed

definition framing_done ::
  "endian \<Rightarrow> TcpTransport \<Rightarrow> TcpTransport \<Rightarrow> string \<Rightarrow> string list \<Rightarrow> nat \<Rightarrow> bool" where
  "framing_done e t t' rest ps k \<longleftrightarrow>
     t_recvBuf t' @ rest = concat (map frame (drop k ps)) \<and> recv_ok e t' \<and> t_state t' = t_state t \<and>
     k \<le> length ps \<and> (rest = [] \<longrightarrow> k = length ps) \<and>
     (k < length ps \<longrightarrow> length (t_recvBuf t') < length (frame (ps ! k)))"

text \<open>The framing loop on the prefix of a stream of frames: it cuts the complete frames off.\<close>

lemma ProcessData_frames:
  assumes "\<forall>n. alloc n" "\<forall>p \<in> set ps. payload_ok p"
    and "t_recvBuf t @ rest = concat (map frame ps)"
    and "5 \<le> t_recvBufSize t" "int (length (t_recvBuf t)) \<le> t_recvBufSize t"
    and "t_recvBufSize t \<le> t_shrinkMax t \<or>
      (4 < length (t_recvBuf t) \<and> GetMsgSize e (t_recvBuf t) = t_recvBufSize t)"
    and "length (t_recvBuf t) < fuel"
  shows "\<exists>k t'. ProcessData fuel e alloc t out = Some (Inr (t', out @ map frame (take k ps))) \<and>
    framing_done e t t' rest ps k"
  using assms(2-7)
proof (induction ps arbitrary: t out fuel)
  case Nil
  then obtain n where "fuel = Suc n" by (cases fuel) auto
  with Nil have "ProcessData fuel e alloc t out = Some (Inr (t, out @ map frame (take 0 [])))" by simp
  moreover have "framing_done e t t rest [] 0"
    using Nil by (simp add: framing_done_def recv_ok_def)
  ultimately show ?case by blast
next
  case (Cons p ps)
  obtain n where fuel: "fuel = Suc n" using Cons.prems(6) by (cases fuel) auto
  have p: "payload_ok p" using Cons.prems(1) by simp
  then have lp: "4 < length (frame p)" by (simp add: payload_ok_def)
  let ?buf = "t_recvBuf t"
  have st: "?buf @ rest = frame p @ concat (map frame ps)" using Cons.prems(2) by simp
  show ?case
  proof (cases "4 < length ?buf")
    case False
    then have "ProcessData fuel e alloc t out = Some (Inr (t, out @ map frame (take 0 (p # ps))))"
      by (simp add: fuel)
    moreover have "framing_done e t t rest (p # ps) 0"
    proof -
      have "length ?buf + length rest = length (frame p) + length (concat (map frame ps))"
        using arg_cong [OF st, of length] by simp
      then have "rest \<noteq> []" using False lp by auto
      moreover have "length ?buf < length (frame p)" using False lp by linarith
      ultimately show ?thesis using Cons.prems False by (simp add: framing_done_def recv_ok_def)
    qed
    ultimately show ?thesis by blast
  next
    case True
    note fp = frame_prefix [OF st True p]
    show ?thesis
    proof (cases "int (length (frame p)) > t_recvBufSize t")
      case big: True
      let ?t = "t\<lparr>t_recvBufSize := int (length (frame p)), t_shrinkCheckCnt := DEFAULT_SHRINK_COUNT\<rparr>"
      have "ProcessData fuel e alloc t out = Some (Inr (?t, out @ map frame (take 0 (p # ps))))"
        using True big assms(1) by (simp add: fuel fp(1) ResizeBuf_def)
      moreover have "framing_done e t ?t rest (p # ps) 0"
        using Cons.prems big True fp(1,3) lp by (simp add: framing_done_def recv_ok_def)
      ultimately show ?thesis by blast
    next
      case small: False
      let ?t = "TryShrink alloc (int (length (frame p))) t"
      have "t_recvBufSize t \<le> max (t_shrinkMax t) (int (length (frame p)))"
        using Cons.prems(5) fp(1) by auto
      note ts = TryShrink_keeps [OF this, of alloc]
      show ?thesis
      proof (cases "length (frame p) \<le> length ?buf")
        case complete: True
        let ?t2 = "?t\<lparr>t_recvBuf := drop (length (frame p)) ?buf\<rparr>"
        have sz: "t_recvBufSize ?t2 = t_recvBufSize t" "t_recvBufSize t \<le> t_shrinkMax ?t2"
          using ts Cons.prems(5) fp(1) by auto
        have len: "length (t_recvBuf ?t2) < n" "length (t_recvBuf ?t2) \<le> length ?buf"
          using Cons.prems(6) complete lp fuel by auto
        have room: "int (length (t_recvBuf ?t2)) \<le> t_recvBufSize t"
          using len(2) Cons.prems(4) by linarith
        from Cons.IH [of ?t2 n "out @ [frame p]"] obtain k t' where k: "ProcessData n e alloc ?t2 (out @ [frame p]) =
            Some (Inr (t', (out @ [frame p]) @ map frame (take k ps)))" "framing_done e ?t2 t' rest ps k"
          using Cons.prems(1,3) room sz len fp(2) [OF complete] by auto
        have "take (length (frame p)) ?buf = frame p" using fp(2) [OF complete] by (metis append_eq_conv_conj)
        then have "ProcessData fuel e alloc t out = ProcessData n e alloc ?t2 (out @ [frame p])"
          using True small complete Cons.prems(4) ts
          by (simp only: fuel ProcessData.simps fp(1) Let_def if_True if_False nat_int) simp
        then have "ProcessData fuel e alloc t out =
            Some (Inr (t', out @ map frame (take (Suc k) (p # ps))))" using k(1) by simp
        moreover have "framing_done e t t' rest (p # ps) (Suc k)"
          using k(2) ts(4) by (simp add: framing_done_def)
        ultimately show ?thesis by blast
      next
        case partial: False
        have "ProcessData fuel e alloc t out = Some (Inr (?t, out @ map frame (take 0 (p # ps))))"
          using True small partial Cons.prems(4) ts
          by (simp only: fuel ProcessData.simps fp(1) Let_def if_True if_False nat_int) simp
        moreover have "framing_done e t ?t rest (p # ps) 0"
          using Cons.prems small partial ts fp(1,3) by (auto simp: framing_done_def recv_ok_def)
        ultimately show ?thesis by blast
      qed
    qed
  qed
qed

section \<open>Any chunking of the stream\<close>

text \<open>
  The reader called again and again: \<open>ns\<close> decides how many bytes each \<^verbatim>\<open>recv\<close> returns, at least
  one and at most the room left and the bytes there are.
\<close>

fun feed ::
  "endian \<Rightarrow> (int \<Rightarrow> bool) \<Rightarrow> nat list \<Rightarrow> string \<Rightarrow> TcpTransport \<Rightarrow> string list \<Rightarrow>
   (string \<times> TcpTransport \<times> string list) result option" where
  "feed e alloc [] s t out = Some (Inr (s, t, out))"
| "feed e alloc (n # ns) s t out =
     (if s = [] then Some (Inr (s, t, out))
      else
        let k = Suc (n mod nat (t_recvBufSize t - int (length (t_recvBuf t)))) in
        case RecvData e alloc (Data (take k s)) t of
          Some (Inr (t', o', ret)) \<Rightarrow> feed e alloc ns (drop k s) t' (out @ o')
        | Some (Inl x) \<Rightarrow> Some (Inl x)
        | None \<Rightarrow> None)"

lemma RecvData_frames:
  assumes "\<forall>n. alloc n" "\<forall>p \<in> set ps. payload_ok p" "recv_ok e t"
    and "t_recvBuf t @ c @ rest = concat (map frame ps)" "c \<noteq> []"
    and "int (length (t_recvBuf t) + length c) \<le> t_recvBufSize t"
  shows "\<exists>k t'. RecvData e alloc (Data c) t = Some (Inr (t', map frame (take k ps), int (length c))) \<and>
    framing_done e t t' rest ps k"
proof -
  let ?t = "t\<lparr>t_recvBuf := t_recvBuf t @ c\<rparr>"
  have hdr: "4 < length (t_recvBuf t) \<Longrightarrow> GetMsgSize e (t_recvBuf t @ c) = GetMsgSize e (t_recvBuf t)"
    by (simp add: GetMsgSize_def)
  have "\<exists>k t'. ProcessData (Suc (length (t_recvBuf ?t))) e alloc ?t [] =
      Some (Inr (t', [] @ map frame (take k ps))) \<and> framing_done e ?t t' rest ps k"
    using assms hdr by (intro ProcessData_frames) (auto simp: recv_ok_def)
  then obtain k t' where k: "ProcessData (Suc (length (t_recvBuf ?t))) e alloc ?t [] =
      Some (Inr (t', map frame (take k ps)))" "framing_done e ?t t' rest ps k" by auto
  have "RecvMsg (Data c) t = Inr (?t, int (length c))" using assms(5,6) by (simp add: RecvMsg_def)
  then have "RecvData e alloc (Data c) t = Some (Inr (t', map frame (take k ps), int (length c)))"
    using k(1) by (simp add: RecvData_def del: ProcessData.simps)
  moreover have "framing_done e t t' rest ps k" using k(2) by (simp add: framing_done_def)
  ultimately show ?thesis by blast
qed

lemma feed_frames:
  assumes "\<forall>n. alloc n" "\<forall>p \<in> set ps. payload_ok p" "recv_ok e t"
    and "t_recvBuf t @ s = concat (map frame ps)" "s = [] \<Longrightarrow> ps = []" "length s \<le> length ns"
  shows "\<exists>t'. feed e alloc ns s t out = Some (Inr ([], t', out @ map frame ps)) \<and> t_recvBuf t' = [] \<and>
    t_state t' = t_state t"
  using assms(2-6)
proof (induction ns arbitrary: s t out ps)
  case Nil
  then show ?case by simp
next
  case (Cons n ns)
  show ?case
  proof (cases "s = []")
    case True
    with Cons.prems show ?thesis by simp
  next
    case False
    let ?room = "t_recvBufSize t - int (length (t_recvBuf t))"
    let ?k = "Suc (n mod nat ?room)"
    have room: "0 < ?room" using Cons.prems(2) by (simp add: recv_ok_def)
    then have kr: "int ?k \<le> ?room"
      using mod_less_divisor [of "nat ?room" n] by linarith
    have "\<exists>j t'. RecvData e alloc (Data (take ?k s)) t =
        Some (Inr (t', map frame (take j ps), int (length (take ?k s)))) \<and>
        framing_done e t t' (drop ?k s) ps j"
      using assms(1) Cons.prems(1,2,3) False kr by (intro RecvData_frames) auto
    then obtain j t' where j: "RecvData e alloc (Data (take ?k s)) t =
        Some (Inr (t', map frame (take j ps), int (length (take ?k s))))"
      "framing_done e t t' (drop ?k s) ps j" by blast
    have "\<exists>t''. feed e alloc ns (drop ?k s) t' (out @ map frame (take j ps)) =
        Some (Inr ([], t'', (out @ map frame (take j ps)) @ map frame (drop j ps))) \<and>
        t_recvBuf t'' = [] \<and> t_state t'' = t_state t'"
    proof (rule Cons.IH)
      show "\<forall>p \<in> set (drop j ps). payload_ok p" using Cons.prems(1) by (auto dest: in_set_dropD)
      show "recv_ok e t'" "t_recvBuf t' @ drop ?k s = concat (map frame (drop j ps))"
        "drop ?k s = [] \<Longrightarrow> drop j ps = []"
        using j(2) by (simp_all add: framing_done_def)
      show "length (drop ?k s) \<le> length ns" using Cons.prems(5) by simp
    qed
    then obtain t'' where t'': "feed e alloc ns (drop ?k s) t' (out @ map frame (take j ps)) =
        Some (Inr ([], t'', out @ map frame ps))" "t_recvBuf t'' = []" "t_state t'' = t_state t'"
      by (auto simp flip: map_append)
    moreover have "t_state t' = t_state t" using j(2) by (simp add: framing_done_def)
    ultimately show ?thesis using False j(1) by (auto simp: Let_def)
  qed
qed

section \<open>Lemmas on sending and connecting\<close>

lemma Close_not_connected: "\<not> IsConnected (Close t)"
  by (simp add: Close_def IsConnected_def)

lemma SendOneMsg_sound:
  "SendOneMsg answers data to t = Some (t', sent, r) \<Longrightarrow>
   (\<exists>unsent. data = sent @ unsent \<and> (r = 0 \<longleftrightarrow> unsent = [])) \<and>
   (r = 0 \<or> r = - 1) \<and> (r = - 1 \<longrightarrow> \<not> IsConnected t') \<and> (r = 0 \<longrightarrow> t' = t)"
proof (induction answers data to t arbitrary: t' sent r rule: SendOneMsg.induct)
  case (2 answers b bs to t)
  show ?case
  proof (cases "t_state t = CLIENT_STATE_CONNECTED")
    case False
    with 2(3) show ?thesis by (auto simp: IsConnected_def)
  next
    case conn: True
    then obtain a as where a: "answers = a # as" using 2(3) by (cases answers) auto
    show ?thesis
    proof (cases a)
      case (Accepted n)
      let ?k = "Suc (n mod length (b # bs))"
      obtain sent' where s: "SendOneMsg as (drop ?k (b # bs)) to t = Some (t', sent', r)"
        "sent = take ?k (b # bs) @ sent'"
        using 2(3) conn a Accepted by (auto simp: Let_def split: option.splits)
      have "b # bs = take ?k (b # bs) @ drop ?k (b # bs)" by (simp only: append_take_drop_id)
      then show ?thesis
        using 2(1) [OF _ a Accepted refl s(1)] conn s(2) by (metis append.assoc)
    next
      case (Would_block f w)
      then show ?thesis
        using 2(2) [OF _ a Would_block] 2(3) conn a
        by (cases f; cases "to > 0 \<and> \<not> w") (auto simp: Close_not_connected)
    qed (use 2(3) conn a in \<open>auto simp: Close_not_connected\<close>)
  qed
qed simp

lemma stuck_step:
  assumes "take 4 (t_recvBuf t) = [CHR 0xFF, CHR 0xFF, CHR 0xFF, CHR 0xFC]" "4 < length (t_recvBuf t)"
    and "int (length (t_recvBuf t)) \<le> t_recvBufSize t" "t_recvBufSize t \<le> t_shrinkMax t"
  shows "ProcessData (Suc n) e alloc t out =
    ProcessData n e alloc (TryShrink alloc 0 t) (out @ [[]])"
proof -
  have "be_val [CHR 0xFF, CHR 0xFF, CHR 0xFF, CHR 0xFC] = 4294967292" by (simp add: be_val_def)
  then have g: "GetMsgSize e (t_recvBuf t) = 0"
    using ntohl_load [of "take 4 (t_recvBuf t)" e] assms(1,2) by (simp add: GetMsgSize_def u32_def)
  have "t_recvBufSize t \<le> max (t_shrinkMax t) 0" using assms(4) by simp
  note ts = TryShrink_keeps [OF this, of alloc]
  have same: "(TryShrink alloc 0 t)\<lparr>t_recvBuf := t_recvBuf t\<rparr> = TryShrink alloc 0 t"
    using ts(1) by (cases "TryShrink alloc 0 t") simp
  show ?thesis
    using assms(2,3) g ts
    by (simp only: ProcessData.simps Let_def g if_True if_False) (simp add: same)
qed

section \<open>Properties\<close>

text \<open>
  Stream reassembly: whatever way the bytes of a sequence of frames are cut by the
  network and by the room in the buffer, the transport delivers exactly these frames, in
  order, and ends with an empty buffer and the connection state it had; there is room for
  at least one byte before every read. Memory has to be available.
\<close>

theorem tcp_reassembly:
  assumes "\<forall>n. alloc n" "\<forall>p \<in> set ps. payload_ok p" "recv_ok e t" "t_recvBuf t = []"
    and "length (concat (map frame ps)) \<le> length ns"
  shows "\<exists>t'. feed e alloc ns (concat (map frame ps)) t [] = Some (Inr ([], t', map frame ps)) \<and>
    t_recvBuf t' = [] \<and> t_state t' = t_state t"
proof -
  have "concat (map frame ps) = [] \<Longrightarrow> ps = []" using assms(2) by (cases ps) (auto simp: frame_def payload_ok_def)
  then show ?thesis using feed_frames [OF assms(1-3), of "concat (map frame ps)" ns "[]"] assms(4,5) by simp
qed

theorem tcp_reassembly_witness:
  "\<exists>t'. feed LE (\<lambda>_. True) (replicate 20 2) (concat (map frame [''abc'', ''de'']))
      (TcpTransport_new (\<lambda>_. True) []) [] = Some (Inr ([], t', map frame [''abc'', ''de''])) \<and>
    t_recvBuf t' = [] \<and> t_state t' = t_state (TcpTransport_new (\<lambda>_. True) [])"
  by (rule tcp_reassembly)
    (simp_all add: payload_ok_def TcpTransport_new_def recv_ok_def Let_def DEFAULT_RECV_BUFFER_SIZE_def)

text \<open>
  The send loop: when it ends, what the socket got is a prefix of the data; it
  returns 0 exactly when that is all of it, leaving the transport unchanged, and otherwise
  returns -1 with the connection closed.
\<close>

theorem send_all_or_close:
  assumes "SendOneMsg answers data to t = Some (t', sent, r)"
  shows "\<exists>unsent. data = sent @ unsent \<and> (r = 0 \<longleftrightarrow> unsent = []) \<and>
    (r = 0 \<longrightarrow> t' = t) \<and> (r \<noteq> 0 \<longrightarrow> r = - 1 \<and> \<not> IsConnected t')"
  using SendOneMsg_sound [OF assms] by auto

theorem send_all_or_close_witness:
  "SendOneMsg [Accepted 1, Would_block False True, Accepted 0] ''abc'' 0
     ((TcpTransport_new (\<lambda>_. True) [])\<lparr>t_state := CLIENT_STATE_CONNECTED\<rparr>) =
   Some ((TcpTransport_new (\<lambda>_. True) [])\<lparr>t_state := CLIENT_STATE_CONNECTED\<rparr>, ''abc'', 0)"
proof -
  let ?t = "(TcpTransport_new (\<lambda>_. True) [])\<lparr>t_state := CLIENT_STATE_CONNECTED\<rparr>"
  have "SendOneMsg [Accepted 1, Would_block False True, Accepted 0] ''abc'' 0 ?t = Some (?t, ''abc'', 0)"
    by (simp add: Let_def)
  moreover from send_all_or_close [OF this] have "\<exists>unsent. ''abc'' = ''abc'' @ unsent \<and> unsent = []" by simp
  ultimately show ?thesis by simp
qed

text \<open>
  Connecting: an initialised transport reports success exactly when it is then
  connected to the requested server; a new connection starts with an empty receive buffer,
  and a failed attempt leaves it disconnected from any other server.
\<close>

theorem connect_reports_state:
  assumes "t_state t \<noteq> CLIENT_STATE_UNINIT" "Connect pton ifs env url t = Inr (t', code)"
  shows "(code = CLIENT_ERROR_SUCCESS \<longleftrightarrow> IsConnected t' \<and> t_serverURL t' = url) \<and>
    (code \<noteq> CLIENT_ERROR_SUCCESS \<longrightarrow> \<not> IsConnected t') \<and>
    (code = CLIENT_ERROR_SUCCESS \<longrightarrow> t' = t \<or> t_recvBuf t' = [])"
  using assms Close_not_connected [of t]
  by (auto simp: Connect_def IsConnected_def Let_def CLIENT_ERROR_SUCCESS_def CLIENT_ERROR_INIT_def
      CLIENT_ERROR_INVALID_URL_def CLIENT_ERROR_CONNECT_def split: option.splits if_splits)

theorem connect_reports_state_witness:
  "Connect (\<lambda>_. 0) [] \<lparr>ce_nodelay = True, ce_ssl_tcp = True, ce_ssl_handshake = True, ce_nonblocking = True,
     ce_connect = True, ce_inprogress = False, ce_select = True, ce_writable = True,
     ce_getsockopt = True, ce_opterr = 0\<rparr> ''nocolon'' (TcpTransport_new (\<lambda>_. True) []) =
   Inr (TcpTransport_new (\<lambda>_. True) [], CLIENT_ERROR_INVALID_URL) \<and>
   \<not> IsConnected (TcpTransport_new (\<lambda>_. True) [])"
proof -
  let ?t = "TcpTransport_new (\<lambda>_. True) []"
  let ?env = "\<lparr>ce_nodelay = True, ce_ssl_tcp = True, ce_ssl_handshake = True, ce_nonblocking = True,
     ce_connect = True, ce_inprogress = False, ce_select = True, ce_writable = True,
     ce_getsockopt = True, ce_opterr = 0\<rparr>"
  have st: "t_state ?t = CLIENT_STATE_INITED" by (simp add: TcpTransport_new_def Let_def)
  have "find_from ''nocolon'' '':'' 0 = None" by (simp add: find_from_comma_None)
  then have c: "Connect (\<lambda>_. 0) [] ?env ''nocolon'' ?t = Inr (?t, CLIENT_ERROR_INVALID_URL)"
    by (simp add: Connect_def SplitURL_def st IsConnected_def)
  have "\<not> IsConnected ?t"
    using connect_reports_state [OF _ c] st
    by (simp add: CLIENT_ERROR_SUCCESS_def CLIENT_ERROR_INVALID_URL_def)
  with c show ?thesis by simp
qed

text \<open>
  A length word of 0xFFFFFFFC wraps the frame size to 0: the framing loop then
  delivers empty frames forever, whatever the fuel.
\<close>

theorem framing_never_ends:
  assumes "take 4 (t_recvBuf t) = [CHR 0xFF, CHR 0xFF, CHR 0xFF, CHR 0xFC]" "4 < length (t_recvBuf t)"
    and "int (length (t_recvBuf t)) \<le> t_recvBufSize t" "t_recvBufSize t \<le> t_shrinkMax t"
  shows "ProcessData fuel e alloc t out = None"
  using assms
proof (induction fuel arbitrary: t out)
  case (Suc n)
  have "t_recvBufSize t \<le> max (t_shrinkMax t) 0" using Suc.prems(4) by simp
  note ts = TryShrink_keeps [OF this, of alloc]
  show ?case
    unfolding stuck_step [OF Suc.prems] using Suc.prems ts by (intro Suc.IH) simp_all
qed simp

theorem framing_never_ends_witness:
  "ProcessData 1000 BE (\<lambda>_. True) ((TcpTransport_new (\<lambda>_. True) [])
     \<lparr>t_recvBuf := [CHR 0xFF, CHR 0xFF, CHR 0xFF, CHR 0xFC, CHR 0x00]\<rparr>) [] = None"
  by (rule framing_never_ends)
    (simp_all add: TcpTransport_new_def Let_def DEFAULT_RECV_BUFFER_SIZE_def)

text \<open>
  Shrinking does not look at the bytes in use: a buffer configured larger than
  the shrink limit that holds more than the limit is cut below its content as soon as the
  shrink counter reaches 0, and the loop goes on to read past its end.
\<close>

theorem shrink_below_used:
  assumes "t_shrinkMax t < int (length (t_recvBuf t))" "int (length (t_recvBuf t)) \<le> t_recvBufSize t"
    and "t_shrinkCheckCnt t = 0" "4 < length (t_recvBuf t)"
    and "GetMsgSize e (t_recvBuf t) \<le> t_shrinkMax t" "alloc (t_shrinkMax t)"
  shows "ProcessData (Suc n) e alloc t out = Some (Inl Undefined)"
  using assms by (simp add: Let_def TryShrink_def ResizeBuf_def)

theorem shrink_below_used_witness:
  "ProcessData 1 LE (\<lambda>_. True) \<lparr>t_state = CLIENT_STATE_CONNECTED, t_serverURL = [],
     t_recvBuf = frame ''ab'' @ ''xyz'', t_recvBufSize = 64, t_shrinkMax = 8, t_shrinkCheckCnt = 0,
     t_enableSSL = Some False\<rparr> [] = Some (Inl Undefined)"
  unfolding One_nat_def
  by (rule shrink_below_used)
    (simp_all add: GetMsgSize_frame payload_ok_def)

end
