(* ===== verification/Remoting.thy ===== *)
theory Remoting
  imports Headers Transport
begin

text \<open>
  \<^verbatim>\<open>src/src/protocol/RemotingCommand.cpp\<close> and \<^verbatim>\<open>src/src/transport/TcpRemotingClient.cpp\<close>: the
  commands that travel over a connection, the sequence numbers that match a response to its
  request, the table of connections, and the table of pending requests with the reference
  counts of \<^verbatim>\<open>ResponseFuture\<close>.
\<close>

section \<open>RemotingCommand\<close>

datatype RemotingCommandType = REQUEST_COMMAND | RESPONSE_COMMAND

definition RPC_TYPE :: nat where "RPC_TYPE = 0"
definition RPC_ONEWAY :: nat where "RPC_ONEWAY = 1"

record RemotingCommand =
  rc_code :: int
  rc_language :: string
  rc_version :: int
  rc_opaque :: int
  rc_flag :: int
  rc_remark :: string
  rc_customHeader :: "CommandCustomHeader option"
  rc_head :: "string option"
  rc_headLen :: int
  rc_body :: "string option"
  rc_bodyLen :: int

text \<open>The constructor of a request takes the next sequence number, which wraps at 32 bits.\<close>

definition RemotingCommand_request :: "int \<Rightarrow> int \<Rightarrow> RemotingCommand \<times> int" where
  "RemotingCommand_request code seqNumber =
     (\<lparr>rc_code = code, rc_language = ''CPP'', rc_version = 0, rc_opaque = seqNumber, rc_flag = 0,
       rc_remark = [], rc_customHeader = None, rc_head = None, rc_headLen = 0, rc_body = None,
       rc_bodyLen = 0\<rparr>, i32 (seqNumber + 1))"

definition RemotingCommand_new ::
  "int \<Rightarrow> string \<Rightarrow> int \<Rightarrow> int \<Rightarrow> int \<Rightarrow> string \<Rightarrow> CommandCustomHeader option \<Rightarrow> RemotingCommand" where
  "RemotingCommand_new code language version opaque flag remark pCustomHeader =
     \<lparr>rc_code = code, rc_language = language, rc_version = version, rc_opaque = opaque, rc_flag = flag,
      rc_remark = remark, rc_customHeader = pCustomHeader, rc_head = None, rc_headLen = 0,
      rc_body = None, rc_bodyLen = 0\<rparr>"

definition s_CurrentVersion :: int where "s_CurrentVersion = 19"

text \<open>\<^verbatim>\<open>setCmdVersion\<close> reads and may set the configured version.\<close>

definition setCmdVersion :: "int \<Rightarrow> RemotingCommand \<Rightarrow> RemotingCommand \<times> int" where
  "setCmdVersion s_configVersion cmd =
     (if s_configVersion \<ge> 0 then (cmd\<lparr>rc_version := s_configVersion\<rparr>, s_configVersion)
      else (cmd\<lparr>rc_version := s_CurrentVersion\<rparr>, s_CurrentVersion))"

definition createRequestCommand ::
  "int \<Rightarrow> CommandCustomHeader option \<Rightarrow> int \<times> int \<Rightarrow> RemotingCommand \<times> int \<times> int" where
  "createRequestCommand code pCustomHeader st =
     (case st of (seqNumber, configVersion) \<Rightarrow>
        let (cmd, seq') = RemotingCommand_request code seqNumber;
            cmd1 = cmd\<lparr>rc_customHeader := pCustomHeader\<rparr>;
            (cmd2, ver') = setCmdVersion configVersion cmd1
        in (cmd2, seq', ver'))"

definition SetBody :: "string option \<Rightarrow> int \<Rightarrow> RemotingCommand \<Rightarrow> RemotingCommand" where
  "SetBody pData len cmd = cmd\<lparr>rc_body := pData, rc_bodyLen := len\<rparr>"

definition head_json :: "RemotingCommand \<Rightarrow> string" where
  "head_json cmd =
     (let extHeader = (case rc_customHeader cmd of None \<Rightarrow> ''{}'' | Some h \<Rightarrow> header_Encode h) in
      ''{'' @ quote ''code'' @ '':'' @ show_int (rc_code cmd) @ '','' @
      quote ''language'' @ '':'' @ quote ''CPP'' @ '','' @
      quote ''version'' @ '':'' @ show_int (rc_version cmd) @ '','' @
      quote ''opaque'' @ '':'' @ show_int (rc_opaque cmd) @ '','' @
      quote ''flag'' @ '':'' @ show_int (rc_flag cmd) @ '','' @
      quote ''remark'' @ '':'' @ quote (rc_remark cmd) @ '','' @
      quote ''extFields'' @ '':'' @ extHeader @ ''}'')"

definition Encode_cmd :: "endian \<Rightarrow> RemotingCommand \<Rightarrow> RemotingCommand" where
  "Encode_cmd e cmd =
     (let headLen = i32 (int (length (head_json cmd)));
          m_headLen = i32 (4 + 4 + headLen);
          tmp1 = i32 (htonl e (i32 (m_headLen + rc_bodyLen cmd - 4)));
          tmp2 = i32 (htonl e headLen)
      in cmd\<lparr>rc_headLen := m_headLen,
             rc_head := Some (store e 4 tmp1 @ store e 4 tmp2 @ head_json cmd)\<rparr>)"

text \<open>\<open>pData\<close> is one frame with its length word; a header length outside it is not checked.\<close>

definition Decode_cmd ::
  "endian \<Rightarrow> string \<Rightarrow> int \<Rightarrow> RemotingCommand option result" where
  "Decode_cmd e pData len =
     bind_r (json_parse (c_str (drop 8 pData))) (\<lambda>parsed. case parsed of
        None \<Rightarrow> Inr None
      | Some object \<Rightarrow>
          bind_r (jint object ''code'') (\<lambda>code.
          bind_r (jstring object ''language'') (\<lambda>language.
          bind_r (jint object ''version'') (\<lambda>version.
          bind_r (jint object ''opaque'') (\<lambda>opaque.
          bind_r (jint object ''flag'') (\<lambda>flag.
          bind_r (jstring object ''remark'') (\<lambda>remark.
            let cmd = RemotingCommand_new code language version opaque flag remark None in
            if length pData < 8 then Inl Undefined
            else
              let headLen = i32 (ntohl e (load e (take 4 (drop 4 pData))));
                  bodyLen = i32 (len - 8 - headLen)
              in if bodyLen > 0 then
                   if 8 + headLen < 0 \<or> 8 + headLen + bodyLen > int (length pData) then Inl Undefined
                   else Inr (Some (SetBody (Some (take (nat bodyLen) (drop (nat (8 + headLen)) pData))) bodyLen cmd))
                 else Inr (Some cmd))))))))"

definition markResponseType :: "RemotingCommand \<Rightarrow> RemotingCommand" where
  "markResponseType cmd = (let bits = push_bit RPC_TYPE 1 in cmd\<lparr>rc_flag := rc_flag cmd OR bits\<rparr>)"

definition isResponseType :: "RemotingCommand \<Rightarrow> bool" where
  "isResponseType cmd \<longleftrightarrow> (let bits = push_bit RPC_TYPE 1 in rc_flag cmd AND bits = bits)"

definition markOnewayRPC :: "RemotingCommand \<Rightarrow> RemotingCommand" where
  "markOnewayRPC cmd = (let bits = push_bit RPC_ONEWAY 1 in cmd\<lparr>rc_flag := rc_flag cmd OR bits\<rparr>)"

definition isOnewayRPC :: "RemotingCommand \<Rightarrow> bool" where
  "isOnewayRPC cmd \<longleftrightarrow> (let bits = push_bit RPC_ONEWAY 1 in rc_flag cmd AND bits = bits)"

definition getType :: "RemotingCommand \<Rightarrow> RemotingCommandType" where
  "getType cmd = (if isResponseType cmd then RESPONSE_COMMAND else REQUEST_COMMAND)"

definition MakeCustomHeader ::
  "int \<Rightarrow> string \<Rightarrow> RemotingCommand \<Rightarrow> RemotingCommand result" where
  "MakeCustomHeader code pData cmd =
     (if contains (c_str (drop 8 pData)) (quote ''extFields'' @ '':'') then
        bind_r (header_Decode code pData (isResponseType cmd)) (\<lambda>h.
          Inr (cmd\<lparr>rc_customHeader := h\<rparr>))
      else Inr cmd)"

section \<open>Commands and frames\<close>

definition cmd_fits :: "RemotingCommand \<Rightarrow> bool" where
  "cmd_fits cmd \<longleftrightarrow> (case rc_body cmd of None \<Rightarrow> rc_bodyLen cmd = 0
                       | Some b \<Rightarrow> rc_bodyLen cmd = int (length b)) \<and>
     length (head_json cmd) + length (case rc_body cmd of None \<Rightarrow> [] | Some b \<Rightarrow> b) + 8 < 2147483648"

definition body_bytes :: "RemotingCommand \<Rightarrow> string" where
  "body_bytes cmd = (case rc_body cmd of None \<Rightarrow> [] | Some b \<Rightarrow> b)"

lemma store_i32: "store e 4 (i32 v) = store e 4 v"
  by (simp add: store_def be_bytes_def split: endian.split)

lemma Encode_head:
  assumes "cmd_fits cmd"
  shows "rc_head (Encode_cmd e cmd) = Some (be_bytes 4 (int (4 + length (head_json cmd) + length (body_bytes cmd))) @
      be_bytes 4 (int (length (head_json cmd))) @ head_json cmd)"
proof -
  have bl: "rc_bodyLen cmd = int (length (body_bytes cmd))"
    using assms by (auto simp: cmd_fits_def body_bytes_def split: option.splits)
  have le: "length (head_json cmd) + length (body_bytes cmd) + 8 < 2147483648"
    using assms by (auto simp: cmd_fits_def body_bytes_def split: option.splits)
  have hl: "i32 (int (length (head_json cmd))) = int (length (head_json cmd))" using le by (simp add: i32_id)
  have ml: "i32 (i32 (4 + 4 + int (length (head_json cmd))) + int (length (body_bytes cmd)) - 4) =
      int (4 + length (head_json cmd) + length (body_bytes cmd))"
    using le by (simp add: i32_id)
  show ?thesis
    unfolding Encode_cmd_def Let_def hl bl ml store_i32 store_htonl by simp
qed

lemma Encode_keeps: "rc_body (Encode_cmd e cmd) = rc_body cmd" "rc_bodyLen (Encode_cmd e cmd) = rc_bodyLen cmd"
  by (simp_all add: Encode_cmd_def Let_def)

lemma encoded_frame:
  assumes "cmd_fits cmd"
  shows "the (rc_head (Encode_cmd e cmd)) @ body_bytes cmd =
    frame (be_bytes 4 (int (length (head_json cmd))) @ head_json cmd @ body_bytes cmd)"
  unfolding Encode_head [OF assms] by (simp add: frame_def add.assoc)

text \<open>The JSON object the header text stands for.\<close>

definition extFields_of :: "RemotingCommand \<Rightarrow> json" where
  "extFields_of cmd = JObj (case rc_customHeader cmd of None \<Rightarrow> [] | Some h \<Rightarrow> header_fields h)"

definition head_fields :: "RemotingCommand \<Rightarrow> (string \<times> json) list" where
  "head_fields cmd = [(''code'', JInt (rc_code cmd)), (''language'', JStr ''CPP''),
     (''version'', JInt (rc_version cmd)), (''opaque'', JInt (rc_opaque cmd)),
     (''flag'', JInt (rc_flag cmd)), (''remark'', JStr (rc_remark cmd)), (''extFields'', extFields_of cmd)]"

definition is_int32 :: "int \<Rightarrow> bool" where
  "is_int32 v \<longleftrightarrow> - 2147483648 \<le> v \<and> v < 2147483648"

text \<open>Commands with texts that need no escapes and numbers of their widths.\<close>

definition cmd_plain :: "RemotingCommand \<Rightarrow> bool" where
  "cmd_plain cmd \<longleftrightarrow> list_all is_int32 [rc_code cmd, rc_version cmd, rc_opaque cmd, rc_flag cmd] \<and>
     plain (rc_remark cmd) \<and> (case rc_customHeader cmd of None \<Rightarrow> True | Some h \<Rightarrow> plain_header h)"

lemma is_int32_int64: "is_int32 v \<Longrightarrow> int64 v"
  by (simp add: is_int32_def int64_def)

lemma extFields_print:
  assumes "cmd_plain cmd"
  shows "(case rc_customHeader cmd of None \<Rightarrow> ''{}'' | Some h \<Rightarrow> header_Encode h) = jprint (extFields_of cmd)"
    and "printable (extFields_of cmd)"
  using assms by (auto simp: cmd_plain_def extFields_of_def header_Encode_print plain_header_def list_all_iff
      simp del: jprint.simps split: option.splits) (simp add: jprint_members)

lemma head_json_print:
  assumes "cmd_plain cmd"
  shows "head_json cmd = jprint (JObj (head_fields cmd))" and "printable (JObj (head_fields cmd))"
proof -
  show "printable (JObj (head_fields cmd))"
    using assms extFields_print(2) [OF assms] by (simp add: head_fields_def cmd_plain_def is_int32_int64)
  have q: "plain (rc_remark cmd)" using assms by (simp add: cmd_plain_def)
  show "head_json cmd = jprint (JObj (head_fields cmd))"
    unfolding head_json_def Let_def extFields_print(1) [OF assms] jprint_members head_fields_def
    by (simp add: jquote_plain q plain_char_def)
qed

text \<open>What the reader gives back of the header text, with any body behind it.\<close>

lemma head_parse:
  assumes "cmd_plain cmd"
  shows "json_parse (c_str (head_json cmd @ b)) = Inr (Some (canon (JObj (head_fields cmd))))"
  unfolding head_json_print(1) [OF assms] c_str_append [OF jprint_no_nul]
  by (rule json_parse_object [OF head_json_print(2) [OF assms]])

lemma head_fields_get:
  assumes "cmd_plain cmd"
  shows "jint (canon (JObj (head_fields cmd))) ''code'' = Inr (rc_code cmd)"
    "jint (canon (JObj (head_fields cmd))) ''version'' = Inr (rc_version cmd)"
    "jint (canon (JObj (head_fields cmd))) ''opaque'' = Inr (rc_opaque cmd)"
    "jint (canon (JObj (head_fields cmd))) ''flag'' = Inr (rc_flag cmd)"
    "jstring (canon (JObj (head_fields cmd))) ''language'' = Inr ''CPP''"
    "jstring (canon (JObj (head_fields cmd))) ''remark'' = Inr (rc_remark cmd)"
    "jget (canon (JObj (head_fields cmd))) ''extFields'' = Inr (canon (extFields_of cmd))"
  using assms unfolding jint_def jstring_def canon_get
  by (simp_all add: head_fields_def c_str_def [of "_ # _"] asInt_read cmd_plain_def is_int32_def plain_c_str)

section \<open>The client\<close>

text \<open>\<^verbatim>\<open>GetAndCreateTransport\<close>: the result of a new connection is given by \<open>connect\<close>; the configuration asks for SSL.\<close>

definition client_config :: "(string, string) stdmap" where
  "client_config = mput ''tcp.transport.enableSSL'' ''true'' []"

definition GetAndCreateTransport ::
  "(string \<Rightarrow> TcpTransport \<Rightarrow> (TcpTransport \<times> int) result) \<Rightarrow> (int \<Rightarrow> bool) \<Rightarrow> string \<Rightarrow>
   (string, TcpTransport) stdmap \<Rightarrow> ((string, TcpTransport) stdmap \<times> TcpTransport option) result" where
  "GetAndCreateTransport connect alloc addr table =
     (case mget table addr of
        Some t \<Rightarrow> Inr (table, Some t)
      | None \<Rightarrow>
          bind_r (connect addr (TcpTransport_new alloc client_config)) (\<lambda>(tts, code).
            if code \<noteq> CLIENT_ERROR_SUCCESS then Inr (table, None)
            else Inr (mput addr tts table, Some tts)))"

text \<open>\<^verbatim>\<open>RemoveTTS\<close> erases what it finds under the URL of the transport; erasing the end is undefined.\<close>

definition RemoveTTS ::
  "TcpTransport option \<Rightarrow> (string, TcpTransport) stdmap \<Rightarrow> (string, TcpTransport) stdmap result" where
  "RemoveTTS pTts table =
     (case pTts of
        None \<Rightarrow> Inr table
      | Some t \<Rightarrow>
          (case mget table (t_serverURL t) of
             None \<Rightarrow> Inl Undefined
           | Some _ \<Rightarrow> Inr (mdel (t_serverURL t) table)))"

text \<open>\<^verbatim>\<open>SendCmd\<close>: head and body are two sends, each under the send lock of the transport.\<close>

definition SendCmd ::
  "(string \<Rightarrow> TcpTransport \<Rightarrow> TcpTransport \<times> string \<times> int) \<Rightarrow> TcpTransport \<Rightarrow> RemotingCommand \<Rightarrow>
   TcpTransport \<times> string \<times> int" where
  "SendCmd sendData t msg =
     (let (t1, sent1, ret) = sendData (case rc_head msg of None \<Rightarrow> [] | Some h \<Rightarrow> h) t in
      if ret = 0 \<and> rc_body msg \<noteq> None then
        (let (t2, sent2, ret2) = sendData (the (rc_body msg)) t1 in (t2, sent1 @ sent2, ret2))
      else (t1, sent1, ret))"

definition invokeOnewayImpl ::
  "(string \<Rightarrow> TcpTransport \<Rightarrow> TcpTransport \<times> string \<times> int) \<Rightarrow> TcpTransport \<Rightarrow> RemotingCommand \<Rightarrow>
   TcpTransport \<times> string \<times> RemotingCommand \<times> int" where
  "invokeOnewayImpl sendData t request =
     (let request' = markOnewayRPC request;
          (t', sent, ret) = SendCmd sendData t request'
      in (t', sent, request', 0))"

section \<open>Pending requests and their reference counts\<close>

text \<open>
  One synchronous request among the threads: the caller of \<^verbatim>\<open>invokeSyncImpl\<close>, and the worker that
  runs \<^verbatim>\<open>processResponseCommand\<close> when a response arrives. The future starts with one reference;
  the table holds another. \<open>rf_inv\<close> and \<open>rf_resp\<close> are the points the two threads have reached.
\<close>

datatype inv_pc = Registered | Waiting | Woken | Cleaned | Returned
datatype resp_pc = Idle | Holding | Put | Released

record future_state =
  rf_refs :: int
  rf_in_table :: bool
  rf_freed :: bool
  rf_inv :: inv_pc
  rf_resp :: resp_pc
  rf_response :: "RemotingCommand option"
  rf_result :: "RemotingCommand option"

definition future_init :: future_state where
  "future_init = \<lparr>rf_refs = 2, rf_in_table = True, rf_freed = False, rf_inv = Registered,
     rf_resp = Idle, rf_response = None, rf_result = None\<rparr>"

text \<open>\<^verbatim>\<open>DecRef\<close> deletes the object when the count reaches 0.\<close>

definition DecRef :: "future_state \<Rightarrow> future_state" where
  "DecRef s = (let r = rf_refs s - 1 in s\<lparr>rf_refs := r, rf_freed := (if r = 0 then True else rf_freed s)\<rparr>)"

text \<open>The block under the table lock that ends both paths of the caller.\<close>

definition drop_from_table :: "future_state \<Rightarrow> future_state" where
  "drop_from_table s = (if rf_in_table s then (DecRef s)\<lparr>rf_in_table := False\<rparr> else s)"

inductive future_step :: "future_state \<Rightarrow> future_state \<Rightarrow> bool" where
  sent: "rf_inv s = Registered \<Longrightarrow> future_step s (s\<lparr>rf_inv := Waiting\<rparr>)"
| send_failed: "rf_inv s = Registered \<Longrightarrow> future_step s ((drop_from_table s)\<lparr>rf_inv := Cleaned\<rparr>)"
| woken: "rf_inv s = Waiting \<Longrightarrow> future_step s (s\<lparr>rf_inv := Woken, rf_result := rf_response s\<rparr>)"
| cleanup: "rf_inv s = Woken \<Longrightarrow> future_step s ((drop_from_table s)\<lparr>rf_inv := Cleaned\<rparr>)"
| returned: "rf_inv s = Cleaned \<Longrightarrow> future_step s ((DecRef s)\<lparr>rf_inv := Returned\<rparr>)"
| take_entry: "rf_resp s = Idle \<Longrightarrow> rf_in_table s \<Longrightarrow>
    future_step s (s\<lparr>rf_in_table := False, rf_resp := Holding\<rparr>)"
| put_response: "rf_resp s = Holding \<Longrightarrow> future_step s (s\<lparr>rf_resp := Put, rf_response := Some cmd\<rparr>)"
| release: "rf_resp s = Put \<Longrightarrow> future_step s ((DecRef s)\<lparr>rf_resp := Released\<rparr>)"

inductive future_reachable :: "future_state \<Rightarrow> bool" where
  init: "future_reachable future_init"
| step: "future_reachable s \<Longrightarrow> future_step s s' \<Longrightarrow> future_reachable s'"

inductive_cases future_step_cases: "future_step s s'"

text \<open>Who holds a reference: the caller until it returns, the table, the worker until it releases.\<close>

definition holders :: "future_state \<Rightarrow> int" where
  "holders s = (if rf_inv s \<noteq> Returned then 1 else 0) + (if rf_in_table s then 1 else 0) +
     (if rf_resp s = Holding \<or> rf_resp s = Put then 1 else 0)"

definition future_ok :: "future_state \<Rightarrow> bool" where
  "future_ok s \<longleftrightarrow> rf_refs s = holders s \<and> (rf_freed s \<longleftrightarrow> rf_refs s = 0) \<and>
     (rf_in_table s \<longrightarrow> rf_resp s = Idle \<and> rf_inv s \<noteq> Cleaned \<and> rf_inv s \<noteq> Returned) \<and>
     (rf_response s \<noteq> None \<longleftrightarrow> rf_resp s = Put \<or> rf_resp s = Released)"

lemma future_init_ok: "future_ok future_init"
  by (simp add: future_ok_def future_init_def holders_def)

lemma future_step_ok: "future_step s s' \<Longrightarrow> future_ok s \<Longrightarrow> future_ok s'"
  by (induction rule: future_step.induct)
    (auto simp: future_ok_def holders_def drop_from_table_def DecRef_def Let_def split: if_splits)

lemma future_reachable_ok: "future_reachable s \<Longrightarrow> future_ok s"
  by (induction rule: future_reachable.induct) (auto intro: future_init_ok future_step_ok)

section \<open>Lemmas on flags and sequence numbers\<close>

lemma cmd_flag_bits:
  "isResponseType cmd \<longleftrightarrow> bit (rc_flag cmd) 0" "isOnewayRPC cmd \<longleftrightarrow> bit (rc_flag cmd) 1"
  unfolding isResponseType_def isOnewayRPC_def Let_def RPC_TYPE_def RPC_ONEWAY_def
  by (rule and_power_eq_iff)+

lemma marked_bits:
  "bit (rc_flag (markResponseType cmd)) n \<longleftrightarrow> bit (rc_flag cmd) n \<or> n = 0"
  "bit (rc_flag (markOnewayRPC cmd)) n \<longleftrightarrow> bit (rc_flag cmd) n \<or> n = 1"
proof -
  have "rc_flag (markResponseType cmd) = rc_flag cmd OR push_bit 0 1"
    "rc_flag (markOnewayRPC cmd) = rc_flag cmd OR push_bit 1 1"
    by (simp_all add: markResponseType_def markOnewayRPC_def RPC_TYPE_def RPC_ONEWAY_def)
  then show "bit (rc_flag (markResponseType cmd)) n \<longleftrightarrow> bit (rc_flag cmd) n \<or> n = 0"
    "bit (rc_flag (markOnewayRPC cmd)) n \<longleftrightarrow> bit (rc_flag cmd) n \<or> n = 1"
    by (simp_all only: bit_or_iff bit_push_bit_1)
qed

text \<open>The opaque values of consecutive requests.\<close>

fun request_opaques :: "int list \<Rightarrow> int \<Rightarrow> int list" where
  "request_opaques [] seqNumber = []"
| "request_opaques (code # codes) seqNumber =
     (let (cmd, seq') = RemotingCommand_request code seqNumber in rc_opaque cmd # request_opaques codes seq')"

lemma request_opaques_eq:
  "i32 s = s \<Longrightarrow> request_opaques codes s = map (\<lambda>j. i32 (s + int j)) [0 ..< length codes]"
proof (induction codes arbitrary: s)
  case (Cons c cs)
  have "i32 (i32 (s + 1) + int j) = i32 (s + int (Suc j))" for j
    by (simp add: i32_def mod_simps algebra_simps)
  then show ?case
    using Cons.prems Cons.IH [of "i32 (s + 1)"]
    by (simp add: RemotingCommand_request_def upt_conv_Cons map_Suc_upt [symmetric] comp_def del: upt_Suc)
qed simp

lemma i32_inj: "i32 x = i32 y \<Longrightarrow> \<bar>x - y\<bar> < 4294967296 \<Longrightarrow> x = y"
proof -
  assume a: "i32 x = i32 y" "\<bar>x - y\<bar> < 4294967296"
  from a(1) have "(x + 2147483648) mod 4294967296 = (y + 2147483648) mod 4294967296"
    by (simp add: i32_def)
  then have "4294967296 dvd (x - y)" by (simp add: mod_eq_dvd_iff)
  with a(2) show "x = y" by (metis dvd_imp_le_int linorder_not_le right_minus_eq abs_numeral)
qed

section \<open>Properties\<close>

lemma command_decodes:
  assumes "cmd_fits cmd"
    and "cmd_plain cmd"
    and d_def: "d = the (rc_head (Encode_cmd e cmd)) @ body_bytes cmd"
  shows "GetMsgSize e d = int (length d) \<and>
    (\<exists>cmd'. Decode_cmd e d (int (length d)) = Inr (Some cmd') \<and>
      rc_code cmd' = rc_code cmd \<and> rc_language cmd' = ''CPP'' \<and> rc_version cmd' = rc_version cmd \<and> rc_opaque cmd' = rc_opaque cmd \<and>
      rc_flag cmd' = rc_flag cmd \<and> rc_remark cmd' = rc_remark cmd \<and> body_bytes cmd' = body_bytes cmd)"
proof
  let ?hl = "length (head_json cmd)" and ?bl = "length (body_bytes cmd)"
  have le: "?hl + ?bl + 8 < 2147483648"
    using assms(1) by (auto simp: cmd_fits_def body_bytes_def split: option.splits)
  have d: "d = be_bytes 4 (int (4 + ?hl + ?bl)) @ be_bytes 4 (int ?hl) @ head_json cmd @ body_bytes cmd"
    unfolding d_def Encode_head [OF assms(1)] by simp
  have "payload_ok (be_bytes 4 (int ?hl) @ head_json cmd @ body_bytes cmd)"
    using le by (auto simp: payload_ok_def dest: arg_cong [of _ _ length])
  from GetMsgSize_frame [OF this, of e "[]"] show "GetMsgSize e d = int (length d)"
    unfolding d_def encoded_frame [OF assms(1)] by simp
  have h: "i32 (ntohl e (load e (take 4 (drop 4 d)))) = int ?hl"
    using le by (simp add: d ntohl_load be_val_bytes i32_id)
  have b: "i32 (int (length d) - 8 - int ?hl) = int ?bl" using le by (simp add: d i32_id)
  have "nat (8 + int ?hl) = 8 + ?hl" by simp
  then have bd: "take ?bl (drop (nat (8 + int ?hl)) d) = body_bytes cmd" by (simp add: d)
  have p: "json_parse (c_str (drop 8 d)) = Inr (Some (canon (JObj (head_fields cmd))))"
    using head_parse [OF assms(2)] by (simp add: d del: canon.simps)
  have l: "\<not> length d < 8" "8 + int ?hl + int ?bl = int (length d)" by (simp_all add: d)
  let ?c = "RemotingCommand_new (rc_code cmd) ''CPP'' (rc_version cmd) (rc_opaque cmd) (rc_flag cmd) (rc_remark cmd) None"
  have "Decode_cmd e d (int (length d)) =
    (if 0 < ?bl then Inr (Some (SetBody (Some (body_bytes cmd)) (int ?bl) ?c)) else Inr (Some ?c))"
    unfolding Decode_cmd_def p Let_def h b l(2)
    using l(1) bd by (simp add: head_fields_get [OF assms(2)] del: canon.simps)
  then show "\<exists>cmd'. Decode_cmd e d (int (length d)) = Inr (Some cmd') \<and>
      rc_code cmd' = rc_code cmd \<and> rc_language cmd' = ''CPP'' \<and> rc_version cmd' = rc_version cmd \<and> rc_opaque cmd' = rc_opaque cmd \<and>
      rc_flag cmd' = rc_flag cmd \<and> rc_remark cmd' = rc_remark cmd \<and> body_bytes cmd' = body_bytes cmd"
    by (cases "0 < ?bl") (simp_all add: SetBody_def RemotingCommand_new_def body_bytes_def)
qed

text \<open>
  A command survives the wire: encoding writes one frame (its length word counts
  everything that follows), and decoding that frame returns the code, version, opaque, flag,
  remark and body of the command, the language CPP, read from the header text by the JSON reader.
\<close>

theorem command_roundtrip:
  assumes "cmd_fits cmd"
    and "cmd_plain cmd"
    and d_def: "d = the (rc_head (Encode_cmd e cmd)) @ body_bytes cmd"
  shows "GetMsgSize e d = int (length d) \<and>
    (\<exists>cmd'. Decode_cmd e d (int (length d)) = Inr (Some cmd') \<and>
      rc_code cmd' = rc_code cmd \<and> rc_language cmd' = ''CPP'' \<and> rc_version cmd' = rc_version cmd \<and> rc_opaque cmd' = rc_opaque cmd \<and>
      rc_flag cmd' = rc_flag cmd \<and> rc_remark cmd' = rc_remark cmd \<and> body_bytes cmd' = body_bytes cmd)"
  by (rule command_decodes) (fact assms)+

definition sample_cmd :: RemotingCommand where
  "sample_cmd = SetBody (Some ''xy'') 2 (fst (RemotingCommand_request 10 5))"

theorem command_roundtrip_witness:
  "GetMsgSize LE (the (rc_head (Encode_cmd LE sample_cmd)) @ body_bytes sample_cmd) =
    int (length (the (rc_head (Encode_cmd LE sample_cmd)) @ body_bytes sample_cmd))"
proof -
  have "length (show_int 10) < 10" "length (show_int 0) < 10" "length (show_int 5) < 10"
    by (simp_all add: show_int_def show_nat.simps)
  then have "cmd_fits sample_cmd"
    by (simp add: cmd_fits_def sample_cmd_def SetBody_def RemotingCommand_request_def head_json_def quote_def Let_def)
  then show ?thesis
    by (rule command_roundtrip [THEN conjunct1])
      (simp_all add: sample_cmd_def SetBody_def RemotingCommand_request_def cmd_plain_def is_int32_def)
qed

text \<open>
  The pending-request protocol of a synchronous call is memory safe under every
  interleaving of the caller and the worker, with a response, a timeout or a failed send:
  the future is alive exactly as long as the caller, the table or the worker refers to it,
  so it is freed once, never used afterwards and never leaked; and what the caller returns
  is the response that was put, or nothing.
\<close>

theorem response_future_protocol:
  assumes "future_reachable s"
  shows "(rf_freed s \<longleftrightarrow> rf_inv s = Returned \<and> \<not> rf_in_table s \<and> rf_resp s \<noteq> Holding \<and> rf_resp s \<noteq> Put) \<and>
    rf_refs s \<ge> 0 \<and> (rf_inv s = Returned \<longrightarrow> \<not> rf_in_table s) \<and>
    (rf_response s \<noteq> None \<longleftrightarrow> rf_resp s = Put \<or> rf_resp s = Released)"
  using future_reachable_ok [OF assms] by (auto simp: future_ok_def holders_def split: if_splits)

theorem response_future_protocol_witness:
  "\<exists>s. future_reachable s \<and> rf_inv s = Waiting \<and> \<not> rf_freed s"
proof (intro exI conjI)
  let ?s = "future_init\<lparr>rf_inv := Waiting\<rparr>"
  show r: "future_reachable ?s"
    by (rule future_reachable.step [OF future_reachable.init future_step.sent]) (simp add: future_init_def)
  show "rf_inv ?s = Waiting" by simp
  show "\<not> rf_freed ?s" using response_future_protocol [OF r] by simp
qed

text \<open>
  Up to 4294967296 consecutive requests carry pairwise distinct sequence numbers,
  also across the wrap-around, so a response matches one pending request.
\<close>

theorem request_opaques_distinct:
  assumes "is_int32 seqNumber" "length codes \<le> 4294967296"
  shows "distinct (request_opaques codes seqNumber)"
proof -
  have s: "i32 seqNumber = seqNumber" using assms(1) by (simp add: is_int32_def i32_id)
  have "inj_on (\<lambda>j. i32 (seqNumber + int j)) (set [0 ..< length codes])"
    using assms(2) by (auto intro!: inj_onI dest!: i32_inj)
  then show ?thesis unfolding request_opaques_eq [OF s] by (simp add: distinct_map)
qed

theorem request_opaques_distinct_witness:
  "distinct (request_opaques [10, 11, 12] 2147483647)"
  by (rule request_opaques_distinct) (simp_all add: is_int32_def)

text \<open>
  The type flags of a command: marking it as a response or as one-way makes the
  corresponding test true and keeps every other bit; a one-way call reports success without
  regard to what the socket answered.
\<close>

theorem command_flags:
  "getType (markResponseType cmd) = RESPONSE_COMMAND \<and> isOnewayRPC (markOnewayRPC cmd) \<and>
   getType (markOnewayRPC cmd) = getType cmd \<and>
   isOnewayRPC (markResponseType cmd) = isOnewayRPC cmd \<and>
   snd (snd (snd (invokeOnewayImpl sendData t cmd))) = 0"
  by (simp add: getType_def cmd_flag_bits marked_bits invokeOnewayImpl_def Let_def split: prod.split)

end
