(* ===== verification/Route.thy ===== *)
theory Route
  imports Headers "HOL-Library.Multiset"
begin

text \<open>
  Routing: \<^verbatim>\<open>src/src/protocol/TopicRouteData.h\<close>, \<^verbatim>\<open>src/src/producer/TopicPublishInfo.h\<close> and the tables of
  \<^verbatim>\<open>src/src/MQClientFactory.cpp\<close>: what a route from the name server becomes for the producers and
  the consumers of the process, how broker addresses are looked up and forgotten. The answer
  of the name server is a parameter, and so is whether the try-lock succeeds.
\<close>

section \<open>Route data\<close>

record QueueData =
  qd_brokerName :: string
  qd_readQueueNums :: int
  qd_writeQueueNums :: int
  qd_perm :: int

record BrokerData =
  bd_brokerName :: string
  bd_brokerAddrs :: "(int, string) stdmap"

record TopicRouteData =
  tr_orderTopicConf :: string
  tr_queueDatas :: "QueueData list"
  tr_brokerDatas :: "BrokerData list"

text \<open>
  Reading a route from the JSON text of the name server. The text
  is what stands from the pointer up to the first NUL byte; the length argument is not read.
\<close>

definition QueueData_Decode :: "json \<Rightarrow> QueueData result" where
  "QueueData_Decode qd =
     bind_r (jstring qd ''brokerName'') (\<lambda>name.
     bind_r (jint qd ''readQueueNums'') (\<lambda>readNums.
     bind_r (jint qd ''writeQueueNums'') (\<lambda>writeNums.
     bind_r (jint qd ''perm'') (\<lambda>perm.
       Inr \<lparr>qd_brokerName = name, qd_readQueueNums = readNums, qd_writeQueueNums = writeNums, qd_perm = perm\<rparr>))))"

definition BrokerData_Decode :: "json \<Rightarrow> BrokerData result" where
  "BrokerData_Decode bd =
     bind_r (jstring bd ''brokerName'') (\<lambda>name.
     bind_r (jget bd ''brokerAddrs'') (\<lambda>bas.
     bind_r (jmembers bas) (\<lambda>mbs.
     bind_r (map_r (\<lambda>key. bind_r (jstring bas key) (\<lambda>a. Inr (atoi key, a))) mbs) (\<lambda>entries.
       Inr \<lparr>bd_brokerName = name, bd_brokerAddrs = fold (\<lambda>(k, a). mput k a) entries []\<rparr>))))"

definition TopicRouteData_Decode :: "string \<Rightarrow> TopicRouteData option result" where
  "TopicRouteData_Decode pData =
     bind_r (json_parse pData) (\<lambda>parsed. case parsed of
        None \<Rightarrow> Inr None
      | Some object \<Rightarrow>
          bind_r (jstring object ''orderTopicConf'') (\<lambda>conf.
          bind_r (bind_r (jget object ''queueDatas'') jelems) (\<lambda>qds.
          bind_r (map_r QueueData_Decode qds) (\<lambda>queueDatas.
          bind_r (bind_r (jget object ''brokerDatas'') jelems) (\<lambda>bds.
          bind_r (map_r BrokerData_Decode bds) (\<lambda>brokerDatas.
            Inr (Some \<lparr>tr_orderTopicConf = conf, tr_queueDatas = queueDatas, tr_brokerDatas = brokerDatas\<rparr>)))))))"

definition selectBrokerAddr :: "BrokerData \<Rightarrow> string" where
  "selectBrokerAddr d =
     (case mget (bd_brokerAddrs d) MASTER_ID of
        Some a \<Rightarrow> a
      | None \<Rightarrow> (case bd_brokerAddrs d of [] \<Rightarrow> [] | (k, a) # m \<Rightarrow> a))"

definition TopicRouteData_eq :: "TopicRouteData \<Rightarrow> TopicRouteData \<Rightarrow> bool" where
  "TopicRouteData_eq a b =
     (if tr_brokerDatas a \<noteq> tr_brokerDatas b then False
      else if tr_orderTopicConf a \<noteq> tr_orderTopicConf b then False
      else if tr_queueDatas a \<noteq> tr_queueDatas b then False
      else True)"

text \<open>\<^verbatim>\<open>std::list::sort\<close> with the comparison by broker name is stable.\<close>

definition topicRouteDataIsChange :: "TopicRouteData \<Rightarrow> TopicRouteData \<Rightarrow> bool" where
  "topicRouteDataIsChange olddata nowdata =
     (let srt = (\<lambda>r. r\<lparr>tr_queueDatas := sort_key qd_brokerName (tr_queueDatas r),
                       tr_brokerDatas := sort_key bd_brokerName (tr_brokerDatas r)\<rparr>)
      in \<not> TopicRouteData_eq (srt olddata) (srt nowdata))"

section \<open>Choosing a queue\<close>

record TopicPublishInfo =
  pi_orderTopic :: bool
  pi_messageQueueList :: "MessageQueue list"
  pi_sendWhichQueue :: int

definition TopicPublishInfo_new :: TopicPublishInfo where
  "TopicPublishInfo_new = \<lparr>pi_orderTopic = False, pi_messageQueueList = [], pi_sendWhichQueue = 0\<rparr>"

definition ok_info :: "TopicPublishInfo \<Rightarrow> bool" where
  "ok_info i \<longleftrightarrow> pi_messageQueueList i \<noteq> []"

text \<open>\<^verbatim>\<open>abs(index) % size()\<close>: the \<^verbatim>\<open>int\<close> absolute value (the least integer stays negative) as \<^verbatim>\<open>size_t\<close>.\<close>

definition queue_pos :: "int \<Rightarrow> MessageQueue list \<Rightarrow> nat" where
  "queue_pos index mqs = nat (u64 (i32 \<bar>index\<bar>) mod int (length mqs))"

fun select_loop :: "nat \<Rightarrow> int \<Rightarrow> MessageQueue list \<Rightarrow> string \<Rightarrow> MessageQueue option" where
  "select_loop 0 index mqs lastBrokerName = None"
| "select_loop (Suc n) index mqs lastBrokerName =
     (let mq = mqs ! queue_pos index mqs in
      if getBrokerName mq \<noteq> lastBrokerName then Some mq
      else select_loop n (i32 (index + 1)) mqs lastBrokerName)"

definition selectOneMessageQueue ::
  "string \<Rightarrow> TopicPublishInfo \<Rightarrow> (TopicPublishInfo \<times> MessageQueue option) result" where
  "selectOneMessageQueue lastBrokerName info =
     (let index = pi_sendWhichQueue info;
          info' = info\<lparr>pi_sendWhichQueue := i32 (index + 1)\<rparr>;
          mqs = pi_messageQueueList info
      in if lastBrokerName \<noteq> [] then Inr (info', select_loop (length mqs) index mqs lastBrokerName)
         else if mqs = [] then Inl Undefined
         else Inr (info', Some (mqs ! queue_pos index mqs)))"

section \<open>From routes to queues\<close>

text \<open>One item \<^verbatim>\<open>broker:nums\<close> of an ordered topic; an item without a colon reads past the vector.\<close>

definition order_item :: "string \<Rightarrow> string \<Rightarrow> MessageQueue list result" where
  "order_item topic broker =
     (let item = Split [] broker '':'' in
      if length item < 2 then Inl Undefined
      else Inr (map (\<lambda>i. MessageQueue topic (item ! 0) (int i)) [0 ..< nat (atoi (item ! 1))]))"

fun order_items :: "string \<Rightarrow> string list \<Rightarrow> MessageQueue list result" where
  "order_items topic [] = Inr []"
| "order_items topic (b # bs) =
     (case order_item topic b of
        Inl x \<Rightarrow> Inl x
      | Inr qs \<Rightarrow> (case order_items topic bs of Inl x \<Rightarrow> Inl x | Inr rest \<Rightarrow> Inr (qs @ rest)))"

text \<open>The queues of one queue-data entry: writeable, its broker known and with a master.\<close>

definition publish_queues :: "string \<Rightarrow> BrokerData list \<Rightarrow> QueueData \<Rightarrow> MessageQueue list" where
  "publish_queues topic bds qd =
     (if isWriteable (qd_perm qd) then
        (case List.find (\<lambda>bd. bd_brokerName bd = qd_brokerName qd) bds of
           None \<Rightarrow> []
         | Some brokerData \<Rightarrow>
             if mget (bd_brokerAddrs brokerData) MASTER_ID = None then []
             else map (\<lambda>i. MessageQueue topic (qd_brokerName qd) (int i)) [0 ..< nat (qd_writeQueueNums qd)])
      else [])"

definition topicRouteData2TopicPublishInfo :: "string \<Rightarrow> TopicRouteData \<Rightarrow> TopicPublishInfo result" where
  "topicRouteData2TopicPublishInfo topic route =
     (if tr_orderTopicConf route \<noteq> [] then
        (case order_items topic (Split [] (tr_orderTopicConf route) '';'') of
           Inl x \<Rightarrow> Inl x
         | Inr qs \<Rightarrow> Inr \<lparr>pi_orderTopic = True, pi_messageQueueList = qs, pi_sendWhichQueue = 0\<rparr>)
      else Inr \<lparr>pi_orderTopic = False,
                pi_messageQueueList = concat (map (publish_queues topic (tr_brokerDatas route))
                  (sort_key qd_brokerName (tr_queueDatas route))),
                pi_sendWhichQueue = 0\<rparr>)"

definition topicRouteData2TopicSubscribeInfo :: "string \<Rightarrow> TopicRouteData \<Rightarrow> MessageQueue list" where
  "topicRouteData2TopicSubscribeInfo topic route =
     fold (\<lambda>qd mqList.
             if isReadable (qd_perm qd) then
               fold (\<lambda>i. sput (MessageQueue topic (qd_brokerName qd) (int i)))
                 [0 ..< nat (qd_readQueueNums qd)] mqList
             else mqList) (tr_queueDatas route) []"

section \<open>The factory tables\<close>

datatype ServiceState = CREATE_JUST | RUNNING | SHUTDOWN_ALREADY | START_FAILED

text \<open>What the factory sees of a producer and of a consumer (a push consumer, or a pull consumer whose hooks are empty).\<close>

record ProducerInner =
  pr_topicPublishInfoTable :: "(string, TopicPublishInfo) stdmap"

record ConsumerInner =
  ci_push :: bool
  ci_groupName :: string
  ci_messageModel :: MessageModel
  ci_consumeFromWhere :: ConsumeFromWhere
  ci_subscriptionInner :: "(string, SubscriptionData) stdmap"
  ci_topicSubscribeInfoTable :: "(string, MessageQueue list) stdmap"

record ClientFactory =
  f_topicRouteTable :: "(string, TopicRouteData) stdmap"
  f_brokerAddrTable :: "(string, (int, string) stdmap) stdmap"
  f_producerTable :: "(string, ProducerInner) stdmap"
  f_consumerTable :: "(string, ConsumerInner) stdmap"
  f_adminExtTable :: "(string, unit) stdmap"
  f_serviceState :: ServiceState
  f_clientId :: string

definition isPublishTopicNeedUpdate :: "string \<Rightarrow> ProducerInner \<Rightarrow> bool" where
  "isPublishTopicNeedUpdate topic p =
     (case mget (pr_topicPublishInfoTable p) topic of Some i \<Rightarrow> \<not> ok_info i | None \<Rightarrow> True)"

text \<open>The info is passed by reference: the counter of the old entry is stored into it.\<close>

definition updateTopicPublishInfo ::
  "string \<Rightarrow> TopicPublishInfo \<Rightarrow> ProducerInner \<Rightarrow> ProducerInner \<times> TopicPublishInfo" where
  "updateTopicPublishInfo topic info p =
     (let info' = (case mget (pr_topicPublishInfoTable p) topic of
                     Some old \<Rightarrow> info\<lparr>pi_sendWhichQueue := pi_sendWhichQueue old\<rparr>
                   | None \<Rightarrow> info)
      in (p\<lparr>pr_topicPublishInfoTable := mput topic info' (pr_topicPublishInfoTable p)\<rparr>, info'))"

definition getPublishTopicList :: "ProducerInner \<Rightarrow> string list" where
  "getPublishTopicList p = fold sput (mkeys (pr_topicPublishInfoTable p)) []"

text \<open>\<^verbatim>\<open>std::map::insert\<close> keeps an entry that is already there.\<close>

definition updateTopicSubscribeInfo :: "string \<Rightarrow> MessageQueue list \<Rightarrow> ConsumerInner \<Rightarrow> ConsumerInner" where
  "updateTopicSubscribeInfo topic info c =
     (if \<not> ci_push c then c
      else if mget (ci_subscriptionInner c) topic \<noteq> None then
        (case mget (ci_topicSubscribeInfoTable c) topic of
           Some _ \<Rightarrow> c
         | None \<Rightarrow> c\<lparr>ci_topicSubscribeInfoTable := mput topic info (ci_topicSubscribeInfoTable c)\<rparr>)
      else c)"

definition isSubscribeTopicNeedUpdate :: "string \<Rightarrow> ConsumerInner \<Rightarrow> bool" where
  "isSubscribeTopicNeedUpdate topic c =
     (if \<not> ci_push c then False
      else if mget (ci_subscriptionInner c) topic \<noteq> None
      then mget (ci_topicSubscribeInfoTable c) topic = None else False)"

text \<open>The answers of the producers and consumers are computed and not used.\<close>

definition isNeedUpdateTopicRouteInfo :: "string \<Rightarrow> ClientFactory \<Rightarrow> bool" where
  "isNeedUpdateTopicRouteInfo topic f =
     (let result = False;
          producers = map (\<lambda>(g, p). isPublishTopicNeedUpdate topic p) (f_producerTable f);
          consumers = map (\<lambda>(g, c). isSubscribeTopicNeedUpdate topic c) (f_consumerTable f)
      in result)"

fun update_producers ::
  "string \<Rightarrow> TopicPublishInfo \<Rightarrow> (string, ProducerInner) stdmap \<Rightarrow> (string, ProducerInner) stdmap" where
  "update_producers topic info [] = []"
| "update_producers topic info ((g, p) # ps) =
     (let (p', info') = updateTopicPublishInfo topic info p in (g, p') # update_producers topic info' ps)"

definition install_route :: "string \<Rightarrow> TopicRouteData \<Rightarrow> ClientFactory \<Rightarrow> ClientFactory result" where
  "install_route topic route f =
     (let f1 = f\<lparr>f_brokerAddrTable :=
                   fold (\<lambda>bd. mput (bd_brokerName bd) (bd_brokerAddrs bd)) (tr_brokerDatas route) (f_brokerAddrTable f)\<rparr>
      in case topicRouteData2TopicPublishInfo topic route of
           Inl x \<Rightarrow> Inl x
         | Inr publishInfo \<Rightarrow>
             Inr (f1\<lparr>f_producerTable := update_producers topic publishInfo (f_producerTable f1),
                     f_consumerTable :=
                       map (\<lambda>(g, c). (g, updateTopicSubscribeInfo topic
                              (topicRouteData2TopicSubscribeInfo topic route) c)) (f_consumerTable f1),
                     f_topicRouteTable := mput topic route (f_topicRouteTable f1)\<rparr>))"

text \<open>
  The update with the answer of the name server (an exception is caught). For the default
  topic the number of queues is clamped on copies of the entries only.
\<close>

definition updateTopicRouteInfoFromNameServer ::
  "bool \<Rightarrow> TopicRouteData option result \<Rightarrow> string \<Rightarrow> ClientFactory \<Rightarrow> (ClientFactory \<times> bool) result" where
  "updateTopicRouteInfoFromNameServer locked answer topic f =
     (if \<not> locked then Inr (f, False)
      else
        (case answer of
           Inl x \<Rightarrow> if x = Undefined then Inl Undefined else Inr (f, False)
         | Inr None \<Rightarrow> Inr (f, False)
         | Inr (Some route) \<Rightarrow>
             let changed =
               (case mget (f_topicRouteTable f) topic of
                  Some old \<Rightarrow> topicRouteDataIsChange old route \<or> isNeedUpdateTopicRouteInfo topic f
                | None \<Rightarrow> True)
             in if changed then
                  (case install_route topic route f of Inl x \<Rightarrow> Inl x | Inr f' \<Rightarrow> Inr (f', True))
                else Inr (f, False)))"

section \<open>Registration\<close>

definition registerConsumer :: "string \<Rightarrow> ConsumerInner option \<Rightarrow> ClientFactory \<Rightarrow> ClientFactory \<times> bool" where
  "registerConsumer grp pConsumer f =
     (case pConsumer of
        None \<Rightarrow> (f, False)
      | Some c \<Rightarrow>
          if grp = [] then (f, False)
          else if mget (f_consumerTable f) grp \<noteq> None then (f, False)
          else (f\<lparr>f_consumerTable := mput grp c (f_consumerTable f)\<rparr>, True))"

definition unregisterConsumer :: "string \<Rightarrow> ClientFactory \<Rightarrow> ClientFactory" where
  "unregisterConsumer grp f = f\<lparr>f_consumerTable := mdel grp (f_consumerTable f)\<rparr>"

definition registerProducer :: "string \<Rightarrow> ProducerInner option \<Rightarrow> ClientFactory \<Rightarrow> ClientFactory \<times> bool" where
  "registerProducer grp pProducer f =
     (case pProducer of
        None \<Rightarrow> (f, False)
      | Some p \<Rightarrow>
          if grp = [] then (f, False)
          else if mget (f_producerTable f) grp \<noteq> None then (f, False)
          else (f\<lparr>f_producerTable := mput grp p (f_producerTable f)\<rparr>, True))"

definition unregisterProducer :: "string \<Rightarrow> ClientFactory \<Rightarrow> ClientFactory" where
  "unregisterProducer grp f = f\<lparr>f_producerTable := mdel grp (f_producerTable f)\<rparr>"

definition registerAdminExt :: "string \<Rightarrow> bool \<Rightarrow> ClientFactory \<Rightarrow> ClientFactory \<times> bool" where
  "registerAdminExt grp present f =
     (if grp = [] \<or> \<not> present then (f, False)
      else if mget (f_adminExtTable f) grp \<noteq> None then (f, False)
      else (f\<lparr>f_adminExtTable := mput grp () (f_adminExtTable f)\<rparr>, True))"

definition unregisterAdminExt :: "string \<Rightarrow> ClientFactory \<Rightarrow> ClientFactory" where
  "unregisterAdminExt grp f = f\<lparr>f_adminExtTable := mdel grp (f_adminExtTable f)\<rparr>"

text \<open>
  The life cycle of the factory. \<open>started\<close> says that the network client, the timers and the two
  service threads come up without an exception; the inner producer is started last.
\<close>

definition factory_start :: "bool \<Rightarrow> ClientFactory \<Rightarrow> ClientFactory \<times> unit result" where
  "factory_start started f =
     (case f_serviceState f of
        CREATE_JUST \<Rightarrow>
          (let f1 = f\<lparr>f_serviceState := START_FAILED\<rparr> in
           if \<not> started then (f1, Inl StdException)
           else
             (case registerProducer CLIENT_INNER_PRODUCER_GROUP
                     (Some \<lparr>pr_topicPublishInfoTable = [(DEFAULT_TOPIC, TopicPublishInfo_new)]\<rparr>) f1 of
                (f2, False) \<Rightarrow>
                  (f2, Inl (MQClientException (''The producer group['' @ CLIENT_INNER_PRODUCER_GROUP @
                     ''] has been created before, specify another name please.'') (- 1)))
              | (f2, True) \<Rightarrow> (f2\<lparr>f_serviceState := RUNNING\<rparr>, Inr ())))
      | RUNNING \<Rightarrow> (f, Inr ())
      | SHUTDOWN_ALREADY \<Rightarrow> (f, Inr ())
      | START_FAILED \<Rightarrow> (f, Inl (MQClientException ''The Factory object start failed'' (- 1))))"

definition factory_shutdown :: "ClientFactory \<Rightarrow> ClientFactory" where
  "factory_shutdown f =
     (if f_consumerTable f \<noteq> [] then f
      else if f_adminExtTable f \<noteq> [] then f
      else if length (f_producerTable f) > 1 then f
      else (case f_serviceState f of
              RUNNING \<Rightarrow> f\<lparr>f_producerTable := mdel CLIENT_INNER_PRODUCER_GROUP (f_producerTable f),
                          f_serviceState := SHUTDOWN_ALREADY\<rparr>
            | _ \<Rightarrow> f))"

section \<open>Broker addresses\<close>

record FindBrokerResult =
  fb_brokerAddr :: string
  fb_slave :: bool

fun first_address :: "(int, string) stdmap \<Rightarrow> string \<times> bool" where
  "first_address [] = ([], False)"
| "first_address ((k, a) # m) =
     (if a \<noteq> [] then (a, MASTER_ID \<noteq> k)
      else if m = [] then (a, False) else first_address m)"

definition findBrokerAddressInAdmin :: "string \<Rightarrow> ClientFactory \<Rightarrow> FindBrokerResult" where
  "findBrokerAddressInAdmin brokerName f =
     (case mget (f_brokerAddrTable f) brokerName of
        Some m \<Rightarrow> (let (a, s) = first_address m in \<lparr>fb_brokerAddr = a, fb_slave = s\<rparr>)
      | None \<Rightarrow> \<lparr>fb_brokerAddr = [], fb_slave = False\<rparr>)"

definition findBrokerAddressInPublish :: "string \<Rightarrow> ClientFactory \<Rightarrow> string" where
  "findBrokerAddressInPublish brokerName f =
     (case mget (f_brokerAddrTable f) brokerName of
        Some m \<Rightarrow> (case mget m MASTER_ID of Some a \<Rightarrow> a | None \<Rightarrow> [])
      | None \<Rightarrow> [])"

text \<open>When the asked broker id is missing the first entry is taken, which an empty map does not have; \<^verbatim>\<open>onlyThisBroker\<close> is not read.\<close>

definition findBrokerAddressInSubscribe ::
  "string \<Rightarrow> int \<Rightarrow> bool \<Rightarrow> ClientFactory \<Rightarrow> FindBrokerResult result" where
  "findBrokerAddressInSubscribe brokerName brokerId onlyThisBroker f =
     (case mget (f_brokerAddrTable f) brokerName of
        Some m \<Rightarrow>
          (case mget m brokerId of
             Some a \<Rightarrow> Inr \<lparr>fb_brokerAddr = a, fb_slave = (brokerId \<noteq> MASTER_ID)\<rparr>
           | None \<Rightarrow>
               (case m of
                  [] \<Rightarrow> Inl Undefined
                | (k, a) # m' \<Rightarrow> Inr \<lparr>fb_brokerAddr = a, fb_slave = (brokerId \<noteq> MASTER_ID)\<rparr>))
      | None \<Rightarrow> Inr \<lparr>fb_brokerAddr = [], fb_slave = False\<rparr>)"

definition findBrokerAddrByTopic :: "string \<Rightarrow> ClientFactory \<Rightarrow> string" where
  "findBrokerAddrByTopic topic f =
     (case mget (f_topicRouteTable f) topic of
        Some r \<Rightarrow> (case tr_brokerDatas r of [] \<Rightarrow> [] | bd # bds \<Rightarrow> selectBrokerAddr bd)
      | None \<Rightarrow> [])"

definition isBrokerAddrExistInTopicRouteTable :: "string \<Rightarrow> ClientFactory \<Rightarrow> bool" where
  "isBrokerAddrExistInTopicRouteTable addr f \<longleftrightarrow>
     list_ex (\<lambda>(t, r). list_ex (\<lambda>bd. list_ex (\<lambda>(k, a). contains a addr) (bd_brokerAddrs bd)) (tr_brokerDatas r))
       (f_topicRouteTable f)"

definition cleanOfflineBroker :: "ClientFactory \<Rightarrow> ClientFactory" where
  "cleanOfflineBroker f =
     (let updated = fold (\<lambda>(name, addrs) updatedTable.
            let cloneTable = filter (\<lambda>(k, a). isBrokerAddrExistInTopicRouteTable a f) addrs in
            if cloneTable \<noteq> [] then mput name cloneTable updatedTable else updatedTable)
          (f_brokerAddrTable f) []
      in f\<lparr>f_brokerAddrTable := updated\<rparr>)"

text \<open>The heartbeat and the unregistration go to these addresses, in this order.\<close>

definition heartbeat_targets :: "bool \<Rightarrow> bool \<Rightarrow> ClientFactory \<Rightarrow> string list" where
  "heartbeat_targets producerEmpty consumerEmpty f =
     (if producerEmpty \<and> consumerEmpty then []
      else concat (map (\<lambda>(name, addrs).
             map snd (filter (\<lambda>(k, a). a \<noteq> [] \<and> (consumerEmpty \<longrightarrow> k = MASTER_ID)) addrs))
           (f_brokerAddrTable f)))"

definition unregister_targets :: "ClientFactory \<Rightarrow> string list" where
  "unregister_targets f =
     concat (map (\<lambda>(name, addrs). map snd (filter (\<lambda>(k, a). a \<noteq> []) addrs)) (f_brokerAddrTable f))"

section \<open>Lemmas on the choice of a queue\<close>

lemma queue_pos_small:
  "0 \<le> index \<Longrightarrow> index < 2147483648 \<Longrightarrow> queue_pos index mqs = nat (index mod int (length mqs))"
  by (simp add: queue_pos_def wrap_simps)

lemma queue_pos_less: "mqs \<noteq> [] \<Longrightarrow> queue_pos index mqs < length mqs"
  by (simp add: queue_pos_def nat_less_iff)

text \<open>The loop looks at the queues from the counter on, each once.\<close>

lemma select_loop_find:
  assumes "0 \<le> index" "index + int n < 2147483648"
  shows "select_loop n index mqs lastBrokerName =
    List.find (\<lambda>mq. getBrokerName mq \<noteq> lastBrokerName)
      (map (\<lambda>j. mqs ! nat ((index + int j) mod int (length mqs))) [0 ..< n])"
  using assms
proof (induction n arbitrary: index)
  case (Suc n)
  have ih: "select_loop n (index + 1) mqs lastBrokerName =
    List.find (\<lambda>mq. getBrokerName mq \<noteq> lastBrokerName)
      (map (\<lambda>j. mqs ! nat ((index + 1 + int j) mod int (length mqs))) [0 ..< n])"
    using Suc.prems by (intro Suc.IH) simp_all
  have "i32 (index + 1) = index + 1" using Suc.prems by (simp add: i32_id)
  moreover have "map (\<lambda>j. mqs ! nat ((index + int j) mod int (length mqs))) [0 ..< Suc n] =
    mqs ! nat (index mod int (length mqs)) # map (\<lambda>j. mqs ! nat ((index + 1 + int j) mod int (length mqs))) [0 ..< n]"
    by (simp add: upt_conv_Cons map_Suc_upt [symmetric] comp_def algebra_simps del: upt_Suc)
  ultimately show ?case
    using Suc.prems by (simp add: Let_def queue_pos_small ih del: upt_Suc)
qed simp

lemma round_is_rotation:
  assumes "0 \<le> index"
  shows "map (\<lambda>j. mqs ! nat ((index + int j) mod int (length mqs))) [0 ..< length mqs] = rotate (nat index) mqs"
proof (rule nth_equalityI)
  fix i assume i: "i < length (map (\<lambda>j. mqs ! nat ((index + int j) mod int (length mqs))) [0 ..< length mqs])"
  have "nat ((index + int i) mod int (length mqs)) = (nat index + i) mod length mqs"
    using assms by (metis int_ops(5) nat_0_le nat_int nat_mod_as_int)
  then show "map (\<lambda>j. mqs ! nat ((index + int j) mod int (length mqs))) [0 ..< length mqs] ! i = rotate (nat index) mqs ! i"
    using i by (simp add: nth_rotate add.commute)
qed simp

text \<open>Successive calls without a broker to avoid.\<close>

fun select_many :: "nat \<Rightarrow> TopicPublishInfo \<Rightarrow> (TopicPublishInfo \<times> MessageQueue option list) result" where
  "select_many 0 info = Inr (info, [])"
| "select_many (Suc n) info =
     (case selectOneMessageQueue [] info of
        Inl x \<Rightarrow> Inl x
      | Inr (info', mq) \<Rightarrow>
          (case select_many n info' of Inl x \<Rightarrow> Inl x | Inr (info'', l) \<Rightarrow> Inr (info'', mq # l)))"

lemma select_many_eq:
  assumes "0 \<le> pi_sendWhichQueue info" "pi_sendWhichQueue info + int n < 2147483648"
    "pi_messageQueueList info \<noteq> []"
  shows "select_many n info = Inr (info\<lparr>pi_sendWhichQueue := pi_sendWhichQueue info + int n\<rparr>,
    map (\<lambda>j. Some (pi_messageQueueList info ! nat ((pi_sendWhichQueue info + int j) mod int (length (pi_messageQueueList info))))) [0 ..< n])"
  using assms
proof (induction n arbitrary: info)
  case (Suc n)
  let ?s = "pi_sendWhichQueue info" and ?q = "pi_messageQueueList info"
  have "selectOneMessageQueue [] info = Inr (info\<lparr>pi_sendWhichQueue := ?s + 1\<rparr>, Some (?q ! nat (?s mod int (length ?q))))"
    using Suc.prems by (simp add: selectOneMessageQueue_def Let_def queue_pos_small i32_id)
  moreover have "select_many n (info\<lparr>pi_sendWhichQueue := ?s + 1\<rparr>) =
     Inr (info\<lparr>pi_sendWhichQueue := ?s + int (Suc n)\<rparr>,
       map (\<lambda>j. Some (?q ! nat ((?s + 1 + int j) mod int (length ?q)))) [0 ..< n])"
    using Suc.prems by (subst Suc.IH) (simp_all add: algebra_simps)
  ultimately show ?case
    by (simp add: upt_conv_Cons map_Suc_upt [symmetric] comp_def algebra_simps del: upt_Suc)
qed simp

section \<open>Properties\<close>

text \<open>
  Without a broker to avoid the queues are chosen in turn: as many calls as there
  are queues return each queue once, in the order of the list from the counter on, and the
  counter has advanced by the number of calls (as long as it does not overflow).
\<close>

theorem queue_round_robin:
  assumes "0 \<le> pi_sendWhichQueue info"
    and "pi_sendWhichQueue info + int (length (pi_messageQueueList info)) < 2147483648"
    and "pi_messageQueueList info \<noteq> []"
  shows "select_many (length (pi_messageQueueList info)) info =
    Inr (info\<lparr>pi_sendWhichQueue := pi_sendWhichQueue info + int (length (pi_messageQueueList info))\<rparr>,
      map Some (rotate (nat (pi_sendWhichQueue info)) (pi_messageQueueList info)))"
  unfolding select_many_eq [OF assms] round_is_rotation [OF assms(1), of "pi_messageQueueList info", symmetric]
  by (simp add: comp_def)

definition sample_info :: TopicPublishInfo where
  "sample_info = \<lparr>pi_orderTopic = False,
     pi_messageQueueList = [MessageQueue ''T'' ''a'' 0, MessageQueue ''T'' ''a'' 1, MessageQueue ''T'' ''b'' 0],
     pi_sendWhichQueue = 4\<rparr>"

theorem queue_round_robin_witness:
  "select_many 3 sample_info = Inr (sample_info\<lparr>pi_sendWhichQueue := 7\<rparr>,
     [Some (MessageQueue ''T'' ''a'' 1), Some (MessageQueue ''T'' ''b'' 0), Some (MessageQueue ''T'' ''a'' 0)])"
  using queue_round_robin [of sample_info]
  by (simp add: sample_info_def rotate_def numeral_nat)

text \<open>
  Property C30. With a broker to avoid, the call returns the first queue of another broker from
  the counter on, and NULL exactly when every queue of the topic is on that broker; the
  counter advances by one in any case.
\<close>

theorem select_avoids_broker:
  assumes "lastBrokerName \<noteq> []" "0 \<le> pi_sendWhichQueue info"
    and "pi_sendWhichQueue info + int (length (pi_messageQueueList info)) < 2147483647"
  shows "selectOneMessageQueue lastBrokerName info =
      Inr (info\<lparr>pi_sendWhichQueue := pi_sendWhichQueue info + 1\<rparr>,
        List.find (\<lambda>mq. getBrokerName mq \<noteq> lastBrokerName)
          (rotate (nat (pi_sendWhichQueue info)) (pi_messageQueueList info))) \<and>
    (List.find (\<lambda>mq. getBrokerName mq \<noteq> lastBrokerName)
        (rotate (nat (pi_sendWhichQueue info)) (pi_messageQueueList info)) = None \<longleftrightarrow>
      (\<forall>mq \<in> set (pi_messageQueueList info). getBrokerName mq = lastBrokerName))"
proof
  show "selectOneMessageQueue lastBrokerName info =
      Inr (info\<lparr>pi_sendWhichQueue := pi_sendWhichQueue info + 1\<rparr>,
        List.find (\<lambda>mq. getBrokerName mq \<noteq> lastBrokerName)
          (rotate (nat (pi_sendWhichQueue info)) (pi_messageQueueList info)))"
    using assms by (simp add: selectOneMessageQueue_def Let_def i32_id select_loop_find round_is_rotation)
  show "List.find (\<lambda>mq. getBrokerName mq \<noteq> lastBrokerName)
        (rotate (nat (pi_sendWhichQueue info)) (pi_messageQueueList info)) = None \<longleftrightarrow>
      (\<forall>mq \<in> set (pi_messageQueueList info). getBrokerName mq = lastBrokerName)"
    by (auto simp: find_None_iff)
qed

theorem select_avoids_broker_witness:
  "selectOneMessageQueue ''a'' sample_info =
     Inr (sample_info\<lparr>pi_sendWhichQueue := 5\<rparr>, Some (MessageQueue ''T'' ''b'' 0)) \<and>
   selectOneMessageQueue ''a'' (sample_info\<lparr>pi_messageQueueList := [MessageQueue ''T'' ''a'' 0]\<rparr>) =
     Inr (sample_info\<lparr>pi_messageQueueList := [MessageQueue ''T'' ''a'' 0], pi_sendWhichQueue := 5\<rparr>, None)"
  using select_avoids_broker [of "''a''" sample_info]
    select_avoids_broker [of "''a''" "sample_info\<lparr>pi_messageQueueList := [MessageQueue ''T'' ''a'' 0]\<rparr>"]
  by (simp add: sample_info_def rotate_def numeral_nat)

section \<open>Lemmas on routes and tables\<close>

lemma int_upto_iff: "(\<exists>x \<in> {0 ..< nat n}. P (int x)) \<longleftrightarrow> (\<exists>i. 0 \<le> i \<and> i < n \<and> P i)"
proof
  assume "\<exists>i. 0 \<le> i \<and> i < n \<and> P i"
  then obtain i where "0 \<le> i" "i < n" "P i" by blast
  then show "\<exists>x \<in> {0 ..< nat n}. P (int x)" by (intro bexI [of _ "nat i"]) simp_all
next
  assume "\<exists>x \<in> {0 ..< nat n}. P (int x)"
  then obtain x where "x < nat n" "P (int x)" by auto
  then show "\<exists>i. 0 \<le> i \<and> i < n \<and> P i" by (intro exI [of _ "int x"]) (simp add: zless_nat_eq_int_zless)
qed

lemma in_queue_range:
  "mq \<in> (\<lambda>i. MessageQueue topic b (int i)) ` {0 ..< nat n} \<longleftrightarrow> (\<exists>i. 0 \<le> i \<and> i < n \<and> mq = MessageQueue topic b i)"
  using int_upto_iff [of n "\<lambda>i. mq = MessageQueue topic b i"] by (simp add: image_iff)

lemma in_publish_queues:
  "mq \<in> set (publish_queues topic bds qd) \<longleftrightarrow>
     isWriteable (qd_perm qd) \<and>
     (case List.find (\<lambda>bd. bd_brokerName bd = qd_brokerName qd) bds of
        None \<Rightarrow> False | Some bd \<Rightarrow> mget (bd_brokerAddrs bd) MASTER_ID \<noteq> None) \<and>
     (\<exists>i. 0 \<le> i \<and> i < qd_writeQueueNums qd \<and> mq = MessageQueue topic (qd_brokerName qd) i)"
proof (cases "List.find (\<lambda>bd. bd_brokerName bd = qd_brokerName qd) bds")
  case (Some bd)
  then show ?thesis
    using in_queue_range [of mq topic "qd_brokerName qd" "qd_writeQueueNums qd"]
    unfolding publish_queues_def Some by (cases "isWriteable (qd_perm qd)") auto
next
  case None
  have "publish_queues topic bds qd = []" unfolding publish_queues_def None option.case(1) by (simp only: if_cancel)
  then show ?thesis unfolding None option.case(1) by (simp only: list.set(1) empty_iff simp_thms)
qed

lemma publish_queues_broker: "mq \<in> set (publish_queues topic bds qd) \<Longrightarrow> getBrokerName mq = qd_brokerName qd"
  by (auto simp: in_publish_queues)

text \<open>Blocks made from the queue data in key order come out in key order.\<close>

lemma sorted_concat_key:
  assumes "sorted (map key xs)" "\<And>x y. x \<in> set xs \<Longrightarrow> y \<in> set (f x) \<Longrightarrow> val y = key x"
  shows "sorted (map val (concat (map f xs)))"
  using assms
proof (induction xs)
  case (Cons x xs)
  have "sorted (map val (f x))"
  proof -
    have "map val (f x) = replicate (length (f x)) (key x)"
      using Cons.prems(2) [of x] by (intro nth_equalityI) auto
    then show ?thesis by (simp add: sorted_replicate)
  qed
  moreover have "val y \<le> val z" if "y \<in> set (f x)" "z \<in> set (concat (map f xs))" for y z
  proof -
    from that(2) obtain w where "w \<in> set xs" "z \<in> set (f w)" by auto
    with Cons.prems(2) [of x y] Cons.prems(2) [of w z] Cons.prems(1) that(1) show ?thesis by simp
  qed
  ultimately show ?case
    using Cons by (auto simp: sorted_append)
qed simp

lemma set_fold_subscribe:
  "set (fold (\<lambda>qd s. if P qd then fold (\<lambda>i. sput (g qd i)) (ns qd) s else s) qds s0) =
     set s0 \<union> (\<Union>qd \<in> {qd \<in> set qds. P qd}. g qd ` set (ns qd))"
proof (induction qds arbitrary: s0)
  case (Cons qd qds)
  have "set (fold (\<lambda>i. sput (g qd i)) (ns qd) s0) = set s0 \<union> g qd ` set (ns qd)"
    using set_fold_sput [of "map (g qd) (ns qd)" s0] by (simp add: fold_map comp_def)
  then show ?case by (auto simp: Cons.IH)
qed simp

lemma sok_fold_subscribe:
  "sok s0 \<Longrightarrow> sok (fold (\<lambda>qd s. if P qd then fold (\<lambda>i. sput (g qd i)) (ns qd) s else s) qds s0)"
proof (induction qds arbitrary: s0)
  case (Cons qd qds)
  have "sok (fold (\<lambda>i. sput (g qd i)) (ns qd) s0)"
    using sok_fold_sput [OF Cons.prems, of "map (g qd) (ns qd)"] by (simp add: fold_map comp_def)
  with Cons show ?case by simp
qed simp

lemma update_producers_keys: "mkeys (update_producers topic info ps) = mkeys ps"
  by (induction topic info ps rule: update_producers.induct) (auto simp: Let_def split: prod.splits)

lemma update_producers_get:
  "mget (update_producers topic info ps) g = Some p' \<Longrightarrow>
   \<exists>p i. mget ps g = Some p \<and> mget (pr_topicPublishInfoTable p') topic = Some i \<and>
     pi_messageQueueList i = pi_messageQueueList info \<and> pi_orderTopic i = pi_orderTopic info \<and>
     (\<forall>t. t \<noteq> topic \<longrightarrow> mget (pr_topicPublishInfoTable p') t = mget (pr_topicPublishInfoTable p) t) \<and>
     (\<forall>old. mget (pr_topicPublishInfoTable p) topic = Some old \<longrightarrow> pi_sendWhichQueue i = pi_sendWhichQueue old)"
proof (induction topic info ps rule: update_producers.induct)
  case (2 topic info g' p ps)
  obtain p1 info1 where u: "updateTopicPublishInfo topic info p = (p1, info1)" by (cases "updateTopicPublishInfo topic info p")
  have p1: "p1 = p\<lparr>pr_topicPublishInfoTable := mput topic info1 (pr_topicPublishInfoTable p)\<rparr>"
    and i1: "pi_messageQueueList info1 = pi_messageQueueList info" "pi_orderTopic info1 = pi_orderTopic info"
    and o1: "\<forall>old. mget (pr_topicPublishInfoTable p) topic = Some old \<longrightarrow> pi_sendWhichQueue info1 = pi_sendWhichQueue old"
    using u by (auto simp: updateTopicPublishInfo_def Let_def split: option.splits)
  show ?case
  proof (cases "g = g'")
    case True
    then have "p' = p1" using "2.prems" by (simp add: u)
    then show ?thesis using True p1 i1 o1 by (simp add: mget_mput)
  next
    case False
    then have "mget (update_producers topic info1 ps) g = Some p'" using "2.prems" by (simp add: u)
    from "2.IH" [OF u [symmetric] refl this] show ?thesis using False i1 by simp
  qed
qed simp

lemma mget_map_values: "mget (map (\<lambda>(k, v). (k, f v)) m) k = map_option f (mget m k)"
  by (induction m) auto

lemma mkeys_map_values: "mkeys (map (\<lambda>(k, v). (k, f v)) m) = mkeys m"
  by (induction m) auto

text \<open>
  What a route becomes for producers and consumers. For an unordered topic a queue
  is published exactly when a writeable entry of the route has it among its write queues and
  its broker is known with a master, and the queues are in the order of the broker names; a
  queue is subscribed exactly when a readable entry has it among its read queues, once.
\<close>

theorem route_queues:
  assumes "tr_orderTopicConf route = []"
  shows "\<exists>i. topicRouteData2TopicPublishInfo topic route = Inr i \<and> \<not> pi_orderTopic i \<and>
      (\<forall>mq. mq \<in> set (pi_messageQueueList i) \<longleftrightarrow>
        (\<exists>qd \<in> set (tr_queueDatas route). isWriteable (qd_perm qd) \<and>
          (case List.find (\<lambda>bd. bd_brokerName bd = qd_brokerName qd) (tr_brokerDatas route) of
             None \<Rightarrow> False | Some bd \<Rightarrow> mget (bd_brokerAddrs bd) MASTER_ID \<noteq> None) \<and>
          (\<exists>n. 0 \<le> n \<and> n < qd_writeQueueNums qd \<and> mq = MessageQueue topic (qd_brokerName qd) n))) \<and>
      sorted (map getBrokerName (pi_messageQueueList i)) \<and>
      sok (topicRouteData2TopicSubscribeInfo topic route) \<and>
      (\<forall>mq. mq \<in> set (topicRouteData2TopicSubscribeInfo topic route) \<longleftrightarrow>
        (\<exists>qd \<in> set (tr_queueDatas route). isReadable (qd_perm qd) \<and>
          (\<exists>n. 0 \<le> n \<and> n < qd_readQueueNums qd \<and> mq = MessageQueue topic (qd_brokerName qd) n)))"
proof -
  let ?pq = "concat (map (publish_queues topic (tr_brokerDatas route)) (sort_key qd_brokerName (tr_queueDatas route)))"
  have a: "topicRouteData2TopicPublishInfo topic route =
      Inr \<lparr>pi_orderTopic = False, pi_messageQueueList = ?pq, pi_sendWhichQueue = 0\<rparr>"
    using assms by (simp add: topicRouteData2TopicPublishInfo_def)
  have b: "mq \<in> set ?pq \<longleftrightarrow> (\<exists>qd \<in> set (tr_queueDatas route). mq \<in> set (publish_queues topic (tr_brokerDatas route) qd))" for mq
    by simp
  have c: "sorted (map getBrokerName ?pq)"
    by (rule sorted_concat_key [where key = qd_brokerName]) (simp_all add: publish_queues_broker)
  have d: "mq \<in> set (topicRouteData2TopicSubscribeInfo topic route) \<longleftrightarrow>
      (\<exists>qd \<in> set (tr_queueDatas route). isReadable (qd_perm qd) \<and>
        (\<exists>n. 0 \<le> n \<and> n < qd_readQueueNums qd \<and> mq = MessageQueue topic (qd_brokerName qd) n))" for mq
    unfolding topicRouteData2TopicSubscribeInfo_def set_fold_subscribe by (auto simp: in_queue_range)
  have e: "sok (topicRouteData2TopicSubscribeInfo topic route)"
    unfolding topicRouteData2TopicSubscribeInfo_def by (rule sok_fold_subscribe) (simp add: sok_def)
  show ?thesis using a b c d e by (simp add: in_publish_queues)
qed

definition sample_route :: TopicRouteData where
  "sample_route = \<lparr>tr_orderTopicConf = [],
     tr_queueDatas = [\<lparr>qd_brokerName = ''b'', qd_readQueueNums = 1, qd_writeQueueNums = 2, qd_perm = 6\<rparr>,
                      \<lparr>qd_brokerName = ''a'', qd_readQueueNums = 1, qd_writeQueueNums = 1, qd_perm = 6\<rparr>],
     tr_brokerDatas = [\<lparr>bd_brokerName = ''a'', bd_brokerAddrs = [(0, ''h1:1''), (1, ''h2:1'')]\<rparr>,
                       \<lparr>bd_brokerName = ''b'', bd_brokerAddrs = [(0, ''h3:1'')]\<rparr>]\<rparr>"

theorem route_queues_witness:
  "\<exists>i. topicRouteData2TopicPublishInfo ''T'' sample_route = Inr i \<and>
     MessageQueue ''T'' ''b'' 1 \<in> set (pi_messageQueueList i) \<and>
     sorted (map getBrokerName (pi_messageQueueList i)) \<and>
     MessageQueue ''T'' ''b'' 1 \<notin> set (topicRouteData2TopicSubscribeInfo ''T'' sample_route)"
proof -
  have "tr_orderTopicConf sample_route = []" by (simp add: sample_route_def)
  from route_queues [OF this, of "''T''"] obtain i
    where i: "topicRouteData2TopicPublishInfo ''T'' sample_route = Inr i" "sorted (map getBrokerName (pi_messageQueueList i))"
      and s: "MessageQueue ''T'' ''b'' 1 \<notin> set (topicRouteData2TopicSubscribeInfo ''T'' sample_route)"
    by (auto simp: sample_route_def)
  have "MessageQueue ''T'' ''b'' 1 \<in> set (pi_messageQueueList i)"
    using i(1) by (auto simp: topicRouteData2TopicPublishInfo_def sample_route_def publish_queues_def isWriteable_def
        PERM_WRITE_def PERM_READ_def MASTER_ID_def numeral_nat)
  with i s show ?thesis by blast
qed

section \<open>Updating the tables\<close>

definition factory_ok :: "ClientFactory \<Rightarrow> bool" where
  "factory_ok f \<longleftrightarrow> mok (f_topicRouteTable f) \<and> mok (f_brokerAddrTable f) \<and> mok (f_producerTable f) \<and>
     mok (f_consumerTable f) \<and> mok (f_adminExtTable f)"

lemma install_route_ok: "factory_ok f \<Longrightarrow> install_route topic route f = Inr f' \<Longrightarrow> factory_ok f'"
  by (auto simp: install_route_def factory_ok_def Let_def mok_mput stdmap.ok_fold_put mok_def
      update_producers_keys mkeys_map_values simp del: mok_simps split: sum.splits)
    (simp_all flip: mok_def add: mok_mput stdmap.ok_fold_put)

lemma same_route_unchanged: "\<not> topicRouteDataIsChange r r"
  by (simp add: topicRouteDataIsChange_def TopicRouteData_eq_def Let_def)

lemma update_True_install:
  "updateTopicRouteInfoFromNameServer locked answer topic f = Inr (f', True) \<Longrightarrow>
   locked \<and> (\<exists>route. answer = Inr (Some route) \<and> install_route topic route f = Inr f')"
  by (auto simp: updateTopicRouteInfoFromNameServer_def Let_def split: if_splits sum.splits option.splits)

lemma map_of_rev_distinct: "distinct (map fst xs) \<Longrightarrow> map_of (rev xs) = map_of xs"
  by (subst map_of_inject_set) (simp_all add: rev_map [symmetric])

lemma brokers_installed:
  assumes "mok m" "distinct (map bd_brokerName bds)"
  shows "mget (fold (\<lambda>bd. mput (bd_brokerName bd) (bd_brokerAddrs bd)) bds m) =
    mget m ++ map_of (map (\<lambda>bd. (bd_brokerName bd, bd_brokerAddrs bd)) bds)"
proof -
  have "map_of (rev (map (\<lambda>bd. (bd_brokerName bd, bd_brokerAddrs bd)) bds)) =
      map_of (map (\<lambda>bd. (bd_brokerName bd, bd_brokerAddrs bd)) bds)"
    using assms(2) by (intro map_of_rev_distinct) (simp add: comp_def)
  then show ?thesis by (simp add: stdmap.get_fold_put [OF assms(1)])
qed

text \<open>
  A route is the one already known when the configuration of ordered topics is the same and every broker
  has the same entries in the same order; entries of different brokers may have changed places.
\<close>

definition same_route :: "TopicRouteData \<Rightarrow> TopicRouteData \<Rightarrow> bool" where
  "same_route a b \<longleftrightarrow> tr_orderTopicConf a = tr_orderTopicConf b \<and>
     (\<forall>n. filter (\<lambda>q. qd_brokerName q = n) (tr_queueDatas a) = filter (\<lambda>q. qd_brokerName q = n) (tr_queueDatas b)) \<and>
     (\<forall>n. filter (\<lambda>d. bd_brokerName d = n) (tr_brokerDatas a) = filter (\<lambda>d. bd_brokerName d = n) (tr_brokerDatas b))"

definition knows_route :: "string \<Rightarrow> TopicRouteData \<Rightarrow> ClientFactory \<Rightarrow> bool" where
  "knows_route topic route f \<longleftrightarrow> (\<exists>old. mget (f_topicRouteTable f) topic = Some old \<and> same_route old route)"

lemma sort_key_eq_iff:
  fixes g :: "'a \<Rightarrow> 'b :: linorder"
  shows "sort_key g xs = sort_key g ys \<longleftrightarrow> (\<forall>n. filter (\<lambda>x. g x = n) xs = filter (\<lambda>x. g x = n) ys)"
proof
  assume "sort_key g xs = sort_key g ys"
  then have "filter (\<lambda>x. g x = n) (sort_key g xs) = filter (\<lambda>x. g x = n) (sort_key g ys)" for n by simp
  then show "\<forall>n. filter (\<lambda>x. g x = n) xs = filter (\<lambda>x. g x = n) ys" by (simp add: sort_key_stable)
next
  assume eq: "\<forall>n. filter (\<lambda>x. g x = n) xs = filter (\<lambda>x. g x = n) ys"
  have "count (mset xs) x = count (mset ys) x" for x
  proof -
    have "count (mset zs) x = count (mset (filter (\<lambda>y. g y = g x) zs)) x" for zs by simp
    with eq show ?thesis by metis
  qed
  then have "mset (sort_key g ys) = mset xs" by (simp add: multiset_eq_iff)
  then show "sort_key g xs = sort_key g ys"
  proof (rule properties_for_sort_key)
    have "(\<lambda>x. g k = g x) = (\<lambda>x. g x = g k)" for k by auto
    then show "filter (\<lambda>x. g k = g x) (sort_key g ys) = filter (\<lambda>x. g k = g x) xs" for k
      using eq by (simp add: sort_key_stable)
  qed simp
qed

lemma change_iff: "topicRouteDataIsChange a b \<longleftrightarrow> \<not> same_route a b"
  by (auto simp: topicRouteDataIsChange_def TopicRouteData_eq_def same_route_def Let_def sort_key_eq_iff)

lemma update_by_knowledge:
  "updateTopicRouteInfoFromNameServer True (Inr (Some route)) topic f =
     (if knows_route topic route f then Inr (f, False) else bind_r (install_route topic route f) (\<lambda>f'. Inr (f', True)))"
  by (auto simp: updateTopicRouteInfoFromNameServer_def knows_route_def change_iff isNeedUpdateTopicRouteInfo_def Let_def
      split: option.splits sum.splits)

text \<open>What installing a route does to the tables of the factory, each by lookup.\<close>

lemma installed_brokers:
  assumes "factory_ok f" "distinct (map bd_brokerName (tr_brokerDatas route))" "install_route topic route f = Inr f'"
  shows "(\<forall>bd \<in> set (tr_brokerDatas route). mget (f_brokerAddrTable f') (bd_brokerName bd) = Some (bd_brokerAddrs bd)) \<and>
    (\<forall>b. b \<notin> bd_brokerName ` set (tr_brokerDatas route) \<longrightarrow> mget (f_brokerAddrTable f') b = mget (f_brokerAddrTable f) b)"
proof -
  let ?new = "map_of (map (\<lambda>bd. (bd_brokerName bd, bd_brokerAddrs bd)) (tr_brokerDatas route))"
  have addr: "mget (f_brokerAddrTable f') = mget (f_brokerAddrTable f) ++ ?new"
    using assms by (auto simp: install_route_def Let_def factory_ok_def brokers_installed split: sum.splits)
  have "?new (bd_brokerName bd) = Some (bd_brokerAddrs bd)" if "bd \<in> set (tr_brokerDatas route)" for bd
    using assms(2) that by (intro map_of_is_SomeI) (auto simp: comp_def)
  moreover have "?new b = None" if "b \<notin> bd_brokerName ` set (tr_brokerDatas route)" for b
    using that by (force simp: map_of_eq_None_iff)
  ultimately show ?thesis by (simp add: addr map_add_def)
qed

lemma installed_producers:
  assumes "install_route topic route f = Inr f'" "topicRouteData2TopicPublishInfo topic route = Inr info"
  shows "(\<forall>g. mget (f_producerTable f') g = None \<longleftrightarrow> mget (f_producerTable f) g = None) \<and>
    (\<forall>g p'. mget (f_producerTable f') g = Some p' \<longrightarrow>
      (\<exists>p i. mget (f_producerTable f) g = Some p \<and> mget (pr_topicPublishInfoTable p') topic = Some i \<and>
        pi_messageQueueList i = pi_messageQueueList info \<and>
        (\<forall>t. t \<noteq> topic \<longrightarrow> mget (pr_topicPublishInfoTable p') t = mget (pr_topicPublishInfoTable p) t) \<and>
        (\<forall>old. mget (pr_topicPublishInfoTable p) topic = Some old \<longrightarrow> pi_sendWhichQueue i = pi_sendWhichQueue old)))"
proof -
  have prod: "f_producerTable f' = update_producers topic info (f_producerTable f)"
    using assms by (auto simp: install_route_def Let_def)
  have "mkeys (f_producerTable f') = mkeys (f_producerTable f)" by (simp add: prod update_producers_keys)
  then have "dom (mget (f_producerTable f')) = dom (mget (f_producerTable f))" by (simp flip: set_mkeys)
  moreover have "\<exists>p i. mget (f_producerTable f) g = Some p \<and> mget (pr_topicPublishInfoTable p') topic = Some i \<and>
      pi_messageQueueList i = pi_messageQueueList info \<and>
      (\<forall>t. t \<noteq> topic \<longrightarrow> mget (pr_topicPublishInfoTable p') t = mget (pr_topicPublishInfoTable p) t) \<and>
      (\<forall>old. mget (pr_topicPublishInfoTable p) topic = Some old \<longrightarrow> pi_sendWhichQueue i = pi_sendWhichQueue old)"
    if "mget (f_producerTable f') g = Some p'" for g p'
    using update_producers_get [OF that [unfolded prod]] by blast
  ultimately show ?thesis by blast
qed

text \<open>The queues of the topic reach the push consumers that subscribe it and do not know any yet.\<close>

definition told_queues :: "string \<Rightarrow> MessageQueue list \<Rightarrow> ConsumerInner \<Rightarrow> ConsumerInner \<Rightarrow> bool" where
  "told_queues topic queues c c' \<longleftrightarrow>
     (if ci_push c \<and> mget (ci_subscriptionInner c) topic \<noteq> None \<and> mget (ci_topicSubscribeInfoTable c) topic = None
      then (\<exists>table. c' = c\<lparr>ci_topicSubscribeInfoTable := table\<rparr> \<and>
             mget table = (mget (ci_topicSubscribeInfoTable c))(topic \<mapsto> queues))
      else c' = c)"

lemma installed_consumers:
  assumes "install_route topic route f = Inr f'"
  shows "(\<forall>g. mget (f_consumerTable f') g = None \<longleftrightarrow> mget (f_consumerTable f) g = None) \<and>
    (\<forall>g c'. mget (f_consumerTable f') g = Some c' \<longrightarrow>
      (\<exists>c. mget (f_consumerTable f) g = Some c \<and> told_queues topic (topicRouteData2TopicSubscribeInfo topic route) c c'))"
proof -
  let ?u = "updateTopicSubscribeInfo topic (topicRouteData2TopicSubscribeInfo topic route)"
  have look: "mget (f_consumerTable f') g = map_option ?u (mget (f_consumerTable f) g)" for g
    using assms by (auto simp: install_route_def Let_def mget_map_values split: sum.splits)
  have "told_queues topic (topicRouteData2TopicSubscribeInfo topic route) c (?u c)" for c
    by (auto simp: told_queues_def updateTopicSubscribeInfo_def mget_mput split: option.splits)
  then show ?thesis by (auto simp: look)
qed

text \<open>
  Property C21. The answer of the name server changes the tables exactly when the factory does not
  already know that route for the topic (no route stored, or one that differs in more than the
  order of the brokers); otherwise the factory stays as it was. A new route is stored for the
  topic and no other topic's route changes; every broker it names has the addresses it gives, and
  brokers it does not name keep theirs; every producer publishes the queues of the route, with
  its own queue counter and other topics as before; a push consumer that subscribes the topic
  and has no queues for it yet gets those of the route, and every other consumer (also one
  that has queues of an earlier route) stays as it is. The same answer again changes nothing.
  The configuration of ordered topics is assumed to be well formed.
\<close>

theorem route_update_installs:
  assumes "factory_ok f" "distinct (map bd_brokerName (tr_brokerDatas route))"
    and "topicRouteData2TopicPublishInfo topic route = Inr info"
  shows "\<exists>f' changed. updateTopicRouteInfoFromNameServer True (Inr (Some route)) topic f = Inr (f', changed) \<and>
    (changed \<longleftrightarrow> \<not> knows_route topic route f) \<and>
    (\<not> changed \<longrightarrow> f' = f) \<and>
    (changed \<longrightarrow>
      factory_ok f' \<and> mget (f_topicRouteTable f') = (mget (f_topicRouteTable f))(topic \<mapsto> route) \<and>
      (\<forall>bd \<in> set (tr_brokerDatas route). mget (f_brokerAddrTable f') (bd_brokerName bd) = Some (bd_brokerAddrs bd)) \<and>
      (\<forall>b. b \<notin> bd_brokerName ` set (tr_brokerDatas route) \<longrightarrow> mget (f_brokerAddrTable f') b = mget (f_brokerAddrTable f) b) \<and>
      (\<forall>g. mget (f_producerTable f') g = None \<longleftrightarrow> mget (f_producerTable f) g = None) \<and>
      (\<forall>g p'. mget (f_producerTable f') g = Some p' \<longrightarrow>
        (\<exists>p i. mget (f_producerTable f) g = Some p \<and> mget (pr_topicPublishInfoTable p') topic = Some i \<and>
          pi_messageQueueList i = pi_messageQueueList info \<and>
          (\<forall>t. t \<noteq> topic \<longrightarrow> mget (pr_topicPublishInfoTable p') t = mget (pr_topicPublishInfoTable p) t) \<and>
          (\<forall>old. mget (pr_topicPublishInfoTable p) topic = Some old \<longrightarrow> pi_sendWhichQueue i = pi_sendWhichQueue old))) \<and>
      (\<forall>g. mget (f_consumerTable f') g = None \<longleftrightarrow> mget (f_consumerTable f) g = None) \<and>
      (\<forall>g c'. mget (f_consumerTable f') g = Some c' \<longrightarrow>
        (\<exists>c. mget (f_consumerTable f) g = Some c \<and> told_queues topic (topicRouteData2TopicSubscribeInfo topic route) c c')) \<and>
      updateTopicRouteInfoFromNameServer True (Inr (Some route)) topic f' = Inr (f', False))"
proof (cases "knows_route topic route f")
  case True
  then show ?thesis by (intro exI [of _ f] exI [of _ False]) (simp add: update_by_knowledge)
next
  case False
  from assms(3) obtain f' where ins: "install_route topic route f = Inr f'" by (simp add: install_route_def Let_def)
  then have rt: "mget (f_topicRouteTable f') = (mget (f_topicRouteTable f))(topic \<mapsto> route)"
    using assms(3) by (auto simp: install_route_def Let_def mget_mput)
  then have "knows_route topic route f'" by (simp add: knows_route_def same_route_def)
  then have "updateTopicRouteInfoFromNameServer True (Inr (Some route)) topic f' = Inr (f', False)"
    by (simp add: update_by_knowledge)
  with False show ?thesis
    using rt install_route_ok [OF assms(1) ins] installed_brokers [OF assms(1,2) ins]
      installed_producers [OF ins assms(3)] installed_consumers [OF ins]
    by (intro exI [of _ f'] exI [of _ True]) (simp add: update_by_knowledge ins)
qed

definition sample_factory :: ClientFactory where
  "sample_factory = \<lparr>f_topicRouteTable = [], f_brokerAddrTable = [(''a'', [(0, ''old:1'')]), (''z'', [(0, ''h9:1'')])],
     f_producerTable = [(''pg'', \<lparr>pr_topicPublishInfoTable = []\<rparr>)],
     f_consumerTable = [(''cg'', \<lparr>ci_push = True, ci_groupName = ''cg'', ci_messageModel = CLUSTERING,
        ci_consumeFromWhere = CONSUME_FROM_LAST_OFFSET, ci_subscriptionInner = [(''T'', SubscriptionData_new 0 ''T'' ''*'')],
        ci_topicSubscribeInfoTable = [(''T'', [MessageQueue ''T'' ''a'' 0])]\<rparr>)],
     f_adminExtTable = [], f_serviceState = RUNNING, f_clientId = ''id''\<rparr>"

lemma sample_factory_ok: "factory_ok sample_factory"
  by (simp add: factory_ok_def sample_factory_def)

theorem route_update_installs_witness:
  "\<not> knows_route ''T'' sample_route sample_factory \<and>
   (\<exists>f'. updateTopicRouteInfoFromNameServer True (Inr (Some sample_route)) ''T'' sample_factory = Inr (f', True) \<and>
     mget (f_brokerAddrTable f') ''a'' = Some [(0, ''h1:1''), (1, ''h2:1'')] \<and>
     mget (f_brokerAddrTable f') ''z'' = Some [(0, ''h9:1'')] \<and>
     updateTopicRouteInfoFromNameServer True (Inr (Some sample_route)) ''T'' f' = Inr (f', False))"
proof -
  have new: "\<not> knows_route ''T'' sample_route sample_factory" by (simp add: knows_route_def sample_factory_def)
  have d: "distinct (map bd_brokerName (tr_brokerDatas sample_route))" by (simp add: sample_route_def)
  obtain info where info: "topicRouteData2TopicPublishInfo ''T'' sample_route = Inr info"
    by (simp add: topicRouteData2TopicPublishInfo_def sample_route_def)
  from route_update_installs [OF sample_factory_ok d info] new
  obtain f' where "updateTopicRouteInfoFromNameServer True (Inr (Some sample_route)) ''T'' sample_factory = Inr (f', True)"
    "\<forall>bd \<in> set (tr_brokerDatas sample_route). mget (f_brokerAddrTable f') (bd_brokerName bd) = Some (bd_brokerAddrs bd)"
    "\<forall>b. b \<notin> bd_brokerName ` set (tr_brokerDatas sample_route) \<longrightarrow>
       mget (f_brokerAddrTable f') b = mget (f_brokerAddrTable sample_factory) b"
    "updateTopicRouteInfoFromNameServer True (Inr (Some sample_route)) ''T'' f' = Inr (f', False)" by auto
  with new show ?thesis by (intro conjI exI [of _ f']) (auto simp: sample_route_def sample_factory_def)
qed

text \<open>
  A push consumer learns the queues of a topic once: the first route installed
  after its subscription fills its table, and a later route with other queues leaves the
  entry as it is, so the consumer never sees queues that were added or removed.
\<close>

theorem subscribed_queues_fixed:
  assumes "install_route topic route f = Inr f'" "mget (f_consumerTable f) grp = Some c" "ci_push c"
    "mget (ci_subscriptionInner c) topic \<noteq> None"
  shows "\<exists>c'. mget (f_consumerTable f') grp = Some c' \<and>
    mget (ci_topicSubscribeInfoTable c') topic =
      (case mget (ci_topicSubscribeInfoTable c) topic of
         None \<Rightarrow> Some (topicRouteData2TopicSubscribeInfo topic route)
       | Some queues \<Rightarrow> Some queues)"
proof -
  have "f_consumerTable f' = map (\<lambda>(g, c). (g, updateTopicSubscribeInfo topic
      (topicRouteData2TopicSubscribeInfo topic route) c)) (f_consumerTable f)"
    using assms(1) by (auto simp: install_route_def Let_def split: sum.splits)
  then have "mget (f_consumerTable f') grp =
      Some (updateTopicSubscribeInfo topic (topicRouteData2TopicSubscribeInfo topic route) c)"
    using assms(2) by (simp add: mget_map_values)
  then show ?thesis
    using assms(3,4) by (auto simp: updateTopicSubscribeInfo_def mget_mput split: option.splits)
qed

theorem subscribed_queues_fixed_witness:
  "\<exists>f' c'. install_route ''T'' sample_route sample_factory = Inr f' \<and>
     mget (f_consumerTable f') ''cg'' = Some c' \<and>
     mget (ci_topicSubscribeInfoTable c') ''T'' = Some [MessageQueue ''T'' ''a'' 0] \<and>
     topicRouteData2TopicSubscribeInfo ''T'' sample_route = [MessageQueue ''T'' ''a'' 0, MessageQueue ''T'' ''b'' 0]"
proof -
  obtain f' where f': "install_route ''T'' sample_route sample_factory = Inr f'"
    by (simp add: install_route_def Let_def topicRouteData2TopicPublishInfo_def sample_route_def)
  have r: "topicRouteData2TopicSubscribeInfo ''T'' sample_route = [MessageQueue ''T'' ''a'' 0, MessageQueue ''T'' ''b'' 0]"
    by code_simp
  from subscribed_queues_fixed [OF f', of "''cg''"] show ?thesis
    using f' r by (auto simp: sample_factory_def)
qed

section \<open>Forgetting brokers\<close>

lemma fold_put_some:
  assumes "mok acc"
  shows "mok (fold (\<lambda>(k, v) m. if P v then mput k (g v) m else m) xs acc)"
  using assms by (induction xs arbitrary: acc) (auto simp: mok_mput)

lemma fold_put_get:
  assumes "distinct (map fst xs)"
  shows "mget (fold (\<lambda>(k, v) m. if P v then mput k (g v) m else m) xs acc) k =
    (case mget xs k of Some v \<Rightarrow> (if P v then Some (g v) else mget acc k) | None \<Rightarrow> mget acc k)"
  using assms
proof (induction xs arbitrary: acc)
  case (Cons e xs)
  obtain k' v where e: "e = (k', v)" by (cases e)
  have "mget xs k' = None" using Cons.prems by (simp add: e map_of_eq_None_iff)
  then show ?case using Cons by (auto simp: e mget_mput split: option.splits)
qed simp

lemma contains_refl: "contains a a"
  by (simp add: contains_def find_from_def)

lemma clean_mok: "mok (f_brokerAddrTable (cleanOfflineBroker f))"
  by (simp add: cleanOfflineBroker_def Let_def fold_put_some)

lemma clean_get:
  assumes "mok (f_brokerAddrTable f)"
  shows "mget (f_brokerAddrTable (cleanOfflineBroker f)) b =
    (case mget (f_brokerAddrTable f) b of
       None \<Rightarrow> None
     | Some addrs \<Rightarrow> let kept = filter (\<lambda>(k, a). isBrokerAddrExistInTopicRouteTable a f) addrs
                     in if kept = [] then None else Some kept)"
  using fold_put_get [of "f_brokerAddrTable f" "\<lambda>addrs. filter (\<lambda>(k, a). isBrokerAddrExistInTopicRouteTable a f) addrs \<noteq> []"
      "\<lambda>addrs. filter (\<lambda>(k, a). isBrokerAddrExistInTopicRouteTable a f) addrs" "[]" b] mok_distinct [OF assms]
  by (auto simp: cleanOfflineBroker_def Let_def mkeys_def split: option.splits)

lemma exist_subst: "isBrokerAddrExistInTopicRouteTable a (f\<lparr>f_brokerAddrTable := t\<rparr>) = isBrokerAddrExistInTopicRouteTable a f"
  by (simp add: isBrokerAddrExistInTopicRouteTable_def)

text \<open>
  Forgetting offline brokers: an address some route lists is kept under its broker,
  what is kept was there before and is mentioned by a route, no broker is left without an
  address, and doing it twice is doing it once.
\<close>

theorem clean_offline_brokers:
  assumes "factory_ok f"
  shows "factory_ok (cleanOfflineBroker f) \<and>
    (\<forall>b addrs k a t r bd k'. mget (f_brokerAddrTable f) b = Some addrs \<longrightarrow> (k, a) \<in> set addrs \<longrightarrow>
       mget (f_topicRouteTable f) t = Some r \<longrightarrow> bd \<in> set (tr_brokerDatas r) \<longrightarrow> (k', a) \<in> set (bd_brokerAddrs bd) \<longrightarrow>
       (\<exists>kept. mget (f_brokerAddrTable (cleanOfflineBroker f)) b = Some kept \<and> (k, a) \<in> set kept)) \<and>
    (\<forall>b kept. mget (f_brokerAddrTable (cleanOfflineBroker f)) b = Some kept \<longrightarrow>
       kept \<noteq> [] \<and> (\<exists>addrs. mget (f_brokerAddrTable f) b = Some addrs \<and> set kept \<subseteq> set addrs) \<and>
       (\<forall>(k, a) \<in> set kept. isBrokerAddrExistInTopicRouteTable a f)) \<and>
    cleanOfflineBroker (cleanOfflineBroker f) = cleanOfflineBroker f"
proof -
  let ?g = "cleanOfflineBroker f" and ?P = "\<lambda>(k :: int, a). isBrokerAddrExistInTopicRouteTable a f"
  have okb: "mok (f_brokerAddrTable f)" using assms by (simp add: factory_ok_def)
  have g: "?g = f\<lparr>f_brokerAddrTable := f_brokerAddrTable ?g\<rparr>" by (simp add: cleanOfflineBroker_def Let_def)
  have ex: "isBrokerAddrExistInTopicRouteTable a ?g = isBrokerAddrExistInTopicRouteTable a f" for a
    by (subst g) (rule exist_subst)
  have okg: "mok (f_brokerAddrTable ?g)" by (rule clean_mok)
  have ok: "factory_ok ?g" using assms okg by (subst g) (simp add: factory_ok_def)
  have listed: "isBrokerAddrExistInTopicRouteTable a f"
    if "mget (f_topicRouteTable f) t = Some r" "bd \<in> set (tr_brokerDatas r)" "(k', a) \<in> set (bd_brokerAddrs bd)" for a t r bd k'
    unfolding isBrokerAddrExistInTopicRouteTable_def list_ex_iff
    using map_of_SomeD [OF that(1)] that(2,3) contains_refl [of a] by force
  have kept: "\<exists>kept. mget (f_brokerAddrTable ?g) b = Some kept \<and> (k, a) \<in> set kept"
    if "mget (f_brokerAddrTable f) b = Some addrs" "(k, a) \<in> set addrs" "isBrokerAddrExistInTopicRouteTable a f" for b addrs k a
    using that by (auto simp: clean_get [OF okb] Let_def filter_empty_conv)
  have was: "kept \<noteq> [] \<and> (\<exists>addrs. mget (f_brokerAddrTable f) b = Some addrs \<and> kept = filter ?P addrs)"
    if "mget (f_brokerAddrTable ?g) b = Some kept" for b kept
    using that by (auto simp: clean_get [OF okb] Let_def split: option.splits if_splits)
  have twice: "mget (f_brokerAddrTable (cleanOfflineBroker ?g)) b = mget (f_brokerAddrTable ?g) b" for b
    using was [of b] by (auto simp: clean_get [OF okg] ex Let_def split: option.splits)
  have "f_brokerAddrTable (cleanOfflineBroker ?g) = f_brokerAddrTable ?g"
    by (rule stdmap_ext) (simp_all add: clean_mok twice fun_eq_iff)
  then have idem: "cleanOfflineBroker ?g = ?g" by (simp add: cleanOfflineBroker_def Let_def)
  have k: "kept \<noteq> [] \<and> (\<exists>addrs. mget (f_brokerAddrTable f) b = Some addrs \<and> set kept \<subseteq> set addrs) \<and>
      (\<forall>(k, a) \<in> set kept. isBrokerAddrExistInTopicRouteTable a f)"
    if "mget (f_brokerAddrTable ?g) b = Some kept" for b kept
    using was [OF that] by auto
  show ?thesis using ok idem k kept listed by blast
qed

definition clean_sample :: ClientFactory where
  "clean_sample = sample_factory\<lparr>f_topicRouteTable := [(''T'', sample_route)],
     f_brokerAddrTable := [(''a'', [(0, ''h1:1''), (5, ''gone:1'')]), (''z'', [(0, ''h9:1'')])]\<rparr>"

theorem clean_offline_brokers_witness:
  "f_brokerAddrTable (cleanOfflineBroker clean_sample) = [(''a'', [(0, ''h1:1'')])] \<and>
   cleanOfflineBroker (cleanOfflineBroker clean_sample) = cleanOfflineBroker clean_sample"
proof -
  have "factory_ok clean_sample" using sample_factory_ok by (simp add: factory_ok_def clean_sample_def)
  from clean_offline_brokers [OF this]
  have "cleanOfflineBroker (cleanOfflineBroker clean_sample) = cleanOfflineBroker clean_sample" by blast
  moreover have "f_brokerAddrTable (cleanOfflineBroker clean_sample) = [(''a'', [(0, ''h1:1'')])]" by code_simp
  ultimately show ?thesis by simp
qed

section \<open>The contract of registration\<close>

text \<open>
  Producers, consumers and administrators register under a group by the same contract: a group
  is taken once, a refused registration changes nothing, and unregistering undoes exactly the
  registration of that group. \<open>look\<close> tells which groups are taken.
\<close>

locale registry =
  fixes reg :: "string \<Rightarrow> 'v \<Rightarrow> 's \<Rightarrow> 's \<times> bool"
    and unreg :: "string \<Rightarrow> 's \<Rightarrow> 's"
    and look :: "'s \<Rightarrow> string \<Rightarrow> bool"
    and ok :: "'s \<Rightarrow> bool"
  assumes reg_nameless: "reg [] v s = (s, False)"
    and reg_taken: "look s g \<Longrightarrow> reg g v s = (s, False)"
    and reg_free: "ok s \<Longrightarrow> g \<noteq> [] \<Longrightarrow> \<not> look s g \<Longrightarrow>
      snd (reg g v s) \<and> ok (fst (reg g v s)) \<and> look (fst (reg g v s)) = (look s)(g := True) \<and> unreg g (fst (reg g v s)) = s"
    and look_unreg: "ok s \<Longrightarrow> look (unreg g s) = (look s)(g := False)"
    and ok_unreg: "ok s \<Longrightarrow> ok (unreg g s)"
begin

lemma reg_iff: "ok s \<Longrightarrow> snd (reg g v s) \<longleftrightarrow> g \<noteq> [] \<and> \<not> look s g"
  using reg_nameless reg_taken reg_free by (metis snd_conv)

lemma reg_refused: "ok s \<Longrightarrow> \<not> snd (reg g v s) \<Longrightarrow> fst (reg g v s) = s"
  using reg_nameless reg_taken reg_iff by (metis fst_conv)

lemma reg_again: "ok s \<Longrightarrow> snd (reg g v s) \<Longrightarrow> reg g w (fst (reg g v s)) = (fst (reg g v s), False)"
  using reg_free reg_iff reg_taken by (metis fun_upd_same)

lemma reg_after_unreg: "ok s \<Longrightarrow> g \<noteq> [] \<Longrightarrow> snd (reg g v (unreg g s))"
  by (simp add: reg_iff ok_unreg look_unreg)

lemma reg_cases:
  assumes "ok s"
  shows "case reg g v s of (s', b) \<Rightarrow> if b then unreg g s' = s \<and> reg g w s' = (s', False) else s' = s"
proof (cases "snd (reg g v s)")
  case True
  then have "g \<noteq> []" "\<not> look s g" by (simp_all add: reg_iff [OF assms])
  with reg_free [OF assms, of g v] reg_again [OF assms True, of w] True show ?thesis by (cases "reg g v s") simp
next
  case False
  with reg_refused [OF assms False] show ?thesis by (cases "reg g v s") simp
qed

text \<open>Groups registered one after the other and unregistered in the opposite order leave no trace.\<close>

lemma reg_all_unreg_all:
  assumes "ok s" "distinct gs" "[] \<notin> set gs" "\<forall>g \<in> set gs. \<not> look s g"
  shows "fold unreg (rev gs) (fold (\<lambda>g s. fst (reg g v s)) gs s) = s"
  using assms
proof (induction gs arbitrary: s)
  case (Cons g gs)
  then have f: "ok (fst (reg g v s))" "look (fst (reg g v s)) = (look s)(g := True)" "unreg g (fst (reg g v s)) = s"
    using reg_free [of s g v] by auto
  from Cons.prems have "\<forall>h \<in> set gs. \<not> look (fst (reg g v s)) h" unfolding f(2) by auto
  with Cons.IH [OF f(1)] Cons.prems have "fold unreg (rev gs) (fold (\<lambda>g s. fst (reg g v s)) gs (fst (reg g v s))) = fst (reg g v s)"
    by simp
  with f(3) show ?case by simp
qed simp

end

lemma mdel_mput_cancel:
  assumes "mget m k = None" "mok m"
  shows "mdel k (mput k v m) = m"
proof (rule stdmap_ext)
  have "mok (mput k v m)" using assms(2) by (rule mok_mput)
  then show "mget (mdel k (mput k v m)) = mget m" using assms(1) by (auto simp: mget_mdel mget_mput fun_eq_iff)
qed (use assms in \<open>simp_all add: mok_mput mok_mdel\<close>)

lemma unit_option_absent: "x \<noteq> Some () \<longleftrightarrow> x = None"
  by (cases x) simp_all

interpretation producers: registry "\<lambda>g p. registerProducer g (Some p)" unregisterProducer "\<lambda>f g. mget (f_producerTable f) g \<noteq> None" factory_ok
  by unfold_locales
    (auto simp: registerProducer_def unregisterProducer_def factory_ok_def mget_mput mok_mput mdel_mput_cancel mget_mdel mok_mdel fun_eq_iff)

interpretation consumers: registry "\<lambda>g c. registerConsumer g (Some c)" unregisterConsumer "\<lambda>f g. mget (f_consumerTable f) g \<noteq> None" factory_ok
  by unfold_locales
    (auto simp: registerConsumer_def unregisterConsumer_def factory_ok_def mget_mput mok_mput mdel_mput_cancel mget_mdel mok_mdel fun_eq_iff)

interpretation admins: registry "\<lambda>g (_ :: unit). registerAdminExt g True" unregisterAdminExt "\<lambda>f g. mget (f_adminExtTable f) g \<noteq> None" factory_ok
  by unfold_locales
    (auto simp: unit_option_absent registerAdminExt_def unregisterAdminExt_def factory_ok_def mget_mput mok_mput mdel_mput_cancel mget_mdel mok_mdel fun_eq_iff)

text \<open>
  A group is registered once: registration of a producer, consumer or
  administrator succeeds exactly for a non-empty group that is not registered, a refused
  attempt changes nothing, a second one is refused, unregistering gives the previous factory
  back, and so does unregistering any number of groups in the opposite order.
\<close>

theorem registration_exclusive:
  assumes "factory_ok f" "distinct gs" "[] \<notin> set gs" "\<forall>g \<in> set gs. mget (f_producerTable f) g = None"
  shows "(snd (registerProducer grp (Some p) f) \<longleftrightarrow> grp \<noteq> [] \<and> mget (f_producerTable f) grp = None) \<and>
    (snd (registerConsumer grp (Some c) f) \<longleftrightarrow> grp \<noteq> [] \<and> mget (f_consumerTable f) grp = None) \<and>
    (snd (registerAdminExt grp True f) \<longleftrightarrow> grp \<noteq> [] \<and> mget (f_adminExtTable f) grp = None) \<and>
    (case registerProducer grp (Some p) f of (f', done) \<Rightarrow>
       if done then unregisterProducer grp f' = f \<and> registerProducer grp (Some p') f' = (f', False) else f' = f) \<and>
    (case registerConsumer grp (Some c) f of (f', done) \<Rightarrow>
       if done then unregisterConsumer grp f' = f \<and> registerConsumer grp (Some c') f' = (f', False) else f' = f) \<and>
    (case registerAdminExt grp True f of (f', done) \<Rightarrow>
       if done then unregisterAdminExt grp f' = f \<and> registerAdminExt grp True f' = (f', False) else f' = f) \<and>
    fold unregisterProducer (rev gs) (fold (\<lambda>g f. fst (registerProducer g (Some p) f)) gs f) = f \<and>
    registerProducer grp None f = (f, False) \<and> registerConsumer grp None f = (f, False) \<and> registerAdminExt grp False f = (f, False)"
proof (intro conjI)
  show "fold unregisterProducer (rev gs) (fold (\<lambda>g f. fst (registerProducer g (Some p) f)) gs f) = f"
    by (rule producers.reg_all_unreg_all [OF assms(1-3)]) (use assms(4) in simp)
qed (simp_all add: unit_option_absent producers.reg_cases [OF assms(1)] consumers.reg_cases [OF assms(1)] admins.reg_cases [OF assms(1)] producers.reg_iff [OF assms(1)] consumers.reg_iff [OF assms(1)] admins.reg_iff [OF assms(1)]
    registerProducer_def [of grp None] registerConsumer_def [of grp None] registerAdminExt_def [of grp False])

theorem registration_exclusive_witness:
  "snd (registerProducer ''new'' (Some \<lparr>pr_topicPublishInfoTable = []\<rparr>) sample_factory) \<and>
   \<not> snd (registerProducer ''pg'' (Some \<lparr>pr_topicPublishInfoTable = []\<rparr>) sample_factory) \<and>
   fold unregisterProducer (rev [''new'', ''newer''])
     (fold (\<lambda>g f. fst (registerProducer g (Some \<lparr>pr_topicPublishInfoTable = []\<rparr>) f)) [''new'', ''newer''] sample_factory) = sample_factory"
proof -
  let ?p = "\<lparr>pr_topicPublishInfoTable = []\<rparr>" and ?gs = "[''new'', ''newer'']"
  have g: "mget (f_producerTable sample_factory) ''new'' = None" "mget (f_producerTable sample_factory) ''pg'' \<noteq> None"
    "distinct ?gs" "[] \<notin> set ?gs" "\<forall>g \<in> set ?gs. mget (f_producerTable sample_factory) g = None"
    by (simp_all add: sample_factory_def)
  note r = registration_exclusive [OF sample_factory_ok g(3-5)]
  have "fold unregisterProducer (rev ?gs) (fold (\<lambda>g f. fst (registerProducer g (Some ?p) f)) ?gs sample_factory) = sample_factory"
    by (rule r [THEN conjunct2, THEN conjunct2, THEN conjunct2, THEN conjunct2, THEN conjunct2, THEN conjunct2, THEN conjunct1])
  moreover have "snd (registerProducer ''new'' (Some ?p) sample_factory)" using r [of "''new''" ?p, THEN conjunct1] g(1) by blast
  moreover have "\<not> snd (registerProducer ''pg'' (Some ?p) sample_factory)" using r [of "''pg''" ?p, THEN conjunct1] g(2) by blast
  ultimately show ?thesis by (intro conjI)
qed

end
