(* ===== verification/Decoder.thy ===== *)
theory Decoder
  imports Message
begin

text \<open>
  \<^verbatim>\<open>src/src/message/MessageDecoder.cpp\<close>: the message id codec, the parser of the stored message
  format, its loop over a batch, and the property string codec. The decoder reads raw
  memory without checking \<^verbatim>\<open>len\<close>: a read outside the buffer is \<^const>\<open>Undefined\<close>. The byte order
  \<open>e\<close> of the host and the decompressor are parameters.
\<close>

section \<open>Property strings\<close>

definition NAME_VALUE_SEPARATOR :: char where "NAME_VALUE_SEPARATOR = CHR 0x01"
definition PROPERTY_SEPARATOR :: char where "PROPERTY_SEPARATOR = CHR 0x02"

definition messageProperties2String :: "(string, string) stdmap \<Rightarrow> string" where
  "messageProperties2String properties =
     concat (map (\<lambda>(k, v). k @ [NAME_VALUE_SEPARATOR] @ v @ [PROPERTY_SEPARATOR]) properties)"

definition put_property_piece :: "string \<Rightarrow> (string, string) stdmap \<Rightarrow> (string, string) stdmap" where
  "put_property_piece piece properties =
     (let outValue = Split_char [] piece NAME_VALUE_SEPARATOR in
      if length outValue = 2 then mput (outValue ! 0) (outValue ! 1) properties else properties)"

definition string2messageProperties ::
  "(string, string) stdmap \<Rightarrow> string \<Rightarrow> (string, string) stdmap" where
  "string2messageProperties properties propertiesString =
     fold put_property_piece (Split_char [] propertiesString PROPERTY_SEPARATOR) properties"

section \<open>Message ids\<close>

definition MSG_ID_LENGTH :: nat where "MSG_ID_LENGTH = 8 + 8"

record MessageId =
  id_address :: sockaddr
  id_offset :: int

text \<open>\<^verbatim>\<open>sprintf("%02X")\<close> of a byte.\<close>

definition hex_byte :: "char \<Rightarrow> string" where
  "hex_byte c = [hex_digit (of_char c div 16), hex_digit (of_char c mod 16)]"

definition createMessageId :: "endian \<Rightarrow> sockaddr \<Rightarrow> int \<Rightarrow> string" where
  "createMessageId e addr offset =
     (let port0 = ntohs e (sin_port addr);
          port = i32 (htonl e port0);
          ip = i32 (s_addr addr);
          off = i64 (h2nll e offset);
          buf = store e 4 ip @ store e 4 port @ store e 8 off
      in concat (map hex_byte (take MSG_ID_LENGTH buf)))"

definition decodeMessageId :: "endian \<Rightarrow> string \<Rightarrow> MessageId result" where
  "decodeMessageId e msgId =
     (if length msgId < 8 \<or> length msgId < 16 then Inl StdException
      else
        let ipstr = substr msgId 0 8;
            portstr = substr msgId 8 8;
            offsetstr = drop 16 msgId;
            ipint = i32 (strtoull16 (c_str ipstr));
            portint0 = i32 (strtoull16 (c_str portstr));
            offset0 = i64 (hexstr2ull offsetstr);
            offset = i64 (n2hll e offset0);
            portint = i32 (ntohl e portint0);
            port = i16 portint
        in Inr \<lparr>id_address = \<lparr>sin_family = AF_INET, sin_port = htons e port, s_addr = u32 ipint\<rparr>,
               id_offset = offset\<rparr>)"

section \<open>The stored message format\<close>

text \<open>\<open>n\<close> bytes at an absolute position of the buffer; the caller has checked the range.\<close>

definition field :: "string \<Rightarrow> int \<Rightarrow> nat \<Rightarrow> string" where
  "field buf a n = take n (drop (nat a) buf)"

definition in_range :: "string \<Rightarrow> int \<Rightarrow> int \<Rightarrow> bool" where
  "in_range buf a n \<longleftrightarrow> 0 \<le> a \<and> 0 \<le> n \<and> a + n \<le> int (length buf)"

definition net32 :: "endian \<Rightarrow> string \<Rightarrow> int" where
  "net32 e bs = i32 (ntohl e (load e bs))"

definition net64 :: "endian \<Rightarrow> string \<Rightarrow> int" where
  "net64 e bs = i64 (n2hll e (load e bs))"

definition net16 :: "endian \<Rightarrow> string \<Rightarrow> int" where
  "net16 e bs = i16 (ntohs e (load e bs))"

text \<open>The address part of a host field: 4 bytes of address as they are, 4 bytes of port.\<close>

definition net_host :: "endian \<Rightarrow> string \<Rightarrow> sockaddr" where
  "net_host e bs =
     (let port = i32 (htonl e (load e (drop 4 bs))) in
      \<lparr>sin_family = AF_INET, sin_port = htons e port, s_addr = load e (take 4 bs)\<rparr>)"

text \<open>The fixed part, 22 words.\<close>

definition decode_fixed :: "endian \<Rightarrow> string \<Rightarrow> int \<Rightarrow> MessageExt" where
  "decode_fixed e buf pos =
     (let fld = (\<lambda>w n. field buf (pos + 4 * w) n) in
      MessageExt_new\<lparr>
        m_storeSize := net32 e (fld 0 4),
        m_bodyCRC := net32 e (fld 2 4),
        m_queueId := net32 e (fld 3 4),
        m_flag := net32 e (fld 4 4),
        m_queueOffset := net64 e (fld 5 8),
        m_commitLogOffset := net64 e (fld 7 8),
        m_sysFlag := net32 e (fld 9 4),
        m_bornTimestamp := net64 e (fld 10 8),
        m_bornHost := Some (net_host e (fld 12 8)),
        m_storeTimestamp := net64 e (fld 14 8),
        m_storeHost := Some (net_host e (fld 16 8)),
        m_reconsumeTimes := i32 (htonl e (load e (fld 18 4))),
        m_preparedTransactionOffset := net64 e (fld 19 8)\<rparr>)"

definition decode_body ::
  "(string \<Rightarrow> string option) \<Rightarrow> string \<Rightarrow> int \<Rightarrow> int \<Rightarrow> bool \<Rightarrow> MessageExt \<Rightarrow> MessageExt result" where
  "decode_body decompress buf pos bodyLen readBody m =
     (if bodyLen > 0 \<and> readBody then
        if \<not> in_range buf (pos + 88) bodyLen then Inl Undefined
        else
          let body = field buf (pos + 88) (nat bodyLen) in
          if m_sysFlag m AND CompressedFlag = CompressedFlag then
            (case decompress body of
               Some out \<Rightarrow> setBody (Some out) (isize out) m
             | None \<Rightarrow> setBody (Some body) bodyLen m)
          else setBody (Some body) bodyLen m
      else Inr m)"

text \<open>
  Topic, properties, the size consumed and the message id. A topic length below -1 makes
  \<^verbatim>\<open>new char[topicLen + 1]\<close> raise, which the decoder catches and turns into \<^verbatim>\<open>NULL\<close>.
\<close>

definition decode_tail ::
  "endian \<Rightarrow> string \<Rightarrow> int \<Rightarrow> int \<Rightarrow> MessageExt \<Rightarrow> (MessageExt \<times> int) option result" where
  "decode_tail e buf pos bodyLen m =
     (let tp = pos + 88 + bodyLen in
      if \<not> in_range buf tp 1 then Inl Undefined
      else
        let topicLen = i8 (of_char (buf ! nat tp)) in
        if topicLen < - 1 then Inr None
        else if topicLen = - 1 \<or> \<not> in_range buf (tp + 1) topicLen then Inl Undefined
        else if \<not> in_range buf (tp + 1 + topicLen) 2 then Inl Undefined
        else
          let topic = c_str (field buf (tp + 1) (nat topicLen));
              propertiesLength = net16 e (field buf (tp + 1 + topicLen) 2);
              m1 = setTopic_msg topic m
          in if propertiesLength > 0 \<and> \<not> in_range buf (tp + 1 + topicLen + 2) propertiesLength
             then Inl Undefined
             else
               let m2 = (if propertiesLength > 0
                         then setProperties (string2messageProperties []
                           (c_str (field buf (tp + 1 + topicLen + 2) (nat propertiesLength)))) m1
                         else m1);
                   offset = i32 (88 + bodyLen + 1 + topicLen + 2 + propertiesLength);
                   msgId = createMessageId e (the (m_storeHost m2)) (m_commitLogOffset m2)
               in Inr (Some (m2\<lparr>m_msgId := msgId\<rparr>, offset)))"

definition decode ::
  "endian \<Rightarrow> (string \<Rightarrow> string option) \<Rightarrow> string \<Rightarrow> int \<Rightarrow> bool \<Rightarrow> (MessageExt \<times> int) option result" where
  "decode e decompress buf pos readBody =
     (if \<not> in_range buf pos 88 then Inl Undefined
      else
        let m = decode_fixed e buf pos;
            bodyLen = i32 (htonl e (load e (field buf (pos + 84) 4)))
        in case decode_body decompress buf pos bodyLen readBody m of
             Inl x \<Rightarrow> Inl x
           | Inr m1 \<Rightarrow> decode_tail e buf pos bodyLen m1)"

text \<open>
  The batch loop. The outer option is the fuel: \<^const>\<open>None\<close> says that the loop has not ended.
  A \<^verbatim>\<open>NULL\<close> message leaves the size it should have set uninitialised.
\<close>

fun decodes_loop ::
  "nat \<Rightarrow> endian \<Rightarrow> (string \<Rightarrow> string option) \<Rightarrow> string \<Rightarrow> int \<Rightarrow> int \<Rightarrow> MessageExt list \<Rightarrow>
   MessageExt list result option" where
  "decodes_loop 0 e decompress buf len offset acc = None"
| "decodes_loop (Suc n) e decompress buf len offset acc =
     (if offset < len then
        (case decode e decompress buf offset True of
           Inl x \<Rightarrow> Some (Inl x)
         | Inr None \<Rightarrow> Some (Inl Undefined)
         | Inr (Some (m, tmp)) \<Rightarrow> decodes_loop n e decompress buf len (i32 (offset + tmp)) (acc @ [m]))
      else Some (Inr acc))"

definition decodes ::
  "nat \<Rightarrow> endian \<Rightarrow> (string \<Rightarrow> string option) \<Rightarrow> string \<Rightarrow> int \<Rightarrow> bool \<Rightarrow> MessageExt list result option" where
  "decodes fuel e decompress pData len readBody = decodes_loop fuel e decompress pData len 0 []"

section \<open>The property codec\<close>

definition entry_ok :: "string \<times> string \<Rightarrow> bool" where
  "entry_ok kv \<longleftrightarrow> (fst kv \<noteq> [] \<or> snd kv \<noteq> []) \<and>
     NAME_VALUE_SEPARATOR \<notin> set (fst kv @ snd kv) \<and> PROPERTY_SEPARATOR \<notin> set (fst kv @ snd kv)"

definition props_ok :: "(string, string) stdmap \<Rightarrow> bool" where
  "props_ok m \<longleftrightarrow> mok m \<and> (\<forall>kv \<in> set m. entry_ok kv)"

lemma separators_differ [simp]:
  "NAME_VALUE_SEPARATOR \<noteq> PROPERTY_SEPARATOR" "PROPERTY_SEPARATOR \<noteq> NAME_VALUE_SEPARATOR"
  by (simp_all add: NAME_VALUE_SEPARATOR_def PROPERTY_SEPARATOR_def)

lemma split_props:
  "\<forall>kv \<in> set m. entry_ok kv \<Longrightarrow>
   split_on PROPERTY_SEPARATOR (messageProperties2String m) =
     map (\<lambda>(k, v). k @ NAME_VALUE_SEPARATOR # v) m @ [[]]"
proof (induction m)
  case (Cons kv m)
  obtain k v where kv: "kv = (k, v)" by (cases kv)
  have "PROPERTY_SEPARATOR \<notin> set (k @ NAME_VALUE_SEPARATOR # v)"
    using Cons.prems kv by (auto simp: entry_ok_def)
  then show ?case
    using Cons split_on_append [of PROPERTY_SEPARATOR "k @ NAME_VALUE_SEPARATOR # v"]
    by (simp add: messageProperties2String_def kv)
qed (simp add: messageProperties2String_def)

lemma put_piece_entry:
  assumes "entry_ok (k, v)"
  shows "put_property_piece (k @ NAME_VALUE_SEPARATOR # v) m = mput k v m"
proof -
  have "\<exists>x \<in> set (k @ NAME_VALUE_SEPARATOR # v). x \<noteq> NAME_VALUE_SEPARATOR"
    using assms by (cases k; cases v) (auto simp: entry_ok_def)
  from Split_char_split_on [OF this, of "[]"] have
    "Split_char [] (k @ NAME_VALUE_SEPARATOR # v) NAME_VALUE_SEPARATOR = [k, v]"
    using assms by (simp add: entry_ok_def split_on_append split_on_notin)
  then show ?thesis by (simp add: put_property_piece_def)
qed

lemma put_piece_empty: "put_property_piece [] m = m"
  by (simp add: put_property_piece_def Split_char_def)

lemma fold_put_entries:
  "\<forall>kv \<in> set m. entry_ok kv \<Longrightarrow>
   fold put_property_piece (map (\<lambda>(k, v). k @ NAME_VALUE_SEPARATOR # v) m) acc =
   fold (\<lambda>kv. mput (fst kv) (snd kv)) m acc"
proof (induction m arbitrary: acc)
  case (Cons kv m)
  then show ?case by (cases kv) (simp add: put_piece_entry)
qed simp

lemma fold_mput_self: "mok m \<Longrightarrow> fold (\<lambda>kv. mput (fst kv) (snd kv)) m [] = m"
proof (rule stdmap_ext)
  assume m: "mok m"
  show "mok (fold (\<lambda>kv. mput (fst kv) (snd kv)) m [])" by (rule stdmap.ok_fold_put) simp
  have "distinct (map fst m)" using mok_distinct [OF m] by (simp add: mkeys_def)
  then show "mget (fold (\<lambda>kv. mput (fst kv) (snd kv)) m []) = mget m"
    using stdmap.get_fold_put [of "[]" fst snd m] map_of_inject_set [of "rev m" m]
    by (simp add: rev_map [symmetric])
qed

lemma string2messageProperties_roundtrip:
  assumes "props_ok m"
  shows "string2messageProperties [] (messageProperties2String m) = m"
proof (cases m)
  case Nil
  then show ?thesis
    by (simp add: string2messageProperties_def messageProperties2String_def Split_char_def put_piece_empty)
next
  case (Cons kv m')
  have ok: "\<forall>kv \<in> set m. entry_ok kv" "mok m" using assms by (simp_all add: props_ok_def)
  have "NAME_VALUE_SEPARATOR \<in> set (messageProperties2String m)"
    by (cases kv) (simp add: Cons messageProperties2String_def)
  then have "\<exists>x \<in> set (messageProperties2String m). x \<noteq> PROPERTY_SEPARATOR" by force
  from Split_char_split_on [OF this, of "[]"] show ?thesis
    using ok by (simp add: string2messageProperties_def split_props fold_put_entries
        put_piece_empty fold_mput_self)
qed

section \<open>Hexadecimal dumps\<close>

lemma hex_val_digit: "n < 16 \<Longrightarrow> hex_val (hex_digit n) = Some n"
  by (auto simp: hex_val_def hex_digit_def Let_def of_char_of)

lemma hex_digit_plain:
  assumes "n < 16"
  shows "\<not> is_space (hex_digit n)" "hex_digit n \<noteq> CHR ''-''" "hex_digit n \<noteq> CHR ''+''"
    "hex_digit n \<noteq> CHR ''x''" "hex_digit n \<noteq> CHR ''X''" "hex_digit n \<noteq> CHR 0x00"
proof -
  have "list_all (\<lambda>n. \<not> is_space (hex_digit n) \<and> hex_digit n \<notin> set ''-+xX'' \<and> hex_digit n \<noteq> CHR 0x00)
    [0 ..< 16]"
    by code_simp
  then show "\<not> is_space (hex_digit n)" "hex_digit n \<noteq> CHR ''-''" "hex_digit n \<noteq> CHR ''+''"
    "hex_digit n \<noteq> CHR ''x''" "hex_digit n \<noteq> CHR ''X''" "hex_digit n \<noteq> CHR 0x00"
    using assms by (auto simp: list_all_iff)
qed

definition hex_dump :: "string \<Rightarrow> string" where
  "hex_dump bs = concat (map hex_byte bs)"

lemma length_hex_dump [simp]: "length (hex_dump bs) = 2 * length bs"
  by (induction bs) (simp_all add: hex_dump_def hex_byte_def)

lemma hex_dump_append: "hex_dump (a @ b) = hex_dump a @ hex_dump b"
  by (simp add: hex_dump_def)

lemma byte_nibbles: "(of_char c :: nat) div 16 < 16" "(of_char c :: nat) mod 16 < 16"
proof -
  have "(of_char c :: nat) < 256" by (metis char_of_mod_256 of_char_of mod_less_divisor zero_less_numeral char_of_char)
  then show "(of_char c :: nat) div 16 < 16" by (simp add: less_mult_imp_div_less)
qed simp

lemma read_hex_dump: "read_hex a (hex_dump bs) = nat (int a * 256 ^ length bs + be_val bs)"
proof (induction bs arbitrary: a)
  case Nil
  then show ?case by (simp add: hex_dump_def be_val_def)
next
  case (Cons c bs)
  have be: "be_val (c # bs) = of_char c * 256 ^ length bs + be_val bs"
    by (simp add: be_val_def le_val_append)
  have "16 * (16 * a + of_char c div 16) + of_char c mod 16 = 256 * a + (of_char c :: nat)"
    by simp
  moreover have "read_hex a (hex_dump (c # bs)) =
      read_hex (16 * (16 * a + of_char c div 16) + of_char c mod 16) (hex_dump bs)"
    using byte_nibbles by (simp add: hex_dump_def hex_byte_def hex_val_digit)
  ultimately show ?case
    using Cons [of "256 * a + of_char c"] by (simp add: be algebra_simps of_nat_of_char)
qed

lemma strtoull16_hex_dump:
  assumes "length bs \<le> 8"
  shows "strtoull16 (hex_dump bs) = be_val bs"
proof (cases bs)
  case Nil
  then show ?thesis by (simp add: strtoull16_def hex_dump_def be_val_def skip_0x_def)
next
  case (Cons c cs)
  let ?h = "hex_digit (of_char c div 16)" and ?l = "hex_digit (of_char c mod 16)"
  have hd: "hex_dump bs = ?h # ?l # hex_dump cs" by (simp add: Cons hex_dump_def hex_byte_def)
  note ph = hex_digit_plain [OF byte_nibbles(1) [of c]] and pl = hex_digit_plain [OF byte_nibbles(2) [of c]]
  have sk: "skip_0x (hex_dump bs) = hex_dump bs"
    using pl by (simp add: hd skip_0x_def split: list.splits)
  have rd: "read_hex 0 (hex_dump bs) = nat (be_val bs)"
    using read_hex_dump [of 0 bs] by simp
  have "(256 :: int) ^ length bs \<le> 256 ^ 8" using assms by (rule power_increasing) simp
  then have "be_val bs < 18446744073709551616" using be_val_range(2) [of bs] by simp
  then have "nat (be_val bs) < 18446744073709551616" by linarith
  then show ?thesis
    using be_val_range(1) [of bs] ph sk rd by (simp add: strtoull16_def hd Let_def)
qed

lemma c_str_hex_dump: "c_str (hex_dump bs) = hex_dump bs"
proof (rule c_str_id)
  show "CHR 0x00 \<notin> set (hex_dump bs)"
    using hex_digit_plain(6) [OF byte_nibbles(1), THEN not_sym]
      hex_digit_plain(6) [OF byte_nibbles(2), THEN not_sym]
    by (simp add: hex_dump_def hex_byte_def)
qed

section \<open>The message id codec\<close>

lemma createMessageId_dump:
  "createMessageId e addr offset =
   hex_dump (store e 4 (s_addr addr) @ be_bytes 4 (ntohs e (sin_port addr)) @ be_bytes 8 offset)"
proof -
  have "store e 4 (i32 v) = store e 4 v" for v
    by (simp add: store_def be_bytes_def split: endian.split)
  moreover have "store e 8 (i64 v) = store e 8 v" for v
    using le_bytes_mod [of 8 v] le_bytes_mod [of 8 "i64 v"] u64_i64 [of v]
    by (simp add: store_def be_bytes_def u64_def split: endian.split)
  ultimately show ?thesis
    by (simp add: createMessageId_def Let_def MSG_ID_LENGTH_def store_htonl store_h2nll hex_dump_def)
qed

definition addr_ok :: "sockaddr \<Rightarrow> bool" where
  "addr_ok a \<longleftrightarrow> sin_family a = AF_INET \<and> 0 \<le> sin_port a \<and> sin_port a < 65536 \<and>
     0 \<le> s_addr a \<and> s_addr a < 4294967296"

lemma decodeMessageId_dump:
  assumes "length ip = 4" "length port = 4" "length off = 8"
  shows "decodeMessageId e (hex_dump (ip @ port @ off)) =
    Inr \<lparr>id_address = \<lparr>sin_family = AF_INET,
           sin_port = htons e (i16 (i32 (ntohl e (i32 (be_val port))))), s_addr = u32 (be_val ip)\<rparr>,
         id_offset = i64 (n2hll e (i64 (be_val off)))\<rparr>"
  using assms
  by (simp add: decodeMessageId_def hex_dump_append substr_def Let_def c_str_hex_dump
      strtoull16_hex_dump hexstr2ull_def)

lemma be_val_wrap: "0 \<le> v \<Longrightarrow> v < 65536 \<Longrightarrow> be_val (be_bytes 4 v) = v"
  by (simp add: be_val_bytes)

lemma ip_port_bytes:
  assumes "addr_ok a"
  shows "u32 (be_val (store BE 4 (s_addr a))) = s_addr a"
    "be_val (be_bytes 4 (ntohs e (sin_port a))) = ntohs e (sin_port a)"
    "0 \<le> ntohs e (sin_port a)" "ntohs e (sin_port a) < 65536"
proof -
  show r: "0 \<le> ntohs e (sin_port a)" "ntohs e (sin_port a) < 65536"
    using be_val_range [of "le_bytes 2 (sin_port a)"]
    by (simp_all add: ntohs_def split: endian.split)
  show "be_val (be_bytes 4 (ntohs e (sin_port a))) = ntohs e (sin_port a)"
    using r by (simp add: be_val_wrap)
  show "u32 (be_val (store BE 4 (s_addr a))) = s_addr a"
    using assms by (simp add: addr_ok_def store_def be_val_bytes u32_id)
qed

text \<open>Byte reversal of a 32-bit and of a 64-bit value, the specification of what goes wrong.\<close>

definition reverse_bytes :: "nat \<Rightarrow> int \<Rightarrow> int" where
  "reverse_bytes n v = be_val (le_bytes n v)"

lemma swapped_port:
  assumes "0 \<le> p" "p < 65536"
  shows "i16 (i32 (ntohl LE (i32 p))) = 0"
proof -
  have z: "p div 256 div 256 = 0" using assms by (simp flip: zdiv_zmult2_eq)
  have "le_bytes 4 (i32 p) = le_bytes 4 p" by simp
  moreover have "le_bytes 4 p = [char_of (p mod 256), char_of (p div 256 mod 256), char_of (0 :: int), char_of (0 :: int)]"
    using assms z by (simp add: le_bytes_numeral)
  ultimately have "ntohl LE (i32 p) = (p div 256 mod 256 + 256 * (p mod 256)) * 65536"
    by (simp add: ntohl_def be_val_def of_char_of)
  moreover have "i16 (y * 65536) = 0" for y by (simp add: i16_def)
  ultimately show ?thesis by (simp only: i16_i32)
qed

lemma n2hll_LE: "n2hll LE v = reverse_bytes 8 v"
proof -
  have "word_of_int v = (word_of_int (le_val (le_bytes 8 v)) :: 64 word)"
    by (simp add: le_val_bytes word_of_int_eq_iff take_bit_eq_mod)
  then show ?thesis
    using swapll_le_val [of "le_bytes 8 v"] be_val_range [of "le_bytes 8 v"]
    by (simp add: n2hll_def reverse_bytes_def uint_word_of_int take_bit_int_eq_self)
qed

lemma be_val_off: "i64 (be_val (be_bytes 8 v)) = i64 v"
  by (simp add: be_val_bytes u64_def [symmetric])

lemma le_bytes_i64: "le_bytes 8 (i64 v) = le_bytes 8 v"
  using le_bytes_mod [of 8 v] le_bytes_mod [of 8 "i64 v"] u64_i64 [of v] by (simp add: u64_def)

lemma message_id_BE:
  assumes "addr_ok a" "i64 off = off"
  shows "decodeMessageId BE (createMessageId BE a off) = Inr \<lparr>id_address = a, id_offset = off\<rparr>"
proof -
  let ?p = "sin_port a"
  have p: "0 \<le> ?p" "?p < 65536" "sin_family a = AF_INET" using assms(1) by (simp_all add: addr_ok_def)
  have "htons BE (i16 (i32 (ntohl BE (i32 (ntohs BE ?p))))) = ?p"
    using p by (simp add: htons_def ntohs_def ntohl_def i32_id u32_id i16_def mod_simps)
  moreover have "i64 (n2hll BE (i64 off)) = off"
    using assms(2) by (simp add: n2hll_def swapll_def uint_word_of_int take_bit_eq_mod u64_def [symmetric])
  ultimately show ?thesis
    using ip_port_bytes [OF assms(1)] p(3) assms(2)
    by (simp add: createMessageId_dump decodeMessageId_dump be_val_off)
qed

lemma message_id_LE:
  assumes "addr_ok a" "i64 off = off"
  shows "decodeMessageId LE (createMessageId LE a off) =
    Inr \<lparr>id_address = \<lparr>sin_family = AF_INET, sin_port = 0, s_addr = reverse_bytes 4 (s_addr a)\<rparr>,
         id_offset = i64 (reverse_bytes 8 off)\<rparr>"
proof -
  note ip = ip_port_bytes(2-4) [OF assms(1), of LE]
  have "htons LE 0 = 0" by (simp add: htons_def ntohs_def numeral_2_eq_2 be_val_def)
  moreover have "u32 (be_val (store LE 4 (s_addr a))) = reverse_bytes 4 (s_addr a)"
    using be_val_range [of "le_bytes 4 (s_addr a)"] by (simp add: store_def reverse_bytes_def u32_id)
  ultimately show ?thesis
    using swapped_port [OF ip(2,3)] assms(2)
    by (simp add: createMessageId_dump decodeMessageId_dump be_val_off ip(1) n2hll_LE)
qed

section \<open>The wire format\<close>

text \<open>
  Specification: the record a broker stores, field by field in network byte order, and its
  encoding. Addresses are the four bytes of the address and the port number.
\<close>

record wire =
  w_storeSize :: int
  w_magic :: int
  w_bodyCRC :: int
  w_queueId :: int
  w_flag :: int
  w_queueOffset :: int
  w_physicOffset :: int
  w_sysFlag :: int
  w_bornTimestamp :: int
  w_bornIp :: string
  w_bornPort :: int
  w_storeTimestamp :: int
  w_storeIp :: string
  w_storePort :: int
  w_reconsumeTimes :: int
  w_preparedOffset :: int
  w_body :: string
  w_topic :: string
  w_props :: "(string, string) stdmap"

definition enc_fixed :: "wire \<Rightarrow> string" where
  "enc_fixed w =
     be_bytes 4 (w_storeSize w) @ be_bytes 4 (w_magic w) @ be_bytes 4 (w_bodyCRC w) @
     be_bytes 4 (w_queueId w) @ be_bytes 4 (w_flag w) @ be_bytes 8 (w_queueOffset w) @
     be_bytes 8 (w_physicOffset w) @ be_bytes 4 (w_sysFlag w) @ be_bytes 8 (w_bornTimestamp w) @
     w_bornIp w @ be_bytes 4 (w_bornPort w) @ be_bytes 8 (w_storeTimestamp w) @
     w_storeIp w @ be_bytes 4 (w_storePort w) @ be_bytes 4 (w_reconsumeTimes w) @
     be_bytes 8 (w_preparedOffset w) @ be_bytes 4 (int (length (w_body w)))"

definition enc_tail :: "wire \<Rightarrow> string" where
  "enc_tail w =
     char_of (int (length (w_topic w))) # w_topic w @
     be_bytes 2 (int (length (messageProperties2String (w_props w)))) @
     messageProperties2String (w_props w)"

definition encode_msg :: "wire \<Rightarrow> string" where
  "encode_msg w = enc_fixed w @ w_body w @ enc_tail w"

text \<open>The values a stored message can have: the fields at their widths, text without NUL bytes.\<close>

definition wire_ok :: "wire \<Rightarrow> bool" where
  "wire_ok w \<longleftrightarrow>
     list_all (\<lambda>v. i32 v = v) [w_storeSize w, w_bodyCRC w, w_queueId w, w_flag w, w_sysFlag w,
       w_reconsumeTimes w] \<and>
     list_all (\<lambda>v. i64 v = v) [w_queueOffset w, w_physicOffset w, w_bornTimestamp w,
       w_storeTimestamp w, w_preparedOffset w] \<and>
     length (w_bornIp w) = 4 \<and> length (w_storeIp w) = 4 \<and>
     0 \<le> w_bornPort w \<and> w_bornPort w < 65536 \<and> 0 \<le> w_storePort w \<and> w_storePort w < 65536 \<and>
     length (w_body w) < 1073741824 \<and>
     length (w_topic w) < 128 \<and> CHR 0x00 \<notin> set (w_topic w) \<and>
     props_ok (w_props w) \<and> length (messageProperties2String (w_props w)) < 32768 \<and>
     CHR 0x00 \<notin> set (messageProperties2String (w_props w))"

definition wire_host :: "endian \<Rightarrow> string \<Rightarrow> int \<Rightarrow> sockaddr" where
  "wire_host e ip port = \<lparr>sin_family = AF_INET, sin_port = htons e port, s_addr = load e ip\<rparr>"

text \<open>
  The body a receiver gets: decompressed when the flag says so and the data is a valid
  stream, the raw bytes otherwise; an empty one stays \<^verbatim>\<open>NULL\<close>.
\<close>

definition wire_body :: "(string \<Rightarrow> string option) \<Rightarrow> wire \<Rightarrow> string" where
  "wire_body decompress w =
     (if w_body w = [] then []
      else if w_sysFlag w AND CompressedFlag = CompressedFlag
      then (case decompress (w_body w) of Some out \<Rightarrow> out | None \<Rightarrow> w_body w) else w_body w)"

definition wire_msg :: "endian \<Rightarrow> (string \<Rightarrow> string option) \<Rightarrow> wire \<Rightarrow> MessageExt" where
  "wire_msg e decompress w =
     (let b = wire_body decompress w in
      \<lparr>m_topic = w_topic w, m_flag = w_flag w,
       m_properties = (if w_props w = [] then [(''WAIT'', ''true'')] else w_props w),
       m_body = (if b = [] then None else Some b), m_bodyLen = int (length b),
       m_queueOffset = w_queueOffset w, m_commitLogOffset = w_physicOffset w,
       m_bornTimestamp = w_bornTimestamp w, m_storeTimestamp = w_storeTimestamp w,
       m_preparedTransactionOffset = w_preparedOffset w, m_queueId = w_queueId w,
       m_storeSize = w_storeSize w, m_sysFlag = w_sysFlag w, m_bodyCRC = w_bodyCRC w,
       m_reconsumeTimes = w_reconsumeTimes w,
       m_bornHost = Some (wire_host e (w_bornIp w) (w_bornPort w)),
       m_storeHost = Some (wire_host e (w_storeIp w) (w_storePort w)),
       m_msgId = hex_dump (w_storeIp w @ be_bytes 4 (w_storePort w) @ be_bytes 8 (w_physicOffset w))\<rparr>)"

section \<open>Decoding an encoded message\<close>

lemma length_enc_fixed: "wire_ok w \<Longrightarrow> length (enc_fixed w) = 88"
  by (simp add: enc_fixed_def wire_ok_def)

lemma field_append:
  assumes "a = int (length pre)" "n = length mid"
  shows "field (pre @ mid @ post) a n = mid"
  using assms by (simp add: field_def)

lemma net32_bytes: "net32 e (be_bytes 4 v) = i32 v"
  by (simp add: net32_def ntohl_load be_val_bytes u32_def [symmetric])

lemma net64_bytes: "net64 e (be_bytes 8 v) = i64 v"
  by (simp add: net64_def n2hll_load be_val_bytes u64_def [symmetric])

lemma net16_bytes: "0 \<le> v \<Longrightarrow> v < 32768 \<Longrightarrow> net16 e (be_bytes 2 v) = v"
  by (simp add: net16_def ntohs_load be_val_bytes i16_id)

lemma htonl_load_bytes: "i32 (htonl e (load e (be_bytes 4 v))) = i32 v"
  by (simp add: htonl_def ntohl_load be_val_bytes u32_def [symmetric])

lemma net_host_bytes:
  "length ip = 4 \<Longrightarrow> 0 \<le> p \<Longrightarrow> p < 65536 \<Longrightarrow> net_host e (ip @ be_bytes 4 p) = wire_host e ip p"
  by (simp add: net_host_def wire_host_def htonl_load_bytes i32_id)

lemma createMessageId_wire:
  assumes "length ip = 4" "0 \<le> p" "p < 65536"
  shows "createMessageId e (wire_host e ip p) off = hex_dump (ip @ be_bytes 4 p @ be_bytes 8 off)"
proof -
  have "ntohs e (htons e p) = p"
  proof (cases e)
    case LE
    have "ntohs LE (load LE (be_bytes 2 p)) = be_val (be_bytes 2 p)" by (rule ntohs_load) simp
    moreover have "htons LE p = load LE (be_bytes 2 p)"
      by (simp add: htons_def ntohs_def load_def be_bytes_def be_val_def)
    ultimately show ?thesis using LE assms by (simp add: be_val_bytes)
  next
    case BE
    then show ?thesis using assms by (simp add: ntohs_def htons_def)
  qed
  then show ?thesis
    using assms by (simp add: createMessageId_dump wire_host_def store_load)
qed

text \<open>The fixed part at any position of a buffer.\<close>

lemma fixed_fields:
  fixes pre post :: string
  assumes "wire_ok w" "pos = int (length pre)"
  defines "buf \<equiv> pre @ enc_fixed w @ post"
  shows "field buf (pos + 4 * 0) 4 = be_bytes 4 (w_storeSize w)"
    "field buf (pos + 4 * 2) 4 = be_bytes 4 (w_bodyCRC w)"
    "field buf (pos + 4 * 3) 4 = be_bytes 4 (w_queueId w)"
    "field buf (pos + 4 * 4) 4 = be_bytes 4 (w_flag w)"
    "field buf (pos + 4 * 5) 8 = be_bytes 8 (w_queueOffset w)"
    "field buf (pos + 4 * 7) 8 = be_bytes 8 (w_physicOffset w)"
    "field buf (pos + 4 * 9) 4 = be_bytes 4 (w_sysFlag w)"
    "field buf (pos + 4 * 10) 8 = be_bytes 8 (w_bornTimestamp w)"
    "field buf (pos + 4 * 12) 8 = w_bornIp w @ be_bytes 4 (w_bornPort w)"
    "field buf (pos + 4 * 14) 8 = be_bytes 8 (w_storeTimestamp w)"
    "field buf (pos + 4 * 16) 8 = w_storeIp w @ be_bytes 4 (w_storePort w)"
    "field buf (pos + 4 * 18) 4 = be_bytes 4 (w_reconsumeTimes w)"
    "field buf (pos + 4 * 19) 8 = be_bytes 8 (w_preparedOffset w)"
    "field buf (pos + 84) 4 = be_bytes 4 (int (length (w_body w)))"
proof -
  have d: "nat (pos + k) = length pre + nat k" if "0 \<le> k" for k
    using assms(2) that by simp
  have l: "length (w_bornIp w) = 4" "length (w_storeIp w) = 4" using assms(1) by (simp_all add: wire_ok_def)
  note f = field_def buf_def enc_fixed_def d l
  show "field buf (pos + 4 * 0) 4 = be_bytes 4 (w_storeSize w)" using assms(2) by (simp add: f)
  show "field buf (pos + 4 * 2) 4 = be_bytes 4 (w_bodyCRC w)" by (simp add: f)
  show "field buf (pos + 4 * 3) 4 = be_bytes 4 (w_queueId w)" by (simp add: f)
  show "field buf (pos + 4 * 4) 4 = be_bytes 4 (w_flag w)" by (simp add: f)
  show "field buf (pos + 4 * 5) 8 = be_bytes 8 (w_queueOffset w)" by (simp add: f)
  show "field buf (pos + 4 * 7) 8 = be_bytes 8 (w_physicOffset w)" by (simp add: f)
  show "field buf (pos + 4 * 9) 4 = be_bytes 4 (w_sysFlag w)" by (simp add: f)
  show "field buf (pos + 4 * 10) 8 = be_bytes 8 (w_bornTimestamp w)" by (simp add: f)
  show "field buf (pos + 4 * 12) 8 = w_bornIp w @ be_bytes 4 (w_bornPort w)" by (simp add: f)
  show "field buf (pos + 4 * 14) 8 = be_bytes 8 (w_storeTimestamp w)" by (simp add: f)
  show "field buf (pos + 4 * 16) 8 = w_storeIp w @ be_bytes 4 (w_storePort w)" by (simp add: f)
  show "field buf (pos + 4 * 18) 4 = be_bytes 4 (w_reconsumeTimes w)" by (simp add: f)
  show "field buf (pos + 4 * 19) 8 = be_bytes 8 (w_preparedOffset w)" by (simp add: f)
  show "field buf (pos + 84) 4 = be_bytes 4 (int (length (w_body w)))" by (simp add: f)
qed

definition wire_fixed :: "endian \<Rightarrow> wire \<Rightarrow> MessageExt" where
  "wire_fixed e w =
     MessageExt_new\<lparr>
       m_storeSize := w_storeSize w, m_bodyCRC := w_bodyCRC w, m_queueId := w_queueId w,
       m_flag := w_flag w, m_queueOffset := w_queueOffset w, m_commitLogOffset := w_physicOffset w,
       m_sysFlag := w_sysFlag w, m_bornTimestamp := w_bornTimestamp w,
       m_bornHost := Some (wire_host e (w_bornIp w) (w_bornPort w)),
       m_storeTimestamp := w_storeTimestamp w,
       m_storeHost := Some (wire_host e (w_storeIp w) (w_storePort w)),
       m_reconsumeTimes := w_reconsumeTimes w,
       m_preparedTransactionOffset := w_preparedOffset w\<rparr>"

lemma decode_fixed_wire:
  assumes "wire_ok w" "pos = int (length pre)"
  shows "decode_fixed e (pre @ enc_fixed w @ post) pos = wire_fixed e w"
  using assms(1)
  by (simp only: decode_fixed_def Let_def fixed_fields [OF assms] net32_bytes net64_bytes htonl_load_bytes)
    (simp add: wire_ok_def net_host_bytes wire_fixed_def)

lemma decode_body_wire:
  assumes "wire_ok w" "pos + 88 = int (length pre)" "\<And>b out. decompress b = Some out \<Longrightarrow> small out"
  shows "decode_body decompress (pre @ w_body w @ post) pos (int (length (w_body w))) True (wire_fixed e w) =
    Inr ((wire_fixed e w)\<lparr>m_body := (if wire_body decompress w = [] then None else Some (wire_body decompress w)),
                          m_bodyLen := int (length (wire_body decompress w))\<rparr>)"
proof (cases "w_body w = []")
  case True
  then show ?thesis
    by (simp add: decode_body_def wire_body_def Let_def wire_fixed_def MessageExt_new_def Message_new_simp)
next
  case False
  have fl: "field (pre @ w_body w @ post) (pos + 88) (length (w_body w)) = w_body w"
    by (rule field_append [OF assms(2)]) simp
  have ir: "in_range (pre @ w_body w @ post) (pos + 88) (int (length (w_body w)))"
    using assms(2) by (simp add: in_range_def)
  have sf: "m_sysFlag (wire_fixed e w) = w_sysFlag w" by (simp add: wire_fixed_def)
  have nn: "m_body (wire_fixed e w) = None" "m_bodyLen (wire_fixed e w) = 0"
    by (simp_all add: wire_fixed_def MessageExt_new_def Message_new_simp)
  show ?thesis
    using False ir assms(3) [of "w_body w"] nn
    by (auto simp: decode_body_def fl sf Let_def setBody_def copy_bytes_def wire_body_def
        isize_small split: option.splits)
qed

lemma enc_tail_length: "length (enc_tail w) =
    1 + length (w_topic w) + 2 + length (messageProperties2String (w_props w))"
  by (simp add: enc_tail_def)

lemma props_string_Nil_iff: "messageProperties2String m = [] \<longleftrightarrow> m = []"
  by (cases m) (auto simp: messageProperties2String_def split: prod.splits)

text \<open>The tail at any position: topic, properties, size and id.\<close>

lemma decode_tail_wire:
  assumes w: "wire_ok w" and pos: "pos + 88 + int (length (w_body w)) = int (length pre)"
    and host: "m_storeHost m = Some (wire_host e (w_storeIp w) (w_storePort w))"
      "m_commitLogOffset m = w_physicOffset w"
  shows "decode_tail e (pre @ enc_tail w @ post) pos (int (length (w_body w))) m =
    Inr (Some (m\<lparr>m_topic := w_topic w,
                 m_properties := (if w_props w = [] then m_properties m else w_props w),
                 m_msgId := hex_dump (w_storeIp w @ be_bytes 4 (w_storePort w) @ be_bytes 8 (w_physicOffset w))\<rparr>,
               88 + int (length (w_body w)) + int (length (enc_tail w))))"
proof -
  let ?t = "w_topic w" and ?q = "messageProperties2String (w_props w)"
  let ?buf = "pre @ enc_tail w @ post" and ?tp = "int (length pre)"
  have wk: "length ?t < 128" "CHR 0x00 \<notin> set ?t" "length ?q < 32768" "CHR 0x00 \<notin> set ?q"
    "props_ok (w_props w)" "length (w_body w) < 1073741824" "length (w_storeIp w) = 4"
    "0 \<le> w_storePort w" "w_storePort w < 65536"
    using w by (simp_all add: wire_ok_def)
  have ch: "?buf ! nat ?tp = char_of (int (length ?t))" by (simp add: enc_tail_def nth_append)
  have tl: "i8 (of_char (?buf ! nat ?tp)) = int (length ?t)"
    unfolding ch of_char_of using wk(1) by (simp add: i8_id)
  have topic: "field ?buf (?tp + 1) (length ?t) = ?t"
    using field_append [of "?tp + 1" "pre @ [char_of (int (length ?t))]" _ ?t]
    by (simp add: enc_tail_def)
  have plen: "field ?buf (?tp + 1 + int (length ?t)) 2 = be_bytes 2 (int (length ?q))"
    using field_append [of "?tp + 1 + int (length ?t)" "pre @ [char_of (int (length ?t))] @ ?t" 2
        "be_bytes 2 (int (length ?q))"] by (simp add: enc_tail_def)
  have props: "field ?buf (?tp + 1 + int (length ?t) + 2) (length ?q) = ?q"
    using field_append [of "?tp + 1 + int (length ?t) + 2"
        "pre @ [char_of (int (length ?t))] @ ?t @ be_bytes 2 (int (length ?q))" _ ?q]
    by (simp add: enc_tail_def)
  have rng: "in_range ?buf ?tp 1" "in_range ?buf (?tp + 1) (int (length ?t))"
    "in_range ?buf (?tp + 1 + int (length ?t)) 2"
    "in_range ?buf (?tp + 1 + int (length ?t) + 2) (int (length ?q))"
    by (simp_all add: in_range_def enc_tail_length)
  have n16: "net16 e (be_bytes 2 (int (length ?q))) = int (length ?q)"
    using wk(3) by (simp add: net16_bytes)
  have off: "i32 (88 + int (length (w_body w)) + 1 + int (length ?t) + 2 + int (length ?q)) =
      88 + int (length (w_body w)) + int (length (enc_tail w))"
    using wk(1,3,6) by (simp add: i32_id enc_tail_length)
  have gt: "0 < int (length ?q) \<longleftrightarrow> w_props w \<noteq> []"
    using props_string_Nil_iff [of "w_props w"] by simp
  show ?thesis
    unfolding decode_tail_def Let_def pos tl
    unfolding nat_int topic plen n16 off gt props rng [THEN eqTrueI]
    using wk host
    by (simp add: c_str_id string2messageProperties_roundtrip createMessageId_wire
        setTopic_msg_def setProperties_def)
qed

lemma wire_msg_updates:
  "wire_msg e dz w = (wire_fixed e w)\<lparr>
     m_body := (if wire_body dz w = [] then None else Some (wire_body dz w)),
     m_bodyLen := int (length (wire_body dz w)), m_topic := w_topic w,
     m_properties := (if w_props w = [] then m_properties (wire_fixed e w) else w_props w),
     m_msgId := hex_dump (w_storeIp w @ be_bytes 4 (w_storePort w) @ be_bytes 8 (w_physicOffset w))\<rparr>"
  by (simp add: wire_msg_def wire_fixed_def MessageExt_new_def Message_new_simp Let_def)

lemma decode_encode:
  assumes w: "wire_ok w" and dz: "\<And>b out. decompress b = Some out \<Longrightarrow> small out"
  shows "decode e decompress (pre @ encode_msg w @ post) (int (length pre)) True =
    Inr (Some (wire_msg e decompress w, int (length (encode_msg w))))"
proof -
  let ?buf = "pre @ encode_msg w @ post" and ?pos = "int (length pre)"
  have l: "length (enc_fixed w) = 88" using w by (rule length_enc_fixed)
  have b1: "?buf = pre @ enc_fixed w @ (w_body w @ enc_tail w @ post)"
    and b2: "?buf = (pre @ enc_fixed w) @ w_body w @ (enc_tail w @ post)"
    and b3: "?buf = (pre @ enc_fixed w @ w_body w) @ enc_tail w @ post"
    by (simp_all add: encode_msg_def)
  have ir: "in_range ?buf ?pos 88" by (simp add: in_range_def encode_msg_def l)
  have fx: "decode_fixed e ?buf ?pos = wire_fixed e w"
    unfolding b1 by (rule decode_fixed_wire [OF w refl])
  have "length (w_body w) < 1073741824" using w by (simp add: wire_ok_def)
  then have bl: "i32 (htonl e (load e (field ?buf (?pos + 84) 4))) = int (length (w_body w))"
    unfolding b1 fixed_fields(14) [OF w refl] htonl_load_bytes by (simp add: i32_id)
  have bd: "decode_body decompress ?buf ?pos (int (length (w_body w))) True (wire_fixed e w) =
    Inr ((wire_fixed e w)\<lparr>m_body := (if wire_body decompress w = [] then None else Some (wire_body decompress w)),
                          m_bodyLen := int (length (wire_body decompress w))\<rparr>)"
    unfolding b2 by (rule decode_body_wire [OF w]) (simp_all add: l dz)
  have tl: "decode_tail e ?buf ?pos (int (length (w_body w)))
      ((wire_fixed e w)\<lparr>m_body := (if wire_body decompress w = [] then None else Some (wire_body decompress w)),
         m_bodyLen := int (length (wire_body decompress w))\<rparr>) =
    Inr (Some (wire_msg e decompress w, int (length (encode_msg w))))"
    unfolding b3 by (subst decode_tail_wire [OF w])
      (simp_all add: l encode_msg_def wire_fixed_def wire_msg_updates)
  show ?thesis unfolding decode_def Let_def using ir fx bl bd tl by simp
qed

lemma decodes_loop_encoded:
  assumes "\<forall>w \<in> set ws. wire_ok w" "\<And>b out. decompress b = Some out \<Longrightarrow> small out"
    and "buf = pre @ concat (map encode_msg ws)" "length buf < 2147483648" "length ws < fuel"
  shows "decodes_loop fuel e decompress buf (int (length buf)) (int (length pre)) acc =
    Some (Inr (acc @ map (wire_msg e decompress) ws))"
  using assms
proof (induction ws arbitrary: pre acc fuel)
  case Nil
  then show ?case by (cases fuel) simp_all
next
  case (Cons w ws)
  obtain n where fuel: "fuel = Suc n" using Cons.prems(5) by (cases fuel) simp_all
  have d: "decode e decompress buf (int (length pre)) True =
      Inr (Some (wire_msg e decompress w, int (length (encode_msg w))))"
    using decode_encode [of w decompress e pre "concat (map encode_msg ws)"] Cons.prems by simp
  have pos: "0 < length (encode_msg w)"
    using length_enc_fixed [of w] Cons.prems(1) by (simp add: encode_msg_def)
  have le: "length pre + length (encode_msg w) \<le> length buf" using Cons.prems(3) by simp
  have nx: "i32 (int (length pre) + int (length (encode_msg w))) = int (length (pre @ encode_msg w))"
    using le Cons.prems(4) by (simp add: i32_id)
  have "decodes_loop n e decompress buf (int (length buf)) (int (length (pre @ encode_msg w)))
      (acc @ [wire_msg e decompress w]) =
    Some (Inr ((acc @ [wire_msg e decompress w]) @ map (wire_msg e decompress) ws))"
    using Cons.prems fuel by (intro Cons.IH) simp_all
  moreover have "length pre < length buf" using pos le by linarith
  ultimately show ?case using d nx fuel by simp
qed

text \<open>A frame whose properties length is -91 announces a size of 0 bytes.\<close>

definition stuck_frame :: string where
  "stuck_frame = replicate 89 CHR 0x00 @ [CHR 0xFF, CHR 0xA5]"

lemma le_val_zeros: "le_val (replicate n CHR 0x00) = 0"
  by (induction n) simp_all

lemma stuck_frame_decode: "\<exists>m. decode e dz stuck_frame 0 True = Inr (Some (m, 0))"
proof -
  have z: "field stuck_frame a n = replicate n CHR 0x00" if "0 \<le> a" "a + int n \<le> 89" for a n
  proof -
    have "drop (nat a) stuck_frame = replicate (89 - nat a) CHR 0x00 @ [CHR 0xFF, CHR 0xA5]"
      using that by (simp add: stuck_frame_def)
    then show ?thesis using that by (simp add: field_def nat_le_iff)
  qed
  have bl: "i32 (htonl e (load e (field stuck_frame (0 + 84) 4))) = 0"
    using z [of 84 4] ntohl_load [of "replicate 4 CHR 0x00" e]
    by (simp add: htonl_def be_val_def le_val_zeros i32_id)
  have pl: "net16 e (field stuck_frame 89 2) = - 91"
  proof -
    have "field stuck_frame 89 2 = [CHR 0xFF, CHR 0xA5]" by (simp add: field_def stuck_frame_def)
    then show ?thesis
      using ntohs_load [of "[CHR 0xFF, CHR 0xA5]" e] by (simp add: net16_def be_val_def i16_def)
  qed
  have t: "stuck_frame ! 88 = CHR 0x00" by (simp add: stuck_frame_def nth_append)
  have r: "in_range stuck_frame a n" if "0 \<le> a" "0 \<le> n" "a + n \<le> 91" for a n
    using that by (simp add: in_range_def stuck_frame_def)
  have "\<exists>m'. decode_tail e stuck_frame 0 0 m = Inr (Some (m', 0))" for m
  proof -
    have tl: "i8 (of_char (stuck_frame ! nat (0 + 88 + 0))) = 0" using t by (simp add: i8_id)
    show ?thesis
      unfolding decode_tail_def Let_def tl using r pl by (simp add: i32_id)
  qed
  moreover have "decode_body dz stuck_frame 0 0 True m = Inr m" for m
    by (simp add: decode_body_def)
  ultimately show ?thesis
    unfolding decode_def Let_def bl using r by simp
qed

section \<open>Properties\<close>

text \<open>
  Property C12. Decoding inverts the broker's encoding: a buffer that holds well-formed stored
  messages one after the other decodes to exactly these messages, in order, with every field
  the decoder reads, on a little-endian and on a big-endian host, after one round of the
  loop per message. The only deviation is that a message stored without properties comes
  back with the default property of a new message.
\<close>

theorem decodes_encoded_batch:
  assumes "\<forall>w \<in> set ws. wire_ok w" "\<And>b out. decompress b = Some out \<Longrightarrow> small out"
    and "length (concat (map encode_msg ws)) < 2147483648" "length ws < fuel"
  shows "decodes fuel e decompress (concat (map encode_msg ws))
      (int (length (concat (map encode_msg ws)))) readBody =
    Some (Inr (map (wire_msg e decompress) ws))"
  using decodes_loop_encoded [OF assms(1,2), where pre = "[]" and acc = "[]"] assms(3,4)
  by (simp add: decodes_def)

definition sample_wire :: wire where
  "sample_wire = \<lparr>w_storeSize = 101, w_magic = 7, w_bodyCRC = 1, w_queueId = 2, w_flag = 3,
     w_queueOffset = 4, w_physicOffset = 5, w_sysFlag = 0, w_bornTimestamp = 6,
     w_bornIp = ''abcd'', w_bornPort = 10911, w_storeTimestamp = 8, w_storeIp = ''abcd'',
     w_storePort = 10912, w_reconsumeTimes = 0, w_preparedOffset = 0, w_body = ''body'',
     w_topic = ''T'', w_props = [(''TAGS'', ''x'')]\<rparr>"

theorem decodes_encoded_batch_witness:
  "decodes 3 LE (\<lambda>_. None) (concat (map encode_msg [sample_wire, sample_wire]))
      (int (length (concat (map encode_msg [sample_wire, sample_wire])))) True =
    Some (Inr (map (wire_msg LE (\<lambda>_. None)) [sample_wire, sample_wire]))"
proof (rule decodes_encoded_batch)
  have "wire_ok sample_wire"
    by (simp add: wire_ok_def sample_wire_def i32_id i64_id props_ok_def entry_ok_def
        messageProperties2String_def NAME_VALUE_SEPARATOR_def PROPERTY_SEPARATOR_def)
  then show "\<forall>w \<in> set [sample_wire, sample_wire]. wire_ok w" by simp
  show "length (concat (map encode_msg [sample_wire, sample_wire])) < 2147483648"
    by (simp add: encode_msg_def enc_fixed_def enc_tail_def sample_wire_def messageProperties2String_def)
qed simp_all

text \<open>
  The batch loop has no progress check: on a frame of 91 bytes whose properties
  length is -91 the announced size is 0, and the loop never ends, whatever the fuel.
\<close>

theorem decodes_never_ends:
  "decodes fuel e decompress stuck_frame (int (length stuck_frame)) readBody = None"
proof -
  obtain m where "decode e decompress stuck_frame 0 True = Inr (Some (m, 0))"
    using stuck_frame_decode by blast
  then have "decodes_loop fuel e decompress stuck_frame 91 0 acc = None" for acc
    by (induction fuel arbitrary: acc) (simp_all add: i32_id)
  then show ?thesis by (simp add: decodes_def stuck_frame_def)
qed

text \<open>
  The property string codec is inverted by the parser for every property map
  whose keys and values avoid the two separator bytes and that has no entry with an empty
  key and an empty value.
\<close>

theorem message_property_string_roundtrip:
  assumes "props_ok m"
  shows "string2messageProperties [] (messageProperties2String m) = m"
  using assms by (rule string2messageProperties_roundtrip)

theorem message_property_string_roundtrip_witness:
  "string2messageProperties [] (messageProperties2String [(''KEYS'', ''k 1''), (''TAGS'', [])]) =
    [(''KEYS'', ''k 1''), (''TAGS'', [])]"
  by (rule message_property_string_roundtrip)
    (simp add: props_ok_def entry_ok_def NAME_VALUE_SEPARATOR_def PROPERTY_SEPARATOR_def)

text \<open>
  Message ids: on a big-endian host \<^verbatim>\<open>decodeMessageId\<close> returns the address and the
  offset the id was created from; on a little-endian host it returns the reversed address
  bytes, port 0 and the byte-reversed offset, because it converts the byte order of values
  that the textual form has already normalised.
\<close>

theorem message_id_codec:
  assumes "addr_ok a" "- 9223372036854775808 \<le> off" "off < 9223372036854775808"
  shows "decodeMessageId BE (createMessageId BE a off) = Inr \<lparr>id_address = a, id_offset = off\<rparr> \<and>
    decodeMessageId LE (createMessageId LE a off) =
      Inr \<lparr>id_address = \<lparr>sin_family = AF_INET, sin_port = 0, s_addr = reverse_bytes 4 (s_addr a)\<rparr>,
           id_offset = i64 (reverse_bytes 8 off)\<rparr>"
  using message_id_BE [OF assms(1)] message_id_LE [OF assms(1)] assms(2,3) by (simp add: i64_id)

theorem message_id_codec_witness:
  "decodeMessageId BE (createMessageId BE \<lparr>sin_family = AF_INET, sin_port = 10911, s_addr = 16909060\<rparr> 77) =
    Inr \<lparr>id_address = \<lparr>sin_family = AF_INET, sin_port = 10911, s_addr = 16909060\<rparr>, id_offset = 77\<rparr>"
  by (rule message_id_codec [THEN conjunct1]) (simp_all add: addr_ok_def)

end
