(* ===== verification/Config.thy ===== *)
theory Config
  imports Message
begin

text \<open>
  Configuration values: \<^verbatim>\<open>src/src/common/TopicConfig.cpp\<close>, the settings of a topic and their text form, and
  \<^verbatim>\<open>src/src/ClientConfig.cpp\<close>, the settings every producer and consumer inherits. Reading the text form
  goes through \<^verbatim>\<open>std::stringstream\<close>, whose extraction operators are modelled first. The process
  environment and the local address are arguments.
\<close>

section \<open>Extraction from a stream\<close>

text \<open>
  What is left to read, and whether no extraction has failed. At the end of the text and after
  a failure an extraction does nothing; otherwise white space is skipped first. A number that is
  missing reads as 0 and one outside the range of \<^verbatim>\<open>int\<close> as the nearest bound; both fail the stream.
\<close>

type_synonym istream = "string \<times> bool"

definition get_word :: "string \<Rightarrow> istream \<Rightarrow> string \<times> istream" where
  "get_word old s =
     (let r = dropWhile is_space (fst s) in
      if \<not> snd s \<or> r = [] then (old, (r, False))
      else (takeWhile (\<lambda>c. \<not> is_space c) r, (dropWhile (\<lambda>c. \<not> is_space c) r, True)))"

definition get_int :: "int option \<Rightarrow> istream \<Rightarrow> int option \<times> istream" where
  "get_int old s =
     (let r = dropWhile is_space (fst s) in
      if \<not> snd s \<or> r = [] then (old, (r, False))
      else
        (let digits = (if hd r = CHR ''-'' \<or> hd r = CHR ''+'' then tl r else r);
             rest = dropWhile is_digit digits;
             v = read_signed r
         in if takeWhile is_digit digits = [] then (Some 0, (rest, False))
            else if v > 2147483647 then (Some 2147483647, (rest, False))
            else if v < - 2147483648 then (Some (- 2147483648), (rest, False))
            else (Some v, (rest, True))))"

section \<open>TopicConfig\<close>

definition DefaultReadQueueNums :: int where "DefaultReadQueueNums = 16"
definition DefaultWriteQueueNums :: int where "DefaultWriteQueueNums = 16"
definition SEPARATOR :: string where "SEPARATOR = '' ''"

record TopicConfig =
  tc_topicName :: string
  tc_readQueueNums :: int
  tc_writeQueueNums :: int
  tc_perm :: int
  tc_topicFilterType :: TopicFilterType

definition TopicConfig_default :: TopicConfig where
  "TopicConfig_default = \<lparr>tc_topicName = [], tc_readQueueNums = DefaultReadQueueNums,
     tc_writeQueueNums = DefaultWriteQueueNums, tc_perm = PERM_READ OR PERM_WRITE, tc_topicFilterType = SINGLE_TAG\<rparr>"

definition TopicConfig_new :: "string \<Rightarrow> TopicConfig" where
  "TopicConfig_new topicName = \<lparr>tc_topicName = topicName, tc_readQueueNums = DefaultReadQueueNums,
     tc_writeQueueNums = DefaultWriteQueueNums, tc_perm = PERM_READ OR PERM_WRITE, tc_topicFilterType = SINGLE_TAG\<rparr>"

definition TopicConfig_of :: "string \<Rightarrow> int \<Rightarrow> int \<Rightarrow> int \<Rightarrow> TopicConfig" where
  "TopicConfig_of topicName readQueueNums writeQueueNums perm =
     \<lparr>tc_topicName = topicName, tc_readQueueNums = readQueueNums, tc_writeQueueNums = writeQueueNums, tc_perm = perm,
      tc_topicFilterType = SINGLE_TAG\<rparr>"

text \<open>The number of an enumerator, and the enumerator of a number; another number has none.\<close>

fun filter_code :: "TopicFilterType \<Rightarrow> int" where
  "filter_code SINGLE_TAG = 0"
| "filter_code MULTI_TAG = 1"

definition filter_of_code :: "int \<Rightarrow> TopicFilterType option" where
  "filter_of_code n = (if n = 0 then Some SINGLE_TAG else if n = 1 then Some MULTI_TAG else None)"

definition TopicConfig_encode :: "TopicConfig \<Rightarrow> string" where
  "TopicConfig_encode tc =
     tc_topicName tc @ SEPARATOR @ show_int (tc_readQueueNums tc) @ SEPARATOR @ show_int (tc_writeQueueNums tc) @ SEPARATOR @
     show_int (tc_perm tc) @ SEPARATOR @ show_int (filter_code (tc_topicFilterType tc))"

text \<open>The local \<^verbatim>\<open>int type\<close> starts out uninitialised (\<^const>\<open>None\<close>); the fields keep their values when the text is too short.\<close>

definition TopicConfig_decode :: "string \<Rightarrow> TopicConfig \<Rightarrow> (TopicConfig \<times> bool) result" where
  "TopicConfig_decode text tc =
     (let (name, s1) = get_word (tc_topicName tc) (text, True);
          (rd, s2) = get_int (Some (tc_readQueueNums tc)) s1;
          (wr, s3) = get_int (Some (tc_writeQueueNums tc)) s2;
          (pm, s4) = get_int (Some (tc_perm tc)) s3;
          (type, s5) = get_int None s4
      in case type of
           None \<Rightarrow> Inl Undefined
         | Some n \<Rightarrow>
             (case filter_of_code n of
                None \<Rightarrow> Inl Undefined
              | Some ft \<Rightarrow>
                  Inr (\<lparr>tc_topicName = name, tc_readQueueNums = the rd, tc_writeQueueNums = the wr, tc_perm = the pm,
                        tc_topicFilterType = ft\<rparr>, True)))"

section \<open>ClientConfig\<close>

definition CLIENT_ID_IP_NAME_SEPARATOR :: string where "CLIENT_ID_IP_NAME_SEPARATOR = ''@''"

record ClientConfig =
  cc_namesrvAddr :: string
  cc_clientIP :: string
  cc_instanceName :: string
  cc_clientCallbackExecutorThreads :: int
  cc_pollNameServerInterval :: int
  cc_heartbeatBrokerInterval :: int
  cc_persistConsumerOffsetInterval :: int

definition ClientConfig_new :: "string option \<Rightarrow> string \<Rightarrow> ClientConfig" where
  "ClientConfig_new namesrvEnv localAddress =
     \<lparr>cc_namesrvAddr = (case namesrvEnv of Some addr \<Rightarrow> addr | None \<Rightarrow> []), cc_clientIP = localAddress,
      cc_instanceName = ''DEFAULT'', cc_clientCallbackExecutorThreads = availableProcessors,
      cc_pollNameServerInterval = 1000 * 30, cc_heartbeatBrokerInterval = 1000 * 30,
      cc_persistConsumerOffsetInterval = 1000 * 5\<rparr>"

definition buildMQClientId :: "ClientConfig \<Rightarrow> string" where
  "buildMQClientId cc = cc_clientIP cc @ CLIENT_ID_IP_NAME_SEPARATOR @ cc_instanceName cc"

definition resetClientConfig :: "ClientConfig \<Rightarrow> ClientConfig \<Rightarrow> ClientConfig" where
  "resetClientConfig cc self =
     self\<lparr>cc_namesrvAddr := cc_namesrvAddr cc, cc_clientIP := cc_clientIP cc, cc_instanceName := cc_instanceName cc,
          cc_clientCallbackExecutorThreads := cc_clientCallbackExecutorThreads cc,
          cc_pollNameServerInterval := cc_pollNameServerInterval cc,
          cc_heartbeatBrokerInterval := cc_heartbeatBrokerInterval cc,
          cc_persistConsumerOffsetInterval := cc_persistConsumerOffsetInterval cc\<rparr>"

section \<open>Lemmas\<close>

lemma space_blank: "is_space (CHR '' '')"
  by (simp add: is_space_def)

lemma dropWhile_show_int:
  "dropWhile is_space (SEPARATOR @ show_int x @ rest) = show_int x @ rest"
  "dropWhile is_space (show_int x @ rest) = show_int x @ rest"
proof -
  obtain c r where c: "show_int x = c # r" "\<not> is_space c"
  proof (cases "x < 0")
    case True
    then show ?thesis using that by (simp add: show_int_def is_space_def)
  next
    case False
    obtain c r where cr: "show_nat (nat x) = c # r" by (cases "show_nat (nat x)") simp_all
    then have "is_digit c" using show_nat_digits [of "nat x"] by simp
    with cr False that digit_char_facts [of c] show ?thesis by (simp add: show_int_def)
  qed
  then show "dropWhile is_space (show_int x @ rest) = show_int x @ rest"
    "dropWhile is_space (SEPARATOR @ show_int x @ rest) = show_int x @ rest"
    by (simp_all add: SEPARATOR_def space_blank)
qed

text \<open>A printed number followed by something that is no digit is read back.\<close>

lemma get_int_show:
  assumes "- 2147483648 \<le> x" "x \<le> 2147483647" "rest = [] \<or> \<not> is_digit (hd rest)"
  shows "get_int old (SEPARATOR @ show_int x @ rest, True) = (Some x, (rest, True))"
proof -
  define digits where "digits = show_nat (nat \<bar>x\<bar>)"
  have d: "\<forall>c \<in> set digits. is_digit c" "digits \<noteq> []" unfolding digits_def by (simp_all add: show_nat_digits)
  have r: "takeWhile is_digit rest = []" "dropWhile is_digit rest = rest" using assms(3) by (cases rest; simp)+
  have t: "takeWhile is_digit (digits @ rest) = digits" "dropWhile is_digit (digits @ rest) = rest"
    using d(1) r by (simp_all add: takeWhile_append2 dropWhile_append2)
  have v: "read_nat (digits @ rest) = nat \<bar>x\<bar>"
  proof -
    have w: "takeWhile is_digit digits = digits" using d(1) by (simp add: takeWhile_eq_all_conv)
    show ?thesis using read_nat_show_nat [of "nat \<bar>x\<bar>"] unfolding read_nat_def t(1) digits_def [symmetric] w .
  qed
  have h: "hd digits \<noteq> CHR ''-''" "hd digits \<noteq> CHR ''+''" "\<not> is_space (hd digits)"
    using d hd_in_set digit_char_facts [of "hd digits"] by (auto simp: is_digit_def)
  obtain c ds where cd: "digits = c # ds" using d(2) by (cases digits) auto
  have x: "show_int x = (if x < 0 then CHR ''-'' # digits else digits)"
    by (simp add: show_int_def digits_def)
  have s: "read_signed (show_int x @ rest) = x"
  proof (cases "x < 0")
    case True
    with x v show ?thesis by (simp add: read_signed_def is_space_def)
  next
    case False
    have "read_signed (digits @ rest) = int (read_nat (digits @ rest))" using h by (simp add: read_signed_def cd)
    with False x v show ?thesis by simp
  qed
  let ?r = "show_int x @ rest"
  have f: "(if hd ?r = CHR ''-'' \<or> hd ?r = CHR ''+'' then tl ?r else ?r) = digits @ rest" "?r \<noteq> []"
    using h x d(2) by (simp_all add: cd)
  show ?thesis
    using assms(1,2) t d(2) by (simp add: get_int_def dropWhile_show_int s f Let_def del: append_is_Nil_conv)
qed

lemma get_word_name:
  assumes "name \<noteq> []" "\<forall>c \<in> set name. \<not> is_space c"
  shows "get_word old (name @ SEPARATOR @ rest, True) = (name, (SEPARATOR @ rest, True))"
proof -
  have "dropWhile is_space (name @ SEPARATOR @ rest) = name @ SEPARATOR @ rest"
    using assms by (cases name) simp_all
  moreover have "takeWhile (\<lambda>c. \<not> is_space c) (name @ SEPARATOR @ rest) = name"
    "dropWhile (\<lambda>c. \<not> is_space c) (name @ SEPARATOR @ rest) = SEPARATOR @ rest"
    using assms(2) by (simp_all add: takeWhile_append2 dropWhile_append2 SEPARATOR_def is_space_def)
  ultimately show ?thesis using assms(1) by (simp add: get_word_def Let_def)
qed

lemma SEPARATOR_hd [simp]: "\<not> is_digit (hd (SEPARATOR @ rest))"
  by (simp add: SEPARATOR_def is_digit_def)

section \<open>Properties\<close>

definition int_field :: "int \<Rightarrow> bool" where
  "int_field x \<longleftrightarrow> - 2147483648 \<le> x \<and> x \<le> 2147483647"

text \<open>
  The text form of a topic configuration reads back as the configuration, into any
  object, when the name is not empty and has no white space.
\<close>

theorem topic_config_roundtrip:
  assumes "tc_topicName tc \<noteq> []" "\<forall>c \<in> set (tc_topicName tc). \<not> is_space c"
    and "int_field (tc_readQueueNums tc)" "int_field (tc_writeQueueNums tc)" "int_field (tc_perm tc)"
  shows "TopicConfig_decode (TopicConfig_encode tc) tc0 = Inr (tc, True)"
proof -
  let ?code = "filter_code (tc_topicFilterType tc)"
  have c: "- 2147483648 \<le> ?code" "?code \<le> 2147483647" "filter_of_code ?code = Some (tc_topicFilterType tc)"
    by (cases "tc_topicFilterType tc"; simp add: filter_of_code_def)+
  note last = get_int_show [OF c(1,2), of "[]", simplified]
  show ?thesis
    using assms unfolding TopicConfig_decode_def TopicConfig_encode_def int_field_def
    by (simp add: get_word_name get_int_show last c(3) Let_def)
qed

theorem topic_config_roundtrip_witness:
  "TopicConfig_decode (TopicConfig_encode (TopicConfig_new ''T'')) TopicConfig_default = Inr (TopicConfig_new ''T'', True)"
  by (rule topic_config_roundtrip)
    (simp_all add: TopicConfig_new_def int_field_def DefaultReadQueueNums_def DefaultWriteQueueNums_def PERM_READ_def
      PERM_WRITE_def is_space_def)

end
