(* ===== verification/Api.thy ===== *)
theory Api
  imports Remoting Route Decoder Config
begin

text \<open>
  \<^verbatim>\<open>src/src/MQClientAPIImpl.cpp\<close>: the calls to brokers and name servers. Each call builds a command,
  hands it to the remoting client and turns the answer into a result or an exception. What
  comes back from the network is the argument \<open>net\<close> (\<^const>\<open>None\<close> for no answer: no connection, a
  failed send or a timeout).
\<close>

section \<open>The remoting client as the calls see it\<close>

text \<open>
  \<^verbatim>\<open>invokeSync\<close> over the table of connections: \<open>deliver\<close> is what \<^verbatim>\<open>invokeSyncImpl\<close> returns on a
  connected transport. Without a connection the answer is NULL.
\<close>

definition invokeSync ::
  "(string \<Rightarrow> TcpTransport \<Rightarrow> (TcpTransport \<times> int) result) \<Rightarrow> (int \<Rightarrow> bool) \<Rightarrow>
   (TcpTransport \<Rightarrow> RemotingCommand \<Rightarrow> RemotingCommand option) \<Rightarrow> string \<Rightarrow> RemotingCommand \<Rightarrow>
   (string, TcpTransport) stdmap \<Rightarrow> ((string, TcpTransport) stdmap \<times> RemotingCommand option) result" where
  "invokeSync connect alloc deliver addr request table =
     bind_r (GetAndCreateTransport connect alloc addr table) (\<lambda>(table', tts).
       case tts of
         Some t \<Rightarrow>
           if IsConnected t then Inr (table', deliver t request)
           else bind_r (RemoveTTS tts table') (\<lambda>table''. Inr (table'', None))
       | None \<Rightarrow> bind_r (RemoveTTS tts table') (\<lambda>table''. Inr (table'', None)))"

definition invokeOneway ::
  "(string \<Rightarrow> TcpTransport \<Rightarrow> (TcpTransport \<times> int) result) \<Rightarrow> (int \<Rightarrow> bool) \<Rightarrow>
   (string \<Rightarrow> TcpTransport \<Rightarrow> TcpTransport \<times> string \<times> int) \<Rightarrow> string \<Rightarrow> RemotingCommand \<Rightarrow>
   (string, TcpTransport) stdmap \<Rightarrow> ((string, TcpTransport) stdmap \<times> string \<times> int) result" where
  "invokeOneway connect alloc sendData addr request table =
     bind_r (GetAndCreateTransport connect alloc addr table) (\<lambda>(table', tts).
       case tts of
         Some t \<Rightarrow>
           if IsConnected t then
             (let (t', sent, request', r) = invokeOnewayImpl sendData t request
              in Inr (mput addr t' table', sent, r))
           else bind_r (RemoveTTS tts table') (\<lambda>table''. Inr (table'', [], - 1))
       | None \<Rightarrow> bind_r (RemoveTTS tts table') (\<lambda>table''. Inr (table'', [], - 1)))"

section \<open>State and requests\<close>

record ApiImpl =
  ap_projectGroupPrefix :: string
  ap_nameSrvAddr :: string
  ap_namesrvAddrList :: "string list"
  ap_seqNumber :: int
  ap_configVersion :: int

datatype CommunicationMode = SYNC | ASYNC | ONEWAY

type_synonym network = "string \<Rightarrow> RemotingCommand \<Rightarrow> RemotingCommand option"

definition SUCCESS_VALUE :: int where "SUCCESS_VALUE = 0"
definition SYSTEM_ERROR_VALUE :: int where "SYSTEM_ERROR_VALUE = 1"
definition FLUSH_DISK_TIMEOUT_VALUE :: int where "FLUSH_DISK_TIMEOUT_VALUE = 10"
definition SLAVE_NOT_AVAILABLE_VALUE :: int where "SLAVE_NOT_AVAILABLE_VALUE = 11"
definition FLUSH_SLAVE_TIMEOUT_VALUE :: int where "FLUSH_SLAVE_TIMEOUT_VALUE = 12"
definition SERVICE_NOT_AVAILABLE_VALUE :: int where "SERVICE_NOT_AVAILABLE_VALUE = 14"
definition NO_PERMISSION_VALUE :: int where "NO_PERMISSION_VALUE = 16"
definition TOPIC_NOT_EXIST_VALUE :: int where "TOPIC_NOT_EXIST_VALUE = 17"
definition PULL_NOT_FOUND_VALUE :: int where "PULL_NOT_FOUND_VALUE = 19"
definition PULL_RETRY_IMMEDIATELY_VALUE :: int where "PULL_RETRY_IMMEDIATELY_VALUE = 20"
definition PULL_OFFSET_MOVED_VALUE :: int where "PULL_OFFSET_MOVED_VALUE = 21"

definition UPDATE_CONSUMER_OFFSET_VALUE :: int where "UPDATE_CONSUMER_OFFSET_VALUE = 15"
definition UPDATE_AND_CREATE_TOPIC_VALUE :: int where "UPDATE_AND_CREATE_TOPIC_VALUE = 17"
definition CONSUMER_SEND_MSG_BACK_VALUE :: int where "CONSUMER_SEND_MSG_BACK_VALUE = 36"
definition GET_CONSUMER_LIST_BY_GROUP_VALUE :: int where "GET_CONSUMER_LIST_BY_GROUP_VALUE = 38"
definition LOCK_BATCH_MQ_VALUE :: int where "LOCK_BATCH_MQ_VALUE = 41"
definition UNLOCK_BATCH_MQ_VALUE :: int where "UNLOCK_BATCH_MQ_VALUE = 42"
definition GET_ROUTEINTO_BY_TOPIC_VALUE :: int where "GET_ROUTEINTO_BY_TOPIC_VALUE = 105"

lemmas code_defs = SUCCESS_VALUE_def SYSTEM_ERROR_VALUE_def FLUSH_DISK_TIMEOUT_VALUE_def
  SLAVE_NOT_AVAILABLE_VALUE_def FLUSH_SLAVE_TIMEOUT_VALUE_def SERVICE_NOT_AVAILABLE_VALUE_def
  NO_PERMISSION_VALUE_def TOPIC_NOT_EXIST_VALUE_def PULL_NOT_FOUND_VALUE_def
  PULL_RETRY_IMMEDIATELY_VALUE_def PULL_OFFSET_MOVED_VALUE_def

text \<open>A command with its header and body, encoded; it takes the next sequence number.\<close>

definition new_request ::
  "endian \<Rightarrow> int \<Rightarrow> CommandCustomHeader option \<Rightarrow> string option \<Rightarrow> ApiImpl \<Rightarrow> RemotingCommand \<times> ApiImpl" where
  "new_request e code header body api =
     (let (cmd, seq', ver') = createRequestCommand code header (ap_seqNumber api, ap_configVersion api);
          cmd1 = (case body of None \<Rightarrow> cmd | Some b \<Rightarrow> SetBody (Some b) (isize b) cmd)
      in (Encode_cmd e cmd1, api\<lparr>ap_seqNumber := seq', ap_configVersion := ver'\<rparr>))"

definition with_prefix :: "ApiImpl \<Rightarrow> string \<Rightarrow> string result" where
  "with_prefix api s =
     (if \<not> isBlank (ap_projectGroupPrefix api) then buildWithProjectGroup s (ap_projectGroupPrefix api) else Inr s)"

section \<open>Name servers\<close>

definition updateNameServerAddressList :: "string \<Rightarrow> ApiImpl \<Rightarrow> ApiImpl" where
  "updateNameServerAddressList addrs api =
     (let av = Split [] addrs '';'';
          api1 = api\<lparr>ap_nameSrvAddr := addrs\<rparr>
      in fold (\<lambda>i a. a\<lparr>ap_namesrvAddrList := take (Suc i) av\<rparr>) [0 ..< length av] api1)"

definition fetchNameServerAddr :: "string result \<Rightarrow> ApiImpl \<Rightarrow> ApiImpl \<times> string" where
  "fetchNameServerAddr fetched api =
     (case fetched of
        Inl x \<Rightarrow> (api, ap_nameSrvAddr api)
      | Inr addrs \<Rightarrow>
          if addrs \<noteq> [] \<and> addrs \<noteq> ap_nameSrvAddr api then
            (let api' = (updateNameServerAddressList addrs api)\<lparr>ap_nameSrvAddr := addrs\<rparr>
             in (api', ap_nameSrvAddr api'))
          else (api, ap_nameSrvAddr api))"

text \<open>A body is read as text up to a NUL byte.\<close>

definition route_answer ::
  "RemotingCommand option \<Rightarrow> TopicRouteData option result" where
  "route_answer response =
     (case response of
        None \<Rightarrow> Inr None
      | Some r \<Rightarrow>
          if rc_code r = SUCCESS_VALUE \<and> rc_body r \<noteq> None then TopicRouteData_Decode (c_str (the (rc_body r)))
          else Inl (MQClientException (rc_remark r) (rc_code r)))"

definition getDefaultTopicRouteInfoFromNameServer ::
  "endian \<Rightarrow> network \<Rightarrow> string \<Rightarrow> ApiImpl \<Rightarrow> ApiImpl \<times> TopicRouteData option result" where
  "getDefaultTopicRouteInfoFromNameServer e net topic api =
     (let (request, api') = new_request e GET_ROUTEINTO_BY_TOPIC_VALUE (Some (GetRouteInfoRequestHeader topic)) None api
      in (api', route_answer (net (ap_nameSrvAddr api') request)))"

definition getTopicRouteInfoFromNameServer ::
  "endian \<Rightarrow> network \<Rightarrow> string \<Rightarrow> ApiImpl \<Rightarrow> ApiImpl \<times> TopicRouteData option result" where
  "getTopicRouteInfoFromNameServer e net topic api =
     (case with_prefix api topic of
        Inl x \<Rightarrow> (api, Inl x)
      | Inr topicWithProjectGroup \<Rightarrow>
          (let (request, api') = new_request e GET_ROUTEINTO_BY_TOPIC_VALUE
                 (Some (GetRouteInfoRequestHeader topicWithProjectGroup)) None api
           in (api', route_answer (net (ap_nameSrvAddr api') request))))"

section \<open>Administration\<close>

definition plain_answer :: "string \<Rightarrow> RemotingCommand option \<Rightarrow> unit result" where
  "plain_answer failed response =
     (case response of
        None \<Rightarrow> Inl (MQClientException failed (- 1))
      | Some r \<Rightarrow> if rc_code r = SUCCESS_VALUE then Inr () else Inl (MQClientException (rc_remark r) (rc_code r)))"

text \<open>
  The filter type of the header is a string to which the enumerator is assigned: the string of
  the one character with that code. Beside the state the call returns the request it sent.
\<close>

definition filter_string :: "TopicFilterType \<Rightarrow> string" where
  "filter_string ft = [char_of (nat (filter_code ft))]"

definition createTopic_api ::
  "endian \<Rightarrow> network \<Rightarrow> string \<Rightarrow> string \<Rightarrow> TopicConfig \<Rightarrow> ApiImpl \<Rightarrow>
   ApiImpl \<times> (string \<times> RemotingCommand) list \<times> unit result" where
  "createTopic_api e net addr defaultTopic tc api =
     (case with_prefix api (tc_topicName tc) of
        Inl x \<Rightarrow> (api, [], Inl x)
      | Inr topicWithProjectGroup \<Rightarrow>
          (let (request, api') = new_request e UPDATE_AND_CREATE_TOPIC_VALUE
                 (Some (CreateTopicRequestHeader topicWithProjectGroup defaultTopic (tc_readQueueNums tc) (tc_writeQueueNums tc)
                          (tc_perm tc) (filter_string (tc_topicFilterType tc)))) None api
           in (api', [(addr, request)], plain_answer ''createTopic failed'' (net addr request))))"

definition GetConsumerListByGroupResponseBody_Decode ::
  "string \<Rightarrow> string list option result" where
  "GetConsumerListByGroupResponseBody_Decode pData =
     bind_r (json_parse pData) (\<lambda>parsed. case parsed of
        None \<Rightarrow> Inr None
      | Some object \<Rightarrow>
          bind_r (bind_r (jget object ''consumerIdList'') jelems) (\<lambda>ext.
          bind_r (map_r asString (filter (\<lambda>v. v \<noteq> JNull) ext)) (\<lambda>consumers. Inr (Some consumers))))"

definition getConsumerIdListByGroup ::
  "endian \<Rightarrow> network \<Rightarrow> string \<Rightarrow> string \<Rightarrow> ApiImpl \<Rightarrow> ApiImpl \<times> string list result" where
  "getConsumerIdListByGroup e net addr consumerGroup api =
     (case with_prefix api consumerGroup of
        Inl x \<Rightarrow> (api, Inl x)
      | Inr grp \<Rightarrow>
          (let (request, api') = new_request e GET_CONSUMER_LIST_BY_GROUP_VALUE
                 (Some (GetConsumerListByGroupRequestHeader grp)) None api
           in (api',
               (case net addr request of
                  None \<Rightarrow> Inl (MQClientException ''getConsumerIdListByGroup failed'' (- 1))
                | Some r \<Rightarrow>
                    if rc_code r = SUCCESS_VALUE \<and> rc_body r \<noteq> None then
                      bind_r (GetConsumerListByGroupResponseBody_Decode (c_str (the (rc_body r)))) (\<lambda>body.
                        case body of None \<Rightarrow> Inl Undefined | Some ids \<Rightarrow> Inr ids)
                    else Inl (MQClientException (rc_remark r) (rc_code r))))))"

section \<open>Sending\<close>

text \<open>A header of another class, or none, is read through a cast pointer.\<close>

definition processSendResponse ::
  "string \<Rightarrow> string \<Rightarrow> RemotingCommand option \<Rightarrow> ApiImpl \<Rightarrow> SendResult option result" where
  "processSendResponse brokerName topic pResponse api =
     (case pResponse of
        None \<Rightarrow> Inr None
      | Some r \<Rightarrow>
          if rc_code r \<in> {FLUSH_DISK_TIMEOUT_VALUE, FLUSH_SLAVE_TIMEOUT_VALUE, SLAVE_NOT_AVAILABLE_VALUE, SUCCESS_VALUE} then
            (let sendStatus = (if rc_code r = FLUSH_DISK_TIMEOUT_VALUE then FLUSH_DISK_TIMEOUT
                               else if rc_code r = FLUSH_SLAVE_TIMEOUT_VALUE then FLUSH_SLAVE_TIMEOUT
                               else if rc_code r = SLAVE_NOT_AVAILABLE_VALUE then SLAVE_NOT_AVAILABLE
                               else SEND_OK)
             in case rc_customHeader r of
                  Some (SendMessageResponseHeader msgId queueId queueOffset) \<Rightarrow>
                    bind_r (SendResult_new sendStatus msgId (MessageQueue topic brokerName queueId) queueOffset
                              (ap_projectGroupPrefix api)) (\<lambda>s. Inr (Some s))
                | _ \<Rightarrow> Inl Undefined)
          else Inl (MQClientException (rc_remark r) (rc_code r)))"

text \<open>
  \<^verbatim>\<open>sendMessage\<close> returns the state, the request that goes out, the message (its topic may be
  rewritten) and the result. In the other two modes and without an answer the result is the
  default one.
\<close>

definition sendMessage ::
  "endian \<Rightarrow> network \<Rightarrow> string \<Rightarrow> string \<Rightarrow> 'a Message_scheme \<Rightarrow> CommandCustomHeader \<Rightarrow> CommunicationMode \<Rightarrow>
   ApiImpl \<Rightarrow> ApiImpl \<times> (string \<times> RemotingCommand) list \<times> 'a Message_scheme \<times> SendResult result" where
  "sendMessage e net addr brokerName msg hdr mode api =
     (case (with_prefix api (m_topic msg), with_prefix api (sm_producerGroup hdr), with_prefix api (sm_topic hdr)) of
        (Inr t, Inr g, Inr ht) \<Rightarrow>
          (let msg' = (if \<not> isBlank (ap_projectGroupPrefix api) then setTopic_msg t msg else msg);
               hdr' = SendMessageRequestHeader g ht (sm_defaultTopic hdr) (sm_defaultTopicQueueNums hdr) (sm_queueId hdr)
                        (sm_sysFlag hdr) (sm_bornTimestamp hdr) (sm_flag hdr) (sm_properties hdr) (sm_reconsumeTimes hdr);
               (cmd, seq', ver') = createRequestCommand SEND_MESSAGE_VALUE (Some hdr') (ap_seqNumber api, ap_configVersion api);
               request = Encode_cmd e (SetBody (m_body msg') (m_bodyLen msg') cmd);
               api' = api\<lparr>ap_seqNumber := seq', ap_configVersion := ver'\<rparr>
           in (api', [(addr, request)], msg',
               (case mode of
                  ONEWAY \<Rightarrow> Inr SendResult_default
                | ASYNC \<Rightarrow> Inr SendResult_default
                | SYNC \<Rightarrow>
                    bind_r (processSendResponse brokerName (m_topic msg') (net addr request) api') (\<lambda>r.
                      Inr (case r of Some s \<Rightarrow> s | None \<Rightarrow> SendResult_default)))))
      | _ \<Rightarrow> (api, [], msg, Inl Undefined))"

text \<open>What \<^verbatim>\<open>ProducerInvokeCallback::operationComplete\<close> tells the callback of an asynchronous send.\<close>

datatype 'a callback_event = OnSuccess 'a | OnException error | NoCallback

definition producer_operationComplete ::
  "bool \<Rightarrow> string \<Rightarrow> string \<Rightarrow> RemotingCommand option \<Rightarrow> bool \<Rightarrow> bool \<Rightarrow> ApiImpl \<Rightarrow> SendResult callback_event result" where
  "producer_operationComplete present brokerName topic response sendRequestOK timedOut api =
     (if \<not> present then Inr NoCallback
      else case response of
             Some r \<Rightarrow>
               (case processSendResponse brokerName topic (Some r) api of
                  Inr (Some s) \<Rightarrow> Inr (OnSuccess s)
                | Inr None \<Rightarrow> Inl Undefined
                | Inl Undefined \<Rightarrow> Inl Undefined
                | Inl x \<Rightarrow> Inr (OnException x))
           | None \<Rightarrow>
               if \<not> sendRequestOK then Inr (OnException (MQClientException ''send request failed'' (- 1)))
               else if timedOut then Inr (OnException (MQClientException ''wait response timeout'' (- 1)))
               else Inr (OnException (MQClientException ''unknow reseaon'' (- 1))))"

section \<open>Pulling\<close>

datatype PullStatus = FOUND | NO_NEW_MSG | NO_MATCHED_MSG | OFFSET_ILLEGAL

record PullResult =
  px_pullStatus :: PullStatus
  px_nextBeginOffset :: int
  px_minOffset :: int
  px_maxOffset :: int
  px_msgFoundList :: "MessageExt list"
  px_suggestWhichBrokerId :: int
  px_messageBinary :: "string option"
  px_messageBinaryLen :: int

definition processPullResponse :: "RemotingCommand option \<Rightarrow> PullResult result" where
  "processPullResponse pResponse =
     (case pResponse of
        None \<Rightarrow> Inl Undefined
      | Some r \<Rightarrow>
          bind_r (if rc_code r = SUCCESS_VALUE then Inr FOUND
                  else if rc_code r = PULL_NOT_FOUND_VALUE then Inr NO_NEW_MSG
                  else if rc_code r = PULL_RETRY_IMMEDIATELY_VALUE then Inr NO_MATCHED_MSG
                  else if rc_code r = PULL_OFFSET_MOVED_VALUE then Inr OFFSET_ILLEGAL
                  else Inl (MQBrokerException (rc_remark r) (rc_code r))) (\<lambda>pullStatus.
          case rc_customHeader r of
            Some (PullMessageResponseHeader suggest nextBegin mn mx) \<Rightarrow>
              Inr \<lparr>px_pullStatus = pullStatus, px_nextBeginOffset = nextBegin, px_minOffset = mn, px_maxOffset = mx,
                   px_msgFoundList = [], px_suggestWhichBrokerId = suggest, px_messageBinary = rc_body r,
                   px_messageBinaryLen = rc_bodyLen r\<rparr>
          | _ \<Rightarrow> Inl Undefined))"

text \<open>
  \<^verbatim>\<open>pullMessage\<close>: only the synchronous mode has a result. \<^verbatim>\<open>pullMessageAsync\<close> ignores what \<^verbatim>\<open>invokeAsync\<close>
  returns: when there is no connection, or the write fails, nothing is sent, no callback is
  called and no exception is raised. \<open>sends\<close> tells which asynchronous requests go out.
\<close>

definition pullMessage ::
  "endian \<Rightarrow> network \<Rightarrow> (string \<Rightarrow> RemotingCommand \<Rightarrow> bool) \<Rightarrow> string \<Rightarrow> CommandCustomHeader \<Rightarrow> CommunicationMode \<Rightarrow> ApiImpl \<Rightarrow>
   ApiImpl \<times> (string \<times> RemotingCommand) list \<times> PullResult option result" where
  "pullMessage e net sends addr hdr mode api =
     (case (with_prefix api (pm_consumerGroup hdr), with_prefix api (pm_topic hdr)) of
        (Inr g, Inr t) \<Rightarrow>
          (let hdr' = PullMessageRequestHeader g t (pm_queueId hdr) (pm_queueOffset hdr) (pm_maxMsgNums hdr)
                        (pm_sysFlag hdr) (pm_commitOffset hdr) (pm_suspendTimeoutMillis hdr) (pm_subscription hdr) (pm_subVersion hdr);
               (request, api') = new_request e PULL_MESSAGE_VALUE (Some hdr') None api
           in (case mode of
                 ONEWAY \<Rightarrow> (api', [], Inr None)
               | ASYNC \<Rightarrow> (api', (if sends addr request then [(addr, request)] else []), Inr None)
               | SYNC \<Rightarrow> (api', [(addr, request)], bind_r (processPullResponse (net addr request)) (\<lambda>p. Inr (Some p)))))
      | _ \<Rightarrow> (api, [], Inl Undefined))"

definition consumer_operationComplete ::
  "bool \<Rightarrow> RemotingCommand option \<Rightarrow> bool \<Rightarrow> bool \<Rightarrow> PullResult callback_event result" where
  "consumer_operationComplete present response sendRequestOK timedOut =
     (if \<not> present then Inr NoCallback
      else case response of
             Some r \<Rightarrow>
               (case processPullResponse (Some r) of
                  Inr p \<Rightarrow> Inr (OnSuccess p)
                | Inl Undefined \<Rightarrow> Inl Undefined
                | Inl x \<Rightarrow> Inr (OnException x))
           | None \<Rightarrow>
               if \<not> sendRequestOK then Inr (OnException (MQClientException ''send request failed'' (- 1)))
               else if timedOut then Inr (OnException (MQClientException ''wait response timeout'' (- 1)))
               else Inr (OnException (MQClientException ''unknow reseaon'' (- 1))))"

section \<open>Consumer offsets and locks\<close>

definition queryConsumerOffset ::
  "endian \<Rightarrow> network \<Rightarrow> string \<Rightarrow> CommandCustomHeader \<Rightarrow> ApiImpl \<Rightarrow> ApiImpl \<times> int result" where
  "queryConsumerOffset e net addr hdr api =
     (case (with_prefix api (qo_consumerGroup hdr), with_prefix api (qo_topic hdr)) of
        (Inr g, Inr t) \<Rightarrow>
          (let (request, api') = new_request e QUERY_CONSUMER_OFFSET_VALUE
                 (Some (QueryConsumerOffsetRequestHeader g t (qo_queueId hdr))) None api
           in (api',
               (case net addr request of
                  None \<Rightarrow> Inr (- 1)
                | Some r \<Rightarrow>
                    if rc_code r = SUCCESS_VALUE then
                      (case rc_customHeader r of
                         Some (QueryConsumerOffsetResponseHeader offset) \<Rightarrow> Inr offset
                       | _ \<Rightarrow> Inl Undefined)
                    else Inr (- 1))))
      | _ \<Rightarrow> (api, Inl Undefined))"

definition updateConsumerOffsetOneway ::
  "endian \<Rightarrow> string \<Rightarrow> CommandCustomHeader \<Rightarrow> ApiImpl \<Rightarrow> ApiImpl \<times> (string \<times> RemotingCommand) list \<times> unit result" where
  "updateConsumerOffsetOneway e addr hdr api =
     (case (with_prefix api (uo_consumerGroup hdr), with_prefix api (uo_topic hdr)) of
        (Inr g, Inr t) \<Rightarrow>
          (let (request, api') = new_request e UPDATE_CONSUMER_OFFSET_VALUE
                 (Some (UpdateConsumerOffsetRequestHeader g t (uo_queueId hdr) (uo_commitOffset hdr))) None api
           in (api', [(addr, request)], Inr ()))
      | _ \<Rightarrow> (api, [], Inl Undefined))"

definition inet_ntoa :: "endian \<Rightarrow> int \<Rightarrow> string" where
  "inet_ntoa e a = join ''.'' (map (\<lambda>b. show_nat (of_char b)) (store e 4 a))"

definition socketAddress2IPPort :: "endian \<Rightarrow> sockaddr \<Rightarrow> string" where
  "socketAddress2IPPort e addr = inet_ntoa e (s_addr addr) @ '':'' @ show_int (ntohs e (sin_port addr))"

definition consumerSendMessageBack ::
  "endian \<Rightarrow> network \<Rightarrow> MessageExt \<Rightarrow> string \<Rightarrow> int \<Rightarrow> ApiImpl \<Rightarrow> ApiImpl \<times> MessageExt \<times> unit result" where
  "consumerSendMessageBack e net msg consumerGroup delayLevel api =
     (case (with_prefix api consumerGroup, with_prefix api (m_topic msg), m_storeHost msg) of
        (Inr g, Inr t, Some host) \<Rightarrow>
          (let msg' = (if \<not> isBlank (ap_projectGroupPrefix api) then setTopic_msg t msg else msg);
               (request, api') = new_request e CONSUMER_SEND_MSG_BACK_VALUE
                 (Some (ConsumerSendMsgBackRequestHeader (m_commitLogOffset msg) g delayLevel)) None api
           in (api', msg', plain_answer ''consumerSendMessageBack failed'' (net (socketAddress2IPPort e host) request)))
      | _ \<Rightarrow> (api, msg, Inl Undefined))"

text \<open>
  The bodies of the lock requests encode to nothing and the response decodes to the empty set,
  whatever the broker sends. Neither function reads its argument.
\<close>

definition LockBatchRequestBody_Encode :: "string \<Rightarrow> string \<Rightarrow> MessageQueue list \<Rightarrow> string" where
  "LockBatchRequestBody_Encode consumerGroup clientId mqSet = []"

definition LockBatchResponseBody_Decode :: "string \<Rightarrow> MessageQueue list" where
  "LockBatchResponseBody_Decode pData = []"

definition lockBatchMQ ::
  "endian \<Rightarrow> network \<Rightarrow> string \<Rightarrow> string \<Rightarrow> string \<Rightarrow> MessageQueue list \<Rightarrow> ApiImpl \<Rightarrow> ApiImpl \<times> MessageQueue list result" where
  "lockBatchMQ e net addr consumerGroup clientId mqSet api =
     (case (with_prefix api consumerGroup, map_r (\<lambda>q. bind_r (with_prefix api (getTopic q)) (\<lambda>t. Inr (setTopic_mq q t))) mqSet) of
        (Inr g, Inr mqs) \<Rightarrow>
          (let (request, api') = new_request e LOCK_BATCH_MQ_VALUE None (Some (LockBatchRequestBody_Encode g clientId mqs)) api
           in (api',
               (case net addr request of
                  None \<Rightarrow> Inl (MQClientException ''lockBatchMQ failed'' (- 1))
                | Some r \<Rightarrow>
                    if rc_code r = SUCCESS_VALUE then
                      map_r (\<lambda>q. if \<not> isBlank (ap_projectGroupPrefix api)
                                 then bind_r (clearProjectGroup (getTopic q) (ap_projectGroupPrefix api)) (\<lambda>t. Inr (setTopic_mq q t))
                                 else Inr q)
                        (LockBatchResponseBody_Decode (case rc_body r of None \<Rightarrow> [] | Some b \<Rightarrow> b))
                    else Inl (MQClientException (rc_remark r) (rc_code r)))))
      | _ \<Rightarrow> (api, Inl Undefined))"

definition unlockBatchMQ ::
  "endian \<Rightarrow> network \<Rightarrow> string \<Rightarrow> string \<Rightarrow> string \<Rightarrow> MessageQueue list \<Rightarrow> bool \<Rightarrow> ApiImpl \<Rightarrow> ApiImpl \<times> unit result" where
  "unlockBatchMQ e net addr consumerGroup clientId mqSet oneway api =
     (case (with_prefix api consumerGroup, map_r (\<lambda>q. bind_r (with_prefix api (getTopic q)) (\<lambda>t. Inr (setTopic_mq q t))) mqSet) of
        (Inr g, Inr mqs) \<Rightarrow>
          (let (request, api') = new_request e UNLOCK_BATCH_MQ_VALUE None (Some (LockBatchRequestBody_Encode g clientId mqs)) api
           in (api', if oneway then Inr () else plain_answer ''unlockBatchMQ failed'' (net addr request)))
      | _ \<Rightarrow> (api, Inl Undefined))"

end
