(* ===== verification/Offsets.thy ===== *)
theory Offsets
  imports Api
begin

text \<open>
  Consumer offsets: \<^verbatim>\<open>src/src/consumer/RemoteBrokerOffsetStore.cpp\<close> keeps them in memory, reads them
  from and writes them to the brokers; \<^verbatim>\<open>src/src/consumer/LocalFileOffsetStore.cpp\<close> is empty. The
  contract the consumers rely on is the locale \<open>offset_memory\<close>.
\<close>

section \<open>The client around a store\<close>

text \<open>
  What the outside answers: the byte order, the network, the requests whose asynchronous sending
  succeeds (\<^verbatim>\<open>invokeAsync\<close> returns 0: a connection exists or could be made, and the write succeeds), the
  try-locks of the factory for routes and for heartbeats.
\<close>

record ClientEnv =
  en_endian :: endian
  en_net :: network
  en_sends :: "string \<Rightarrow> RemotingCommand \<Rightarrow> bool"
  en_trylock :: bool
  en_lockHeartbeat :: bool

record Client =
  cl_factory :: ClientFactory
  cl_api :: ApiImpl

text \<open>\<^verbatim>\<open>updateTopicRouteInfoFromNameServer(topic)\<close> with the request to the name server.\<close>

definition refresh_route :: "ClientEnv \<Rightarrow> string \<Rightarrow> Client \<Rightarrow> (Client \<times> bool) result" where
  "refresh_route env topic c =
     (if \<not> en_trylock env then Inr (c, False)
      else
        (let (api', answer) = getTopicRouteInfoFromNameServer (en_endian env) (en_net env) topic (cl_api c)
         in case updateTopicRouteInfoFromNameServer True answer topic (cl_factory c) of
              Inl x \<Rightarrow> Inl x
            | Inr (f', b) \<Rightarrow> Inr (\<lparr>cl_factory = f', cl_api = api'\<rparr>, b)))"

text \<open>The lookup of a broker that asks the name server once when the broker is not known.\<close>

definition find_or_refresh ::
  "(ClientFactory \<Rightarrow> FindBrokerResult result) \<Rightarrow> ClientEnv \<Rightarrow> string \<Rightarrow> Client \<Rightarrow> (Client \<times> FindBrokerResult) result" where
  "find_or_refresh look env topic c =
     bind_r (look (cl_factory c)) (\<lambda>r.
       if fb_brokerAddr r = [] then
         bind_r (refresh_route env topic c) (\<lambda>(c', b). bind_r (look (cl_factory c')) (\<lambda>r'. Inr (c', r')))
       else Inr (c, r))"

section \<open>RemoteBrokerOffsetStore\<close>

datatype ReadOffsetType = READ_FROM_MEMORY | READ_FROM_STORE | MEMORY_FIRST_THEN_STORE

record RemoteBrokerOffsetStore =
  os_groupName :: string
  os_offsetTable :: "(MessageQueue, int) stdmap"
  os_storeTimesTotal :: int

definition RemoteBrokerOffsetStore_new :: "string \<Rightarrow> RemoteBrokerOffsetStore" where
  "RemoteBrokerOffsetStore_new groupName =
     \<lparr>os_groupName = groupName, os_offsetTable = [], os_storeTimesTotal = 0\<rparr>"

text \<open>The table is locked, so the compare-and-set loop runs without interference.\<close>

definition updateOffset ::
  "MessageQueue \<Rightarrow> int \<Rightarrow> bool \<Rightarrow> RemoteBrokerOffsetStore \<Rightarrow> RemoteBrokerOffsetStore" where
  "updateOffset mq offset increaseOnly st =
     (case mget (os_offsetTable st) mq of
        Some cur \<Rightarrow>
          if increaseOnly
          then st\<lparr>os_offsetTable := mput mq (snd (compareAndIncreaseOnly [] cur offset)) (os_offsetTable st)\<rparr>
          else st\<lparr>os_offsetTable := mput mq offset (os_offsetTable st)\<rparr>
      | None \<Rightarrow> st\<lparr>os_offsetTable := mput mq offset (os_offsetTable st)\<rparr>)"

definition fetchConsumeOffsetFromBroker ::
  "ClientEnv \<Rightarrow> MessageQueue \<Rightarrow> RemoteBrokerOffsetStore \<Rightarrow> Client \<Rightarrow> (Client \<times> int) result" where
  "fetchConsumeOffsetFromBroker env mq st c =
     bind_r (find_or_refresh (\<lambda>f. Inr (findBrokerAddressInAdmin (getBrokerName mq) f)) env (getTopic mq) c) (\<lambda>(c', r).
       if fb_brokerAddr r \<noteq> [] then
         (let (api', ans) = queryConsumerOffset (en_endian env) (en_net env) (fb_brokerAddr r)
                (QueryConsumerOffsetRequestHeader (os_groupName st) (getTopic mq) (getQueueId mq)) (cl_api c')
          in bind_r ans (\<lambda>offset. Inr (c'\<lparr>cl_api := api'\<rparr>, offset)))
       else Inr (c', - 1))"

definition read_store ::
  "ClientEnv \<Rightarrow> MessageQueue \<Rightarrow> RemoteBrokerOffsetStore \<Rightarrow> Client \<Rightarrow> (RemoteBrokerOffsetStore \<times> Client \<times> int) result" where
  "read_store env mq st c =
     (case fetchConsumeOffsetFromBroker env mq st c of
        Inl (MQClientException m n) \<Rightarrow> Inr (st, c, - 1)
      | Inl x \<Rightarrow> Inl x
      | Inr (c', brokerOffset) \<Rightarrow>
          Inr (if brokerOffset \<ge> 0 then updateOffset mq brokerOffset False st else st, c', brokerOffset))"

definition readOffset ::
  "ClientEnv \<Rightarrow> MessageQueue \<Rightarrow> ReadOffsetType \<Rightarrow> RemoteBrokerOffsetStore \<Rightarrow> Client \<Rightarrow>
   (RemoteBrokerOffsetStore \<times> Client \<times> int) result" where
  "readOffset env mq type st c =
     (case type of
        READ_FROM_STORE \<Rightarrow> read_store env mq st c
      | _ \<Rightarrow>
          (case mget (os_offsetTable st) mq of
             Some v \<Rightarrow> Inr (st, c, v)
           | None \<Rightarrow> if type = READ_FROM_MEMORY then Inr (st, c, - 1) else read_store env mq st c))"

definition updateConsumeOffsetToBroker ::
  "ClientEnv \<Rightarrow> MessageQueue \<Rightarrow> int \<Rightarrow> RemoteBrokerOffsetStore \<Rightarrow> Client \<Rightarrow>
   (Client \<times> (string \<times> RemotingCommand) list) result" where
  "updateConsumeOffsetToBroker env mq offset st c =
     bind_r (find_or_refresh (\<lambda>f. Inr (findBrokerAddressInAdmin (getBrokerName mq) f)) env (getTopic mq) c) (\<lambda>(c', r).
       if fb_brokerAddr r \<noteq> [] then
         (let (api', out, ans) = updateConsumerOffsetOneway (en_endian env) (fb_brokerAddr r)
                (UpdateConsumerOffsetRequestHeader (os_groupName st) (getTopic mq) (getQueueId mq) offset) (cl_api c')
          in bind_r ans (\<lambda>_. Inr (c'\<lparr>cl_api := api'\<rparr>, out)))
       else Inr (c', []))"

fun persist_loop ::
  "ClientEnv \<Rightarrow> RemoteBrokerOffsetStore \<Rightarrow> (MessageQueue \<times> int) list \<Rightarrow> Client \<Rightarrow>
   (Client \<times> (string \<times> RemotingCommand) list) result" where
  "persist_loop env st [] c = Inr (c, [])"
| "persist_loop env st ((mq, offset) # rest) c =
     (case updateConsumeOffsetToBroker env mq offset st c of
        Inl (MQClientException m n) \<Rightarrow> persist_loop env st rest c
      | Inl x \<Rightarrow> Inl x
      | Inr (c', out) \<Rightarrow> bind_r (persist_loop env st rest c') (\<lambda>(c'', out'). Inr (c'', out @ out')))"

definition persistAll ::
  "ClientEnv \<Rightarrow> MessageQueue list \<Rightarrow> RemoteBrokerOffsetStore \<Rightarrow> Client \<Rightarrow>
   (RemoteBrokerOffsetStore \<times> Client \<times> (string \<times> RemotingCommand) list) result" where
  "persistAll env mqs st c =
     (if mqs = [] then Inr (st, c, [])
      else
        let tmp = filter (\<lambda>(mq, v). mq \<in> set mqs) (os_offsetTable st);
            st' = st\<lparr>os_storeTimesTotal := i64 (os_storeTimesTotal st + 1), os_offsetTable := tmp\<rparr>
        in bind_r (persist_loop env st' tmp c) (\<lambda>(c', out). Inr (st', c', out)))"

text \<open>The flag that says that the queue was found is not set.\<close>

definition persist ::
  "ClientEnv \<Rightarrow> MessageQueue \<Rightarrow> RemoteBrokerOffsetStore \<Rightarrow> Client \<Rightarrow>
   (Client \<times> (string \<times> RemotingCommand) list) result" where
  "persist env mq st c =
     (let find = False; offset = mget (os_offsetTable st) mq in
      if find then
        (case offset of
           None \<Rightarrow> Inl Undefined
         | Some v \<Rightarrow>
             (case updateConsumeOffsetToBroker env mq v st c of
                Inl (MQClientException m n) \<Rightarrow> Inr (c, [])
              | r \<Rightarrow> r))
      else Inr (c, []))"

definition removeOffset :: "MessageQueue \<Rightarrow> RemoteBrokerOffsetStore \<Rightarrow> RemoteBrokerOffsetStore" where
  "removeOffset mq st = st\<lparr>os_offsetTable := mdel mq (os_offsetTable st)\<rparr>"

section \<open>LocalFileOffsetStore\<close>

record LocalFileOffsetStore =
  lf_groupName :: string
  lf_storePath :: string

definition LocalFileOffsetStore_new :: "ClientFactory \<Rightarrow> string \<Rightarrow> LocalFileOffsetStore" where
  "LocalFileOffsetStore_new f groupName =
     \<lparr>lf_groupName = groupName, lf_storePath = f_clientId f @ ''/'' @ groupName @ ''/offsets.json''\<rparr>"

definition lf_updateOffset :: "MessageQueue \<Rightarrow> int \<Rightarrow> bool \<Rightarrow> LocalFileOffsetStore \<Rightarrow> LocalFileOffsetStore" where
  "lf_updateOffset mq offset increaseOnly st = st"

definition lf_readOffset :: "MessageQueue \<Rightarrow> ReadOffsetType \<Rightarrow> LocalFileOffsetStore \<Rightarrow> int" where
  "lf_readOffset mq type st = - 1"

section \<open>The contract of an offset store\<close>

text \<open>
  What a consumer relies on: an update sets the offset of its queue and of no other, an
  increase-only update never lowers it, an erased queue has none.
\<close>

locale offset_memory =
  fixes upd :: "'q \<Rightarrow> int \<Rightarrow> bool \<Rightarrow> 's \<Rightarrow> 's"
    and rem :: "'q \<Rightarrow> 's \<Rightarrow> 's"
    and look :: "'s \<Rightarrow> 'q \<Rightarrow> int option"
    and inv :: "'s \<Rightarrow> bool"
  assumes look_set: "inv s \<Longrightarrow> look (upd q v False s) = (look s)(q \<mapsto> v)"
    and look_inc: "inv s \<Longrightarrow> look (upd q v True s) = (look s)(q \<mapsto> (case look s q of None \<Rightarrow> v | Some c \<Rightarrow> max c v))"
    and look_rem: "inv s \<Longrightarrow> look (rem q s) = (look s)(q := None)"
    and inv_upd: "inv s \<Longrightarrow> inv (upd q v b s)"
    and inv_rem: "inv s \<Longrightarrow> inv (rem q s)"
begin

lemma inv_updates: "inv s \<Longrightarrow> inv (fold (\<lambda>(q, v). upd q v True) us s)"
  by (induction us arbitrary: s) (auto simp: inv_upd)

text \<open>Commits may arrive in any order: the offset of a queue is the largest one committed.\<close>

lemma look_updates:
  "inv s \<Longrightarrow> look (fold (\<lambda>(q, v). upd q v True) us s) q =
    (let vs = map snd (filter (\<lambda>u. fst u = q) us) in
     case look s q of
       None \<Rightarrow> if vs = [] then None else Some (fold max (tl vs) (hd vs))
     | Some c \<Rightarrow> Some (fold max vs c))"
proof (induction us arbitrary: s)
  case (Cons u us)
  obtain q' v where u: "u = (q', v)" by (cases u)
  show ?case
    using Cons.IH [OF inv_upd [OF Cons.prems, of q' v True]] look_inc [OF Cons.prems, of q' v]
    by (auto simp: u Let_def max.commute split: option.splits)
qed (auto split: option.splits)

lemma updates_monotone:
  assumes "inv s" "look s q = Some c"
  shows "\<exists>c'. look (fold (\<lambda>(q, v). upd q v True) us s) q = Some c' \<and> c \<le> c'"
proof -
  have "c \<le> fold max vs c" for vs :: "int list" and c
  proof (induction vs arbitrary: c)
    case (Cons v vs)
    from Cons.IH [of "max v c"] show ?case by simp
  qed simp
  then show ?thesis using look_updates [OF assms(1), of us q] assms(2) by (simp add: Let_def)
qed

lemma fold_max_mem: "fold max vs c \<in> insert c (set vs) \<and> (\<forall>v \<in> insert c (set vs). v \<le> fold max vs c)"
  for c :: int
proof (induction vs arbitrary: c)
  case (Cons v vs)
  from Cons.IH [of "max v c"] show ?case by (auto simp: max_def split: if_splits)
qed simp

end

definition os_ok :: "RemoteBrokerOffsetStore \<Rightarrow> bool" where
  "os_ok st \<longleftrightarrow> mok (os_offsetTable st)"

abbreviation os_look :: "RemoteBrokerOffsetStore \<Rightarrow> MessageQueue \<Rightarrow> int option" where
  "os_look st \<equiv> mget (os_offsetTable st)"

interpretation remote: offset_memory updateOffset removeOffset os_look os_ok
proof unfold_locales
  fix st :: RemoteBrokerOffsetStore and q v b
  assume ok: "os_ok st"
  show "os_look (updateOffset q v False st) = (os_look st)(q \<mapsto> v)"
    by (auto simp: updateOffset_def mget_mput split: option.splits)
  show "os_look (updateOffset q v True st) = (os_look st)(q \<mapsto> (case os_look st q of None \<Rightarrow> v | Some c \<Rightarrow> max c v))"
    by (auto simp: updateOffset_def mget_mput fun_eq_iff split: option.splits)
  show "os_look (removeOffset q st) = (os_look st)(q := None)"
    using ok by (simp add: removeOffset_def os_ok_def mget_mdel)
  show "os_ok (updateOffset q v b st)" "os_ok (removeOffset q st)"
    using ok by (auto simp: updateOffset_def removeOffset_def os_ok_def mok_mput mok_mdel split: option.splits)
qed

section \<open>Properties of the stores\<close>

text \<open>
  Property C27. The remote store keeps the largest offset committed for a queue: after any
  sequence of increase-only updates that mentions the queue, in whatever order they arrive,
  a read from memory returns the maximum of the old offset and the committed ones, whatever
  the client and the network are; a removed queue reads as -1.
\<close>

theorem offset_store_keeps_maximum:
  assumes "os_ok st" "os_look st q = Some c"
  shows "\<exists>m. readOffset env q READ_FROM_MEMORY (fold (\<lambda>(q, v). updateOffset q v True) us st) cl =
        Inr (fold (\<lambda>(q, v). updateOffset q v True) us st, cl, m) \<and>
      m \<in> insert c (snd ` {u \<in> set us. fst u = q}) \<and> (\<forall>v \<in> insert c (snd ` {u \<in> set us. fst u = q}). v \<le> m) \<and>
      readOffset env q READ_FROM_MEMORY (removeOffset q st) cl = Inr (removeOffset q st, cl, - 1)"
proof -
  let ?vs = "map snd (filter (\<lambda>u. fst u = q) us)"
  have "os_look (fold (\<lambda>(q, v). updateOffset q v True) us st) q = Some (fold max ?vs c)"
    using remote.look_updates [OF assms(1), of us q] assms(2) by (simp add: Let_def)
  moreover have "snd ` {u \<in> set us. fst u = q} = set ?vs" by auto
  moreover have "os_look (removeOffset q st) q = None" using remote.look_rem [OF assms(1)] by simp
  ultimately show ?thesis
    using remote.fold_max_mem [of ?vs c] by (auto simp: readOffset_def simp del: set_map set_filter)
qed

definition silent_env :: ClientEnv where
  "silent_env = \<lparr>en_endian = LE, en_net = (\<lambda>_ _. None), en_sends = (\<lambda>_ _. True), en_trylock = True, en_lockHeartbeat = True\<rparr>"

definition sample_api :: ApiImpl where
  "sample_api = \<lparr>ap_projectGroupPrefix = [], ap_nameSrvAddr = ''ns:9876'', ap_namesrvAddrList = [''ns:9876''],
     ap_seqNumber = 0, ap_configVersion = 19\<rparr>"

definition sample_client :: Client where
  "sample_client = \<lparr>cl_factory = sample_factory, cl_api = sample_api\<rparr>"

theorem offset_store_keeps_maximum_witness:
  "\<exists>m. readOffset silent_env (MessageQueue ''T'' ''a'' 0) READ_FROM_MEMORY
        (fold (\<lambda>(q, v). updateOffset q v True) [(MessageQueue ''T'' ''a'' 0, 7), (MessageQueue ''T'' ''a'' 0, 5)]
          (updateOffset (MessageQueue ''T'' ''a'' 0) 3 False (RemoteBrokerOffsetStore_new ''g''))) sample_client =
      Inr (updateOffset (MessageQueue ''T'' ''a'' 0) 7 False (RemoteBrokerOffsetStore_new ''g''), sample_client, m) \<and> m = 7"
proof -
  let ?q = "MessageQueue ''T'' ''a'' 0"
  let ?s = "updateOffset ?q 3 False (RemoteBrokerOffsetStore_new ''g'')"
  have "os_ok ?s" "os_look ?s ?q = Some 3"
    by (simp_all add: os_ok_def updateOffset_def RemoteBrokerOffsetStore_new_def)
  from offset_store_keeps_maximum [OF this, of silent_env "[(?q, 7), (?q, 5)]" sample_client]
  show ?thesis by (auto simp: updateOffset_def RemoteBrokerOffsetStore_new_def)
qed

lemma with_prefix_blank [simp]: "isBlank (ap_projectGroupPrefix api) \<Longrightarrow> with_prefix api s = Inr s"
  by (simp add: with_prefix_def)

lemma new_request_fields:
  assumes "new_request e code header body api = (cmd, api')"
  shows "rc_code cmd = code" "rc_customHeader cmd = header" "rc_opaque cmd = ap_seqNumber api"
    "rc_body cmd = body" "ap_projectGroupPrefix api' = ap_projectGroupPrefix api"
    "ap_nameSrvAddr api' = ap_nameSrvAddr api" "ap_seqNumber api' = i32 (ap_seqNumber api + 1)"
  using assms
  by (auto simp: new_request_def createRequestCommand_def RemotingCommand_request_def setCmdVersion_def
      Encode_cmd_def SetBody_def Let_def split: option.splits if_splits)

lemma updateOffset_request:
  assumes "isBlank (ap_projectGroupPrefix (cl_api c))"
    and "fb_brokerAddr (findBrokerAddressInAdmin (getBrokerName q) (cl_factory c)) \<noteq> []"
  shows "\<exists>c' cmd. updateConsumeOffsetToBroker env q v st c =
      Inr (c', [(fb_brokerAddr (findBrokerAddressInAdmin (getBrokerName q) (cl_factory c)), cmd)]) \<and>
    rc_code cmd = UPDATE_CONSUMER_OFFSET_VALUE \<and>
    rc_customHeader cmd = Some (UpdateConsumerOffsetRequestHeader (os_groupName st) (getTopic q) (getQueueId q) v) \<and>
    cl_factory c' = cl_factory c \<and> isBlank (ap_projectGroupPrefix (cl_api c'))"
proof -
  let ?h = "Some (UpdateConsumerOffsetRequestHeader (os_groupName st) (getTopic q) (getQueueId q) v)"
  obtain cmd api' where n: "new_request (en_endian env) UPDATE_CONSUMER_OFFSET_VALUE ?h None (cl_api c) = (cmd, api')"
    by (cases "new_request (en_endian env) UPDATE_CONSUMER_OFFSET_VALUE ?h None (cl_api c)")
  show ?thesis
    using assms new_request_fields [OF n]
    by (simp add: updateConsumeOffsetToBroker_def find_or_refresh_def updateConsumerOffsetOneway_def n)
qed

lemma persist_loop_sends:
  assumes "isBlank (ap_projectGroupPrefix (cl_api c))"
    and "\<forall>(q, v) \<in> set l. fb_brokerAddr (findBrokerAddressInAdmin (getBrokerName q) (cl_factory c)) \<noteq> []"
  shows "\<exists>c' out. persist_loop env st l c = Inr (c', out) \<and> cl_factory c' = cl_factory c \<and>
    map (\<lambda>(a, cmd). (a, rc_code cmd, rc_customHeader cmd)) out =
      map (\<lambda>(q, v). (fb_brokerAddr (findBrokerAddressInAdmin (getBrokerName q) (cl_factory c)), UPDATE_CONSUMER_OFFSET_VALUE,
        Some (UpdateConsumerOffsetRequestHeader (os_groupName st) (getTopic q) (getQueueId q) v))) l"
  using assms
proof (induction l arbitrary: c)
  case (Cons x l)
  obtain q v where x: "x = (q, v)" by (cases x)
  from updateOffset_request [OF Cons.prems(1), of q env v st] Cons.prems(2)
  obtain c1 cmd where u: "updateConsumeOffsetToBroker env q v st c =
      Inr (c1, [(fb_brokerAddr (findBrokerAddressInAdmin (getBrokerName q) (cl_factory c)), cmd)])"
    "rc_code cmd = UPDATE_CONSUMER_OFFSET_VALUE"
    "rc_customHeader cmd = Some (UpdateConsumerOffsetRequestHeader (os_groupName st) (getTopic q) (getQueueId q) v)"
    "cl_factory c1 = cl_factory c" "isBlank (ap_projectGroupPrefix (cl_api c1))"
    by (auto simp: x)
  from Cons.IH [OF u(5)] Cons.prems(2) u(4)
  obtain c2 out where "persist_loop env st l c1 = Inr (c2, out)" "cl_factory c2 = cl_factory c"
    "map (\<lambda>(a, cmd). (a, rc_code cmd, rc_customHeader cmd)) out =
      map (\<lambda>(q, v). (fb_brokerAddr (findBrokerAddressInAdmin (getBrokerName q) (cl_factory c)), UPDATE_CONSUMER_OFFSET_VALUE,
        Some (UpdateConsumerOffsetRequestHeader (os_groupName st) (getTopic q) (getQueueId q) v))) l"
    by auto
  with u show ?case by (simp add: x)
qed simp

text \<open>
  Persisting all offsets sends, for each queue of the store that is still asked for,
  exactly one update with its offset to a broker of the queue, in the order of the queues,
  and drops the offsets of the other queues from the memory. (The brokers are known and no
  project group is set.)
\<close>

theorem persistAll_sends_each:
  assumes "isBlank (ap_projectGroupPrefix (cl_api c))" "mqs \<noteq> []"
    and "\<forall>(q, v) \<in> set (os_offsetTable st). q \<in> set mqs \<longrightarrow>
      fb_brokerAddr (findBrokerAddressInAdmin (getBrokerName q) (cl_factory c)) \<noteq> []"
  shows "\<exists>st' c' out. persistAll env mqs st c = Inr (st', c', out) \<and>
    map (\<lambda>(a, cmd). (a, rc_code cmd, rc_customHeader cmd)) out =
      map (\<lambda>(q, v). (fb_brokerAddr (findBrokerAddressInAdmin (getBrokerName q) (cl_factory c)), UPDATE_CONSUMER_OFFSET_VALUE,
        Some (UpdateConsumerOffsetRequestHeader (os_groupName st) (getTopic q) (getQueueId q) v)))
        (filter (\<lambda>(q, v). q \<in> set mqs) (os_offsetTable st)) \<and>
    os_look st' = os_look st |` set mqs \<and> cl_factory c' = cl_factory c"
proof -
  let ?tmp = "filter (\<lambda>(q, v). q \<in> set mqs) (os_offsetTable st)"
  let ?st = "st\<lparr>os_storeTimesTotal := i64 (os_storeTimesTotal st + 1), os_offsetTable := ?tmp\<rparr>"
  have all: "\<forall>(q, v) \<in> set ?tmp. fb_brokerAddr (findBrokerAddressInAdmin (getBrokerName q) (cl_factory c)) \<noteq> []"
    using assms(3) by auto
  from persist_loop_sends [OF assms(1) all, of env ?st] obtain c' out
    where p: "persist_loop env ?st ?tmp c = Inr (c', out)" "cl_factory c' = cl_factory c"
    and o: "map (\<lambda>(a, cmd). (a, rc_code cmd, rc_customHeader cmd)) out =
      map (\<lambda>(q, v). (fb_brokerAddr (findBrokerAddressInAdmin (getBrokerName q) (cl_factory c)), UPDATE_CONSUMER_OFFSET_VALUE,
        Some (UpdateConsumerOffsetRequestHeader (os_groupName st) (getTopic q) (getQueueId q) v))) ?tmp"
    by auto
  have "mget ?tmp = os_look st |` set mqs"
  proof -
    have "mget (filter (\<lambda>(q, v). q \<in> set mqs) m) k = (mget m |` set mqs) k" for m :: "(MessageQueue, int) stdmap" and k
      by (induction m) (auto simp: restrict_map_def)
    then show ?thesis by (simp add: fun_eq_iff)
  qed
  then show ?thesis
    using assms(2) p o by (simp add: persistAll_def Let_def)
qed

theorem persistAll_sends_each_witness:
  "\<exists>st' c' cmd. persistAll silent_env [MessageQueue ''T'' ''a'' 0]
      (updateOffset (MessageQueue ''T'' ''z'' 1) 9 False (updateOffset (MessageQueue ''T'' ''a'' 0) 7 False (RemoteBrokerOffsetStore_new ''g'')))
      sample_client = Inr (st', c', [(''old:1'', cmd)]) \<and>
    rc_customHeader cmd = Some (UpdateConsumerOffsetRequestHeader ''g'' ''T'' 0 7) \<and>
    os_look st' (MessageQueue ''T'' ''z'' 1) = None"
proof -
  let ?s = "updateOffset (MessageQueue ''T'' ''z'' 1) 9 False (updateOffset (MessageQueue ''T'' ''a'' 0) 7 False (RemoteBrokerOffsetStore_new ''g''))"
  have s: "os_offsetTable ?s = [(MessageQueue ''T'' ''a'' 0, 7), (MessageQueue ''T'' ''z'' 1, 9)]" "os_groupName ?s = ''g''"
    by code_simp+
  have a: "findBrokerAddressInAdmin ''a'' (cl_factory sample_client) = \<lparr>fb_brokerAddr = ''old:1'', fb_slave = False\<rparr>"
    by code_simp
  have b: "isBlank (ap_projectGroupPrefix (cl_api sample_client))" by code_simp
  from persistAll_sends_each [OF b, of "[MessageQueue ''T'' ''a'' 0]" ?s silent_env]
  show ?thesis by (auto simp: s a)
qed

text \<open>
  Persisting one queue sends nothing, whatever the store holds: the flag is never set.
\<close>

theorem persist_sends_nothing: "persist env mq st c = Inr (c, [])"
  by (simp add: persist_def)

text \<open>The local store answers -1 after any update: broadcast consumers keep no offsets.\<close>

theorem local_store_forgets: "lf_readOffset q t (lf_updateOffset q v b st) = - 1"
  by (simp add: lf_readOffset_def)

end
