(* ===== verification/ProcessQ.thy ===== *)
theory ProcessQ
  imports Message
begin

text \<open>
  \<^verbatim>\<open>src/src/consumer/ProcessQueue.cpp\<close>: the client-side cache of the messages of one queue. The
  messages pulled wait in \<^verbatim>\<open>m_msgTreeMap\<close> in offset order; ordered consumption moves a batch to
  \<^verbatim>\<open>m_msgTreeMapTemp\<close> and commits or returns it. Every operation runs under the mutex of the
  queue, so an operation is one step of the state.
\<close>

section \<open>State\<close>

record ProcessQueue =
  pq_msgTreeMap :: "(int, MessageExt) stdmap"
  pq_msgTreeMapTemp :: "(int, MessageExt) stdmap"
  pq_queueOffsetMax :: int
  pq_msgCount :: int
  pq_dropped :: bool
  pq_locked :: bool
  pq_lastLockTimestamp :: int
  pq_consuming :: bool

definition s_RebalanceLockMaxLiveTime :: int where "s_RebalanceLockMaxLiveTime = 30000"
definition s_RebalanceLockInterval :: int where "s_RebalanceLockInterval = 20000"

definition ProcessQueue_new :: "int \<Rightarrow> ProcessQueue" where
  "ProcessQueue_new now =
     \<lparr>pq_msgTreeMap = [], pq_msgTreeMapTemp = [], pq_queueOffsetMax = 0, pq_msgCount = 0,
      pq_dropped = False, pq_locked = False, pq_lastLockTimestamp = now, pq_consuming = False\<rparr>"

section \<open>Operations\<close>

definition isLockExpired :: "int \<Rightarrow> ProcessQueue \<Rightarrow> bool" where
  "isLockExpired now pq \<longleftrightarrow> u64 (now - pq_lastLockTimestamp pq) > s_RebalanceLockMaxLiveTime"

definition put_one :: "MessageExt \<Rightarrow> ProcessQueue \<Rightarrow> ProcessQueue" where
  "put_one msg pq =
     pq\<lparr>pq_msgTreeMap := mput (m_queueOffset msg) msg (pq_msgTreeMap pq),
        pq_queueOffsetMax := m_queueOffset msg\<rparr>"

definition putMessage :: "MessageExt list \<Rightarrow> ProcessQueue \<Rightarrow> ProcessQueue \<times> bool" where
  "putMessage msgs pq =
     (let pq1 = fold put_one msgs pq;
          pq2 = pq1\<lparr>pq_msgCount := i64 (pq_msgCount pq1 + int (length msgs))\<rparr>
      in if pq_msgTreeMap pq2 \<noteq> [] \<and> \<not> pq_consuming pq2 then (pq2\<lparr>pq_consuming := True\<rparr>, True)
         else (pq2, False))"

definition getMaxSpan :: "ProcessQueue \<Rightarrow> int" where
  "getMaxSpan pq =
     (if pq_msgTreeMap pq \<noteq> []
      then i64 (fst (last (pq_msgTreeMap pq)) - fst (hd (pq_msgTreeMap pq))) else 0)"

definition removeMessage :: "MessageExt list \<Rightarrow> ProcessQueue \<Rightarrow> ProcessQueue \<times> int" where
  "removeMessage msgs pq =
     (let (pq1, result1) =
        (if pq_msgTreeMap pq \<noteq> [] then
           (pq\<lparr>pq_msgTreeMap := fold (\<lambda>msg. mdel (m_queueOffset msg)) msgs (pq_msgTreeMap pq),
               pq_msgCount := i64 (pq_msgCount pq - int (length msgs))\<rparr>,
            i64 (pq_queueOffsetMax pq + 1))
         else (pq, - 1))
      in if pq_msgTreeMap pq1 \<noteq> [] then (pq1, fst (hd (pq_msgTreeMap pq1))) else (pq1, result1))"

definition setDropped :: "bool \<Rightarrow> ProcessQueue \<Rightarrow> ProcessQueue" where
  "setDropped dropped pq = pq\<lparr>pq_dropped := dropped\<rparr>"

definition setLocked :: "bool \<Rightarrow> ProcessQueue \<Rightarrow> ProcessQueue" where
  "setLocked locked pq = pq\<lparr>pq_locked := locked\<rparr>"

definition setLastLockTimestamp :: "int \<Rightarrow> ProcessQueue \<Rightarrow> ProcessQueue" where
  "setLastLockTimestamp t pq = pq\<lparr>pq_lastLockTimestamp := t\<rparr>"

definition rollback :: "ProcessQueue \<Rightarrow> ProcessQueue" where
  "rollback pq = pq\<lparr>pq_msgTreeMap := pq_msgTreeMapTemp pq, pq_msgTreeMapTemp := []\<rparr>"

definition commit :: "ProcessQueue \<Rightarrow> ProcessQueue \<times> int" where
  "commit pq =
     (if pq_msgTreeMapTemp pq \<noteq> [] then
        (pq\<lparr>pq_msgCount := i64 (pq_msgCount pq - int (length (pq_msgTreeMapTemp pq))),
            pq_msgTreeMapTemp := []\<rparr>,
         i64 (fst (last (pq_msgTreeMapTemp pq)) + 1))
      else (pq, - 1))"

definition again_one :: "MessageExt \<Rightarrow> ProcessQueue \<Rightarrow> ProcessQueue" where
  "again_one msg pq =
     pq\<lparr>pq_msgTreeMapTemp := mdel (m_queueOffset msg) (pq_msgTreeMapTemp pq),
        pq_msgTreeMap := mput (m_queueOffset msg) msg (pq_msgTreeMap pq)\<rparr>"

definition makeMessageToCosumeAgain :: "MessageExt list \<Rightarrow> ProcessQueue \<Rightarrow> ProcessQueue" where
  "makeMessageToCosumeAgain msgs pq = fold again_one msgs pq"

fun take_loop ::
  "nat \<Rightarrow> (int, MessageExt) stdmap \<Rightarrow> (int, MessageExt) stdmap \<Rightarrow> MessageExt list \<Rightarrow>
   MessageExt list \<times> (int, MessageExt) stdmap \<times> (int, MessageExt) stdmap" where
  "take_loop 0 tree temp result = (result, tree, temp)"
| "take_loop (Suc n) [] temp result = (result, [], temp)"
| "take_loop (Suc n) ((k, m) # tree) temp result = take_loop n tree (mput k m temp) (result @ [m])"

definition takeMessages :: "int \<Rightarrow> ProcessQueue \<Rightarrow> ProcessQueue \<times> MessageExt list" where
  "takeMessages batchSize pq =
     (let (result, tree, temp) =
        (if pq_msgTreeMap pq \<noteq> []
         then take_loop (nat batchSize) (pq_msgTreeMap pq) (pq_msgTreeMapTemp pq) []
         else ([], pq_msgTreeMap pq, pq_msgTreeMapTemp pq));
          pq1 = pq\<lparr>pq_msgTreeMap := tree, pq_msgTreeMapTemp := temp\<rparr>
      in (if result = [] then (pq1\<lparr>pq_consuming := False\<rparr>, result) else (pq1, result)))"

section \<open>Invariant\<close>

text \<open>
  Both maps are in offset order, hold messages at their own offsets and share no offset. The
  counter is the number of cached messages and of the \<open>lost\<close> ones, those a rollback has thrown
  away without taking them off the counter.
\<close>

definition keyed :: "(int, MessageExt) stdmap \<Rightarrow> bool" where
  "keyed m \<longleftrightarrow> mok m \<and> (\<forall>(k, msg) \<in> set m. m_queueOffset msg = k)"

definition pq_ok :: "ProcessQueue \<Rightarrow> bool" where
  "pq_ok pq \<longleftrightarrow> keyed (pq_msgTreeMap pq) \<and> keyed (pq_msgTreeMapTemp pq) \<and>
     set (mkeys (pq_msgTreeMap pq)) \<inter> set (mkeys (pq_msgTreeMapTemp pq)) = {}"

definition pq_counted :: "nat \<Rightarrow> ProcessQueue \<Rightarrow> bool" where
  "pq_counted lost pq \<longleftrightarrow>
     pq_msgCount pq = i64 (int (length (pq_msgTreeMap pq) + length (pq_msgTreeMapTemp pq) + lost))"

text \<open>All cached messages by offset, the abstract content of the queue.\<close>

definition pending :: "ProcessQueue \<Rightarrow> int \<Rightarrow> MessageExt option" where
  "pending pq = mget (pq_msgTreeMap pq) ++ mget (pq_msgTreeMapTemp pq)"

definition offsets :: "MessageExt list \<Rightarrow> int list" where
  "offsets msgs = map m_queueOffset msgs"

lemma i64_add_left: "i64 (i64 a + b) = i64 (a + b)"
  by (simp add: i64_def mod_simps algebra_simps)

lemma i64_add_right: "i64 (a + i64 b) = i64 (a + b)"
  using i64_add_left [of b a] by (simp add: add.commute)

lemma i64_diff_left: "i64 (i64 a - b) = i64 (a - b)"
  using i64_add_left [of a "- b"] by simp

lemma length_mput: "length (mput k v m) = (if k \<in> set (mkeys m) then length m else Suc (length m))"
  if "mok m"
  using that by (induction k v m rule: mput.induct) auto

lemma mkeys_pos: "k \<in> set (mkeys m) \<Longrightarrow> 0 < length m"
  by (cases m) auto

lemma length_mdel: "length (mdel k m) = (if k \<in> set (mkeys m) then length m - 1 else length m)"
  by (induction m) (auto dest: mkeys_pos)

lemma mkeys_mdel: "mok m \<Longrightarrow> set (mkeys (mdel k m)) = set (mkeys m) - {k}"
  by (auto simp: set_mkeys mget_mdel)

lemma set_mdel_subset: "set (mdel k m) \<subseteq> set m"
  by (induction m) auto

lemma keyed_mput: "keyed m \<Longrightarrow> m_queueOffset msg = k \<Longrightarrow> keyed (mput k msg m)"
  using set_mput_subset [of k msg m] by (auto simp: keyed_def mok_mput)

lemma keyed_mdel: "keyed m \<Longrightarrow> keyed (mdel k m)"
  using set_mdel_subset [of k m] by (auto simp: keyed_def mok_mdel)

lemma keyed_mok: "keyed m \<Longrightarrow> mok m"
  by (simp add: keyed_def)

lemma keyed_Cons: "keyed ((k, m) # tree) \<longleftrightarrow> m_queueOffset m = k \<and> (\<forall>j \<in> set (mkeys tree). k < j) \<and> keyed tree"
  by (auto simp: keyed_def)

section \<open>The loops in closed form\<close>

lemma take_loop_eq:
  "take_loop n tree temp r =
     (r @ map snd (take n tree), drop n tree, fold (\<lambda>e. mput (fst e) (snd e)) (take n tree) temp)"
  by (induction n tree temp r rule: take_loop.induct) auto

lemma takeMessages_eq:
  "takeMessages b pq =
     (let taken = take (nat b) (pq_msgTreeMap pq);
          pq1 = pq\<lparr>pq_msgTreeMap := drop (nat b) (pq_msgTreeMap pq),
                   pq_msgTreeMapTemp := fold (\<lambda>e. mput (fst e) (snd e)) taken (pq_msgTreeMapTemp pq)\<rparr>
      in if taken = [] then (pq1\<lparr>pq_consuming := False\<rparr>, []) else (pq1, map snd taken))"
  by (cases "pq_msgTreeMap pq") (auto simp: takeMessages_def take_loop_eq Let_def)

lemma fold_put_one:
  "fold put_one msgs pq =
     pq\<lparr>pq_msgTreeMap := fold (\<lambda>m. mput (m_queueOffset m) m) msgs (pq_msgTreeMap pq),
        pq_queueOffsetMax := (if msgs = [] then pq_queueOffsetMax pq else m_queueOffset (last msgs))\<rparr>"
  by (induction msgs arbitrary: pq) (simp_all add: put_one_def)

lemma fold_again_one:
  "fold again_one msgs pq =
     pq\<lparr>pq_msgTreeMapTemp := fold (\<lambda>m. mdel (m_queueOffset m)) msgs (pq_msgTreeMapTemp pq),
        pq_msgTreeMap := fold (\<lambda>m. mput (m_queueOffset m) m) msgs (pq_msgTreeMap pq)\<rparr>"
  by (induction msgs arbitrary: pq) (simp_all add: again_one_def)

text \<open>Inserting messages at their offsets, and erasing them.\<close>

lemma keyed_fold_put: "keyed m \<Longrightarrow> keyed (fold (\<lambda>x. mput (m_queueOffset x) x) msgs m)"
  by (induction msgs arbitrary: m) (simp_all add: keyed_mput)

lemma mkeys_fold_put:
  "set (mkeys (fold (\<lambda>x. mput (m_queueOffset x) x) msgs m)) = set (mkeys m) \<union> set (offsets msgs)"
  by (induction msgs arbitrary: m) (auto simp: mkeys_mput offsets_def)

lemma length_fold_put:
  "mok m \<Longrightarrow> distinct (offsets msgs) \<Longrightarrow> set (offsets msgs) \<inter> set (mkeys m) = {} \<Longrightarrow>
   length (fold (\<lambda>x. mput (m_queueOffset x) x) msgs m) = length m + length msgs"
proof (induction msgs arbitrary: m)
  case (Cons x msgs)
  then show ?case
    using Cons.IH [of "mput (m_queueOffset x) x m"]
    by (auto simp: mok_mput mkeys_mput length_mput offsets_def)
qed simp

lemma keyed_fold_del: "keyed m \<Longrightarrow> keyed (fold (\<lambda>x. mdel (m_queueOffset x)) msgs m)"
  by (induction msgs arbitrary: m) (simp_all add: keyed_mdel)

lemma mkeys_fold_del:
  "mok m \<Longrightarrow> set (mkeys (fold (\<lambda>x. mdel (m_queueOffset x)) msgs m)) = set (mkeys m) - set (offsets msgs)"
  by (induction msgs arbitrary: m) (auto simp: mkeys_mdel mok_mdel offsets_def)

lemma length_fold_del:
  "mok m \<Longrightarrow> distinct (offsets msgs) \<Longrightarrow> set (offsets msgs) \<subseteq> set (mkeys m) \<Longrightarrow>
   length (fold (\<lambda>x. mdel (m_queueOffset x)) msgs m) + length msgs = length m"
proof (induction msgs arbitrary: m)
  case (Cons x msgs)
  then have x: "m_queueOffset x \<in> set (mkeys m)" by (simp add: offsets_def)
  have "set (offsets msgs) \<subseteq> set (mkeys (mdel (m_queueOffset x) m))"
    using Cons.prems by (simp add: mkeys_mdel offsets_def subset_Diff_insert)
  then have "length (fold (\<lambda>x. mdel (m_queueOffset x)) msgs (mdel (m_queueOffset x) m)) + length msgs =
      length (mdel (m_queueOffset x) m)"
    using Cons by (simp add: mok_mdel offsets_def)
  then show ?case using x mkeys_pos [OF x] by (simp add: length_mdel)
qed simp

text \<open>The entries moved by a take are their messages at their offsets.\<close>

lemma fold_entries_msgs:
  "\<forall>(k, msg) \<in> set es. m_queueOffset msg = k \<Longrightarrow>
   fold (\<lambda>e. mput (fst e) (snd e)) es m = fold (\<lambda>x. mput (m_queueOffset x) x) (map snd es) m"
  by (induction es arbitrary: m) auto

lemma keyed_parts:
  assumes "keyed m"
  shows "keyed (drop n m)" "offsets (map snd (take n m)) = mkeys (take n m)"
    "distinct (mkeys (take n m))" "set (mkeys (take n m)) \<inter> set (mkeys (drop n m)) = {}"
    "set (mkeys m) = set (mkeys (take n m)) \<union> set (mkeys (drop n m))"
proof -
  have app: "mkeys m = mkeys (take n m) @ mkeys (drop n m)"
    by (metis append_take_drop_id mkeys_simps(3))
  have d: "distinct (mkeys m)" "mok m" using assms by (auto simp: keyed_def mok_distinct)
  show "distinct (mkeys (take n m))" "set (mkeys (take n m)) \<inter> set (mkeys (drop n m)) = {}"
    "set (mkeys m) = set (mkeys (take n m)) \<union> set (mkeys (drop n m))"
    using d(1) app by auto
  have "mok (drop n m)" using d(2) by (simp add: mok_def mkeys_def drop_map [symmetric] sorted_wrt_drop)
  then show "keyed (drop n m)" using assms set_drop_subset [of n m] by (auto simp: keyed_def)
  have "m_queueOffset (snd e) = fst e" if "e \<in> set (take n m)" for e
    using in_set_takeD [OF that] assms by (auto simp: keyed_def)
  then show "offsets (map snd (take n m)) = mkeys (take n m)"
    by (simp add: offsets_def mkeys_def)
qed

section \<open>The operations keep the invariant\<close>

lemma new_ok: "pq_ok (ProcessQueue_new now) \<and> pq_counted 0 (ProcessQueue_new now)"
  by (simp add: pq_ok_def pq_counted_def ProcessQueue_new_def keyed_def i64_id)

lemma put_ok:
  assumes "pq_ok pq" "distinct (offsets msgs)"
    and "set (offsets msgs) \<inter> (set (mkeys (pq_msgTreeMap pq)) \<union> set (mkeys (pq_msgTreeMapTemp pq))) = {}"
  shows "pq_ok (fst (putMessage msgs pq))" "pq_counted d pq \<Longrightarrow> pq_counted d (fst (putMessage msgs pq))"
proof -
  have k: "keyed (pq_msgTreeMap pq)" using assms(1) by (simp add: pq_ok_def)
  have l: "length (fold (\<lambda>x. mput (m_queueOffset x) x) msgs (pq_msgTreeMap pq)) =
      length (pq_msgTreeMap pq) + length msgs"
    using k assms(2,3) by (intro length_fold_put) (auto simp: keyed_def)
  show "pq_ok (fst (putMessage msgs pq))"
    using assms k by (auto simp: pq_ok_def putMessage_def Let_def fold_put_one keyed_fold_put mkeys_fold_put)
  show "pq_counted d pq \<Longrightarrow> pq_counted d (fst (putMessage msgs pq))"
    using l by (simp add: pq_counted_def putMessage_def Let_def fold_put_one i64_add_left i64_add_right algebra_simps)
qed

lemma take_ok:
  assumes "pq_ok pq"
  shows "pq_ok (fst (takeMessages b pq))" "pq_counted d pq \<Longrightarrow> pq_counted d (fst (takeMessages b pq))"
proof -
  let ?tree = "pq_msgTreeMap pq" and ?temp = "pq_msgTreeMapTemp pq"
  let ?t = "take (nat b) ?tree"
  have k: "keyed ?tree" "keyed ?temp" "set (mkeys ?tree) \<inter> set (mkeys ?temp) = {}"
    using assms by (simp_all add: pq_ok_def)
  note parts = keyed_parts [OF k(1), of "nat b"]
  have es: "\<forall>(k, msg) \<in> set ?t. m_queueOffset msg = k"
    using k(1) set_take_subset [of "nat b" ?tree] by (auto simp: keyed_def)
  have l: "length (fold (\<lambda>x. mput (m_queueOffset x) x) (map snd ?t) ?temp) = length ?temp + length ?t"
    using k parts by (subst length_fold_put) (auto simp: keyed_def)
  let ?temp' = "fold (\<lambda>x. mput (m_queueOffset x) x) (map snd ?t) ?temp"
  have "keyed ?temp'" using k(2) by (rule keyed_fold_put)
  moreover have "set (mkeys (drop (nat b) ?tree)) \<inter> set (mkeys ?temp') = {}"
    using k(3) parts(2,4,5) by (auto simp: mkeys_fold_put)
  ultimately have "pq_ok (pq\<lparr>pq_msgTreeMap := drop (nat b) ?tree, pq_msgTreeMapTemp := ?temp'\<rparr>)"
    using assms parts(1) by (simp add: pq_ok_def)
  then show "pq_ok (fst (takeMessages b pq))"
    by (simp add: takeMessages_eq Let_def fold_entries_msgs [OF es] pq_ok_def)
  let ?pq' = "fst (takeMessages b pq)"
  have c: "length (pq_msgTreeMap ?pq') + length (pq_msgTreeMapTemp ?pq') = length ?tree + length ?temp"
    "pq_msgCount ?pq' = pq_msgCount pq"
    using l by (simp_all add: takeMessages_eq Let_def fold_entries_msgs [OF es] min_def)
  then show "pq_counted d pq \<Longrightarrow> pq_counted d ?pq'"
    unfolding pq_counted_def by (simp only:)
qed

lemma again_ok:
  assumes "pq_ok pq" "distinct (offsets msgs)" "set (offsets msgs) \<subseteq> set (mkeys (pq_msgTreeMapTemp pq))"
  shows "pq_ok (makeMessageToCosumeAgain msgs pq)" "pq_counted d pq \<Longrightarrow> pq_counted d (makeMessageToCosumeAgain msgs pq)"
proof -
  let ?tree = "pq_msgTreeMap pq" and ?temp = "pq_msgTreeMapTemp pq"
  let ?tree' = "fold (\<lambda>x. mput (m_queueOffset x) x) msgs ?tree" and ?temp' = "fold (\<lambda>x. mdel (m_queueOffset x)) msgs ?temp"
  have k: "keyed ?tree" "keyed ?temp" "set (mkeys ?tree) \<inter> set (mkeys ?temp) = {}"
    using assms(1) by (simp_all add: pq_ok_def)
  have "set (mkeys ?tree') \<inter> set (mkeys ?temp') = {}"
    using k(3) mkeys_fold_del [OF keyed_mok [OF k(2)]] by (auto simp: mkeys_fold_put)
  then show "pq_ok (makeMessageToCosumeAgain msgs pq)"
    using k by (simp add: pq_ok_def makeMessageToCosumeAgain_def fold_again_one keyed_fold_put keyed_fold_del)
  have "length ?tree' = length ?tree + length msgs"
    using k assms(2,3) by (intro length_fold_put) (auto simp: keyed_def)
  moreover have "length ?temp' + length msgs = length ?temp"
    using k assms(2,3) by (intro length_fold_del) (auto simp: keyed_def)
  ultimately have "length ?tree' + length ?temp' = length ?tree + length ?temp" by linarith
  then show "pq_counted d pq \<Longrightarrow> pq_counted d (makeMessageToCosumeAgain msgs pq)"
    by (simp add: pq_counted_def makeMessageToCosumeAgain_def fold_again_one)
qed

lemma commit_ok:
  "pq_ok pq \<Longrightarrow> pq_ok (fst (commit pq))" "pq_counted d pq \<Longrightarrow> pq_counted d (fst (commit pq))"
  by (auto simp: pq_ok_def pq_counted_def commit_def keyed_def i64_diff_left)

lemma remove_ok:
  assumes "pq_ok pq" "distinct (offsets msgs)" "set (offsets msgs) \<subseteq> set (mkeys (pq_msgTreeMap pq))"
  shows "pq_ok (fst (removeMessage msgs pq))" "pq_counted d pq \<Longrightarrow> pq_counted d (fst (removeMessage msgs pq))"
proof -
  let ?tree = "pq_msgTreeMap pq"
  let ?tree' = "fold (\<lambda>x. mdel (m_queueOffset x)) msgs ?tree"
  have k: "keyed ?tree" using assms(1) by (simp add: pq_ok_def)
  have l: "length ?tree' + length msgs = length ?tree"
    using k assms(2,3) by (intro length_fold_del) (auto simp: keyed_def)
  have m: "set (mkeys ?tree') \<subseteq> set (mkeys ?tree)"
    using mkeys_fold_del [OF keyed_mok [OF k]] by auto
  have "pq_ok (pq\<lparr>pq_msgTreeMap := ?tree', pq_msgCount := i64 (pq_msgCount pq - int (length msgs))\<rparr>)"
    using assms(1) k m by (auto simp: pq_ok_def keyed_fold_del)
  then show "pq_ok (fst (removeMessage msgs pq))"
    using assms(1) by (cases "?tree' = []") (simp_all add: removeMessage_def)
  assume "pq_counted d pq"
  then have "i64 (pq_msgCount pq - int (length msgs)) = i64 (int (length ?tree' + length (pq_msgTreeMapTemp pq) + d))"
    unfolding pq_counted_def l [symmetric] by (simp add: i64_diff_left algebra_simps)
  with \<open>pq_counted d pq\<close> show "pq_counted d (fst (removeMessage msgs pq))"
    by (cases "?tree' = []") (simp_all add: removeMessage_def pq_counted_def)
qed

lemma rollback_ok:
  "pq_ok pq \<Longrightarrow> pq_ok (rollback pq)" "pq_counted d pq \<Longrightarrow> pq_counted (d + length (pq_msgTreeMap pq)) (rollback pq)"
  by (simp_all add: pq_ok_def pq_counted_def rollback_def keyed_def algebra_simps)

text \<open>Everything the queue holds. Only a put makes it more.\<close>

definition held :: "ProcessQueue \<Rightarrow> nat" where
  "held pq = length (pq_msgTreeMap pq) + length (pq_msgTreeMapTemp pq)"

lemma held_take: "pq_ok pq \<Longrightarrow> held (fst (takeMessages b pq)) \<le> held pq"
proof -
  assume "pq_ok pq"
  then have k: "keyed (pq_msgTreeMap pq)" "mok (pq_msgTreeMapTemp pq)" by (simp_all add: pq_ok_def keyed_def)
  have "length (fold (\<lambda>e. mput (fst e) (snd e)) es t) \<le> length t + length es" if "mok t" for es and t :: "(int, MessageExt) stdmap"
    using that
  proof (induction es arbitrary: t)
    case (Cons e es)
    from Cons.IH [of "mput (fst e) (snd e) t"] Cons.prems show ?case by (auto simp: mok_mput length_mput split: if_splits)
  qed simp
  from this [OF k(2), of "take (nat b) (pq_msgTreeMap pq)"] show ?thesis
    by (auto simp: held_def takeMessages_eq Let_def min_def split: if_splits)
qed

lemma held_again:
  assumes "pq_ok pq" "distinct (offsets msgs)" "set (offsets msgs) \<subseteq> set (mkeys (pq_msgTreeMapTemp pq))"
  shows "held (makeMessageToCosumeAgain msgs pq) = held pq"
proof -
  have k: "keyed (pq_msgTreeMap pq)" "keyed (pq_msgTreeMapTemp pq)"
    "set (mkeys (pq_msgTreeMap pq)) \<inter> set (mkeys (pq_msgTreeMapTemp pq)) = {}"
    using assms(1) by (simp_all add: pq_ok_def)
  have "length (fold (\<lambda>x. mput (m_queueOffset x) x) msgs (pq_msgTreeMap pq)) = length (pq_msgTreeMap pq) + length msgs"
    using k assms(2,3) by (intro length_fold_put) (auto simp: keyed_def)
  moreover have "length (fold (\<lambda>x. mdel (m_queueOffset x)) msgs (pq_msgTreeMapTemp pq)) + length msgs = length (pq_msgTreeMapTemp pq)"
    using k assms(2,3) by (intro length_fold_del) (auto simp: keyed_def)
  ultimately show ?thesis by (simp add: held_def makeMessageToCosumeAgain_def fold_again_one)
qed

lemma length_fold_mdel_le: "length (fold (\<lambda>x. mdel (m_queueOffset x)) msgs t) \<le> length t"
proof (induction msgs arbitrary: t)
  case (Cons x msgs)
  have "length (mdel (m_queueOffset x) t) \<le> length t" by (simp add: length_mdel)
  with Cons.IH [of "mdel (m_queueOffset x) t"] show ?case by simp
qed simp

lemma held_remove: "held (fst (removeMessage msgs pq)) \<le> held pq"
  using length_fold_mdel_le [of msgs "pq_msgTreeMap pq"] by (auto simp: held_def removeMessage_def Let_def)

lemma held_put: "mok (pq_msgTreeMap pq) \<Longrightarrow> held (fst (putMessage msgs pq)) \<le> held pq + length msgs"
proof -
  have "length (fold (\<lambda>x. mput (m_queueOffset x) x) msgs t) \<le> length t + length msgs" if "mok t" for msgs and t :: "(int, MessageExt) stdmap"
    using that
  proof (induction msgs arbitrary: t)
    case (Cons x msgs)
    from Cons.IH [of "mput (m_queueOffset x) x t"] Cons.prems show ?case by (auto simp: mok_mput length_mput split: if_splits)
  qed simp
  then show "mok (pq_msgTreeMap pq) \<Longrightarrow> held (fst (putMessage msgs pq)) \<le> held pq + length msgs"
    by (simp add: held_def putMessage_def Let_def fold_put_one)
qed

section \<open>The queue as a state machine\<close>

text \<open>
  The steps the consume services take, with the discipline they keep: a removal and a return
  name messages of the respective map. The number beside a step says how many waiting messages
  it throws away: a rollback overwrites the waiting messages by the ones in flight. A put, the
  step of a pull, brings offsets the queue does not hold.
\<close>

inductive pq_work :: "ProcessQueue \<Rightarrow> nat \<Rightarrow> ProcessQueue \<Rightarrow> bool" where
  take: "pq_work pq 0 (fst (takeMessages b pq))"
| commit: "pq_work pq 0 (fst (commit pq))"
| again: "distinct (offsets msgs) \<Longrightarrow> set (offsets msgs) \<subseteq> set (mkeys (pq_msgTreeMapTemp pq)) \<Longrightarrow>
        pq_work pq 0 (makeMessageToCosumeAgain msgs pq)"
| rollback: "pq_work pq (length (pq_msgTreeMap pq)) (rollback pq)"
| remove: "distinct (offsets msgs) \<Longrightarrow> set (offsets msgs) \<subseteq> set (mkeys (pq_msgTreeMap pq)) \<Longrightarrow>
        pq_work pq 0 (fst (removeMessage msgs pq))"
| drop: "pq_work pq 0 (setDropped d pq)"
| lock: "pq_work pq 0 (setLastLockTimestamp t (setLocked l pq))"

inductive pq_step :: "ProcessQueue \<Rightarrow> nat \<Rightarrow> ProcessQueue \<Rightarrow> bool" where
  put: "distinct (offsets msgs) \<Longrightarrow> (\<forall>off \<in> set (offsets msgs). pending pq off = None) \<Longrightarrow>
        pq_step pq 0 (fst (putMessage msgs pq))"
| work: "pq_work pq n pq' \<Longrightarrow> pq_step pq n pq'"

text \<open>\<open>pq_reachable lost pq\<close>: \<open>pq\<close> is reachable, and the rollbacks on the way threw away \<open>lost\<close> messages.\<close>

inductive pq_reachable :: "nat \<Rightarrow> ProcessQueue \<Rightarrow> bool" where
  init: "pq_reachable 0 (ProcessQueue_new now)"
| step: "pq_reachable lost pq \<Longrightarrow> pq_step pq n pq' \<Longrightarrow> pq_reachable (lost + n) pq'"

inductive_cases pq_step_cases: "pq_step pq n pq'"

lemma pending_None: "pending pq off = None \<longleftrightarrow>
    off \<notin> set (mkeys (pq_msgTreeMap pq)) \<and> off \<notin> set (mkeys (pq_msgTreeMapTemp pq))"
  by (auto simp: pending_def set_mkeys domIff)

lemma flags_ok:
  "pq_ok (setDropped d pq) = pq_ok pq" "pq_ok (setLastLockTimestamp t (setLocked l pq)) = pq_ok pq"
  "pq_counted k (setDropped d pq) = pq_counted k pq" "pq_counted k (setLastLockTimestamp t (setLocked l pq)) = pq_counted k pq"
  by (simp_all add: setDropped_def setLastLockTimestamp_def setLocked_def pq_ok_def pq_counted_def)

lemma pq_work_ok: "pq_work pq n pq' \<Longrightarrow> pq_ok pq \<Longrightarrow> pq_ok pq' \<and> (pq_counted lost pq \<longrightarrow> pq_counted (lost + n) pq')"
  by (induction rule: pq_work.induct) (simp_all add: take_ok commit_ok again_ok remove_ok rollback_ok flags_ok)

lemma pq_work_held: "pq_work pq n pq' \<Longrightarrow> pq_ok pq \<Longrightarrow> held pq' + n \<le> held pq"
proof (induction rule: pq_work.induct)
  case (commit pq)
  then show ?case by (simp add: held_def commit_def)
next
  case (rollback pq)
  then show ?case by (simp add: held_def rollback_def)
next
  case (lock t l pq)
  then show ?case by (simp add: held_def setLastLockTimestamp_def setLocked_def)
next
  case (drop d pq)
  then show ?case by (simp add: held_def setDropped_def)
qed (simp_all add: held_take held_again held_remove)

lemma pq_put_ok:
  assumes "pq_ok pq" "distinct (offsets msgs)" "\<forall>off \<in> set (offsets msgs). pending pq off = None"
  shows "pq_ok (fst (putMessage msgs pq)) \<and> (pq_counted lost pq \<longrightarrow> pq_counted lost (fst (putMessage msgs pq)))"
proof -
  have "set (offsets msgs) \<inter> (set (mkeys (pq_msgTreeMap pq)) \<union> set (mkeys (pq_msgTreeMapTemp pq))) = {}"
    using assms(3) by (auto simp: pending_None)
  with assms show ?thesis by (simp add: put_ok)
qed

lemma pq_step_ok: "pq_step pq n pq' \<Longrightarrow> pq_ok pq \<Longrightarrow> pq_ok pq' \<and> (pq_counted lost pq \<longrightarrow> pq_counted (lost + n) pq')"
  by (induction rule: pq_step.induct) (simp_all add: pq_put_ok pq_work_ok)

lemma pq_reachable_counted: "pq_reachable lost pq \<Longrightarrow> pq_ok pq \<and> pq_counted lost pq"
  by (induction rule: pq_reachable.induct) (use new_ok pq_step_ok in blast)+

lemma pq_reachable_ok: "pq_reachable lost pq \<Longrightarrow> pq_ok pq"
  by (simp add: pq_reachable_counted)

section \<open>What the operations do to the content\<close>

lemma pending_put:
  assumes "mok (pq_msgTreeMap pq)" "\<forall>off \<in> set (offsets msgs). mget (pq_msgTreeMapTemp pq) off = None"
  shows "pending (fst (putMessage msgs pq)) =
    pending pq ++ map_of (rev (map (\<lambda>m. (m_queueOffset m, m)) msgs))"
proof -
  let ?new = "map_of (rev (map (\<lambda>m. (m_queueOffset m, m)) msgs))"
  have "dom ?new = set (offsets msgs)"
    by (simp add: dom_map_of_conv_image_fst offsets_def image_image)
  then have dis: "dom ?new \<inter> dom (mget (pq_msgTreeMapTemp pq)) = {}"
    using assms(2) by auto
  have "pending (fst (putMessage msgs pq)) =
      (mget (pq_msgTreeMap pq) ++ ?new) ++ mget (pq_msgTreeMapTemp pq)"
    using stdmap.get_fold_put [OF assms(1), of m_queueOffset "\<lambda>m. m" msgs]
    by (simp add: pending_def putMessage_def Let_def fold_put_one)
  also have "\<dots> = pending pq ++ ?new"
    using map_add_comm [OF dis] by (simp add: pending_def flip: map_add_assoc)
  finally show ?thesis .
qed

lemma mget_take_drop: "mget m = mget (drop n m) ++ mget (take n m)"
  by (metis append_take_drop_id map_of_append)

lemma mget_rev_take:
  assumes "keyed m"
  shows "map_of (rev (map (\<lambda>e. (fst e, snd e)) (take n m))) = mget (take n m)"
proof -
  have "distinct (map fst (take n m))" using keyed_parts(3) [OF assms, of n] by (simp add: mkeys_def)
  then show ?thesis using map_of_inject_set [of "rev (take n m)" "take n m"] by (simp add: rev_map [symmetric])
qed

lemma taken_temp:
  fixes b :: int
  assumes "pq_ok pq"
  defines "t \<equiv> take (nat b) (pq_msgTreeMap pq)"
  shows "mget (pq_msgTreeMapTemp (fst (takeMessages b pq))) = mget (pq_msgTreeMapTemp pq) ++ mget t"
    "pq_msgTreeMap (fst (takeMessages b pq)) = drop (nat b) (pq_msgTreeMap pq)"
    "snd (takeMessages b pq) = map snd t"
    "dom (mget (pq_msgTreeMapTemp pq)) \<inter> dom (mget t) = {}"
proof -
  have k: "keyed (pq_msgTreeMap pq)" "mok (pq_msgTreeMapTemp pq)"
    "set (mkeys (pq_msgTreeMap pq)) \<inter> set (mkeys (pq_msgTreeMapTemp pq)) = {}"
    using assms(1) by (simp_all add: pq_ok_def keyed_def)
  have "mget (fold (\<lambda>e. mput (fst e) (snd e)) t (pq_msgTreeMapTemp pq)) = mget (pq_msgTreeMapTemp pq) ++ mget t"
    using stdmap.get_fold_put [OF k(2), of fst snd t] mget_rev_take [OF k(1)] by (simp add: t_def)
  then show "mget (pq_msgTreeMapTemp (fst (takeMessages b pq))) = mget (pq_msgTreeMapTemp pq) ++ mget t"
    by (simp add: takeMessages_eq Let_def t_def [symmetric])
  show "pq_msgTreeMap (fst (takeMessages b pq)) = drop (nat b) (pq_msgTreeMap pq)"
    "snd (takeMessages b pq) = map snd t"
    by (simp_all add: takeMessages_eq Let_def t_def [symmetric])
  show "dom (mget (pq_msgTreeMapTemp pq)) \<inter> dom (mget t) = {}"
    using k(3) keyed_parts(5) [OF k(1), of "nat b"] unfolding t_def set_mkeys [symmetric] by blast
qed

lemma pending_take:
  assumes "pq_ok pq"
  shows "pending (fst (takeMessages b pq)) = pending pq"
proof -
  let ?t = "take (nat b) (pq_msgTreeMap pq)" and ?d = "drop (nat b) (pq_msgTreeMap pq)"
  note tt = taken_temp [OF assms, of b]
  have "pending (fst (takeMessages b pq)) = mget ?d ++ (mget (pq_msgTreeMapTemp pq) ++ mget ?t)"
    by (simp add: pending_def tt(1,2))
  also have "\<dots> = (mget ?d ++ mget ?t) ++ mget (pq_msgTreeMapTemp pq)"
    using map_add_comm [OF tt(4)] by simp
  finally show ?thesis by (simp add: pending_def mget_take_drop [of "pq_msgTreeMap pq" "nat b", symmetric])
qed

lemma again_after_take:
  assumes "pq_ok pq"
  shows "pq_msgTreeMap (makeMessageToCosumeAgain (snd (takeMessages b pq)) (fst (takeMessages b pq))) =
      pq_msgTreeMap pq \<and>
    pq_msgTreeMapTemp (makeMessageToCosumeAgain (snd (takeMessages b pq)) (fst (takeMessages b pq))) =
      pq_msgTreeMapTemp pq"
proof -
  let ?tree = "pq_msgTreeMap pq" and ?temp = "pq_msgTreeMapTemp pq"
  let ?t = "take (nat b) ?tree" and ?d = "drop (nat b) ?tree"
  let ?temp' = "pq_msgTreeMapTemp (fst (takeMessages b pq))"
  note tt = taken_temp [OF assms, of b]
  have k: "keyed ?tree" "mok ?tree" "mok ?temp" using assms by (simp_all add: pq_ok_def keyed_def)
  note parts = keyed_parts [OF k(1), of "nat b"]
  have d: "mok ?d" using parts(1) by (rule keyed_mok)
  have t': "mok ?temp'" using take_ok [OF assms] by (simp add: pq_ok_def keyed_def)
  have es: "\<forall>(k, msg) \<in> set ?t. m_queueOffset msg = k"
    using k(1) set_take_subset [of "nat b" ?tree] by (auto simp: keyed_def)
  have "fold (\<lambda>x. mput (m_queueOffset x) x) (map snd ?t) ?d = ?tree"
  proof (rule stdmap_ext [OF _ k(2)])
    show "mok (fold (\<lambda>x. mput (m_queueOffset x) x) (map snd ?t) ?d)" using d by (rule stdmap.ok_fold_put)
    show "mget (fold (\<lambda>x. mput (m_queueOffset x) x) (map snd ?t) ?d) = mget ?tree"
      unfolding fold_entries_msgs [OF es, symmetric] stdmap.get_fold_put [OF d] mget_rev_take [OF k(1)]
      by (rule mget_take_drop [symmetric])
  qed
  moreover have "fold (\<lambda>x. mdel (m_queueOffset x)) (map snd ?t) ?temp' = ?temp"
  proof (rule stdmap_ext [OF _ k(3)])
    show "mok (fold (\<lambda>x. mdel (m_queueOffset x)) (map snd ?t) ?temp')" using t' by (rule stdmap.ok_fold_del)
    have "m_queueOffset ` set (map snd ?t) = dom (mget ?t)"
      using parts(2) by (simp add: offsets_def set_mkeys [symmetric] flip: set_map)
    moreover have "mget ?temp x = None" if "mget ?t x = Some y" for x y
      using tt(4) that by (metis IntI domI domIff empty_iff)
    ultimately show "mget (fold (\<lambda>x. mdel (m_queueOffset x)) (map snd ?t) ?temp') = mget ?temp"
      unfolding stdmap.get_fold_del [OF t'] tt(1)
      by (auto simp: restrict_map_def map_add_def fun_eq_iff split: option.splits)
  qed
  ultimately show ?thesis
    by (simp add: makeMessageToCosumeAgain_def fold_again_one tt(2,3))
qed

lemma remove_result:
  assumes "pq_ok pq" "pq_msgTreeMap pq \<noteq> []" "removeMessage msgs pq = (pq', r)"
  shows "set (mkeys (pq_msgTreeMap pq')) = set (mkeys (pq_msgTreeMap pq)) - set (offsets msgs)"
    "pq_msgTreeMap pq' = [] \<Longrightarrow> r = i64 (pq_queueOffsetMax pq + 1)"
    "pq_msgTreeMap pq' \<noteq> [] \<Longrightarrow> r = Min (set (mkeys (pq_msgTreeMap pq')))"
proof -
  let ?tree' = "fold (\<lambda>x. mdel (m_queueOffset x)) msgs (pq_msgTreeMap pq)"
  have k: "keyed (pq_msgTreeMap pq)" using assms(1) by (simp add: pq_ok_def)
  have t: "pq_msgTreeMap pq' = ?tree'"
    "r = (if ?tree' \<noteq> [] then fst (hd ?tree') else i64 (pq_queueOffsetMax pq + 1))"
    using assms(2,3) by (auto simp: removeMessage_def split: if_splits)
  show "set (mkeys (pq_msgTreeMap pq')) = set (mkeys (pq_msgTreeMap pq)) - set (offsets msgs)"
    unfolding t(1) by (rule mkeys_fold_del [OF keyed_mok [OF k]])
  show "pq_msgTreeMap pq' = [] \<Longrightarrow> r = i64 (pq_queueOffsetMax pq + 1)" using t by simp
  show "r = Min (set (mkeys (pq_msgTreeMap pq')))" if ne: "pq_msgTreeMap pq' \<noteq> []"
  proof -
    obtain e m where e: "?tree' = e # m" using ne t(1) by (cases ?tree') auto
    have "mok ?tree'" using keyed_fold_del [OF k] by (rule keyed_mok)
    then have "Min (set (mkeys ?tree')) = fst e"
      unfolding e by (intro Min_eqI) (auto intro: less_imp_le)
    then show ?thesis using t e by simp
  qed
qed

section \<open>Properties\<close>

text \<open>
  Property C7. In every reachable state of a process queue, whatever order of puts, takes,
  commits, returns, rollbacks and removals led to it, the waiting and the in-flight messages are
  in offset order, stored under their own offsets, without a common offset, and the counter
  exceeds the number of cached messages by exactly the number of messages that rollbacks threw
  away; without a rollback it is that number.
\<close>

theorem process_queue_invariant:
  assumes "pq_reachable lost pq"
  shows "mok (pq_msgTreeMap pq) \<and> mok (pq_msgTreeMapTemp pq) \<and>
    (\<forall>(k, msg) \<in> set (pq_msgTreeMap pq @ pq_msgTreeMapTemp pq). m_queueOffset msg = k) \<and>
    set (mkeys (pq_msgTreeMap pq)) \<inter> set (mkeys (pq_msgTreeMapTemp pq)) = {} \<and>
    pq_msgCount pq = i64 (int (length (pq_msgTreeMap pq) + length (pq_msgTreeMapTemp pq) + lost))"
  using pq_reachable_counted [OF assms] by (auto simp: pq_ok_def pq_counted_def keyed_def)

definition msg_at :: "int \<Rightarrow> MessageExt" where
  "msg_at off = setQueueOffset_ext off MessageExt_new"

lemma offsets_msg_at [simp]: "offsets (map msg_at xs) = xs"
  by (induction xs) (simp_all add: offsets_def msg_at_def setQueueOffset_ext_def)

definition sample_pq :: ProcessQueue where
  "sample_pq = fst (putMessage (map msg_at [3, 5, 4]) (ProcessQueue_new 0))"

lemma sample_pq_reachable: "pq_reachable 0 sample_pq"
  unfolding sample_pq_def
  by (rule pq_reachable.step [OF pq_reachable.init pq_step.put, simplified])
    (simp_all add: pending_None ProcessQueue_new_def offsets_def msg_at_def setQueueOffset_ext_def)

lemma sample_pq_tree: "mkeys (pq_msgTreeMap sample_pq) = [3, 4, 5]" "pq_queueOffsetMax sample_pq = 4"
  by (simp_all add: sample_pq_def putMessage_def put_one_def ProcessQueue_new_def Let_def msg_at_def
      setQueueOffset_ext_def)

definition rolled_back_pq :: ProcessQueue where
  "rolled_back_pq = rollback (fst (takeMessages 1 sample_pq))"

lemma rolled_back_reachable: "pq_reachable 2 rolled_back_pq"
proof -
  have "pq_reachable 0 (fst (takeMessages 1 sample_pq))"
    using pq_reachable.step [OF sample_pq_reachable pq_step.work [OF pq_work.take], of 1] by simp
  from pq_reachable.step [OF this pq_step.work [OF pq_work.rollback]] show ?thesis
    by (simp add: rolled_back_pq_def sample_pq_def putMessage_def put_one_def ProcessQueue_new_def Let_def msg_at_def
        setQueueOffset_ext_def takeMessages_def numeral_2_eq_2 split: prod.splits)
qed

theorem process_queue_invariant_witness:
  "pq_msgCount rolled_back_pq = i64 (int (length (pq_msgTreeMap rolled_back_pq) + length (pq_msgTreeMapTemp rolled_back_pq) + 2))"
  using process_queue_invariant [OF rolled_back_reachable] by blast

text \<open>
  Progress offset of the concurrent mode: removing messages from a queue that is
  not empty returns the smallest offset still waiting, or one past the last offset received
  when none is left. So the offset never passes a message that has not been processed.
\<close>

theorem removeMessage_offset:
  assumes "pq_reachable lost pq" "pq_msgTreeMap pq \<noteq> []" "removeMessage msgs pq = (pq', r)"
  shows "set (mkeys (pq_msgTreeMap pq')) = set (mkeys (pq_msgTreeMap pq)) - set (offsets msgs) \<and>
    (\<forall>k \<in> set (mkeys (pq_msgTreeMap pq')). r \<le> k) \<and>
    (if pq_msgTreeMap pq' = [] then r = i64 (pq_queueOffsetMax pq + 1)
     else r \<in> set (mkeys (pq_msgTreeMap pq')))"
proof -
  have ne: "pq_msgTreeMap pq' \<noteq> [] \<Longrightarrow> set (mkeys (pq_msgTreeMap pq')) \<noteq> {}" by (simp add: mkeys_def)
  note res = remove_result [OF pq_reachable_ok [OF assms(1)] assms(2,3)]
  show ?thesis
  proof (cases "pq_msgTreeMap pq' = []")
    case False
    have "Min (set (mkeys (pq_msgTreeMap pq'))) \<in> set (mkeys (pq_msgTreeMap pq'))"
      using ne [OF False] by (intro Min_in) simp_all
    then show ?thesis using res(1) res(3) [OF False] False by simp
  qed (use res in simp)
qed

theorem removeMessage_offset_witness:
  "set (mkeys (pq_msgTreeMap (fst (removeMessage [msg_at 3] sample_pq)))) = {4, 5}"
proof -
  have "pq_msgTreeMap sample_pq \<noteq> []" using sample_pq_tree by auto
  from removeMessage_offset [OF sample_pq_reachable this, of "[msg_at 3]"] show ?thesis
    using sample_pq_tree offsets_msg_at [of "[3]"]
    by (cases "removeMessage [msg_at 3] sample_pq") auto
qed

text \<open>
  Taking a batch hands out the waiting messages with the smallest offsets, in
  offset order, keeps the content of the queue, and returning exactly that batch restores
  both maps.
\<close>

theorem take_then_consume_again:
  assumes "pq_reachable lost pq" "takeMessages b pq = (pq', msgs)"
  shows "offsets msgs = take (nat b) (mkeys (pq_msgTreeMap pq)) \<and>
    pending pq' = pending pq \<and>
    pq_msgTreeMap (makeMessageToCosumeAgain msgs pq') = pq_msgTreeMap pq \<and>
    pq_msgTreeMapTemp (makeMessageToCosumeAgain msgs pq') = pq_msgTreeMapTemp pq"
proof -
  note ok = pq_reachable_ok [OF assms(1)]
  have eq: "pq' = fst (takeMessages b pq)" "msgs = snd (takeMessages b pq)" using assms(2) by simp_all
  have "offsets msgs = mkeys (take (nat b) (pq_msgTreeMap pq))"
    unfolding eq taken_temp(3) [OF ok] by (rule keyed_parts(2)) (use ok in \<open>simp add: pq_ok_def\<close>)
  then show ?thesis
    using pending_take [OF ok] again_after_take [OF ok] unfolding eq by (simp add: mkeys_def take_map)
qed

theorem take_then_consume_again_witness:
  "offsets (snd (takeMessages 2 sample_pq)) = [3, 4]"
  using take_then_consume_again [OF sample_pq_reachable, of 2] sample_pq_tree
  by (cases "takeMessages 2 sample_pq") (simp add: numeral_2_eq_2)

text \<open>
  Committing after a batch was taken from a queue with nothing in flight returns
  one past the largest offset of the batch, and leaves exactly the messages that were not
  taken.
\<close>

theorem take_then_commit:
  assumes "pq_reachable lost pq" "pq_msgTreeMapTemp pq = []" "takeMessages b pq = (pq', msgs)" "msgs \<noteq> []"
    and "\<forall>off \<in> set (offsets msgs). - 9223372036854775808 \<le> off \<and> off < 9223372036854775807"
  shows "snd (commit pq') = Max (set (offsets msgs)) + 1 \<and>
    pq_msgTreeMap (fst (commit pq')) = drop (nat b) (pq_msgTreeMap pq) \<and>
    pq_msgTreeMapTemp (fst (commit pq')) = []"
proof -
  note ok = pq_reachable_ok [OF assms(1)]
  let ?t = "take (nat b) (pq_msgTreeMap pq)"
  have k: "keyed (pq_msgTreeMap pq)" using ok by (simp add: pq_ok_def)
  have eq: "pq' = fst (takeMessages b pq)" "msgs = snd (takeMessages b pq)" using assms(3) by simp_all
  have off: "offsets msgs = mkeys ?t" unfolding eq taken_temp(3) [OF ok] by (rule keyed_parts(2) [OF k])
  have mt: "mok ?t" using k by (simp add: keyed_def mok_def mkeys_def take_map [symmetric] sorted_wrt_take)
  have ne: "?t \<noteq> []" using assms(4) unfolding eq taken_temp(3) [OF ok] by simp
  have "mok (pq_msgTreeMapTemp pq')" using take_ok [OF ok] unfolding eq by (simp add: pq_ok_def keyed_def)
  then have tmp: "pq_msgTreeMapTemp pq' = ?t"
    using taken_temp(1) [OF ok, of b] assms(2) mt by (intro stdmap_ext) (simp_all add: eq)
  have "fst (last ?t) = Max (set (mkeys ?t))"
  proof (rule Max_eqI [symmetric])
    have "mkeys ?t = butlast (mkeys ?t) @ [fst (last ?t)]"
      using ne by (metis append_butlast_last_id last_map map_is_Nil_conv mkeys_def)
    then have "sorted_wrt (<) (butlast (mkeys ?t) @ [fst (last ?t)])" using mt by (simp add: mok_def)
    then have "\<forall>k \<in> set (butlast (mkeys ?t)). k < fst (last ?t)" by (simp add: sorted_wrt_append)
    then show "k \<le> fst (last ?t)" if "k \<in> set (mkeys ?t)" for k
      using that \<open>mkeys ?t = _\<close> by (metis Un_iff empty_iff insert_iff less_imp_le order_refl list.set set_append)
    show "fst (last ?t) \<in> set (mkeys ?t)" using ne by (simp add: mkeys_def)
  qed simp
  moreover have "fst (last ?t) \<in> set (offsets msgs)" unfolding off using ne by (simp add: mkeys_def)
  then have "i64 (fst (last ?t) + 1) = fst (last ?t) + 1" using assms(5) by (intro i64_id) auto
  ultimately show ?thesis
    using ne tmp taken_temp(2) [OF ok, of b] off by (simp add: commit_def eq i64_id)
qed

theorem take_then_commit_witness:
  "snd (commit (fst (takeMessages 2 sample_pq))) = 5"
proof -
  have "pq_msgTreeMapTemp sample_pq = []"
    by (simp add: sample_pq_def putMessage_def put_one_def ProcessQueue_new_def Let_def)
  moreover have "offsets (snd (takeMessages 2 sample_pq)) = [3, 4]"
    using taken_temp(3) [OF pq_reachable_ok [OF sample_pq_reachable], of 2] sample_pq_tree(1)
      keyed_parts(2) [of "pq_msgTreeMap sample_pq" 2] pq_reachable_ok [OF sample_pq_reachable]
    by (simp add: pq_ok_def mkeys_def take_map [symmetric] numeral_2_eq_2)
  moreover from this have "snd (takeMessages 2 sample_pq) \<noteq> []" by (auto simp: offsets_def)
  ultimately show ?thesis
    using take_then_commit [OF sample_pq_reachable, of 2 "fst (takeMessages 2 sample_pq)"
        "snd (takeMessages 2 sample_pq)"] by simp
qed

text \<open>
  A rollback replaces the waiting messages by the ones in flight: every message
  that was waiting and not in flight is lost, and the counter keeps its value.
\<close>

theorem rollback_drops_waiting:
  assumes "pq_reachable lost pq"
  shows "pending (rollback pq) = mget (pq_msgTreeMapTemp pq) \<and>
    (\<forall>k \<in> set (mkeys (pq_msgTreeMap pq)). pending (rollback pq) k = None) \<and>
    pq_msgCount (rollback pq) = pq_msgCount pq"
  using pq_reachable_ok [OF assms] mget_notin [of _ "pq_msgTreeMapTemp pq"]
  by (auto simp: rollback_def pending_def pq_ok_def)

theorem rollback_drops_waiting_witness: "pending (rollback sample_pq) 3 = None"
  using rollback_drops_waiting [OF sample_pq_reachable] sample_pq_tree by auto

text \<open>
  The lease of a lock: with 64-bit timestamps it has expired exactly when more
  than 30 seconds have passed since the last renewal, or the clock has gone back.
\<close>

theorem lock_expiry:
  assumes "0 \<le> now" "now < 9223372036854775808"
    and "0 \<le> pq_lastLockTimestamp pq" "pq_lastLockTimestamp pq < 9223372036854775808"
  shows "isLockExpired now pq \<longleftrightarrow> now - pq_lastLockTimestamp pq > 30000 \<or> now < pq_lastLockTimestamp pq"
proof (cases "now < pq_lastLockTimestamp pq")
  case True
  have "u64 (now - pq_lastLockTimestamp pq) = u64 (now - pq_lastLockTimestamp pq + 18446744073709551616)"
    by (simp add: u64_def)
  also have "\<dots> = now - pq_lastLockTimestamp pq + 18446744073709551616"
    using True assms by (intro u64_id) simp_all
  finally show ?thesis using True assms by (simp add: isLockExpired_def s_RebalanceLockMaxLiveTime_def)
next
  case False
  then show ?thesis using assms by (simp add: isLockExpired_def s_RebalanceLockMaxLiveTime_def u64_id)
qed

theorem lock_expiry_witness: "isLockExpired 50000 sample_pq"
  using lock_expiry [of 50000 sample_pq]
  by (simp add: sample_pq_def putMessage_def put_one_def ProcessQueue_new_def Let_def)

end
