(* ===== verification/Allocate.thy ===== *)
theory Allocate
  imports Queue
begin

text \<open>
  \<^verbatim>\<open>src/src/consumer/AllocateMessageQueueStrategyInner.h\<close>: how a consumer group divides the
  queues of a topic. Every consumer runs the same computation on the same sorted lists and
  keeps its own share; the shares have to be disjoint and to cover all queues.
\<close>

section \<open>The strategies\<close>

text \<open>The loop that looks the consumer up: the index of its first occurrence, or -1.\<close>

fun cid_index :: "string list \<Rightarrow> string \<Rightarrow> int \<Rightarrow> int" where
  "cid_index [] currentCID i = - 1"
| "cid_index (c # cs) currentCID i = (if c = currentCID then i else cid_index cs currentCID (i + 1))"

definition allocate_averagely ::
  "string \<Rightarrow> MessageQueue list \<Rightarrow> string list \<Rightarrow> MessageQueue list option result" where
  "allocate_averagely currentCID mqAll cidAll =
    (if currentCID = [] then Inl (MQClientException ''currentCID is empty'' (- 1))
     else if mqAll = [] then Inl (MQClientException ''mqAll is empty'' (- 1))
     else if cidAll = [] then Inl (MQClientException ''cidAll is empty'' (- 1))
     else
       let cidAllSize = isize cidAll;
           index = cid_index cidAll currentCID 0
       in if index = - 1 then Inr None
          else
            let mqAllSize = isize mqAll;
                md = cmod mqAllSize cidAllSize;
                averageSize =
                  (if mqAllSize \<le> cidAllSize then 1
                   else if md > 0 \<and> index < md then cdiv mqAllSize cidAllSize + 1
                   else cdiv mqAllSize cidAllSize);
                startIndex =
                  (if md > 0 \<and> index < md then i32 (index * averageSize)
                   else i32 (index * averageSize + md));
                range = min averageSize (i32 (mqAllSize - startIndex))
            in Inr (Some (map (\<lambda>i. mqAll ! nat (cmod (i32 (startIndex + int i)) mqAllSize))
                              [0 ..< nat range])))"

definition allocate_byConfig ::
  "string \<Rightarrow> MessageQueue list \<Rightarrow> string list \<Rightarrow> MessageQueue list option result" where
  "allocate_byConfig currentCID mqAll cidAll = Inr None"

definition allocate_byMachineRoom ::
  "string \<Rightarrow> MessageQueue list \<Rightarrow> string list \<Rightarrow> MessageQueue list option result" where
  "allocate_byMachineRoom currentCID mqAll cidAll = Inr None"

section \<open>What a strategy promises\<close>

text \<open>Sizes for which the index arithmetic of the code stays inside \<^verbatim>\<open>int\<close>.\<close>

definition sizes_ok :: "MessageQueue list \<Rightarrow> string list \<Rightarrow> bool" where
  "sizes_ok mqs cids \<longleftrightarrow> length mqs + length cids < 2147483648"


text \<open>
  The interface the rebalancing relies on: a share holds queues of the topic only, and two
  consumers never share a queue. A covering strategy also leaves no queue out.
\<close>

locale strategy =
  fixes allocate :: "string \<Rightarrow> MessageQueue list \<Rightarrow> string list \<Rightarrow> MessageQueue list option result"
  assumes share_sound:
    "sizes_ok mqs cids \<Longrightarrow> allocate c mqs cids = Inr (Some r) \<Longrightarrow> set r \<subseteq> set mqs"
    and share_exclusive:
    "sizes_ok mqs cids \<Longrightarrow> distinct mqs \<Longrightarrow> c \<noteq> c' \<Longrightarrow>
     allocate c mqs cids = Inr (Some r) \<Longrightarrow> allocate c' mqs cids = Inr (Some r') \<Longrightarrow>
     set r \<inter> set r' = {}"
begin

lemma at_most_one_owner:
  assumes "sizes_ok mqs cids" "distinct mqs"
    and "allocate c mqs cids = Inr (Some r)" "q \<in> set r"
    and "allocate c' mqs cids = Inr (Some r')" "q \<in> set r'"
  shows "c = c'"
  using share_exclusive [OF assms(1,2) _ assms(3,5)] assms(4,6) by blast

end

locale covering_strategy = strategy +
  assumes share_covers:
    "sizes_ok mqs cids \<Longrightarrow> mqs \<noteq> [] \<Longrightarrow> cids \<noteq> [] \<Longrightarrow> [] \<notin> set cids \<Longrightarrow> distinct cids \<Longrightarrow>
     q \<in> set mqs \<Longrightarrow> \<exists>c \<in> set cids. \<exists>r. allocate c mqs cids = Inr (Some r) \<and> q \<in> set r"
begin

lemma exactly_one_owner:
  assumes "sizes_ok mqs cids" "distinct mqs" "cids \<noteq> []" "[] \<notin> set cids" "distinct cids"
    and "q \<in> set mqs"
  shows "\<exists>!c. c \<in> set cids \<and> (\<exists>r. allocate c mqs cids = Inr (Some r) \<and> q \<in> set r)"
proof -
  have "mqs \<noteq> []" using assms(6) by auto
  from share_covers [OF assms(1) this assms(3-6)] obtain c r where
    c: "c \<in> set cids" "allocate c mqs cids = Inr (Some r)" "q \<in> set r"
    by (elim bexE exE conjE)
  show ?thesis
  proof (rule ex1I [of _ c])
    show "c \<in> set cids \<and> (\<exists>r. allocate c mqs cids = Inr (Some r) \<and> q \<in> set r)"
      using c by blast
    fix c' assume "c' \<in> set cids \<and> (\<exists>r. allocate c' mqs cids = Inr (Some r) \<and> q \<in> set r)"
    then obtain r' where "allocate c' mqs cids = Inr (Some r')" "q \<in> set r'" by blast
    from at_most_one_owner [OF assms(1,2) this c(2,3)] show "c' = c" .
  qed
qed

end

section \<open>The averaging arithmetic\<close>

text \<open>Closed form of the segment of consumer \<open>i\<close>: \<open>n div k\<close> queues each, the first \<open>n mod k\<close> one more.\<close>

definition seg_start :: "nat \<Rightarrow> nat \<Rightarrow> nat \<Rightarrow> nat" where
  "seg_start n k i = i * (n div k) + min i (n mod k)"

definition seg_size :: "nat \<Rightarrow> nat \<Rightarrow> nat \<Rightarrow> nat" where
  "seg_size n k i = n div k + (if i < n mod k then 1 else 0)"

lemma seg_start_Suc: "seg_start n k (Suc i) = seg_start n k i + seg_size n k i"
  by (simp add: seg_start_def seg_size_def)

lemma seg_start_0 [simp]: "seg_start n k 0 = 0"
  by (simp add: seg_start_def)

lemma seg_start_total: "0 < k \<Longrightarrow> seg_start n k k = n"
  by (simp add: seg_start_def min_absorb2)

lemma seg_start_mono: "i \<le> j \<Longrightarrow> seg_start n k i \<le> seg_start n k j"
  by (induction j) (auto simp: le_Suc_eq seg_start_Suc)

lemma seg_end: "i < k \<Longrightarrow> seg_start n k i + seg_size n k i \<le> n"
  using seg_start_mono [of "Suc i" k n k] by (simp add: seg_start_Suc seg_start_total)

lemma cid_index_ge: "cid_index cs c i \<noteq> - 1 \<Longrightarrow> 0 \<le> i \<Longrightarrow> i \<le> cid_index cs c i"
  by (induction cs c i rule: cid_index.induct) (auto split: if_splits)

lemma cid_index_Some:
  assumes "0 \<le> i" "cid_index cs c i \<noteq> - 1"
  shows "nat (cid_index cs c i - i) < length cs \<and> cs ! nat (cid_index cs c i - i) = c"
  using assms
proof (induction cs c i rule: cid_index.induct)
  case (2 d cs c i)
  show ?case
  proof (cases "d = c")
    case False
    with 2 have "i + 1 \<le> cid_index cs c (i + 1)" using cid_index_ge [of cs c "i + 1"] by simp
    then have "nat (cid_index cs c (i + 1) - i) = Suc (nat (cid_index cs c (i + 1) - (i + 1)))"
      by simp
    with 2 False show ?thesis by simp
  qed simp
qed simp

lemma cid_index_None: "0 \<le> i \<Longrightarrow> cid_index cs c i = - 1 \<longleftrightarrow> c \<notin> set cs"
  by (induction cs c i rule: cid_index.induct) auto

lemma cid_index_nth:
  assumes "distinct cs" "j < length cs" "0 \<le> i"
  shows "cid_index cs (cs ! j) i = i + int j"
  using assms
proof (induction cs arbitrary: i j)
  case (Cons d cs)
  then show ?case by (cases j) auto
qed simp

lemma segment_map:
  assumes "st + sz \<le> length xs"
  shows "map (\<lambda>i. xs ! (st + i)) [0 ..< sz] = take sz (drop st xs)"
  using assms by (intro nth_equalityI) simp_all

text \<open>The start and the size the code computes, in closed form.\<close>

lemma averagely_arith:
  fixes n k i :: nat
  assumes "0 < n" "i < k" "n + k < 2147483648"
  defines "md \<equiv> int n mod int k"
  defines "av \<equiv> (if int n \<le> int k then 1 else if md > 0 \<and> int i < md then int n div int k + 1
                  else int n div int k)"
  defines "st \<equiv> (if md > 0 \<and> int i < md then i32 (int i * av) else i32 (int i * av + md))"
  defines "rg \<equiv> min av (i32 (int n - st))"
  shows "nat rg = seg_size n k i \<and> (0 < rg \<longrightarrow> st = int (seg_start n k i))"
proof -
  have md: "md = int (n mod k)" by (simp add: md_def zmod_int)
  have dv: "int n div int k = int (n div k)" by (simp add: zdiv_int)
  show ?thesis
  proof (cases "n \<le> k")
    case True
    then have "n < k \<or> n = k" by auto
    then show ?thesis
    proof
      assume "n < k"
      then have m: "md = int n" and av: "av = 1" by (simp_all add: md av_def)
      show ?thesis
        using assms(1-3) \<open>n < k\<close> m
        by (auto simp: st_def rg_def av i32_id seg_size_def seg_start_def)
    next
      assume "n = k"
      then have m: "md = 0" and av: "av = 1" by (simp_all add: md av_def)
      show ?thesis
        using assms(1-3) \<open>n = k\<close> m
        by (auto simp: st_def rg_def av i32_id seg_size_def seg_start_def)
    qed
  next
    case False
    have av: "av = int (seg_size n k i)"
      using False by (auto simp: av_def md dv seg_size_def)
    have e: "seg_start n k i + seg_size n k i \<le> n" by (rule seg_end) (fact assms(2))
    have s0: "(if md > 0 \<and> int i < md then int i * av else int i * av + md) = int (seg_start n k i)"
      by (auto simp: av md seg_size_def seg_start_def min_def algebra_simps)
    have "st = i32 (if md > 0 \<and> int i < md then int i * av else int i * av + md)"
      by (simp add: st_def)
    then have st: "st = int (seg_start n k i)"
      using e assms(3) by (simp only: s0) (simp add: i32_id)
    then have "rg = av"
      using e assms(3) by (simp add: rg_def av i32_id)
    with st av show ?thesis by simp
  qed
qed

lemma allocate_averagely_at:
  assumes "sizes_ok mqs cids" "mqs \<noteq> []" "c \<noteq> []" "cid_index cids c 0 = int i" "i < length cids"
  shows "allocate_averagely c mqs cids =
    Inr (Some (take (seg_size (length mqs) (length cids) i)
                    (drop (seg_start (length mqs) (length cids) i) mqs)))"
proof -
  let ?n = "length mqs" and ?k = "length cids"
  have n: "0 < ?n" using assms(2) by simp
  have nk: "?n + ?k < 2147483648" using assms(1) by (simp add: sizes_ok_def)
  have sz: "isize mqs = int ?n" "isize cids = int ?k"
    using nk by (simp_all add: isize_def i32_id)
  have cm: "cmod (int ?n) (int ?k) = int ?n mod int ?k" "cdiv (int ?n) (int ?k) = int ?n div int ?k"
    using order.strict_trans1 [OF le0 assms(5)] by (simp_all add: cmod_nonneg cdiv_nonneg)
  let ?md = "int ?n mod int ?k"
  let ?av = "if int ?n \<le> int ?k then 1
             else if ?md > 0 \<and> int i < ?md then int ?n div int ?k + 1 else int ?n div int ?k"
  let ?st = "if ?md > 0 \<and> int i < ?md then i32 (int i * ?av) else i32 (int i * ?av + ?md)"
  let ?rg = "min ?av (i32 (int ?n - ?st))"
  have ar: "nat ?rg = seg_size ?n ?k i" "0 < ?rg \<longrightarrow> ?st = int (seg_start ?n ?k i)"
    using averagely_arith [OF n assms(5) nk] by blast+
  have "cids \<noteq> []" using assms(5) by auto
  then have unf: "allocate_averagely c mqs cids =
    Inr (Some (map (\<lambda>j. mqs ! nat (cmod (i32 (?st + int j)) (int ?n))) [0 ..< nat ?rg]))"
    using assms(2,3) unfolding allocate_averagely_def Let_def sz cm assms(4) by simp
  have e: "seg_start ?n ?k i + seg_size ?n ?k i \<le> ?n" using assms(5) by (rule seg_end)
  have "map (\<lambda>j. mqs ! nat (cmod (i32 (?st + int j)) (int ?n))) [0 ..< nat ?rg] =
        map (\<lambda>j. mqs ! (seg_start ?n ?k i + j)) [0 ..< seg_size ?n ?k i]"
  proof (rule map_cong)
    show "[0 ..< nat ?rg] = [0 ..< seg_size ?n ?k i]" by (simp only: ar(1))
    fix j assume "j \<in> set [0 ..< seg_size ?n ?k i]"
    then have j: "j < seg_size ?n ?k i" by simp
    with ar have st: "?st = int (seg_start ?n ?k i)" by linarith
    have "i32 (int (seg_start ?n ?k i) + int j) = int (seg_start ?n ?k i + j)"
      using j e nk by (simp add: i32_id)
    moreover have "cmod (int (seg_start ?n ?k i + j)) (int ?n) = int (seg_start ?n ?k i + j)"
      using j e n by (simp add: cmod_nonneg del: of_nat_add)
    ultimately show "mqs ! nat (cmod (i32 (?st + int j)) (int ?n)) = mqs ! (seg_start ?n ?k i + j)"
      unfolding st by (simp only: nat_int)
  qed
  then show ?thesis unfolding unf segment_map [OF e] by simp
qed

lemma allocate_averagely_segment:
  assumes "sizes_ok mqs cids" "mqs \<noteq> []" "c \<noteq> []" "c \<in> set cids"
  shows "allocate_averagely c mqs cids =
    Inr (Some (take (seg_size (length mqs) (length cids) (nat (cid_index cids c 0)))
                    (drop (seg_start (length mqs) (length cids) (nat (cid_index cids c 0))) mqs)))"
proof (rule allocate_averagely_at [OF assms(1-3)])
  have ne: "cid_index cids c 0 \<noteq> - 1" using assms(4) by (simp add: cid_index_None)
  show "nat (cid_index cids c 0) < length cids" using cid_index_Some [OF _ ne] by simp
  show "cid_index cids c 0 = int (nat (cid_index cids c 0))" using cid_index_ge [OF ne] by simp
qed

section \<open>The contract holds of the strategies\<close>

lemma allocate_averagely_known:
  assumes "allocate_averagely c mqs cids = Inr (Some r)"
  shows "c \<noteq> []" "mqs \<noteq> []" "c \<in> set cids"
  using assms by (auto simp: allocate_averagely_def Let_def cid_index_None split: if_splits)

lemma segments_disjoint:
  assumes "distinct xs" "i < j" "j < k"
  shows "set (take (seg_size (length xs) k i) (drop (seg_start (length xs) k i) xs)) \<inter>
         set (take (seg_size (length xs) k j) (drop (seg_start (length xs) k j) xs)) = {}"
proof -
  let ?s = "seg_start (length xs) k" and ?z = "seg_size (length xs) k"
  have le: "?s i + ?z i \<le> ?s j"
    using seg_start_mono [of "Suc i" j "length xs" k] assms(2) by (simp add: seg_start_Suc)
  have "set (take (?z i) (drop (?s i) xs)) \<subseteq> set (take (?s j) xs)"
    using le set_take_subset_set_take [of "?z i + ?s i" "?s j" xs]
      set_drop_subset [of "?s i" "take (?z i + ?s i) xs"]
    by (simp add: take_drop add.commute)
  moreover have "set (take (?z j) (drop (?s j) xs)) \<subseteq> set (drop (?s j) xs)"
    by (rule set_take_subset)
  ultimately show ?thesis
    using set_take_disj_set_drop_if_distinct [OF assms(1), of "?s j" "?s j"] by blast
qed

lemma cid_index_inj:
  assumes "c \<in> set cids" "c' \<in> set cids" "c \<noteq> c'"
  shows "nat (cid_index cids c 0) \<noteq> nat (cid_index cids c' 0)"
    "nat (cid_index cids c 0) < length cids"
  using cid_index_Some [of 0 cids c] cid_index_Some [of 0 cids c'] assms
  by (auto simp: cid_index_None)

lemma averagely_exclusive:
  assumes "sizes_ok mqs cids" "distinct mqs" "c \<noteq> c'"
    and r: "allocate_averagely c mqs cids = Inr (Some r)"
    and r': "allocate_averagely c' mqs cids = Inr (Some r')"
  shows "set r \<inter> set r' = {}"
proof -
  let ?i = "nat (cid_index cids c 0)" and ?j = "nat (cid_index cids c' 0)"
  note kn = allocate_averagely_known [OF r] and kn' = allocate_averagely_known [OF r']
  have ij: "?i \<noteq> ?j" "?i < length cids" "?j < length cids"
    using cid_index_inj [OF kn(3) kn'(3) assms(3)] cid_index_inj [OF kn'(3) kn(3)] assms(3) by auto
  have rs: "r = take (seg_size (length mqs) (length cids) ?i)
                  (drop (seg_start (length mqs) (length cids) ?i) mqs)"
    "r' = take (seg_size (length mqs) (length cids) ?j)
                  (drop (seg_start (length mqs) (length cids) ?j) mqs)"
    using allocate_averagely_segment [OF assms(1) kn(2,1,3)] r
      allocate_averagely_segment [OF assms(1) kn'(2,1,3)] r' by simp_all
  from ij(1) have "?i < ?j \<or> ?j < ?i" by linarith
  then show ?thesis
    using segments_disjoint [OF assms(2)] ij(2,3) unfolding rs by blast
qed

text \<open>The shares in the order of the consumers are the queue list, cut into segments.\<close>

lemma concat_segments:
  "i \<le> k \<Longrightarrow> concat (map (\<lambda>j. take (seg_size n k j) (drop (seg_start n k j) xs)) [0 ..< i]) =
   take (seg_start n k i) xs"
proof (induction i)
  case (Suc i)
  then show ?case by (simp add: seg_start_Suc take_add)
qed simp

definition share :: "string \<Rightarrow> MessageQueue list \<Rightarrow> string list \<Rightarrow> MessageQueue list" where
  "share c mqs cids = (case allocate_averagely c mqs cids of Inr (Some r) \<Rightarrow> r | _ \<Rightarrow> [])"

lemma share_nth:
  assumes "sizes_ok mqs cids" "mqs \<noteq> []" "[] \<notin> set cids" "distinct cids" "j < length cids"
  shows "share (cids ! j) mqs cids =
    take (seg_size (length mqs) (length cids) j) (drop (seg_start (length mqs) (length cids) j) mqs)"
proof -
  have "cids ! j \<in> set cids" "cids ! j \<noteq> []" using assms(3,5) by (auto simp: in_set_conv_nth)
  then show ?thesis
    using allocate_averagely_segment [OF assms(1,2)] cid_index_nth [OF assms(4,5)]
    by (simp add: share_def)
qed

lemma concat_shares:
  assumes "sizes_ok mqs cids" "mqs \<noteq> []" "cids \<noteq> []" "[] \<notin> set cids" "distinct cids"
  shows "concat (map (\<lambda>c. share c mqs cids) cids) = mqs"
proof -
  have "map (\<lambda>c. share c mqs cids) cids = map (\<lambda>j. share (cids ! j) mqs cids) [0 ..< length cids]"
    by (intro nth_equalityI) simp_all
  also have "\<dots> = map (\<lambda>j. take (seg_size (length mqs) (length cids) j)
                (drop (seg_start (length mqs) (length cids) j) mqs)) [0 ..< length cids]"
    using share_nth [OF assms(1,2,4,5)] by simp
  finally show ?thesis
    using concat_segments [of "length cids" "length cids" "length mqs" mqs] assms(3)
    by (simp add: seg_start_total)
qed

lemma averagely_covers:
  assumes "sizes_ok mqs cids" "mqs \<noteq> []" "cids \<noteq> []" "[] \<notin> set cids" "distinct cids"
    and "q \<in> set mqs"
  shows "\<exists>c \<in> set cids. \<exists>r. allocate_averagely c mqs cids = Inr (Some r) \<and> q \<in> set r"
proof -
  have "q \<in> set (concat (map (\<lambda>c. share c mqs cids) cids))"
    using assms(6) concat_shares [OF assms(1-5)] by simp
  then obtain c where "c \<in> set cids" "q \<in> set (share c mqs cids)" by auto
  then show ?thesis by (force simp: share_def split: sum.splits option.splits)
qed

interpretation averagely: covering_strategy allocate_averagely
proof
  show "set r \<subseteq> set mqs" if "sizes_ok mqs cids" "allocate_averagely c mqs cids = Inr (Some r)"
    for mqs cids c r
    using allocate_averagely_segment [OF that(1)] allocate_averagely_known [OF that(2)] that(2)
      set_take_subset set_drop_subset by fastforce
qed (rule averagely_exclusive averagely_covers; assumption)+

interpretation byConfig: strategy allocate_byConfig
  by unfold_locales (simp_all add: allocate_byConfig_def)

interpretation byMachineRoom: strategy allocate_byMachineRoom
  by unfold_locales (simp_all add: allocate_byMachineRoom_def)

section \<open>Properties\<close>

text \<open>
  Property C29. Averaging divides the topic: with distinct queues and distinct consumer ids,
  the shares of the consumers, concatenated in the order of the ids, are exactly the queue
  list, and each share has the floor of queues per consumer, the first ones one more.
\<close>

theorem averagely_partition:
  assumes "sizes_ok mqs cids" "mqs \<noteq> []" "cids \<noteq> []" "[] \<notin> set cids" "distinct cids"
  shows "\<exists>shares. length shares = length cids \<and> concat shares = mqs \<and>
    (\<forall>j < length cids. allocate_averagely (cids ! j) mqs cids = Inr (Some (shares ! j)) \<and>
       length (shares ! j) = length mqs div length cids +
         (if j < length mqs mod length cids then 1 else 0))"
proof (intro exI conjI allI impI)
  show "concat (map (\<lambda>c. share c mqs cids) cids) = mqs" by (rule concat_shares [OF assms])
  fix j assume j: "j < length cids"
  then have c: "cids ! j \<in> set cids" "cids ! j \<noteq> []" using assms(4) by (auto simp: in_set_conv_nth)
  note al = allocate_averagely_segment [OF assms(1,2) c(2,1)]
  show "allocate_averagely (cids ! j) mqs cids = Inr (Some (map (\<lambda>c. share c mqs cids) cids ! j))"
    using al j by (simp add: share_def)
  show "length (map (\<lambda>c. share c mqs cids) cids ! j) = length mqs div length cids +
      (if j < length mqs mod length cids then 1 else 0)"
    using j share_nth [OF assms(1,2,4,5) j] seg_end [OF j, of "length mqs"]
    by (simp add: seg_size_def)
qed simp

theorem averagely_partition_witness:
  "\<exists>shares. length shares = length [''c1'', ''c2''] \<and>
     concat shares = map (MessageQueue ''t'' ''b'') [0, 1, 2] \<and>
     (\<forall>j < length [''c1'', ''c2'']. allocate_averagely ([''c1'', ''c2''] ! j)
        (map (MessageQueue ''t'' ''b'') [0, 1, 2]) [''c1'', ''c2''] = Inr (Some (shares ! j)) \<and>
        length (shares ! j) =
          length (map (MessageQueue ''t'' ''b'') [0, 1, 2]) div length [''c1'', ''c2''] +
          (if j < length (map (MessageQueue ''t'' ''b'') [0, 1, 2]) mod length [''c1'', ''c2'']
           then 1 else 0))"
  by (rule averagely_partition) (simp_all add: sizes_ok_def)

text \<open>
  Ownership: in a group whose members see the same lists, every queue of the
  topic is allocated to exactly one member.
\<close>

theorem averagely_one_owner:
  assumes "sizes_ok mqs cids" "distinct mqs" "cids \<noteq> []" "[] \<notin> set cids" "distinct cids"
    and "q \<in> set mqs"
  shows "\<exists>!c. c \<in> set cids \<and> (\<exists>r. allocate_averagely c mqs cids = Inr (Some r) \<and> q \<in> set r)"
  using assms by (rule averagely.exactly_one_owner)

theorem averagely_one_owner_witness:
  "\<exists>!c. c \<in> set [''c1'', ''c2''] \<and> (\<exists>r. allocate_averagely c
      (map (MessageQueue ''t'' ''b'') [0, 1, 2]) [''c1'', ''c2''] = Inr (Some r) \<and>
      MessageQueue ''t'' ''b'' 1 \<in> set r)"
  by (rule averagely_one_owner) (simp_all add: sizes_ok_def)

text \<open>
  The other outcomes: an empty argument raises the documented exception, checked
  in the order of the code, and a consumer that is not a member of the group gets NULL.
\<close>

theorem averagely_rejects:
  "allocate_averagely [] mqs cids = Inl (MQClientException ''currentCID is empty'' (- 1)) \<and>
   allocate_averagely (x # c) [] cids = Inl (MQClientException ''mqAll is empty'' (- 1)) \<and>
   allocate_averagely (x # c) (q # mqs) [] = Inl (MQClientException ''cidAll is empty'' (- 1)) \<and>
   (allocate_averagely (x # c) (q # mqs) (d # cids) = Inr None \<longleftrightarrow> x # c \<notin> set (d # cids))"
  by (auto simp: allocate_averagely_def Let_def cid_index_None split: if_splits)

end
