(* ===== verification/Rebalance.thy ===== *)
theory Rebalance
  imports Offsets ProcessQ Allocate "HOL-Library.Multiset"
begin

text \<open>
  \<^verbatim>\<open>src/src/consumer/RebalanceImpl.cpp\<close> with its push and pull variants: which queues a consumer owns,
  the process queues of the owned ones, where to start pulling, and the locks of ordered
  consumption. Process queues are shared between the table and the pull requests, so they
  live in a heap and the table holds addresses.
\<close>

section \<open>State\<close>

record PullRequest =
  prq_consumerGroup :: string
  prq_messageQueue :: MessageQueue
  prq_processQueue :: nat
  prq_nextOffset :: int

definition PullRequest_eq :: "PullRequest \<Rightarrow> PullRequest \<Rightarrow> bool" where
  "PullRequest_eq a b =
     (if prq_consumerGroup a \<noteq> prq_consumerGroup b then False
      else if \<not> operator_eq (prq_messageQueue a) (prq_messageQueue b) then False
      else True)"

record RebalanceImpl =
  rb_consumerGroup :: string
  rb_messageModel :: MessageModel
  rb_subscriptionInner :: "(string, SubscriptionData) stdmap"
  rb_topicSubscribeInfoTable :: "(string, MessageQueue list) stdmap"
  rb_processQueueTable :: "(MessageQueue, nat) stdmap"
  rb_heap :: "ProcessQueue list"

text \<open>The two offset stores behind the virtual interface; broadcasting uses the local file.\<close>

datatype OffsetStore = Remote RemoteBrokerOffsetStore | LocalFile LocalFileOffsetStore

fun store_readOffset ::
  "ClientEnv \<Rightarrow> MessageQueue \<Rightarrow> ReadOffsetType \<Rightarrow> OffsetStore \<Rightarrow> Client \<Rightarrow> (OffsetStore \<times> Client \<times> int) result" where
  "store_readOffset env mq t (Remote st) c = bind_r (readOffset env mq t st c) (\<lambda>(st', c', v). Inr (Remote st', c', v))"
| "store_readOffset env mq t (LocalFile st) c = Inr (LocalFile st, c, lf_readOffset mq t st)"

fun store_persist ::
  "ClientEnv \<Rightarrow> MessageQueue \<Rightarrow> OffsetStore \<Rightarrow> Client \<Rightarrow> (Client \<times> (string \<times> RemotingCommand) list) result" where
  "store_persist env mq (Remote st) c = persist env mq st c"
| "store_persist env mq (LocalFile st) c = Inr (c, [])"

fun store_removeOffset :: "MessageQueue \<Rightarrow> OffsetStore \<Rightarrow> OffsetStore" where
  "store_removeOffset mq (Remote st) = Remote (removeOffset mq st)"
| "store_removeOffset mq (LocalFile st) = LocalFile st"

record Consumer =
  co_rebalance :: RebalanceImpl
  co_store :: OffsetStore
  co_client :: Client

text \<open>A push consumer, with its starting point and whether it consumes in order, or a pull consumer.\<close>

datatype ConsumerKind = PushConsumer ConsumeFromWhere bool | PullConsumer

section \<open>Locks\<close>

definition master_address :: "string \<Rightarrow> Client \<Rightarrow> string result" where
  "master_address brokerName c =
     bind_r (findBrokerAddressInSubscribe brokerName MASTER_ID True (cl_factory c)) (\<lambda>r. Inr (fb_brokerAddr r))"

definition set_pq :: "nat \<Rightarrow> (ProcessQueue \<Rightarrow> ProcessQueue) \<Rightarrow> RebalanceImpl \<Rightarrow> RebalanceImpl" where
  "set_pq a g rb = rb\<lparr>rb_heap := (rb_heap rb)[a := g (rb_heap rb ! a)]\<rparr>"

definition unlock_mq :: "ClientEnv \<Rightarrow> MessageQueue \<Rightarrow> bool \<Rightarrow> string \<Rightarrow> Client \<Rightarrow> Client result" where
  "unlock_mq env mq oneway grp c =
     bind_r (master_address (getBrokerName mq) c) (\<lambda>addr.
       if addr \<noteq> [] then
         (let (api', ans) = unlockBatchMQ (en_endian env) (en_net env) addr grp (f_clientId (cl_factory c)) [mq] oneway (cl_api c)
          in if ans = Inl Undefined then Inl Undefined else Inr (c\<lparr>cl_api := api'\<rparr>))
       else Inr c)"

text \<open>The queues the broker granted are marked, with the time of the grant.\<close>

definition mark_locked :: "int \<Rightarrow> MessageQueue list \<Rightarrow> RebalanceImpl \<Rightarrow> RebalanceImpl" where
  "mark_locked now granted rb =
     fold (\<lambda>mq r. case mget (rb_processQueueTable r) mq of
                    Some a \<Rightarrow> set_pq a (\<lambda>pq. setLastLockTimestamp now (setLocked True pq)) r
                  | None \<Rightarrow> r) granted rb"

definition mark_unlocked :: "MessageQueue list \<Rightarrow> RebalanceImpl \<Rightarrow> RebalanceImpl" where
  "mark_unlocked mqs rb =
     fold (\<lambda>mq r. case mget (rb_processQueueTable r) mq of
                    Some a \<Rightarrow> set_pq a (setLocked False) r
                  | None \<Rightarrow> r) mqs rb"

definition lock_mq :: "ClientEnv \<Rightarrow> int \<Rightarrow> MessageQueue \<Rightarrow> Consumer \<Rightarrow> (Consumer \<times> bool) result" where
  "lock_mq env now mq co =
     bind_r (master_address (getBrokerName mq) (co_client co)) (\<lambda>addr.
       if addr \<noteq> [] then
         (let (api', ans) = lockBatchMQ (en_endian env) (en_net env) addr (rb_consumerGroup (co_rebalance co))
                (f_clientId (cl_factory (co_client co))) [mq] (cl_api (co_client co));
              co1 = co\<lparr>co_client := (co_client co)\<lparr>cl_api := api'\<rparr>\<rparr>
          in case ans of
               Inl x \<Rightarrow> if x = Undefined then Inl Undefined else Inr (co1, False)
             | Inr granted \<Rightarrow>
                 Inr (co1\<lparr>co_rebalance := mark_locked now granted (co_rebalance co1)\<rparr>, mq \<in> set granted))
       else Inr (co, False))"

text \<open>
  \<^verbatim>\<open>buildProcessQueueTableByBrokerName\<close>: the iterator is not advanced. \<^const>\<open>None\<close> says that the
  loop has not ended within the fuel.
\<close>

fun build_loop ::
  "nat \<Rightarrow> (MessageQueue \<times> nat) list \<Rightarrow> (string, MessageQueue list) stdmap \<Rightarrow> (string, MessageQueue list) stdmap option" where
  "build_loop 0 it acc = None"
| "build_loop (Suc n) it acc =
     (case it of
        [] \<Rightarrow> Some acc
      | (mq, a) # rest \<Rightarrow>
          (case mget acc (getBrokerName mq) of
             None \<Rightarrow> build_loop n it (mput (getBrokerName mq) [mq] acc)
           | Some mqs \<Rightarrow> build_loop n it (mput (getBrokerName mq) (sput mq mqs) acc)))"

definition buildProcessQueueTableByBrokerName :: "nat \<Rightarrow> RebalanceImpl \<Rightarrow> (string, MessageQueue list) stdmap option" where
  "buildProcessQueueTableByBrokerName fuel rb = build_loop fuel (rb_processQueueTable rb) []"

fun lock_brokers ::
  "ClientEnv \<Rightarrow> int \<Rightarrow> (string \<times> MessageQueue list) list \<Rightarrow> Consumer \<Rightarrow> Consumer result" where
  "lock_brokers env now [] co = Inr co"
| "lock_brokers env now ((brokerName, mqs) # rest) co =
     (if mqs = [] then lock_brokers env now rest co
      else
        bind_r (master_address brokerName (co_client co)) (\<lambda>addr.
          if addr \<noteq> [] then
            (let (api', ans) = lockBatchMQ (en_endian env) (en_net env) addr (rb_consumerGroup (co_rebalance co))
                   (f_clientId (cl_factory (co_client co))) mqs (cl_api (co_client co));
                 co1 = co\<lparr>co_client := (co_client co)\<lparr>cl_api := api'\<rparr>\<rparr>
             in case ans of
                  Inl x \<Rightarrow> if x = Undefined then Inl Undefined else lock_brokers env now rest co1
                | Inr granted \<Rightarrow>
                    lock_brokers env now rest
                      (co1\<lparr>co_rebalance := mark_unlocked (filter (\<lambda>mq. mq \<notin> set granted) mqs)
                             (mark_locked now granted (co_rebalance co1))\<rparr>))
          else lock_brokers env now rest co))"

definition lockAll :: "nat \<Rightarrow> ClientEnv \<Rightarrow> int \<Rightarrow> Consumer \<Rightarrow> Consumer result option" where
  "lockAll fuel env now co =
     map_option (\<lambda>brokerMqs. lock_brokers env now brokerMqs co)
       (buildProcessQueueTableByBrokerName fuel (co_rebalance co))"

fun unlock_brokers ::
  "ClientEnv \<Rightarrow> bool \<Rightarrow> (string \<times> MessageQueue list) list \<Rightarrow> Consumer \<Rightarrow> Consumer result" where
  "unlock_brokers env oneway [] co = Inr co"
| "unlock_brokers env oneway ((brokerName, mqs) # rest) co =
     (if mqs = [] then unlock_brokers env oneway rest co
      else
        bind_r (master_address brokerName (co_client co)) (\<lambda>addr.
          if addr \<noteq> [] then
            (let (api', ans) = unlockBatchMQ (en_endian env) (en_net env) addr (rb_consumerGroup (co_rebalance co))
                   (f_clientId (cl_factory (co_client co))) mqs oneway (cl_api (co_client co));
                 co1 = co\<lparr>co_client := (co_client co)\<lparr>cl_api := api'\<rparr>\<rparr>
             in case ans of
                  Inl x \<Rightarrow> if x = Undefined then Inl Undefined else unlock_brokers env oneway rest co1
                | Inr _ \<Rightarrow> unlock_brokers env oneway rest (co1\<lparr>co_rebalance := mark_unlocked mqs (co_rebalance co1)\<rparr>))
          else unlock_brokers env oneway rest co))"

definition unlockAll :: "nat \<Rightarrow> ClientEnv \<Rightarrow> bool \<Rightarrow> Consumer \<Rightarrow> Consumer result option" where
  "unlockAll fuel env oneway co =
     map_option (\<lambda>brokerMqs. unlock_brokers env oneway brokerMqs co)
       (buildProcessQueueTableByBrokerName fuel (co_rebalance co))"

section \<open>Where to start\<close>

definition LLONG_MAX :: int where "LLONG_MAX = 9223372036854775807"

definition is_retry_topic :: "string \<Rightarrow> bool" where
  "is_retry_topic topic \<longleftrightarrow> take (length RETRY_GROUP_TOPIC_PREFIX) (c_str topic) = RETRY_GROUP_TOPIC_PREFIX"

definition computePullFromWhere ::
  "ConsumerKind \<Rightarrow> ClientEnv \<Rightarrow> MessageQueue \<Rightarrow> Consumer \<Rightarrow> (Consumer \<times> int) result" where
  "computePullFromWhere kind env mq co =
     (case kind of
        PullConsumer \<Rightarrow> Inr (co, 0)
      | PushConsumer consumeFromWhere orderly \<Rightarrow>
          let stored = (\<lambda>none.
                bind_r (store_readOffset env mq READ_FROM_STORE (co_store co) (co_client co)) (\<lambda>(st', c', lastOffset).
                  Inr (co\<lparr>co_store := st', co_client := c'\<rparr>,
                       if lastOffset \<ge> 0 then lastOffset else if lastOffset = - 1 then none else - 1)))
          in (case consumeFromWhere of
                CONSUME_FROM_LAST_OFFSET \<Rightarrow> stored (if is_retry_topic (getTopic mq) then 0 else LLONG_MAX)
              | CONSUME_FROM_LAST_OFFSET_AND_FROM_MIN_WHEN_BOOT_FIRST \<Rightarrow> stored 0
              | CONSUME_FROM_MAX_OFFSET \<Rightarrow> Inr (co, LLONG_MAX)
              | CONSUME_FROM_MIN_OFFSET \<Rightarrow> Inr (co, 0)))"

section \<open>The table of owned queues\<close>

definition removeUnnecessaryMessageQueue ::
  "ConsumerKind \<Rightarrow> ClientEnv \<Rightarrow> MessageQueue \<Rightarrow> Consumer \<Rightarrow> Consumer result" where
  "removeUnnecessaryMessageQueue kind env mq co =
     bind_r (store_persist env mq (co_store co) (co_client co)) (\<lambda>(c', out).
       let co1 = co\<lparr>co_client := c', co_store := store_removeOffset mq (co_store co)\<rparr> in
       case kind of
         PushConsumer w True \<Rightarrow>
           bind_r (unlock_mq env mq True (rb_consumerGroup (co_rebalance co1)) (co_client co1)) (\<lambda>c''.
             Inr (co1\<lparr>co_client := c''\<rparr>))
       | _ \<Rightarrow> Inr co1)"

fun drop_queues ::
  "ConsumerKind \<Rightarrow> ClientEnv \<Rightarrow> (MessageQueue \<times> nat) list \<Rightarrow> Consumer \<Rightarrow> Consumer result" where
  "drop_queues kind env [] co = Inr co"
| "drop_queues kind env ((mq, a) # rest) co =
     bind_r (removeUnnecessaryMessageQueue kind env mq
               (co\<lparr>co_rebalance := set_pq a (setDropped True) (co_rebalance co)\<rparr>)) (\<lambda>co'.
       drop_queues kind env rest co')"

fun add_queues ::
  "ConsumerKind \<Rightarrow> ClientEnv \<Rightarrow> int \<Rightarrow> MessageQueue list \<Rightarrow> Consumer \<Rightarrow> (Consumer \<times> PullRequest list) result" where
  "add_queues kind env now [] co = Inr (co, [])"
| "add_queues kind env now (mq # rest) co =
     (if mget (rb_processQueueTable (co_rebalance co)) mq \<noteq> None then add_queues kind env now rest co
      else
        (let a = length (rb_heap (co_rebalance co));
             co1 = co\<lparr>co_rebalance := (co_rebalance co)\<lparr>rb_heap := rb_heap (co_rebalance co) @ [ProcessQueue_new now]\<rparr>\<rparr>
         in bind_r (computePullFromWhere kind env mq co1) (\<lambda>(co2, nextOffset).
              if nextOffset \<ge> 0 then
                bind_r (add_queues kind env now rest
                  (co2\<lparr>co_rebalance := (co_rebalance co2)\<lparr>rb_processQueueTable :=
                     mput mq a (rb_processQueueTable (co_rebalance co2))\<rparr>\<rparr>)) (\<lambda>(co3, l).
                  Inr (co3, \<lparr>prq_consumerGroup = rb_consumerGroup (co_rebalance co2), prq_messageQueue = mq,
                             prq_processQueue = a, prq_nextOffset = nextOffset\<rparr> # l))
              else add_queues kind env now rest co2)))"

text \<open>The result is the consumer, the pull requests handed to \<^verbatim>\<open>dispatchPullRequest\<close>, and whether anything changed.\<close>

definition updateProcessQueueTableInRebalance ::
  "ConsumerKind \<Rightarrow> ClientEnv \<Rightarrow> int \<Rightarrow> string \<Rightarrow> MessageQueue list \<Rightarrow> Consumer \<Rightarrow>
   (Consumer \<times> PullRequest list \<times> bool) result" where
  "updateProcessQueueTableInRebalance kind env now topic mqSet co =
     (let gone = (\<lambda>(mq, a). getTopic mq = topic \<and> mq \<notin> set mqSet);
          tmp = filter gone (rb_processQueueTable (co_rebalance co));
          co1 = co\<lparr>co_rebalance := (co_rebalance co)\<lparr>rb_processQueueTable :=
                   filter (\<lambda>e. \<not> gone e) (rb_processQueueTable (co_rebalance co))\<rparr>\<rparr>
      in bind_r (drop_queues kind env tmp co1) (\<lambda>co2.
         bind_r (add_queues kind env now mqSet co2) (\<lambda>(co3, pullRequestList).
           Inr (co3, pullRequestList, tmp \<noteq> [] \<or> pullRequestList \<noteq> []))))"

section \<open>Rebalancing\<close>

definition findConsumerIdList ::
  "ClientEnv \<Rightarrow> string \<Rightarrow> string \<Rightarrow> Client \<Rightarrow> (Client \<times> string list) result" where
  "findConsumerIdList env topic grp c =
     (let ask = (\<lambda>c' brokerAddr.
            if brokerAddr \<noteq> [] then
              (let (api', ans) = getConsumerIdListByGroup (en_endian env) (en_net env) brokerAddr grp (cl_api c')
               in case ans of
                    Inr ids \<Rightarrow> Inr (c'\<lparr>cl_api := api'\<rparr>, ids)
                  | Inl x \<Rightarrow> if x = Undefined then Inl Undefined else Inr (c'\<lparr>cl_api := api'\<rparr>, []))
            else Inr (c', []));
          brokerAddr = findBrokerAddrByTopic topic (cl_factory c)
      in if brokerAddr = [] then
           bind_r (refresh_route env topic c) (\<lambda>(c', b). ask c' (findBrokerAddrByTopic topic (cl_factory c')))
         else ask c brokerAddr)"

text \<open>
  The allocation strategy is an argument. When it raises, the pointer to its result has not
  been initialised. The list of notifications is what \<^verbatim>\<open>messageQueueChanged\<close> is called with.
\<close>

type_synonym strategy_fun = "string \<Rightarrow> MessageQueue list \<Rightarrow> string list \<Rightarrow> MessageQueue list option result"

definition rebalanceByTopic ::
  "ConsumerKind \<Rightarrow> strategy_fun \<Rightarrow> ClientEnv \<Rightarrow> int \<Rightarrow> string \<Rightarrow> Consumer \<Rightarrow>
   (Consumer \<times> PullRequest list \<times> (string \<times> MessageQueue list \<times> MessageQueue list) list) result" where
  "rebalanceByTopic kind allocate env now topic co =
     (case rb_messageModel (co_rebalance co) of
        BROADCASTING \<Rightarrow>
          (case mget (rb_topicSubscribeInfoTable (co_rebalance co)) topic of
             Some mqSet \<Rightarrow>
               bind_r (updateProcessQueueTableInRebalance kind env now topic mqSet co) (\<lambda>(co', reqs, changed).
                 Inr (co', reqs, if changed then [(topic, mqSet, mqSet)] else []))
           | None \<Rightarrow> Inr (co, [], []))
      | CLUSTERING \<Rightarrow>
          bind_r (findConsumerIdList env topic (rb_consumerGroup (co_rebalance co)) (co_client co)) (\<lambda>(c', cidAll).
            let co1 = co\<lparr>co_client := c'\<rparr> in
            case mget (rb_topicSubscribeInfoTable (co_rebalance co1)) topic of
              Some mqSet \<Rightarrow>
                if cidAll \<noteq> [] then
                  (case allocate (f_clientId (cl_factory c')) mqSet (sort cidAll) of
                     Inl x \<Rightarrow> Inl Undefined
                   | Inr allocateResult \<Rightarrow>
                       let allocateResultSet = (case allocateResult of None \<Rightarrow> [] | Some l \<Rightarrow> fold sput l []) in
                       bind_r (updateProcessQueueTableInRebalance kind env now topic allocateResultSet co1) (\<lambda>(co', reqs, changed).
                         Inr (co', reqs, if changed then [(topic, mqSet, allocateResultSet)] else [])))
                else Inr (co1, [], [])
            | None \<Rightarrow> Inr (co1, [], [])))"

definition truncateMessageQueueNotMyTopic :: "RebalanceImpl \<Rightarrow> RebalanceImpl" where
  "truncateMessageQueueNotMyTopic rb =
     (let gone = (\<lambda>(mq, a). mget (rb_subscriptionInner rb) (getTopic mq) = None);
          rb1 = fold (\<lambda>(mq, a). set_pq a (setDropped True)) (filter gone (rb_processQueueTable rb)) rb
      in rb1\<lparr>rb_processQueueTable := filter (\<lambda>e. \<not> gone e) (rb_processQueueTable rb1)\<rparr>)"

text \<open>
  What the rebalance of one topic calls catches its own exceptions, so the only failure it passes on is
  undefined behaviour. The \<^verbatim>\<open>catch (...)\<close> of \<^verbatim>\<open>doRebalance\<close>, which would keep what the topic had
  changed so far, is never entered; undefined behaviour ends the run.
\<close>

definition only_undefined :: "'a result \<Rightarrow> bool" where
  "only_undefined r \<longleftrightarrow> (\<forall>x. r = Inl x \<longrightarrow> x = Undefined)"

lemma only_undefined_simps [simp]:
  "only_undefined (Inr v)" "only_undefined (Inl x) \<longleftrightarrow> x = Undefined"
  by (auto simp: only_undefined_def)

lemma only_undefined_bind [simp]:
  "only_undefined (bind_r r k) \<longleftrightarrow> only_undefined r \<and> (\<forall>v. r = Inr v \<longrightarrow> only_undefined (k v))"
  by (cases r) auto

lemma order_items_only: "order_items topic items = Inl x \<Longrightarrow> x = Undefined"
  by (induction items) (auto simp: order_item_def Let_def split: sum.splits if_splits)

lemma refresh_route_only: "only_undefined (refresh_route env topic c)"
  by (auto simp: only_undefined_def refresh_route_def updateTopicRouteInfoFromNameServer_def install_route_def Let_def
      topicRouteData2TopicPublishInfo_def dest: order_items_only split: prod.splits sum.splits option.splits if_splits)

lemma find_or_refresh_only:
  "(\<And>f. only_undefined (look f)) \<Longrightarrow> only_undefined (find_or_refresh look env topic c)"
  using refresh_route_only by (auto simp: find_or_refresh_def)

lemma master_address_only: "only_undefined (master_address brokerName c)"
  by (auto simp: master_address_def findBrokerAddressInSubscribe_def split: option.splits list.splits)

lemma queryConsumerOffset_only: "queryConsumerOffset e net addr hdr api = (api', ans) \<Longrightarrow> only_undefined ans"
  by (auto simp: queryConsumerOffset_def Let_def split: sum.splits prod.splits option.splits if_splits CommandCustomHeader.splits)

lemma read_store_only: "only_undefined (read_store env mq st c)"
proof -
  have "only_undefined (fetchConsumeOffsetFromBroker env mq st c)"
    unfolding fetchConsumeOffsetFromBroker_def
    by (auto intro!: find_or_refresh_only dest: queryConsumerOffset_only split: prod.splits)
  then show ?thesis by (auto simp: read_store_def split: sum.splits error.splits)
qed

lemma unlock_mq_only: "only_undefined (unlock_mq env mq oneway grp c)"
  using master_address_only by (auto simp: unlock_mq_def split: prod.splits)

lemma compute_only: "only_undefined (computePullFromWhere kind env mq co)"
proof -
  have "only_undefined (store_readOffset env mq READ_FROM_STORE (co_store co) (co_client co))"
    using read_store_only by (cases "co_store co") (auto simp: readOffset_def)
  then show ?thesis
    by (auto simp: computePullFromWhere_def Let_def split: ConsumerKind.splits ConsumeFromWhere.splits)
qed

lemma remove_only: "only_undefined (removeUnnecessaryMessageQueue kind env mq co)"
proof -
  have "only_undefined (store_persist env mq (co_store co) (co_client co))"
    by (cases "co_store co") (simp_all add: persist_def)
  then show ?thesis
    using unlock_mq_only
    by (auto simp: removeUnnecessaryMessageQueue_def Let_def split: ConsumerKind.splits bool.splits)
qed

lemma drop_queues_only: "only_undefined (drop_queues kind env l co)"
  by (induction kind env l co rule: drop_queues.induct) (auto intro: remove_only)

lemma add_queues_only: "only_undefined (add_queues kind env now mqs co)"
  by (induction mqs arbitrary: co) (auto simp: Let_def intro!: compute_only)

lemma update_only: "only_undefined (updateProcessQueueTableInRebalance kind env now topic s co)"
  using drop_queues_only add_queues_only by (auto simp: updateProcessQueueTableInRebalance_def Let_def)

lemma findConsumerIdList_only: "only_undefined (findConsumerIdList env topic grp c)"
  using refresh_route_only by (auto simp: findConsumerIdList_def Let_def split: prod.splits sum.splits)

lemma rebalanceByTopic_only: "only_undefined (rebalanceByTopic kind allocate env now topic co)"
  using findConsumerIdList_only update_only
  by (auto simp: rebalanceByTopic_def Let_def split: MessageModel.splits option.splits sum.splits)

fun rebalance_topics ::
  "ConsumerKind \<Rightarrow> strategy_fun \<Rightarrow> ClientEnv \<Rightarrow> int \<Rightarrow> string list \<Rightarrow> Consumer \<Rightarrow> (Consumer \<times> PullRequest list) result" where
  "rebalance_topics kind allocate env now [] co = Inr (co, [])"
| "rebalance_topics kind allocate env now (topic # topics) co =
     bind_r (rebalanceByTopic kind allocate env now topic co) (\<lambda>(co', reqs, notifications).
       bind_r (rebalance_topics kind allocate env now topics co') (\<lambda>(co'', reqs'). Inr (co'', reqs @ reqs')))"

definition doRebalance ::
  "ConsumerKind \<Rightarrow> strategy_fun \<Rightarrow> ClientEnv \<Rightarrow> int \<Rightarrow> Consumer \<Rightarrow> (Consumer \<times> PullRequest list) result" where
  "doRebalance kind allocate env now co =
     bind_r (rebalance_topics kind allocate env now (mkeys (rb_subscriptionInner (co_rebalance co))) co) (\<lambda>(co', reqs).
       Inr (co'\<lparr>co_rebalance := truncateMessageQueueNotMyTopic (co_rebalance co')\<rparr>, reqs))"

lemma build_loop_stuck: "it \<noteq> [] \<Longrightarrow> build_loop fuel it acc = None"
  by (induction fuel arbitrary: acc) (auto simp: neq_Nil_conv split: prod.splits option.splits)

section \<open>The ownership invariant\<close>

text \<open>
  Every owned queue has its own process queue, which has not been dropped.
\<close>

definition rb_ok :: "RebalanceImpl \<Rightarrow> bool" where
  "rb_ok rb \<longleftrightarrow> mok (rb_processQueueTable rb) \<and> distinct (map snd (rb_processQueueTable rb)) \<and>
     (\<forall>(mq, a) \<in> set (rb_processQueueTable rb). a < length (rb_heap rb) \<and> \<not> pq_dropped (rb_heap rb ! a))"

definition never_refuses :: "ConsumerKind \<Rightarrow> ClientEnv \<Rightarrow> bool" where
  "never_refuses kind env \<longleftrightarrow> (\<forall>mq co co' v. computePullFromWhere kind env mq co = Inr (co', v) \<longrightarrow> 0 \<le> v)"

lemma compute_keeps: "computePullFromWhere kind env mq co = Inr (co', v) \<Longrightarrow> co_rebalance co' = co_rebalance co"
  by (auto simp: computePullFromWhere_def bind_r_Inr Let_def split: ConsumerKind.splits ConsumeFromWhere.splits)

lemma remove_keeps: "removeUnnecessaryMessageQueue kind env mq co = Inr co' \<Longrightarrow> co_rebalance co' = co_rebalance co"
proof (cases kind)
  case (PushConsumer w orderly)
  then show "removeUnnecessaryMessageQueue kind env mq co = Inr co' \<Longrightarrow> ?thesis"
    by (cases orderly) (auto simp: removeUnnecessaryMessageQueue_def bind_r_Inr Let_def)
qed (auto simp: removeUnnecessaryMessageQueue_def bind_r_Inr Let_def)

lemma set_pq_fields [simp]:
  "rb_processQueueTable (set_pq a g rb) = rb_processQueueTable rb" "length (rb_heap (set_pq a g rb)) = length (rb_heap rb)"
  "rb_consumerGroup (set_pq a g rb) = rb_consumerGroup rb" "rb_subscriptionInner (set_pq a g rb) = rb_subscriptionInner rb"
  "rb_topicSubscribeInfoTable (set_pq a g rb) = rb_topicSubscribeInfoTable rb"
  "rb_messageModel (set_pq a g rb) = rb_messageModel rb"
  by (simp_all add: set_pq_def)

lemma set_pq_nth: "b < length (rb_heap rb) \<Longrightarrow>
    rb_heap (set_pq a g rb) ! b = (if b = a then g (rb_heap rb ! b) else rb_heap rb ! b)"
  by (simp add: set_pq_def nth_list_update)

lemma setDropped_twice [simp]: "setDropped x (setDropped y pq) = setDropped x pq" "pq_dropped (setDropped x pq) = x"
  by (simp_all add: setDropped_def)

lemma drop_queues_keeps:
  "drop_queues kind env l co = Inr co' \<Longrightarrow>
   co_rebalance co' = fold (\<lambda>(mq, a). set_pq a (setDropped True)) l (co_rebalance co)"
proof (induction l arbitrary: co)
  case (Cons x l)
  obtain mq a where x: "x = (mq, a)" by (cases x)
  from Cons.prems obtain co1 where
    r: "removeUnnecessaryMessageQueue kind env mq (co\<lparr>co_rebalance := set_pq a (setDropped True) (co_rebalance co)\<rparr>) = Inr co1"
    and d: "drop_queues kind env l co1 = Inr co'"
    by (auto simp: x bind_r_Inr)
  show ?case using Cons.IH [OF d] remove_keeps [OF r] by (simp add: x)
qed simp

text \<open>Dropping a list of addresses.\<close>

lemma drop_fold:
  fixes l :: "(MessageQueue \<times> nat) list"
  defines "h \<equiv> \<lambda>rb. fold (\<lambda>(mq, a). set_pq a (setDropped True)) l rb"
  shows "rb_processQueueTable (h rb) = rb_processQueueTable rb" "length (rb_heap (h rb)) = length (rb_heap rb)"
    "rb_consumerGroup (h rb) = rb_consumerGroup rb" "rb_subscriptionInner (h rb) = rb_subscriptionInner rb"
    "rb_topicSubscribeInfoTable (h rb) = rb_topicSubscribeInfoTable rb" "rb_messageModel (h rb) = rb_messageModel rb"
    and "a < length (rb_heap rb) \<Longrightarrow> rb_heap (h rb) ! a =
      (if a \<in> snd ` set l then setDropped True (rb_heap rb ! a) else rb_heap rb ! a)"
proof -
  have "rb_processQueueTable (h rb) = rb_processQueueTable rb \<and> length (rb_heap (h rb)) = length (rb_heap rb) \<and>
    rb_consumerGroup (h rb) = rb_consumerGroup rb \<and> rb_subscriptionInner (h rb) = rb_subscriptionInner rb \<and>
    rb_topicSubscribeInfoTable (h rb) = rb_topicSubscribeInfoTable rb \<and> rb_messageModel (h rb) = rb_messageModel rb \<and>
    (a < length (rb_heap rb) \<longrightarrow> rb_heap (h rb) ! a =
      (if a \<in> snd ` set l then setDropped True (rb_heap rb ! a) else rb_heap rb ! a))" for a
    unfolding h_def
  proof (induction l arbitrary: rb)
    case (Cons x l)
    obtain mq b where x: "x = (mq, b)" by (cases x)
    show ?case
      using Cons.IH [of "set_pq b (setDropped True) rb"] by (auto simp: x set_pq_nth)
  qed simp
  then show "rb_processQueueTable (h rb) = rb_processQueueTable rb" "length (rb_heap (h rb)) = length (rb_heap rb)"
    "rb_consumerGroup (h rb) = rb_consumerGroup rb" "rb_subscriptionInner (h rb) = rb_subscriptionInner rb"
    "rb_topicSubscribeInfoTable (h rb) = rb_topicSubscribeInfoTable rb" "rb_messageModel (h rb) = rb_messageModel rb"
    "a < length (rb_heap rb) \<Longrightarrow> rb_heap (h rb) ! a =
      (if a \<in> snd ` set l then setDropped True (rb_heap rb ! a) else rb_heap rb ! a)"
    by blast+
qed

lemma filter_stdmap:
  assumes "mok m"
  shows "mok (filter P m)" "mget (filter P m) k = (case mget m k of Some v \<Rightarrow> if P (k, v) then Some v else None | None \<Rightarrow> None)"
proof -
  show "mok (filter P m)" using assms by (induction m) (auto simp: mkeys_def)
  show "mget (filter P m) k = (case mget m k of Some v \<Rightarrow> if P (k, v) then Some v else None | None \<Rightarrow> None)"
    using assms
  proof (induction m)
    case (Cons e m)
    then have "mget m (fst e) = None" by (auto simp: set_mkeys dest: domI)
    with Cons show ?case by (cases e) (auto split: option.splits)
  qed simp
qed

lemma mput_fresh_values: "mget m k = None \<Longrightarrow> mset (map snd (mput k v m)) = add_mset v (mset (map snd m))"
  by (induction k v m rule: mput.induct) (auto split: if_splits)

text \<open>What adding the missing queues of a share does; a queue whose starting point is refused is left out.\<close>

definition added :: "MessageQueue list \<Rightarrow> RebalanceImpl \<Rightarrow> RebalanceImpl \<Rightarrow> PullRequest list \<Rightarrow> bool" where
  "added mqs rb rb' reqs \<longleftrightarrow>
     (\<exists>P. map prq_messageQueue reqs = filter (\<lambda>q. mget (rb_processQueueTable rb) q = None \<and> P q) mqs) \<and>
     (\<forall>q. mget (rb_processQueueTable rb') q =
        (case mget (rb_processQueueTable rb) q of
           Some a \<Rightarrow> Some a
         | None \<Rightarrow> map_of (map (\<lambda>r. (prq_messageQueue r, prq_processQueue r)) reqs) q)) \<and>
     length (rb_heap rb) \<le> length (rb_heap rb') \<and>
     (\<forall>a < length (rb_heap rb). rb_heap rb' ! a = rb_heap rb ! a) \<and>
     (\<forall>r \<in> set reqs. 0 \<le> prq_nextOffset r \<and> prq_consumerGroup r = rb_consumerGroup rb \<and>
        length (rb_heap rb) \<le> prq_processQueue r) \<and>
     rb_consumerGroup rb' = rb_consumerGroup rb \<and> rb_subscriptionInner rb' = rb_subscriptionInner rb \<and>
     rb_topicSubscribeInfoTable rb' = rb_topicSubscribeInfoTable rb \<and> rb_messageModel rb' = rb_messageModel rb"

lemma rb_ok_put:
  assumes "rb_ok rb" "mget (rb_processQueueTable rb) mq = None"
  shows "rb_ok (rb\<lparr>rb_heap := rb_heap rb @ [ProcessQueue_new now],
    rb_processQueueTable := mput mq (length (rb_heap rb)) (rb_processQueueTable rb)\<rparr>)"
proof -
  let ?t = "rb_processQueueTable rb" and ?n = "length (rb_heap rb)"
  have s: "set (mput mq ?n ?t) \<subseteq> insert (mq, ?n) (set ?t)" by (rule set_mput_subset)
  have "?n \<notin> snd ` set ?t" using assms(1) by (auto simp: rb_ok_def)
  then have "distinct (map snd (mput mq ?n ?t))"
    using assms mput_fresh_values [OF assms(2), of ?n]
    by (metis distinct.simps(2) list.set_map mset.simps(2) mset_eq_imp_distinct_iff rb_ok_def)
  then show ?thesis
    using assms(1) s unfolding rb_ok_def
    by (auto simp: mok_mput nth_append ProcessQueue_new_def dest!: subsetD [OF s])
qed

lemma rb_ok_heap: "rb_ok rb \<Longrightarrow> rb_ok (rb\<lparr>rb_heap := rb_heap rb @ [pq]\<rparr>)"
  unfolding rb_ok_def by (auto simp: nth_append)

lemma added_taken:
  assumes "added mqs rb3 rb' l" "mq \<notin> set mqs" "mget (rb_processQueueTable rb) mq = None" "0 \<le> v"
    and "rb3 = rb\<lparr>rb_heap := rb_heap rb @ [pq], rb_processQueueTable := mput mq (length (rb_heap rb)) (rb_processQueueTable rb)\<rparr>"
  shows "added (mq # mqs) rb rb' (\<lparr>prq_consumerGroup = rb_consumerGroup rb, prq_messageQueue = mq,
    prq_processQueue = length (rb_heap rb), prq_nextOffset = v\<rparr> # l)"
proof -
  from assms(1) obtain P where P: "map prq_messageQueue l = filter (\<lambda>q. mget (rb_processQueueTable rb3) q = None \<and> P q) mqs"
    by (auto simp: added_def)
  have "filter (\<lambda>q. mget (rb_processQueueTable rb3) q = None \<and> P q) mqs =
      filter (\<lambda>q. mget (rb_processQueueTable rb) q = None \<and> (P(mq := True)) q) mqs"
    using assms(2,5) by (intro filter_cong) (auto simp: mget_mput)
  then have "\<exists>P. mq # map prq_messageQueue l = filter (\<lambda>q. mget (rb_processQueueTable rb) q = None \<and> P q) (mq # mqs)"
    using P assms(3) by (intro exI [of _ "P(mq := True)"]) simp
  then show ?thesis
    using assms(1,3-5) unfolding added_def by (auto simp: mget_mput nth_append split: option.splits)
qed

lemma added_refused:
  assumes "added mqs (rb\<lparr>rb_heap := rb_heap rb @ [pq]\<rparr>) rb' reqs" "mq \<notin> set mqs"
  shows "added (mq # mqs) rb rb' reqs"
proof -
  from assms(1) obtain P where "map prq_messageQueue reqs = filter (\<lambda>q. mget (rb_processQueueTable rb) q = None \<and> P q) mqs"
    by (auto simp: added_def)
  moreover have "filter (\<lambda>q. mget (rb_processQueueTable rb) q = None \<and> P q) mqs =
      filter (\<lambda>q. mget (rb_processQueueTable rb) q = None \<and> (P(mq := False)) q) mqs"
    using assms(2) by (intro filter_cong) auto
  ultimately have "\<exists>P. map prq_messageQueue reqs = filter (\<lambda>q. mget (rb_processQueueTable rb) q = None \<and> P q) (mq # mqs)"
    by (intro exI [of _ "P(mq := False)"]) simp
  then show ?thesis using assms(1) unfolding added_def by (auto simp: nth_append)
qed

lemma add_queues_added:
  assumes "rb_ok (co_rebalance co)" "distinct mqs" "add_queues kind env now mqs co = Inr (co', reqs)"
  shows "rb_ok (co_rebalance co') \<and> added mqs (co_rebalance co) (co_rebalance co') reqs \<and>
    (never_refuses kind env \<longrightarrow> map prq_messageQueue reqs = filter (\<lambda>q. mget (rb_processQueueTable (co_rebalance co)) q = None) mqs)"
  using assms
proof (induction mqs arbitrary: co reqs)
  case Nil
  then show ?case by (auto simp: added_def split: option.splits)
next
  case (Cons mq mqs)
  let ?rb = "co_rebalance co"
  show ?case
  proof (cases "mget (rb_processQueueTable ?rb) mq")
    case (Some a)
    then have "add_queues kind env now mqs co = Inr (co', reqs)" using Cons.prems(3) by simp
    from Cons.IH [OF Cons.prems(1) _ this] show ?thesis using Cons.prems(2) Some by (simp add: added_def)
  next
    case None
    let ?h = "?rb\<lparr>rb_heap := rb_heap ?rb @ [ProcessQueue_new now]\<rparr>"
    from Cons.prems(3) None obtain co2 v where c: "computePullFromWhere kind env mq (co\<lparr>co_rebalance := ?h\<rparr>) = Inr (co2, v)"
      and rest: "(if v \<ge> 0 then bind_r (add_queues kind env now mqs
            (co2\<lparr>co_rebalance := (co_rebalance co2)\<lparr>rb_processQueueTable :=
               mput mq (length (rb_heap ?rb)) (rb_processQueueTable (co_rebalance co2))\<rparr>\<rparr>)) (\<lambda>(co3, l).
            Inr (co3, \<lparr>prq_consumerGroup = rb_consumerGroup (co_rebalance co2), prq_messageQueue = mq,
                       prq_processQueue = length (rb_heap ?rb), prq_nextOffset = v\<rparr> # l))
          else add_queues kind env now mqs co2) = Inr (co', reqs)"
      by (auto simp: Let_def bind_r_Inr)
    have k: "co_rebalance co2 = ?h" using compute_keeps [OF c] by simp
    show ?thesis
    proof (cases "v \<ge> 0")
      case True
      let ?rb3 = "?rb\<lparr>rb_heap := rb_heap ?rb @ [ProcessQueue_new now],
        rb_processQueueTable := mput mq (length (rb_heap ?rb)) (rb_processQueueTable ?rb)\<rparr>"
      from rest True obtain l where a: "add_queues kind env now mqs (co2\<lparr>co_rebalance := ?rb3\<rparr>) = Inr (co', l)"
        and reqs: "reqs = \<lparr>prq_consumerGroup = rb_consumerGroup ?rb, prq_messageQueue = mq,
                       prq_processQueue = length (rb_heap ?rb), prq_nextOffset = v\<rparr> # l"
        by (auto simp: bind_r_Inr k)
      from Cons.IH [OF _ _ a] rb_ok_put [OF Cons.prems(1) None] Cons.prems(2)
      have ih: "rb_ok (co_rebalance co')" "added mqs ?rb3 (co_rebalance co') l"
        "never_refuses kind env \<longrightarrow> map prq_messageQueue l = filter (\<lambda>q. mget (rb_processQueueTable ?rb3) q = None) mqs" by simp_all
      have fl: "filter (\<lambda>q. mget (rb_processQueueTable ?rb3) q = None) mqs = filter (\<lambda>q. mget (rb_processQueueTable ?rb) q = None) mqs"
        using Cons.prems(2) by (intro filter_cong) (auto simp: mget_mput)
      show ?thesis using ih added_taken [OF ih(2) _ None True refl] Cons.prems(2) fl None unfolding reqs by simp
    next
      case False
      then have nv: "\<not> never_refuses kind env" using c unfolding never_refuses_def by blast
      from rest False have "add_queues kind env now mqs co2 = Inr (co', reqs)" by simp
      from Cons.IH [OF _ _ this] rb_ok_heap [OF Cons.prems(1)] Cons.prems(2)
      have ih: "rb_ok (co_rebalance co')" "added mqs ?h (co_rebalance co') reqs" by (simp_all add: k)
      show ?thesis using ih added_refused [OF ih(2)] Cons.prems(2) nv by simp
    qed
  qed
qed

section \<open>Properties\<close>

text \<open>Both ways of losing queues: those with a property leave the table, and their process queues are dropped.\<close>

definition drop_where :: "(MessageQueue \<Rightarrow> bool) \<Rightarrow> RebalanceImpl \<Rightarrow> RebalanceImpl" where
  "drop_where P rb =
     fold (\<lambda>(mq, a). set_pq a (setDropped True)) (filter (\<lambda>(mq, a). P mq) (rb_processQueueTable rb))
       (rb\<lparr>rb_processQueueTable := filter (\<lambda>e. \<not> (case e of (mq, a) \<Rightarrow> P mq)) (rb_processQueueTable rb)\<rparr>)"

lemma drop_where_fields:
  "length (rb_heap (drop_where P rb)) = length (rb_heap rb)"
  "rb_consumerGroup (drop_where P rb) = rb_consumerGroup rb"
  "rb_processQueueTable (drop_where P rb) = filter (\<lambda>e. \<not> (case e of (mq, a) \<Rightarrow> P mq)) (rb_processQueueTable rb)"
  "rb_subscriptionInner (drop_where P rb) = rb_subscriptionInner rb"
  "rb_topicSubscribeInfoTable (drop_where P rb) = rb_topicSubscribeInfoTable rb"
  "rb_messageModel (drop_where P rb) = rb_messageModel rb"
  unfolding drop_where_def drop_fold(1-6) by simp_all

lemma drop_where_look:
  assumes "rb_ok rb"
  shows "mget (rb_processQueueTable (drop_where P rb)) q = (if P q then None else mget (rb_processQueueTable rb) q)"
proof -
  have "mok (rb_processQueueTable rb)" using assms by (simp add: rb_ok_def)
  from filter_stdmap(2) [OF this] show ?thesis unfolding drop_where_fields by (simp split: option.splits)
qed

lemma drop_where_heap:
  assumes "rb_ok rb" "mget (rb_processQueueTable rb) q = Some a"
  shows "rb_heap (drop_where P rb) ! a = (if P q then setDropped True (rb_heap rb ! a) else rb_heap rb ! a)"
proof -
  let ?t = "rb_processQueueTable rb" and ?gone = "\<lambda>(mq, a :: nat). P mq"
  have i: "(q, a) \<in> set ?t" using assms(2) by (rule map_of_SomeD)
  then have "a < length (rb_heap (rb\<lparr>rb_processQueueTable := filter (\<lambda>e. \<not> ?gone e) ?t\<rparr>))"
    using assms(1) by (auto simp: rb_ok_def)
  from drop_fold(7) [OF this, of "filter ?gone ?t"]
  have h: "rb_heap (drop_where P rb) ! a =
      (if a \<in> snd ` set (filter ?gone ?t) then setDropped True (rb_heap rb ! a) else rb_heap rb ! a)"
    by (simp add: drop_where_def)
  have "inj_on snd (set ?t)" using assms(1) by (simp add: rb_ok_def distinct_map)
  then have u: "e = (q, a)" if "e \<in> set ?t" "snd e = a" for e
    using inj_onD [of snd "set ?t" e "(q, a)"] that i by simp
  have "a \<in> snd ` set (filter ?gone ?t) \<longleftrightarrow> P q"
  proof
    assume "a \<in> snd ` set (filter ?gone ?t)"
    then obtain e where "e \<in> set ?t" "?gone e" "snd e = a" by auto
    with u [of e] show "P q" by simp
  next
    assume "P q"
    with i have "(q, a) \<in> set (filter ?gone ?t)" by simp
    then show "a \<in> snd ` set (filter ?gone ?t)" by (rule rev_image_eqI) simp
  qed
  with h show ?thesis by simp
qed

lemma drop_where_ok:
  assumes "rb_ok rb"
  shows "rb_ok (drop_where P rb)"
proof -
  let ?t = "rb_processQueueTable rb"
  have ok: "mok ?t" "distinct (map snd ?t)" using assms by (simp_all add: rb_ok_def)
  have "a < length (rb_heap (drop_where P rb)) \<and> \<not> pq_dropped (rb_heap (drop_where P rb) ! a)"
    if "(q, a) \<in> set ?t" "\<not> P q" for q a
  proof -
    have "mget ?t q = Some a" using that(1) mok_distinct [OF ok(1)] by (simp add: mkeys_def)
    from drop_where_heap [OF assms this, of P] that assms show ?thesis
      by (auto simp: rb_ok_def drop_where_fields)
  qed
  then show ?thesis
    using filter_stdmap(1) [OF ok(1)] distinct_map_filter [OF ok(2)] unfolding rb_ok_def drop_where_fields(3) by auto
qed

abbreviation drop_part :: "string \<Rightarrow> MessageQueue list \<Rightarrow> RebalanceImpl \<Rightarrow> RebalanceImpl" where
  "drop_part topic mqSet \<equiv> drop_where (\<lambda>mq. getTopic mq = topic \<and> mq \<notin> set mqSet)"

text \<open>The whole update.\<close>

lemma update_added:
  assumes "rb_ok (co_rebalance co)" "sok mqSet"
    and "updateProcessQueueTableInRebalance kind env now topic mqSet co = Inr (co', reqs, changed)"
  shows "rb_ok (co_rebalance co')"
    and "added mqSet (drop_part topic mqSet (co_rebalance co)) (co_rebalance co') reqs"
    and "changed \<longleftrightarrow> filter (\<lambda>(mq, a). getTopic mq = topic \<and> mq \<notin> set mqSet) (rb_processQueueTable (co_rebalance co)) \<noteq> [] \<or> reqs \<noteq> []"
    and "never_refuses kind env \<Longrightarrow> map prq_messageQueue reqs = filter (\<lambda>q. mget (rb_processQueueTable (drop_part topic mqSet (co_rebalance co))) q = None) mqSet"
proof -
  let ?rb = "co_rebalance co" and ?t = "rb_processQueueTable (co_rebalance co)"
  let ?gone = "\<lambda>(mq, a :: nat). getTopic mq = topic \<and> mq \<notin> set mqSet"
  from assms(3) obtain co2 where
    d: "drop_queues kind env (filter ?gone ?t) (co\<lparr>co_rebalance := ?rb\<lparr>rb_processQueueTable := filter (\<lambda>e. \<not> ?gone e) ?t\<rparr>\<rparr>) = Inr co2"
    and a: "add_queues kind env now mqSet co2 = Inr (co', reqs)"
    and ch: "changed = (filter ?gone ?t \<noteq> [] \<or> reqs \<noteq> [])"
    by (auto simp: updateProcessQueueTableInRebalance_def Let_def bind_r_Inr)
  have r2: "co_rebalance co2 = drop_part topic mqSet ?rb"
    using drop_queues_keeps [OF d] by (simp add: drop_where_def Let_def)
  have "rb_ok (co_rebalance co2)" using drop_where_ok [OF assms(1)] r2 by simp
  from add_queues_added [OF this sok_distinct [OF assms(2)] a]
  show "rb_ok (co_rebalance co')" "added mqSet (drop_part topic mqSet ?rb) (co_rebalance co') reqs"
    "never_refuses kind env \<Longrightarrow> map prq_messageQueue reqs = filter (\<lambda>q. mget (rb_processQueueTable (drop_part topic mqSet ?rb)) q = None) mqSet"
    by (simp_all add: r2)
  show "changed \<longleftrightarrow> filter ?gone ?t \<noteq> [] \<or> reqs \<noteq> []" by (fact ch)
qed

lemma added_requests:
  assumes "rb_ok rb" "sok mqSet" "\<forall>q \<in> set mqSet. getTopic q = topic" "added mqSet (drop_part topic mqSet rb) rb' reqs"
  shows "distinct (map prq_messageQueue reqs)"
    and "r \<in> set reqs \<Longrightarrow> prq_messageQueue r \<in> set mqSet \<and> mget (rb_processQueueTable rb) (prq_messageQueue r) = None"
    and "map_of (map (\<lambda>r. (prq_messageQueue r, prq_processQueue r)) reqs) q \<noteq> None \<longleftrightarrow> q \<in> prq_messageQueue ` set reqs"
proof -
  obtain P where "map prq_messageQueue reqs = filter (\<lambda>q. mget (rb_processQueueTable (drop_part topic mqSet rb)) q = None \<and> P q) mqSet"
    using assms(4) by (auto simp: added_def)
  then have r: "map prq_messageQueue reqs = filter (\<lambda>q. mget (rb_processQueueTable rb) q = None \<and> P q) mqSet"
    using assms(3) unfolding drop_where_look [OF assms(1)] by (auto intro: filter_cong)
  then show "distinct (map prq_messageQueue reqs)" using sok_distinct [OF assms(2)] by simp
  have s: "prq_messageQueue ` set reqs = {q \<in> set mqSet. mget (rb_processQueueTable rb) q = None \<and> P q}"
    using arg_cong [OF r, of set] by auto
  then show "r \<in> set reqs \<Longrightarrow> prq_messageQueue r \<in> set mqSet \<and> mget (rb_processQueueTable rb) (prq_messageQueue r) = None" by blast
  have "fst ` set (map (\<lambda>r. (prq_messageQueue r, prq_processQueue r)) reqs) = prq_messageQueue ` set reqs" by force
  then show "map_of (map (\<lambda>r. (prq_messageQueue r, prq_processQueue r)) reqs) q \<noteq> None \<longleftrightarrow> q \<in> prq_messageQueue ` set reqs"
    by (simp only: map_of_eq_None_iff) auto
qed

lemma added_look:
  assumes "rb_ok rb" "added mqSet (drop_part topic mqSet rb) rb' reqs"
  shows "mget (rb_processQueueTable rb') q =
    (case if getTopic q = topic \<and> q \<notin> set mqSet then None else mget (rb_processQueueTable rb) q of
       Some a \<Rightarrow> Some a | None \<Rightarrow> map_of (map (\<lambda>r. (prq_messageQueue r, prq_processQueue r)) reqs) q)"
  using assms(2) unfolding added_def drop_where_look [OF assms(1)] by blast

lemma added_owns:
  assumes "rb_ok rb" "sok mqSet" "\<forall>q \<in> set mqSet. getTopic q = topic" "added mqSet (drop_part topic mqSet rb) rb' reqs"
  shows "getTopic q = topic \<Longrightarrow> (mget (rb_processQueueTable rb') q \<noteq> None) =
      (q \<in> set mqSet \<and> (mget (rb_processQueueTable rb) q \<noteq> None \<or> q \<in> prq_messageQueue ` set reqs))"
    and "getTopic q \<noteq> topic \<Longrightarrow> mget (rb_processQueueTable rb') q = mget (rb_processQueueTable rb) q"
proof -
  note look = added_look [OF assms(1,4), of q] and asked = added_requests(3) [OF assms, of q]
  have sub: "q \<in> prq_messageQueue ` set reqs \<Longrightarrow> q \<in> set mqSet" using added_requests(2) [OF assms] by blast
  show "getTopic q = topic \<Longrightarrow> (mget (rb_processQueueTable rb') q \<noteq> None) =
      (q \<in> set mqSet \<and> (mget (rb_processQueueTable rb) q \<noteq> None \<or> q \<in> prq_messageQueue ` set reqs))"
    using look asked sub by (cases "q \<in> set mqSet") (auto split: option.splits)
  show "mget (rb_processQueueTable rb') q = mget (rb_processQueueTable rb) q" if "getTopic q \<noteq> topic"
  proof -
    have "q \<notin> prq_messageQueue ` set reqs" using sub that assms(3) by blast
    with look asked that show ?thesis by (auto split: option.splits)
  qed
qed

lemma added_keeps:
  assumes "rb_ok rb" "added mqSet (drop_part topic mqSet rb) rb' reqs" "mget (rb_processQueueTable rb) q = Some a"
  shows "if getTopic q = topic \<and> q \<notin> set mqSet then pq_dropped (rb_heap rb' ! a)
    else mget (rb_processQueueTable rb') q = Some a \<and> rb_heap rb' ! a = rb_heap rb ! a"
proof -
  have "a < length (rb_heap rb)" using assms(1) map_of_SomeD [OF assms(3)] by (auto simp: rb_ok_def)
  then have "rb_heap rb' ! a = rb_heap (drop_part topic mqSet rb) ! a" using assms(2) by (simp add: added_def drop_where_fields)
  with drop_where_heap [OF assms(1,3), of "\<lambda>mq. getTopic mq = topic \<and> mq \<notin> set mqSet"] added_look [OF assms(1,2), of q] assms(3) show ?thesis by simp
qed

text \<open>
  Property C5. After a rebalance of a topic the consumer owns only queues of its share, namely those it
  owned before and those for which it issues a pull request, and all of them unless a starting
  point was refused. Queues of other topics are untouched, queues it keeps keep their process queue
  and the messages in it, queues it loses have their process queue dropped (so that pull and consume
  requests still holding it stop), and for each queue it gains there is exactly one pull request,
  with a process queue of its own and a valid starting offset. Whether something changed is
  reported truthfully, and the ownership invariant is kept.
\<close>

theorem rebalance_installs_share:
  assumes "rb_ok (co_rebalance co)" "sok mqSet" "\<forall>q \<in> set mqSet. getTopic q = topic"
    and "updateProcessQueueTableInRebalance kind env now topic mqSet co = Inr (co', reqs, changed)"
  shows "rb_ok (co_rebalance co') \<and>
    (\<forall>q. getTopic q = topic \<longrightarrow> (mget (rb_processQueueTable (co_rebalance co')) q \<noteq> None) =
       (q \<in> set mqSet \<and> (mget (rb_processQueueTable (co_rebalance co)) q \<noteq> None \<or> q \<in> prq_messageQueue ` set reqs))) \<and>
    (never_refuses kind env \<longrightarrow> (\<forall>q \<in> set mqSet. mget (rb_processQueueTable (co_rebalance co')) q \<noteq> None)) \<and>
    (\<forall>q. getTopic q \<noteq> topic \<longrightarrow>
       mget (rb_processQueueTable (co_rebalance co')) q = mget (rb_processQueueTable (co_rebalance co)) q) \<and>
    (\<forall>q a. mget (rb_processQueueTable (co_rebalance co)) q = Some a \<longrightarrow>
       (if getTopic q = topic \<and> q \<notin> set mqSet then pq_dropped (rb_heap (co_rebalance co') ! a)
        else mget (rb_processQueueTable (co_rebalance co')) q = Some a \<and>
          rb_heap (co_rebalance co') ! a = rb_heap (co_rebalance co) ! a)) \<and>
    distinct (map prq_messageQueue reqs) \<and>
    (\<forall>r \<in> set reqs. mget (rb_processQueueTable (co_rebalance co)) (prq_messageQueue r) = None \<and>
       0 \<le> prq_nextOffset r \<and> prq_consumerGroup r = rb_consumerGroup (co_rebalance co) \<and>
       mget (rb_processQueueTable (co_rebalance co')) (prq_messageQueue r) = Some (prq_processQueue r)) \<and>
    changed = (\<exists>q. (mget (rb_processQueueTable (co_rebalance co)) q \<noteq> None) \<noteq> (mget (rb_processQueueTable (co_rebalance co')) q \<noteq> None))"
proof -
  let ?rb = "co_rebalance co" and ?t = "rb_processQueueTable (co_rebalance co)" and ?t' = "rb_processQueueTable (co_rebalance co')"
  note U = update_added [OF assms(1,2,4)]
  note reqs = added_requests [OF assms(1-3) U(2)] and owns = added_owns [OF assms(1-3) U(2)]
  have req: "mget ?t (prq_messageQueue r) = None \<and> 0 \<le> prq_nextOffset r \<and> prq_consumerGroup r = rb_consumerGroup ?rb \<and>
      mget ?t' (prq_messageQueue r) = Some (prq_processQueue r)" if "r \<in> set reqs" for r
  proof -
    have "map_of (map (\<lambda>r. (prq_messageQueue r, prq_processQueue r)) reqs) (prq_messageQueue r) = Some (prq_processQueue r)"
      using reqs(1) that by (intro map_of_is_SomeI) (auto simp: comp_def)
    then show ?thesis
      using reqs(2) [OF that] added_look [OF assms(1) U(2), of "prq_messageQueue r"] U(2) that by (simp add: added_def drop_where_fields)
  qed
  have all: "mget ?t' q \<noteq> None" if "never_refuses kind env" "q \<in> set mqSet" for q
  proof (cases "mget ?t q")
    case None
    with that(2) have "q \<in> set (map prq_messageQueue reqs)" unfolding U(4) [OF that(1)] by (simp add: drop_where_look [OF assms(1)])
    then show ?thesis using req by auto
  qed (use owns(1) [of q] that(2) assms(3) in auto)
  have "distinct (map fst ?t)" using assms(1) mok_distinct by (auto simp: rb_ok_def mkeys_def)
  from map_of_eq_Some_iff [OF this]
  have gone: "(filter (\<lambda>(mq, a). getTopic mq = topic \<and> mq \<notin> set mqSet) ?t \<noteq> []) =
      (\<exists>q a. mget ?t q = Some a \<and> getTopic q = topic \<and> q \<notin> set mqSet)"
    by (fastforce simp: filter_empty_conv)
  have "changed = (\<exists>q. (mget ?t q \<noteq> None) \<noteq> (mget ?t' q \<noteq> None))"
  proof
    assume changed
    then consider q a where "mget ?t q = Some a" "getTopic q = topic" "q \<notin> set mqSet" | r where "r \<in> set reqs"
      using U(3) gone by (cases reqs) auto
    then show "\<exists>q. (mget ?t q \<noteq> None) \<noteq> (mget ?t' q \<noteq> None)"
    proof cases
      case (1 q a)
      then show ?thesis using owns(1) [of q] by (intro exI [of _ q]) simp
    next
      case (2 r)
      then show ?thesis using req by (intro exI [of _ "prq_messageQueue r"]) simp
    qed
  next
    assume "\<exists>q. (mget ?t q \<noteq> None) \<noteq> (mget ?t' q \<noteq> None)"
    then obtain q where q: "(mget ?t q \<noteq> None) \<noteq> (mget ?t' q \<noteq> None)" by blast
    have "getTopic q = topic" by (rule ccontr) (use q owns(2) [of q] in simp)
    with q owns(1) [of q] gone show changed unfolding U(3) by (cases reqs) auto
  qed
  with U(1) owns added_keeps [OF assms(1) U(2)] reqs(1) req all show ?thesis by blast
qed

lemma pull_never_refuses: "never_refuses PullConsumer env"
  by (simp add: never_refuses_def computePullFromWhere_def)

definition sample_rebalance :: RebalanceImpl where
  "sample_rebalance = \<lparr>rb_consumerGroup = ''g'', rb_messageModel = CLUSTERING,
     rb_subscriptionInner = [(''T'', SubscriptionData_new 0 ''T'' ''*'')],
     rb_topicSubscribeInfoTable = [(''T'', [MessageQueue ''T'' ''a'' 0, MessageQueue ''T'' ''b'' 0])],
     rb_processQueueTable = [(MessageQueue ''T'' ''a'' 0, 0), (MessageQueue ''T'' ''b'' 0, 1)],
     rb_heap = [ProcessQueue_new 0, ProcessQueue_new 0]\<rparr>"

definition sample_consumer :: Consumer where
  "sample_consumer = \<lparr>co_rebalance = sample_rebalance, co_store = Remote (RemoteBrokerOffsetStore_new ''g''),
     co_client = sample_client\<rparr>"

lemma sample_rb_ok: "rb_ok sample_rebalance"
proof -
  have "MessageQueue ''T'' ''a'' 0 < MessageQueue ''T'' ''b'' 0" by code_simp
  then show ?thesis by (simp add: rb_ok_def sample_rebalance_def ProcessQueue_new_def numeral_nat)
qed

theorem rebalance_installs_share_witness:
  "\<exists>co' reqs changed.
     updateProcessQueueTableInRebalance PullConsumer silent_env 5 ''T'' [MessageQueue ''T'' ''a'' 0, MessageQueue ''T'' ''c'' 0]
       sample_consumer = Inr (co', reqs, changed) \<and>
     MessageQueue ''T'' ''c'' 0 \<in> prq_messageQueue ` set reqs \<and>
     mget (rb_processQueueTable (co_rebalance co')) (MessageQueue ''T'' ''a'' 0) = Some 0 \<and>
     pq_dropped (rb_heap (co_rebalance co') ! 1) \<and> changed"
proof -
  let ?s = "[MessageQueue ''T'' ''a'' 0, MessageQueue ''T'' ''c'' 0]"
  have s: "sok ?s" by code_simp
  have ok: "rb_ok (co_rebalance sample_consumer)" using sample_rb_ok by (simp add: sample_consumer_def)
  have tp: "\<forall>q \<in> set ?s. getTopic q = ''T''" by simp
  obtain x where x: "updateProcessQueueTableInRebalance PullConsumer silent_env 5 ''T'' ?s sample_consumer = Inr x"
    by (simp add: updateProcessQueueTableInRebalance_def sample_consumer_def sample_rebalance_def
        removeUnnecessaryMessageQueue_def persist_def computePullFromWhere_def)
  obtain co' reqs changed where x': "x = (co', reqs, changed)" by (cases x)
  have t: "mget (rb_processQueueTable (co_rebalance sample_consumer)) (MessageQueue ''T'' ''a'' 0) = Some 0"
    "mget (rb_processQueueTable (co_rebalance sample_consumer)) (MessageQueue ''T'' ''b'' 0) = Some 1"
    "mget (rb_processQueueTable (co_rebalance sample_consumer)) (MessageQueue ''T'' ''c'' 0) = None"
    by (simp_all add: sample_consumer_def sample_rebalance_def)
  note R = rebalance_installs_share [OF ok s tp x [unfolded x']]
  note kept = R [THEN conjunct2, THEN conjunct2, THEN conjunct2, THEN conjunct2, THEN conjunct1, rule_format]
  have c: "mget (rb_processQueueTable (co_rebalance co')) (MessageQueue ''T'' ''c'' 0) \<noteq> None"
    using R [THEN conjunct2, THEN conjunct2, THEN conjunct1] pull_never_refuses by simp
  then have "MessageQueue ''T'' ''c'' 0 \<in> prq_messageQueue ` set reqs"
    using R [THEN conjunct2, THEN conjunct1, rule_format, of "MessageQueue ''T'' ''c'' 0"] t(3) by simp
  moreover have "mget (rb_processQueueTable (co_rebalance co')) (MessageQueue ''T'' ''a'' 0) = Some 0"
    using kept [OF t(1)] by simp
  moreover have "pq_dropped (rb_heap (co_rebalance co') ! 1)" using kept [OF t(2)] by simp
  moreover have "changed" using R c t(3) by blast
  ultimately show ?thesis using x [unfolded x'] by (intro exI conjI)
qed

lemma lockBatch_grants_nothing:
  assumes "lockBatchMQ e net addr grp cid mqs api = (api', Inr l)"
  shows "l = []"
proof (cases "with_prefix api grp")
  case (Inr g)
  show ?thesis
  proof (cases "map_r (\<lambda>q. bind_r (with_prefix api (getTopic q)) (\<lambda>t. Inr (setTopic_mq q t))) mqs")
    case Inl
    with assms Inr show ?thesis by (simp add: lockBatchMQ_def)
  next
    case (Inr ms)
    obtain request api1 where "new_request e LOCK_BATCH_MQ_VALUE None (Some (LockBatchRequestBody_Encode g cid ms)) api = (request, api1)"
      by (cases "new_request e LOCK_BATCH_MQ_VALUE None (Some (LockBatchRequestBody_Encode g cid ms)) api")
    with assms Inr \<open>with_prefix api grp = Inr g\<close> show ?thesis
      by (cases "net addr request") (auto simp: lockBatchMQ_def LockBatchResponseBody_Decode_def split: if_splits)
  qed
qed (use assms in \<open>simp add: lockBatchMQ_def\<close>)

text \<open>
  The broker lock is never granted to the client: whatever the broker answers,
  locking a queue reports failure and marks no process queue as locked.
\<close>

theorem lock_never_granted:
  assumes "lock_mq env now mq co = Inr (co', ok)"
  shows "\<not> ok \<and> co_rebalance co' = co_rebalance co"
  using assms
  by (auto simp: lock_mq_def bind_r_Inr mark_locked_def Let_def split: if_splits sum.splits prod.splits
      dest: lockBatch_grants_nothing)

definition granting_env :: ClientEnv where
  "granting_env = silent_env\<lparr>en_net := (\<lambda>addr cmd. Some ((RemotingCommand_new SUCCESS_VALUE ''JAVA'' 0 (rc_opaque cmd) 1 [] None)
     \<lparr>rc_body := Some ''all queues locked'', rc_bodyLen := 17\<rparr>))\<rparr>"

theorem lock_never_granted_witness:
  "\<exists>co'. lock_mq granting_env 5 (MessageQueue ''T'' ''a'' 0) sample_consumer = Inr (co', False) \<and>
     co_rebalance co' = co_rebalance sample_consumer"
proof -
  have "\<exists>x. lock_mq granting_env 5 (MessageQueue ''T'' ''a'' 0) sample_consumer = Inr x"
    by (simp add: lock_mq_def master_address_def findBrokerAddressInSubscribe_def sample_consumer_def sample_client_def
        sample_factory_def sample_api_def lockBatchMQ_def isBlank_def granting_env_def new_request_def Let_def
        LockBatchResponseBody_Decode_def RemotingCommand_new_def MASTER_ID_def split: prod.splits)
      (rule exI [of _ False], simp)
  then obtain co' ok where "lock_mq granting_env 5 (MessageQueue ''T'' ''a'' 0) sample_consumer = Inr (co', ok)" by auto
  from this lock_never_granted [OF this] show ?thesis by simp
qed

text \<open>
  Locking or unlocking all queues never returns while the consumer owns a queue:
  the loop that groups the queues by broker does not advance, so no amount of fuel is enough;
  with no queue it returns at once.
\<close>

theorem lock_all_never_ends:
  "(rb_processQueueTable (co_rebalance co) \<noteq> [] \<longrightarrow>
      (\<forall>fuel. lockAll fuel env now co = None \<and> unlockAll fuel env oneway co = None)) \<and>
   (rb_processQueueTable (co_rebalance co) = [] \<longrightarrow>
      lockAll 1 env now co = Some (Inr co) \<and> unlockAll 1 env oneway co = Some (Inr co))"
  using build_loop_stuck [of "rb_processQueueTable (co_rebalance co)"]
  by (auto simp: lockAll_def unlockAll_def buildProcessQueueTableByBrokerName_def)

theorem lock_all_never_ends_witness:
  "lockAll 1000000 silent_env 5 sample_consumer = None \<and> rb_processQueueTable (co_rebalance sample_consumer) \<noteq> []"
proof -
  have "rb_processQueueTable (co_rebalance sample_consumer) \<noteq> []" by (simp add: sample_consumer_def sample_rebalance_def)
  with lock_all_never_ends [of sample_consumer silent_env 5] show ?thesis by blast
qed

section \<open>The whole group\<close>

text \<open>One member: what it owns of the topic after rebalancing with a strategy is its share.\<close>

lemma member_owns_share:
  assumes "rb_ok (co_rebalance co)" "rb_messageModel (co_rebalance co) = CLUSTERING"
    and "mget (rb_topicSubscribeInfoTable (co_rebalance co)) topic = Some mqs"
    and "findConsumerIdList env topic (rb_consumerGroup (co_rebalance co)) (co_client co) = Inr (cl, ids)" "ids \<noteq> []"
    and "allocate (f_clientId (cl_factory cl)) mqs (sort ids) = Inr (Some mine)" "\<forall>q \<in> set mine. getTopic q = topic"
    and "rebalanceByTopic kind allocate env now topic co = Inr (co', reqs, chgs)"
  shows "getTopic q = topic \<Longrightarrow> mget (rb_processQueueTable (co_rebalance co')) q \<noteq> None \<Longrightarrow> q \<in> set mine"
    and "never_refuses kind env \<Longrightarrow> q \<in> set mine \<Longrightarrow> mget (rb_processQueueTable (co_rebalance co')) q \<noteq> None"
proof -
  let ?co1 = "co\<lparr>co_client := cl\<rparr>" and ?s = "fold sput mine []"
  from assms(2-6,8) obtain changed where
    u: "updateProcessQueueTableInRebalance kind env now topic ?s ?co1 = Inr (co', reqs, changed)"
    by (auto simp: rebalanceByTopic_def Let_def bind_r_Inr)
  have s: "sok ?s" by (rule sok_fold_sput) (simp add: sok_def)
  have m: "set ?s = set mine" by simp
  have ok: "rb_ok (co_rebalance ?co1)" using assms(1) by simp
  have tp: "\<forall>q \<in> set ?s. getTopic q = topic" using assms(7) m by simp
  note U = update_added [OF ok s u]
  note o = added_owns(1) [OF ok s tp U(2), of q]
  show "getTopic q = topic \<Longrightarrow> mget (rb_processQueueTable (co_rebalance co')) q \<noteq> None \<Longrightarrow> q \<in> set mine" using o m by simp
  show "mget (rb_processQueueTable (co_rebalance co')) q \<noteq> None" if "never_refuses kind env" "q \<in> set mine"
  proof (cases "mget (rb_processQueueTable (co_rebalance co)) q")
    case None
    then have "q \<in> set (map prq_messageQueue reqs)" using that m unfolding U(4) [OF that(1)] by (simp add: drop_where_look [OF assms(1)])
    then show ?thesis using o that(2) m tp by auto
  qed (use o that(2) m tp in auto)
qed

text \<open>
  Property C4. A whole consumer group shares a topic without overlap: when all members see the same
  queues and the same member list and each has rebalanced with the averaging strategy, no queue of
  the topic is owned by two members; and unless a starting point is refused there is no gap: every
  queue is owned by exactly one of them.
\<close>

theorem group_owns_every_queue_once:
  fixes co co' :: "string \<Rightarrow> Consumer"
  assumes "sizes_ok mqs cids" "sok mqs" "\<forall>q \<in> set mqs. getTopic q = topic" "distinct cids" "[] \<notin> set cids" "q \<in> set mqs"
    and "cids \<noteq> []"
    and "\<forall>c \<in> set cids. rb_ok (co_rebalance (co c)) \<and> rb_messageModel (co_rebalance (co c)) = CLUSTERING \<and>
      mget (rb_topicSubscribeInfoTable (co_rebalance (co c))) topic = Some mqs"
    and "\<forall>c \<in> set cids. findConsumerIdList (env c) topic (rb_consumerGroup (co_rebalance (co c))) (co_client (co c)) =
        Inr (cl c, ids c) \<and> sort (ids c) = cids \<and> f_clientId (cl_factory (cl c)) = c"
    and "\<forall>c \<in> set cids. rebalanceByTopic kind allocate_averagely (env c) now topic (co c) = Inr (co' c, reqs c, chgs c)"
  shows "(\<forall>c \<in> set cids. \<forall>d \<in> set cids. mget (rb_processQueueTable (co_rebalance (co' c))) q \<noteq> None \<and>
      mget (rb_processQueueTable (co_rebalance (co' d))) q \<noteq> None \<longrightarrow> c = d) \<and>
    ((\<forall>c \<in> set cids. never_refuses kind (env c)) \<longrightarrow>
      (\<exists>!c. c \<in> set cids \<and> mget (rb_processQueueTable (co_rebalance (co' c))) q \<noteq> None))"
proof -
  have own: "\<exists>r. allocate_averagely c mqs cids = Inr (Some r) \<and>
      (mget (rb_processQueueTable (co_rebalance (co' c))) q \<noteq> None \<longrightarrow> q \<in> set r) \<and>
      (never_refuses kind (env c) \<and> q \<in> set r \<longrightarrow> mget (rb_processQueueTable (co_rebalance (co' c))) q \<noteq> None)" if c: "c \<in> set cids" for c
  proof -
    have "mqs \<noteq> []" "c \<noteq> []" using assms(5,6) c by auto
    from allocate_averagely_segment [OF assms(1) this c] obtain r where r: "allocate_averagely c mqs cids = Inr (Some r)" by blast
    have sub: "\<forall>q \<in> set r. getTopic q = topic" using averagely.share_sound [OF assms(1) r] assms(3) by blast
    have ids: "ids c \<noteq> []" using assms(7,9) c by fastforce
    have al: "allocate_averagely (f_clientId (cl_factory (cl c))) mqs (sort (ids c)) = Inr (Some r)" using assms(9) c r by simp
    show ?thesis
      using member_owns_share [of "co c" topic mqs "env c" "cl c" "ids c" allocate_averagely r kind now "co' c" "reqs c" "chgs c" q]
        assms(3,6,8-10) c ids al sub r by blast
  qed
  note one = averagely.exactly_one_owner [OF assms(1) sok_distinct [OF assms(2)] assms(7,5,4,6)]
  have excl: "c = d" if "c \<in> set cids" "d \<in> set cids" "mget (rb_processQueueTable (co_rebalance (co' c))) q \<noteq> None"
    "mget (rb_processQueueTable (co_rebalance (co' d))) q \<noteq> None" for c d
    using one own [OF that(1)] own [OF that(2)] that by blast
  have "\<exists>c. c \<in> set cids \<and> mget (rb_processQueueTable (co_rebalance (co' c))) q \<noteq> None" if "\<forall>c \<in> set cids. never_refuses kind (env c)"
  proof -
    from one obtain c r where "c \<in> set cids" "allocate_averagely c mqs cids = Inr (Some r)" "q \<in> set r" by blast
    with own [of c] that show ?thesis by auto
  qed
  with excl show ?thesis by blast
qed

definition group_members :: json where
  "group_members = JObj [(''consumerIdList'', JArr [JStr ''c2'', JStr ''c1''])]"

definition group_env :: ClientEnv where
  "group_env = granting_env\<lparr>en_net := (\<lambda>addr cmd. Some ((RemotingCommand_new SUCCESS_VALUE ''JAVA'' 0 (rc_opaque cmd) 1 [] None)
     \<lparr>rc_body := Some (jprint group_members), rc_bodyLen := int (length (jprint group_members))\<rparr>))\<rparr>"

lemma group_members_read: "GetConsumerListByGroupResponseBody_Decode (c_str (jprint group_members)) = Inr (Some [''c2'', ''c1''])"
proof -
  have p: "json_parse (jprint group_members) = Inr (Some (canon group_members))"
    using json_parse_object [of "[(''consumerIdList'', JArr [JStr ''c2'', JStr ''c1''])]" "[]"]
    by (simp add: group_members_def del: jprint.simps canon.simps)
  have c: "c_str (jprint group_members) = jprint group_members" by (rule c_str_id [OF jprint_no_nul])
  show ?thesis
    unfolding GetConsumerListByGroupResponseBody_Decode_def c p by (simp add: group_members_def c_str_def)
qed

definition sample_member :: "string \<Rightarrow> Consumer" where
  "sample_member c = sample_consumer
     \<lparr>co_rebalance := sample_rebalance\<lparr>rb_processQueueTable := [], rb_heap := []\<rparr>,
      co_client := sample_client\<lparr>cl_factory := sample_factory\<lparr>f_topicRouteTable := [(''T'', sample_route)], f_clientId := c\<rparr>\<rparr>\<rparr>"

definition sample_round :: "string \<Rightarrow> (Consumer \<times> PullRequest list \<times> (string \<times> MessageQueue list \<times> MessageQueue list) list) result" where
  "sample_round c = rebalanceByTopic PullConsumer allocate_averagely group_env 5 ''T'' (sample_member c)"

theorem group_owns_every_queue_once_witness:
  "\<exists>!c. c \<in> set [''c1'', ''c2''] \<and>
     mget (rb_processQueueTable (co_rebalance (fst (projr (sample_round c))))) (MessageQueue ''T'' ''b'' 0) \<noteq> None"
proof (rule group_owns_every_queue_once [where topic = "''T''" and kind = PullConsumer and env = "\<lambda>c. group_env" and now = 5
      and co = sample_member and mqs = "[MessageQueue ''T'' ''a'' 0, MessageQueue ''T'' ''b'' 0]"
      and cl = "\<lambda>c. fst (projr (findConsumerIdList group_env ''T'' ''g'' (co_client (sample_member c))))"
      and ids = "\<lambda>c. [''c2'', ''c1'']" and reqs = "\<lambda>c. fst (snd (projr (sample_round c)))"
      and chgs = "\<lambda>c. snd (snd (projr (sample_round c)))", THEN conjunct2, THEN mp])
  show "sok [MessageQueue ''T'' ''a'' 0, MessageQueue ''T'' ''b'' 0]" by code_simp
  have "rb_ok (co_rebalance (sample_member c))" "rb_messageModel (co_rebalance (sample_member c)) = CLUSTERING"
    "rb_consumerGroup (co_rebalance (sample_member c)) = ''g''"
    "mget (rb_topicSubscribeInfoTable (co_rebalance (sample_member c))) ''T'' = Some [MessageQueue ''T'' ''a'' 0, MessageQueue ''T'' ''b'' 0]" for c
    by (simp_all add: sample_member_def sample_rebalance_def rb_ok_def)
  note m = this
  show "\<forall>c \<in> set [''c1'', ''c2'']. rb_ok (co_rebalance (sample_member c)) \<and>
      rb_messageModel (co_rebalance (sample_member c)) = CLUSTERING \<and>
      mget (rb_topicSubscribeInfoTable (co_rebalance (sample_member c))) ''T'' = Some [MessageQueue ''T'' ''a'' 0, MessageQueue ''T'' ''b'' 0]"
    using m by blast
  show "\<forall>c \<in> set [''c1'', ''c2'']. never_refuses PullConsumer group_env" using pull_never_refuses by blast
  have ask: "\<exists>cl. findConsumerIdList group_env ''T'' ''g'' (co_client (sample_member c)) = Inr (cl, [''c2'', ''c1'']) \<and>
      f_clientId (cl_factory cl) = c" for c
    by (simp add: findConsumerIdList_def findBrokerAddrByTopic_def selectBrokerAddr_def sample_member_def sample_route_def
        MASTER_ID_def getConsumerIdListByGroup_def group_env_def granting_env_def sample_client_def sample_api_def isBlank_def
        group_members_read RemotingCommand_new_def SUCCESS_VALUE_def split: prod.splits)
  show "\<forall>c \<in> set [''c1'', ''c2'']. findConsumerIdList group_env ''T'' (rb_consumerGroup (co_rebalance (sample_member c)))
        (co_client (sample_member c)) =
        Inr (fst (projr (findConsumerIdList group_env ''T'' ''g'' (co_client (sample_member c)))), [''c2'', ''c1'']) \<and>
      sort [''c2'', ''c1''] = [''c1'', ''c2''] \<and>
      f_clientId (cl_factory (fst (projr (findConsumerIdList group_env ''T'' ''g'' (co_client (sample_member c)))))) = c"
  proof
    fix c assume "c \<in> set [''c1'', ''c2'']"
    have "sort [''c2'', ''c1''] = [''c1'', ''c2'']" by code_simp
    with ask [of c] m show "findConsumerIdList group_env ''T'' (rb_consumerGroup (co_rebalance (sample_member c)))
        (co_client (sample_member c)) =
        Inr (fst (projr (findConsumerIdList group_env ''T'' ''g'' (co_client (sample_member c)))), [''c2'', ''c1'']) \<and>
      sort [''c2'', ''c1''] = [''c1'', ''c2''] \<and>
      f_clientId (cl_factory (fst (projr (findConsumerIdList group_env ''T'' ''g'' (co_client (sample_member c)))))) = c"
      by auto
  qed
  have "isl (sample_round ''c1'') = False" "isl (sample_round ''c2'') = False" by code_simp+
  then have "sample_round c = Inr (projr (sample_round c))" if "c \<in> set [''c1'', ''c2'']" for c
    using that by (auto simp: sum.collapse(2))
  then show "\<forall>c \<in> set [''c1'', ''c2'']. rebalanceByTopic PullConsumer allocate_averagely group_env 5 ''T'' (sample_member c) =
      Inr (fst (projr (sample_round c)), fst (snd (projr (sample_round c))), snd (snd (projr (sample_round c))))"
    unfolding sample_round_def [symmetric] prod.collapse by blast
qed (simp_all add: sizes_ok_def)


section \<open>Topics that are no longer subscribed\<close>

lemma truncate_eq:
  "truncateMessageQueueNotMyTopic rb = drop_where (\<lambda>mq. mget (rb_subscriptionInner rb) (getTopic mq) = None) rb"
proof -
  have swap: "(fold (\<lambda>(mq, a). set_pq a (setDropped True)) l rb)\<lparr>rb_processQueueTable := t\<rparr> =
      fold (\<lambda>(mq, a). set_pq a (setDropped True)) l (rb\<lparr>rb_processQueueTable := t\<rparr>)" for l :: "(MessageQueue \<times> nat) list" and t
  proof (induction l arbitrary: rb)
    case (Cons x l)
    have "(set_pq (snd x) (setDropped True) rb)\<lparr>rb_processQueueTable := t\<rparr> = set_pq (snd x) (setDropped True) (rb\<lparr>rb_processQueueTable := t\<rparr>)"
      by (simp add: set_pq_def)
    with Cons.IH [of "set_pq (snd x) (setDropped True) rb"] show ?case by (simp add: split_def)
  qed simp
  show ?thesis
    unfolding truncateMessageQueueNotMyTopic_def drop_where_def Let_def drop_fold(1) swap by simp
qed

text \<open>A rebalance of a topic does nothing to the tables, or updates them with a sorted set of queues.\<close>

lemma rebalance_cases:
  assumes "rebalanceByTopic kind allocate env now topic co = Inr (co', reqs, chgs)"
    and "\<forall>t s. mget (rb_topicSubscribeInfoTable (co_rebalance co)) t = Some s \<longrightarrow> sok s"
  shows "co_rebalance co' = co_rebalance co \<or>
    (\<exists>cl s b. sok s \<and> updateProcessQueueTableInRebalance kind env now topic s (co\<lparr>co_client := cl\<rparr>) = Inr (co', reqs, b))"
proof (cases "rb_messageModel (co_rebalance co)")
  case BROADCASTING
  show ?thesis
  proof (cases "mget (rb_topicSubscribeInfoTable (co_rebalance co)) topic")
    case (Some s)
    with BROADCASTING assms(1) obtain b where "updateProcessQueueTableInRebalance kind env now topic s co = Inr (co', reqs, b)"
      by (auto simp: rebalanceByTopic_def bind_r_Inr)
    then have "updateProcessQueueTableInRebalance kind env now topic s (co\<lparr>co_client := co_client co\<rparr>) = Inr (co', reqs, b)" by simp
    with Some assms(2) show ?thesis by blast
  qed (use BROADCASTING assms(1) in \<open>simp add: rebalanceByTopic_def\<close>)
next
  case CLUSTERING
  obtain cl ids where f: "findConsumerIdList env topic (rb_consumerGroup (co_rebalance co)) (co_client co) = Inr (cl, ids)"
    using CLUSTERING assms(1) by (auto simp: rebalanceByTopic_def bind_r_Inr)
  show ?thesis
  proof (cases "mget (rb_topicSubscribeInfoTable (co_rebalance co)) topic")
    case None
    with CLUSTERING f assms(1) show ?thesis by (auto simp: rebalanceByTopic_def)
  next
    case (Some mqSet)
    show ?thesis
    proof (cases "ids = []")
      case True
      with CLUSTERING f Some assms(1) show ?thesis by (auto simp: rebalanceByTopic_def)
    next
      case False
      with CLUSTERING f Some assms(1) obtain al where
        al: "allocate (f_clientId (cl_factory cl)) mqSet (sort ids) = Inr al"
        by (cases "allocate (f_clientId (cl_factory cl)) mqSet (sort ids)") (auto simp: rebalanceByTopic_def)
      let ?s = "case al of None \<Rightarrow> [] | Some l \<Rightarrow> fold sput l []"
      have "sok ?s" using sok_fold_sput [of "[]"] by (auto simp: sok_def split: option.split)
      moreover from CLUSTERING f Some False al assms(1) obtain b where
        "updateProcessQueueTableInRebalance kind env now topic ?s (co\<lparr>co_client := cl\<rparr>) = Inr (co', reqs, b)"
        by (auto simp: rebalanceByTopic_def Let_def bind_r_Inr)
      ultimately show ?thesis by blast
    qed
  qed
qed

definition rb_inv :: "RebalanceImpl \<Rightarrow> bool" where
  "rb_inv rb \<longleftrightarrow> rb_ok rb \<and> (\<forall>t s. mget (rb_topicSubscribeInfoTable rb) t = Some s \<longrightarrow> sok s)"

lemma rebalance_keeps_inv:
  assumes "rb_inv (co_rebalance co)"
    and "rebalanceByTopic kind allocate env now topic co = Inr (co', reqs, chgs)"
  shows "rb_inv (co_rebalance co') \<and> rb_subscriptionInner (co_rebalance co') = rb_subscriptionInner (co_rebalance co)"
  using rebalance_cases [OF assms(2)]
proof
  show "\<forall>t s. mget (rb_topicSubscribeInfoTable (co_rebalance co)) t = Some s \<longrightarrow> sok s" using assms(1) by (simp add: rb_inv_def)
next
  assume "\<exists>cl s b. sok s \<and> updateProcessQueueTableInRebalance kind env now topic s (co\<lparr>co_client := cl\<rparr>) = Inr (co', reqs, b)"
  then obtain cl s b where s: "sok s"
    and u: "updateProcessQueueTableInRebalance kind env now topic s (co\<lparr>co_client := cl\<rparr>) = Inr (co', reqs, b)" by blast
  have "rb_ok (co_rebalance (co\<lparr>co_client := cl\<rparr>))" using assms(1) by (simp add: rb_inv_def)
  from update_added(1,2) [OF this s u] assms(1) show ?thesis
    by (simp add: rb_inv_def added_def drop_where_fields)
qed (use assms(1) in simp)

lemma rebalance_topics_keeps:
  "rb_inv (co_rebalance co) \<Longrightarrow>
   rebalance_topics kind allocate env now topics co = Inr (co', reqs) \<Longrightarrow>
   rb_inv (co_rebalance co') \<and> rb_subscriptionInner (co_rebalance co') = rb_subscriptionInner (co_rebalance co)"
proof (induction topics arbitrary: co reqs)
  case (Cons t ts)
  from Cons.prems(2) obtain co1 r1 c1 r2 where y: "rebalanceByTopic kind allocate env now t co = Inr (co1, r1, c1)"
    and t: "rebalance_topics kind allocate env now ts co1 = Inr (co', r2)" by (auto simp: bind_r_Inr)
  from rebalance_keeps_inv [OF Cons.prems(1) y] Cons.IH [OF _ t] show ?case by simp
qed simp

text \<open>A queue that a round adds comes with the pull request for its process queue.\<close>

definition requested :: "PullRequest list \<Rightarrow> MessageQueue \<Rightarrow> nat \<Rightarrow> bool" where
  "requested reqs q a \<longleftrightarrow> (\<exists>r \<in> set reqs. prq_messageQueue r = q \<and> prq_processQueue r = a \<and> 0 \<le> prq_nextOffset r)"

lemma topic_requests:
  assumes "rb_inv (co_rebalance co)" "rebalanceByTopic kind allocate env now topic co = Inr (co', reqs, chgs)"
    and "mget (rb_processQueueTable (co_rebalance co')) q = Some a"
  shows "mget (rb_processQueueTable (co_rebalance co)) q = Some a \<or> requested reqs q a"
proof -
  have "\<forall>t s. mget (rb_topicSubscribeInfoTable (co_rebalance co)) t = Some s \<longrightarrow> sok s" using assms(1) by (simp add: rb_inv_def)
  from rebalance_cases [OF assms(2) this] show ?thesis
  proof
    assume "\<exists>cl s b. sok s \<and> updateProcessQueueTableInRebalance kind env now topic s (co\<lparr>co_client := cl\<rparr>) = Inr (co', reqs, b)"
    then obtain cl s b where s: "sok s"
      and u: "updateProcessQueueTableInRebalance kind env now topic s (co\<lparr>co_client := cl\<rparr>) = Inr (co', reqs, b)" by blast
    have ok: "rb_ok (co_rebalance co)" using assms(1) by (simp add: rb_inv_def)
    then have A: "added s (drop_part topic s (co_rebalance co)) (co_rebalance co') reqs" using update_added(2) [OF _ s u] by simp
    have "mget (rb_processQueueTable (co_rebalance co)) q = Some a \<or> map_of (map (\<lambda>r. (prq_messageQueue r, prq_processQueue r)) reqs) q = Some a"
      using added_look [OF ok A, of q] assms(3) by (auto split: option.splits if_splits)
    then show ?thesis using A unfolding added_def requested_def by (auto dest!: map_of_SomeD)
  qed (use assms(3) in simp)
qed

lemma topics_requests:
  "rb_inv (co_rebalance co) \<Longrightarrow> rebalance_topics kind allocate env now topics co = Inr (co', reqs) \<Longrightarrow>
   mget (rb_processQueueTable (co_rebalance co')) q = Some a \<Longrightarrow>
   mget (rb_processQueueTable (co_rebalance co)) q = Some a \<or> requested reqs q a"
proof (induction topics arbitrary: co reqs)
  case (Cons t ts)
  from Cons.prems(2) obtain co1 r1 c1 r2 where y: "rebalanceByTopic kind allocate env now t co = Inr (co1, r1, c1)"
    and t: "rebalance_topics kind allocate env now ts co1 = Inr (co', r2)" "reqs = r1 @ r2" by (auto simp: bind_r_Inr)
  have "rb_inv (co_rebalance co1)" using rebalance_keeps_inv [OF Cons.prems(1) y] by simp
  from Cons.IH [OF this t(1) Cons.prems(3)] topic_requests [OF Cons.prems(1) y, of q a] show ?case
    by (auto simp: t(2) requested_def)
qed simp

lemma doRebalance_inv:
  assumes "rb_inv (co_rebalance co)" "doRebalance kind allocate env now co = Inr (co', reqs)"
  shows "rb_inv (co_rebalance co')"
proof -
  from assms(2) obtain co1 where
    t: "rebalance_topics kind allocate env now (mkeys (rb_subscriptionInner (co_rebalance co))) co = Inr (co1, reqs)"
    and c: "co_rebalance co' = truncateMessageQueueNotMyTopic (co_rebalance co1)"
    by (auto simp: doRebalance_def bind_r_Inr)
  from rebalance_topics_keeps [OF assms(1) t] show ?thesis
    unfolding c truncate_eq by (simp add: rb_inv_def drop_where_ok drop_where_fields)
qed

lemma doRebalance_requests:
  assumes "rb_inv (co_rebalance co)" "doRebalance kind allocate env now co = Inr (co', reqs)"
    and "mget (rb_processQueueTable (co_rebalance co')) q = Some a"
  shows "mget (rb_processQueueTable (co_rebalance co)) q = Some a \<or> requested reqs q a"
proof -
  from assms(2) obtain co1 where
    t: "rebalance_topics kind allocate env now (mkeys (rb_subscriptionInner (co_rebalance co))) co = Inr (co1, reqs)"
    and c: "co_rebalance co' = truncateMessageQueueNotMyTopic (co_rebalance co1)"
    by (auto simp: doRebalance_def bind_r_Inr)
  have "rb_ok (co_rebalance co1)" using rebalance_topics_keeps [OF assms(1) t] by (simp add: rb_inv_def)
  then have "mget (rb_processQueueTable (co_rebalance co1)) q = Some a"
    using assms(3) unfolding c truncate_eq by (simp add: drop_where_look split: if_splits)
  from topics_requests [OF assms(1) t this] show ?thesis .
qed

text \<open>
  Property C10. After a full rebalance every queue the consumer owns belongs to a topic it still
  subscribes, the ownership invariant holds (each owned queue has its own process queue that
  is not dropped), and the subscriptions are as before.
\<close>

theorem rebalance_owns_subscribed:
  assumes "rb_inv (co_rebalance co)" "doRebalance kind allocate env now co = Inr (co', reqs)"
  shows "rb_inv (co_rebalance co') \<and> rb_subscriptionInner (co_rebalance co') = rb_subscriptionInner (co_rebalance co) \<and>
    (\<forall>q a. mget (rb_processQueueTable (co_rebalance co')) q = Some a \<longrightarrow>
       mget (rb_subscriptionInner (co_rebalance co)) (getTopic q) \<noteq> None \<and> \<not> pq_dropped (rb_heap (co_rebalance co') ! a))"
proof -
  from assms(2) obtain co1 where
    t: "rebalance_topics kind allocate env now (mkeys (rb_subscriptionInner (co_rebalance co))) co = Inr (co1, reqs)"
    and c: "co_rebalance co' = truncateMessageQueueNotMyTopic (co_rebalance co1)"
    by (auto simp: doRebalance_def bind_r_Inr)
  note k = rebalance_topics_keeps [OF assms(1) t]
  let ?P = "\<lambda>mq. mget (rb_subscriptionInner (co_rebalance co)) (getTopic mq) = None"
  have d: "co_rebalance co' = drop_where ?P (co_rebalance co1)" using c k by (simp add: truncate_eq)
  have ok: "rb_ok (co_rebalance co1)" using k by (simp add: rb_inv_def)
  have inv: "rb_inv (co_rebalance co')" using k drop_where_ok [OF ok] by (simp add: d rb_inv_def drop_where_fields)
  have own: "\<not> ?P q \<and> \<not> pq_dropped (rb_heap (co_rebalance co') ! a)"
    if "mget (rb_processQueueTable (co_rebalance co')) q = Some a" for q a
  proof
    show "\<not> ?P q" using that unfolding d drop_where_look [OF ok] by (auto split: if_splits)
    show "\<not> pq_dropped (rb_heap (co_rebalance co') ! a)" using map_of_SomeD [OF that] inv by (auto simp: rb_inv_def rb_ok_def)
  qed
  have "rb_subscriptionInner (co_rebalance co') = rb_subscriptionInner (co_rebalance co)"
    unfolding d drop_where_fields using k by simp
  with inv own show ?thesis by blast
qed

theorem rebalance_owns_subscribed_witness:
  "\<exists>co' reqs. doRebalance PullConsumer allocate_averagely silent_env 5
       (sample_consumer\<lparr>co_rebalance := sample_rebalance\<lparr>rb_subscriptionInner := []\<rparr>\<rparr>) = Inr (co', reqs) \<and>
     (\<forall>q. mget (rb_processQueueTable (co_rebalance co')) q = None)"
proof -
  let ?co = "sample_consumer\<lparr>co_rebalance := sample_rebalance\<lparr>rb_subscriptionInner := []\<rparr>\<rparr>"
  have "sok [MessageQueue ''T'' ''a'' 0, MessageQueue ''T'' ''b'' 0]" by code_simp
  then have inv: "rb_inv (co_rebalance ?co)"
    using sample_rb_ok by (auto simp: rb_inv_def rb_ok_def sample_rebalance_def split: if_splits)
  obtain co' reqs where d: "doRebalance PullConsumer allocate_averagely silent_env 5 ?co = Inr (co', reqs)"
    by (simp add: doRebalance_def)
  from rebalance_owns_subscribed [OF inv d]
  have "mget (rb_processQueueTable (co_rebalance co')) q = None" for q
    by (cases "mget (rb_processQueueTable (co_rebalance co')) q") (simp_all add: sample_consumer_def)
  with d show ?thesis by (intro exI conjI allI)
qed

end
