(* ===== verification/Heartbeat.thy ===== *)
theory Heartbeat
  imports Offsets
begin

text \<open>
  \<^verbatim>\<open>src/src/protocol/HeartbeatData.cpp\<close>, \<^verbatim>\<open>src/src/consumer/ConsumeType.cpp\<close>, the heartbeat of
  \<^verbatim>\<open>src/src/MQClientFactory.cpp\<close> and \<^verbatim>\<open>sendHearbeat\<close> of \<^verbatim>\<open>src/src/MQClientAPIImpl.cpp\<close>: what a client
  tells the brokers about its producers and consumers, as a text and as requests.
\<close>

section \<open>The data of a heartbeat\<close>

fun getConsumeTypeString :: "ConsumeType \<Rightarrow> string" where
  "getConsumeTypeString CONSUME_ACTIVELY = ''CONSUME_ACTIVELY''"
| "getConsumeTypeString CONSUME_PASSIVELY = ''CONSUME_PASSIVELY''"

fun getConsumeFromWhereString :: "ConsumeFromWhere \<Rightarrow> string" where
  "getConsumeFromWhereString CONSUME_FROM_LAST_OFFSET = ''CONSUME_FROM_LAST_OFFSET''"
| "getConsumeFromWhereString CONSUME_FROM_LAST_OFFSET_AND_FROM_MIN_WHEN_BOOT_FIRST =
     ''CONSUME_FROM_LAST_OFFSET_AND_FROM_MIN_WHEN_BOOT_FIRST''"
| "getConsumeFromWhereString CONSUME_FROM_MAX_OFFSET = ''CONSUME_FROM_MAX_OFFSET''"
| "getConsumeFromWhereString CONSUME_FROM_MIN_OFFSET = ''CONSUME_FROM_MIN_OFFSET''"

fun getMessageModelString :: "MessageModel \<Rightarrow> string" where
  "getMessageModelString CLUSTERING = ''CLUSTERING''"
| "getMessageModelString BROADCASTING = ''BROADCASTING''"

record ConsumerData =
  cd_groupName :: string
  cd_consumeType :: ConsumeType
  cd_messageModel :: MessageModel
  cd_consumeFromWhere :: ConsumeFromWhere
  cd_subscriptionDataSet :: "SubscriptionData list"

record ProducerData =
  pd_groupName :: string

definition ConsumerData_less :: "ConsumerData \<Rightarrow> ConsumerData \<Rightarrow> bool" where
  "ConsumerData_less a b \<longleftrightarrow> cd_groupName a < cd_groupName b"

definition ProducerData_less :: "ProducerData \<Rightarrow> ProducerData \<Rightarrow> bool" where
  "ProducerData_less a b \<longleftrightarrow> pd_groupName a < pd_groupName b"

text \<open>\<^verbatim>\<open>std::set::insert\<close> under a comparison: an equivalent element stays.\<close>

fun insert_by :: "('a \<Rightarrow> 'a \<Rightarrow> bool) \<Rightarrow> 'a \<Rightarrow> 'a list \<Rightarrow> 'a list" where
  "insert_by lt x [] = [x]"
| "insert_by lt x (y # ys) =
     (if lt y x then y # insert_by lt x ys else if lt x y then x # y # ys else y # ys)"

record HeartbeatData =
  hb_clientID :: string
  hb_producerDataSet :: "ProducerData list"
  hb_consumerDataSet :: "ConsumerData list"

definition HeartbeatData_new :: HeartbeatData where
  "HeartbeatData_new = \<lparr>hb_clientID = [], hb_producerDataSet = [], hb_consumerDataSet = []\<rparr>"

section \<open>The text\<close>

definition encode_consumer :: "ConsumerData \<Rightarrow> string" where
  "encode_consumer data =
     ''{'' @ quote ''consumeFromWhere'' @ '':'' @ quote (getConsumeFromWhereString (cd_consumeFromWhere data)) @ '','' @
     quote ''consumeType'' @ '':'' @ quote (getConsumeTypeString (cd_consumeType data)) @ '','' @
     quote ''groupName'' @ '':'' @ quote (cd_groupName data) @ '','' @
     quote ''messageModel'' @ '':'' @ quote (getMessageModelString (cd_messageModel data)) @ '','' @
     quote ''subscriptionDataSet'' @ '':['' @ comma_items SubscriptionData_encode (cd_subscriptionDataSet data) @ '']}''"

definition encode_producer :: "ProducerData \<Rightarrow> string" where
  "encode_producer data = ''{'' @ quote ''groupName'' @ '':'' @ quote (pd_groupName data) @ ''}''"

definition HeartbeatData_Encode :: "HeartbeatData \<Rightarrow> string" where
  "HeartbeatData_Encode hb =
     ''{'' @ quote ''clientID'' @ '':'' @ quote (hb_clientID hb) @ '','' @
     quote ''consumerDataSet'' @ '':['' @ comma_items encode_consumer (hb_consumerDataSet hb) @ ''],'' @
     quote ''producerDataSet'' @ '':['' @ comma_items encode_producer (hb_producerDataSet hb) @ '']}''"

section \<open>What a client reports\<close>

text \<open>The calls of \<^verbatim>\<open>MQConsumerInner\<close> on a push and on a pull consumer.\<close>

definition consumeType :: "ConsumerInner \<Rightarrow> ConsumeType" where
  "consumeType inner = (if ci_push inner then CONSUME_PASSIVELY else CONSUME_ACTIVELY)"

definition subscriptions :: "ConsumerInner \<Rightarrow> SubscriptionData list" where
  "subscriptions inner =
     (if ci_push inner then fold (\<lambda>(t, sd). insert_by SubscriptionData_less sd) (ci_subscriptionInner inner) [] else [])"

definition consumer_data :: "ConsumerInner \<Rightarrow> ConsumerData" where
  "consumer_data inner =
     \<lparr>cd_groupName = ci_groupName inner, cd_consumeType = consumeType inner, cd_messageModel = ci_messageModel inner,
      cd_consumeFromWhere = ci_consumeFromWhere inner, cd_subscriptionDataSet = subscriptions inner\<rparr>"

definition prepareHeartbeatData :: "ClientFactory \<Rightarrow> HeartbeatData" where
  "prepareHeartbeatData f =
     HeartbeatData_new
       \<lparr>hb_clientID := f_clientId f,
        hb_consumerDataSet := fold (\<lambda>(g, inner). insert_by ConsumerData_less (consumer_data inner)) (f_consumerTable f) [],
        hb_producerDataSet := fold (\<lambda>(g, inner). insert_by ProducerData_less \<lparr>pd_groupName = g\<rparr>) (f_producerTable f) []\<rparr>"

section \<open>Sending\<close>

definition HEART_BEAT_VALUE :: int where "HEART_BEAT_VALUE = 34"

text \<open>
  The project group is appended to the names in place, in the sets of the heartbeat that the next
  broker is sent too. A failure depends on the project group alone, so it comes before any change.
\<close>

definition project_consumer :: "ApiImpl \<Rightarrow> ConsumerData \<Rightarrow> ConsumerData result" where
  "project_consumer api cd =
     bind_r (with_prefix api (cd_groupName cd)) (\<lambda>g.
     bind_r (map_r (\<lambda>sd. bind_r (with_prefix api (sd_topic sd)) (\<lambda>t. Inr (sd\<lparr>sd_topic := t\<rparr>))) (cd_subscriptionDataSet cd)) (\<lambda>sds.
       Inr (cd\<lparr>cd_groupName := g, cd_subscriptionDataSet := sds\<rparr>)))"

definition project_heartbeat :: "ApiImpl \<Rightarrow> HeartbeatData \<Rightarrow> HeartbeatData result" where
  "project_heartbeat api hb =
     (if \<not> isBlank (ap_projectGroupPrefix api) then
        bind_r (map_r (project_consumer api) (hb_consumerDataSet hb)) (\<lambda>cds.
        bind_r (map_r (\<lambda>pd. bind_r (with_prefix api (pd_groupName pd)) (\<lambda>g. Inr (pd\<lparr>pd_groupName := g\<rparr>))) (hb_producerDataSet hb)) (\<lambda>pds.
          Inr (hb\<lparr>hb_consumerDataSet := cds, hb_producerDataSet := pds\<rparr>)))
      else Inr hb)"

definition sendHearbeat ::
  "endian \<Rightarrow> network \<Rightarrow> string \<Rightarrow> HeartbeatData \<Rightarrow> ApiImpl \<Rightarrow>
   ApiImpl \<times> HeartbeatData \<times> (string \<times> RemotingCommand) list \<times> unit result" where
  "sendHearbeat e net addr hb api =
     (case project_heartbeat api hb of
        Inl x \<Rightarrow> (api, hb, [], Inl x)
      | Inr hb' \<Rightarrow>
          (let (request, api') = new_request e HEART_BEAT_VALUE None (Some (HeartbeatData_Encode hb')) api
           in (api', hb', [(addr, request)], plain_answer ''sendHearbeat failed'' (net addr request))))"

text \<open>The loop over the addresses; every exception is caught.\<close>

fun heartbeat_loop ::
  "endian \<Rightarrow> network \<Rightarrow> string list \<Rightarrow> HeartbeatData \<Rightarrow> ApiImpl \<Rightarrow> (ApiImpl \<times> (string \<times> RemotingCommand) list) result" where
  "heartbeat_loop e net [] hb api = Inr (api, [])"
| "heartbeat_loop e net (addr # rest) hb api =
     (let (api', hb', sent, r) = sendHearbeat e net addr hb api in
      if r = Inl Undefined then Inl Undefined
      else bind_r (heartbeat_loop e net rest hb' api') (\<lambda>(api'', more). Inr (api'', sent @ more)))"

definition sendHeartbeatToAllBroker :: "ClientEnv \<Rightarrow> Client \<Rightarrow> (Client \<times> (string \<times> RemotingCommand) list) result" where
  "sendHeartbeatToAllBroker env c =
     (let heartbeatData = prepareHeartbeatData (cl_factory c);
          producerEmpty = (hb_producerDataSet heartbeatData = []);
          consumerEmpty = (hb_consumerDataSet heartbeatData = [])
      in bind_r (heartbeat_loop (en_endian env) (en_net env)
                   (heartbeat_targets producerEmpty consumerEmpty (cl_factory c)) heartbeatData (cl_api c)) (\<lambda>(api', sent).
           Inr (c\<lparr>cl_api := api'\<rparr>, sent)))"

definition sendHeartbeatToAllBrokerWithLock :: "ClientEnv \<Rightarrow> Client \<Rightarrow> (Client \<times> (string \<times> RemotingCommand) list) result" where
  "sendHeartbeatToAllBrokerWithLock env c = (if en_lockHeartbeat env then sendHeartbeatToAllBroker env c else Inr (c, []))"

text \<open>The periodic task.\<close>

definition cleanBroker :: "ClientEnv \<Rightarrow> Client \<Rightarrow> (Client \<times> (string \<times> RemotingCommand) list) result" where
  "cleanBroker env c = sendHeartbeatToAllBrokerWithLock env (c\<lparr>cl_factory := cleanOfflineBroker (cl_factory c)\<rparr>)"

section \<open>The text is JSON\<close>

definition subscription_json :: "SubscriptionData \<Rightarrow> json" where
  "subscription_json sd = JObj [(''codeSet'', JArr (map JInt (sd_codeSet sd))), (''subString'', JStr (sd_subString sd)),
     (''subVersion'', JInt (sd_subVersion sd)), (''tagsSet'', JArr (map JStr (sd_tagsSet sd))), (''topic'', JStr (sd_topic sd))]"

definition consumer_json :: "ConsumerData \<Rightarrow> json" where
  "consumer_json cd = JObj [(''consumeFromWhere'', JStr (getConsumeFromWhereString (cd_consumeFromWhere cd))),
     (''consumeType'', JStr (getConsumeTypeString (cd_consumeType cd))), (''groupName'', JStr (cd_groupName cd)),
     (''messageModel'', JStr (getMessageModelString (cd_messageModel cd))),
     (''subscriptionDataSet'', JArr (map subscription_json (cd_subscriptionDataSet cd)))]"

definition producer_json :: "ProducerData \<Rightarrow> json" where
  "producer_json pd = JObj [(''groupName'', JStr (pd_groupName pd))]"

definition heartbeat_json :: "HeartbeatData \<Rightarrow> (string \<times> json) list" where
  "heartbeat_json hb = [(''clientID'', JStr (hb_clientID hb)),
     (''consumerDataSet'', JArr (map consumer_json (hb_consumerDataSet hb))),
     (''producerDataSet'', JArr (map producer_json (hb_producerDataSet hb)))]"

text \<open>Names that need no escapes, numbers of at most 64 bits.\<close>

definition plain_subscription :: "SubscriptionData \<Rightarrow> bool" where
  "plain_subscription sd \<longleftrightarrow> plain (sd_subString sd) \<and> plain (sd_topic sd) \<and> list_all plain (sd_tagsSet sd) \<and>
     list_all int64 (sd_codeSet sd) \<and> int64 (sd_subVersion sd)"

definition plain_heartbeat :: "HeartbeatData \<Rightarrow> bool" where
  "plain_heartbeat hb \<longleftrightarrow> plain (hb_clientID hb) \<and> list_all (\<lambda>pd. plain (pd_groupName pd)) (hb_producerDataSet hb) \<and>
     list_all (\<lambda>cd. plain (cd_groupName cd) \<and> list_all plain_subscription (cd_subscriptionDataSet cd)) (hb_consumerDataSet hb)"

lemma comma_items_print: "(\<And>x. x \<in> set xs \<Longrightarrow> f x = jprint (g x)) \<Longrightarrow> ''['' @ comma_items f xs @ '']'' = jprint (JArr (map g xs))"
  by (simp add: comma_items_join cong: map_cong)

lemma plain_literals [simp]:
  "plain (getConsumeTypeString t)" "plain (getConsumeFromWhereString w)" "plain (getMessageModelString m)"
proof -
  show "plain (getConsumeTypeString t)" by (cases t) (simp_all add: plain_char_def)
  show "plain (getConsumeFromWhereString w)" by (cases w) (simp_all add: plain_char_def)
  show "plain (getMessageModelString m)" by (cases m) (simp_all add: plain_char_def)
qed

lemma subscription_print:
  assumes "plain_subscription sd"
  shows "SubscriptionData_encode sd = jprint (subscription_json sd)"
proof -
  have c: "''['' @ comma_items show_int (sd_codeSet sd) @ '']'' = jprint (JArr (map JInt (sd_codeSet sd)))"
    by (rule comma_items_print) simp
  have t: "''['' @ comma_items quote (sd_tagsSet sd) @ '']'' = jprint (JArr (map JStr (sd_tagsSet sd)))"
    using assms by (intro comma_items_print) (simp add: plain_subscription_def list_all_iff jquote_plain)
  show ?thesis
    unfolding subscription_json_def jprint_members list.map prod.case c [symmetric] t [symmetric]
    using assms by (simp add: SubscriptionData_encode_def plain_subscription_def jquote_plain plain_char_def)
qed

lemma consumer_print:
  assumes "plain (cd_groupName cd)" "list_all plain_subscription (cd_subscriptionDataSet cd)"
  shows "encode_consumer cd = jprint (consumer_json cd)"
proof -
  have s: "''['' @ comma_items SubscriptionData_encode (cd_subscriptionDataSet cd) @ '']'' =
      jprint (JArr (map subscription_json (cd_subscriptionDataSet cd)))"
    using assms(2) by (intro comma_items_print) (simp add: list_all_iff subscription_print)
  show ?thesis
    unfolding consumer_json_def jprint_members list.map prod.case s [symmetric]
    using assms(1) by (simp add: encode_consumer_def jquote_plain plain_char_def)
qed

lemma producer_print: "plain (pd_groupName pd) \<Longrightarrow> encode_producer pd = jprint (producer_json pd)"
  by (simp add: encode_producer_def producer_json_def jquote_plain plain_char_def)

lemma heartbeat_print:
  assumes "plain_heartbeat hb"
  shows "HeartbeatData_Encode hb = jprint (JObj (heartbeat_json hb))"
proof -
  have c: "''['' @ comma_items encode_consumer (hb_consumerDataSet hb) @ '']'' = jprint (JArr (map consumer_json (hb_consumerDataSet hb)))"
    using assms by (intro comma_items_print) (simp add: plain_heartbeat_def list_all_iff consumer_print)
  have p: "''['' @ comma_items encode_producer (hb_producerDataSet hb) @ '']'' = jprint (JArr (map producer_json (hb_producerDataSet hb)))"
    using assms by (intro comma_items_print) (simp add: plain_heartbeat_def list_all_iff producer_print)
  show ?thesis
    unfolding heartbeat_json_def jprint_members list.map prod.case c [symmetric] p [symmetric]
    using assms by (simp add: HeartbeatData_Encode_def plain_heartbeat_def jquote_plain plain_char_def)
qed

lemma heartbeat_printable: "plain_heartbeat hb \<Longrightarrow> printable (JObj (heartbeat_json hb))"
  by (auto simp: plain_heartbeat_def heartbeat_json_def consumer_json_def producer_json_def subscription_json_def
      plain_subscription_def list_all_iff)

section \<open>One heartbeat for all brokers\<close>

text \<open>Appending the project group twice changes nothing.\<close>

lemma find_last_of_hit: "c \<in> set s \<Longrightarrow> c \<in> set cs \<Longrightarrow> find_last_of s cs \<noteq> None"
  by (auto simp: find_last_of_def find_None_iff in_set_conv_nth)

lemma with_prefix_again: "with_prefix api s = Inr t \<Longrightarrow> with_prefix api t = Inr t"
proof (cases "project_prefix (ap_projectGroupPrefix api)")
  case (Inr p)
  then have "CHR ''%'' \<in> set p" by (auto simp: project_prefix_def Let_def split: if_splits)
  then have "find_last_of (s @ p) p \<noteq> None" by (intro find_last_of_hit [of "CHR ''%''"]) simp_all
  then show "with_prefix api s = Inr t \<Longrightarrow> with_prefix api t = Inr t"
    using Inr by (auto simp: with_prefix_def buildWithProjectGroup_def split: if_splits)
qed (auto simp: with_prefix_def buildWithProjectGroup_def split: if_splits)

lemma map_r_again:
  "map_r f xs = Inr ys \<Longrightarrow> (\<And>x y. f x = Inr y \<Longrightarrow> f y = Inr y) \<Longrightarrow> map_r f ys = Inr ys"
proof (induction xs arbitrary: ys)
  case (Cons x xs)
  then obtain y zs where y: "f x = Inr y" "map_r f xs = Inr zs" "ys = y # zs" by (auto simp: bind_r_Inr)
  with Cons show ?case by simp
qed simp

lemma project_consumer_again: "project_consumer api cd = Inr cd' \<Longrightarrow> project_consumer api cd' = Inr cd'"
proof -
  let ?p = "\<lambda>sd. bind_r (with_prefix api (sd_topic sd)) (\<lambda>t. Inr (sd\<lparr>sd_topic := t\<rparr>))"
  assume "project_consumer api cd = Inr cd'"
  then obtain g sds where g: "with_prefix api (cd_groupName cd) = Inr g" "map_r ?p (cd_subscriptionDataSet cd) = Inr sds"
    and cd': "cd' = cd\<lparr>cd_groupName := g, cd_subscriptionDataSet := sds\<rparr>"
    by (auto simp: project_consumer_def bind_r_Inr)
  have "map_r ?p sds = Inr sds" by (rule map_r_again [OF g(2)]) (auto simp: bind_r_Inr dest: with_prefix_again)
  then show ?thesis using with_prefix_again [OF g(1)] by (simp add: project_consumer_def cd')
qed

lemma project_heartbeat_again: "project_heartbeat api hb = Inr hb' \<Longrightarrow> project_heartbeat api hb' = Inr hb'"
proof (cases "isBlank (ap_projectGroupPrefix api)")
  case False
  let ?p = "\<lambda>pd. bind_r (with_prefix api (pd_groupName pd)) (\<lambda>g. Inr (pd\<lparr>pd_groupName := g\<rparr>))"
  assume "project_heartbeat api hb = Inr hb'"
  with False obtain cds pds where c: "map_r (project_consumer api) (hb_consumerDataSet hb) = Inr cds"
    "map_r ?p (hb_producerDataSet hb) = Inr pds" "hb' = hb\<lparr>hb_consumerDataSet := cds, hb_producerDataSet := pds\<rparr>"
    by (auto simp: project_heartbeat_def bind_r_Inr)
  have "map_r (project_consumer api) cds = Inr cds" by (rule map_r_again [OF c(1) project_consumer_again])
  moreover have "map_r ?p pds = Inr pds" by (rule map_r_again [OF c(2)]) (auto simp: bind_r_Inr dest: with_prefix_again)
  ultimately show ?thesis using False c(3) by (simp add: project_heartbeat_def)
qed (simp add: project_heartbeat_def)

lemma project_heartbeat_cong:
  assumes "ap_projectGroupPrefix api' = ap_projectGroupPrefix api"
  shows "project_heartbeat api' hb = project_heartbeat api hb"
proof -
  have "with_prefix api' = with_prefix api" using assms by (simp add: with_prefix_def fun_eq_iff)
  then show ?thesis using assms by (simp add: project_heartbeat_def project_consumer_def [abs_def])
qed

definition is_heartbeat :: "HeartbeatData \<Rightarrow> RemotingCommand \<Rightarrow> bool" where
  "is_heartbeat hb cmd \<longleftrightarrow> rc_code cmd = HEART_BEAT_VALUE \<and> rc_customHeader cmd = None \<and>
     rc_body cmd = Some (HeartbeatData_Encode hb)"

lemma heartbeat_request:
  assumes "new_request e HEART_BEAT_VALUE None (Some (HeartbeatData_Encode hb)) api = (request, api')"
  shows "is_heartbeat hb request" and "ap_projectGroupPrefix api' = ap_projectGroupPrefix api"
  using assms
  by (auto simp: new_request_def createRequestCommand_def RemotingCommand_request_def setCmdVersion_def SetBody_def
      Encode_cmd_def is_heartbeat_def Let_def split: prod.splits if_splits)

lemma plain_answer_defined: "plain_answer m r \<noteq> Inl Undefined"
  by (simp add: plain_answer_def split: option.split)

lemma heartbeat_loop_sends:
  "project_heartbeat api hb = Inr hb' \<Longrightarrow>
   \<exists>api' sent. heartbeat_loop e net addrs hb api = Inr (api', sent) \<and> map fst sent = addrs \<and> (\<forall>x \<in> set sent. is_heartbeat hb' (snd x))"
proof (induction addrs arbitrary: hb api)
  case (Cons addr addrs)
  obtain request api1 where n: "new_request e HEART_BEAT_VALUE None (Some (HeartbeatData_Encode hb')) api = (request, api1)"
    by (cases "new_request e HEART_BEAT_VALUE None (Some (HeartbeatData_Encode hb')) api")
  have "project_heartbeat api1 hb' = Inr hb'"
    using project_heartbeat_again [OF Cons.prems] project_heartbeat_cong [OF heartbeat_request(2) [OF n]] by simp
  from Cons.IH [OF this] obtain api2 sent where l: "heartbeat_loop e net addrs hb' api1 = Inr (api2, sent)"
    "map fst sent = addrs" "\<forall>x \<in> set sent. is_heartbeat hb' (snd x)" by blast
  have "sendHearbeat e net addr hb api = (api1, hb', [(addr, request)], plain_answer ''sendHearbeat failed'' (net addr request))"
    using Cons.prems n by (simp add: sendHearbeat_def)
  with l heartbeat_request(1) [OF n] show ?case by (simp add: plain_answer_defined)
qed simp

text \<open>A heartbeat changes the state of the calls alone, and does not fail without a project group.\<close>

lemma heartbeat_keeps: "sendHeartbeatToAllBrokerWithLock env c = Inr (c', sent) \<Longrightarrow> \<exists>api. c' = c\<lparr>cl_api := api\<rparr>"
proof -
  assume "sendHeartbeatToAllBrokerWithLock env c = Inr (c', sent)"
  then have "c' = c\<lparr>cl_api := cl_api c\<rparr> \<or> (\<exists>api. c' = c\<lparr>cl_api := api\<rparr>)"
    by (auto simp: sendHeartbeatToAllBrokerWithLock_def sendHeartbeatToAllBroker_def Let_def bind_r_Inr split: if_splits)
  then show ?thesis by blast
qed

lemma heartbeat_blank:
  assumes "isBlank (ap_projectGroupPrefix (cl_api c))"
  shows "\<exists>api sent. sendHeartbeatToAllBrokerWithLock env c = Inr (c\<lparr>cl_api := api\<rparr>, sent)"
proof -
  let ?hb = "prepareHeartbeatData (cl_factory c)"
  have "project_heartbeat (cl_api c) ?hb = Inr ?hb" using assms by (simp add: project_heartbeat_def)
  from heartbeat_loop_sends [OF this] obtain api sent where
    "heartbeat_loop (en_endian env) (en_net env) (heartbeat_targets (hb_producerDataSet ?hb = []) (hb_consumerDataSet ?hb = []) (cl_factory c)) ?hb (cl_api c) =
      Inr (api, sent)" by blast
  then have "sendHeartbeatToAllBroker env c = Inr (c\<lparr>cl_api := api\<rparr>, sent)" by (simp add: sendHeartbeatToAllBroker_def)
  moreover have "c = c\<lparr>cl_api := cl_api c\<rparr>" by simp
  ultimately show ?thesis unfolding sendHeartbeatToAllBrokerWithLock_def by metis
qed

text \<open>What is reported: every registered group once, in the order of the names.\<close>

lemma fold_insert_sorted:
  "sorted_wrt lt (xs @ ys) \<Longrightarrow> fold (insert_by lt) ys xs = xs @ ys"
proof (induction ys arbitrary: xs)
  case (Cons y ys)
  have "insert_by lt y xs = xs @ [y]" using Cons.prems by (induction xs) auto
  with Cons.IH [of "xs @ [y]"] Cons.prems show ?case by simp
qed simp

definition names_agree :: "ClientFactory \<Rightarrow> bool" where
  "names_agree f \<longleftrightarrow> mok (f_consumerTable f) \<and> mok (f_producerTable f) \<and>
     (\<forall>(g, inner) \<in> set (f_consumerTable f). ci_groupName inner = g)"

lemma prepare_reports:
  assumes "names_agree f"
  shows "hb_consumerDataSet (prepareHeartbeatData f) = map (\<lambda>(g, inner). consumer_data inner) (f_consumerTable f)"
    and "hb_producerDataSet (prepareHeartbeatData f) = map (\<lambda>g. \<lparr>pd_groupName = g\<rparr>) (mkeys (f_producerTable f))"
proof -
  have k: "\<forall>x \<in> set (f_consumerTable f). ci_groupName (snd x) = fst x" and o: "sorted_wrt (\<lambda>x y. fst x < fst y) (f_consumerTable f)"
    using assms by (auto simp: names_agree_def mok_def mkeys_def sorted_wrt_map)
  have "sorted_wrt ConsumerData_less (map (\<lambda>(g, inner). consumer_data inner) (f_consumerTable f))"
    unfolding sorted_wrt_map
    by (rule sorted_wrt_mono_rel [OF _ o]) (simp add: k ConsumerData_less_def consumer_data_def case_prod_unfold)
  then show "hb_consumerDataSet (prepareHeartbeatData f) = map (\<lambda>(g, inner). consumer_data inner) (f_consumerTable f)"
    by (auto dest: fold_insert_sorted [of ConsumerData_less "[]", unfolded append_Nil]
        simp: prepareHeartbeatData_def fold_map comp_def case_prod_unfold)
  have "sorted_wrt ProducerData_less (map (\<lambda>g. \<lparr>pd_groupName = g\<rparr>) (mkeys (f_producerTable f)))"
    using assms by (simp add: names_agree_def mok_def sorted_wrt_map ProducerData_less_def)
  then show "hb_producerDataSet (prepareHeartbeatData f) = map (\<lambda>g. \<lparr>pd_groupName = g\<rparr>) (mkeys (f_producerTable f))"
    by (auto dest: fold_insert_sorted [of ProducerData_less "[]", unfolded append_Nil]
        simp: prepareHeartbeatData_def fold_map comp_def case_prod_unfold mkeys_def)
qed

section \<open>Properties\<close>

text \<open>
  Property C19. A heartbeat reaches every broker: whatever the brokers answer, one request goes to every known
  address (to the masters only when there are no consumers), in the order of the table. All of them
  carry the same text, though the project group is appended in place before each, and it names every
  registered group exactly once; nothing but the sequence numbers of the client changes.
\<close>

theorem heartbeat_reaches_brokers:
  assumes "names_agree (cl_factory c)" "f_consumerTable (cl_factory c) \<noteq> [] \<or> f_producerTable (cl_factory c) \<noteq> []"
    and "project_heartbeat (cl_api c) (prepareHeartbeatData (cl_factory c)) = Inr hb"
  shows "\<exists>c' sent. sendHeartbeatToAllBroker env c = Inr (c', sent) \<and> cl_factory c' = cl_factory c \<and>
    map fst sent = concat (map (\<lambda>(name, addrs). map snd (filter (\<lambda>(k, a). a \<noteq> [] \<and>
        (f_consumerTable (cl_factory c) = [] \<longrightarrow> k = MASTER_ID)) addrs)) (f_brokerAddrTable (cl_factory c))) \<and>
    (\<forall>x \<in> set sent. rc_code (snd x) = HEART_BEAT_VALUE \<and> rc_body (snd x) = Some (HeartbeatData_Encode hb)) \<and>
    map cd_groupName (hb_consumerDataSet (prepareHeartbeatData (cl_factory c))) = mkeys (f_consumerTable (cl_factory c)) \<and>
    map pd_groupName (hb_producerDataSet (prepareHeartbeatData (cl_factory c))) = mkeys (f_producerTable (cl_factory c))"
proof -
  note r = prepare_reports [OF assms(1)]
  let ?t = "heartbeat_targets (f_producerTable (cl_factory c) = []) (f_consumerTable (cl_factory c) = []) (cl_factory c)"
  obtain api' sent where l: "heartbeat_loop (en_endian env) (en_net env) ?t (prepareHeartbeatData (cl_factory c)) (cl_api c) =
      Inr (api', sent)" "map fst sent = ?t" "\<forall>x \<in> set sent. is_heartbeat hb (snd x)"
    using heartbeat_loop_sends [OF assms(3)] by blast
  have "mkeys (f_producerTable (cl_factory c)) = [] \<longleftrightarrow> f_producerTable (cl_factory c) = []" by (simp add: mkeys_def)
  then have "sendHeartbeatToAllBroker env c = Inr (c\<lparr>cl_api := api'\<rparr>, sent)"
    using l(1) by (simp add: sendHeartbeatToAllBroker_def r)
  moreover have "map cd_groupName (hb_consumerDataSet (prepareHeartbeatData (cl_factory c))) = mkeys (f_consumerTable (cl_factory c))"
    using assms(1) by (auto simp: r names_agree_def mkeys_def consumer_data_def)
  moreover have "map pd_groupName (hb_producerDataSet (prepareHeartbeatData (cl_factory c))) = mkeys (f_producerTable (cl_factory c))"
    by (simp add: r comp_def)
  ultimately show ?thesis using l(2,3) assms(2) by (auto simp: heartbeat_targets_def is_heartbeat_def)
qed

text \<open>
  The text of a heartbeat is JSON: for names without quotes, backslashes and NUL bytes it is
  the printed object of its parts, and the JSON reader reads them back.
\<close>

theorem heartbeat_is_json:
  assumes "plain_heartbeat hb"
  shows "HeartbeatData_Encode hb = jprint (JObj (heartbeat_json hb)) \<and>
    Reader_parse (HeartbeatData_Encode hb) = Read (canon (JObj (heartbeat_json hb))) []"
  using heartbeat_print [OF assms] parse_object [OF heartbeat_printable [OF assms], of "[]"]
  by (simp del: jprint.simps canon.simps)

definition sample_heartbeat :: HeartbeatData where
  "sample_heartbeat = \<lparr>hb_clientID = ''c'', hb_producerDataSet = [\<lparr>pd_groupName = ''p''\<rparr>],
     hb_consumerDataSet = [\<lparr>cd_groupName = ''g'', cd_consumeType = CONSUME_PASSIVELY, cd_messageModel = CLUSTERING,
       cd_consumeFromWhere = CONSUME_FROM_LAST_OFFSET, cd_subscriptionDataSet = [SubscriptionData_new 5 ''T'' ''*'']\<rparr>]\<rparr>"

theorem heartbeat_is_json_witness:
  "\<exists>m. Reader_parse (HeartbeatData_Encode sample_heartbeat) = Read (JObj m) [] \<and>
     map_of m ''producerDataSet'' = Some (JArr [JObj [(''groupName'', JStr ''p'')]])"
proof -
  have "plain_heartbeat sample_heartbeat"
    by (simp add: plain_heartbeat_def plain_subscription_def sample_heartbeat_def SubscriptionData_new_def plain_char_def int64_def)
  from heartbeat_is_json [OF this, THEN conjunct2] show ?thesis
    by (simp add: heartbeat_json_def sample_heartbeat_def producer_json_def c_str_def)
qed

definition hb_factory :: ClientFactory where
  "hb_factory = \<lparr>f_topicRouteTable = [], f_brokerAddrTable = [(''a'', [(0, ''m1''), (1, ''s1'')]), (''b'', [(0, ''m2'')])],
     f_producerTable = [(''p'', \<lparr>pr_topicPublishInfoTable = []\<rparr>)], f_consumerTable = [], f_adminExtTable = [],
     f_serviceState = RUNNING, f_clientId = ''c''\<rparr>"

definition hb_client :: Client where
  "hb_client = \<lparr>cl_factory = hb_factory, cl_api = \<lparr>ap_projectGroupPrefix = [], ap_nameSrvAddr = ''n'',
     ap_namesrvAddrList = [], ap_seqNumber = 0, ap_configVersion = 0\<rparr>\<rparr>"

theorem heartbeat_reaches_brokers_witness:
  "\<exists>c' sent. sendHeartbeatToAllBroker silent_env hb_client = Inr (c', sent) \<and> map fst sent = [''m1'', ''m2'']"
proof -
  have "project_heartbeat (cl_api hb_client) (prepareHeartbeatData (cl_factory hb_client)) = Inr (prepareHeartbeatData hb_factory)"
    by (simp add: hb_client_def project_heartbeat_def isBlank_def)
  from heartbeat_reaches_brokers [OF _ _ this, of silent_env] show ?thesis
    by (auto simp: hb_client_def hb_factory_def names_agree_def mok_def MASTER_ID_def)
qed

end
