(* ===== verification/Producer.thy ===== *)
theory Producer
  imports Rebalance Heartbeat
begin

text \<open>
  \<^verbatim>\<open>src/src/producer/DefaultMQProducerImpl.cpp\<close>: finding the queues of a topic, choosing one, sending,
  retrying, and the life cycle of a producer. The publish infos of a producer are in the
  factory's table under its group. \<open>deflate\<close> is the compressor, \<open>clock\<close> the readings of the wall
  clock, \<open>junk\<close> the header field the code leaves uninitialised. The send hooks, which are user
  code that cannot change the outcome, are left out.
\<close>

section \<open>State\<close>

record DefaultMQProducerImpl =
  dp_producerGroup :: string
  dp_createTopicKey :: string
  dp_defaultTopicQueueNums :: int
  dp_sendMsgTimeout :: int
  dp_compressMsgBodyOverHowmuch :: int
  dp_maxMessageSize :: int
  dp_retryAnotherBrokerWhenNotStoreOK :: bool
  dp_serviceState :: ServiceState

definition DefaultMQProducer_new :: "string \<Rightarrow> DefaultMQProducerImpl" where
  "DefaultMQProducer_new producerGroup =
     \<lparr>dp_producerGroup = producerGroup, dp_createTopicKey = DEFAULT_TOPIC, dp_defaultTopicQueueNums = 4,
      dp_sendMsgTimeout = 3000, dp_compressMsgBodyOverHowmuch = 4096, dp_maxMessageSize = 131072,
      dp_retryAnotherBrokerWhenNotStoreOK = False, dp_serviceState = CREATE_JUST\<rparr>"

definition publish_table :: "string \<Rightarrow> ClientFactory \<Rightarrow> (string, TopicPublishInfo) stdmap" where
  "publish_table grp f = (case mget (f_producerTable f) grp of None \<Rightarrow> [] | Some p \<Rightarrow> pr_topicPublishInfoTable p)"

definition put_info :: "string \<Rightarrow> string \<Rightarrow> TopicPublishInfo \<Rightarrow> ClientFactory \<Rightarrow> ClientFactory" where
  "put_info grp topic info f =
     (case mget (f_producerTable f) grp of
        None \<Rightarrow> f
      | Some p \<Rightarrow> f\<lparr>f_producerTable := mput grp (p\<lparr>pr_topicPublishInfoTable := mput topic info (pr_topicPublishInfoTable p)\<rparr>)
                     (f_producerTable f)\<rparr>)"

section \<open>Life cycle\<close>

text \<open>\<^verbatim>\<open>start(startFactory)\<close>; \<open>started\<close> says whether the parts of the factory come up.\<close>

definition producer_up ::
  "bool \<Rightarrow> bool \<Rightarrow> DefaultMQProducerImpl \<Rightarrow> ClientFactory \<Rightarrow> (DefaultMQProducerImpl \<times> ClientFactory) \<times> unit result" where
  "producer_up startFactory started dp f =
     (case dp_serviceState dp of
        CREATE_JUST \<Rightarrow>
          (let dp1 = dp\<lparr>dp_serviceState := START_FAILED\<rparr>;
               (f1, registerOK) = registerProducer (dp_producerGroup dp) (Some \<lparr>pr_topicPublishInfoTable = []\<rparr>) f
           in if \<not> registerOK then
                ((dp1\<lparr>dp_serviceState := CREATE_JUST\<rparr>, f1),
                 Inl (MQClientException (''The producer group['' @ dp_producerGroup dp @
                   ''] has been created before, specify another name please.'') (- 1)))
              else
                (let f2 = put_info (dp_producerGroup dp) (dp_createTopicKey dp) TopicPublishInfo_new f1 in
                 if startFactory then
                   (case factory_start started f2 of
                      (f3, Inl x) \<Rightarrow> ((dp1, f3), Inl x)
                    | (f3, Inr _) \<Rightarrow> ((dp1\<lparr>dp_serviceState := RUNNING\<rparr>, f3), Inr ()))
                 else ((dp1\<lparr>dp_serviceState := RUNNING\<rparr>, f2), Inr ())))
      | _ \<Rightarrow> ((dp, f), Inl (MQClientException ''The producer service state not OK, maybe started once, '' (- 1))))"

text \<open>\<^verbatim>\<open>start\<close>: a producer that has come up sends a heartbeat.\<close>

definition producer_start ::
  "ClientEnv \<Rightarrow> bool \<Rightarrow> bool \<Rightarrow> DefaultMQProducerImpl \<Rightarrow> Client \<Rightarrow>
   (DefaultMQProducerImpl \<times> Client) \<times> (string \<times> RemotingCommand) list \<times> unit result" where
  "producer_start env startFactory started dp c =
     (let ((dp1, f1), r) = producer_up startFactory started dp (cl_factory c); c1 = c\<lparr>cl_factory := f1\<rparr> in
      case r of
        Inl x \<Rightarrow> ((dp1, c1), [], Inl x)
      | Inr _ \<Rightarrow>
          (case sendHeartbeatToAllBrokerWithLock env c1 of
             Inl x \<Rightarrow> ((dp1, c1), [], Inl x)
           | Inr (c2, sent) \<Rightarrow> ((dp1, c2), sent, Inr ())))"

definition producer_shutdown ::
  "bool \<Rightarrow> DefaultMQProducerImpl \<Rightarrow> ClientFactory \<Rightarrow> DefaultMQProducerImpl \<times> ClientFactory" where
  "producer_shutdown shutdownFactory dp f =
     (case dp_serviceState dp of
        RUNNING \<Rightarrow>
          (let f1 = unregisterProducer (dp_producerGroup dp) f;
               f2 = (if shutdownFactory then factory_shutdown f1 else f1)
           in (dp\<lparr>dp_serviceState := SHUTDOWN_ALREADY\<rparr>, f2))
      | _ \<Rightarrow> (dp, f))"

definition makeSureStateOK :: "DefaultMQProducerImpl \<Rightarrow> unit result" where
  "makeSureStateOK dp =
     (if dp_serviceState dp \<noteq> RUNNING then Inl (MQClientException ''The producer service state not OK, '' (- 1)) else Inr ())"

section \<open>Finding the queues of a topic\<close>

text \<open>\<^verbatim>\<open>updateTopicRouteInfoFromNameServer(topic, true, producer)\<close> asks for the route of the default topic.\<close>

definition refresh_default_route :: "ClientEnv \<Rightarrow> DefaultMQProducerImpl \<Rightarrow> string \<Rightarrow> Client \<Rightarrow> (Client \<times> bool) result" where
  "refresh_default_route env dp topic c =
     (if \<not> en_trylock env then Inr (c, False)
      else
        (let (api', answer) = getDefaultTopicRouteInfoFromNameServer (en_endian env) (en_net env)
                (dp_createTopicKey dp) (cl_api c)
         in case updateTopicRouteInfoFromNameServer True answer topic (cl_factory c) of
              Inl x \<Rightarrow> Inl x
            | Inr (f', b) \<Rightarrow> Inr (\<lparr>cl_factory = f', cl_api = api'\<rparr>, b)))"

definition usable :: "string \<Rightarrow> string \<Rightarrow> Client \<Rightarrow> bool" where
  "usable grp topic c \<longleftrightarrow> (case mget (publish_table grp (cl_factory c)) topic of None \<Rightarrow> False | Some i \<Rightarrow> ok_info i)"

definition tryToFindTopicPublishInfo ::
  "ClientEnv \<Rightarrow> DefaultMQProducerImpl \<Rightarrow> string \<Rightarrow> Client \<Rightarrow> (Client \<times> TopicPublishInfo) result" where
  "tryToFindTopicPublishInfo env dp topic c =
     (let grp = dp_producerGroup dp in
      bind_r (if usable grp topic c then Inr c
              else bind_r (refresh_route env topic (c\<lparr>cl_factory := put_info grp topic TopicPublishInfo_new (cl_factory c)\<rparr>))
                     (\<lambda>(c', b). Inr c')) (\<lambda>c1.
      bind_r (if usable grp topic c1 then Inr c1
              else bind_r (refresh_default_route env dp topic c1) (\<lambda>(c', b). Inr c')) (\<lambda>c2.
      case mget (publish_table grp (cl_factory c2)) topic of
        None \<Rightarrow> Inl Undefined
      | Some info \<Rightarrow> Inr (c2, info))))"

section \<open>Sending one message\<close>

definition PROPERTY_TRANSACTION_PREPARED :: string where "PROPERTY_TRANSACTION_PREPARED = ''TRAN_MSG''"

definition tryToCompressMessage ::
  "(string \<Rightarrow> string option) \<Rightarrow> DefaultMQProducerImpl \<Rightarrow> 'a Message_scheme \<Rightarrow> ('a Message_scheme \<times> bool) result" where
  "tryToCompressMessage deflate dp msg =
     (case m_body msg of
        None \<Rightarrow> Inr (msg, False)
      | Some body \<Rightarrow>
          if m_bodyLen msg \<ge> dp_compressMsgBodyOverHowmuch dp then
            (case deflate (take (nat (m_bodyLen msg)) body) of
               Some out \<Rightarrow> bind_r (setBody (Some out) (isize out) msg) (\<lambda>m. Inr (m, True))
             | None \<Rightarrow> Inr (msg, False))
          else Inr (msg, False))"

text \<open>
  The result: the client, the requests sent, the message (passed by reference, its body may
  have been replaced by the compressed one), and the outcome.
\<close>

type_synonym 'a sent = "Client \<times> (string \<times> RemotingCommand) list \<times> 'a Message_scheme \<times> SendResult result"

definition sendKernelImpl ::
  "ClientEnv \<Rightarrow> (string \<Rightarrow> string option) \<Rightarrow> int \<Rightarrow> int \<Rightarrow> DefaultMQProducerImpl \<Rightarrow> 'a Message_scheme \<Rightarrow>
   MessageQueue \<Rightarrow> CommunicationMode \<Rightarrow> Client \<Rightarrow> 'a sent" where
  "sendKernelImpl env deflate junk now dp msg mq mode c =
     (let found = (if findBrokerAddressInPublish (getBrokerName mq) (cl_factory c) = []
                   then bind_r (tryToFindTopicPublishInfo env dp (getTopic mq) c) (\<lambda>(c', info). Inr c')
                   else Inr c)
      in case found of
           Inl x \<Rightarrow> (c, [], msg, Inl x)
         | Inr c1 \<Rightarrow>
             (let brokerAddr = findBrokerAddressInPublish (getBrokerName mq) (cl_factory c1) in
              if brokerAddr \<noteq> [] then
                (case tryToCompressMessage deflate dp msg of
                   Inl x \<Rightarrow> (c1, [], msg, Inl x)
                 | Inr (msg1, compressed) \<Rightarrow>
                     (let sysFlag0 = (if compressed then 0 OR CompressedFlag else 0);
                          tranMsg = getProperty PROPERTY_TRANSACTION_PREPARED msg1;
                          sysFlag = (if tranMsg \<noteq> [] \<and> tranMsg = ''true'' then sysFlag0 OR TransactionPreparedType else sysFlag0);
                          requestHeader = SendMessageRequestHeader (dp_producerGroup dp) (m_topic msg1) (dp_createTopicKey dp)
                            (dp_defaultTopicQueueNums dp) (getQueueId mq) sysFlag now (m_flag msg1)
                            (messageProperties2String (m_properties msg1)) junk;
                          (api', out, msg2, r) = sendMessage (en_endian env) (en_net env) brokerAddr (getBrokerName mq) msg1
                            requestHeader mode (cl_api c1)
                      in (c1\<lparr>cl_api := api'\<rparr>, out, msg2, r)))
              else (c1, [], msg, Inl (MQClientException (''The broker['' @ getBrokerName mq @ ''] not exist'') (- 1)))))"

section \<open>Sending with retries\<close>

definition retry_failed :: "SendResult result" where
  "retry_failed = Inl (MQClientException ''Retry many times, still failed'' (- 1))"

text \<open>
  The retry loop. \<open>n\<close> attempts are left, \<open>k\<close> is the number of the next clock reading, \<open>sr\<close> the
  local result variable. Beside the outcome the queues tried are returned.
\<close>

fun send_loop ::
  "ClientEnv \<Rightarrow> (string \<Rightarrow> string option) \<Rightarrow> int \<Rightarrow> (nat \<Rightarrow> int) \<Rightarrow> DefaultMQProducerImpl \<Rightarrow> CommunicationMode \<Rightarrow> int \<Rightarrow>
   nat \<Rightarrow> nat \<Rightarrow> int \<Rightarrow> MessageQueue option \<Rightarrow> TopicPublishInfo \<Rightarrow> SendResult \<Rightarrow> 'a Message_scheme \<Rightarrow> Client \<Rightarrow>
   'a sent \<times> MessageQueue list" where
  "send_loop env deflate junk clock dp mode beginTs 0 k endTs mq info sr msg c = ((c, [], msg, retry_failed), [])"
| "send_loop env deflate junk clock dp mode beginTs (Suc n) k endTs mq info sr msg c =
     (if i32 (endTs - beginTs) < dp_sendMsgTimeout dp then
        (case selectOneMessageQueue (case mq of None \<Rightarrow> [] | Some q \<Rightarrow> getBrokerName q) info of
           Inl x \<Rightarrow> ((c, [], msg, Inl x), [])
         | Inr (info', None) \<Rightarrow> ((c, [], msg, retry_failed), [])
         | Inr (info', Some tmpmq) \<Rightarrow>
             (let (c1, out, msg1, r) = sendKernelImpl env deflate junk (clock k) dp msg tmpmq mode c;
                  next_try = (\<lambda>sr'. let ((c2, out2, msg2, r2), tried) =
                     send_loop env deflate junk clock dp mode beginTs n (k + 2) (clock (k + 1)) (Some tmpmq) info' sr' msg1 c1
                     in ((c2, out @ out2, msg2, r2), tmpmq # tried));
                  finish = (\<lambda>r'. ((c1, out, msg1, r'), [tmpmq]))
              in case r of
                   Inr sendResult \<Rightarrow>
                     (case mode of
                        ASYNC \<Rightarrow> finish (Inr sendResult)
                      | ONEWAY \<Rightarrow> finish (Inr sendResult)
                      | SYNC \<Rightarrow>
                          if sr_sendStatus sendResult \<noteq> SEND_OK \<and> dp_retryAnotherBrokerWhenNotStoreOK dp
                          then next_try sendResult else finish (Inr sendResult))
                 | Inl (RemotingException m code) \<Rightarrow> next_try sr
                 | Inl (MQClientException m code) \<Rightarrow> next_try sr
                 | Inl (MQBrokerException m code) \<Rightarrow>
                     if code \<in> {TOPIC_NOT_EXIST_VALUE, SERVICE_NOT_AVAILABLE_VALUE, SYSTEM_ERROR_VALUE, NO_PERMISSION_VALUE}
                     then next_try sr else finish (Inr sr)
                 | Inl x \<Rightarrow> finish (Inl x)))
      else ((c, [], msg, retry_failed), []))"

definition sendDefaultImpl ::
  "ClientEnv \<Rightarrow> (string \<Rightarrow> string option) \<Rightarrow> int \<Rightarrow> (nat \<Rightarrow> int) \<Rightarrow> DefaultMQProducerImpl \<Rightarrow> 'a Message_scheme \<Rightarrow>
   CommunicationMode \<Rightarrow> Client \<Rightarrow> 'a sent \<times> MessageQueue list" where
  "sendDefaultImpl env deflate junk clock dp msg mode c =
     (case bind_r (makeSureStateOK dp) (\<lambda>_. checkMessage msg (dp_maxMessageSize dp)) of
        Inl x \<Rightarrow> ((c, [], msg, Inl x), [])
      | Inr _ \<Rightarrow>
          (case tryToFindTopicPublishInfo env dp (m_topic msg) c of
             Inl x \<Rightarrow> ((c, [], msg, Inl x), [])
           | Inr (c1, topicPublishInfo) \<Rightarrow>
               if ok_info topicPublishInfo then
                 send_loop env deflate junk clock dp mode (clock 0) 3 1 (clock 0) None topicPublishInfo SendResult_default msg c1
               else if ap_namesrvAddrList (cl_api c1) = []
               then ((c1, [], msg, Inl (MQClientException ''No name server address, please set it.'' (- 1))), [])
               else ((c1, [], msg, Inl (MQClientException ''No route info of this topic, '' (- 1))), [])))"

section \<open>The public sends\<close>

text \<open>The asynchronous and one-way sends drop a broker exception.\<close>

definition drop_broker_exception :: "SendResult result \<Rightarrow> unit result" where
  "drop_broker_exception r = (case r of Inr _ \<Rightarrow> Inr () | Inl (MQBrokerException m n) \<Rightarrow> Inr () | Inl x \<Rightarrow> Inl x)"

definition send_queue_checks :: "DefaultMQProducerImpl \<Rightarrow> 'a Message_scheme \<Rightarrow> MessageQueue \<Rightarrow> unit result" where
  "send_queue_checks dp msg mq =
     bind_r (makeSureStateOK dp) (\<lambda>_.
     bind_r (checkMessage msg (dp_maxMessageSize dp)) (\<lambda>_.
       if m_topic msg \<noteq> getTopic mq then Inl (MQClientException (''message'' @ [CHR 0x27] @ ''s topic not equal mq'' @ [CHR 0x27] @ ''s topic'') (- 1))
       else Inr ()))"

definition send_to_queue ::
  "ClientEnv \<Rightarrow> (string \<Rightarrow> string option) \<Rightarrow> int \<Rightarrow> int \<Rightarrow> DefaultMQProducerImpl \<Rightarrow> 'a Message_scheme \<Rightarrow>
   MessageQueue \<Rightarrow> Client \<Rightarrow> 'a sent" where
  "send_to_queue env deflate junk now dp msg mq c =
     (case send_queue_checks dp msg mq of
        Inl x \<Rightarrow> (c, [], msg, Inl x)
      | Inr _ \<Rightarrow> sendKernelImpl env deflate junk now dp msg mq SYNC c)"

definition caught_all :: "'a result \<Rightarrow> unit result" where
  "caught_all r = (if r = Inl Undefined then Inl Undefined else Inr ())"

definition send_to_queue_async ::
  "ClientEnv \<Rightarrow> (string \<Rightarrow> string option) \<Rightarrow> int \<Rightarrow> int \<Rightarrow> DefaultMQProducerImpl \<Rightarrow> 'a Message_scheme \<Rightarrow>
   MessageQueue \<Rightarrow> Client \<Rightarrow> Client \<times> (string \<times> RemotingCommand) list \<times> 'a Message_scheme \<times> unit result" where
  "send_to_queue_async env deflate junk now dp msg mq c =
     (case send_queue_checks dp msg mq of
        Inl x \<Rightarrow> (c, [], msg, Inl x)
      | Inr _ \<Rightarrow> (let (c', out, msg', r) = sendKernelImpl env deflate junk now dp msg mq ASYNC c in (c', out, msg', caught_all r)))"

definition sendOneway_to_queue ::
  "ClientEnv \<Rightarrow> (string \<Rightarrow> string option) \<Rightarrow> int \<Rightarrow> int \<Rightarrow> DefaultMQProducerImpl \<Rightarrow> 'a Message_scheme \<Rightarrow>
   MessageQueue \<Rightarrow> Client \<Rightarrow> Client \<times> (string \<times> RemotingCommand) list \<times> 'a Message_scheme \<times> unit result" where
  "sendOneway_to_queue env deflate junk now dp msg mq c =
     (case send_queue_checks dp msg mq of
        Inl x \<Rightarrow> (c, [], msg, Inl x)
      | Inr _ \<Rightarrow> (let (c', out, msg', r) = sendKernelImpl env deflate junk now dp msg mq ONEWAY c in (c', out, msg', caught_all r)))"

definition producer_send ::
  "ClientEnv \<Rightarrow> (string \<Rightarrow> string option) \<Rightarrow> int \<Rightarrow> (nat \<Rightarrow> int) \<Rightarrow> DefaultMQProducerImpl \<Rightarrow> 'a Message_scheme \<Rightarrow> Client \<Rightarrow> 'a sent" where
  "producer_send env deflate junk clock dp msg c = fst (sendDefaultImpl env deflate junk clock dp msg SYNC c)"

definition producer_send_async ::
  "ClientEnv \<Rightarrow> (string \<Rightarrow> string option) \<Rightarrow> int \<Rightarrow> (nat \<Rightarrow> int) \<Rightarrow> DefaultMQProducerImpl \<Rightarrow> 'a Message_scheme \<Rightarrow> Client \<Rightarrow>
   Client \<times> (string \<times> RemotingCommand) list \<times> 'a Message_scheme \<times> unit result" where
  "producer_send_async env deflate junk clock dp msg c =
     (let (c', out, msg', r) = fst (sendDefaultImpl env deflate junk clock dp msg ASYNC c) in (c', out, msg', drop_broker_exception r))"

definition producer_sendOneway ::
  "ClientEnv \<Rightarrow> (string \<Rightarrow> string option) \<Rightarrow> int \<Rightarrow> (nat \<Rightarrow> int) \<Rightarrow> DefaultMQProducerImpl \<Rightarrow> 'a Message_scheme \<Rightarrow> Client \<Rightarrow>
   Client \<times> (string \<times> RemotingCommand) list \<times> 'a Message_scheme \<times> unit result" where
  "producer_sendOneway env deflate junk clock dp msg c =
     (let (c', out, msg', r) = fst (sendDefaultImpl env deflate junk clock dp msg ONEWAY c) in (c', out, msg', drop_broker_exception r))"

text \<open>The selector variants do not send.\<close>

definition sendSelectImpl :: "'a Message_scheme \<Rightarrow> CommunicationMode \<Rightarrow> SendResult" where
  "sendSelectImpl msg mode = SendResult_default"

definition send_selected :: "'a Message_scheme \<Rightarrow> SendResult" where
  "send_selected msg = sendSelectImpl msg SYNC"

definition send_selected_async :: "'a Message_scheme \<Rightarrow> unit result" where
  "send_selected_async msg = drop_broker_exception (Inr (sendSelectImpl msg ASYNC))"

definition sendOneway_selected :: "'a Message_scheme \<Rightarrow> unit result" where
  "sendOneway_selected msg = drop_broker_exception (Inr (sendSelectImpl msg ASYNC))"

section \<open>Lemmas\<close>

lemma bind_r_Inl: "bind_r x f = Inl y \<longleftrightarrow> x = Inl y \<or> (\<exists>v. x = Inr v \<and> f v = Inl y)"
  by (cases x) auto

lemma select_loop_other: "select_loop n index mqs lastBrokerName = Some mq \<Longrightarrow> getBrokerName mq \<noteq> lastBrokerName"
  by (induction n arbitrary: index) (auto simp: Let_def split: if_splits)

lemma select_loop_mem: "mqs \<noteq> [] \<Longrightarrow> select_loop n index mqs lastBrokerName = Some mq \<Longrightarrow> mq \<in> set mqs"
  by (induction n arbitrary: index) (auto simp: Let_def queue_pos_less split: if_splits)

lemma select_result:
  assumes "selectOneMessageQueue lastBrokerName info = Inr (info', Some mq)"
  shows "pi_messageQueueList info' = pi_messageQueueList info" "mq \<in> set (pi_messageQueueList info)"
    "lastBrokerName \<noteq> [] \<Longrightarrow> getBrokerName mq \<noteq> lastBrokerName"
proof -
  have ne: "pi_messageQueueList info \<noteq> []"
    using assms by (auto simp: selectOneMessageQueue_def Let_def split: if_splits)
  show "pi_messageQueueList info' = pi_messageQueueList info"
    using assms by (auto simp: selectOneMessageQueue_def Let_def split: if_splits)
  show "mq \<in> set (pi_messageQueueList info)"
    using assms ne by (auto simp: selectOneMessageQueue_def Let_def queue_pos_less split: if_splits dest: select_loop_mem)
  show "getBrokerName mq \<noteq> lastBrokerName" if "lastBrokerName \<noteq> []"
    using assms that by (auto simp: selectOneMessageQueue_def Let_def dest: select_loop_other)
qed

lemma sendMessage_out: "sendMessage e net addr b msg hdr mode api = (api', out, msg', r) \<Longrightarrow> length out \<le> 1 \<and> (\<forall>x \<in> set out. fst x = addr)"
  by (auto simp: sendMessage_def Let_def split: sum.splits prod.splits)

lemma sendKernel_out:
  assumes "sendKernelImpl env deflate junk now dp msg mq mode c = (c', out, msg', r)"
  shows "length out \<le> 1"
  using assms
  by (auto simp: sendKernelImpl_def Let_def split: sum.splits prod.splits if_splits dest: sendMessage_out)

text \<open>One round of the loop.\<close>

lemma send_loop_step:
  assumes "send_loop env deflate junk clock dp mode beginTs (Suc n) k endTs mq info sr msg c = ((c', out, msg', r), tried)"
  shows "(out = [] \<and> tried = [] \<and> c' = c \<and> msg' = msg \<and>
      (r = retry_failed \<or> (\<exists>x. r = Inl x \<and> selectOneMessageQueue (case mq of None \<Rightarrow> [] | Some q \<Rightarrow> getBrokerName q) info = Inl x))) \<or>
    (\<exists>info' q c1 out1 msg1 r1.
      selectOneMessageQueue (case mq of None \<Rightarrow> [] | Some q \<Rightarrow> getBrokerName q) info = Inr (info', Some q) \<and>
      sendKernelImpl env deflate junk (clock k) dp msg q mode c = (c1, out1, msg1, r1) \<and>
      ((out = out1 \<and> tried = [q] \<and> c' = c1 \<and> msg' = msg1 \<and> (r = r1 \<or> r = Inr sr \<and> (\<exists>m code. r1 = Inl (MQBrokerException m code)))) \<or>
       (\<exists>sr' out2 tried2. sr' \<in> insert sr {s. r1 = Inr s} \<and>
          send_loop env deflate junk clock dp mode beginTs n (k + 2) (clock (k + 1)) (Some q) info' sr' msg1 c1 =
            ((c', out2, msg', r), tried2) \<and> out = out1 @ out2 \<and> tried = q # tried2)))"
proof (cases "i32 (endTs - beginTs) < dp_sendMsgTimeout dp")
  case False
  with assms show ?thesis by simp
next
  case True
  show ?thesis
  proof (cases "selectOneMessageQueue (case mq of None \<Rightarrow> [] | Some q \<Rightarrow> getBrokerName q) info")
    case (Inl x)
    with True assms show ?thesis by simp
  next
    case (Inr y)
    obtain info' o' where y: "y = (info', o')" by (cases y)
    show ?thesis
    proof (cases o')
      case None
      with True assms Inr y show ?thesis by simp
    next
      case (Some q)
      obtain c1 out1 msg1 r1 where s: "sendKernelImpl env deflate junk (clock k) dp msg q mode c = (c1, out1, msg1, r1)"
        by (cases "sendKernelImpl env deflate junk (clock k) dp msg q mode c")
      from assms True Inr y Some s show ?thesis
        by (auto simp: Let_def split: sum.splits error.splits CommunicationMode.splits if_splits prod.splits)
    qed
  qed
qed

lemma send_loop_tries:
  assumes "send_loop env deflate junk clock dp mode beginTs n k endTs mq info sr msg c = ((c', out, msg', r), tried)"
    and "\<forall>q \<in> set (pi_messageQueueList info). getBrokerName q \<noteq> []"
    and "\<forall>q. mq = Some q \<longrightarrow> getBrokerName q \<noteq> []"
  shows "length tried \<le> n \<and> length out \<le> length tried \<and> set tried \<subseteq> set (pi_messageQueueList info) \<and>
    (\<forall>i. Suc i < length tried \<longrightarrow> getBrokerName (tried ! i) \<noteq> getBrokerName (tried ! Suc i)) \<and>
    (\<forall>q. mq = Some q \<longrightarrow> tried \<noteq> [] \<longrightarrow> getBrokerName (hd tried) \<noteq> getBrokerName q)"
  using assms
proof (induction n arbitrary: k endTs mq info sr msg c out tried)
  case (Suc n)
  from send_loop_step [OF Suc.prems(1)] show ?case
  proof (elim disjE exE conjE, goal_cases)
    case (3 info' q c1 out1 msg1 r1)
    then show ?case
      using select_result [OF 3(1)] sendKernel_out [OF 3(2)] Suc.prems(3) by (cases mq) simp_all
  next
    case (4 info' q c1 out1 msg1 r1)
    then show ?case
      using select_result [OF 4(1)] sendKernel_out [OF 4(2)] Suc.prems(3) by (cases mq) simp_all
  next
    case (5 info' q c1 out1 msg1 r1 sr' out2 tried2)
    note sel = select_result [OF 5(1)]
    have ih: "length tried2 \<le> n \<and> length out2 \<le> length tried2 \<and> set tried2 \<subseteq> set (pi_messageQueueList info') \<and>
      (\<forall>i. Suc i < length tried2 \<longrightarrow> getBrokerName (tried2 ! i) \<noteq> getBrokerName (tried2 ! Suc i)) \<and>
      (\<forall>qa. Some q = Some qa \<longrightarrow> tried2 \<noteq> [] \<longrightarrow> getBrokerName (hd tried2) \<noteq> getBrokerName qa)"
      using 5 sel Suc.prems(2) by (intro Suc.IH) auto
    have "getBrokerName (tried ! i) \<noteq> getBrokerName (tried ! Suc i)" if "Suc i < length tried" for i
      using that ih 5 by (cases i) (auto simp: hd_conv_nth)
    moreover have "length tried \<le> Suc n \<and> length out \<le> length tried" using ih 5 sendKernel_out [OF 5(2)] by auto
    moreover have "set tried \<subseteq> set (pi_messageQueueList info)" using ih 5 sel by auto
    moreover have "\<forall>qa. mq = Some qa \<longrightarrow> tried \<noteq> [] \<longrightarrow> getBrokerName (hd tried) \<noteq> getBrokerName qa"
      using 5 sel(3) Suc.prems(3) by auto
    ultimately show ?case by blast
  qed simp_all
qed simp

text \<open>A result that stands for an answer of the broker to the request.\<close>

definition answered :: "network \<Rightarrow> string \<times> RemotingCommand \<Rightarrow> SendResult \<Rightarrow> bool" where
  "answered net req s \<longleftrightarrow> (\<exists>resp msgId queueId queueOffset.
     net (fst req) (snd req) = Some resp \<and>
     rc_customHeader resp = Some (SendMessageResponseHeader msgId queueId queueOffset) \<and>
     rc_code resp \<in> {SUCCESS_VALUE, FLUSH_DISK_TIMEOUT_VALUE, FLUSH_SLAVE_TIMEOUT_VALUE, SLAVE_NOT_AVAILABLE_VALUE} \<and>
     sr_msgId s = msgId \<and> sr_queueOffset s = Some queueOffset \<and>
     (sr_sendStatus s = SEND_OK \<longleftrightarrow> rc_code resp = SUCCESS_VALUE))"

lemma processSend_answered:
  assumes "processSendResponse b t (net addr cmd) api = Inr (Some s)"
  shows "answered net (addr, cmd) s"
  using assms
  by (auto simp: processSendResponse_def answered_def SendResult_new_def bind_r_Inr Let_def code_defs
      split: option.splits if_splits sum.splits CommandCustomHeader.splits)

lemma sendMessage_result:
  assumes "sendMessage e net addr b msg hdr SYNC api = (api', out, msg', Inr s)"
  shows "s = SendResult_default \<or> (\<exists>req \<in> set out. answered net req s)"
proof -
  obtain t g ht where w: "with_prefix api (m_topic msg) = Inr t" "with_prefix api (sm_producerGroup hdr) = Inr g"
    "with_prefix api (sm_topic hdr) = Inr ht"
    using assms by (auto simp: sendMessage_def split: sum.splits)
  obtain cmd v where o: "out = [(addr, cmd)]"
    and p: "processSendResponse b (m_topic msg') (net addr cmd) api' = Inr v" and s: "s = (case v of Some s \<Rightarrow> s | None \<Rightarrow> SendResult_default)"
    using assms by (auto simp: sendMessage_def w Let_def bind_r_Inr split: prod.splits)
  show ?thesis using o p s processSend_answered [of b "m_topic msg'" net addr cmd api'] by (cases v) auto
qed

lemma sendKernel_result:
  assumes "sendKernelImpl env deflate junk now dp msg mq SYNC c = (c', out, msg', Inr s)"
  shows "s = SendResult_default \<or> (\<exists>req \<in> set out. answered (en_net env) req s)"
  using assms
  by (auto simp: sendKernelImpl_def Let_def split: sum.splits prod.splits if_splits dest: sendMessage_result)

lemma send_loop_result:
  assumes "send_loop env deflate junk clock dp SYNC beginTs n k endTs mq info sr msg c = ((c', out, msg', Inr s), tried)"
  shows "s = SendResult_default \<or> s = sr \<or> (\<exists>req \<in> set out. answered (en_net env) req s)"
  using assms
proof (induction n arbitrary: k endTs mq info sr msg c out tried)
  case (Suc n)
  from send_loop_step [OF Suc.prems] show ?case
  proof (elim disjE exE conjE, goal_cases)
    case (3 info' q c1 out1 msg1 r1)
    then show ?case using sendKernel_result [of env deflate junk "clock k" dp msg q c c1 out1 msg1 s] by auto
  next
    case (5 info' q c1 out1 msg1 r1 sr' out2 tried2)
    have "s = SendResult_default \<or> s = sr' \<or> (\<exists>req \<in> set out2. answered (en_net env) req s)" using Suc.IH [OF 5(4)] .
    then show ?case using 5(2,3,5) sendKernel_result [of env deflate junk "clock k" dp msg q c c1 out1 msg1 s] by auto
  qed (simp_all add: retry_failed_def)
qed (simp add: retry_failed_def)

lemma sendDefault_loop:
  assumes "sendDefaultImpl env deflate junk clock dp msg mode c = ((c', out, msg', r), tried)" "tried \<noteq> [] \<or> r = Inr s"
  shows "\<exists>c1 info. tryToFindTopicPublishInfo env dp (m_topic msg) c = Inr (c1, info) \<and> ok_info info \<and>
    send_loop env deflate junk clock dp mode (clock 0) 3 1 (clock 0) None info SendResult_default msg c1 = ((c', out, msg', r), tried)"
  using assms by (auto simp: sendDefaultImpl_def split: sum.splits if_splits)

section \<open>One synchronous attempt\<close>

text \<open>The queue a publish info offers next, and the header of the request for a queue.\<close>

definition next_queue :: "TopicPublishInfo \<Rightarrow> MessageQueue" where
  "next_queue info = pi_messageQueueList info ! queue_pos (pi_sendWhichQueue info) (pi_messageQueueList info)"

definition send_header :: "DefaultMQProducerImpl \<Rightarrow> 'a Message_scheme \<Rightarrow> bool \<Rightarrow> MessageQueue \<Rightarrow> int \<Rightarrow> int \<Rightarrow> CommandCustomHeader" where
  "send_header dp msg compressed mq now junk =
     SendMessageRequestHeader (dp_producerGroup dp) (m_topic msg) (dp_createTopicKey dp) (dp_defaultTopicQueueNums dp)
       (getQueueId mq)
       ((if compressed then CompressedFlag else 0) OR
        (if getProperty PROPERTY_TRANSACTION_PREPARED msg = ''true'' then TransactionPreparedType else 0))
       now (m_flag msg) (messageProperties2String (m_properties msg)) junk"

text \<open>What holds when a message can go straight out: nothing has to be looked up and the checks pass.\<close>

definition ready :: "(string \<Rightarrow> string option) \<Rightarrow> DefaultMQProducerImpl \<Rightarrow> 'a Message_scheme \<Rightarrow> Client \<Rightarrow> TopicPublishInfo \<Rightarrow>
  'a Message_scheme \<Rightarrow> bool \<Rightarrow> bool" where
  "ready deflate dp msg c info msg1 compressed \<longleftrightarrow>
     dp_serviceState dp = RUNNING \<and> checkMessage msg (dp_maxMessageSize dp) = Inr () \<and> 0 < dp_sendMsgTimeout dp \<and>
     mget (publish_table (dp_producerGroup dp) (cl_factory c)) (m_topic msg) = Some info \<and> ok_info info \<and>
     findBrokerAddressInPublish (getBrokerName (next_queue info)) (cl_factory c) \<noteq> [] \<and>
     isBlank (ap_projectGroupPrefix (cl_api c)) \<and>
     tryToCompressMessage deflate dp msg = Inr (msg1, compressed)"

lemma find_info_known:
  assumes "mget (publish_table (dp_producerGroup dp) (cl_factory c)) topic = Some info" "ok_info info"
  shows "tryToFindTopicPublishInfo env dp topic c = Inr (c, info)"
  using assms by (simp add: tryToFindTopicPublishInfo_def usable_def Let_def)

lemma sysflag_or:
  "(if t \<noteq> [] \<and> t = ''true'' then (if b then 0 OR x else 0) OR y else (if b then 0 OR x else (0::int))) =
   (if b then x else 0) OR (if t = ''true'' then y else 0)"
  by auto

lemma sendKernel_sync:
  assumes "findBrokerAddressInPublish (getBrokerName mq) (cl_factory c) = addr" "addr \<noteq> []"
    and "isBlank (ap_projectGroupPrefix (cl_api c))" "tryToCompressMessage deflate dp msg = Inr (msg1, compressed)"
  shows "\<exists>api' cmd. sendKernelImpl env deflate junk now dp msg mq SYNC c =
      (c\<lparr>cl_api := api'\<rparr>, [(addr, cmd)], msg1,
       bind_r (processSendResponse (getBrokerName mq) (m_topic msg1) (en_net env addr cmd) api')
         (\<lambda>r. Inr (case r of Some s \<Rightarrow> s | None \<Rightarrow> SendResult_default))) \<and>
    rc_code cmd = SEND_MESSAGE_VALUE \<and> rc_customHeader cmd = Some (send_header dp msg1 compressed mq now junk) \<and>
    rc_body cmd = m_body msg1 \<and> rc_opaque cmd = ap_seqNumber (cl_api c) \<and> isBlank (ap_projectGroupPrefix api')"
  using assms
  by (auto simp: sendKernelImpl_def sendMessage_def Let_def send_header_def createRequestCommand_def RemotingCommand_request_def
      setCmdVersion_def Encode_cmd_def SetBody_def sysflag_or)

lemma compress_topic: "tryToCompressMessage deflate dp msg = Inr (msg1, compressed) \<Longrightarrow> m_topic msg1 = m_topic msg"
  by (auto simp: tryToCompressMessage_def setBody_def bind_r_Inr split: option.splits if_splits sum.splits)

lemma send_loop_first:
  assumes "i32 (endTs - beginTs) < dp_sendMsgTimeout dp" "selectOneMessageQueue [] info = Inr (info', Some q)"
    and "sendKernelImpl env deflate junk (clock k) dp msg q SYNC c = (c1, out, msg1, Inr s)"
    and "sr_sendStatus s = SEND_OK \<or> \<not> dp_retryAnotherBrokerWhenNotStoreOK dp"
  shows "send_loop env deflate junk clock dp SYNC beginTs (Suc n) k endTs None info sr msg c = ((c1, out, msg1, Inr s), [q])"
  using assms by auto

text \<open>The first attempt of a ready send.\<close>

lemma ready_attempt:
  assumes "ready deflate dp msg c info msg1 compressed"
  shows "\<exists>addr api' cmd r. addr = findBrokerAddressInPublish (getBrokerName (next_queue info)) (cl_factory c) \<and>
    r = bind_r (processSendResponse (getBrokerName (next_queue info)) (m_topic msg) (en_net env addr cmd) api')
         (\<lambda>r. Inr (case r of Some s \<Rightarrow> s | None \<Rightarrow> SendResult_default)) \<and>
    rc_code cmd = SEND_MESSAGE_VALUE \<and> rc_customHeader cmd = Some (send_header dp msg1 compressed (next_queue info) (clock 1) junk) \<and>
    rc_body cmd = m_body msg1 \<and> rc_opaque cmd = ap_seqNumber (cl_api c) \<and> isBlank (ap_projectGroupPrefix api') \<and>
    (\<forall>s. r = Inr s \<longrightarrow> sr_sendStatus s = SEND_OK \<or> \<not> dp_retryAnotherBrokerWhenNotStoreOK dp \<longrightarrow>
      sendDefaultImpl env deflate junk clock dp msg SYNC c =
        ((c\<lparr>cl_api := api'\<rparr>, [(addr, cmd)], msg1, Inr s), [next_queue info]))"
proof -
  let ?q = "next_queue info"
  let ?addr = "findBrokerAddressInPublish (getBrokerName ?q) (cl_factory c)"
  note R = assms [unfolded ready_def]
  obtain api' cmd where k: "sendKernelImpl env deflate junk (clock 1) dp msg ?q SYNC c =
      (c\<lparr>cl_api := api'\<rparr>, [(?addr, cmd)], msg1,
       bind_r (processSendResponse (getBrokerName ?q) (m_topic msg1) (en_net env ?addr cmd) api')
         (\<lambda>r. Inr (case r of Some s \<Rightarrow> s | None \<Rightarrow> SendResult_default)))"
    and f: "rc_code cmd = SEND_MESSAGE_VALUE" "rc_customHeader cmd = Some (send_header dp msg1 compressed ?q (clock 1) junk)"
      "rc_body cmd = m_body msg1" "rc_opaque cmd = ap_seqNumber (cl_api c)" "isBlank (ap_projectGroupPrefix api')"
    using sendKernel_sync [of ?q c ?addr deflate dp msg msg1 compressed env junk "clock 1"] R by blast
  let ?r = "bind_r (processSendResponse (getBrokerName ?q) (m_topic msg) (en_net env ?addr cmd) api')
         (\<lambda>r. Inr (case r of Some s \<Rightarrow> s | None \<Rightarrow> SendResult_default))"
  have t: "m_topic msg1 = m_topic msg" using R compress_topic by blast
  have sel: "selectOneMessageQueue [] info = Inr (info\<lparr>pi_sendWhichQueue := i32 (pi_sendWhichQueue info + 1)\<rparr>, Some ?q)"
    using R by (simp add: selectOneMessageQueue_def next_queue_def ok_info_def Let_def)
  have find: "tryToFindTopicPublishInfo env dp (m_topic msg) c = Inr (c, info)" using R find_info_known by blast
  have "sendDefaultImpl env deflate junk clock dp msg SYNC c =
        ((c\<lparr>cl_api := api'\<rparr>, [(?addr, cmd)], msg1, Inr s), [?q])"
    if "?r = Inr s" "sr_sendStatus s = SEND_OK \<or> \<not> dp_retryAnotherBrokerWhenNotStoreOK dp" for s
  proof -
    have "send_loop env deflate junk clock dp SYNC (clock 0) (Suc 2) 1 (clock 0) None info SendResult_default msg c =
        ((c\<lparr>cl_api := api'\<rparr>, [(?addr, cmd)], msg1, Inr s), [?q])"
      using R that k t by (intro send_loop_first [OF _ sel]) (auto simp: i32_def)
    then show ?thesis using R by (simp add: sendDefaultImpl_def makeSureStateOK_def find del: send_loop.simps)
  qed
  then show ?thesis using f by blast
qed

text \<open>A ready send whose answer is good ends after the first attempt.\<close>

lemma ready_result:
  assumes "ready deflate dp msg c info msg1 compressed"
    and "\<And>cmd api'. isBlank (ap_projectGroupPrefix api') \<Longrightarrow>
      processSendResponse (getBrokerName (next_queue info)) (m_topic msg)
        (en_net env (findBrokerAddressInPublish (getBrokerName (next_queue info)) (cl_factory c)) cmd) api' = Inr v"
    and "s = (case v of Some s \<Rightarrow> s | None \<Rightarrow> SendResult_default)" "sr_sendStatus s = SEND_OK"
  shows "\<exists>c' cmd. sendDefaultImpl env deflate junk clock dp msg SYNC c =
      ((c', [(findBrokerAddressInPublish (getBrokerName (next_queue info)) (cl_factory c), cmd)], msg1, Inr s), [next_queue info]) \<and>
    cl_factory c' = cl_factory c \<and> isBlank (ap_projectGroupPrefix (cl_api c')) \<and> rc_code cmd = SEND_MESSAGE_VALUE \<and>
    rc_body cmd = m_body msg1 \<and> rc_customHeader cmd = Some (send_header dp msg1 compressed (next_queue info) (clock 1) junk)"
proof -
  let ?addr = "findBrokerAddressInPublish (getBrokerName (next_queue info)) (cl_factory c)"
  from ready_attempt [OF assms(1), of env clock junk] obtain api' cmd where
    f: "rc_code cmd = SEND_MESSAGE_VALUE" "rc_customHeader cmd = Some (send_header dp msg1 compressed (next_queue info) (clock 1) junk)"
      "rc_body cmd = m_body msg1" "isBlank (ap_projectGroupPrefix api')"
    and go: "\<forall>s. bind_r (processSendResponse (getBrokerName (next_queue info)) (m_topic msg) (en_net env ?addr cmd) api')
         (\<lambda>r. Inr (case r of Some s \<Rightarrow> s | None \<Rightarrow> SendResult_default)) = Inr s \<longrightarrow>
      sr_sendStatus s = SEND_OK \<or> \<not> dp_retryAnotherBrokerWhenNotStoreOK dp \<longrightarrow>
      sendDefaultImpl env deflate junk clock dp msg SYNC c = ((c\<lparr>cl_api := api'\<rparr>, [(?addr, cmd)], msg1, Inr s), [next_queue info])"
    by blast
  have "sendDefaultImpl env deflate junk clock dp msg SYNC c = ((c\<lparr>cl_api := api'\<rparr>, [(?addr, cmd)], msg1, Inr s), [next_queue info])"
    using go assms(2) [OF f(4), of cmd] assms(3,4) by simp
  with f show ?thesis by (intro exI [of _ "c\<lparr>cl_api := api'\<rparr>"] exI [of _ cmd]) simp
qed

text \<open>The answer of a broker that stored the message.\<close>

lemma stored_response:
  assumes "rc_code resp = SUCCESS_VALUE" "rc_customHeader resp = Some (SendMessageResponseHeader msgId queueId queueOffset)"
    and "isBlank (ap_projectGroupPrefix api)"
  shows "processSendResponse b t (Some resp) api = Inr (Some \<lparr>sr_sendStatus = SEND_OK, sr_msgId = msgId,
    sr_messageQueue = Some (MessageQueue t b queueId), sr_queueOffset = Some queueOffset\<rparr>)"
  using assms by (simp add: processSendResponse_def SendResult_new_def code_defs Let_def)

lemma sendKernel_factory:
  assumes "sendKernelImpl env deflate junk now dp msg mq mode c = (c', out, msg', r)"
    and "findBrokerAddressInPublish (getBrokerName mq) (cl_factory c) \<noteq> []"
  shows "cl_factory c' = cl_factory c"
  using assms by (auto simp: sendKernelImpl_def Let_def split: sum.splits prod.splits)

lemma send_loop_factory:
  assumes "send_loop env deflate junk clock dp mode beginTs n k endTs mq info sr msg c = ((c', out, msg', r), tried)"
    and "\<forall>q \<in> set (pi_messageQueueList info). findBrokerAddressInPublish (getBrokerName q) (cl_factory c) \<noteq> []"
  shows "cl_factory c' = cl_factory c"
  using assms
proof (induction n arbitrary: k endTs mq info sr msg c out tried)
  case (Suc n)
  from send_loop_step [OF Suc.prems(1)] show ?case
  proof (elim disjE exE conjE, goal_cases)
    case (3 info' q c1 out1 msg1 r1)
    then show ?case using select_result(2) [OF 3(1)] sendKernel_factory [OF 3(2)] Suc.prems(2) by simp
  next
    case (4 info' q c1 out1 msg1 r1)
    then show ?case using select_result(2) [OF 4(1)] sendKernel_factory [OF 4(2)] Suc.prems(2) by simp
  next
    case (5 info' q c1 out1 msg1 r1 sr' out2 tried2)
    have "cl_factory c1 = cl_factory c" using select_result(2) [OF 5(1)] sendKernel_factory [OF 5(2)] Suc.prems(2) by simp
    moreover have "cl_factory c' = cl_factory c1"
      using Suc.IH [OF 5(4)] select_result(1) [OF 5(1)] Suc.prems(2) calculation by simp
    ultimately show ?case by simp
  qed simp_all
qed simp

lemma send_loop_head:
  assumes "send_loop env deflate junk clock dp mode beginTs (Suc n) k endTs None info sr msg c = ((c', out, msg', r), tried)"
    and "tried \<noteq> []"
  shows "hd tried = next_queue info"
  using send_loop_step [OF assms(1)] assms(2)
  by (auto simp: selectOneMessageQueue_def next_queue_def Let_def split: if_splits)

lemma sendDefault_known:
  assumes "mget (publish_table (dp_producerGroup dp) (cl_factory c)) (m_topic msg) = Some info" "ok_info info"
    and "\<forall>q \<in> set (pi_messageQueueList info). findBrokerAddressInPublish (getBrokerName q) (cl_factory c) \<noteq> []"
    and "sendDefaultImpl env deflate junk clock dp msg mode c = ((c', out, msg', r), tried)"
  shows "cl_factory c' = cl_factory c \<and> (tried \<noteq> [] \<longrightarrow> hd tried = next_queue info)"
proof (cases "bind_r (makeSureStateOK dp) (\<lambda>_. checkMessage msg (dp_maxMessageSize dp))")
  case (Inl x)
  then show ?thesis using assms(4) by (simp add: sendDefaultImpl_def)
next
  case (Inr u)
  have "send_loop env deflate junk clock dp mode (clock 0) (Suc 2) 1 (clock 0) None info SendResult_default msg c =
      ((c', out, msg', r), tried)"
    using assms(4) Inr assms(2) by (simp add: sendDefaultImpl_def find_info_known [OF assms(1,2)] del: send_loop.simps)
  from send_loop_factory [OF this assms(3)] send_loop_head [OF this] show ?thesis by blast
qed

lemma sendKernel_refused:
  assumes "findBrokerAddressInPublish (getBrokerName mq) (cl_factory c) = addr" "addr \<noteq> []"
    and "isBlank (ap_projectGroupPrefix (cl_api c))" "tryToCompressMessage deflate dp msg = Inr (msg1, compressed)"
    and "\<forall>cmd. \<exists>resp. en_net env addr cmd = Some resp \<and> rc_code resp = SYSTEM_ERROR_VALUE"
  shows "\<exists>api' req r. sendKernelImpl env deflate junk now dp msg mq SYNC c = (c\<lparr>cl_api := api'\<rparr>, [req], msg1, r) \<and>
    (\<exists>m. r = Inl (MQClientException m SYSTEM_ERROR_VALUE)) \<and> rc_body (snd req) = m_body msg1 \<and>
    isBlank (ap_projectGroupPrefix api')"
proof -
  from sendKernel_sync [OF assms(1-4), of env junk now] obtain api' cmd where
    k: "sendKernelImpl env deflate junk now dp msg mq SYNC c = (c\<lparr>cl_api := api'\<rparr>, [(addr, cmd)], msg1,
       bind_r (processSendResponse (getBrokerName mq) (m_topic msg1) (en_net env addr cmd) api')
         (\<lambda>r. Inr (case r of Some s \<Rightarrow> s | None \<Rightarrow> SendResult_default)))"
    and f: "rc_body cmd = m_body msg1" "isBlank (ap_projectGroupPrefix api')" by blast
  from assms(5) obtain resp where r: "en_net env addr cmd = Some resp" "rc_code resp = SYSTEM_ERROR_VALUE" by blast
  show ?thesis
    using k f r by (intro exI [of _ api'] exI [of _ "(addr, cmd)"]) (simp add: processSendResponse_def code_defs)
qed

lemma sendKernel_stored:
  assumes "findBrokerAddressInPublish (getBrokerName mq) (cl_factory c) = addr" "addr \<noteq> []"
    and "isBlank (ap_projectGroupPrefix (cl_api c))" "tryToCompressMessage deflate dp msg = Inr (msg1, compressed)"
    and "\<forall>cmd. \<exists>resp. en_net env addr cmd = Some resp \<and> rc_code resp = SUCCESS_VALUE \<and>
      rc_customHeader resp = Some (SendMessageResponseHeader msgId queueId queueOffset)"
  shows "\<exists>api' cmd. sendKernelImpl env deflate junk now dp msg mq SYNC c =
      (c\<lparr>cl_api := api'\<rparr>, [(addr, cmd)], msg1, Inr \<lparr>sr_sendStatus = SEND_OK, sr_msgId = msgId,
        sr_messageQueue = Some (MessageQueue (m_topic msg1) (getBrokerName mq) queueId), sr_queueOffset = Some queueOffset\<rparr>) \<and>
    rc_body cmd = m_body msg1 \<and> rc_customHeader cmd = Some (send_header dp msg1 compressed mq now junk)"
proof -
  from sendKernel_sync [OF assms(1-4), of env junk now] obtain api' cmd where
    k: "sendKernelImpl env deflate junk now dp msg mq SYNC c = (c\<lparr>cl_api := api'\<rparr>, [(addr, cmd)], msg1,
       bind_r (processSendResponse (getBrokerName mq) (m_topic msg1) (en_net env addr cmd) api')
         (\<lambda>r. Inr (case r of Some s \<Rightarrow> s | None \<Rightarrow> SendResult_default)))"
    and f: "rc_body cmd = m_body msg1" "isBlank (ap_projectGroupPrefix api')"
      "rc_customHeader cmd = Some (send_header dp msg1 compressed mq now junk)" by blast
  from assms(5) obtain resp where "en_net env addr cmd = Some resp" "rc_code resp = SUCCESS_VALUE"
    "rc_customHeader resp = Some (SendMessageResponseHeader msgId queueId queueOffset)" by blast
  with k f show ?thesis by (intro exI [of _ api'] exI [of _ cmd]) (simp add: stored_response)
qed

lemma send_loop_refused:
  assumes "i32 (endTs - beginTs) < dp_sendMsgTimeout dp"
    and "selectOneMessageQueue (case mq of None \<Rightarrow> [] | Some q \<Rightarrow> getBrokerName q) info = Inr (info', Some q)"
    and "sendKernelImpl env deflate junk (clock k) dp msg q mode c = (c1, [req], msg1, r1)"
    and "\<exists>m code. r1 = Inl (MQClientException m code)"
    and "send_loop env deflate junk clock dp mode beginTs n (k + 2) (clock (k + 1)) (Some q) info' sr msg1 c1 = ((c2, out, msg2, r), tried)"
  shows "send_loop env deflate junk clock dp mode beginTs (Suc n) k endTs mq info sr msg c = ((c2, req # out, msg2, r), q # tried)"
  using assms by auto

section \<open>Properties\<close>

definition topic_info :: TopicPublishInfo where
  "topic_info = \<lparr>pi_orderTopic = False, pi_messageQueueList = [MessageQueue ''T'' ''a'' 0, MessageQueue ''T'' ''z'' 1],
     pi_sendWhichQueue = 0\<rparr>"

definition publishing_client :: Client where
  "publishing_client = sample_client\<lparr>cl_factory := sample_factory\<lparr>f_producerTable :=
     [(''pg'', \<lparr>pr_topicPublishInfoTable = [(''T'', topic_info)]\<rparr>)]\<rparr>\<rparr>"

definition running_producer :: DefaultMQProducerImpl where
  "running_producer = (DefaultMQProducer_new ''pg'')\<lparr>dp_serviceState := RUNNING\<rparr>"

definition sample_msg :: Message where
  "sample_msg = \<lparr>m_topic = ''T'', m_flag = 0, m_properties = [], m_body = Some ''hello'', m_bodyLen = 5\<rparr>"

definition storing_env :: ClientEnv where
  "storing_env = silent_env\<lparr>en_net := (\<lambda>addr cmd. Some ((RemotingCommand_new SUCCESS_VALUE ''JAVA'' 0 (rc_opaque cmd) 1 []
     (Some (SendMessageResponseHeader ''ID'' 3 7)))))\<rparr>"

lemmas sample_defs = topic_info_def publishing_client_def running_producer_def sample_msg_def storing_env_def silent_env_def
  sample_client_def sample_factory_def sample_api_def DefaultMQProducer_new_def

lemma sample_ready: "ready (\<lambda>_. None) running_producer sample_msg publishing_client topic_info sample_msg False"
proof -
  have "checkMessage sample_msg 131072 = Inr ()" by code_simp
  moreover have "isBlank []" by code_simp
  ultimately show ?thesis
    by (simp add: ready_def sample_defs publish_table_def ok_info_def next_queue_def queue_pos_def u64_def i32_def
        findBrokerAddressInPublish_def MASTER_ID_def tryToCompressMessage_def)
qed

text \<open>
  Property C8. A send makes at most three attempts with at most one request each, every attempt
  on a queue of the topic, and an attempt never goes to the broker of the attempt before it.
\<close>

theorem send_attempts_bounded:
  assumes "sendDefaultImpl env deflate junk clock dp msg mode c = ((c', out, msg', r), tried)"
    and "tryToFindTopicPublishInfo env dp (m_topic msg) c = Inr (c1, info)"
    and "\<forall>q \<in> set (pi_messageQueueList info). getBrokerName q \<noteq> []"
  shows "length tried \<le> 3 \<and> length out \<le> length tried \<and> set tried \<subseteq> set (pi_messageQueueList info) \<and>
    (\<forall>i. Suc i < length tried \<longrightarrow> getBrokerName (tried ! i) \<noteq> getBrokerName (tried ! Suc i))"
proof (cases "tried = []")
  case True
  then have "out = []"
    using assms(1,2) send_loop_tries [of env deflate junk clock dp mode "clock 0" 3 1 "clock 0" None info SendResult_default msg c1 c' out msg' r tried]
      assms(3)
    by (auto simp: sendDefaultImpl_def split: sum.splits if_splits)
  with True show ?thesis by simp
next
  case False
  with sendDefault_loop [OF assms(1)] assms(2)
  have "send_loop env deflate junk clock dp mode (clock 0) 3 1 (clock 0) None info SendResult_default msg c1 = ((c', out, msg', r), tried)"
    by auto
  from send_loop_tries [OF this assms(3)] show ?thesis by simp
qed

theorem send_attempts_bounded_witness:
  "\<exists>r. sendDefaultImpl silent_env (\<lambda>_. None) 0 (\<lambda>_. 0) running_producer sample_msg SYNC publishing_client = r \<and>
     length (snd r) \<le> 3 \<and> set (snd r) \<subseteq> set (pi_messageQueueList topic_info)"
proof -
  obtain c' out msg' r tried where s:
    "sendDefaultImpl silent_env (\<lambda>_. None) 0 (\<lambda>_. 0) running_producer sample_msg SYNC publishing_client = ((c', out, msg', r), tried)"
    by (metis surj_pair)
  have f: "tryToFindTopicPublishInfo silent_env running_producer (m_topic sample_msg) publishing_client = Inr (publishing_client, topic_info)"
    by (rule find_info_known) (simp_all add: sample_defs publish_table_def ok_info_def)
  have q: "\<forall>q \<in> set (pi_messageQueueList topic_info). getBrokerName q \<noteq> []" by (simp add: topic_info_def)
  from send_attempts_bounded [OF s f q] s show ?thesis by simp
qed

text \<open>
  Property C11. What a synchronous send returns is the broker's: its id, offset and status come
  from an answer to a request of this send, unless it is the default result.
\<close>

theorem send_result_from_broker:
  assumes "sendDefaultImpl env deflate junk clock dp msg SYNC c = ((c', out, msg', Inr s), tried)"
  shows "s = SendResult_default \<or> (\<exists>req \<in> set out. answered (en_net env) req s)"
proof -
  from sendDefault_loop [OF assms, of s] obtain c1 info where
    "send_loop env deflate junk clock dp SYNC (clock 0) 3 1 (clock 0) None info SendResult_default msg c1 = ((c', out, msg', Inr s), tried)"
    by auto
  from send_loop_result [OF this] show ?thesis by auto
qed

theorem send_result_from_broker_witness:
  "\<exists>s req. answered (en_net storing_env) req s \<and> sr_msgId s = ''ID'' \<and> sr_queueOffset s = Some 7"
proof -
  let ?s = "\<lparr>sr_sendStatus = SEND_OK, sr_msgId = ''ID'', sr_messageQueue = Some (MessageQueue ''T'' ''a'' 3), sr_queueOffset = Some 7\<rparr>"
  have "processSendResponse ''a'' ''T'' (en_net storing_env addr cmd) api = Inr (Some ?s)"
    if "isBlank (ap_projectGroupPrefix api)" for addr cmd api
    by (simp add: storing_env_def RemotingCommand_new_def stored_response that)
  moreover have "getBrokerName (next_queue topic_info) = ''a''" "m_topic sample_msg = ''T''"
    by (simp_all add: sample_defs next_queue_def queue_pos_def u64_def i32_def)
  ultimately obtain c' req where
    "sendDefaultImpl storing_env (\<lambda>_. None) 0 (\<lambda>_. 0) running_producer sample_msg SYNC publishing_client =
      ((c', [req], sample_msg, Inr ?s), [next_queue topic_info])"
    using ready_result [OF sample_ready, of storing_env "Some ?s" ?s 0 "\<lambda>_. 0"] by auto
  from send_result_from_broker [OF this] have "answered (en_net storing_env) req ?s" by (simp add: SendResult_default_def)
  then show ?thesis by (intro exI [of _ ?s] exI [of _ req]) simp
qed

text \<open>
  Property C9. When the producer runs, the message passes the checks, the queues of the topic and
  the address of the broker are known, and the broker stores the message, one request to that
  broker carries the message to the queue whose turn it is, and the result is the broker's
  message id and offset with \<^verbatim>\<open>SEND_OK\<close>.
\<close>

theorem send_delivers:
  assumes "ready deflate dp msg c info msg1 compressed"
    and "\<forall>cmd. \<exists>resp. en_net env (findBrokerAddressInPublish (getBrokerName (next_queue info)) (cl_factory c)) cmd = Some resp \<and>
      rc_code resp = SUCCESS_VALUE \<and> rc_customHeader resp = Some (SendMessageResponseHeader msgId queueId queueOffset)"
  shows "\<exists>c' cmd. sendDefaultImpl env deflate junk clock dp msg SYNC c =
      ((c', [(findBrokerAddressInPublish (getBrokerName (next_queue info)) (cl_factory c), cmd)], msg1,
        Inr \<lparr>sr_sendStatus = SEND_OK, sr_msgId = msgId,
             sr_messageQueue = Some (MessageQueue (m_topic msg) (getBrokerName (next_queue info)) queueId),
             sr_queueOffset = Some queueOffset\<rparr>), [next_queue info]) \<and>
    cl_factory c' = cl_factory c \<and> rc_code cmd = SEND_MESSAGE_VALUE \<and> rc_body cmd = m_body msg1 \<and>
    rc_customHeader cmd = Some (send_header dp msg1 compressed (next_queue info) (clock 1) junk)"
proof -
  have "processSendResponse (getBrokerName (next_queue info)) (m_topic msg)
        (en_net env (findBrokerAddressInPublish (getBrokerName (next_queue info)) (cl_factory c)) cmd) api' =
      Inr (Some \<lparr>sr_sendStatus = SEND_OK, sr_msgId = msgId,
        sr_messageQueue = Some (MessageQueue (m_topic msg) (getBrokerName (next_queue info)) queueId), sr_queueOffset = Some queueOffset\<rparr>)"
    if "isBlank (ap_projectGroupPrefix api')" for cmd api'
    using assms(2) stored_response that by metis
  from ready_result [OF assms(1) this refl, of junk clock] show ?thesis by auto
qed

theorem send_delivers_witness:
  "\<exists>c' cmd. sendDefaultImpl storing_env (\<lambda>_. None) 0 (\<lambda>_. 0) running_producer sample_msg SYNC publishing_client =
      ((c', [(''old:1'', cmd)], sample_msg,
        Inr \<lparr>sr_sendStatus = SEND_OK, sr_msgId = ''ID'', sr_messageQueue = Some (MessageQueue ''T'' ''a'' 3),
             sr_queueOffset = Some 7\<rparr>), [MessageQueue ''T'' ''a'' 0]) \<and> rc_body cmd = Some ''hello''"
proof -
  have a: "next_queue topic_info = MessageQueue ''T'' ''a'' 0"
    "findBrokerAddressInPublish ''a'' (cl_factory publishing_client) = ''old:1''"
    by (simp_all add: sample_defs next_queue_def queue_pos_def u64_def i32_def findBrokerAddressInPublish_def MASTER_ID_def)
  have "\<exists>resp. en_net storing_env addr cmd = Some resp \<and> rc_code resp = SUCCESS_VALUE \<and>
    rc_customHeader resp = Some (SendMessageResponseHeader ''ID'' 3 7)" for addr cmd
    by (simp add: storing_env_def RemotingCommand_new_def)
  with send_delivers [OF sample_ready, of storing_env "''ID''" 3 7 0 "\<lambda>_. 0"] show ?thesis
    by (auto simp: a sample_msg_def)
qed

text \<open>
  A synchronous send to a broker that does not answer is reported as stored: the
  missing response makes no exception, nothing is retried, and the caller gets the default
  result, whose status is \<^verbatim>\<open>SEND_OK\<close>.
\<close>

theorem unanswered_send_reported_ok:
  assumes "ready deflate dp msg c info msg1 compressed"
    and "\<forall>cmd. en_net env (findBrokerAddressInPublish (getBrokerName (next_queue info)) (cl_factory c)) cmd = None"
  shows "\<exists>c' req. sendDefaultImpl env deflate junk clock dp msg SYNC c =
      ((c', [req], msg1, Inr SendResult_default), [next_queue info]) \<and> sr_sendStatus SendResult_default = SEND_OK"
  using ready_result [OF assms(1), of env None SendResult_default junk clock] assms(2)
  by (auto simp: processSendResponse_def SendResult_default_def)

theorem unanswered_send_reported_ok_witness:
  "\<exists>c' req. sendDefaultImpl silent_env (\<lambda>_. None) 0 (\<lambda>_. 0) running_producer sample_msg SYNC publishing_client =
     ((c', [req], sample_msg, Inr SendResult_default), [next_queue topic_info])"
  using unanswered_send_reported_ok [OF sample_ready, of silent_env 0 "\<lambda>_. 0"] by (simp add: silent_env_def)

text \<open>
  Messages are not spread over the queues of a topic: the position of the next queue
  is advanced in a copy of the publish info, so while the brokers are known two consecutive sends
  to a topic both begin with the same queue and leave the table as it was.
\<close>

theorem sends_begin_with_same_queue:
  assumes "mget (publish_table (dp_producerGroup dp) (cl_factory c)) (m_topic msg) = Some info" "ok_info info"
    and "m_topic msg2 = m_topic msg"
    and "\<forall>q \<in> set (pi_messageQueueList info). findBrokerAddressInPublish (getBrokerName q) (cl_factory c) \<noteq> []"
    and "sendDefaultImpl env deflate junk clock dp msg mode c = ((c', out, msg', r), tried)"
    and "sendDefaultImpl env deflate junk clock2 dp msg2 mode2 c' = ((c'', out2, msg2', r2), tried2)"
    and "tried \<noteq> []" "tried2 \<noteq> []"
  shows "hd tried2 = hd tried \<and> hd tried = next_queue info \<and> cl_factory c'' = cl_factory c"
proof -
  have a: "cl_factory c' = cl_factory c \<and> (tried \<noteq> [] \<longrightarrow> hd tried = next_queue info)"
    using sendDefault_known [OF assms(1,2,4,5)] .
  have b: "cl_factory c'' = cl_factory c' \<and> (tried2 \<noteq> [] \<longrightarrow> hd tried2 = next_queue info)"
    by (rule sendDefault_known [OF _ assms(2) _ assms(6)]) (use a assms(1,3,4) in simp_all)
  from a b assms(7,8) show ?thesis by simp
qed

theorem sends_begin_with_same_queue_witness:
  "\<exists>c' c'' o1 o2 s1 s2.
     sendDefaultImpl silent_env (\<lambda>_. None) 0 (\<lambda>_. 0) running_producer sample_msg SYNC publishing_client =
       ((c', o1, sample_msg, s1), [next_queue topic_info]) \<and>
     sendDefaultImpl silent_env (\<lambda>_. None) 0 (\<lambda>_. 0) running_producer sample_msg SYNC c' =
       ((c'', o2, sample_msg, s2), [next_queue topic_info]) \<and> cl_factory c'' = cl_factory publishing_client"
proof -
  let ?send = "sendDefaultImpl silent_env (\<lambda>_. None) 0 (\<lambda>_. 0) running_producer sample_msg SYNC"
  have n: "\<forall>cmd. en_net silent_env addr cmd = None" for addr by (simp add: silent_env_def)
  have once: "\<exists>c' o1. ?send c = ((c', o1, sample_msg, Inr SendResult_default), [next_queue topic_info]) \<and>
      cl_factory c' = cl_factory c \<and> isBlank (ap_projectGroupPrefix (cl_api c'))"
    if "ready (\<lambda>_. None) running_producer sample_msg c topic_info sample_msg False" for c
    using ready_result [OF that, of silent_env None SendResult_default 0 "\<lambda>_. 0"] n
    by (auto simp: processSendResponse_def SendResult_default_def)
  from once [OF sample_ready] obtain c' o1 where 1: "?send publishing_client = ((c', o1, sample_msg, Inr SendResult_default), [next_queue topic_info])"
    "cl_factory c' = cl_factory publishing_client" "isBlank (ap_projectGroupPrefix (cl_api c'))" by blast
  have "ready (\<lambda>_. None) running_producer sample_msg c' topic_info sample_msg False"
    using sample_ready 1(2,3) by (simp add: ready_def)
  from once [OF this] obtain c'' o2 where 2: "?send c' = ((c'', o2, sample_msg, Inr SendResult_default), [next_queue topic_info])" by blast
  have "cl_factory c'' = cl_factory publishing_client"
    using sends_begin_with_same_queue [OF _ _ refl _ 1(1) 2, of topic_info]
    by (simp add: sample_defs publish_table_def ok_info_def findBrokerAddressInPublish_def MASTER_ID_def)
  with 1 2 show ?thesis by blast
qed

text \<open>
  An attempt the broker refuses is followed by one at a queue of another broker,
  with the message as the first attempt left it: a body that was compressed for the first
  request is compressed once more for the second, while the receiver, told by one flag,
  inflates it once.
\<close>

theorem retry_at_another_broker:
  assumes "ready deflate dp msg c info msg1 compressed"
    and "\<forall>cmd. \<exists>resp. en_net env (findBrokerAddressInPublish (getBrokerName (next_queue info)) (cl_factory c)) cmd = Some resp \<and>
      rc_code resp = SYSTEM_ERROR_VALUE"
    and "i32 (clock 2 - clock 0) < dp_sendMsgTimeout dp" "getBrokerName (next_queue info) \<noteq> []"
    and "select_loop (length (pi_messageQueueList info)) (i32 (pi_sendWhichQueue info + 1)) (pi_messageQueueList info)
      (getBrokerName (next_queue info)) = Some q2"
    and "findBrokerAddressInPublish (getBrokerName q2) (cl_factory c) = addr2" "addr2 \<noteq> []"
    and "tryToCompressMessage deflate dp msg1 = Inr (msg2, compressed2)"
    and "\<forall>cmd. \<exists>resp. en_net env addr2 cmd = Some resp \<and> rc_code resp = SUCCESS_VALUE \<and>
      rc_customHeader resp = Some (SendMessageResponseHeader msgId queueId queueOffset)"
  shows "\<exists>c' req1 cmd2 s. sendDefaultImpl env deflate junk clock dp msg SYNC c =
      ((c', [req1, (addr2, cmd2)], msg2, Inr s), [next_queue info, q2]) \<and>
    getBrokerName q2 \<noteq> getBrokerName (next_queue info) \<and> sr_sendStatus s = SEND_OK \<and> sr_msgId s = msgId \<and>
    rc_body (snd req1) = m_body msg1 \<and> rc_body cmd2 = m_body msg2 \<and>
    rc_customHeader cmd2 = Some (send_header dp msg2 compressed2 q2 (clock 3) junk)"
proof -
  let ?q = "next_queue info" and ?info = "info\<lparr>pi_sendWhichQueue := i32 (pi_sendWhichQueue info + 1)\<rparr>"
  note R = assms(1) [unfolded ready_def]
  obtain api1 cmd1 r1 where k1: "sendKernelImpl env deflate junk (clock 1) dp msg ?q SYNC c = (c\<lparr>cl_api := api1\<rparr>, [cmd1], msg1, r1)"
    and b1: "isBlank (ap_projectGroupPrefix api1)" "rc_body (snd cmd1) = m_body msg1" and e1: "\<exists>m. r1 = Inl (MQClientException m SYSTEM_ERROR_VALUE)"
    using sendKernel_refused [of ?q c _ deflate dp msg msg1 compressed env junk "clock 1"] R assms(2) by blast
  let ?s = "\<lparr>sr_sendStatus = SEND_OK, sr_msgId = msgId, sr_messageQueue = Some (MessageQueue (m_topic msg2) (getBrokerName q2) queueId),
    sr_queueOffset = Some queueOffset\<rparr>"
  obtain api2 cmd2 where k2: "sendKernelImpl env deflate junk (clock 3) dp msg1 q2 SYNC (c\<lparr>cl_api := api1\<rparr>) =
      (c\<lparr>cl_api := api2\<rparr>, [(addr2, cmd2)], msg2, Inr ?s)"
    and f2: "rc_body cmd2 = m_body msg2" "rc_customHeader cmd2 = Some (send_header dp msg2 compressed2 q2 (clock 3) junk)"
    using sendKernel_stored [of q2 "c\<lparr>cl_api := api1\<rparr>" addr2 deflate dp msg1 msg2 compressed2 env msgId queueId queueOffset junk "clock 3"]
      b1 assms(6-9) by force
  have other: "getBrokerName q2 \<noteq> getBrokerName ?q" using select_loop_other [OF assms(5)] .
  have second: "send_loop env deflate junk clock dp SYNC (clock 0) (Suc (Suc 0)) 3 (clock 2) (Some ?q) ?info SendResult_default msg1
      (c\<lparr>cl_api := api1\<rparr>) = ((c\<lparr>cl_api := api2\<rparr>, [(addr2, cmd2)], msg2, Inr ?s), [q2])"
    using assms(3-5) by (simp add: selectOneMessageQueue_def Let_def k2 del: One_nat_def)
  then have second': "send_loop env deflate junk clock dp SYNC (clock 0) (Suc (Suc 0)) (1 + 2) (clock (1 + 1)) (Some ?q) ?info SendResult_default msg1
      (c\<lparr>cl_api := api1\<rparr>) = ((c\<lparr>cl_api := api2\<rparr>, [(addr2, cmd2)], msg2, Inr ?s), [q2])"
    by (simp only: one_add_one numeral_plus_one numeral_eq_Suc) (simp add: numeral_2_eq_2 numeral_3_eq_3 del: send_loop.simps)
  have "send_loop env deflate junk clock dp SYNC (clock 0) (Suc (Suc (Suc 0))) 1 (clock 0) None info SendResult_default msg c =
      ((c\<lparr>cl_api := api2\<rparr>, [cmd1, (addr2, cmd2)], msg2, Inr ?s), [?q, q2])"
    using send_loop_refused [where beginTs = "clock 0" and endTs = "clock 0" and mq = None and info = info and sr = SendResult_default, OF _ _ k1 _ second'] R e1
    by (auto simp: selectOneMessageQueue_def next_queue_def ok_info_def i32_def Let_def)
  then have "sendDefaultImpl env deflate junk clock dp msg SYNC c = ((c\<lparr>cl_api := api2\<rparr>, [cmd1, (addr2, cmd2)], msg2, Inr ?s), [?q, q2])"
    using R by (simp add: sendDefaultImpl_def makeSureStateOK_def find_info_known numeral_3_eq_3 del: send_loop.simps)
  with f2 b1 other show ?thesis by (intro exI [of _ "c\<lparr>cl_api := api2\<rparr>"] exI [of _ cmd1] exI [of _ cmd2] exI [of _ ?s]) simp
qed

definition flaky_env :: ClientEnv where
  "flaky_env = silent_env\<lparr>en_net := (\<lambda>addr cmd. if addr = ''old:1''
     then Some (RemotingCommand_new SYSTEM_ERROR_VALUE ''JAVA'' 0 (rc_opaque cmd) 1 ''busy'' None)
     else Some (RemotingCommand_new SUCCESS_VALUE ''JAVA'' 0 (rc_opaque cmd) 1 [] (Some (SendMessageResponseHeader ''ID'' 3 7))))\<rparr>"

theorem retry_at_another_broker_witness:
  "\<exists>c' req1 cmd2 msg2 s. sendDefaultImpl flaky_env (\<lambda>s. Some (CHR ''Z'' # s)) 0 (\<lambda>_. 0)
      (running_producer\<lparr>dp_compressMsgBodyOverHowmuch := 4\<rparr>) sample_msg SYNC publishing_client =
      ((c', [req1, (''h9:1'', cmd2)], msg2, Inr s), [MessageQueue ''T'' ''a'' 0, MessageQueue ''T'' ''z'' 1]) \<and>
    rc_body (snd req1) = Some ''Zhello'' \<and> rc_body cmd2 = Some ''ZZhello''"
proof -
  let ?dp = "running_producer\<lparr>dp_compressMsgBodyOverHowmuch := 4\<rparr>" and ?z = "\<lambda>s. Some (CHR ''Z'' # s)"
  let ?m1 = "sample_msg\<lparr>m_bodyLen := 6, m_body := Some ''Zhello''\<rparr>" and ?m2 = "sample_msg\<lparr>m_bodyLen := 7, m_body := Some ''ZZhello''\<rparr>"
  have q: "next_queue topic_info = MessageQueue ''T'' ''a'' 0"
    by (simp add: topic_info_def next_queue_def queue_pos_def u64_def i32_def)
  have t1: "tryToCompressMessage ?z ?dp sample_msg = Inr (?m1, True)" and t2: "tryToCompressMessage ?z ?dp ?m1 = Inr (?m2, True)"
    by (simp_all add: tryToCompressMessage_def sample_msg_def setBody_def copy_bytes_def isize_def i32_def)
  have r: "ready ?z ?dp sample_msg publishing_client topic_info ?m1 True"
    using sample_ready t1 by (simp add: ready_def)
  have s: "select_loop (length (pi_messageQueueList topic_info)) (i32 (pi_sendWhichQueue topic_info + 1)) (pi_messageQueueList topic_info)
      (getBrokerName (next_queue topic_info)) = Some (MessageQueue ''T'' ''z'' 1)"
    unfolding q by (simp add: topic_info_def queue_pos_def u64_def i32_def)
  have a: "findBrokerAddressInPublish ''a'' (cl_factory publishing_client) = ''old:1''"
    "findBrokerAddressInPublish (getBrokerName (MessageQueue ''T'' ''z'' 1)) (cl_factory publishing_client) = ''h9:1''"
    by (simp_all add: sample_defs findBrokerAddressInPublish_def MASTER_ID_def)
  have e: "\<forall>cmd. \<exists>resp. en_net flaky_env (findBrokerAddressInPublish (getBrokerName (next_queue topic_info)) (cl_factory publishing_client)) cmd = Some resp \<and>
      rc_code resp = SYSTEM_ERROR_VALUE"
    by (simp add: q a flaky_env_def RemotingCommand_new_def)
  have k: "\<forall>cmd. \<exists>resp. en_net flaky_env ''h9:1'' cmd = Some resp \<and> rc_code resp = SUCCESS_VALUE \<and>
      rc_customHeader resp = Some (SendMessageResponseHeader ''ID'' 3 7)"
    by (simp add: flaky_env_def RemotingCommand_new_def)
  have c: "i32 ((\<lambda>_. 0) (2::nat) - (\<lambda>_. 0) (0::nat)) < dp_sendMsgTimeout ?dp" by (simp add: i32_def running_producer_def DefaultMQProducer_new_def)
  have n: "getBrokerName (next_queue topic_info) \<noteq> []" by (simp add: q)
  from retry_at_another_broker [OF r e c n s a(2) _ t2 k, of 0] show ?thesis by (auto simp: q)
qed

text \<open>
  The life cycle of a producer: a fresh producer of a free group starts, can send
  and keeps its group, so neither it nor another of that group starts again; after its shutdown
  it cannot send or start, the group is free, and the other groups were never touched.
\<close>

lemma producer_life:
  assumes "dp_serviceState dp = CREATE_JUST" "dp_producerGroup dp \<noteq> []" "mok (f_producerTable f)"
    and "mget (f_producerTable f) (dp_producerGroup dp) = None"
    and "producer_up False ok dp f = ((dp1, f1), r)" "producer_shutdown False dp1 f1 = (dp2, f2)"
  shows "r = Inr () \<and> makeSureStateOK dp1 = Inr () \<and>
    (\<exists>x. producer_up False ok dp1 f1 = ((dp1, f1), Inl x)) \<and>
    (\<exists>x. producer_up False ok dp f1 = ((dp, f1), Inl x)) \<and>
    mget (f_producerTable f1) (dp_producerGroup dp) \<noteq> None \<and>
    (\<exists>x. makeSureStateOK dp2 = Inl x) \<and> (\<exists>x. producer_up False ok dp2 f2 = ((dp2, f2), Inl x)) \<and>
    mget (f_producerTable f2) (dp_producerGroup dp) = None \<and>
    (\<forall>g. g \<noteq> dp_producerGroup dp \<longrightarrow> mget (f_producerTable f1) g = mget (f_producerTable f) g \<and>
      mget (f_producerTable f2) g = mget (f_producerTable f) g)"
proof -
  define g where "g = dp_producerGroup dp"
  have s: "dp1 = dp\<lparr>dp_serviceState := RUNNING\<rparr>" "r = Inr ()"
    "f1 = put_info g (dp_createTopicKey dp) TopicPublishInfo_new (f\<lparr>f_producerTable := mput g \<lparr>pr_topicPublishInfoTable = []\<rparr> (f_producerTable f)\<rparr>)"
    using assms(1-5) by (simp_all add: producer_up_def registerProducer_def g_def)
  have d: "dp2 = dp\<lparr>dp_serviceState := SHUTDOWN_ALREADY\<rparr>" "f2 = unregisterProducer g f1"
    using assms(6) s(1) by (simp_all add: producer_shutdown_def g_def)
  have o: "mok (f_producerTable f1)" and m: "mget (f_producerTable f1) h = (if h = g then Some \<lparr>pr_topicPublishInfoTable = [(dp_createTopicKey dp, TopicPublishInfo_new)]\<rparr> else mget (f_producerTable f) h)" for h
    using assms(3) by (simp_all add: s put_info_def mget_mput mok_mput)
  have u: "mget (f_producerTable f2) h = (if h = g then None else mget (f_producerTable f) h)" for h
    using o m by (simp add: d unregisterProducer_def mget_mdel)
  have again: "producer_up False ok dp f1 = ((dp, f1), Inl (MQClientException (''The producer group['' @ g @
                   ''] has been created before, specify another name please.'') (- 1)))"
    using assms(1,2) m [of g] by (simp add: producer_up_def registerProducer_def g_def)
  show ?thesis
    using m u again by (simp add: s d makeSureStateOK_def producer_up_def g_def)
qed

theorem producer_life_cycle:
  assumes "dp_serviceState dp = CREATE_JUST" "dp_producerGroup dp \<noteq> []" "mok (f_producerTable (cl_factory c))"
    and "mget (f_producerTable (cl_factory c)) (dp_producerGroup dp) = None" "isBlank (ap_projectGroupPrefix (cl_api c))"
    and "producer_start env False ok dp c = ((dp1, c1), sent, r)" "producer_shutdown False dp1 (cl_factory c1) = (dp2, f2)"
  shows "r = Inr () \<and> makeSureStateOK dp1 = Inr () \<and>
    (\<exists>x. producer_start env False ok dp1 c1 = ((dp1, c1), [], Inl x)) \<and>
    (\<exists>x. producer_start env False ok dp c1 = ((dp, c1), [], Inl x)) \<and>
    mget (f_producerTable (cl_factory c1)) (dp_producerGroup dp) \<noteq> None \<and>
    (\<exists>x. makeSureStateOK dp2 = Inl x) \<and>
    (\<exists>x. producer_start env False ok dp2 (c1\<lparr>cl_factory := f2\<rparr>) = ((dp2, c1\<lparr>cl_factory := f2\<rparr>), [], Inl x)) \<and>
    mget (f_producerTable f2) (dp_producerGroup dp) = None \<and>
    (\<forall>g. g \<noteq> dp_producerGroup dp \<longrightarrow> mget (f_producerTable (cl_factory c1)) g = mget (f_producerTable (cl_factory c)) g \<and>
      mget (f_producerTable f2) g = mget (f_producerTable (cl_factory c)) g)"
proof -
  obtain dpu f1 ru where u: "producer_up False ok dp (cl_factory c) = ((dpu, f1), ru)" by (metis surj_pair)
  obtain dpd fd where d: "producer_shutdown False dpu f1 = (dpd, fd)" by fastforce
  note l = producer_life [OF assms(1-4) u d]
  obtain api out where h: "sendHeartbeatToAllBrokerWithLock env (c\<lparr>cl_factory := f1\<rparr>) = Inr (c\<lparr>cl_factory := f1, cl_api := api\<rparr>, out)"
    using heartbeat_blank [of "c\<lparr>cl_factory := f1\<rparr>" env] assms(5) by auto
  have e: "dp1 = dpu" "c1 = c\<lparr>cl_factory := f1, cl_api := api\<rparr>" "r = Inr ()"
    using assms(6) u h l by (auto simp: producer_start_def)
  have f: "dp2 = dpd" "f2 = fd" using assms(7) d by (auto simp: e)
  show ?thesis using l by (auto simp: producer_start_def e f)
qed

theorem producer_life_cycle_witness:
  "\<exists>dp1 c1 sent. producer_start silent_env False True (DefaultMQProducer_new ''new'') sample_client = ((dp1, c1), sent, Inr ()) \<and>
     makeSureStateOK dp1 = Inr () \<and> mget (f_producerTable (cl_factory c1)) ''pg'' \<noteq> None"
proof -
  obtain dp1 c1 sent r where s: "producer_start silent_env False True (DefaultMQProducer_new ''new'') sample_client = ((dp1, c1), sent, r)"
    by (metis surj_pair)
  obtain dp2 f2 where d: "producer_shutdown False dp1 (cl_factory c1) = (dp2, f2)" by fastforce
  have h: "dp_serviceState (DefaultMQProducer_new ''new'') = CREATE_JUST" "dp_producerGroup (DefaultMQProducer_new ''new'') \<noteq> []"
    "mok (f_producerTable (cl_factory sample_client))"
    "mget (f_producerTable (cl_factory sample_client)) (dp_producerGroup (DefaultMQProducer_new ''new'')) = None"
    "isBlank (ap_projectGroupPrefix (cl_api sample_client))"
    by (simp_all add: DefaultMQProducer_new_def sample_factory_def sample_client_def sample_api_def isBlank_def)
  from producer_life_cycle [OF h s d] s show ?thesis
    by (auto simp: DefaultMQProducer_new_def sample_factory_def sample_client_def)
qed

end
