(* ===== verification/Timer.thy ===== *)
theory Timer
  imports Prelude
begin

text \<open>
  \<^verbatim>\<open>src/src/kpr/TimerThread.cpp\<close> and \<^verbatim>\<open>src/src/kpr/TimerTaskManager.cpp\<close>: timers that a thread checks in
  rounds. \<open>'h\<close> stands for the handlers. Whether the thread was started is part of the state,
  since a round happens only in a thread that runs; the static counter of identifiers is the
  last one given out.
\<close>

section \<open>State\<close>

record 'h TimerInfo =
  ti_id :: int
  ti_elapse :: int
  ti_outTime :: int
  ti_persistent :: bool
  ti_handler :: 'h

record 'h TimerThread =
  tt_timers :: "(int, 'h TimerInfo) stdmap"
  tt_nextTimerID :: int
  tt_closed :: bool
  tt_started :: bool
  tt_checkInterval :: int

definition TimerThread_new :: "int \<Rightarrow> int \<Rightarrow> 'h TimerThread" where
  "TimerThread_new s_nextTimerID checkInterval =
     \<lparr>tt_timers = [], tt_nextTimerID = s_nextTimerID, tt_closed = False, tt_started = False, tt_checkInterval = checkInterval\<rparr>"

section \<open>Operations\<close>

definition timer_Close :: "'h TimerThread \<Rightarrow> 'h TimerThread" where
  "timer_Close tt = tt\<lparr>tt_closed := True\<rparr>"

definition GetNextTimerID :: "'h TimerThread \<Rightarrow> 'h TimerThread \<times> int" where
  "GetNextTimerID tt = (let n = u32 (tt_nextTimerID tt + 1) in (tt\<lparr>tt_nextTimerID := n\<rparr>, n))"

text \<open>The out-time starts at the negated delay, an unsigned difference stored in an \<^verbatim>\<open>int\<close>.\<close>

definition RegisterTimer :: "int \<Rightarrow> int \<Rightarrow> 'h \<Rightarrow> bool \<Rightarrow> 'h TimerThread \<Rightarrow> 'h TimerThread \<times> int" where
  "RegisterTimer initialDelay elapse pHandler persistent tt =
     (let (tt1, n) = GetNextTimerID tt;
          info = \<lparr>ti_id = n, ti_elapse = elapse, ti_outTime = i32 (0 - initialDelay), ti_persistent = persistent,
                  ti_handler = pHandler\<rparr>
      in (tt1\<lparr>tt_timers := mput n info (tt_timers tt1)\<rparr>, n))"

definition UnRegisterTimer :: "int \<Rightarrow> 'h TimerThread \<Rightarrow> 'h TimerThread \<times> bool" where
  "UnRegisterTimer timerId tt =
     (if mget (tt_timers tt) timerId \<noteq> None then (tt\<lparr>tt_timers := mdel timerId (tt_timers tt)\<rparr>, True) else (tt, False))"

definition ResetTimer :: "int \<Rightarrow> 'h TimerThread \<Rightarrow> 'h TimerThread \<times> bool" where
  "ResetTimer timerId tt =
     (case mget (tt_timers tt) timerId of
        Some i \<Rightarrow>
          (tt\<lparr>tt_timers := mput timerId (i\<lparr>ti_outTime := (if ti_persistent i then i32 (ti_elapse i) else 0)\<rparr>) (tt_timers tt)\<rparr>, True)
      | None \<Rightarrow> (tt, False))"

text \<open>One pass over the timers: the timers that stay and the timers that fire, as they were when they fired.\<close>

fun check_loop :: "int \<Rightarrow> (int, 'h TimerInfo) stdmap \<Rightarrow> (int, 'h TimerInfo) stdmap \<times> 'h TimerInfo list" where
  "check_loop elapse [] = ([], [])"
| "check_loop elapse ((k, i) # rest) =
     (let i1 = i\<lparr>ti_outTime := i32 (ti_outTime i + elapse)\<rparr>;
          (rest', fired) = check_loop elapse rest
      in if ti_outTime i1 \<ge> i32 (ti_elapse i1) then
           (if ti_persistent i1 then (k, i1\<lparr>ti_outTime := 0\<rparr>) # rest' else rest', i1 # fired)
         else ((k, i1) # rest', fired))"

definition CheckTimeOut :: "int \<Rightarrow> 'h TimerThread \<Rightarrow> 'h TimerThread \<times> 'h TimerInfo list" where
  "CheckTimeOut elapse tt =
     (let (timers', fired) = check_loop elapse (tt_timers tt) in (tt\<lparr>tt_timers := timers'\<rparr>, fired))"

text \<open>
  One round of \<^verbatim>\<open>Run\<close>: the handlers it calls, and how long it waits then, with \<open>handling\<close> the
  milliseconds the handlers took. A closed thread makes no round.
\<close>

definition timer_round :: "int \<Rightarrow> int \<Rightarrow> 'h TimerThread \<Rightarrow> ('h TimerThread \<times> ('h \<times> int) list \<times> int) option" where
  "timer_round elapse handling tt =
     (if tt_closed tt \<or> \<not> tt_started tt then None
      else
        (let (tt', fired) = CheckTimeOut (u32 elapse) tt;
             sleepTime = i32 (tt_checkInterval tt - i32 handling)
         in Some (tt', map (\<lambda>i. (ti_handler i, ti_id i)) fired, if sleepTime < 0 then 0 else sleepTime)))"

section \<open>TimerTaskManager\<close>

text \<open>
  Tasks are named by numbers; \<open>tm_processing\<close> are those whose \<^verbatim>\<open>IsProcessing\<close> holds,
  \<open>tm_pool\<close> the work handed to the thread pool, in order, and \<open>tm_running\<close> what its threads work on.
\<close>

record TimerTaskManager =
  tm_timerThread :: "unit TimerThread"
  tm_timerTasks :: "(int, nat) stdmap"
  tm_processing :: "nat set"
  tm_pool :: "nat list"
  tm_running :: "nat list"

definition mgr_RegisterTimer :: "int \<Rightarrow> int \<Rightarrow> nat \<Rightarrow> TimerTaskManager \<Rightarrow> TimerTaskManager \<times> int" where
  "mgr_RegisterTimer initialDelay elapse task tm =
     (let (tt', n) = RegisterTimer initialDelay elapse () True (tm_timerThread tm)
      in (tm\<lparr>tm_timerThread := tt', tm_timerTasks := mput n task (tm_timerTasks tm)\<rparr>, n))"

definition mgr_UnRegisterTimer :: "int \<Rightarrow> TimerTaskManager \<Rightarrow> TimerTaskManager \<times> bool" where
  "mgr_UnRegisterTimer timerId tm =
     (let (tt', ret) = UnRegisterTimer timerId (tm_timerThread tm)
      in (tm\<lparr>tm_timerThread := tt', tm_timerTasks := mdel timerId (tm_timerTasks tm)\<rparr>, ret))"

definition mgr_ResetTimer :: "int \<Rightarrow> TimerTaskManager \<Rightarrow> TimerTaskManager \<times> bool" where
  "mgr_ResetTimer timerId tm =
     (let (tt', ret) = ResetTimer timerId (tm_timerThread tm) in (tm\<lparr>tm_timerThread := tt'\<rparr>, ret))"

definition mgr_OnTimeOut :: "int \<Rightarrow> TimerTaskManager \<Rightarrow> TimerTaskManager" where
  "mgr_OnTimeOut timerId tm =
     (case mget (tm_timerTasks tm) timerId of
        Some task \<Rightarrow>
          if task \<notin> tm_processing tm
          then tm\<lparr>tm_processing := insert task (tm_processing tm), tm_pool := tm_pool tm @ [task]\<rparr>
          else tm
      | None \<Rightarrow> tm)"

text \<open>A worker takes the first task of the pool; when the task has run, its flag is cleared (\<^verbatim>\<open>TimerTask::Do\<close>).\<close>

definition mgr_take :: "TimerTaskManager \<Rightarrow> TimerTaskManager" where
  "mgr_take tm =
     (case tm_pool tm of
        [] \<Rightarrow> tm
      | task # rest \<Rightarrow> tm\<lparr>tm_pool := rest, tm_running := task # tm_running tm\<rparr>)"

definition mgr_done :: "nat \<Rightarrow> TimerTaskManager \<Rightarrow> TimerTaskManager" where
  "mgr_done task tm =
     (if task \<in> set (tm_running tm)
      then tm\<lparr>tm_running := remove1 task (tm_running tm), tm_processing := tm_processing tm - {task}\<rparr>
      else tm)"

inductive mgr_reachable :: "TimerTaskManager \<Rightarrow> bool" where
  mgr_init: "mgr_reachable \<lparr>tm_timerThread = TimerThread_new n c, tm_timerTasks = [], tm_processing = {}, tm_pool = [], tm_running = []\<rparr>"
| mgr_register: "mgr_reachable tm \<Longrightarrow> mgr_reachable (fst (mgr_RegisterTimer d e task tm))"
| mgr_unregister: "mgr_reachable tm \<Longrightarrow> mgr_reachable (fst (mgr_UnRegisterTimer n tm))"
| mgr_reset: "mgr_reachable tm \<Longrightarrow> mgr_reachable (fst (mgr_ResetTimer n tm))"
| mgr_timeout: "mgr_reachable tm \<Longrightarrow> mgr_reachable (mgr_OnTimeOut n tm)"
| mgr_taken: "mgr_reachable tm \<Longrightarrow> mgr_reachable (mgr_take tm)"
| mgr_ended: "mgr_reachable tm \<Longrightarrow> mgr_reachable (mgr_done task tm)"

section \<open>Lemmas\<close>

text \<open>What one pass does to one timer.\<close>

definition ticked :: "int \<Rightarrow> 'h TimerInfo \<Rightarrow> 'h TimerInfo" where
  "ticked e i = i\<lparr>ti_outTime := i32 (ti_outTime i + e)\<rparr>"

definition due :: "int \<Rightarrow> 'h TimerInfo \<Rightarrow> bool" where
  "due e i \<longleftrightarrow> i32 (ti_elapse i) \<le> i32 (ti_outTime i + e)"

definition timers_ok :: "(int, 'h TimerInfo) stdmap \<Rightarrow> bool" where
  "timers_ok m \<longleftrightarrow> mok m \<and> (\<forall>(k, i) \<in> set m. ti_id i = k)"

lemma timers_ok_Cons: "timers_ok ((k, i) # m) \<longleftrightarrow> ti_id i = k \<and> k \<notin> set (mkeys m) \<and> (\<forall>j \<in> set (mkeys m). k < j) \<and> timers_ok m"
  by (auto simp: timers_ok_def)

lemma check_loop_keys: "set (mkeys (fst (check_loop e m))) \<subseteq> set (mkeys m)"
  by (induction e m rule: check_loop.induct) (auto simp: Let_def split: prod.splits if_splits)

lemma check_loop_ok: "timers_ok m \<Longrightarrow> timers_ok (fst (check_loop e m))"
proof (induction e m rule: check_loop.induct)
  case (2 elapse k i rest)
  have sub: "set (mkeys (fst (check_loop elapse rest))) \<subseteq> set (mkeys rest)" by (rule check_loop_keys)
  from 2 have "timers_ok (fst (check_loop elapse rest))" by (simp add: timers_ok_Cons)
  with 2(2) sub show ?case
    by (cases "check_loop elapse rest") (auto simp: timers_ok_Cons Let_def)
qed simp

lemma check_loop_get:
  assumes "timers_ok m"
  shows "mget (fst (check_loop e m)) n =
    (case mget m n of
       None \<Rightarrow> None
     | Some i \<Rightarrow> if due e i then (if ti_persistent i then Some (i\<lparr>ti_outTime := 0\<rparr>) else None) else Some (ticked e i))"
  using assms
proof (induction e m rule: check_loop.induct)
  case (2 elapse k i rest)
  have "k \<notin> set (mkeys (fst (check_loop elapse rest)))" using check_loop_keys [of elapse rest] 2(2) by (auto simp: timers_ok_Cons)
  then have k: "mget (fst (check_loop elapse rest)) k = None" by (rule mget_notin)
  from 2 have ih: "mget (fst (check_loop elapse rest)) n =
    (case mget rest n of
       None \<Rightarrow> None
     | Some i \<Rightarrow> if due elapse i then (if ti_persistent i then Some (i\<lparr>ti_outTime := 0\<rparr>) else None) else Some (ticked elapse i))"
    by (simp add: timers_ok_Cons)
  show ?case
  proof (cases "n = k")
    case True
    then show ?thesis using k by (cases "check_loop elapse rest") (auto simp: Let_def due_def ticked_def)
  next
    case False
    then show ?thesis using ih by (cases "check_loop elapse rest") (auto simp: Let_def)
  qed
qed simp

lemma check_loop_fires:
  assumes "timers_ok m"
  shows "n \<in> ti_id ` set (snd (check_loop e m)) \<longleftrightarrow> (case mget m n of None \<Rightarrow> False | Some i \<Rightarrow> due e i)"
  using assms
proof (induction e m rule: check_loop.induct)
  case (2 elapse k i rest)
  then have "k \<notin> set (mkeys rest)" by (simp add: timers_ok_Cons)
  then have k: "mget rest k = None" by (rule mget_notin)
  from 2 have "n \<in> ti_id ` set (snd (check_loop elapse rest)) \<longleftrightarrow> (case mget rest n of None \<Rightarrow> False | Some i \<Rightarrow> due elapse i)"
    by (simp add: timers_ok_Cons)
  with k 2(2) show ?case
    by (cases "check_loop elapse rest") (auto simp: Let_def due_def timers_ok_Cons)
qed simp

text \<open>A sequence of passes; what fires in each.\<close>

fun check_all :: "int list \<Rightarrow> 'h TimerThread \<Rightarrow> int set list" where
  "check_all [] tt = []"
| "check_all (e # es) tt = (let (tt', fired) = CheckTimeOut e tt in (ti_id ` set fired) # check_all es tt')"

lemma length_check_all [simp]: "length (check_all es tt) = length es"
  by (induction es tt rule: check_all.induct) (auto simp: Let_def split: prod.splits)

lemma check_all_absent:
  "timers_ok (tt_timers tt) \<Longrightarrow> mget (tt_timers tt) n = None \<Longrightarrow> s \<in> set (check_all es tt) \<Longrightarrow> n \<notin> s"
proof (induction es tt arbitrary: s rule: check_all.induct)
  case (2 e es tt)
  let ?p = "check_loop e (tt_timers tt)"
  have p: "CheckTimeOut e tt = (tt\<lparr>tt_timers := fst ?p\<rparr>, snd ?p)" by (simp add: CheckTimeOut_def Let_def split: prod.splits)
  from 2(4) consider "s = ti_id ` set (snd ?p)" | "s \<in> set (check_all es (tt\<lparr>tt_timers := fst ?p\<rparr>))" by (auto simp: p)
  then show ?case
  proof cases
    case 1
    then show ?thesis using check_loop_fires [OF 2(2), of n e] 2(3) by simp
  next
    case 2
    then show ?thesis
      using "2.IH" [OF p [symmetric] refl] check_loop_ok [OF "2.prems"(1)] check_loop_get [OF "2.prems"(1), of e n] "2.prems"(2) by simp
  qed
qed simp

text \<open>A one-shot timer under passes whose total does not overflow: it fires in the first pass that reaches its time.\<close>

lemma one_shot_schedule:
  assumes "timers_ok (tt_timers tt)" "mget (tt_timers tt) n = Some i" "\<not> ti_persistent i"
    and "0 \<le> ti_elapse i" "ti_elapse i < 2147483648" "- 2147483648 \<le> ti_outTime i"
    and "\<forall>e \<in> set es. 0 \<le> e" "ti_outTime i + sum_list es < 2147483648"
    and "k < length es"
  shows "n \<in> check_all es tt ! k \<longleftrightarrow>
    ti_elapse i \<le> ti_outTime i + sum_list (take (Suc k) es) \<and> (k = 0 \<or> ti_outTime i + sum_list (take k es) < ti_elapse i)"
  using assms
proof (induction es tt arbitrary: i k rule: check_all.induct)
  case (2 e es tt)
  let ?p = "check_loop e (tt_timers tt)"
  let ?tt = "tt\<lparr>tt_timers := fst ?p\<rparr>"
  have p: "CheckTimeOut e tt = (?tt, snd ?p)" by (simp add: CheckTimeOut_def Let_def split: prod.splits)
  have nn: "0 \<le> sum_list (take j es)" for j using "2.prems"(7) by (intro sum_list_nonneg) (auto dest: in_set_takeD)
  have "0 \<le> sum_list es" using nn [of "length es"] by simp
  then have d: "due e i \<longleftrightarrow> ti_elapse i \<le> ti_outTime i + e" and o: "i32 (ti_outTime i + e) = ti_outTime i + e"
    using "2.prems" by (auto simp: due_def i32_id)
  have ok: "timers_ok (tt_timers ?tt)" using check_loop_ok [OF "2.prems"(1)] by simp
  show ?case
  proof (cases k)
    case 0
    then show ?thesis using check_loop_fires [OF "2.prems"(1), of n e] "2.prems"(2) d by (simp add: p)
  next
    case (Suc j)
    show ?thesis
    proof (cases "due e i")
      case True
      then have "mget (tt_timers ?tt) n = None" using check_loop_get [OF "2.prems"(1), of e n] "2.prems"(2,3) by simp
      then have "n \<notin> check_all es ?tt ! j" using check_all_absent [OF ok _ nth_mem] Suc "2.prems"(9) by simp
      moreover have "\<not> ti_outTime i + sum_list (take k (e # es)) < ti_elapse i" using True d Suc nn [of j] by simp
      ultimately show ?thesis using Suc by (simp add: p)
    next
      case False
      then have g: "mget (tt_timers ?tt) n = Some (ticked e i)" using check_loop_get [OF "2.prems"(1), of e n] "2.prems"(2) by simp
      have "n \<in> check_all es ?tt ! j \<longleftrightarrow>
        ti_elapse (ticked e i) \<le> ti_outTime (ticked e i) + sum_list (take (Suc j) es) \<and>
        (j = 0 \<or> ti_outTime (ticked e i) + sum_list (take j es) < ti_elapse (ticked e i))"
        using "2.prems" Suc o by (intro "2.IH" [OF p [symmetric] refl ok g]) (simp_all add: ticked_def)
      with False d Suc show ?thesis by (auto simp: p ticked_def o add.assoc)
    qed
  qed
qed simp

section \<open>Properties\<close>

text \<open>
  A one-shot timer fires exactly once: in the first pass by which the delay and the
  period have elapsed, in no other, and the registration changes no other timer.
\<close>

theorem one_shot_fires_once:
  assumes "timers_ok (tt_timers tt)" "RegisterTimer initialDelay elapse h False tt = (tt', n)"
    and "0 \<le> initialDelay" "initialDelay \<le> 2147483648" "0 \<le> elapse" "elapse < 2147483648"
    and "\<forall>e \<in> set es. 0 \<le> e" "sum_list es < 2147483648" "k < length es"
  shows "(n \<in> check_all es tt' ! k \<longleftrightarrow>
      initialDelay + elapse \<le> sum_list (take (Suc k) es) \<and> (k = 0 \<or> sum_list (take k es) < initialDelay + elapse)) \<and>
    (\<forall>j. j \<noteq> n \<longrightarrow> mget (tt_timers tt') j = mget (tt_timers tt) j)"
proof -
  let ?i = "\<lparr>ti_id = n, ti_elapse = elapse, ti_outTime = - initialDelay, ti_persistent = False, ti_handler = h\<rparr>"
  have t: "tt_timers tt' = mput n ?i (tt_timers tt)"
    using assms(2-4) by (auto simp: RegisterTimer_def GetNextTimerID_def Let_def i32_id)
  have ok: "timers_ok (tt_timers tt')"
    using assms(1) t set_mput_subset [of n ?i "tt_timers tt"] by (auto simp: timers_ok_def mok_mput)
  have g: "mget (tt_timers tt') n = Some ?i" by (simp add: t mget_mput)
  have "sum_list es \<ge> 0" using assms(7) by (simp add: sum_list_nonneg)
  with one_shot_schedule [OF ok g, of es k] assms t show ?thesis by (auto simp: mget_mput)
qed

theorem one_shot_fires_once_witness:
  "5 \<notin> check_all [20, 20, 20, 20] (fst (RegisterTimer 10 40 (0::nat) False (TimerThread_new 4 1000))) ! 1 \<and>
   5 \<in> check_all [20, 20, 20, 20] (fst (RegisterTimer 10 40 (0::nat) False (TimerThread_new 4 1000))) ! 2 \<and>
   5 \<notin> check_all [20, 20, 20, 20] (fst (RegisterTimer 10 40 (0::nat) False (TimerThread_new 4 1000))) ! 3"
proof -
  let ?tt = "TimerThread_new 4 1000 :: nat TimerThread"
  have ok: "timers_ok (tt_timers ?tt)" by (simp add: timers_ok_def TimerThread_new_def)
  have r: "RegisterTimer 10 40 0 False ?tt = (fst (RegisterTimer 10 40 0 False ?tt), 5)"
    by (simp add: RegisterTimer_def GetNextTimerID_def TimerThread_new_def u32_def)
  note f = one_shot_fires_once [OF ok r, of "[20, 20, 20, 20]", THEN conjunct1]
  show ?thesis
    using f [of 1] f [of 2] f [of 3] by (simp del: check_all.simps)
qed

text \<open>
  A task of the manager is never in the pool or at work twice at the same time,
  however often its timer fires: the flag marks exactly the tasks that wait or run.
\<close>

theorem task_runs_once_at_a_time:
  "mgr_reachable tm \<Longrightarrow> distinct (tm_pool tm @ tm_running tm) \<and> tm_processing tm = set (tm_pool tm @ tm_running tm)"
proof (induction rule: mgr_reachable.induct)
  case (mgr_timeout tm n)
  then show ?case by (auto simp: mgr_OnTimeOut_def split: option.splits)
next
  case (mgr_taken tm)
  then show ?case by (auto simp: mgr_take_def split: list.splits)
next
  case (mgr_ended tm task)
  then show ?case by (auto simp: mgr_done_def distinct_remove1)
qed (auto simp: mgr_RegisterTimer_def mgr_UnRegisterTimer_def mgr_ResetTimer_def Let_def split: prod.splits)

theorem task_runs_once_at_a_time_witness:
  "\<exists>tm. mgr_reachable tm \<and> tm_pool tm = [7] \<and> tm_running tm = [] \<and> tm_processing tm = {7}"
proof -
  let ?tm = "\<lparr>tm_timerThread = TimerThread_new 0 1000, tm_timerTasks = [], tm_processing = {}, tm_pool = [], tm_running = []\<rparr>"
  let ?r = "mgr_OnTimeOut 1 (mgr_OnTimeOut 1 (fst (mgr_RegisterTimer 0 100 7 ?tm)))"
  have r: "mgr_reachable ?r" by (intro mgr_reachable.intros)
  have q: "tm_pool ?r = [7]" "tm_running ?r = []"
    by (simp_all add: mgr_OnTimeOut_def mgr_RegisterTimer_def RegisterTimer_def GetNextTimerID_def TimerThread_new_def u32_def)
  from task_runs_once_at_a_time [OF r] have "tm_processing ?r = {7}" by (simp add: q)
  with r q show ?thesis by blast
qed

end
