(* ===== verification/Pull.thy ===== *)
theory Pull
  imports Producer Timer
begin

text \<open>
  Pulling messages: \<^verbatim>\<open>src/src/consumer/PullAPIWrapper.cpp\<close> asks a broker and prepares what it answers,
  and \<^verbatim>\<open>src/src/consumer/PullMessageService.cpp\<close> is the thread that works off the pull requests.
\<close>

section \<open>PullAPIWrapper\<close>

record PullAPIWrapper =
  pw_consumerGroup :: string
  pw_pullFromWhichNodeTable :: "(MessageQueue, int) stdmap"

definition PullAPIWrapper_new :: "string \<Rightarrow> PullAPIWrapper" where
  "PullAPIWrapper_new consumerGroup = \<lparr>pw_consumerGroup = consumerGroup, pw_pullFromWhichNodeTable = []\<rparr>"

definition updatePullFromWhichNode :: "MessageQueue \<Rightarrow> int \<Rightarrow> PullAPIWrapper \<Rightarrow> PullAPIWrapper" where
  "updatePullFromWhichNode mq brokerId pw =
     pw\<lparr>pw_pullFromWhichNodeTable := mput mq brokerId (pw_pullFromWhichNodeTable pw)\<rparr>"

definition recalculatePullFromWhichNode :: "MessageQueue \<Rightarrow> PullAPIWrapper \<Rightarrow> int" where
  "recalculatePullFromWhichNode mq pw =
     (case mget (pw_pullFromWhichNodeTable pw) mq of Some v \<Rightarrow> v | None \<Rightarrow> MASTER_ID)"

text \<open>
  The second filter over the tags. \<open>it\<close> is what the iterator has not passed yet, \<open>again\<close> the
  messages taken, \<open>kept\<close> those left in the list. A message without tags does not advance the
  iterator; \<^const>\<open>None\<close> says that the loop has not ended within the fuel.
\<close>

fun filter_loop ::
  "nat \<Rightarrow> string list \<Rightarrow> MessageExt list \<Rightarrow> MessageExt list \<Rightarrow> MessageExt list \<Rightarrow>
   (MessageExt list \<times> MessageExt list) option" where
  "filter_loop 0 tags it again kept = None"
| "filter_loop (Suc n) tags it again kept =
     (case it of
        [] \<Rightarrow> Some (again, kept)
      | msg # rest \<Rightarrow>
          if getTags msg \<noteq> [] then
            (if getTags msg \<in> set tags then filter_loop n tags rest (again @ [msg]) kept
             else filter_loop n tags rest again (kept @ [msg]))
          else filter_loop n tags it again kept)"

definition put_offsets :: "PullResult \<Rightarrow> MessageExt \<Rightarrow> MessageExt" where
  "put_offsets pr msg =
     putProperty PROPERTY_MAX_OFFSET (show_int (px_maxOffset pr))
       (putProperty PROPERTY_MIN_OFFSET (show_int (px_minOffset pr)) msg)"

text \<open>
  The result: the wrapper, the queue and the subscription (both passed by reference) and the
  pull result; \<^const>\<open>None\<close> when one of the two loops has not ended.
\<close>

definition processPullResult ::
  "nat \<Rightarrow> endian \<Rightarrow> (string \<Rightarrow> string option) \<Rightarrow> string \<Rightarrow> MessageQueue \<Rightarrow> PullResult \<Rightarrow> SubscriptionData \<Rightarrow>
   PullAPIWrapper \<Rightarrow> (PullAPIWrapper \<times> MessageQueue \<times> SubscriptionData \<times> PullResult) result option" where
  "processPullResult fuel e decompress projectGroupPrefix mq pullResult sub pw =
     (let pw1 = updatePullFromWhichNode mq (px_suggestWhichBrokerId pullResult) pw in
      if px_pullStatus pullResult = FOUND then
        (case decodes fuel e decompress (case px_messageBinary pullResult of None \<Rightarrow> [] | Some b \<Rightarrow> b)
                (px_messageBinaryLen pullResult) True of
           None \<Rightarrow> None
         | Some (Inl x) \<Rightarrow> Some (Inl x)
         | Some (Inr msgList) \<Rightarrow>
             (case (if sd_tagsSet sub \<noteq> [] then filter_loop fuel (sd_tagsSet sub) msgList [] [] else Some (msgList, [])) of
                None \<Rightarrow> None
              | Some (again, kept) \<Rightarrow>
                  Some (bind_r (if \<not> isBlank projectGroupPrefix then
                                  bind_r (clearProjectGroup (sd_topic sub) projectGroupPrefix) (\<lambda>st.
                                  bind_r (clearProjectGroup (getTopic mq) projectGroupPrefix) (\<lambda>mt.
                                  bind_r (map_r (\<lambda>msg. bind_r (clearProjectGroup (m_topic msg) projectGroupPrefix) (\<lambda>t.
                                            Inr (put_offsets pullResult (setTopic_msg t msg)))) again) (\<lambda>msgs.
                                    Inr (sub\<lparr>sd_topic := st\<rparr>, setTopic_mq mq mt, msgs))))
                                else Inr (sub, mq, map (put_offsets pullResult) again)) (\<lambda>(sub', mq', msgs).
                        Inr (pw1, mq', sub', pullResult\<lparr>px_msgFoundList := px_msgFoundList pullResult @ msgs,
                               px_messageBinary := None, px_messageBinaryLen := 0\<rparr>)))))
      else Some (Inr (pw1, mq, sub, pullResult)))"

text \<open>The request goes to the node the last answer suggested; a slave is not asked to store the offset.\<close>

definition pullKernelImpl ::
  "ClientEnv \<Rightarrow> MessageQueue \<Rightarrow> string \<Rightarrow> int \<Rightarrow> int \<Rightarrow> int \<Rightarrow> int \<Rightarrow> int \<Rightarrow> int \<Rightarrow> CommunicationMode \<Rightarrow>
   PullAPIWrapper \<Rightarrow> Client \<Rightarrow> Client \<times> (string \<times> RemotingCommand) list \<times> PullResult option result" where
  "pullKernelImpl env mq subExpression subVersion offset maxNums sysFlag commitOffset brokerSuspendMaxTimeMillis mode pw c =
     (let look = (\<lambda>f. findBrokerAddressInSubscribe (getBrokerName mq) (recalculatePullFromWhichNode mq pw) False f)
      in case find_or_refresh look env (getTopic mq) c of
           Inl x \<Rightarrow> (c, [], Inl x)
         | Inr (c1, findBrokerResult) \<Rightarrow>
             if fb_brokerAddr findBrokerResult \<noteq> [] then
               (let sysFlagInner = (if fb_slave findBrokerResult then clearCommitOffsetFlag sysFlag else sysFlag);
                    requestHeader = PullMessageRequestHeader (pw_consumerGroup pw) (getTopic mq) (getQueueId mq) offset maxNums
                      sysFlagInner commitOffset brokerSuspendMaxTimeMillis subExpression subVersion;
                    (api', out, r) = pullMessage (en_endian env) (en_net env) (en_sends env) (fb_brokerAddr findBrokerResult) requestHeader mode (cl_api c1)
                in (c1\<lparr>cl_api := api'\<rparr>, out, r))
             else (c1, [], Inl (MQClientException (''The broker['' @ getBrokerName mq @ ''] not exist'') (- 1))))"

section \<open>PullMessageService\<close>

text \<open>
  The service and its timer thread, whose handlers are the delayed requests. \<open>ps_executed\<close>
  lists the requests the loop has handed to a consumer, \<open>ps_submitted\<close> those that
  \<^verbatim>\<open>executePullRequestImmediately\<close> was called with; both only record what happens.
\<close>

record PullMessageService =
  ps_pullRequestQueue :: "PullRequest list"
  ps_TimeThread :: "PullRequest TimerThread"
  ps_executed :: "PullRequest list"
  ps_submitted :: "PullRequest list"

text \<open>The constructor makes the timer thread and does not start it.\<close>

definition PullMessageService_new :: "int \<Rightarrow> PullMessageService" where
  "PullMessageService_new s_nextTimerID =
     \<lparr>ps_pullRequestQueue = [], ps_TimeThread = TimerThread_new s_nextTimerID 1000, ps_executed = [], ps_submitted = []\<rparr>"

definition executePullRequestLater :: "PullRequest \<Rightarrow> int \<Rightarrow> PullMessageService \<Rightarrow> PullMessageService" where
  "executePullRequestLater r timeDelay ps =
     ps\<lparr>ps_TimeThread := fst (RegisterTimer 0 (u32 timeDelay) r False (ps_TimeThread ps))\<rparr>"

definition executePullRequestImmediately :: "PullRequest \<Rightarrow> PullMessageService \<Rightarrow> PullMessageService" where
  "executePullRequestImmediately r ps =
     ps\<lparr>ps_pullRequestQueue := ps_pullRequestQueue ps @ [r], ps_submitted := ps_submitted ps @ [r]\<rparr>"

text \<open>One round of \<^verbatim>\<open>Run\<close> takes the first request, if there is one.\<close>

definition pull_round :: "PullMessageService \<Rightarrow> PullMessageService \<times> PullRequest option" where
  "pull_round ps =
     (case ps_pullRequestQueue ps of
        [] \<Rightarrow> (ps, None)
      | r # rest \<Rightarrow> (ps\<lparr>ps_pullRequestQueue := rest, ps_executed := ps_executed ps @ [r]\<rparr>, Some r))"

text \<open>A round of the timer thread hands every request that is due to \<^verbatim>\<open>executePullRequestImmediately\<close>.\<close>

definition delayed_round :: "int \<Rightarrow> int \<Rightarrow> PullMessageService \<Rightarrow> PullMessageService option" where
  "delayed_round elapse handling ps =
     (case timer_round elapse handling (ps_TimeThread ps) of
        None \<Rightarrow> None
      | Some (tt', handlers, sleepTime) \<Rightarrow>
          Some (fold (\<lambda>(r, n). executePullRequestImmediately r) handlers (ps\<lparr>ps_TimeThread := tt'\<rparr>)))"

inductive ps_step :: "PullMessageService \<Rightarrow> PullMessageService \<Rightarrow> bool" where
  ps_immediately: "ps_step ps (executePullRequestImmediately r ps)"
| ps_later: "ps_step ps (executePullRequestLater r d ps)"
| ps_round: "ps_step ps (fst (pull_round ps))"
| ps_timer: "delayed_round elapse handling ps = Some ps' \<Longrightarrow> ps_step ps ps'"


inductive ps_reachable :: "PullMessageService \<Rightarrow> bool" where
  ps_init: "ps_reachable (PullMessageService_new n)"
| ps_next: "ps_reachable ps \<Longrightarrow> ps_step ps ps' \<Longrightarrow> ps_reachable ps'"

section \<open>Lemmas\<close>

lemma filter_loop_tagged:
  assumes "\<forall>m \<in> set msgs. getTags m \<noteq> []" "length msgs < fuel"
  shows "filter_loop fuel tags msgs again kept =
    Some (again @ filter (\<lambda>m. getTags m \<in> set tags) msgs, kept @ filter (\<lambda>m. getTags m \<notin> set tags) msgs)"
  using assms
proof (induction msgs arbitrary: fuel again kept)
  case Nil
  then show ?case by (cases fuel) simp_all
next
  case (Cons m msgs)
  then show ?case by (cases fuel) simp_all
qed

lemma filter_loop_stuck:
  assumes "m \<in> set msgs" "getTags m = []"
  shows "filter_loop fuel tags msgs again kept = None"
proof -
  have stay: "filter_loop fuel tags (m' # rest) again kept = None" if "getTags m' = []" for m' rest again kept fuel
    using that by (induction fuel) simp_all
  show ?thesis
    using assms
  proof (induction msgs arbitrary: fuel again kept)
    case (Cons x msgs)
    show ?case
    proof (cases "getTags x = []")
      case True
      then show ?thesis by (rule stay)
    next
      case False
      with Cons have "m \<in> set msgs" by auto
      with Cons.IH Cons.prems(2) False show ?thesis by (cases fuel) simp_all
    qed
  qed simp
qed

text \<open>What the broker sends for a batch of stored messages.\<close>

definition found :: "wire list \<Rightarrow> int \<Rightarrow> int \<Rightarrow> int \<Rightarrow> int \<Rightarrow> PullResult" where
  "found ws suggest nextBegin mn mx =
     \<lparr>px_pullStatus = FOUND, px_nextBeginOffset = nextBegin, px_minOffset = mn, px_maxOffset = mx, px_msgFoundList = [],
      px_suggestWhichBrokerId = suggest, px_messageBinary = Some (concat (map encode_msg ws)),
      px_messageBinaryLen = int (length (concat (map encode_msg ws)))\<rparr>"

definition batch_ok :: "(string \<Rightarrow> string option) \<Rightarrow> wire list \<Rightarrow> bool" where
  "batch_ok decompress ws \<longleftrightarrow> (\<forall>w \<in> set ws. wire_ok w) \<and> (\<forall>b out. decompress b = Some out \<longrightarrow> small out) \<and>
     length (concat (map encode_msg ws)) < 2147483648"

lemma decodes_batch:
  assumes "batch_ok decompress ws" "length ws < fuel"
  shows "decodes fuel e decompress (concat (map encode_msg ws)) (int (length (concat (map encode_msg ws)))) readBody =
    Some (Inr (map (wire_msg e decompress) ws))"
  using decodes_loop_encoded [where ws = ws and pre = "[]" and acc = "[]" and decompress = decompress] assms
  by (simp add: decodes_def batch_ok_def)

lemma decodes_loop_mono:
  "decodes_loop n e decompress buf len offset acc = Some r \<Longrightarrow> n \<le> m \<Longrightarrow> decodes_loop m e decompress buf len offset acc = Some r"
proof (induction n arbitrary: m offset acc)
  case (Suc n)
  then show ?case by (cases m) (auto split: if_splits sum.splits option.splits prod.splits)
qed simp

lemma decodes_batch_any:
  assumes "batch_ok decompress ws"
    and "decodes fuel e decompress (concat (map encode_msg ws)) (int (length (concat (map encode_msg ws)))) readBody = Some r"
  shows "r = Inr (map (wire_msg e decompress) ws)"
proof -
  let ?m = "max fuel (Suc (length ws))"
  have "decodes ?m e decompress (concat (map encode_msg ws)) (int (length (concat (map encode_msg ws)))) readBody = Some r"
    using decodes_loop_mono [OF assms(2) [unfolded decodes_def], of ?m] by (simp add: decodes_def)
  with decodes_batch [OF assms(1), of ?m e readBody] show ?thesis by simp
qed

section \<open>Properties\<close>

lemma clear_commit_flag: "\<not> hasCommitOffsetFlag (clearCommitOffsetFlag w)" "hasSuspendFlag (clearCommitOffsetFlag w) \<longleftrightarrow> hasSuspendFlag w"
  by (simp_all add: clearCommitOffsetFlag_def flag_tests flag_constant_bits bit_and_iff bit_not_iff)

lemma sample_batch_ok: "batch_ok (\<lambda>_. None) [sample_wire, sample_wire\<lparr>w_props := [(''TAGS'', ''y'')]\<rparr>, sample_wire\<lparr>w_props := [], w_storeSize := 95\<rparr>]"
  by (simp add: batch_ok_def wire_ok_def sample_wire_def i32_id i64_id props_ok_def entry_ok_def
      messageProperties2String_def NAME_VALUE_SEPARATOR_def PROPERTY_SEPARATOR_def encode_msg_def enc_fixed_def enc_tail_def)

lemma process_batch:
  assumes "batch_ok decompress ws" "length ws < fuel" "isBlank projectPrefix"
    and "sd_tagsSet sub = [] \<or> (\<forall>w \<in> set ws. getTags (wire_msg e decompress w) \<noteq> [])"
  shows "\<exists>pw'. processPullResult fuel e decompress projectPrefix mq (found ws suggest nextBegin mn mx) sub pw =
      Some (Inr (pw', mq, sub, (found ws suggest nextBegin mn mx)
        \<lparr>px_msgFoundList := map (put_offsets (found ws suggest nextBegin mn mx))
            (filter (\<lambda>m. sd_tagsSet sub = [] \<or> getTags m \<in> set (sd_tagsSet sub)) (map (wire_msg e decompress) ws)),
         px_messageBinary := None, px_messageBinaryLen := 0\<rparr>)) \<and>
    recalculatePullFromWhichNode mq pw' = suggest"
proof -
  let ?pr = "found ws suggest nextBegin mn mx"
  have d: "decodes fuel e decompress (case px_messageBinary ?pr of None \<Rightarrow> [] | Some b \<Rightarrow> b) (px_messageBinaryLen ?pr) True =
      Some (Inr (map (wire_msg e decompress) ws))"
    using decodes_batch [OF assms(1,2)] by (simp add: found_def)
  have f: "filter_loop fuel (sd_tagsSet sub) (map (wire_msg e decompress) ws) [] [] =
      Some (filter (\<lambda>m. getTags m \<in> set (sd_tagsSet sub)) (map (wire_msg e decompress) ws),
            filter (\<lambda>m. getTags m \<notin> set (sd_tagsSet sub)) (map (wire_msg e decompress) ws))"
    if "sd_tagsSet sub \<noteq> []"
    using filter_loop_tagged [of "map (wire_msg e decompress) ws" fuel "sd_tagsSet sub" "[]" "[]"] assms(2,4) that by simp
  have s: "px_pullStatus ?pr = FOUND" "px_msgFoundList ?pr = []" "px_suggestWhichBrokerId ?pr = suggest" by (simp_all add: found_def)
  show ?thesis
    using assms(3) f
    by (intro exI [of _ "updatePullFromWhichNode mq suggest pw"])
      (auto simp: processPullResult_def d s recalculatePullFromWhichNode_def updatePullFromWhichNode_def mget_mput)
qed

text \<open>
  From the bytes of a batch of stored messages a pull delivers, in the order of the
  broker, the messages whose tag the subscription names (all of them when it names none),
  each stamped with the smallest and largest offset of the queue; and it remembers the node
  the broker suggests for the next pull.
\<close>

theorem pulled_batch_filtered:
  assumes "batch_ok decompress ws" "length ws < fuel" "isBlank projectPrefix"
    and "sd_tagsSet sub = [] \<or> (\<forall>w \<in> set ws. getTags (wire_msg e decompress w) \<noteq> [])"
  shows "\<exists>pw'. processPullResult fuel e decompress projectPrefix mq (found ws suggest nextBegin mn mx) sub pw =
      Some (Inr (pw', mq, sub, (found ws suggest nextBegin mn mx)
        \<lparr>px_msgFoundList := map (put_offsets (found ws suggest nextBegin mn mx))
            (filter (\<lambda>m. sd_tagsSet sub = [] \<or> getTags m \<in> set (sd_tagsSet sub)) (map (wire_msg e decompress) ws)),
         px_messageBinary := None, px_messageBinaryLen := 0\<rparr>)) \<and>
    recalculatePullFromWhichNode mq pw' = suggest"
  by (rule process_batch [OF assms])

theorem pulled_batch_filtered_witness:
  "\<exists>pw'. processPullResult 3 LE (\<lambda>_. None) [] (MessageQueue ''T'' ''a'' 2)
      (found [sample_wire, sample_wire\<lparr>w_props := [(''TAGS'', ''y'')]\<rparr>] 1 6 0 9)
      ((SubscriptionData_new 0 ''T'' ''y'')\<lparr>sd_tagsSet := [''y'']\<rparr>) (PullAPIWrapper_new ''cg'') =
    Some (Inr (pw', MessageQueue ''T'' ''a'' 2, (SubscriptionData_new 0 ''T'' ''y'')\<lparr>sd_tagsSet := [''y'']\<rparr>,
      (found [sample_wire, sample_wire\<lparr>w_props := [(''TAGS'', ''y'')]\<rparr>] 1 6 0 9)
        \<lparr>px_msgFoundList := [put_offsets (found [sample_wire, sample_wire\<lparr>w_props := [(''TAGS'', ''y'')]\<rparr>] 1 6 0 9)
            (wire_msg LE (\<lambda>_. None) (sample_wire\<lparr>w_props := [(''TAGS'', ''y'')]\<rparr>))],
         px_messageBinary := None, px_messageBinaryLen := 0\<rparr>)) \<and>
    recalculatePullFromWhichNode (MessageQueue ''T'' ''a'' 2) pw' = 1"
proof -
  let ?ws = "[sample_wire, sample_wire\<lparr>w_props := [(''TAGS'', ''y'')]\<rparr>]"
  let ?sub = "(SubscriptionData_new 0 ''T'' ''y'')\<lparr>sd_tagsSet := [''y'']\<rparr>"
  have b: "batch_ok (\<lambda>_. None) ?ws" using sample_batch_ok by (simp add: batch_ok_def)
  have t: "getTags (wire_msg LE (\<lambda>_. None) sample_wire) = ''x''"
    "getTags (wire_msg LE (\<lambda>_. None) (sample_wire\<lparr>w_props := [(''TAGS'', ''y'')]\<rparr>)) = ''y''"
    by (simp_all add: wire_msg_def sample_wire_def getTags_def getProperty_def PROPERTY_TAGS_def Let_def)
  have "isBlank []" by code_simp
  from pulled_batch_filtered [OF b _ this, of 3 ?sub LE "MessageQueue ''T'' ''a'' 2" 1 6 0 9 "PullAPIWrapper_new ''cg''"]
  show ?thesis by (simp add: t)
qed

text \<open>
  One message without tags in the answer to a subscription that names tags makes the
  filter loop run forever: no number of rounds is enough.
\<close>

theorem tagless_message_never_ends:
  assumes "batch_ok decompress ws" "sd_tagsSet sub \<noteq> []" "w \<in> set ws" "getTags (wire_msg e decompress w) = []"
  shows "processPullResult fuel e decompress projectPrefix mq (found ws suggest nextBegin mn mx) sub pw = None"
proof -
  have "filter_loop fuel (sd_tagsSet sub) (map (wire_msg e decompress) ws) [] [] = None"
    using assms(3,4) by (intro filter_loop_stuck [of "wire_msg e decompress w"]) auto
  then show ?thesis
    using decodes_batch_any [OF assms(1), of fuel e True] assms(2)
    by (cases "decodes fuel e decompress (concat (map encode_msg ws)) (int (length (concat (map encode_msg ws)))) True")
      (simp_all add: processPullResult_def found_def Let_def)
qed

theorem tagless_message_never_ends_witness:
  "processPullResult 1000000 LE (\<lambda>_. None) [] (MessageQueue ''T'' ''a'' 2)
      (found [sample_wire, sample_wire\<lparr>w_props := [], w_storeSize := 95\<rparr>] 0 6 0 9)
      ((SubscriptionData_new 0 ''T'' ''x'')\<lparr>sd_tagsSet := [''x'']\<rparr>) (PullAPIWrapper_new ''cg'') = None"
proof (rule tagless_message_never_ends)
  show "batch_ok (\<lambda>_. None) [sample_wire, sample_wire\<lparr>w_props := [], w_storeSize := 95\<rparr>]"
    using sample_batch_ok by (simp add: batch_ok_def)
  show "sample_wire\<lparr>w_props := [], w_storeSize := 95\<rparr> \<in> set [sample_wire, sample_wire\<lparr>w_props := [], w_storeSize := 95\<rparr>]" by simp
  show "getTags (wire_msg LE (\<lambda>_. None) (sample_wire\<lparr>w_props := [], w_storeSize := 95\<rparr>)) = []"
    by (simp add: wire_msg_def sample_wire_def getTags_def getProperty_def PROPERTY_TAGS_def Let_def)
qed simp

text \<open>
  The next pull of a queue goes to the node the last answer suggested, when that node
  is known: one request, to its address, provided it can be sent, which asks to store the consumer offset exactly when
  the caller does and the node is the master.
\<close>

theorem pull_goes_to_suggested_node:
  assumes "recalculatePullFromWhichNode mq pw = node" "mget (f_brokerAddrTable (cl_factory c)) (getBrokerName mq) = Some addrs"
    and "mget addrs node = Some addr" "addr \<noteq> []" "isBlank (ap_projectGroupPrefix (cl_api c))"
  shows "\<exists>c' cmd. pullKernelImpl env mq subExpression subVersion offset maxNums sysFlag commitOffset suspend ASYNC pw c =
      (c', (if en_sends env addr cmd then [(addr, cmd)] else []), Inr None) \<and> cl_factory c' = cl_factory c \<and> rc_code cmd = PULL_MESSAGE_VALUE \<and>
    (\<exists>flag. rc_customHeader cmd = Some (PullMessageRequestHeader (pw_consumerGroup pw) (getTopic mq) (getQueueId mq) offset maxNums
        flag commitOffset suspend subExpression subVersion) \<and>
      (hasCommitOffsetFlag flag \<longleftrightarrow> hasCommitOffsetFlag sysFlag \<and> node = MASTER_ID) \<and>
      (hasSuspendFlag flag \<longleftrightarrow> hasSuspendFlag sysFlag))"
proof -
  let ?flag = "if node \<noteq> MASTER_ID then clearCommitOffsetFlag sysFlag else sysFlag"
  let ?h = "PullMessageRequestHeader (pw_consumerGroup pw) (getTopic mq) (getQueueId mq) offset maxNums ?flag commitOffset suspend
    subExpression subVersion"
  obtain cmd api' where n: "new_request (en_endian env) PULL_MESSAGE_VALUE (Some ?h) None (cl_api c) = (cmd, api')"
    by (cases "new_request (en_endian env) PULL_MESSAGE_VALUE (Some ?h) None (cl_api c)")
  have "pullKernelImpl env mq subExpression subVersion offset maxNums sysFlag commitOffset suspend ASYNC pw c =
      (c\<lparr>cl_api := api'\<rparr>, (if en_sends env addr cmd then [(addr, cmd)] else []), Inr None)"
    using assms n by (auto simp: pullKernelImpl_def find_or_refresh_def findBrokerAddressInSubscribe_def pullMessage_def Let_def)
  moreover have "hasCommitOffsetFlag ?flag \<longleftrightarrow> hasCommitOffsetFlag sysFlag \<and> node = MASTER_ID" "hasSuspendFlag ?flag \<longleftrightarrow> hasSuspendFlag sysFlag"
    by (simp_all add: clear_commit_flag)
  ultimately show ?thesis
    using new_request_fields(1,2) [OF n] by (intro exI [of _ "c\<lparr>cl_api := api'\<rparr>"] exI [of _ cmd]) auto
qed

theorem pull_goes_to_suggested_node_witness:
  "\<exists>c' cmd. pullKernelImpl silent_env (MessageQueue ''T'' ''z'' 1) [] 0 5 32 (buildSysFlag True True False) 4 15000 ASYNC
      (PullAPIWrapper_new ''cg'') sample_client = (c', [(''h9:1'', cmd)], Inr None) \<and> rc_code cmd = PULL_MESSAGE_VALUE"
proof -
  let ?q = "MessageQueue ''T'' ''z'' 1"
  have "isBlank []" by code_simp
  then have p: "isBlank (ap_projectGroupPrefix (cl_api sample_client))" by (simp add: sample_client_def sample_api_def)
  have r: "recalculatePullFromWhichNode ?q (PullAPIWrapper_new ''cg'') = 0"
    "mget (f_brokerAddrTable (cl_factory sample_client)) (getBrokerName ?q) = Some [(0, ''h9:1'')]" "mget [(0, ''h9:1'')] (0::int) = Some ''h9:1''"
    by (simp_all add: recalculatePullFromWhichNode_def PullAPIWrapper_new_def MASTER_ID_def sample_client_def sample_factory_def)
  from pull_goes_to_suggested_node [OF r _ p, of silent_env "[]" 0 5 32 "buildSysFlag True True False" 4 15000] show ?thesis
    by (fastforce simp: silent_env_def)
qed

text \<open>The service as a work queue; it is never closed.\<close>

interpretation requests: work_queue executePullRequestImmediately pull_round ps_pullRequestQueue "\<lambda>_. False"
  by unfold_locales (auto simp: executePullRequestImmediately_def pull_round_def split: list.splits)

text \<open>
  Pull requests submitted for immediate execution are executed in the order of their submission.
\<close>

theorem pull_requests_in_order:
  "snd (take_many pull_round (length rs) (fold executePullRequestImmediately rs (PullMessageService_new n))) = map Some rs"
  using requests.first_in_first_out [of "PullMessageService_new n" rs] by (simp add: PullMessageService_new_def)

lemma ps_reachable_facts:
  assumes "ps_reachable ps"
  shows "ps_executed ps @ ps_pullRequestQueue ps = ps_submitted ps \<and> \<not> tt_started (ps_TimeThread ps)"
  using assms
proof (induction rule: ps_reachable.induct)
  case (ps_next ps ps')
  from ps_next.hyps(2) show ?case
  proof (cases rule: ps_step.cases)
    case (ps_immediately r)
    with ps_next.IH show ?thesis by (auto simp: executePullRequestImmediately_def)
  next
    case (ps_later r d)
    with ps_next.IH show ?thesis by (simp add: executePullRequestLater_def RegisterTimer_def GetNextTimerID_def Let_def)
  next
    case ps_round
    with ps_next.IH show ?thesis by (auto simp: pull_round_def split: list.splits)
  next
    case (ps_timer elapse handling)
    with ps_next.IH show ?thesis by (simp add: delayed_round_def timer_round_def)
  qed
qed (simp add: PullMessageService_new_def TimerThread_new_def)

text \<open>
  The service works off exactly the requests submitted for immediate execution, in
  their order, each at most once; its timer thread never makes a round, so a request that is
  only submitted for later (after an exception, a pause or flow control) is never executed.
\<close>

theorem delayed_pull_never_executed:
  assumes "ps_reachable ps"
  shows "ps_executed ps @ ps_pullRequestQueue ps = ps_submitted ps \<and> delayed_round elapse handling ps = None \<and>
    ps_submitted (executePullRequestLater r d ps) = ps_submitted ps"
  using ps_reachable_facts [OF assms] by (simp add: delayed_round_def timer_round_def executePullRequestLater_def)

theorem delayed_pull_never_executed_witness:
  "\<exists>ps r1 r2. ps_reachable ps \<and> ps_executed ps = [r1] \<and> r2 \<notin> set (ps_executed ps @ ps_pullRequestQueue ps) \<and>
     mget (tt_timers (ps_TimeThread ps)) 1 = Some \<lparr>ti_id = 1, ti_elapse = 3000, ti_outTime = 0, ti_persistent = False, ti_handler = r2\<rparr> \<and>
     delayed_round 5000 0 ps = None"
proof -
  let ?r1 = "\<lparr>prq_consumerGroup = ''cg'', prq_messageQueue = MessageQueue ''T'' ''a'' 0, prq_processQueue = 0, prq_nextOffset = 5\<rparr>"
  let ?r2 = "\<lparr>prq_consumerGroup = ''cg'', prq_messageQueue = MessageQueue ''T'' ''a'' 1, prq_processQueue = 1, prq_nextOffset = 9\<rparr>"
  let ?p = "fst (pull_round (executePullRequestLater ?r2 3000 (executePullRequestImmediately ?r1 (PullMessageService_new 0))))"
  have r: "ps_reachable ?p"
    by (rule ps_reachable.ps_next [OF ps_reachable.ps_next [OF ps_reachable.ps_next [OF ps_reachable.ps_init ps_step.ps_immediately]
          ps_step.ps_later] ps_step.ps_round])
  have e: "ps_executed ?p = [?r1]" "ps_pullRequestQueue ?p = []" "mget (tt_timers (ps_TimeThread ?p)) 1 = Some \<lparr>ti_id = 1, ti_elapse = 3000, ti_outTime = 0, ti_persistent = False, ti_handler = ?r2\<rparr>"
    by (simp_all add: pull_round_def executePullRequestLater_def executePullRequestImmediately_def PullMessageService_new_def
        RegisterTimer_def GetNextTimerID_def TimerThread_new_def u32_def i32_def)
  have "delayed_round 5000 0 ?p = None" using delayed_pull_never_executed [OF r, of 5000 0] by blast
  with r e show ?thesis by (intro exI [of _ ?p] exI [of _ ?r1] exI [of _ ?r2]) simp
qed

end
