(* ===== verification/Consume.thy ===== *)
theory Consume
  imports Pull
begin

text \<open>
  Consuming messages: \<^verbatim>\<open>src/src/consumer/ConsumeMessageConcurrentlyService.cpp\<close> and
  \<^verbatim>\<open>src/src/consumer/ConsumeMessageOrderlyService.cpp\<close>, over the state of a push consumer. The thread
  pool of a service is the list of the requests added to it, its timer a \<open>TimerThread\<close> whose
  handlers are the delayed tasks. The listener is an argument: what it answers for a list of
  messages, \<^const>\<open>None\<close> when it raises; it is taken not to change the messages. The hooks,
  which are user code that cannot change the outcome, are left out. A message is a value;
  the list the listener gets and the process queue share it in the code.
\<close>

section \<open>State\<close>

datatype ListenerKind = ListenerOrderly | ListenerConcurrently | ListenerOther

record DefaultMQPushConsumer =
  dc_consumerGroup :: string
  dc_messageModel :: MessageModel
  dc_consumeFromWhere :: ConsumeFromWhere
  dc_strategyPresent :: bool
  dc_messageListener :: "ListenerKind option"
  dc_subscription :: "(string, string) stdmap"
  dc_consumeThreadMin :: int
  dc_consumeThreadMax :: int
  dc_consumeConcurrentlyMaxSpan :: int
  dc_pullThresholdForQueue :: int
  dc_pullInterval :: int
  dc_consumeMessageBatchMaxSize :: int
  dc_pullBatchSize :: int

definition DefaultMQPushConsumer_new :: "string \<Rightarrow> DefaultMQPushConsumer" where
  "DefaultMQPushConsumer_new consumerGroup =
     \<lparr>dc_consumerGroup = consumerGroup, dc_messageModel = CLUSTERING, dc_consumeFromWhere = CONSUME_FROM_LAST_OFFSET,
      dc_strategyPresent = True, dc_messageListener = None, dc_subscription = [], dc_consumeThreadMin = 10,
      dc_consumeThreadMax = 20, dc_consumeConcurrentlyMaxSpan = 2000, dc_pullThresholdForQueue = 1000, dc_pullInterval = 0,
      dc_consumeMessageBatchMaxSize = 1, dc_pullBatchSize = 32\<rparr>"

record ConsumerStat =
  cs_consumeMsgRTMax :: int
  cs_consumeMsgRTTotal :: int
  cs_consumeMsgOKTotal :: int
  cs_consumeMsgFailedTotal :: int
  cs_pullRTTotal :: int
  cs_pullTimesTotal :: int

text \<open>A request of the thread pool, and what a timer of a service does when it fires.\<close>

datatype ConsumeRequest =
    ConsumeConcurrentlyRequest (cr_msgs: "MessageExt list") (cr_processQueue: nat) (cr_messageQueue: MessageQueue)
  | ConsumeOrderlyRequest (cr_processQueue: nat) (cr_messageQueue: MessageQueue)

datatype ScheduledTask =
    SubmitConsumeRequestLater "MessageExt list" nat MessageQueue
  | SubmitConsumeRequestLaterOrderly nat MessageQueue
  | TryLockLaterAndReconsume nat MessageQueue
  | LockMq

record PushImpl =
  pu_config :: DefaultMQPushConsumer
  pu_consumer :: Consumer
  pu_stat :: ConsumerStat
  pu_executor :: "ConsumeRequest list"
  pu_destroyed :: bool
  pu_scheduled :: "ScheduledTask TimerThread"
  pu_stoped :: bool

abbreviation pu_pq :: "PushImpl \<Rightarrow> nat \<Rightarrow> ProcessQueue" where
  "pu_pq pu a \<equiv> rb_heap (co_rebalance (pu_consumer pu)) ! a"

definition with_pq :: "nat \<Rightarrow> (ProcessQueue \<Rightarrow> ProcessQueue) \<Rightarrow> PushImpl \<Rightarrow> PushImpl" where
  "with_pq a g pu = pu\<lparr>pu_consumer := (pu_consumer pu)\<lparr>co_rebalance := set_pq a g (co_rebalance (pu_consumer pu))\<rparr>\<rparr>"

fun store_updateOffset :: "MessageQueue \<Rightarrow> int \<Rightarrow> bool \<Rightarrow> OffsetStore \<Rightarrow> OffsetStore" where
  "store_updateOffset mq offset increaseOnly (Remote st) = Remote (updateOffset mq offset increaseOnly st)"
| "store_updateOffset mq offset increaseOnly (LocalFile st) = LocalFile (lf_updateOffset mq offset increaseOnly st)"

definition commit_offset :: "MessageQueue \<Rightarrow> int \<Rightarrow> bool \<Rightarrow> PushImpl \<Rightarrow> PushImpl" where
  "commit_offset mq offset increaseOnly pu =
     pu\<lparr>pu_consumer := (pu_consumer pu)\<lparr>co_store := store_updateOffset mq offset increaseOnly (co_store (pu_consumer pu))\<rparr>\<rparr>"

text \<open>\<^verbatim>\<open>ThreadPool::AddWork\<close> as the services see it: a destroyed pool refuses work.\<close>

definition add_work :: "ConsumeRequest list \<Rightarrow> PushImpl \<Rightarrow> PushImpl" where
  "add_work reqs pu = (if pu_destroyed pu then pu else pu\<lparr>pu_executor := pu_executor pu @ reqs\<rparr>)"

definition schedule :: "int \<Rightarrow> ScheduledTask \<Rightarrow> bool \<Rightarrow> PushImpl \<Rightarrow> PushImpl" where
  "schedule elapse task persistent pu =
     pu\<lparr>pu_scheduled := fst (RegisterTimer 0 elapse task persistent (pu_scheduled pu))\<rparr>"

definition count_consumed :: "int \<Rightarrow> int \<Rightarrow> PushImpl \<Rightarrow> PushImpl" where
  "count_consumed okay failed pu =
     pu\<lparr>pu_stat := (pu_stat pu)\<lparr>cs_consumeMsgOKTotal := i64 (cs_consumeMsgOKTotal (pu_stat pu) + okay),
        cs_consumeMsgFailedTotal := i64 (cs_consumeMsgFailedTotal (pu_stat pu) + failed)\<rparr>\<rparr>"

definition count_rt :: "int \<Rightarrow> PushImpl \<Rightarrow> PushImpl" where
  "count_rt consumeRT pu =
     pu\<lparr>pu_stat := (pu_stat pu)\<lparr>cs_consumeMsgRTTotal := i64 (cs_consumeMsgRTTotal (pu_stat pu) + consumeRT),
        cs_consumeMsgRTMax := snd (compareAndIncreaseOnly [] (cs_consumeMsgRTMax (pu_stat pu)) consumeRT)\<rparr>\<rparr>"

section \<open>Sending a message back\<close>

text \<open>
  \<^verbatim>\<open>DefaultMQPushConsumerImpl::sendMessageBack\<close>: to the broker that stores the message, or else, as a
  new message of the retry topic, through the inner producer \<open>dp\<close> of the factory.
\<close>

definition retry_message :: "string \<Rightarrow> MessageExt \<Rightarrow> Message result" where
  "retry_message consumerGroup msg =
     bind_r (Message_Init (getRetryTopic consumerGroup) [] [] 0 (m_body msg) (m_bodyLen msg) True) (\<lambda>newMsg.
       Inr (putProperty PROPERTY_RETRY_TOPIC (m_topic msg) (setProperties (m_properties msg) (setFlag (m_flag msg) newMsg))))"

record SendBackEnv =
  sb_env :: ClientEnv
  sb_producer :: DefaultMQProducerImpl
  sb_deflate :: "string \<Rightarrow> string option"
  sb_junk :: int
  sb_clock :: "nat \<Rightarrow> int"

definition sendMessageBack_push :: "SendBackEnv \<Rightarrow> MessageExt \<Rightarrow> int \<Rightarrow> PushImpl \<Rightarrow> PushImpl \<times> MessageExt \<times> unit result" where
  "sendMessageBack_push sb msg delayLevel pu =
     (let c = co_client (pu_consumer pu);
          grp = dc_consumerGroup (pu_config pu);
          (api', msg', r) = consumerSendMessageBack (en_endian (sb_env sb)) (en_net (sb_env sb)) msg grp delayLevel (cl_api c);
          set_client = (\<lambda>c'. pu\<lparr>pu_consumer := (pu_consumer pu)\<lparr>co_client := c'\<rparr>\<rparr>);
          c1 = c\<lparr>cl_api := api'\<rparr>
      in case r of
           Inr _ \<Rightarrow> (set_client c1, msg', Inr ())
         | Inl Undefined \<Rightarrow> (set_client c1, msg', Inl Undefined)
         | Inl _ \<Rightarrow>
             (case retry_message grp msg' of
                Inl x \<Rightarrow> (set_client c1, msg', Inl x)
              | Inr newMsg \<Rightarrow>
                  (case sendDefaultImpl (sb_env sb) (sb_deflate sb) (sb_junk sb) (sb_clock sb) (sb_producer sb) newMsg SYNC c1 of
                     ((c2, out, newMsg', res), tried) \<Rightarrow>
                       (set_client c2, msg', (case res of Inl x \<Rightarrow> Inl x | Inr _ \<Rightarrow> Inr ())))))"

text \<open>The service reports an exception as \<^const>\<open>False\<close>; undefined behaviour stays an error.\<close>

definition sendMessageBack :: "SendBackEnv \<Rightarrow> MessageExt \<Rightarrow> int \<Rightarrow> PushImpl \<Rightarrow> (PushImpl \<times> MessageExt \<times> bool) result" where
  "sendMessageBack sb msg delayLevel pu =
     (case sendMessageBack_push sb msg delayLevel pu of
        (pu', msg', Inr _) \<Rightarrow> Inr (pu', msg', True)
      | (pu', msg', Inl Undefined) \<Rightarrow> Inl Undefined
      | (pu', msg', Inl _) \<Rightarrow> Inr (pu', msg', False))"

section \<open>The concurrent service\<close>

definition submitConsumeRequestLater :: "MessageExt list \<Rightarrow> nat \<Rightarrow> MessageQueue \<Rightarrow> PushImpl \<Rightarrow> PushImpl" where
  "submitConsumeRequestLater msgs a mq pu = schedule 5000 (SubmitConsumeRequestLater msgs a mq) False pu"

text \<open>The batches of at most \<open>sz\<close> messages; with \<open>sz = 0\<close> the iterator does not advance.\<close>

fun batch_loop :: "nat \<Rightarrow> nat \<Rightarrow> MessageExt list \<Rightarrow> MessageExt list list option" where
  "batch_loop 0 sz msgs = None"
| "batch_loop (Suc n) sz msgs =
     (if msgs = [] then Some [] else map_option (\<lambda>l. take sz msgs # l) (batch_loop n sz (drop sz msgs)))"

definition submitConsumeRequest :: "nat \<Rightarrow> MessageExt list \<Rightarrow> nat \<Rightarrow> MessageQueue \<Rightarrow> bool \<Rightarrow> PushImpl \<Rightarrow> PushImpl option" where
  "submitConsumeRequest fuel msgs a mq dispathToConsume pu =
     (let consumeBatchSize = nat (u64 (dc_consumeMessageBatchMaxSize (pu_config pu))) in
      if length msgs \<le> consumeBatchSize
      then Some (add_work [ConsumeConcurrentlyRequest msgs a mq] pu)
      else map_option (\<lambda>l. add_work (map (\<lambda>b. ConsumeConcurrentlyRequest b a mq) l) pu)
             (batch_loop fuel consumeBatchSize msgs))"

datatype ConsumeConcurrentlyStatus = CONSUME_SUCCESS | RECONSUME_LATER

definition INT_MAX :: int where "INT_MAX = 2147483647"

text \<open>The messages after the acknowledged ones are sent back; the flag tells which could not be.\<close>

fun send_back_all :: "SendBackEnv \<Rightarrow> int \<Rightarrow> MessageExt list \<Rightarrow> PushImpl \<Rightarrow> (PushImpl \<times> (MessageExt \<times> bool) list) result" where
  "send_back_all sb delayLevel [] pu = Inr (pu, [])"
| "send_back_all sb delayLevel (msg # msgs) pu =
     bind_r (sendMessageBack sb msg delayLevel pu) (\<lambda>(pu1, msg1, okay).
       bind_r (send_back_all sb delayLevel msgs pu1) (\<lambda>(pu2, l).
         Inr (pu2, (if okay then (msg1, True) else (setReconsumeTimes (i32 (m_reconsumeTimes msg1 + 1)) msg1, False)) # l)))"

definition ack_index :: "ConsumeConcurrentlyStatus \<Rightarrow> int \<Rightarrow> int \<Rightarrow> int" where
  "ack_index status ackIndex msgsSize =
     (case status of
        CONSUME_SUCCESS \<Rightarrow> if ackIndex \<ge> msgsSize then msgsSize - 1 else ackIndex
      | RECONSUME_LATER \<Rightarrow> - 1)"

text \<open>The last step: the messages leave the queue and the offset moves.\<close>

definition finish_batch :: "MessageExt list \<Rightarrow> nat \<Rightarrow> MessageQueue \<Rightarrow> PushImpl \<Rightarrow> PushImpl" where
  "finish_batch msgs a mq pu =
     (let (pq', offset) = removeMessage msgs (pu_pq pu a); pu' = with_pq a (\<lambda>_. pq') pu
      in if offset \<ge> 0 then commit_offset mq offset True pu' else pu')"

definition processConsumeResult ::
  "SendBackEnv \<Rightarrow> ConsumeConcurrentlyStatus \<Rightarrow> int \<Rightarrow> int \<Rightarrow> MessageExt list \<Rightarrow> nat \<Rightarrow> MessageQueue \<Rightarrow> PushImpl \<Rightarrow> PushImpl result" where
  "processConsumeResult sb status context_ackIndex delayLevel msgs a mq pu =
     (if msgs = [] then Inr pu
      else
        (let msgsSize = isize msgs;
             ackIndex = ack_index status context_ackIndex msgsSize;
             pu1 = (case status of
                      CONSUME_SUCCESS \<Rightarrow> (let okay = i32 (ackIndex + 1) in count_consumed okay (i32 (msgsSize - okay)) pu)
                    | RECONSUME_LATER \<Rightarrow> count_consumed 0 msgsSize pu);
             acked = take (nat (ackIndex + 1)) msgs;
             rest = drop (nat (ackIndex + 1)) msgs
         in case dc_messageModel (pu_config pu) of
              BROADCASTING \<Rightarrow> Inr (finish_batch msgs a mq pu1)
            | CLUSTERING \<Rightarrow>
                bind_r (send_back_all sb delayLevel rest pu1) (\<lambda>(pu2, l).
                  let msgBackFailed = map fst (filter (\<lambda>x. \<not> snd x) l);
                      kept = acked @ map fst (filter snd l)
                  in Inr (finish_batch kept a mq
                       (if msgBackFailed \<noteq> [] then submitConsumeRequestLater msgBackFailed a mq pu2 else pu2)))))"

definition resetRetryTopic :: "string \<Rightarrow> MessageExt list \<Rightarrow> MessageExt list" where
  "resetRetryTopic consumerGroup msgs =
     map (\<lambda>msg. let retryTopic = getProperty PROPERTY_RETRY_TOPIC msg in
            if retryTopic \<noteq> [] \<and> getRetryTopic consumerGroup = m_topic msg then setTopic_msg retryTopic msg else msg) msgs"

text \<open>
  \<^verbatim>\<open>ConsumeConcurrentlyRequest::Do\<close>; the listener answers a status, the acknowledged index and
  the delay level; \<open>consumeRT\<close> is the time it took. Beside the state the messages the listener
  was called with are returned.
\<close>

definition concurrently_Do ::
  "SendBackEnv \<Rightarrow> (MessageExt list \<Rightarrow> (ConsumeConcurrentlyStatus \<times> int \<times> int) option) \<Rightarrow> int \<Rightarrow>
   MessageExt list \<Rightarrow> nat \<Rightarrow> MessageQueue \<Rightarrow> PushImpl \<Rightarrow> (PushImpl \<times> MessageExt list list) result" where
  "concurrently_Do sb listener consumeRT msgs a mq pu =
     (if pq_dropped (pu_pq pu a) then Inr (pu, [])
      else
        (let msgs1 = resetRetryTopic (dc_consumerGroup (pu_config pu)) msgs;
             (status, ackIndex, delayLevel) =
               (case listener msgs1 of Some x \<Rightarrow> x | None \<Rightarrow> (RECONSUME_LATER, INT_MAX, 0))
         in bind_r (processConsumeResult sb status ackIndex delayLevel msgs1 a mq (count_rt consumeRT pu)) (\<lambda>pu'.
              Inr (pu', [msgs1]))))"

section \<open>The ordered service\<close>

datatype ConsumeOrderlyStatus = SUCCESS | ROLLBACK | COMMIT | SUSPEND_CURRENT_QUEUE_A_MOMENT

definition s_MaxTimeConsumeContinuously :: int where "s_MaxTimeConsumeContinuously = 60000"

definition submitConsumeRequestLater_orderly :: "nat \<Rightarrow> MessageQueue \<Rightarrow> int \<Rightarrow> PushImpl \<Rightarrow> PushImpl" where
  "submitConsumeRequestLater_orderly a mq suspendTimeMillis pu =
     (let timeMillis = (if suspendTimeMillis < 10 then 10 else if suspendTimeMillis > 30000 then 30000 else suspendTimeMillis)
      in schedule timeMillis (SubmitConsumeRequestLaterOrderly a mq) False pu)"

definition submitConsumeRequest_orderly :: "MessageExt list \<Rightarrow> nat \<Rightarrow> MessageQueue \<Rightarrow> bool \<Rightarrow> PushImpl \<Rightarrow> PushImpl" where
  "submitConsumeRequest_orderly msgs a mq dispathToConsume pu =
     (if dispathToConsume then add_work [ConsumeOrderlyRequest a mq] pu else pu)"

definition tryLockLaterAndReconsume :: "MessageQueue \<Rightarrow> nat \<Rightarrow> int \<Rightarrow> PushImpl \<Rightarrow> PushImpl" where
  "tryLockLaterAndReconsume mq a delayMills pu = schedule (u32 delayMills) (TryLockLaterAndReconsume a mq) False pu"

definition lockOneMQ :: "ClientEnv \<Rightarrow> int \<Rightarrow> MessageQueue \<Rightarrow> PushImpl \<Rightarrow> (PushImpl \<times> bool) result" where
  "lockOneMQ env now mq pu =
     (if \<not> pu_stoped pu then bind_r (lock_mq env now mq (pu_consumer pu)) (\<lambda>(co', b). Inr (pu\<lparr>pu_consumer := co'\<rparr>, b))
      else Inr (pu, False))"

definition lockMQPeriodically :: "nat \<Rightarrow> ClientEnv \<Rightarrow> int \<Rightarrow> PushImpl \<Rightarrow> PushImpl result option" where
  "lockMQPeriodically fuel env now pu =
     (if \<not> pu_stoped pu
      then map_option (\<lambda>r. bind_r r (\<lambda>co'. Inr (pu\<lparr>pu_consumer := co'\<rparr>))) (lockAll fuel env now (pu_consumer pu))
      else Some (Inr pu))"

text \<open>What the tasks of the timer do when they fire.\<close>

definition OnTimeOut :: "nat \<Rightarrow> ClientEnv \<Rightarrow> int \<Rightarrow> ScheduledTask \<Rightarrow> PushImpl \<Rightarrow> PushImpl result option" where
  "OnTimeOut fuel env now task pu =
     (case task of
        SubmitConsumeRequestLater msgs a mq \<Rightarrow> map_option Inr (submitConsumeRequest fuel msgs a mq True pu)
      | SubmitConsumeRequestLaterOrderly a mq \<Rightarrow> Some (Inr (submitConsumeRequest_orderly [] a mq True pu))
      | TryLockLaterAndReconsume a mq \<Rightarrow>
          Some (bind_r (lockOneMQ env now mq pu) (\<lambda>(pu', lockOK).
            Inr (submitConsumeRequestLater_orderly a mq (if lockOK then 10 else 3000) pu')))
      | LockMq \<Rightarrow> lockMQPeriodically fuel env now pu)"

definition processConsumeResult_orderly ::
  "MessageExt list \<Rightarrow> ConsumeOrderlyStatus \<Rightarrow> bool \<Rightarrow> int \<Rightarrow> nat \<Rightarrow> MessageQueue \<Rightarrow> PushImpl \<Rightarrow> PushImpl \<times> bool" where
  "processConsumeResult_orderly msgs status autoCommit suspendMillis a mq pu =
     (let msgsSize = isize msgs;
          do_commit = (\<lambda>_::unit. let (pq', off) = commit (pu_pq pu a)
                                  in (count_consumed msgsSize 0 (with_pq a (\<lambda>_. pq') pu), True, off));
          do_again = (\<lambda>_::unit. (count_consumed 0 msgsSize (submitConsumeRequestLater_orderly a mq suspendMillis
                                  (with_pq a (makeMessageToCosumeAgain msgs) pu)), False, - 1));
          do_rollback = (\<lambda>_::unit. (count_consumed 0 msgsSize (submitConsumeRequestLater_orderly a mq suspendMillis
                                  (with_pq a rollback pu)), False, - 1));
          (pu1, continueConsume, commitOffset) =
            (if autoCommit then
               (case status of SUSPEND_CURRENT_QUEUE_A_MOMENT \<Rightarrow> do_again () | _ \<Rightarrow> do_commit ())
             else
               (case status of
                  SUCCESS \<Rightarrow> (count_consumed msgsSize 0 pu, True, - 1)
                | COMMIT \<Rightarrow> do_commit ()
                | ROLLBACK \<Rightarrow> do_rollback ()
                | SUSPEND_CURRENT_QUEUE_A_MOMENT \<Rightarrow> do_again ()))
      in (if commitOffset \<ge> 0 then commit_offset mq commitOffset False pu1 else pu1, continueConsume))"

text \<open>
  The loop of \<^verbatim>\<open>ConsumeOrderlyRequest::Do\<close>. Each round reads the clock four times (lock expiry,
  interval, before and after the listener); \<open>k\<close> is the number of the next reading.
\<close>

fun orderly_loop ::
  "nat \<Rightarrow> (MessageExt list \<Rightarrow> (ConsumeOrderlyStatus \<times> bool \<times> int) option) \<Rightarrow> (nat \<Rightarrow> int) \<Rightarrow> int \<Rightarrow> nat \<Rightarrow> nat \<Rightarrow> MessageQueue \<Rightarrow>
   PushImpl \<Rightarrow> (PushImpl \<times> MessageExt list list) option" where
  "orderly_loop 0 listener clock beginTime k a mq pu = None"
| "orderly_loop (Suc n) listener clock beginTime k a mq pu =
     (if pq_dropped (pu_pq pu a) then Some (pu, [])
      else if \<not> pq_locked (pu_pq pu a) then Some (pu, [])
      else if isLockExpired (clock k) (pu_pq pu a) then Some (pu, [])
      else if i64 (clock (k + 1) - beginTime) > s_MaxTimeConsumeContinuously
      then Some (submitConsumeRequestLater_orderly a mq 10 pu, [])
      else
        (let (pq', msgs) = takeMessages (dc_consumeMessageBatchMaxSize (pu_config pu)) (pu_pq pu a);
             pu1 = with_pq a (\<lambda>_. pq') pu
         in if msgs \<noteq> [] then
              (let (status, autoCommit, suspendMillis) =
                     (case listener msgs of Some x \<Rightarrow> x | None \<Rightarrow> (SUSPEND_CURRENT_QUEUE_A_MOMENT, True, 1000));
                   pu2 = count_rt (i64 (clock (k + 3) - clock (k + 2))) pu1;
                   (pu3, continueConsume) = processConsumeResult_orderly msgs status autoCommit suspendMillis a mq pu2
               in if continueConsume
                  then map_option (\<lambda>(p, l). (p, msgs # l)) (orderly_loop n listener clock beginTime (k + 4) a mq pu3)
                  else Some (pu3, [msgs]))
            else Some (pu1, [])))"

definition orderly_Do ::
  "nat \<Rightarrow> (MessageExt list \<Rightarrow> (ConsumeOrderlyStatus \<times> bool \<times> int) option) \<Rightarrow> (nat \<Rightarrow> int) \<Rightarrow> nat \<Rightarrow> MessageQueue \<Rightarrow>
   PushImpl \<Rightarrow> (PushImpl \<times> MessageExt list list) option" where
  "orderly_Do fuel listener clock a mq pu =
     (if pq_locked (pu_pq pu a) \<or> \<not> isLockExpired (clock 0) (pu_pq pu a)
      then orderly_loop fuel listener clock (clock 1) 2 a mq pu
      else Some (tryLockLaterAndReconsume mq a 10 pu, []))"

section \<open>Lemmas\<close>

definition new_client :: "Client \<Rightarrow> PushImpl \<Rightarrow> PushImpl" where
  "new_client c pu = pu\<lparr>pu_consumer := (pu_consumer pu)\<lparr>co_client := c\<rparr>\<rparr>"

lemma new_client_fields [simp]:
  "pu_config (new_client c pu) = pu_config pu" "pu_stat (new_client c pu) = pu_stat pu"
  "pu_executor (new_client c pu) = pu_executor pu" "pu_scheduled (new_client c pu) = pu_scheduled pu"
  "pu_stoped (new_client c pu) = pu_stoped pu" "co_rebalance (pu_consumer (new_client c pu)) = co_rebalance (pu_consumer pu)"
  "co_store (pu_consumer (new_client c pu)) = co_store (pu_consumer pu)" "new_client c (new_client d pu) = new_client c pu"
  by (simp_all add: new_client_def)

lemma send_back_api_offset: "consumerSendMessageBack e net msg grp delayLevel api = (api', msg', r) \<Longrightarrow> m_queueOffset msg' = m_queueOffset msg"
  by (auto simp: consumerSendMessageBack_def setTopic_msg_def Let_def split: sum.splits option.splits prod.splits if_splits)

lemma sendMessageBack_frame:
  assumes "sendMessageBack sb msg delayLevel pu = Inr (pu', msg', okay)"
  shows "(\<exists>c. pu' = new_client c pu) \<and> m_queueOffset msg' = m_queueOffset msg"
proof -
  let ?c = "co_client (pu_consumer pu)"
  obtain api' m r where s: "consumerSendMessageBack (en_endian (sb_env sb)) (en_net (sb_env sb)) msg (dc_consumerGroup (pu_config pu))
      delayLevel (cl_api ?c) = (api', m, r)"
    by (metis prod_cases3)
  obtain p m' x where q: "sendMessageBack_push sb msg delayLevel pu = (p, m', x)" by (metis prod_cases3)
  then have p: "\<exists>c. p = new_client c pu" "m' = m"
    using s by (auto simp: sendMessageBack_push_def new_client_def Let_def split: sum.splits error.splits prod.splits)
  have "pu' = p" "msg' = m'"
    using assms q by (auto simp: sendMessageBack_def split: sum.splits error.splits)
  with p send_back_api_offset [OF s] show ?thesis by simp
qed

lemma send_back_all_frame:
  "send_back_all sb delayLevel msgs pu = Inr (pu', l) \<Longrightarrow>
    (pu' = pu \<or> (\<exists>c. pu' = new_client c pu)) \<and> map (\<lambda>x. m_queueOffset (fst x)) l = offsets msgs"
proof (induction msgs arbitrary: pu pu' l)
  case (Cons msg msgs)
  from Cons.prems obtain pu1 msg1 okay l1 where
    1: "sendMessageBack sb msg delayLevel pu = Inr (pu1, msg1, okay)" and
    2: "send_back_all sb delayLevel msgs pu1 = Inr (pu', l1)" and
    l: "l = (if okay then (msg1, True) else (setReconsumeTimes (i32 (m_reconsumeTimes msg1 + 1)) msg1, False)) # l1"
    by (auto simp: bind_r_Inr)
  from sendMessageBack_frame [OF 1] Cons.IH [OF 2] l show ?case
    by (auto simp: offsets_def setReconsumeTimes_def)
qed (simp add: offsets_def)

lemma batch_loop_batches:
  assumes "0 < sz" "length msgs < fuel"
  shows "\<exists>l. batch_loop fuel sz msgs = Some l \<and> concat l = msgs \<and> (\<forall>b \<in> set l. b \<noteq> [] \<and> length b \<le> sz)"
  using assms
proof (induction fuel arbitrary: msgs)
  case (Suc n)
  show ?case
  proof (cases "msgs = []")
    case False
    with Suc.prems have "length (drop sz msgs) < n" by (cases msgs) auto
    with Suc.IH [of "drop sz msgs"] Suc.prems obtain l where
      l: "batch_loop n sz (drop sz msgs) = Some l" "concat l = drop sz msgs" "\<forall>b \<in> set l. b \<noteq> [] \<and> length b \<le> sz" by auto
    with False Suc.prems show ?thesis by auto
  qed simp
qed simp

lemma submit_work:
  assumes "1 \<le> dc_consumeMessageBatchMaxSize (pu_config pu)" "dc_consumeMessageBatchMaxSize (pu_config pu) \<le> 1024" "length msgs < fuel"
  shows "\<exists>l. submitConsumeRequest fuel msgs a mq d pu = Some (add_work (map (\<lambda>b. ConsumeConcurrentlyRequest b a mq) l) pu) \<and>
    concat l = msgs \<and> (\<forall>b \<in> set l. length b \<le> nat (dc_consumeMessageBatchMaxSize (pu_config pu)) \<and> (msgs \<noteq> [] \<longrightarrow> b \<noteq> []))"
proof -
  have u: "nat (u64 (dc_consumeMessageBatchMaxSize (pu_config pu))) = nat (dc_consumeMessageBatchMaxSize (pu_config pu))"
    using assms(1,2) by (simp add: u64_id)
  show ?thesis
  proof (cases "length msgs \<le> nat (dc_consumeMessageBatchMaxSize (pu_config pu))")
    case True
    then show ?thesis by (intro exI [of _ "[msgs]"]) (simp add: submitConsumeRequest_def u)
  next
    case False
    have "0 < nat (dc_consumeMessageBatchMaxSize (pu_config pu))" using assms(1) by simp
    from batch_loop_batches [OF this assms(3)] False show ?thesis by (auto simp: submitConsumeRequest_def u)
  qed
qed

text \<open>The committed offset of a queue, and that it does not pass a message that still waits.\<close>

definition committed :: "PushImpl \<Rightarrow> MessageQueue \<Rightarrow> int option" where
  "committed pu mq = (case co_store (pu_consumer pu) of Remote st \<Rightarrow> os_look st mq | LocalFile _ \<Rightarrow> None)"

definition no_loss :: "PushImpl \<Rightarrow> nat \<Rightarrow> MessageQueue \<Rightarrow> bool" where
  "no_loss pu a mq \<longleftrightarrow> (\<forall>v. committed pu mq = Some v \<longrightarrow> (\<forall>k \<in> set (mkeys (pq_msgTreeMap (pu_pq pu a))). v \<le> k))"

lemma committed_commit:
  "committed (commit_offset mq v True pu) mq' =
    (case co_store (pu_consumer pu) of
       Remote st \<Rightarrow> if mq' = mq then Some (case committed pu mq of None \<Rightarrow> v | Some c \<Rightarrow> max c v) else committed pu mq'
     | LocalFile _ \<Rightarrow> None)"
  by (auto simp: committed_def commit_offset_def updateOffset_def mget_mput lf_updateOffset_def split: OffsetStore.splits option.splits)

lemma with_pq_at [simp]:
  "a < length (rb_heap (co_rebalance (pu_consumer pu))) \<Longrightarrow> pu_pq (with_pq a g pu) a = g (pu_pq pu a)"
  "co_store (pu_consumer (with_pq a g pu)) = co_store (pu_consumer pu)" "pu_config (with_pq a g pu) = pu_config pu"
  "pu_scheduled (with_pq a g pu) = pu_scheduled pu"
  "length (rb_heap (co_rebalance (pu_consumer (with_pq a g pu)))) = length (rb_heap (co_rebalance (pu_consumer pu)))"
  by (simp_all add: with_pq_def set_pq_nth)

lemma commit_offset_fields [simp]:
  "co_rebalance (pu_consumer (commit_offset mq v b pu)) = co_rebalance (pu_consumer pu)"
  "pu_scheduled (commit_offset mq v b pu) = pu_scheduled pu" "pu_config (commit_offset mq v b pu) = pu_config pu"
  by (simp_all add: commit_offset_def)

lemma committed_with_pq [simp]: "committed (with_pq a g pu) mq = committed pu mq"
  by (simp add: committed_def)

lemma finish_batch_safe:
  assumes "pq_ok (pu_pq pu a)" "a < length (rb_heap (co_rebalance (pu_consumer pu)))" "pq_msgTreeMap (pu_pq pu a) \<noteq> []"
    and "no_loss pu a mq"
  shows "set (mkeys (pq_msgTreeMap (pu_pq (finish_batch msgs a mq pu) a))) =
      set (mkeys (pq_msgTreeMap (pu_pq pu a))) - set (offsets msgs) \<and>
    no_loss (finish_batch msgs a mq pu) a mq \<and> pu_scheduled (finish_batch msgs a mq pu) = pu_scheduled pu"
proof -
  obtain pq' r where r: "removeMessage msgs (pu_pq pu a) = (pq', r)" by (cases "removeMessage msgs (pu_pq pu a)")
  note res = remove_result [OF assms(1,3) r]
  have ne: "set (mkeys (pq_msgTreeMap pq')) \<noteq> {}" if "pq_msgTreeMap pq' \<noteq> []" using that by (simp add: mkeys_def)
  have low: "r \<le> k" if "k \<in> set (mkeys (pq_msgTreeMap pq'))" for k
    using res(3) that by (cases "pq_msgTreeMap pq' = []") simp_all
  have old: "v \<le> k" if "committed pu mq = Some v" "k \<in> set (mkeys (pq_msgTreeMap pq'))" for v k
    using assms(4) that res(1) by (auto simp: no_loss_def)
  have pq: "pu_pq (finish_batch msgs a mq pu) a = pq'" using assms(2) by (simp add: finish_batch_def r Let_def)
  have c: "committed (finish_batch msgs a mq pu) mq \<in> {committed pu mq, Some (case committed pu mq of None \<Rightarrow> r | Some c \<Rightarrow> max c r), None}"
    by (cases "co_store (pu_consumer pu)") (simp_all add: finish_batch_def r Let_def committed_commit)
  have "no_loss (finish_batch msgs a mq pu) a mq"
    using c old low by (auto simp: no_loss_def pq split: option.splits)
  with res(1) show ?thesis by (simp add: pq) (simp add: finish_batch_def r Let_def)
qed

lemma filter_parts_disjoint: "distinct (map f l) \<Longrightarrow> f ` set (filter P l) \<inter> f ` set (filter (\<lambda>x. \<not> P x) l) = {}"
  by (induction l) auto

text \<open>Sending back asks for one message after the other and keeps each answer.\<close>

lemma send_back_all_trace:
  "send_back_all sb delayLevel msgs pu = Inr (pu', l) \<Longrightarrow>
    \<exists>pus. length pus = Suc (length msgs) \<and> hd pus = pu \<and> length l = length msgs \<and>
      (\<forall>i < length msgs. \<exists>msg'. sendMessageBack sb (msgs ! i) delayLevel (pus ! i) = Inr (pus ! Suc i, msg', snd (l ! i)))"
proof (induction msgs arbitrary: pu l)
  case (Cons msg msgs)
  from Cons.prems obtain pu1 msg1 okay l1 where
    1: "sendMessageBack sb msg delayLevel pu = Inr (pu1, msg1, okay)" and
    2: "send_back_all sb delayLevel msgs pu1 = Inr (pu', l1)" and
    l: "l = (if okay then (msg1, True) else (setReconsumeTimes (i32 (m_reconsumeTimes msg1 + 1)) msg1, False)) # l1"
    by (auto simp: bind_r_Inr)
  from Cons.IH [OF 2] obtain pus where pus: "length pus = Suc (length msgs)" "hd pus = pu1" "length l1 = length msgs"
    "\<forall>i < length msgs. \<exists>msg'. sendMessageBack sb (msgs ! i) delayLevel (pus ! i) = Inr (pus ! Suc i, msg', snd (l1 ! i))" by blast
  have h: "pus ! 0 = pu1" using pus(1,2) by (cases pus) auto
  have "snd (hd l) = okay" using l by simp
  then show ?case
    using pus 1 h l by (intro exI [of _ "pu # pus"]) (auto simp: nth_Cons split: nat.split)
next
  case Nil
  then show ?case by (intro exI [of _ "[pu]"]) simp
qed

lemma failed_offsets:
  assumes "map (\<lambda>x. m_queueOffset (fst x)) l = offsets msgs"
  shows "offsets (map fst (filter (\<lambda>x. \<not> snd x) l)) =
    map (\<lambda>i. m_queueOffset (msgs ! i)) (filter (\<lambda>i. \<not> map snd l ! i) [0..<length msgs])"
proof -
  have len: "length l = length msgs" using arg_cong [OF assms, of length] by (simp add: offsets_def)
  have nth: "m_queueOffset (fst (l ! i)) = m_queueOffset (msgs ! i)" if "i < length l" for i
    using arg_cong [OF assms, of "\<lambda>xs. xs ! i"] that len by (simp add: offsets_def)
  have "filter (\<lambda>x. \<not> snd x) l = map (\<lambda>i. l ! i) (filter (\<lambda>i. \<not> snd (l ! i)) [0..<length l])"
    by (subst (1) map_nth [symmetric]) (simp only: filter_map comp_def)
  then have "offsets (map fst (filter (\<lambda>x. \<not> snd x) l)) =
      map (\<lambda>i. m_queueOffset (fst (l ! i))) (filter (\<lambda>i. \<not> snd (l ! i)) [0..<length l])"
    by (simp add: offsets_def comp_def)
  also have "\<dots> = map (\<lambda>i. m_queueOffset (msgs ! i)) (filter (\<lambda>i. \<not> map snd l ! i) [0..<length l])"
    by (intro map_cong filter_cong) (auto simp: nth)
  finally show ?thesis by (simp only: len)
qed

lemma kept_offsets:
  assumes "distinct (offsets msgs)" "map (\<lambda>x. m_queueOffset (fst x)) l = offsets (drop n msgs)"
  shows "set (offsets (take n msgs @ map fst (filter snd l))) =
    set (offsets msgs) - set (offsets (map fst (filter (\<lambda>x. \<not> snd x) l)))"
proof -
  have off: "offsets msgs = offsets (take n msgs) @ map (\<lambda>x. m_queueOffset (fst x)) l"
    using assms(2) by (simp add: offsets_def flip: map_append)
  have split: "set (map (\<lambda>x. m_queueOffset (fst x)) l) =
      set (offsets (map fst (filter snd l))) \<union> set (offsets (map fst (filter (\<lambda>x. \<not> snd x) l)))"
    by (auto simp: offsets_def)
  have "distinct (map (\<lambda>x. m_queueOffset (fst x)) l)" "set (offsets (take n msgs)) \<inter> set (map (\<lambda>x. m_queueOffset (fst x)) l) = {}"
    using assms(1) unfolding off by simp_all
  with filter_parts_disjoint [of "\<lambda>x. m_queueOffset (fst x)" l snd] split
  have "set (offsets (take n msgs @ map fst (filter snd l))) \<inter> set (offsets (map fst (filter (\<lambda>x. \<not> snd x) l))) = {}"
    by (auto simp: offsets_def image_image)
  then show ?thesis using split off by (auto simp: offsets_def)
qed

lemma process_finish:
  assumes "processConsumeResult sb status ackIndex delayLevel msgs a mq pu = Inr pu'" "msgs \<noteq> []"
    and "dc_messageModel (pu_config pu) = CLUSTERING"
    and "n = nat (ack_index status ackIndex (isize msgs) + 1)"
  shows "\<exists>pu1 pu2 l. send_back_all sb delayLevel (drop n msgs) pu1 = Inr (pu2, l) \<and>
    pu_consumer pu1 = pu_consumer pu \<and> pu_scheduled pu1 = pu_scheduled pu \<and>
    pu' = finish_batch (take n msgs @ map fst (filter snd l)) a mq
      (if map fst (filter (\<lambda>x. \<not> snd x) l) \<noteq> []
       then submitConsumeRequestLater (map fst (filter (\<lambda>x. \<not> snd x) l)) a mq pu2 else pu2)"
proof -
  let ?ack = "ack_index status ackIndex (isize msgs)"
  define pu1 where "pu1 = (case status of
      CONSUME_SUCCESS \<Rightarrow> (let okay = i32 (?ack + 1) in count_consumed okay (i32 (isize msgs - okay)) pu)
    | RECONSUME_LATER \<Rightarrow> count_consumed 0 (isize msgs) pu)"
  have f: "pu_consumer pu1 = pu_consumer pu" "pu_scheduled pu1 = pu_scheduled pu"
    by (simp_all add: pu1_def count_consumed_def Let_def split: ConsumeConcurrentlyStatus.split)
  show ?thesis
    using assms f unfolding processConsumeResult_def Let_def pu1_def [unfolded Let_def, symmetric]
    by (simp only: if_False MessageModel.case bind_r_Inr) (elim exE conjE, simp only: split_paired_all case_prod_conv sum.inject, blast)
qed

lemma count_fields [simp]:
  "pu_consumer (count_rt t pu) = pu_consumer pu" "pu_config (count_rt t pu) = pu_config pu" "pu_stoped (count_rt t pu) = pu_stoped pu"
  "pu_consumer (count_consumed x y pu) = pu_consumer pu" "pu_config (count_consumed x y pu) = pu_config pu"
  "pu_stoped (count_consumed x y pu) = pu_stoped pu"
  "pu_consumer (schedule e task b pu) = pu_consumer pu" "pu_config (schedule e task b pu) = pu_config pu" "pu_stoped (schedule e task b pu) = pu_stoped pu"
  by (simp_all add: count_rt_def count_consumed_def schedule_def)

lemma orderly_result_continue:
  assumes "processConsumeResult_orderly msgs status autoCommit ms a mq pu = (pu', True)" "a < length (rb_heap (co_rebalance (pu_consumer pu)))"
  shows "pq_msgTreeMap (pu_pq pu' a) = pq_msgTreeMap (pu_pq pu a) \<and> pu_config pu' = pu_config pu \<and>
    length (rb_heap (co_rebalance (pu_consumer pu'))) = length (rb_heap (co_rebalance (pu_consumer pu)))"
  using assms
  by (auto simp: processConsumeResult_orderly_def Let_def commit_def split: if_splits ConsumeOrderlyStatus.splits prod.splits)

lemma take_parts: "take (length (take b xs) + m) xs = take b xs @ take m (drop b xs)"
  by (cases "b \<le> length xs") (simp_all add: take_add min_absorb2)

lemma orderly_loop_order:
  assumes "1 \<le> dc_consumeMessageBatchMaxSize (pu_config pu)" "a < length (rb_heap (co_rebalance (pu_consumer pu)))"
    and "length (pq_msgTreeMap (pu_pq pu a)) < fuel"
  shows "\<exists>pu' l. orderly_loop fuel listener clock b k a mq pu = Some (pu', l) \<and>
    concat l = take (length (concat l)) (map snd (pq_msgTreeMap (pu_pq pu a))) \<and>
    (\<forall>x \<in> set l. x \<noteq> [] \<and> length x \<le> nat (dc_consumeMessageBatchMaxSize (pu_config pu)))"
  using assms
proof (induction fuel arbitrary: k pu)
  case (Suc n)
  let ?stop = "pq_dropped (pu_pq pu a) \<or> \<not> pq_locked (pu_pq pu a) \<or> isLockExpired (clock k) (pu_pq pu a) \<or>
    s_MaxTimeConsumeContinuously < i64 (clock (k + 1) - b)"
  let ?sz = "nat (dc_consumeMessageBatchMaxSize (pu_config pu))" and ?tree = "pq_msgTreeMap (pu_pq pu a)"
  show ?case
  proof (cases "?stop \<or> ?tree = []")
    case True
    then show ?thesis by (auto simp: takeMessages_eq)
  next
    case False
    obtain pq' where t: "takeMessages (dc_consumeMessageBatchMaxSize (pu_config pu)) (pu_pq pu a) = (pq', map snd (take ?sz ?tree))"
      and tree: "pq_msgTreeMap pq' = drop ?sz ?tree" and ne: "take ?sz ?tree \<noteq> []"
      using False Suc.prems(1) by (auto simp: takeMessages_eq Let_def)
    let ?msgs = "map snd (take ?sz ?tree)" and ?pu1 = "with_pq a (\<lambda>_. pq') pu"
    obtain status autoCommit ms where r:
      "(case listener ?msgs of Some x \<Rightarrow> x | None \<Rightarrow> (SUSPEND_CURRENT_QUEUE_A_MOMENT, True, 1000)) = (status, autoCommit, ms)"
      by (metis prod_cases3)
    obtain pu3 go where p: "processConsumeResult_orderly ?msgs status autoCommit ms a mq
        (count_rt (i64 (clock (k + 3) - clock (k + 2))) ?pu1) = (pu3, go)" by fastforce
    have step: "orderly_loop (Suc n) listener clock b k a mq pu =
        (if go then map_option (\<lambda>(p, l). (p, ?msgs # l)) (orderly_loop n listener clock b (k + 4) a mq pu3) else Some (pu3, [?msgs]))"
      using False ne by (simp add: t r p Let_def del: add_2_eq_Suc')
    show ?thesis
    proof (cases go)
      case False
      with ne show ?thesis
        by (intro exI [of _ pu3] exI [of _ "[?msgs]"]) (simp add: step take_map min_def del: orderly_loop.simps)
    next
      case True
      from p True have "processConsumeResult_orderly ?msgs status autoCommit ms a mq
        (count_rt (i64 (clock (k + 3) - clock (k + 2))) ?pu1) = (pu3, True)" by simp
      note c = orderly_result_continue [OF this]
      have tr: "pq_msgTreeMap (pu_pq pu3 a) = drop ?sz ?tree" "pu_config pu3 = pu_config pu"
        "a < length (rb_heap (co_rebalance (pu_consumer pu3)))"
        using c Suc.prems(2) tree by simp_all
      have "length (drop ?sz ?tree) < n" using Suc.prems(1,3) False by (cases ?tree) auto
      with Suc.IH [of pu3 "k + 4"] tr Suc.prems(1) obtain pu' l where
        l: "orderly_loop n listener clock b (k + 4) a mq pu3 = Some (pu', l)"
          "concat l = take (length (concat l)) (map snd (drop ?sz ?tree))" "\<forall>x \<in> set l. x \<noteq> [] \<and> length x \<le> ?sz" by auto
      have eq: "concat (?msgs # l) = take (length (concat (?msgs # l))) (map snd ?tree)"
        using l(2) take_parts [of ?sz "map snd ?tree" "length (concat l)"] by (simp add: take_map drop_map)
      have run: "orderly_loop (Suc n) listener clock b k a mq pu = Some (pu', ?msgs # l)"
        using True l(1) by (simp add: step del: orderly_loop.simps)
      have "\<forall>x \<in> set (?msgs # l). x \<noteq> [] \<and> length x \<le> ?sz" using l(3) ne by simp
      with eq run show ?thesis by blast
    qed
  qed
qed simp

section \<open>Properties\<close>

definition sample_push :: PushImpl where
  "sample_push = \<lparr>pu_config = DefaultMQPushConsumer_new ''cg'',
     pu_consumer = sample_consumer\<lparr>co_rebalance := sample_rebalance\<lparr>rb_heap := [sample_pq, ProcessQueue_new 0]\<rparr>,
       co_store := Remote (RemoteBrokerOffsetStore_new ''cg'')\<rparr>,
     pu_stat = \<lparr>cs_consumeMsgRTMax = 0, cs_consumeMsgRTTotal = 0, cs_consumeMsgOKTotal = 0, cs_consumeMsgFailedTotal = 0,
       cs_pullRTTotal = 0, cs_pullTimesTotal = 0\<rparr>,
     pu_executor = [], pu_destroyed = False, pu_scheduled = (TimerThread_new 0 1000)\<lparr>tt_started := True\<rparr>, pu_stoped = False\<rparr>"

definition sample_back :: SendBackEnv where
  "sample_back = \<lparr>sb_env = silent_env, sb_producer = running_producer, sb_deflate = (\<lambda>_. None), sb_junk = 0, sb_clock = (\<lambda>_. 0)\<rparr>"

text \<open>
  The concurrent service splits what was pulled into batches of at most the
  configured size: every message is in exactly one batch, in order, and no batch is empty.
\<close>

theorem submit_batches:
  assumes "1 \<le> dc_consumeMessageBatchMaxSize (pu_config pu)" "dc_consumeMessageBatchMaxSize (pu_config pu) \<le> 1024"
    and "msgs \<noteq> []" "length msgs < fuel" "\<not> pu_destroyed pu"
  shows "\<exists>l. submitConsumeRequest fuel msgs a mq d pu =
      Some (pu\<lparr>pu_executor := pu_executor pu @ map (\<lambda>b. ConsumeConcurrentlyRequest b a mq) l\<rparr>) \<and>
    concat l = msgs \<and> (\<forall>b \<in> set l. b \<noteq> [] \<and> length b \<le> nat (dc_consumeMessageBatchMaxSize (pu_config pu)))"
  using submit_work [OF assms(1,2,4), of a mq d] assms(3,5) by (auto simp: add_work_def)

theorem submit_batches_witness:
  "\<exists>l. submitConsumeRequest 4 [msg_at 3, msg_at 4, msg_at 5] 0 (MessageQueue ''T'' ''a'' 0) True sample_push =
      Some (sample_push\<lparr>pu_executor := pu_executor sample_push @ map (\<lambda>b. ConsumeConcurrentlyRequest b 0 (MessageQueue ''T'' ''a'' 0)) l\<rparr>) \<and>
    concat l = [msg_at 3, msg_at 4, msg_at 5] \<and> (\<forall>b \<in> set l. length b \<le> 1)"
proof -
  have b: "dc_consumeMessageBatchMaxSize (pu_config sample_push) = 1" "\<not> pu_destroyed sample_push"
    by (simp_all add: sample_push_def DefaultMQPushConsumer_new_def)
  from submit_batches [of sample_push "[msg_at 3, msg_at 4, msg_at 5]" 4 0 "MessageQueue ''T'' ''a'' 0" True] show ?thesis
    by (auto simp: b)
qed

text \<open>
  A batch of which the listener acknowledges the first message, the broker at port 1 takes back
  the second, and the broker of the third does not answer, nor can it go out through the retry
  topic.
\<close>

definition stored_at :: "int \<Rightarrow> int \<Rightarrow> MessageExt" where
  "stored_at p off = (msg_at off)\<lparr>m_storeHost := Some \<lparr>sin_family = 2, sin_port = p, s_addr = 0\<rparr>\<rparr>"

definition choosy_batch :: "MessageExt list" where
  "choosy_batch = [stored_at 256 3, stored_at 256 4, stored_at 512 5]"

definition choosy_back :: SendBackEnv where
  "choosy_back = sample_back\<lparr>sb_env := silent_env\<lparr>en_net := (\<lambda>addr cmd. if addr = ''0.0.0.0:1''
     then Some (RemotingCommand_new SUCCESS_VALUE ''JAVA'' 0 (rc_opaque cmd) 1 [] None) else None)\<rparr>\<rparr>"

lemma choosy_result:
  "case processConsumeResult choosy_back CONSUME_SUCCESS 0 0 choosy_batch 0 (MessageQueue ''T'' ''a'' 0) sample_push of
     Inr pu' \<Rightarrow> mkeys (pq_msgTreeMap (pu_pq pu' 0)) = [5] | Inl _ \<Rightarrow> False"
  by code_simp

text \<open>
  Property C3. At least once: in clustering mode the result of a batch leaves the offset that is
  committed for the queue at or below every message still waiting there. The messages after the
  acknowledged ones are sent back one after the other; a message is unacknowledged and failed
  exactly when the answer to its own sendMessageBack was false. Exactly the failed messages of
  the batch stay in the queue, and they are registered with the timer for another attempt; all
  the others leave it.
\<close>

theorem consume_offset_safe:
  assumes "processConsumeResult sb status ackIndex delayLevel msgs a mq pu = Inr pu'" "dc_messageModel (pu_config pu) = CLUSTERING"
    and "pq_ok (pu_pq pu a)" "a < length (rb_heap (co_rebalance (pu_consumer pu)))"
    and "msgs \<noteq> []" "distinct (offsets msgs)" "set (offsets msgs) \<subseteq> set (mkeys (pq_msgTreeMap (pu_pq pu a)))"
    and "no_loss pu a mq" "rest = drop (nat (ack_index status ackIndex (isize msgs) + 1)) msgs"
  shows "no_loss pu' a mq \<and> (\<exists>pus sent failed.
    length pus = Suc (length rest) \<and> length sent = length rest \<and> pu_consumer (hd pus) = pu_consumer pu \<and>
    (\<forall>i < length rest. \<exists>msg'. sendMessageBack sb (rest ! i) delayLevel (pus ! i) = Inr (pus ! Suc i, msg', sent ! i)) \<and>
    offsets failed = map (\<lambda>i. m_queueOffset (rest ! i)) (filter (\<lambda>i. \<not> sent ! i) [0..<length rest]) \<and>
    set (mkeys (pq_msgTreeMap (pu_pq pu' a))) =
      set (mkeys (pq_msgTreeMap (pu_pq pu a))) - (set (offsets msgs) - set (offsets failed)) \<and>
    (failed \<noteq> [] \<longrightarrow> (\<exists>n i. mget (tt_timers (pu_scheduled pu')) n = Some i \<and>
       ti_handler i = SubmitConsumeRequestLater failed a mq \<and> ti_elapse i = 5000)))"
proof -
  define n where "n = nat (ack_index status ackIndex (isize msgs) + 1)"
  have rest: "rest = drop n msgs" using assms(9) by (simp add: n_def)
  obtain pu1 pu2 l where sb: "send_back_all sb delayLevel rest pu1 = Inr (pu2, l)"
    and f: "pu_consumer pu1 = pu_consumer pu" "pu_scheduled pu1 = pu_scheduled pu"
    and p: "pu' = finish_batch (take n msgs @ map fst (filter snd l)) a mq
      (if map fst (filter (\<lambda>x. \<not> snd x) l) \<noteq> [] then submitConsumeRequestLater (map fst (filter (\<lambda>x. \<not> snd x) l)) a mq pu2 else pu2)"
    using process_finish [OF assms(1,5,2) n_def] rest by blast
  let ?failed = "map fst (filter (\<lambda>x. \<not> snd x) l)" and ?kept = "take n msgs @ map fst (filter snd l)"
  obtain pus where tr: "length pus = Suc (length rest)" "hd pus = pu1" "length l = length rest"
    "\<forall>i < length rest. \<exists>msg'. sendMessageBack sb (rest ! i) delayLevel (pus ! i) = Inr (pus ! Suc i, msg', snd (l ! i))"
    using send_back_all_trace [OF sb] by blast
  define pu3 where "pu3 = (if ?failed \<noteq> [] then submitConsumeRequestLater ?failed a mq pu2 else pu2)"
  note fr = send_back_all_frame [OF sb]
  have p': "pu' = finish_batch ?kept a mq pu3" using p by (simp only: pu3_def)
  have rb: "co_rebalance (pu_consumer pu3) = co_rebalance (pu_consumer pu)" "co_store (pu_consumer pu3) = co_store (pu_consumer pu)"
    using fr f by (auto simp: pu3_def submitConsumeRequestLater_def schedule_def)
  have ne: "pq_msgTreeMap (pu_pq pu a) \<noteq> []" using assms(5,7) by (cases msgs) (auto simp: offsets_def)
  have nl: "no_loss pu3 a mq" using assms(8) by (simp add: no_loss_def committed_def rb)
  have fin: "set (mkeys (pq_msgTreeMap (pu_pq pu' a))) = set (mkeys (pq_msgTreeMap (pu_pq pu a))) - set (offsets ?kept)"
    "no_loss pu' a mq" "pu_scheduled pu' = pu_scheduled pu3"
    using finish_batch_safe [of pu3 a mq ?kept] assms(3,4) ne nl by (simp_all add: rb p')
  note kept = kept_offsets [OF assms(6) fr [THEN conjunct2, unfolded rest]]
  have failed: "offsets ?failed = map (\<lambda>i. m_queueOffset (rest ! i)) (filter (\<lambda>i. \<not> map snd l ! i) [0..<length rest])"
    using failed_offsets [OF fr [THEN conjunct2]] .
  have sched: "\<exists>n i. mget (tt_timers (pu_scheduled pu')) n = Some i \<and> ti_handler i = SubmitConsumeRequestLater ?failed a mq \<and> ti_elapse i = 5000"
    if "?failed \<noteq> []"
    using that fin(3) by (auto simp: pu3_def submitConsumeRequestLater_def schedule_def RegisterTimer_def GetNextTimerID_def Let_def mget_mput)
  show ?thesis
    using fin(1,2) tr f kept failed sched
    by (intro conjI exI [of _ pus] exI [of _ "map snd l"] exI [of _ ?failed]) simp_all
qed

theorem consume_offset_safe_witness:
  "\<exists>pu' failed n i. processConsumeResult choosy_back CONSUME_SUCCESS 0 0 choosy_batch 0 (MessageQueue ''T'' ''a'' 0) sample_push = Inr pu' \<and>
     no_loss pu' 0 (MessageQueue ''T'' ''a'' 0) \<and> set (mkeys (pq_msgTreeMap (pu_pq pu' 0))) = {5} \<and> 5 \<in> set (offsets failed) \<and>
     mget (tt_timers (pu_scheduled pu')) n = Some i \<and> ti_handler i = SubmitConsumeRequestLater failed 0 (MessageQueue ''T'' ''a'' 0)"
proof -
  let ?q = "MessageQueue ''T'' ''a'' 0"
  have m: "dc_messageModel (pu_config sample_push) = CLUSTERING" by (simp add: sample_push_def DefaultMQPushConsumer_new_def)
  have h: "pu_pq sample_push 0 = sample_pq" "0 < length (rb_heap (co_rebalance (pu_consumer sample_push)))" by (simp_all add: sample_push_def)
  have ok: "pq_ok (pu_pq sample_push 0)" using pq_reachable_ok [OF sample_pq_reachable] h by simp
  have o: "offsets choosy_batch = [3, 4, 5]" by (simp add: choosy_batch_def stored_at_def offsets_def msg_at_def setQueueOffset_ext_def)
  have d: "choosy_batch \<noteq> []" "distinct (offsets choosy_batch)"
    "set (offsets choosy_batch) \<subseteq> set (mkeys (pq_msgTreeMap (pu_pq sample_push 0)))"
    using o sample_pq_tree h by (auto simp: choosy_batch_def)
  have n: "no_loss sample_push 0 ?q" by (simp add: no_loss_def committed_def sample_push_def RemoteBrokerOffsetStore_new_def)
  obtain pu' where p: "processConsumeResult choosy_back CONSUME_SUCCESS 0 0 choosy_batch 0 ?q sample_push = Inr pu'"
    and k: "mkeys (pq_msgTreeMap (pu_pq pu' 0)) = [5]"
    using choosy_result by (auto split: sum.splits)
  from consume_offset_safe [OF p m ok h(2) d n refl] obtain failed where
    "no_loss pu' 0 ?q" "set (mkeys (pq_msgTreeMap (pu_pq pu' 0))) = {3, 4, 5} - ({3, 4, 5} - set (offsets failed))"
    "failed \<noteq> [] \<longrightarrow> (\<exists>n i. mget (tt_timers (pu_scheduled pu')) n = Some i \<and> ti_handler i = SubmitConsumeRequestLater failed 0 ?q \<and> ti_elapse i = 5000)"
    unfolding o h(1) sample_pq_tree by auto
  moreover from this(2) k have "5 \<in> set (offsets failed)" by auto
  moreover from this have "failed \<noteq> []" by (auto simp: offsets_def)
  ultimately show ?thesis using p k by auto
qed

text \<open>
  Property C28. One run of an ordered request ends, and the listener gets the waiting messages of
  the queue in the order of their offsets, from the first one on, each once, in batches of
  at most the configured size, whatever it answers and whatever the clock reads.
\<close>

theorem orderly_in_order:
  assumes "1 \<le> dc_consumeMessageBatchMaxSize (pu_config pu)" "a < length (rb_heap (co_rebalance (pu_consumer pu)))"
    and "length (pq_msgTreeMap (pu_pq pu a)) < fuel"
  shows "\<exists>pu' l. orderly_Do fuel listener clock a mq pu = Some (pu', l) \<and>
    concat l = take (length (concat l)) (map snd (pq_msgTreeMap (pu_pq pu a))) \<and>
    (\<forall>x \<in> set l. x \<noteq> [] \<and> length x \<le> nat (dc_consumeMessageBatchMaxSize (pu_config pu)))"
proof (cases "pq_locked (pu_pq pu a) \<or> \<not> isLockExpired (clock 0) (pu_pq pu a)")
  case True
  with orderly_loop_order [OF assms, of listener clock "clock 1" 2 mq] show ?thesis by (simp add: orderly_Do_def)
qed (simp add: orderly_Do_def)

theorem orderly_in_order_witness:
  "\<exists>pu' l. orderly_Do 4 (\<lambda>_. Some (SUCCESS, True, 1000)) (\<lambda>_. 0) 0 (MessageQueue ''T'' ''a'' 0)
      (with_pq 0 (setLocked True) sample_push) = Some (pu', l) \<and>
    concat l = take (length (concat l)) (map snd (pq_msgTreeMap sample_pq))"
proof -
  let ?pu = "with_pq 0 (setLocked True) sample_push"
  have h: "0 < length (rb_heap (co_rebalance (pu_consumer sample_push)))" "pu_pq sample_push 0 = sample_pq" by (simp_all add: sample_push_def)
  have c: "1 \<le> dc_consumeMessageBatchMaxSize (pu_config ?pu)" "0 < length (rb_heap (co_rebalance (pu_consumer ?pu)))"
    using h by (simp_all add: sample_push_def DefaultMQPushConsumer_new_def)
  have t: "pq_msgTreeMap (pu_pq ?pu 0) = pq_msgTreeMap sample_pq" using h by (simp add: setLocked_def)
  have "length (mkeys (pq_msgTreeMap sample_pq)) = 3" by (simp add: sample_pq_tree)
  then have l: "length (pq_msgTreeMap (pu_pq ?pu 0)) < 4" by (simp add: t mkeys_def)
  from orderly_in_order [OF c l] t show ?thesis by metis
qed

text \<open>
  A message sent back through the retry topic keeps its body, its flag and its
  other properties, and the consumer that receives it sees its original topic again.
\<close>

theorem retry_topic_roundtrip:
  assumes "retry_message grp msg = Inr newMsg" "m_topic msg \<noteq> []" "0 < m_bodyLen msg"
    and "m_topic received = m_topic newMsg" "m_properties received = m_properties newMsg"
  shows "map m_topic (resetRetryTopic grp [received]) = [m_topic msg] \<and> m_topic newMsg = getRetryTopic grp \<and>
    m_flag newMsg = m_flag msg \<and> m_bodyLen newMsg = m_bodyLen msg \<and>
    (\<exists>b. m_body msg = Some b \<and> m_body newMsg = Some (take (nat (m_bodyLen msg)) b)) \<and>
    (\<forall>k. k \<noteq> PROPERTY_RETRY_TOPIC \<longrightarrow> getProperty k newMsg = getProperty k msg)"
proof -
  obtain b where b: "m_body msg = Some b"
    using assms(1,3) by (auto simp: retry_message_def Message_Init_def copy_bytes_def bind_r_Inr split: option.splits)
  have n: "newMsg = putProperty PROPERTY_RETRY_TOPIC (m_topic msg) (setProperties (m_properties msg) (setFlag (m_flag msg)
      (setWaitStoreMsgOK True \<lparr>m_topic = getRetryTopic grp, m_flag = 0, m_properties = [], m_body = Some (take (nat (m_bodyLen msg)) b),
        m_bodyLen = m_bodyLen msg\<rparr>)))"
    using assms(1,3) by (auto simp: retry_message_def Message_Init_def copy_bytes_def bind_r_Inr b Let_def split: if_splits)
  have f: "m_topic newMsg = getRetryTopic grp" "m_flag newMsg = m_flag msg" "m_bodyLen newMsg = m_bodyLen msg"
    "m_body newMsg = Some (take (nat (m_bodyLen msg)) b)"
    "getProperty k newMsg = (if k = PROPERTY_RETRY_TOPIC then m_topic msg else getProperty k msg)" for k
    by (simp_all add: n setProperties_def setFlag_def setWaitStoreMsgOK_def putProperty_def getProperty_def mget_mput)
  have "getProperty PROPERTY_RETRY_TOPIC received = m_topic msg"
    using f(5) [of PROPERTY_RETRY_TOPIC] assms(5) by (simp add: getProperty_def)
  with f assms b show ?thesis by (simp add: resetRetryTopic_def setTopic_msg_def)
qed

theorem retry_topic_roundtrip_witness:
  "\<exists>newMsg. retry_message ''cg'' ((msg_at 3)\<lparr>m_topic := ''T'', m_body := Some ''hello'', m_bodyLen := 5\<rparr>) = Inr newMsg \<and>
     map m_topic (resetRetryTopic ''cg'' [(msg_at 3)\<lparr>m_topic := m_topic newMsg, m_properties := m_properties newMsg\<rparr>]) = [''T''] \<and>
     m_body newMsg = Some ''hello''"
proof -
  let ?m = "(msg_at 3)\<lparr>m_topic := ''T'', m_body := Some ''hello'', m_bodyLen := 5\<rparr>"
  obtain n where n: "retry_message ''cg'' ?m = Inr n" by (simp add: retry_message_def Message_Init_def copy_bytes_def Let_def)
  let ?r = "(msg_at 3)\<lparr>m_topic := m_topic n, m_properties := m_properties n\<rparr>"
  have h: "m_topic ?m \<noteq> []" "0 < m_bodyLen ?m" "m_topic ?r = m_topic n" "m_properties ?r = m_properties n" by simp_all
  have e: "m_topic ?m = ''T''" "m_body ?m = Some ''hello''" "take (nat (m_bodyLen ?m)) ''hello'' = ''hello''" by simp_all
  note r = retry_topic_roundtrip [OF n h]
  from r have t: "map m_topic (resetRetryTopic ''cg'' [?r]) = [m_topic ?m]" by (rule conjunct1)
  have "\<exists>b. m_body ?m = Some b \<and> m_body n = Some (take (nat (m_bodyLen ?m)) b)"
    by (rule r [THEN conjunct2, THEN conjunct2, THEN conjunct2, THEN conjunct2, THEN conjunct1])
  then obtain b where "m_body ?m = Some b" and b: "m_body n = Some (take (nat (m_bodyLen ?m)) b)" by (elim exE conjE)
  then have "b = ''hello''" unfolding e by (simp only: option.inject)
  then have "m_body n = Some ''hello''" using b by (simp only: e)
  with n t [unfolded e(1)] show ?thesis by (intro exI [of _ n] conjI)
qed

text \<open>
  A pull whose messages were all filtered out still calls the listener, with an empty
  list: the empty list is submitted as one batch, and carrying out that batch passes it on.
\<close>

theorem empty_pull_calls_listener:
  assumes "\<not> pq_dropped (pu_pq pu a)" "\<not> pu_destroyed pu"
  shows "submitConsumeRequest fuel [] a mq d pu = Some (pu\<lparr>pu_executor := pu_executor pu @ [ConsumeConcurrentlyRequest [] a mq]\<rparr>) \<and>
    (\<exists>pu'. concurrently_Do sb listener consumeRT [] a mq pu = Inr (pu', [[]]))"
  using assms
  by (simp add: submitConsumeRequest_def add_work_def concurrently_Do_def resetRetryTopic_def processConsumeResult_def Let_def split: prod.splits)

theorem empty_pull_calls_listener_witness:
  "\<exists>pu'. concurrently_Do sample_back (\<lambda>_. Some (CONSUME_SUCCESS, INT_MAX, 0)) 1 [] 1 (MessageQueue ''T'' ''b'' 0) sample_push = Inr (pu', [[]])"
proof -
  have "\<not> pq_dropped (pu_pq sample_push 1)" "\<not> pu_destroyed sample_push" by (simp_all add: sample_push_def ProcessQueue_new_def)
  from empty_pull_calls_listener [OF this] show ?thesis by blast
qed

end
