(* ===== verification/RouteText.thy ===== *)
theory RouteText
  imports Route
begin

text \<open>
  The text of a route, as a name server writes it, and that \<^verbatim>\<open>TopicRouteData::Decode\<close>
  (\<^verbatim>\<open>src/src/protocol/TopicRouteData.h\<close>) over the JSON reader gives back the route.
\<close>

definition queue_json :: "QueueData \<Rightarrow> json" where
  "queue_json qd = JObj [(''brokerName'', JStr (qd_brokerName qd)), (''perm'', JInt (qd_perm qd)),
     (''readQueueNums'', JInt (qd_readQueueNums qd)), (''writeQueueNums'', JInt (qd_writeQueueNums qd))]"

definition addrs_json :: "(int, string) stdmap \<Rightarrow> json" where
  "addrs_json addrs = JObj (map (\<lambda>(k, a). (show_int k, JStr a)) addrs)"

definition broker_json :: "BrokerData \<Rightarrow> json" where
  "broker_json bd = JObj [(''brokerAddrs'', addrs_json (bd_brokerAddrs bd)), (''brokerName'', JStr (bd_brokerName bd))]"

definition route_json :: "TopicRouteData \<Rightarrow> (string \<times> json) list" where
  "route_json r = [(''brokerDatas'', JArr (map broker_json (tr_brokerDatas r))), (''orderTopicConf'', JStr (tr_orderTopicConf r)),
     (''queueDatas'', JArr (map queue_json (tr_queueDatas r)))]"

text \<open>Texts without NUL bytes, 32-bit numbers, and ordered address tables.\<close>

definition int32 :: "int \<Rightarrow> bool" where
  "int32 i \<longleftrightarrow> - 2147483648 \<le> i \<and> i < 2147483648"

definition no_nul :: "string \<Rightarrow> bool" where
  "no_nul s \<longleftrightarrow> CHR 0x00 \<notin> set s"

definition route_fits :: "TopicRouteData \<Rightarrow> bool" where
  "route_fits r \<longleftrightarrow> no_nul (tr_orderTopicConf r) \<and>
     list_all (\<lambda>qd. no_nul (qd_brokerName qd) \<and> int32 (qd_perm qd) \<and> int32 (qd_readQueueNums qd) \<and> int32 (qd_writeQueueNums qd)) (tr_queueDatas r) \<and>
     list_all (\<lambda>bd. no_nul (bd_brokerName bd) \<and> mok (bd_brokerAddrs bd) \<and>
       list_all (\<lambda>(k, a). int32 k \<and> no_nul a) (bd_brokerAddrs bd)) (tr_brokerDatas r)"

lemma no_nul_c_str: "no_nul s \<Longrightarrow> c_str s = s"
  by (simp add: no_nul_def c_str_id)

lemma int32_int64: "int32 i \<Longrightarrow> int64 i"
  by (simp add: int32_def int64_def)

lemma queue_read:
  assumes "no_nul (qd_brokerName qd)" "int32 (qd_perm qd)" "int32 (qd_readQueueNums qd)" "int32 (qd_writeQueueNums qd)"
  shows "QueueData_Decode (canon (queue_json qd)) = Inr qd"
  using assms unfolding QueueData_Decode_def queue_json_def jint_def jstring_def canon_get
  by (simp add: c_str_def [of "_ # _"] asInt_read int32_def no_nul_c_str)

lemma map_r_inverse: "\<forall>x \<in> set xs. f (g x) = Inr x \<Longrightarrow> map_r f (map g xs) = Inr xs"
  by (induction xs) simp_all

lemma map_of_agree:
  assumes "\<forall>e \<in> set es. m (fst e) = Some (snd e)" "fst ` set es = dom m"
  shows "map_of es = m"
proof
  fix k
  show "map_of es k = m k"
  proof (cases "map_of es k")
    case None
    then have "k \<notin> fst ` set es" by (simp add: map_of_eq_None_iff)
    with None assms(2) show ?thesis by (metis domIff)
  next
    case (Some v)
    then have "(k, v) \<in> set es" by (rule map_of_SomeD)
    with Some assms(1) show ?thesis by force
  qed
qed

text \<open>The address table is read through the names of its members, in the order of the texts.\<close>

lemma addrs_read:
  assumes "mok addrs" "list_all (\<lambda>(k, a). int32 k \<and> no_nul a) addrs"
  obtains mbs entries where "jmembers (canon (addrs_json addrs)) = Inr mbs"
    "map_r (\<lambda>key. bind_r (jstring (canon (addrs_json addrs)) key) (\<lambda>a. Inr (atoi key, a))) mbs = Inr entries"
    "fold (\<lambda>(k, a). mput k a) entries [] = addrs"
proof -
  have d: "distinct (map fst addrs)" using mok_distinct [OF assms(1)] by (simp add: mkeys_def)
  have inj: "inj_on show_int (fst ` set addrs)"
    by (rule inj_on_inverseI [of _ read_signed]) (simp add: read_signed_show_int)
  have shown: "c_str (show_int k) = show_int k" for k by (rule plain_c_str) simp
  define es where "es = map (\<lambda>(k, a). (show_int k, JStr a)) addrs"
  have keys: "fst ` set es = show_int ` fst ` set addrs" by (force simp: es_def)
  have "map fst es = map show_int (map fst addrs)" by (simp add: es_def case_prod_unfold)
  then have de: "distinct (map fst es)" using d inj by (simp only: distinct_map [of show_int] set_map)
  have "map (\<lambda>e. (c_str (fst e), canon (snd e))) es = es" by (auto simp: es_def shown intro: map_idI)
  define b where "b = fold add_member es []"
  have bas: "canon (addrs_json addrs) = JObj b" unfolding addrs_json_def es_def [symmetric] b_def by (rule canon_JObj)
  have mb: "mget b = map_of es"
    unfolding b_def add_member_def [abs_def] stdmap.get_fold_put [OF mok_simps(1)] \<open>map _ es = es\<close>
    by (simp add: map_of_rev_distinct de)
  define mbs where "mbs = sort (remdups (map fst b))"
  have sm: "set mbs = show_int ` fst ` set addrs"
    using set_mkeys [of b] keys by (simp add: mbs_def mb mkeys_def dom_map_of_conv_image_fst)
  define ent where "ent key = (atoi key, the (map_of addrs (atoi key)))" for key
  have one: "ent (show_int k) = (k, a) \<and> mget b (show_int k) = Some (JStr a) \<and> c_str a = a" if "(k, a) \<in> set addrs" for k a
  proof -
    have "int32 k" "no_nul a" using assms(2) that by (auto simp: list_all_iff)
    then have "atoi (show_int k) = k" "c_str a = a" by (simp_all add: atoi_show_int int32_def no_nul_c_str)
    moreover have "map_of addrs k = Some a" using d that by simp
    moreover have "(show_int k, JStr a) \<in> set es" using that by (force simp: es_def)
    then have "map_of es (show_int k) = Some (JStr a)" using de by simp
    ultimately show ?thesis by (simp add: ent_def mb)
  qed
  have "map_r (\<lambda>key. bind_r (jstring (JObj b) key) (\<lambda>a. Inr (atoi key, a))) mbs = Inr (map ent mbs)"
  proof (rule map_r_map)
    fix key assume "key \<in> set mbs"
    then obtain k a where k: "(k, a) \<in> set addrs" "key = show_int k" by (auto simp: sm)
    from one [OF k(1)] have "ent key = (atoi key, a)" "jstring (JObj b) key = Inr a" by (auto simp: k(2) jstring_def ent_def)
    then show "bind_r (jstring (JObj b) key) (\<lambda>a. Inr (atoi key, a)) = Inr (ent key)" by simp
  qed
  moreover have "fold (\<lambda>(k, a). mput k a) (map ent mbs) [] = addrs"
  proof (rule stdmap_ext)
    have f: "fold (\<lambda>(k, a). mput k a) (map ent mbs) [] = fold (\<lambda>x. mput (fst x) (snd x)) (map ent mbs) []"
      by (simp add: case_prod_unfold)
    show "mok (fold (\<lambda>(k, a). mput k a) (map ent mbs) [])" unfolding f by (rule stdmap.ok_fold_put) simp
    have "map_of (rev (map ent mbs)) = mget addrs"
    proof (rule map_of_agree)
      show "\<forall>e \<in> set (rev (map ent mbs)). mget addrs (fst e) = Some (snd e)" using one d by (auto simp: sm)
      show "fst ` set (rev (map ent mbs)) = dom (mget addrs)" using one by (force simp: sm dom_map_of_conv_image_fst)
    qed
    then show "mget (fold (\<lambda>(k, a). mput k a) (map ent mbs) []) = mget addrs"
      unfolding f stdmap.get_fold_put [OF mok_simps(1)] by simp
  qed (rule assms(1))
  ultimately show thesis using that [of mbs "map ent mbs"] by (simp add: bas mbs_def)
qed

lemma broker_read:
  assumes "no_nul (bd_brokerName bd)" "mok (bd_brokerAddrs bd)" "list_all (\<lambda>(k, a). int32 k \<and> no_nul a) (bd_brokerAddrs bd)"
  shows "BrokerData_Decode (canon (broker_json bd)) = Inr bd"
proof -
  obtain mbs entries where r: "jmembers (canon (addrs_json (bd_brokerAddrs bd))) = Inr mbs"
    "map_r (\<lambda>key. bind_r (jstring (canon (addrs_json (bd_brokerAddrs bd))) key) (\<lambda>a. Inr (atoi key, a))) mbs = Inr entries"
    "fold (\<lambda>(k, a). mput k a) entries [] = bd_brokerAddrs bd"
    using addrs_read [OF assms(2,3)] by blast
  have g: "jget (canon (broker_json bd)) ''brokerAddrs'' = Inr (canon (addrs_json (bd_brokerAddrs bd)))"
    "jstring (canon (broker_json bd)) ''brokerName'' = Inr (bd_brokerName bd)"
    unfolding broker_json_def jstring_def canon_get using assms(1) by (simp_all add: c_str_def [of "_ # _"] no_nul_c_str)
  show ?thesis unfolding BrokerData_Decode_def g by (simp add: r)
qed

lemma route_printable: "route_fits r \<Longrightarrow> printable (JObj (route_json r))"
  by (auto simp: route_fits_def route_json_def broker_json_def queue_json_def addrs_json_def list_all_iff int32_int64)

lemma route_get:
  "jget (canon (JObj (route_json r))) ''brokerDatas'' = Inr (JArr (map canon (map broker_json (tr_brokerDatas r))))"
  "jget (canon (JObj (route_json r))) ''queueDatas'' = Inr (JArr (map canon (map queue_json (tr_queueDatas r))))"
  "jget (canon (JObj (route_json r))) ''orderTopicConf'' = Inr (JStr (tr_orderTopicConf r))"
  unfolding canon_get by (simp_all add: route_json_def c_str_def)

lemma route_read:
  assumes "route_fits r"
  shows "TopicRouteData_Decode (c_str (jprint (JObj (route_json r)) @ rest)) = Inr (Some r)"
proof -
  let ?o = "canon (JObj (route_json r))"
  have p: "json_parse (c_str (jprint (JObj (route_json r)) @ rest)) = Inr (Some ?o)"
    unfolding c_str_append [OF jprint_no_nul] by (rule json_parse_object [OF route_printable [OF assms]])
  have q: "map_r QueueData_Decode (map (\<lambda>x. canon (queue_json x)) (tr_queueDatas r)) = Inr (tr_queueDatas r)"
    using assms by (intro map_r_inverse) (simp add: queue_read route_fits_def list_all_iff)
  have b: "map_r BrokerData_Decode (map (\<lambda>x. canon (broker_json x)) (tr_brokerDatas r)) = Inr (tr_brokerDatas r)"
    using assms by (intro map_r_inverse) (simp add: broker_read route_fits_def list_all_iff)
  have o: "jstring ?o ''orderTopicConf'' = Inr (tr_orderTopicConf r)"
    using assms unfolding jstring_def route_get by (simp add: route_fits_def no_nul_c_str)
  show ?thesis
    unfolding TopicRouteData_Decode_def p bind_r.simps option.case o route_get jelems.simps map_map comp_def q b by simp
qed

text \<open>
  Property C20. A route survives its text: reading the JSON text of a route gives back its queues, its
  brokers with their address tables, whatever the order of the member names, and its order configuration.
\<close>

theorem route_text_roundtrip:
  assumes "route_fits r"
  shows "TopicRouteData_Decode (c_str (jprint (JObj (route_json r)) @ rest)) = Inr (Some r)"
  by (rule route_read [OF assms])

definition sample_route_text :: TopicRouteData where
  "sample_route_text = \<lparr>tr_orderTopicConf = [],
     tr_queueDatas = [\<lparr>qd_brokerName = ''a'', qd_readQueueNums = 4, qd_writeQueueNums = 4, qd_perm = 6\<rparr>],
     tr_brokerDatas = [\<lparr>bd_brokerName = ''b'', bd_brokerAddrs = [(0, ''h3:1'')]\<rparr>,
       \<lparr>bd_brokerName = ''a'', bd_brokerAddrs = [(0, ''h1:1''), (1, ''h2:1'')]\<rparr>]\<rparr>"

lemma sample_route_fits: "route_fits sample_route_text"
  by (simp add: route_fits_def sample_route_text_def no_nul_def int32_def)

theorem route_text_roundtrip_witness:
  "TopicRouteData_Decode (c_str (jprint (JObj (route_json sample_route_text)) @ [CHR 0x00])) = Inr (Some sample_route_text)"
  by (rule route_text_roundtrip [OF sample_route_fits])

end
