(* ===== verification/Admin.thy ===== *)
theory Admin
  imports Producer RouteText
begin

text \<open>
  \<^verbatim>\<open>src/src/MQAdminImpl.cpp\<close> with the calls of \<^verbatim>\<open>src/src/MQClientAPIImpl.cpp\<close> it rests on, and the
  administrative calls of a producer: creating topics, the queues of a topic, offsets and
  messages by key or id. Many calls of the API are not written yet; the model answers what they answer.
\<close>

section \<open>Creating a topic\<close>

text \<open>
  All masters are asked; the last exception is kept. \<open>exc\<close> is the exception so far.
\<close>

fun create_loop ::
  "endian \<Rightarrow> network \<Rightarrow> string \<Rightarrow> TopicConfig \<Rightarrow> string list \<Rightarrow> error option \<Rightarrow> ApiImpl \<Rightarrow>
   ApiImpl \<times> (string \<times> RemotingCommand) list \<times> unit result" where
  "create_loop e net key tc [] exc api = (api, [], case exc of None \<Rightarrow> Inr () | Some x \<Rightarrow> Inl x)"
| "create_loop e net key tc (addr # rest) exc api =
     (case createTopic_api e net addr key tc api of
        (api', sent, Inl (MQClientException m n)) \<Rightarrow>
          (let (api'', more, r) = create_loop e net key tc rest (Some (MQClientException m n)) api' in (api'', sent @ more, r))
      | (api', sent, Inl x) \<Rightarrow> (api', sent, Inl x)
      | (api', sent, Inr _) \<Rightarrow> (let (api'', more, r) = create_loop e net key tc rest exc api' in (api'', sent @ more, r)))"

definition master_addrs :: "BrokerData list \<Rightarrow> string list" where
  "master_addrs bds = concat (map (\<lambda>bd. case mget (bd_brokerAddrs bd) MASTER_ID of None \<Rightarrow> [] | Some addr \<Rightarrow> [addr]) bds)"

definition rethrow :: "string \<Rightarrow> 'a result \<Rightarrow> 'a result" where
  "rethrow msg r = (case r of Inl (MQClientException m n) \<Rightarrow> Inl (MQClientException msg (- 1)) | _ \<Rightarrow> r)"

text \<open>A route the name server did not answer is a null pointer that is read.\<close>

definition admin_createTopic ::
  "ClientEnv \<Rightarrow> string \<Rightarrow> string \<Rightarrow> int \<Rightarrow> Client \<Rightarrow> (Client \<times> (string \<times> RemotingCommand) list) \<times> unit result" where
  "admin_createTopic env key newTopic queueNum c =
     (let (api, answer) = getTopicRouteInfoFromNameServer (en_endian env) (en_net env) key (cl_api c);
          (api', sent, r) =
            (case answer of
               Inl x \<Rightarrow> (api, [], Inl x)
             | Inr None \<Rightarrow> (api, [], Inl Undefined)
             | Inr (Some topicRouteData) \<Rightarrow>
                 (let brokerDataList = sort_key bd_brokerName (tr_brokerDatas topicRouteData);
                      topicConfig = (TopicConfig_new newTopic)\<lparr>tc_readQueueNums := queueNum, tc_writeQueueNums := queueNum\<rparr>
                  in if brokerDataList \<noteq> []
                     then create_loop (en_endian env) (en_net env) key topicConfig (master_addrs brokerDataList) None api
                     else (api, [], Inl (MQClientException ''Not found broker, maybe key is wrong'' (- 1)))))
      in ((c\<lparr>cl_api := api'\<rparr>, sent), rethrow ''create new topic failed'' r))"

section \<open>The queues of a topic\<close>

definition admin_fetchPublishMessageQueues :: "ClientEnv \<Rightarrow> string \<Rightarrow> Client \<Rightarrow> Client \<times> MessageQueue list result" where
  "admin_fetchPublishMessageQueues env topic c =
     (let (api, answer) = getTopicRouteInfoFromNameServer (en_endian env) (en_net env) topic (cl_api c);
          unknown = Inl (MQClientException (''Unknow why, Can not find Message Queue for this topic, '' @ topic) (- 1))
      in (c\<lparr>cl_api := api\<rparr>,
          (case answer of
             Inl (MQClientException m n) \<Rightarrow> Inl (MQClientException (''Can not find Message Queue for this topic'' @ topic) (- 1))
           | Inl x \<Rightarrow> Inl x
           | Inr None \<Rightarrow> unknown
           | Inr (Some topicRouteData) \<Rightarrow>
               bind_r (topicRouteData2TopicPublishInfo topic topicRouteData) (\<lambda>info.
                 if ok_info info then Inr (pi_messageQueueList info) else unknown))))"

definition admin_fetchSubscribeMessageQueues :: "ClientEnv \<Rightarrow> string \<Rightarrow> Client \<Rightarrow> Client \<times> MessageQueue list result" where
  "admin_fetchSubscribeMessageQueues env topic c =
     (let (api, answer) = getTopicRouteInfoFromNameServer (en_endian env) (en_net env) topic (cl_api c);
          notFound = Inl (MQClientException (''Can not find Message Queue for this topic'' @ topic) (- 1))
      in (c\<lparr>cl_api := api\<rparr>,
          (case answer of
             Inl (MQClientException m n) \<Rightarrow> notFound
           | Inl x \<Rightarrow> Inl x
           | Inr None \<Rightarrow> Inl (MQClientException (''Unknow why, Can not find Message Queue for this topic, '' @ topic) (- 1))
           | Inr (Some topicRouteData) \<Rightarrow>
               (let mqList = topicRouteData2TopicSubscribeInfo topic topicRouteData
                in if mqList \<noteq> [] then Inr mqList else notFound))))"

section \<open>Offsets\<close>

text \<open>The calls of the API send nothing and answer 0.\<close>

definition api_searchOffset :: "string \<Rightarrow> string \<Rightarrow> int \<Rightarrow> int \<Rightarrow> int result" where
  "api_searchOffset addr topic queueId timestamp = Inr 0"

definition api_getMaxOffset :: "string \<Rightarrow> string \<Rightarrow> int \<Rightarrow> int result" where
  "api_getMaxOffset addr topic queueId = Inr 0"

definition api_getMinOffset :: "string \<Rightarrow> string \<Rightarrow> int \<Rightarrow> int result" where
  "api_getMinOffset addr topic queueId = Inr 0"

definition api_getEarliestMsgStoretime :: "string \<Rightarrow> string \<Rightarrow> int \<Rightarrow> int result" where
  "api_getEarliestMsgStoretime addr topic queueId = Inr 0"

text \<open>The frame the four queries share: the master of the broker, after asking the name server when it is not known.\<close>

definition ask_master :: "(string \<Rightarrow> int result) \<Rightarrow> ClientEnv \<Rightarrow> MessageQueue \<Rightarrow> Client \<Rightarrow> (Client \<times> int result) result" where
  "ask_master ask env mq c =
     (let addr0 = findBrokerAddressInPublish (getBrokerName mq) (cl_factory c) in
      bind_r (if addr0 = [] then refresh_route env (getTopic mq) c else Inr (c, False)) (\<lambda>(c', b).
        let brokerAddr = (if addr0 = [] then findBrokerAddressInPublish (getBrokerName mq) (cl_factory c') else addr0)
        in Inr (c', if brokerAddr \<noteq> [] then rethrow (''Invoke Broker['' @ brokerAddr @ ''] exception'') (ask brokerAddr)
                    else Inl (MQClientException (''The broker['' @ getBrokerName mq @ ''] not exist'') (- 1)))))"

definition admin_searchOffset :: "ClientEnv \<Rightarrow> MessageQueue \<Rightarrow> int \<Rightarrow> Client \<Rightarrow> (Client \<times> int result) result" where
  "admin_searchOffset env mq timestamp = ask_master (\<lambda>addr. api_searchOffset addr (getTopic mq) (getQueueId mq) timestamp) env mq"

definition admin_maxOffset :: "ClientEnv \<Rightarrow> MessageQueue \<Rightarrow> Client \<Rightarrow> (Client \<times> int result) result" where
  "admin_maxOffset env mq = ask_master (\<lambda>addr. api_getMaxOffset addr (getTopic mq) (getQueueId mq)) env mq"

definition admin_minOffset :: "ClientEnv \<Rightarrow> MessageQueue \<Rightarrow> Client \<Rightarrow> (Client \<times> int result) result" where
  "admin_minOffset env mq = ask_master (\<lambda>addr. api_getMinOffset addr (getTopic mq) (getQueueId mq)) env mq"

definition admin_earliestMsgStoreTime :: "ClientEnv \<Rightarrow> MessageQueue \<Rightarrow> Client \<Rightarrow> (Client \<times> int result) result" where
  "admin_earliestMsgStoreTime env mq = ask_master (\<lambda>addr. api_getEarliestMsgStoretime addr (getTopic mq) (getQueueId mq)) env mq"

section \<open>Messages\<close>

definition api_viewMessage :: "string \<Rightarrow> int \<Rightarrow> MessageExt result" where
  "api_viewMessage addr phyoffset = Inr MessageExt_new"

definition socketAddress2String :: "endian \<Rightarrow> sockaddr \<Rightarrow> string" where
  "socketAddress2String e addr = inet_ntoa e (s_addr addr)"

definition admin_viewMessage :: "endian \<Rightarrow> string \<Rightarrow> MessageExt result" where
  "admin_viewMessage e msgId =
     (case bind_r (decodeMessageId e msgId) (\<lambda>messageId. api_viewMessage (socketAddress2String e (id_address messageId)) (id_offset messageId)) of
        Inl (UnknownHostException m n) \<Rightarrow> Inl (MQClientException ''message id illegal'' (- 1))
      | r \<Rightarrow> r)"

record QueryResult =
  qr_indexLastUpdateTimestamp :: int
  qr_messageList :: "MessageExt list"

definition admin_queryMessage :: "string \<Rightarrow> string \<Rightarrow> int \<Rightarrow> int \<Rightarrow> int \<Rightarrow> QueryResult" where
  "admin_queryMessage topic key maxNum begin_time end_time = \<lparr>qr_indexLastUpdateTimestamp = 0, qr_messageList = []\<rparr>"

section \<open>The topics of the name server\<close>

definition GET_ALL_TOPIC_LIST_FROM_NAMESERVER_VALUE :: int where "GET_ALL_TOPIC_LIST_FROM_NAMESERVER_VALUE = 206"

definition TopicList_Decode :: "string \<Rightarrow> string list" where
  "TopicList_Decode pData = []"

definition getTopicListFromNameServer :: "endian \<Rightarrow> network \<Rightarrow> ApiImpl \<Rightarrow> ApiImpl \<times> string list option result" where
  "getTopicListFromNameServer e net api =
     (let (request, api') = new_request e GET_ALL_TOPIC_LIST_FROM_NAMESERVER_VALUE None None api
      in (api',
          (case net (ap_nameSrvAddr api') request of
             None \<Rightarrow> Inr None
           | Some r \<Rightarrow>
               if rc_code r = SUCCESS_VALUE \<and> rc_body r \<noteq> None then
                 (let topics = TopicList_Decode (the (rc_body r)) in
                  if \<not> isBlank (ap_projectGroupPrefix api')
                  then bind_r (map_r (\<lambda>t. clearProjectGroup t (ap_projectGroupPrefix api')) topics) (\<lambda>ts. Inr (Some (fold sput ts [])))
                  else Inr (Some topics))
               else Inl (MQClientException (rc_remark r) (rc_code r)))))"

section \<open>The administrative calls of a producer\<close>

text \<open>Each checks that the producer runs; creating a topic checks its name.\<close>

definition producer_createTopic ::
  "ClientEnv \<Rightarrow> string \<Rightarrow> string \<Rightarrow> int \<Rightarrow> DefaultMQProducerImpl \<Rightarrow> Client \<Rightarrow> (Client \<times> (string \<times> RemotingCommand) list) \<times> unit result" where
  "producer_createTopic env key newTopic queueNum dp c =
     (case bind_r (makeSureStateOK dp) (\<lambda>_. checkTopic newTopic) of
        Inl x \<Rightarrow> ((c, []), Inl x)
      | Inr _ \<Rightarrow> admin_createTopic env key newTopic queueNum c)"

definition producer_fetchPublishMessageQueues ::
  "ClientEnv \<Rightarrow> string \<Rightarrow> DefaultMQProducerImpl \<Rightarrow> Client \<Rightarrow> Client \<times> MessageQueue list result" where
  "producer_fetchPublishMessageQueues env topic dp c =
     (case makeSureStateOK dp of Inl x \<Rightarrow> (c, Inl x) | Inr _ \<Rightarrow> admin_fetchPublishMessageQueues env topic c)"

definition producer_searchOffset ::
  "ClientEnv \<Rightarrow> MessageQueue \<Rightarrow> int \<Rightarrow> DefaultMQProducerImpl \<Rightarrow> Client \<Rightarrow> (Client \<times> int result) result" where
  "producer_searchOffset env mq timestamp dp c =
     (case makeSureStateOK dp of Inl x \<Rightarrow> Inr (c, Inl x) | Inr _ \<Rightarrow> admin_searchOffset env mq timestamp c)"

definition producer_maxOffset :: "ClientEnv \<Rightarrow> MessageQueue \<Rightarrow> DefaultMQProducerImpl \<Rightarrow> Client \<Rightarrow> (Client \<times> int result) result" where
  "producer_maxOffset env mq dp c = (case makeSureStateOK dp of Inl x \<Rightarrow> Inr (c, Inl x) | Inr _ \<Rightarrow> admin_maxOffset env mq c)"

definition producer_minOffset :: "ClientEnv \<Rightarrow> MessageQueue \<Rightarrow> DefaultMQProducerImpl \<Rightarrow> Client \<Rightarrow> (Client \<times> int result) result" where
  "producer_minOffset env mq dp c = (case makeSureStateOK dp of Inl x \<Rightarrow> Inr (c, Inl x) | Inr _ \<Rightarrow> admin_minOffset env mq c)"

definition producer_earliestMsgStoreTime :: "ClientEnv \<Rightarrow> MessageQueue \<Rightarrow> DefaultMQProducerImpl \<Rightarrow> Client \<Rightarrow> (Client \<times> int result) result" where
  "producer_earliestMsgStoreTime env mq dp c =
     (case makeSureStateOK dp of Inl x \<Rightarrow> Inr (c, Inl x) | Inr _ \<Rightarrow> admin_earliestMsgStoreTime env mq c)"

definition producer_viewMessage :: "endian \<Rightarrow> string \<Rightarrow> DefaultMQProducerImpl \<Rightarrow> MessageExt result" where
  "producer_viewMessage e msgId dp = bind_r (makeSureStateOK dp) (\<lambda>_. admin_viewMessage e msgId)"

definition producer_queryMessage :: "string \<Rightarrow> string \<Rightarrow> int \<Rightarrow> int \<Rightarrow> int \<Rightarrow> DefaultMQProducerImpl \<Rightarrow> QueryResult result" where
  "producer_queryMessage topic key maxNum begin_time end_time dp =
     bind_r (makeSureStateOK dp) (\<lambda>_. Inr (admin_queryMessage topic key maxNum begin_time end_time))"

section \<open>Creating a topic: lemmas\<close>

definition creates :: "string \<Rightarrow> TopicConfig \<Rightarrow> RemotingCommand \<Rightarrow> bool" where
  "creates key tc cmd \<longleftrightarrow> rc_code cmd = UPDATE_AND_CREATE_TOPIC_VALUE \<and>
     rc_customHeader cmd = Some (CreateTopicRequestHeader (tc_topicName tc) key (tc_readQueueNums tc) (tc_writeQueueNums tc)
       (tc_perm tc) (filter_string (tc_topicFilterType tc)))"

definition accepted :: "network \<Rightarrow> string \<times> RemotingCommand \<Rightarrow> bool" where
  "accepted net x \<longleftrightarrow> (\<exists>resp. net (fst x) (snd x) = Some resp \<and> rc_code resp = SUCCESS_VALUE)"

lemma createTopic_one:
  assumes "isBlank (ap_projectGroupPrefix api)"
  shows "\<exists>api' cmd r. createTopic_api e net addr key tc api = (api', [(addr, cmd)], r) \<and> creates key tc cmd \<and>
    isBlank (ap_projectGroupPrefix api') \<and> (if accepted net (addr, cmd) then r = Inr () else \<exists>m n. r = Inl (MQClientException m n))"
proof -
  let ?h = "Some (CreateTopicRequestHeader (tc_topicName tc) key (tc_readQueueNums tc) (tc_writeQueueNums tc)
       (tc_perm tc) (filter_string (tc_topicFilterType tc)))"
  obtain cmd api' where n: "new_request e UPDATE_AND_CREATE_TOPIC_VALUE ?h None api = (cmd, api')"
    by (cases "new_request e UPDATE_AND_CREATE_TOPIC_VALUE ?h None api")
  have "createTopic_api e net addr key tc api = (api', [(addr, cmd)], plain_answer ''createTopic failed'' (net addr cmd))"
    using assms n by (simp add: createTopic_api_def with_prefix_def)
  then show ?thesis
    using new_request_fields [OF n] assms by (auto simp: creates_def accepted_def plain_answer_def split: option.split)
qed

lemma create_loop_outcome:
  "isBlank (ap_projectGroupPrefix api) \<Longrightarrow> exc = None \<or> (\<exists>m n. exc = Some (MQClientException m n)) \<Longrightarrow>
   \<exists>api' sent r. create_loop e net key tc addrs exc api = (api', sent, r) \<and> map fst sent = addrs \<and>
     (\<forall>x \<in> set sent. creates key tc (snd x)) \<and>
     (if exc = None \<and> (\<forall>x \<in> set sent. accepted net x) then r = Inr () else \<exists>m n. r = Inl (MQClientException m n))"
proof (induction addrs arbitrary: exc api)
  case (Cons addr addrs)
  obtain api1 cmd r1 where o: "createTopic_api e net addr key tc api = (api1, [(addr, cmd)], r1)" "creates key tc cmd"
    "isBlank (ap_projectGroupPrefix api1)"
    "if accepted net (addr, cmd) then r1 = Inr () else \<exists>m n. r1 = Inl (MQClientException m n)"
    using createTopic_one [OF Cons.prems(1)] by blast
  show ?case
  proof (cases "accepted net (addr, cmd)")
    case True
    then have r1: "r1 = Inr ()" using o(4) by simp
    from Cons.IH [OF o(3) Cons.prems(2)] obtain api2 sent r where
      "create_loop e net key tc addrs exc api1 = (api2, sent, r)" "map fst sent = addrs" "\<forall>x \<in> set sent. creates key tc (snd x)"
      "if exc = None \<and> (\<forall>x \<in> set sent. accepted net x) then r = Inr () else \<exists>m n. r = Inl (MQClientException m n)" by blast
    with o r1 True show ?thesis by simp
  next
    case False
    then obtain m n where r1: "r1 = Inl (MQClientException m n)" using o(4) by auto
    from Cons.IH [OF o(3), of "Some (MQClientException m n)"] obtain api2 sent r where
      "create_loop e net key tc addrs (Some (MQClientException m n)) api1 = (api2, sent, r)" "map fst sent = addrs"
      "\<forall>x \<in> set sent. creates key tc (snd x)" "\<exists>m n. r = Inl (MQClientException m n)" by auto
    with o r1 False show ?thesis by simp
  qed
qed auto

section \<open>Properties\<close>

text \<open>
  Property C32. Creating a topic asks every master the name server names, in the order of the broker names,
  even after one has refused, with the requested number of queues; it succeeds exactly when every
  master has accepted, and otherwise raises one exception.
\<close>

theorem create_topic_asks_masters:
  assumes "isBlank (ap_projectGroupPrefix (cl_api c))"
    and "getTopicRouteInfoFromNameServer (en_endian env) (en_net env) key (cl_api c) = (api, Inr (Some route))"
    and "tr_brokerDatas route \<noteq> []"
  shows "\<exists>c' sent r. admin_createTopic env key newTopic queueNum c = ((c', sent), r) \<and> cl_factory c' = cl_factory c \<and>
    map fst sent = master_addrs (sort_key bd_brokerName (tr_brokerDatas route)) \<and>
    (\<forall>x \<in> set sent. rc_code (snd x) = UPDATE_AND_CREATE_TOPIC_VALUE \<and>
       (\<exists>perm ft. rc_customHeader (snd x) = Some (CreateTopicRequestHeader newTopic key queueNum queueNum perm ft))) \<and>
    r = (if \<forall>x \<in> set sent. accepted (en_net env) x then Inr () else Inl (MQClientException ''create new topic failed'' (- 1)))"
proof -
  let ?tc = "(TopicConfig_new newTopic)\<lparr>tc_readQueueNums := queueNum, tc_writeQueueNums := queueNum\<rparr>"
  let ?b = "sort_key bd_brokerName (tr_brokerDatas route)"
  have b: "isBlank (ap_projectGroupPrefix api)"
    using assms(1,2) by (auto simp: getTopicRouteInfoFromNameServer_def with_prefix_def dest: new_request_fields(5) split: prod.splits)
  from create_loop_outcome [OF b, of None "en_endian env" "en_net env" key ?tc "master_addrs ?b"] obtain api' sent r where
    l: "create_loop (en_endian env) (en_net env) key ?tc (master_addrs ?b) None api = (api', sent, r)" "map fst sent = master_addrs ?b"
      "\<forall>x \<in> set sent. creates key ?tc (snd x)"
      "if \<forall>x \<in> set sent. accepted (en_net env) x then r = Inr () else \<exists>m n. r = Inl (MQClientException m n)" by auto
  have "?b \<noteq> []" using assms(3) by (metis set_empty set_sort)
  then have "admin_createTopic env key newTopic queueNum c = ((c\<lparr>cl_api := api'\<rparr>, sent), rethrow ''create new topic failed'' r)"
    using assms(2) l(1) by (simp add: admin_createTopic_def Let_def)
  moreover have "rethrow ''create new topic failed'' r =
      (if \<forall>x \<in> set sent. accepted (en_net env) x then Inr () else Inl (MQClientException ''create new topic failed'' (- 1)))"
    using l(4) by (cases "\<forall>x \<in> set sent. accepted (en_net env) x") (auto simp: rethrow_def)
  ultimately show ?thesis using l(2,3) by (simp add: creates_def TopicConfig_new_def)
qed

definition answering_env :: ClientEnv where
  "answering_env = silent_env\<lparr>en_net := (\<lambda>addr cmd. Some ((RemotingCommand_new SUCCESS_VALUE ''JAVA'' 0 (rc_opaque cmd) 1 [] None)
     \<lparr>rc_body := Some (jprint (JObj (route_json sample_route_text)))\<rparr>))\<rparr>"

lemma sample_route_answer:
  "\<exists>api. getTopicRouteInfoFromNameServer (en_endian answering_env) (en_net answering_env) key (cl_api hb_client) = (api, Inr (Some sample_route_text))"
proof -
  have "TopicRouteData_Decode (c_str (jprint (JObj (route_json sample_route_text)))) = Inr (Some sample_route_text)"
    using route_read [OF sample_route_fits, of "[]"] by (simp only: append_Nil2)
  then show ?thesis
    by (simp add: getTopicRouteInfoFromNameServer_def with_prefix_def hb_client_def isBlank_def answering_env_def route_answer_def
        RemotingCommand_new_def del: jprint.simps split: prod.splits)
qed

theorem create_topic_asks_masters_witness:
  "\<exists>c' sent. admin_createTopic answering_env ''TBW102'' ''new'' 8 hb_client = ((c', sent), Inr ()) \<and> map fst sent = [''h1:1'', ''h3:1'']"
proof -
  obtain api where a: "getTopicRouteInfoFromNameServer (en_endian answering_env) (en_net answering_env) ''TBW102'' (cl_api hb_client) =
      (api, Inr (Some sample_route_text))" using sample_route_answer by blast
  have m: "master_addrs (sort_key bd_brokerName (tr_brokerDatas sample_route_text)) = [''h1:1'', ''h3:1'']"
    by (simp add: master_addrs_def sample_route_text_def MASTER_ID_def)
  have acc: "accepted (en_net answering_env) x" for x
    by (simp add: accepted_def answering_env_def RemotingCommand_new_def)
  have b: "isBlank (ap_projectGroupPrefix (cl_api hb_client))" "tr_brokerDatas sample_route_text \<noteq> []"
    by (simp_all add: hb_client_def isBlank_def sample_route_text_def)
  obtain c' sent r where "admin_createTopic answering_env ''TBW102'' ''new'' 8 hb_client = ((c', sent), r)"
    "map fst sent = [''h1:1'', ''h3:1'']"
    "r = (if \<forall>x \<in> set sent. accepted (en_net answering_env) x then Inr () else Inl (MQClientException ''create new topic failed'' (- 1)))"
    using create_topic_asks_masters [OF b(1) a b(2), of "''new''" 8] unfolding m by (elim exE conjE)
  with acc show ?thesis by simp
qed

text \<open>
  The offset queries ask nobody: once the master of the broker is known every one of them
  answers 0 without a request, whatever the broker would say, and looking up a message by a
  well-formed id answers an empty message.
\<close>

theorem offset_queries_answer_zero:
  assumes "findBrokerAddressInPublish (getBrokerName mq) (cl_factory c) \<noteq> []"
  shows "admin_searchOffset env mq timestamp c = Inr (c, Inr 0) \<and> admin_maxOffset env mq c = Inr (c, Inr 0) \<and>
    admin_minOffset env mq c = Inr (c, Inr 0) \<and> admin_earliestMsgStoreTime env mq c = Inr (c, Inr 0) \<and>
    (16 \<le> length msgId \<longrightarrow> admin_viewMessage e msgId = Inr MessageExt_new)"
  using assms
  by (simp add: admin_searchOffset_def admin_maxOffset_def admin_minOffset_def admin_earliestMsgStoreTime_def ask_master_def
      api_searchOffset_def api_getMaxOffset_def api_getMinOffset_def api_getEarliestMsgStoretime_def rethrow_def Let_def
      admin_viewMessage_def api_viewMessage_def decodeMessageId_def)

theorem offset_queries_answer_zero_witness:
  "admin_maxOffset answering_env (MessageQueue ''T'' ''a'' 0) hb_client = Inr (hb_client, Inr 0)"
  using offset_queries_answer_zero [of "MessageQueue ''T'' ''a'' 0" hb_client answering_env 0 "[]" LE]
  by (simp add: findBrokerAddressInPublish_def hb_client_def hb_factory_def MASTER_ID_def)

end
