(* ===== verification/Push.thy ===== *)
theory Push
  imports Consume Heartbeat Admin
begin

text \<open>
  \<^verbatim>\<open>src/src/consumer/DefaultMQPushConsumerImpl.cpp\<close>: the push consumer. It is configured, started and
  shut down, it decides for each pull request whether the queue may be pulled now, and its
  callback files what was pulled and submits the request again. The factory holds a pointer
  to the consumer; here \<open>share_in\<close> and \<open>share_out\<close> copy the two tables the factory reads and writes.
  The wake-up of the rebalance thread is left out.
\<close>

section \<open>State\<close>

record PushConsumerImpl =
  pc_impl :: PushImpl
  pc_serviceState :: ServiceState
  pc_pause :: bool
  pc_consumeOrderly :: bool
  pc_flowControlTimes1 :: int
  pc_flowControlTimes2 :: int
  pc_factoryPresent :: bool
  pc_wrapper :: PullAPIWrapper
  pc_listenerInner :: "ListenerKind option"
  pc_pullService :: PullMessageService

definition s_PullTimeDelayMillsWhenException :: int where "s_PullTimeDelayMillsWhenException = 3000"
definition s_PullTimeDelayMillsWhenFlowControl :: int where "s_PullTimeDelayMillsWhenFlowControl = 100"
definition s_PullTimeDelayMillsWhenSuspend :: int where "s_PullTimeDelayMillsWhenSuspend = 1000"
definition s_BrokerSuspendMaxTimeMillis :: int where "s_BrokerSuspendMaxTimeMillis = 15000"

abbreviation pc_rb :: "PushConsumerImpl \<Rightarrow> RebalanceImpl" where
  "pc_rb pc \<equiv> co_rebalance (pu_consumer (pc_impl pc))"

abbreviation pc_client :: "PushConsumerImpl \<Rightarrow> Client" where
  "pc_client pc \<equiv> co_client (pu_consumer (pc_impl pc))"

abbreviation pc_config :: "PushConsumerImpl \<Rightarrow> DefaultMQPushConsumer" where
  "pc_config pc \<equiv> pu_config (pc_impl pc)"

definition with_consumer :: "(Consumer \<Rightarrow> Consumer) \<Rightarrow> PushConsumerImpl \<Rightarrow> PushConsumerImpl" where
  "with_consumer g pc = pc\<lparr>pc_impl := (pc_impl pc)\<lparr>pu_consumer := g (pu_consumer (pc_impl pc))\<rparr>\<rparr>"

definition with_rb :: "(RebalanceImpl \<Rightarrow> RebalanceImpl) \<Rightarrow> PushConsumerImpl \<Rightarrow> PushConsumerImpl" where
  "with_rb g = with_consumer (\<lambda>co. co\<lparr>co_rebalance := g (co_rebalance co)\<rparr>)"

definition with_client :: "Client \<Rightarrow> PushConsumerImpl \<Rightarrow> PushConsumerImpl" where
  "with_client c = with_consumer (\<lambda>co. co\<lparr>co_client := c\<rparr>)"

definition inner_of :: "DefaultMQPushConsumer \<Rightarrow> RebalanceImpl \<Rightarrow> ConsumerInner" where
  "inner_of cfg rb = \<lparr>ci_push = True, ci_groupName = dc_consumerGroup cfg, ci_messageModel = dc_messageModel cfg,
     ci_consumeFromWhere = dc_consumeFromWhere cfg, ci_subscriptionInner = rb_subscriptionInner rb,
     ci_topicSubscribeInfoTable = rb_topicSubscribeInfoTable rb\<rparr>"

definition share_in :: "PushConsumerImpl \<Rightarrow> PushConsumerImpl" where
  "share_in pc =
     (let f = cl_factory (pc_client pc); grp = dc_consumerGroup (pc_config pc) in
      if mget (f_consumerTable f) grp = None then pc
      else with_client ((pc_client pc)\<lparr>cl_factory := f\<lparr>f_consumerTable := mput grp (inner_of (pc_config pc) (pc_rb pc)) (f_consumerTable f)\<rparr>\<rparr>) pc)"

definition share_out :: "PushConsumerImpl \<Rightarrow> PushConsumerImpl" where
  "share_out pc =
     (case mget (f_consumerTable (cl_factory (pc_client pc))) (dc_consumerGroup (pc_config pc)) of
        None \<Rightarrow> pc
      | Some ci \<Rightarrow> with_rb (\<lambda>rb. rb\<lparr>rb_topicSubscribeInfoTable := ci_topicSubscribeInfoTable ci\<rparr>) pc)"

section \<open>Pulling\<close>

definition correctTagsOffset :: "PullRequest \<Rightarrow> PushConsumerImpl \<Rightarrow> PushConsumerImpl" where
  "correctTagsOffset r pc =
     (if pq_msgCount (pu_pq (pc_impl pc) (prq_processQueue r)) = 0
      then pc\<lparr>pc_impl := commit_offset (prq_messageQueue r) (prq_nextOffset r) True (pc_impl pc)\<rparr> else pc)"

definition push_later :: "PullRequest \<Rightarrow> int \<Rightarrow> PushConsumerImpl \<Rightarrow> PushConsumerImpl" where
  "push_later r timeDelay pc = pc\<lparr>pc_pullService := executePullRequestLater r timeDelay (pc_pullService pc)\<rparr>"

definition push_immediately :: "PullRequest \<Rightarrow> PushConsumerImpl \<Rightarrow> PushConsumerImpl" where
  "push_immediately r pc = pc\<lparr>pc_pullService := executePullRequestImmediately r (pc_pullService pc)\<rparr>"

definition push_makeSureStateOK :: "PushConsumerImpl \<Rightarrow> unit result" where
  "push_makeSureStateOK pc =
     (if pc_serviceState pc \<noteq> RUNNING then Inl (MQClientException ''The consumer service state not OK, '' (- 1)) else Inr ())"

text \<open>The result lists the requests sent to a broker; undefined behaviour and an exception that is not an \<^verbatim>\<open>MQException\<close> pass through.\<close>

definition push_pullMessage ::
  "ClientEnv \<Rightarrow> PullRequest \<Rightarrow> PushConsumerImpl \<Rightarrow> (PushConsumerImpl \<times> (string \<times> RemotingCommand) list) result" where
  "push_pullMessage env r pc =
     (let processQueue = pu_pq (pc_impl pc) (prq_processQueue r); mq = prq_messageQueue r; cfg = pc_config pc in
      if pq_dropped processQueue then Inr (pc, [])
      else if push_makeSureStateOK pc \<noteq> Inr () then Inr (push_later r s_PullTimeDelayMillsWhenException pc, [])
      else if pc_pause pc then Inr (push_later r s_PullTimeDelayMillsWhenSuspend pc, [])
      else if pq_msgCount processQueue > dc_pullThresholdForQueue cfg
      then Inr (push_later r s_PullTimeDelayMillsWhenFlowControl (pc\<lparr>pc_flowControlTimes1 := i64 (pc_flowControlTimes1 pc + 1)\<rparr>), [])
      else if \<not> pc_consumeOrderly pc \<and> getMaxSpan processQueue > dc_consumeConcurrentlyMaxSpan cfg
      then Inr (push_later r s_PullTimeDelayMillsWhenFlowControl (pc\<lparr>pc_flowControlTimes2 := i64 (pc_flowControlTimes2 pc + 1)\<rparr>), [])
      else
        (case mget (rb_subscriptionInner (pc_rb pc)) (getTopic mq) of
           None \<Rightarrow> Inr (push_later r s_PullTimeDelayMillsWhenException pc, [])
         | Some subscriptionData \<Rightarrow>
             bind_r (if dc_messageModel cfg = CLUSTERING
                     then store_readOffset env mq READ_FROM_MEMORY (co_store (pu_consumer (pc_impl pc))) (pc_client pc)
                     else Inr (co_store (pu_consumer (pc_impl pc)), pc_client pc, 0)) (\<lambda>(st', c', commitOffsetValue).
               let commitOffsetEnable = (dc_messageModel cfg = CLUSTERING \<and> commitOffsetValue > 0);
                   sysFlag = buildSysFlag commitOffsetEnable True False;
                   (c'', out, res) = pullKernelImpl env mq [] (sd_subVersion subscriptionData) (prq_nextOffset r) (dc_pullBatchSize cfg)
                     sysFlag commitOffsetValue s_BrokerSuspendMaxTimeMillis ASYNC (pc_wrapper pc) c';
                   pc1 = with_consumer (\<lambda>co. co\<lparr>co_store := st', co_client := c''\<rparr>) pc
               in case res of
                    Inr _ \<Rightarrow> Inr (pc1, out)
                  | Inl x \<Rightarrow> if x = Undefined \<or> x = StdException then Inl x
                             else Inr (push_later r s_PullTimeDelayMillsWhenException pc1, out))))"

text \<open>\<^verbatim>\<open>PullMessageService::pullMessage\<close> looks the consumer up by its group; \<open>pc\<close> is the consumer of that group.\<close>

definition service_pullMessage ::
  "ClientEnv \<Rightarrow> PullRequest \<Rightarrow> PushConsumerImpl \<Rightarrow> (PushConsumerImpl \<times> (string \<times> RemotingCommand) list) result" where
  "service_pullMessage env r pc =
     (if mget (f_consumerTable (cl_factory (pc_client pc))) (prq_consumerGroup r) \<noteq> None then push_pullMessage env r pc
      else Inr (pc, []))"

text \<open>
  The callback of a pull. \<open>sub\<close> is the copy of the subscription made when the request was sent,
  \<open>pullRT\<close> the time since. \<^const>\<open>None\<close> says that a loop has not ended within the fuel.
\<close>

definition count_pull :: "int \<Rightarrow> PushImpl \<Rightarrow> PushImpl" where
  "count_pull pullRT pu =
     pu\<lparr>pu_stat := (pu_stat pu)\<lparr>cs_pullTimesTotal := i64 (cs_pullTimesTotal (pu_stat pu) + 1),
        cs_pullRTTotal := i64 (cs_pullRTTotal (pu_stat pu) + pullRT)\<rparr>\<rparr>"

definition onSuccess_found :: "nat \<Rightarrow> int \<Rightarrow> PullRequest \<Rightarrow> PullResult \<Rightarrow> PushConsumerImpl \<Rightarrow> PushConsumerImpl option" where
  "onSuccess_found fuel pullRT r pr pc =
     (let r' = r\<lparr>prq_nextOffset := px_nextBeginOffset pr\<rparr>; a = prq_processQueue r; mq = prq_messageQueue r;
          pu1 = count_pull pullRT (pc_impl pc);
          (pq', dispatchToConsume) = putMessage (px_msgFoundList pr) (pu_pq pu1 a);
          pu2 = with_pq a (\<lambda>_. pq') pu1;
          submitted = (if pc_consumeOrderly pc then Some (submitConsumeRequest_orderly (px_msgFoundList pr) a mq dispatchToConsume pu2)
                       else submitConsumeRequest fuel (px_msgFoundList pr) a mq dispatchToConsume pu2);
          again = (\<lambda>pc'. if dc_pullInterval (pc_config pc) > 0 then push_later r' (dc_pullInterval (pc_config pc)) pc'
                         else push_immediately r' pc')
      in map_option (\<lambda>pu3. again (pc\<lparr>pc_impl := pu3\<rparr>)) submitted)"

definition onSuccess_illegal :: "PullRequest \<Rightarrow> PullResult \<Rightarrow> PushConsumerImpl \<Rightarrow> PushConsumerImpl" where
  "onSuccess_illegal r pr pc =
     (let next = (if prq_nextOffset r < px_minOffset pr then px_minOffset pr
                  else if prq_nextOffset r > px_maxOffset pr then px_maxOffset pr else prq_nextOffset r);
          r' = r\<lparr>prq_nextOffset := next\<rparr>
      in push_immediately r' (pc\<lparr>pc_impl := commit_offset (prq_messageQueue r) next False (pc_impl pc)\<rparr>))"

definition onSuccess ::
  "nat \<Rightarrow> endian \<Rightarrow> (string \<Rightarrow> string option) \<Rightarrow> int \<Rightarrow> SubscriptionData \<Rightarrow> PullRequest \<Rightarrow> PullResult \<Rightarrow> PushConsumerImpl \<Rightarrow>
   PushConsumerImpl result option" where
  "onSuccess fuel e decompress pullRT sub r pullResult pc =
     (case processPullResult fuel e decompress (ap_projectGroupPrefix (cl_api (pc_client pc))) (prq_messageQueue r) pullResult sub
             (pc_wrapper pc) of
        None \<Rightarrow> None
      | Some (Inl x) \<Rightarrow> Some (Inl x)
      | Some (Inr (pw', mq', sub', pr)) \<Rightarrow>
          (let r1 = r\<lparr>prq_messageQueue := mq'\<rparr>; pc1 = pc\<lparr>pc_wrapper := pw'\<rparr>;
               r2 = r1\<lparr>prq_nextOffset := px_nextBeginOffset pr\<rparr>
           in case px_pullStatus pr of
                FOUND \<Rightarrow> map_option Inr (onSuccess_found fuel pullRT r1 pr pc1)
              | NO_NEW_MSG \<Rightarrow> Some (Inr (push_immediately r2 (correctTagsOffset r2 pc1)))
              | NO_MATCHED_MSG \<Rightarrow> Some (Inr (push_immediately r2 pc1))
              | OFFSET_ILLEGAL \<Rightarrow> Some (Inr (onSuccess_illegal r1 pr pc1))))"

definition onException_pull :: "PullRequest \<Rightarrow> PushConsumerImpl \<Rightarrow> PushConsumerImpl" where
  "onException_pull r pc = push_later r s_PullTimeDelayMillsWhenException pc"

section \<open>Configuration\<close>

definition config_error :: "string \<Rightarrow> unit result" where
  "config_error msg = Inl (MQClientException msg (- 1))"

text \<open>The message model is one of the two, and the starting point one of the four, by their types.\<close>

definition checkConfig :: "DefaultMQPushConsumer \<Rightarrow> unit result" where
  "checkConfig cfg =
     bind_r (checkGroup (dc_consumerGroup cfg)) (\<lambda>_.
     if dc_consumerGroup cfg = DEFAULT_CONSUMER_GROUP
     then config_error (''consumerGroup can not equal to '' @ DEFAULT_CONSUMER_GROUP @ '', please specify another one.'')
     else if \<not> dc_strategyPresent cfg then config_error ''allocateMessageQueueStrategy is null''
     else
       (case dc_messageListener cfg of
          None \<Rightarrow> config_error ''messageListener is null''
        | Some ListenerOther \<Rightarrow>
            config_error ''messageListener must be instanceof MessageListenerOrderly or MessageListenerConcurrently''
        | Some _ \<Rightarrow>
            if dc_consumeThreadMin cfg < 1 \<or> dc_consumeThreadMin cfg > 1000 \<or> dc_consumeThreadMin cfg > dc_consumeThreadMax cfg
            then config_error ''consumeThreadMin Out of range [1, 1000]''
            else if dc_consumeThreadMax cfg < 1 \<or> dc_consumeThreadMax cfg > 1000
            then config_error ''consumeThreadMax Out of range [1, 1000]''
            else if dc_consumeConcurrentlyMaxSpan cfg < 1 \<or> dc_consumeConcurrentlyMaxSpan cfg > 65535
            then config_error ''consumeConcurrentlyMaxSpan Out of range [1, 65535]''
            else if dc_pullThresholdForQueue cfg < 1 \<or> dc_pullThresholdForQueue cfg > 65535
            then config_error ''pullThresholdForQueue Out of range [1, 65535]''
            else if dc_pullInterval cfg < 0 \<or> dc_pullInterval cfg > 65535
            then config_error ''pullInterval Out of range [0, 65535]''
            else if dc_consumeMessageBatchMaxSize cfg < 1 \<or> dc_consumeMessageBatchMaxSize cfg > 1024
            then config_error ''consumeMessageBatchMaxSize Out of range [1, 1024]''
            else if dc_pullBatchSize cfg < 1 \<or> dc_pullBatchSize cfg > 1024
            then config_error ''pullBatchSize Out of range [1, 1024]''
            else Inr ()))"

definition subscription_exception :: "'a result" where
  "subscription_exception = Inl (MQClientException ''subscription exception'' (- 1))"

fun copy_topics :: "int \<Rightarrow> (string \<times> string) list \<Rightarrow> PushConsumerImpl \<Rightarrow> PushConsumerImpl \<times> unit result" where
  "copy_topics now [] pc = (pc, Inr ())"
| "copy_topics now ((topic, sub) # rest) pc =
     (case buildSubscriptionData now topic sub of
        Inl x \<Rightarrow> (pc, subscription_exception)
      | Inr sd \<Rightarrow> copy_topics now rest (with_rb (\<lambda>rb. rb\<lparr>rb_subscriptionInner := mput topic sd (rb_subscriptionInner rb)\<rparr>) pc))"

text \<open>In clustering mode the retry topic of the group is subscribed too.\<close>

definition copySubscription :: "int \<Rightarrow> PushConsumerImpl \<Rightarrow> PushConsumerImpl \<times> unit result" where
  "copySubscription now pc =
     (case copy_topics now (dc_subscription (pc_config pc)) pc of
        (pc1, Inl x) \<Rightarrow> (pc1, Inl x)
      | (pc1, Inr _) \<Rightarrow>
          (let pc2 = (if pc_listenerInner pc1 = None then pc1\<lparr>pc_listenerInner := dc_messageListener (pc_config pc)\<rparr> else pc1)
           in case dc_messageModel (pc_config pc) of
                BROADCASTING \<Rightarrow> (pc2, Inr ())
              | CLUSTERING \<Rightarrow> copy_topics now [(getRetryTopic (dc_consumerGroup (pc_config pc)), SUB_ALL)] pc2))"

text \<open>A heartbeat tells the brokers the subscriptions.\<close>

definition announce :: "ClientEnv \<Rightarrow> PushConsumerImpl \<Rightarrow> PushConsumerImpl result" where
  "announce env pc = bind_r (sendHeartbeatToAllBrokerWithLock env (pc_client pc)) (\<lambda>(c', sent). Inr (with_client c' pc))"

definition push_subscribe :: "ClientEnv \<Rightarrow> int \<Rightarrow> string \<Rightarrow> string \<Rightarrow> PushConsumerImpl \<Rightarrow> PushConsumerImpl \<times> unit result" where
  "push_subscribe env now topic subExpression pc =
     (case copy_topics now [(topic, subExpression)] pc of
        (pc1, Inl x) \<Rightarrow> (pc1, Inl x)
      | (pc1, Inr _) \<Rightarrow>
          (let pc2 = share_in pc1 in
           if pc_factoryPresent pc2
           then (case announce env pc2 of
                   Inl x \<Rightarrow> (pc2, if x = Undefined then Inl Undefined else subscription_exception)
                 | Inr pc3 \<Rightarrow> (pc3, Inr ()))
           else (pc2, Inr ())))"

definition push_unsubscribe :: "string \<Rightarrow> PushConsumerImpl \<Rightarrow> PushConsumerImpl" where
  "push_unsubscribe topic pc =
     share_in (with_rb (\<lambda>rb. rb\<lparr>rb_subscriptionInner := mdel topic (rb_subscriptionInner rb)\<rparr>) pc)"

definition push_suspend :: "PushConsumerImpl \<Rightarrow> PushConsumerImpl" where
  "push_suspend pc = pc\<lparr>pc_pause := True\<rparr>"

definition push_resume :: "PushConsumerImpl \<Rightarrow> PushConsumerImpl" where
  "push_resume pc = pc\<lparr>pc_pause := False\<rparr>"

definition updateConsumeOffset :: "MessageQueue \<Rightarrow> int \<Rightarrow> PushConsumerImpl \<Rightarrow> PushConsumerImpl" where
  "updateConsumeOffset mq offset pc = pc\<lparr>pc_impl := commit_offset mq offset False (pc_impl pc)\<rparr>"

section \<open>Life cycle\<close>

fun refresh_topics :: "ClientEnv \<Rightarrow> string list \<Rightarrow> PushConsumerImpl \<Rightarrow> PushConsumerImpl result" where
  "refresh_topics env [] pc = Inr pc"
| "refresh_topics env (topic # topics) pc =
     bind_r (refresh_route env topic (pc_client pc)) (\<lambda>(c', b). refresh_topics env topics (share_out (with_client c' pc)))"

definition updateTopicSubscribeInfoWhenSubscriptionChanged :: "ClientEnv \<Rightarrow> PushConsumerImpl \<Rightarrow> PushConsumerImpl result" where
  "updateTopicSubscribeInfoWhenSubscriptionChanged env pc =
     refresh_topics env (mkeys (rb_subscriptionInner (pc_rb pc))) pc"

text \<open>The services of the consumer: \<open>new\<close> is the constructor with \<^verbatim>\<open>start\<close>.\<close>

definition service_start :: "bool \<Rightarrow> int \<Rightarrow> PushImpl \<Rightarrow> PushImpl" where
  "service_start orderly s_nextTimerID pu =
     (let pu1 = pu\<lparr>pu_executor := [], pu_destroyed := False, pu_scheduled := (TimerThread_new s_nextTimerID 1000)\<lparr>tt_started := True\<rparr>\<rparr>
      in if orderly then schedule s_RebalanceLockInterval LockMq True pu1 else pu1)"

text \<open>\<open>fuel\<close> bounds the loop of \<^verbatim>\<open>unlockAll\<close>.\<close>

definition service_shutdown :: "nat \<Rightarrow> ClientEnv \<Rightarrow> bool \<Rightarrow> PushImpl \<Rightarrow> PushImpl result option" where
  "service_shutdown fuel env orderly pu =
     (let pu1 = pu\<lparr>pu_executor := [], pu_destroyed := True, pu_scheduled := timer_Close (pu_scheduled pu)\<rparr> in
      if orderly
      then map_option (\<lambda>r. bind_r r (\<lambda>co'. Inr (pu1\<lparr>pu_stoped := True, pu_consumer := co'\<rparr>))) (unlockAll fuel env False (pu_consumer pu1))
      else Some (Inr pu1))"

text \<open>
  \<^verbatim>\<open>start\<close>; \<open>c\<close> is the client that \<^verbatim>\<open>getAndCreateMQClientFactory\<close> answers, \<open>userStore\<close> the offset store the
  user has set, \<open>started\<close> whether the parts of the factory come up. With a listener of neither
  kind (the two places that keep the listener may differ) the service pointer is not initialised.
\<close>

definition push_store :: "OffsetStore option \<Rightarrow> Client \<Rightarrow> DefaultMQPushConsumer \<Rightarrow> OffsetStore" where
  "push_store userStore c cfg =
     (case userStore of
        Some st \<Rightarrow> st
      | None \<Rightarrow> (case dc_messageModel cfg of
                   BROADCASTING \<Rightarrow> LocalFile (LocalFileOffsetStore_new (cl_factory c) (dc_consumerGroup cfg))
                 | CLUSTERING \<Rightarrow> Remote (RemoteBrokerOffsetStore_new (dc_consumerGroup cfg))))"

definition attach :: "OffsetStore option \<Rightarrow> Client \<Rightarrow> int \<Rightarrow> PushConsumerImpl \<Rightarrow> PushConsumerImpl" where
  "attach userStore c s_nextTimerID pc =
     (let cfg = pc_config pc;
          orderly = (pc_listenerInner pc = Some ListenerOrderly);
          pc1 = with_consumer (\<lambda>co. co\<lparr>co_client := c, co_store := push_store userStore c cfg,
                  co_rebalance := (co_rebalance co)\<lparr>rb_consumerGroup := dc_consumerGroup cfg, rb_messageModel := dc_messageModel cfg\<rparr>\<rparr>) pc
      in pc1\<lparr>pc_factoryPresent := True, pc_wrapper := PullAPIWrapper_new (dc_consumerGroup cfg), pc_consumeOrderly := orderly,
             pc_impl := service_start orderly s_nextTimerID (pc_impl pc1)\<rparr>)"

definition push_start ::
  "nat \<Rightarrow> ClientEnv \<Rightarrow> int \<Rightarrow> OffsetStore option \<Rightarrow> Client \<Rightarrow> int \<Rightarrow> bool \<Rightarrow> PushConsumerImpl \<Rightarrow>
   (PushConsumerImpl \<times> unit result) option" where
  "push_start fuel env now userStore c s_nextTimerID started pc =
     (case pc_serviceState pc of
        CREATE_JUST \<Rightarrow>
          (let pc0 = pc\<lparr>pc_serviceState := START_FAILED\<rparr> in
           case checkConfig (pc_config pc) of
             Inl x \<Rightarrow> Some (pc0, Inl x)
           | Inr _ \<Rightarrow>
               (case copySubscription now pc0 of
                  (pc1, Inl x) \<Rightarrow> Some (pc1, Inl x)
                | (pc1, Inr _) \<Rightarrow>
                    if pc_listenerInner pc1 \<notin> {Some ListenerOrderly, Some ListenerConcurrently} then Some (pc1, Inl Undefined)
                    else (let pc2 = attach userStore c s_nextTimerID pc1;
                         grp = dc_consumerGroup (pc_config pc);
                         (f', registerOK) = registerConsumer grp (Some (inner_of (pc_config pc2) (pc_rb pc2))) (cl_factory (pc_client pc2));
                         pc3 = with_client ((pc_client pc2)\<lparr>cl_factory := f'\<rparr>) pc2
                     in if \<not> registerOK then
                          (case service_shutdown fuel env (pc_consumeOrderly pc3) (pc_impl pc3) of
                             None \<Rightarrow> None
                           | Some (Inl x) \<Rightarrow> Some (pc3\<lparr>pc_serviceState := CREATE_JUST\<rparr>, Inl x)
                           | Some (Inr pu') \<Rightarrow>
                               Some (pc3\<lparr>pc_serviceState := CREATE_JUST, pc_impl := pu'\<rparr>,
                                     Inl (MQClientException (''The consumer group['' @ grp @
                                       ''] has been created before, specify another name please.'') (- 1))))
                        else
                          (case factory_start started f' of
                             (f2, Inl x) \<Rightarrow> Some (with_client ((pc_client pc3)\<lparr>cl_factory := f2\<rparr>) pc3, Inl x)
                           | (f2, Inr _) \<Rightarrow>
                               (let pc4 = (with_client ((pc_client pc3)\<lparr>cl_factory := f2\<rparr>) pc3)\<lparr>pc_serviceState := RUNNING\<rparr>
                                in case bind_r (updateTopicSubscribeInfoWhenSubscriptionChanged env pc4) (announce env) of
                                     Inl x \<Rightarrow> Some (pc4, Inl x)
                                   | Inr pc5 \<Rightarrow> Some (pc5, Inr ()))))))
      | _ \<Rightarrow> Some (pc, Inl (MQClientException ''The PullConsumer service state not OK, maybe started once, '' (- 1))))"

text \<open>The offsets of the owned queues go to the brokers; an exception is dropped.\<close>

definition persistConsumerOffset :: "ClientEnv \<Rightarrow> PushConsumerImpl \<Rightarrow> (PushConsumerImpl \<times> (string \<times> RemotingCommand) list) result" where
  "persistConsumerOffset env pc =
     (if push_makeSureStateOK pc \<noteq> Inr () then Inr (pc, [])
      else
        (case co_store (pu_consumer (pc_impl pc)) of
           LocalFile st \<Rightarrow> Inr (pc, [])
         | Remote st \<Rightarrow>
             (case persistAll env (mkeys (rb_processQueueTable (pc_rb pc))) st (pc_client pc) of
                Inr (st', c', out) \<Rightarrow> Inr (with_consumer (\<lambda>co. co\<lparr>co_store := Remote st', co_client := c'\<rparr>) pc, out)
              | Inl Undefined \<Rightarrow> Inl Undefined
              | Inl _ \<Rightarrow> Inr (pc, []))))"

definition push_shutdown ::
  "nat \<Rightarrow> ClientEnv \<Rightarrow> PushConsumerImpl \<Rightarrow> (PushConsumerImpl \<times> (string \<times> RemotingCommand) list) result option" where
  "push_shutdown fuel env pc =
     (case pc_serviceState pc of
        RUNNING \<Rightarrow>
          (case service_shutdown fuel env (pc_consumeOrderly pc) (pc_impl pc) of
             None \<Rightarrow> None
           | Some (Inl x) \<Rightarrow> Some (Inl x)
           | Some (Inr pu') \<Rightarrow>
               Some (bind_r (persistConsumerOffset env (pc\<lparr>pc_impl := pu'\<rparr>)) (\<lambda>(pc1, out).
                 let c = pc_client pc1;
                     f' = factory_shutdown (unregisterConsumer (dc_consumerGroup (pc_config pc1)) (cl_factory c))
                 in Inr ((with_client (c\<lparr>cl_factory := f'\<rparr>) pc1)\<lparr>pc_serviceState := SHUTDOWN_ALREADY\<rparr>, out))))
      | _ \<Rightarrow> Some (Inr (pc, [])))"

definition fetchSubscribeMessageQueues :: "ClientEnv \<Rightarrow> string \<Rightarrow> PushConsumerImpl \<Rightarrow> (PushConsumerImpl \<times> MessageQueue list) result" where
  "fetchSubscribeMessageQueues env topic pc =
     (case mget (rb_topicSubscribeInfoTable (pc_rb pc)) topic of
        Some mqs \<Rightarrow> Inr (pc, mqs)
      | None \<Rightarrow>
          bind_r (refresh_route env topic (pc_client pc)) (\<lambda>(c', b).
            let pc' = share_out (with_client c' pc) in
            case mget (rb_topicSubscribeInfoTable (pc_rb pc')) topic of
              Some mqs \<Rightarrow> Inr (pc', mqs)
            | None \<Rightarrow> Inl (MQClientException (''The topic['' @ topic @ ''] not exist'') (- 1))))"

section \<open>Administrative calls\<close>

text \<open>They go to the administration of the factory, which a consumer that was not started does not have.\<close>

definition push_admin :: "(Client \<Rightarrow> (Client \<times> 'a) result) \<Rightarrow> PushConsumerImpl \<Rightarrow> (PushConsumerImpl \<times> 'a) result" where
  "push_admin call pc =
     (if pc_factoryPresent pc then bind_r (call (pc_client pc)) (\<lambda>(c', r). Inr (share_out (with_client c' pc), r))
      else Inl Undefined)"

definition push_createTopic :: "ClientEnv \<Rightarrow> string \<Rightarrow> string \<Rightarrow> int \<Rightarrow> PushConsumerImpl \<Rightarrow> (PushConsumerImpl \<times> unit result) result" where
  "push_createTopic env key newTopic queueNum =
     push_admin (\<lambda>c. let ((c', sent), r) = admin_createTopic env key newTopic queueNum c in Inr (c', r))"

definition push_earliestMsgStoreTime :: "ClientEnv \<Rightarrow> MessageQueue \<Rightarrow> PushConsumerImpl \<Rightarrow> (PushConsumerImpl \<times> int result) result" where
  "push_earliestMsgStoreTime env mq = push_admin (admin_earliestMsgStoreTime env mq)"

definition push_maxOffset :: "ClientEnv \<Rightarrow> MessageQueue \<Rightarrow> PushConsumerImpl \<Rightarrow> (PushConsumerImpl \<times> int result) result" where
  "push_maxOffset env mq = push_admin (admin_maxOffset env mq)"

definition push_minOffset :: "ClientEnv \<Rightarrow> MessageQueue \<Rightarrow> PushConsumerImpl \<Rightarrow> (PushConsumerImpl \<times> int result) result" where
  "push_minOffset env mq = push_admin (admin_minOffset env mq)"

definition push_searchOffset :: "ClientEnv \<Rightarrow> MessageQueue \<Rightarrow> int \<Rightarrow> PushConsumerImpl \<Rightarrow> (PushConsumerImpl \<times> int result) result" where
  "push_searchOffset env mq timestamp = push_admin (admin_searchOffset env mq timestamp)"

definition push_queryMessage :: "string \<Rightarrow> string \<Rightarrow> int \<Rightarrow> int \<Rightarrow> int \<Rightarrow> PushConsumerImpl \<Rightarrow> (PushConsumerImpl \<times> QueryResult) result" where
  "push_queryMessage topic key maxNum begin_time end_time =
     push_admin (\<lambda>c. Inr (c, admin_queryMessage topic key maxNum begin_time end_time))"

definition push_viewMessage :: "ClientEnv \<Rightarrow> string \<Rightarrow> PushConsumerImpl \<Rightarrow> (PushConsumerImpl \<times> MessageExt result) result" where
  "push_viewMessage env msgId = push_admin (\<lambda>c. Inr (c, admin_viewMessage (en_endian env) msgId))"

section \<open>Lemmas\<close>

lemma pc_fields [simp]:
  "pc_impl (push_later r d pc) = pc_impl pc" "pc_impl (push_immediately r pc) = pc_impl pc"
  "pc_pullService (push_later r d pc) = executePullRequestLater r d (pc_pullService pc)"
  "pc_pullService (push_immediately r pc) = executePullRequestImmediately r (pc_pullService pc)"
  "pc_serviceState (push_later r d pc) = pc_serviceState pc" "pc_serviceState (push_immediately r pc) = pc_serviceState pc"
  "pc_consumeOrderly (push_later r d pc) = pc_consumeOrderly pc"
  by (simp_all add: push_later_def push_immediately_def)

lemma with_fields [simp]:
  "pc_pullService (with_consumer g pc) = pc_pullService pc" "pc_serviceState (with_consumer g pc) = pc_serviceState pc"
  "pc_config (with_consumer g pc) = pc_config pc" "pu_consumer (pc_impl (with_consumer g pc)) = g (pu_consumer (pc_impl pc))"
  "pc_listenerInner (with_consumer g pc) = pc_listenerInner pc" "pc_consumeOrderly (with_consumer g pc) = pc_consumeOrderly pc"
  "pc_wrapper (with_consumer g pc) = pc_wrapper pc" "pc_factoryPresent (with_consumer g pc) = pc_factoryPresent pc"
  by (simp_all add: with_consumer_def)

lemma config_error_refuses [simp]: "config_error msg \<noteq> Inr ()" "config_error msg = Inl x \<longleftrightarrow> x = MQClientException msg (- 1)"
  by (auto simp: config_error_def)

lemma refuse_if: "(if P then config_error msg else X) = Inr () \<longleftrightarrow> \<not> P \<and> X = Inr ()"
  by simp

lemma checkConfig_ok:
  "checkConfig cfg = Inr () \<longleftrightarrow>
     checkGroup (dc_consumerGroup cfg) = Inr () \<and> dc_consumerGroup cfg \<noteq> DEFAULT_CONSUMER_GROUP \<and> dc_strategyPresent cfg \<and>
     dc_messageListener cfg \<in> {Some ListenerOrderly, Some ListenerConcurrently} \<and>
     dc_consumeThreadMin cfg \<in> {1..1000} \<and> dc_consumeThreadMax cfg \<in> {1..1000} \<and> dc_consumeThreadMin cfg \<le> dc_consumeThreadMax cfg \<and>
     dc_consumeConcurrentlyMaxSpan cfg \<in> {1..65535} \<and> dc_pullThresholdForQueue cfg \<in> {1..65535} \<and>
     dc_pullInterval cfg \<in> {0..65535} \<and> dc_consumeMessageBatchMaxSize cfg \<in> {1..1024} \<and> dc_pullBatchSize cfg \<in> {1..1024}"
proof (cases "checkGroup (dc_consumerGroup cfg)")
  case (Inr u)
  show ?thesis
  proof (cases "dc_messageListener cfg")
    case (Some l)
    then show ?thesis
      by (cases l) (simp_all add: checkConfig_def Inr refuse_if not_less split del: if_split, safe)
  qed (simp add: checkConfig_def Inr)
qed (simp add: checkConfig_def)

text \<open>What a pull asks for: one request, or an exception and none.\<close>

lemma pullKernel_async:
  assumes "pullKernelImpl env mq subExpression subVersion offset maxNums sysFlag commitOffset suspend ASYNC pw c = (c', out, res)"
  shows "(\<exists>addr cmd h. out = (if en_sends env addr cmd then [(addr, cmd)] else []) \<and> res = Inr None \<and> rc_customHeader cmd = Some h \<and> rc_code cmd = PULL_MESSAGE_VALUE \<and>
      pm_queueOffset h = offset \<and> pm_maxMsgNums h = maxNums \<and> pm_queueId h = getQueueId mq) \<or> (out = [] \<and> (\<exists>x. res = Inl x))"
proof (cases "find_or_refresh (\<lambda>f. findBrokerAddressInSubscribe (getBrokerName mq) (recalculatePullFromWhichNode mq pw) False f) env (getTopic mq) c")
  case (Inl x)
  with assms show ?thesis by (auto simp: pullKernelImpl_def)
next
  case (Inr p)
  obtain c1 fb where p: "p = (c1, fb)" by (cases p)
  let ?h = "PullMessageRequestHeader (pw_consumerGroup pw) (getTopic mq) (getQueueId mq) offset maxNums
    (if fb_slave fb then clearCommitOffsetFlag sysFlag else sysFlag) commitOffset suspend subExpression subVersion"
  show ?thesis
  proof (cases "fb_brokerAddr fb = []")
    case True
    with assms Inr p show ?thesis by (auto simp: pullKernelImpl_def)
  next
    case False
    obtain api' o' r' where q: "pullMessage (en_endian env) (en_net env) (en_sends env) (fb_brokerAddr fb) ?h ASYNC (cl_api c1) = (api', o', r')"
      by (metis prod_cases3)
    with assms Inr p False have e: "out = o'" "res = r'" by (auto simp: pullKernelImpl_def Let_def)
    show ?thesis
    proof (cases "with_prefix (cl_api c1) (pw_consumerGroup pw)")
      case (Inl y)
      with q e show ?thesis by (auto simp: pullMessage_def)
    next
      case (Inr g)
      show ?thesis
      proof (cases "with_prefix (cl_api c1) (getTopic mq)")
        case (Inl y)
        with q e Inr show ?thesis by (auto simp: pullMessage_def)
      next
        case t: (Inr t)
        let ?h' = "PullMessageRequestHeader g t (getQueueId mq) offset maxNums
          (if fb_slave fb then clearCommitOffsetFlag sysFlag else sysFlag) commitOffset suspend subExpression subVersion"
        obtain cmd a2 where n: "new_request (en_endian env) PULL_MESSAGE_VALUE (Some ?h') None (cl_api c1) = (cmd, a2)"
          by (cases "new_request (en_endian env) PULL_MESSAGE_VALUE (Some ?h') None (cl_api c1)")
        with q e Inr t have "out = (if en_sends env (fb_brokerAddr fb) cmd then [(fb_brokerAddr fb, cmd)] else [])" "res = Inr None" by (auto simp: pullMessage_def)
        with new_request_fields(1,2) [OF n] show ?thesis
          by (intro disjI1 exI [of _ "fb_brokerAddr fb"] exI [of _ cmd] exI [of _ ?h']) simp
      qed
    qed
  qed
qed

text \<open>Filing what was found: the queue, the requests for the pool and the resubmitted request.\<close>

lemma onSuccess_found_result:
  assumes "1 \<le> dc_consumeMessageBatchMaxSize (pc_config pc)" "dc_consumeMessageBatchMaxSize (pc_config pc) \<le> 1024"
    and "length (px_msgFoundList pr) < fuel" "\<not> pc_consumeOrderly pc" "prq_processQueue r < length (rb_heap (pc_rb pc))"
  shows "\<exists>l pc'. onSuccess_found fuel rt r pr pc = Some pc' \<and> concat l = px_msgFoundList pr \<and>
    (\<forall>b \<in> set l. length b \<le> nat (dc_consumeMessageBatchMaxSize (pc_config pc)) \<and> (px_msgFoundList pr \<noteq> [] \<longrightarrow> b \<noteq> [])) \<and>
    pu_pq (pc_impl pc') (prq_processQueue r) = fst (putMessage (px_msgFoundList pr) (pu_pq (pc_impl pc) (prq_processQueue r))) \<and>
    (\<not> pu_destroyed (pc_impl pc) \<longrightarrow> pu_executor (pc_impl pc') =
       pu_executor (pc_impl pc) @ map (\<lambda>b. ConsumeConcurrentlyRequest b (prq_processQueue r) (prq_messageQueue r)) l) \<and>
    pc_pullService pc' = (if dc_pullInterval (pc_config pc) > 0
      then executePullRequestLater (r\<lparr>prq_nextOffset := px_nextBeginOffset pr\<rparr>) (dc_pullInterval (pc_config pc)) (pc_pullService pc)
      else executePullRequestImmediately (r\<lparr>prq_nextOffset := px_nextBeginOffset pr\<rparr>) (pc_pullService pc))"
proof -
  let ?a = "prq_processQueue r" and ?msgs = "px_msgFoundList pr"
  obtain pq' d where p: "putMessage ?msgs (pu_pq (pc_impl pc) ?a) = (pq', d)" by (cases "putMessage ?msgs (pu_pq (pc_impl pc) ?a)")
  define pu where "pu = with_pq ?a (\<lambda>_. pq') (count_pull rt (pc_impl pc))"
  have f: "pu_config pu = pc_config pc" "pu_executor pu = pu_executor (pc_impl pc)" "pu_destroyed pu = pu_destroyed (pc_impl pc)"
    "pu_pq pu ?a = pq'"
    using assms(5) by (simp_all add: pu_def with_pq_def count_pull_def set_pq_nth)
  from submit_work [of pu, unfolded f(1), OF assms(1-3), of ?a "prq_messageQueue r" d] obtain l where
    l: "submitConsumeRequest fuel ?msgs ?a (prq_messageQueue r) d pu = Some (add_work (map (\<lambda>b. ConsumeConcurrentlyRequest b ?a (prq_messageQueue r)) l) pu)"
      "concat l = ?msgs" "\<forall>b \<in> set l. length b \<le> nat (dc_consumeMessageBatchMaxSize (pc_config pc)) \<and> (?msgs \<noteq> [] \<longrightarrow> b \<noteq> [])" by blast
  have c: "pu_pq (count_pull rt (pc_impl pc)) ?a = pu_pq (pc_impl pc) ?a" by (simp add: count_pull_def)
  have "onSuccess_found fuel rt r pr pc = Some ((if dc_pullInterval (pc_config pc) > 0
      then push_later (r\<lparr>prq_nextOffset := px_nextBeginOffset pr\<rparr>) (dc_pullInterval (pc_config pc))
      else push_immediately (r\<lparr>prq_nextOffset := px_nextBeginOffset pr\<rparr>))
        (pc\<lparr>pc_impl := add_work (map (\<lambda>b. ConsumeConcurrentlyRequest b ?a (prq_messageQueue r)) l) pu\<rparr>))"
    using assms(4) by (simp add: onSuccess_found_def Let_def c p l(1) flip: pu_def)
  with l(2,3) f p show ?thesis
    by (intro exI [of _ l]) (auto simp: add_work_def)
qed

definition may_pull :: "PullRequest \<Rightarrow> PushConsumerImpl \<Rightarrow> bool" where
  "may_pull r pc \<longleftrightarrow>
     (let pq = pu_pq (pc_impl pc) (prq_processQueue r) in
      \<not> pq_dropped pq \<and> pc_serviceState pc = RUNNING \<and> \<not> pc_pause pc \<and> pq_msgCount pq \<le> dc_pullThresholdForQueue (pc_config pc) \<and>
      (pc_consumeOrderly pc \<or> getMaxSpan pq \<le> dc_consumeConcurrentlyMaxSpan (pc_config pc)) \<and>
      mget (rb_subscriptionInner (pc_rb pc)) (getTopic (prq_messageQueue r)) \<noteq> None)"

lemma not_may_pull:
  assumes "\<not> may_pull r pc" "push_pullMessage env r pc = Inr (pc', out)"
  shows "out = [] \<and> pc_impl pc' = pc_impl pc \<and> (pq_dropped (pu_pq (pc_impl pc) (prq_processQueue r)) \<and> pc' = pc \<or>
    (\<exists>d \<in> {100, 1000, 3000}. pc_pullService pc' = executePullRequestLater r d (pc_pullService pc)))"
  using assms
  by (auto simp: may_pull_def push_pullMessage_def Let_def push_makeSureStateOK_def s_PullTimeDelayMillsWhenException_def
      s_PullTimeDelayMillsWhenFlowControl_def s_PullTimeDelayMillsWhenSuspend_def split: if_splits option.splits)

lemma push_pull_kernel:
  assumes "may_pull r pc" "mget (rb_subscriptionInner (pc_rb pc)) (getTopic (prq_messageQueue r)) = Some sd"
    and "(if dc_messageModel (pc_config pc) = CLUSTERING
      then store_readOffset env (prq_messageQueue r) READ_FROM_MEMORY (co_store (pu_consumer (pc_impl pc))) (pc_client pc)
      else Inr (co_store (pu_consumer (pc_impl pc)), pc_client pc, 0)) = Inr (st', c', v)"
    and "pullKernelImpl env (prq_messageQueue r) [] (sd_subVersion sd) (prq_nextOffset r) (dc_pullBatchSize (pc_config pc))
      (buildSysFlag (dc_messageModel (pc_config pc) = CLUSTERING \<and> v > 0) True False) v s_BrokerSuspendMaxTimeMillis ASYNC (pc_wrapper pc) c' =
      (c'', o', res)"
  shows "push_pullMessage env r pc =
    (case res of Inr _ \<Rightarrow> Inr (with_consumer (\<lambda>co. co\<lparr>co_store := st', co_client := c''\<rparr>) pc, o')
     | Inl x \<Rightarrow> if x = Undefined \<or> x = StdException then Inl x
                else Inr (push_later r 3000 (with_consumer (\<lambda>co. co\<lparr>co_store := st', co_client := c''\<rparr>) pc), o'))"
  using assms(1) unfolding push_pullMessage_def Let_def s_PullTimeDelayMillsWhenException_def
  by (auto simp add: may_pull_def Let_def push_makeSureStateOK_def assms(2,3,4) not_less)

lemma pullKernel_known:
  assumes "mget (f_brokerAddrTable (cl_factory c)) (getBrokerName mq) = Some addrs"
    and "mget addrs (recalculatePullFromWhichNode mq pw) = Some addr" "addr \<noteq> []" "isBlank (ap_projectGroupPrefix (cl_api c))"
  shows "\<exists>c' cmd. pullKernelImpl env mq subExpression subVersion offset maxNums sysFlag commitOffset suspend ASYNC pw c =
    (c', (if en_sends env addr cmd then [(addr, cmd)] else []), Inr None)"
proof -
  let ?flag = "if recalculatePullFromWhichNode mq pw \<noteq> MASTER_ID then clearCommitOffsetFlag sysFlag else sysFlag"
  let ?h = "PullMessageRequestHeader (pw_consumerGroup pw) (getTopic mq) (getQueueId mq) offset maxNums ?flag commitOffset suspend
    subExpression subVersion"
  obtain cmd api' where "new_request (en_endian env) PULL_MESSAGE_VALUE (Some ?h) None (cl_api c) = (cmd, api')"
    by (cases "new_request (en_endian env) PULL_MESSAGE_VALUE (Some ?h) None (cl_api c)")
  with assms show ?thesis
    by (auto simp: pullKernelImpl_def find_or_refresh_def findBrokerAddressInSubscribe_def pullMessage_def Let_def)
qed


lemma may_pull_sends:
  assumes "may_pull r pc" "push_pullMessage env r pc = Inr (pc', out)"
  shows "pc_rb pc' = pc_rb pc \<and> pc_config pc' = pc_config pc \<and> pc_consumeOrderly pc' = pc_consumeOrderly pc \<and>
    ((\<exists>addr cmd h. out = (if en_sends env addr cmd then [(addr, cmd)] else []) \<and> rc_customHeader cmd = Some h \<and> rc_code cmd = PULL_MESSAGE_VALUE \<and>
        pm_queueOffset h = prq_nextOffset r \<and> pm_maxMsgNums h = dc_pullBatchSize (pc_config pc) \<and>
        pc_pullService pc' = pc_pullService pc) \<or>
     out = [] \<and> pc_pullService pc' = executePullRequestLater r 3000 (pc_pullService pc))"
proof -
  let ?mq = "prq_messageQueue r" and ?cl = "dc_messageModel (pc_config pc) = CLUSTERING"
  obtain sd where sd: "mget (rb_subscriptionInner (pc_rb pc)) (getTopic ?mq) = Some sd" using assms(1) by (auto simp: may_pull_def Let_def)
  from assms obtain st' c' v where rd: "(if ?cl then store_readOffset env ?mq READ_FROM_MEMORY (co_store (pu_consumer (pc_impl pc))) (pc_client pc)
      else Inr (co_store (pu_consumer (pc_impl pc)), pc_client pc, 0)) = Inr (st', c', v)"
    by (auto simp: may_pull_def push_pullMessage_def Let_def push_makeSureStateOK_def sd bind_r_Inr)
  obtain c'' o' res where k: "pullKernelImpl env ?mq [] (sd_subVersion sd) (prq_nextOffset r) (dc_pullBatchSize (pc_config pc))
      (buildSysFlag (?cl \<and> v > 0) True False) v s_BrokerSuspendMaxTimeMillis ASYNC (pc_wrapper pc) c' = (c'', o', res)"
    by (metis prod_cases3)
  let ?pc1 = "with_consumer (\<lambda>co. co\<lparr>co_store := st', co_client := c''\<rparr>) pc"
  note r = push_pull_kernel [OF assms(1) sd rd k]
  show ?thesis
    using pullKernel_async [OF k] assms(2) unfolding r by (auto split: if_splits; blast)
qed

section \<open>Properties\<close>

definition sample_consumer_impl :: PushConsumerImpl where
  "sample_consumer_impl = \<lparr>pc_impl = sample_push\<lparr>pu_config := (pu_config sample_push)\<lparr>dc_messageListener := Some ListenerConcurrently\<rparr>\<rparr>, pc_serviceState = RUNNING, pc_pause = False, pc_consumeOrderly = False,
     pc_flowControlTimes1 = 0, pc_flowControlTimes2 = 0, pc_factoryPresent = True, pc_wrapper = PullAPIWrapper_new ''cg'',
     pc_listenerInner = Some ListenerConcurrently, pc_pullService = PullMessageService_new 0\<rparr>"

definition sample_request :: PullRequest where
  "sample_request = \<lparr>prq_consumerGroup = ''cg'', prq_messageQueue = MessageQueue ''T'' ''z'' 1, prq_processQueue = 0, prq_nextOffset = 6\<rparr>"

text \<open>
  Property C14. Flow control. A pull request has one of four fates. It is sent, as one request from
  the next offset for at most the configured number of messages, and then the consumer runs, is
  not paused, subscribes to the topic and neither the number nor (when consuming concurrently)
  the span of the waiting messages exceeds its limit. Or all that holds and the request is made,
  but the connection refuses it: then nothing is sent and nobody keeps the request, neither the
  timer nor the pull service. Or nothing is sent and the request is handed to the timer. A
  dropped queue is left alone.
\<close>

theorem pull_flow_control:
  assumes "push_pullMessage env r pc = Inr (pc', out)"
  shows "(\<exists>addr cmd h. out = (if en_sends env addr cmd then [(addr, cmd)] else []) \<and>
      may_pull r pc \<and> pc_pullService pc' = pc_pullService pc \<and>
      rc_code cmd = PULL_MESSAGE_VALUE \<and> rc_customHeader cmd = Some h \<and>
      pm_queueOffset h = prq_nextOffset r \<and> pm_maxMsgNums h = dc_pullBatchSize (pc_config pc)) \<or>
    out = [] \<and> (\<exists>d \<in> {100, 1000, 3000}. pc_pullService pc' = executePullRequestLater r d (pc_pullService pc)) \<or>
    out = [] \<and> pq_dropped (pu_pq (pc_impl pc) (prq_processQueue r)) \<and> pc' = pc"
proof (cases "may_pull r pc")
  case True
  from may_pull_sends [OF this assms] True show ?thesis by fast
next
  case False
  from not_may_pull [OF this assms] show ?thesis by fast
qed

lemma sample_pull_state:
  "pu_pq (pc_impl sample_consumer_impl) 0 = sample_pq" "prq_processQueue sample_request = 0" "\<not> pq_dropped sample_pq"
  by (simp_all add: sample_consumer_impl_def sample_push_def sample_request_def sample_pq_def putMessage_def put_one_def ProcessQueue_new_def Let_def)

text \<open>
  The life of one process queue, at address \<open>a\<close>: its one pull request is either waiting to be
  carried out or (\<open>True\<close>) sent and not yet answered. The consume services work on the queue at any
  time, and anything else may happen that leaves the queue and the configuration alone. A
  broker returns at most as many messages as were asked for, at offsets the queue does not hold.
  The number counts the messages that rollbacks threw away.
\<close>

inductive pull_cycle :: "nat \<Rightarrow> nat \<Rightarrow> PushConsumerImpl \<Rightarrow> bool \<Rightarrow> bool" for a where
  cycle_new: "checkConfig (pc_config pc) = Inr () \<Longrightarrow> a < length (rb_heap (pc_rb pc)) \<Longrightarrow>
    pu_pq (pc_impl pc) a = ProcessQueue_new now \<Longrightarrow> pull_cycle a 0 pc False"
| cycle_pull: "pull_cycle a lost pc False \<Longrightarrow> prq_processQueue r = a \<Longrightarrow> push_pullMessage env r pc = Inr (pc', out) \<Longrightarrow>
    pull_cycle a lost pc' (out \<noteq> [])"
| cycle_answer: "pull_cycle a lost pc True \<Longrightarrow> prq_processQueue r = a \<Longrightarrow>
    processPullResult fuel e unzip (ap_projectGroupPrefix (cl_api (pc_client pc))) (prq_messageQueue r) pr sub (pc_wrapper pc) =
      Some (Inr (pw', mq', sub', pr')) \<Longrightarrow>
    int (length (px_msgFoundList pr')) \<le> dc_pullBatchSize (pc_config pc) \<Longrightarrow> distinct (offsets (px_msgFoundList pr')) \<Longrightarrow>
    (\<forall>off \<in> set (offsets (px_msgFoundList pr')). pending (pu_pq (pc_impl pc) a) off = None) \<Longrightarrow>
    onSuccess fuel e unzip rt sub r pr pc = Some (Inr pc') \<Longrightarrow> pull_cycle a lost pc' False"
| cycle_exception: "pull_cycle a lost pc True \<Longrightarrow> pull_cycle a lost (onException_pull r pc) False"
| cycle_work: "pull_cycle a lost pc b \<Longrightarrow> pq_work (pu_pq (pc_impl pc) a) n pq' \<Longrightarrow>
    pull_cycle a (lost + n) (pc\<lparr>pc_impl := with_pq a (\<lambda>_. pq') (pc_impl pc)\<rparr>) b"
| cycle_other: "pull_cycle a lost pc b \<Longrightarrow> pc_config pc' = pc_config pc \<Longrightarrow> a < length (rb_heap (pc_rb pc')) \<Longrightarrow>
    pu_pq (pc_impl pc') a = pu_pq (pc_impl pc) a \<Longrightarrow> pull_cycle a lost pc' b"

definition backlog_ok :: "nat \<Rightarrow> nat \<Rightarrow> PushConsumerImpl \<Rightarrow> bool \<Rightarrow> bool" where
  "backlog_ok a lost pc b \<longleftrightarrow>
     checkConfig (pc_config pc) = Inr () \<and> a < length (rb_heap (pc_rb pc)) \<and>
     pq_ok (pu_pq (pc_impl pc) a) \<and> pq_counted lost (pu_pq (pc_impl pc) a) \<and>
     int (held (pu_pq (pc_impl pc) a) + lost) \<le>
       dc_pullThresholdForQueue (pc_config pc) + (if b then 0 else dc_pullBatchSize (pc_config pc))"

lemma backlog_count: "backlog_ok a lost pc b \<Longrightarrow> pq_msgCount (pu_pq (pc_impl pc) a) = int (held (pu_pq (pc_impl pc) a) + lost)"
  by (auto simp: backlog_ok_def pq_counted_def held_def checkConfig_ok split: if_splits intro!: i64_id)

lemma backlog_pull:
  assumes "backlog_ok a lost pc False" "prq_processQueue r = a" "push_pullMessage env r pc = Inr (pc', out)"
  shows "backlog_ok a lost pc' (out \<noteq> [])"
proof (cases "may_pull r pc")
  case True
  have "pc_rb pc' = pc_rb pc" "pc_config pc' = pc_config pc" using may_pull_sends [OF True assms(3)] by blast+
  then have "backlog_ok a lost pc' False" using assms(1) by (simp add: backlog_ok_def)
  moreover have "int (held (pu_pq (pc_impl pc') a) + lost) \<le> dc_pullThresholdForQueue (pc_config pc')"
    using backlog_count [OF assms(1)] True assms(2) \<open>pc_rb pc' = pc_rb pc\<close> \<open>pc_config pc' = pc_config pc\<close>
    by (simp add: may_pull_def Let_def)
  ultimately show ?thesis by (simp add: backlog_ok_def)
next
  case False
  have "out = []" "pc_impl pc' = pc_impl pc" using not_may_pull [OF False assms(3)] by blast+
  then show ?thesis using assms(1) by (simp add: backlog_ok_def)
qed

lemma onSuccess_found_queue:
  assumes "onSuccess_found fuel rt r pr pc = Some pc'" "prq_processQueue r < length (rb_heap (pc_rb pc))"
  shows "pu_pq (pc_impl pc') (prq_processQueue r) = fst (putMessage (px_msgFoundList pr) (pu_pq (pc_impl pc) (prq_processQueue r)))"
    "pc_config pc' = pc_config pc" "length (rb_heap (pc_rb pc')) = length (rb_heap (pc_rb pc))"
proof -
  let ?a = "prq_processQueue r" and ?msgs = "px_msgFoundList pr"
  obtain pq' d where p: "putMessage ?msgs (pu_pq (pc_impl pc) ?a) = (pq', d)" by (cases "putMessage ?msgs (pu_pq (pc_impl pc) ?a)")
  have w: "pu_consumer (add_work reqs pu) = pu_consumer pu" "pu_config (add_work reqs pu) = pu_config pu" for reqs pu
    by (simp_all add: add_work_def)
  have "rb_heap (pc_rb pc') = rb_heap (co_rebalance (pu_consumer (with_pq ?a (\<lambda>_. pq') (count_pull rt (pc_impl pc)))))"
    and c: "pc_config pc' = pc_config pc"
    using assms(1) p
    by (auto simp: onSuccess_found_def count_pull_def submitConsumeRequest_orderly_def submitConsumeRequest_def w Let_def split: if_splits)
  with assms(2) p show "pu_pq (pc_impl pc') ?a = fst (putMessage ?msgs (pu_pq (pc_impl pc) ?a))" "pc_config pc' = pc_config pc"
    "length (rb_heap (pc_rb pc')) = length (rb_heap (pc_rb pc))"
    by (simp_all add: with_pq_def set_pq_nth count_pull_def)
qed

lemma onSuccess_queue:
  assumes "onSuccess fuel e unzip rt sub r pr pc = Some (Inr pc')" "prq_processQueue r < length (rb_heap (pc_rb pc))"
    and "processPullResult fuel e unzip (ap_projectGroupPrefix (cl_api (pc_client pc))) (prq_messageQueue r) pr sub (pc_wrapper pc) =
      Some (Inr (pw', mq', sub', pr'))"
  shows "pu_pq (pc_impl pc') (prq_processQueue r) \<in> {pu_pq (pc_impl pc) (prq_processQueue r),
      fst (putMessage (px_msgFoundList pr') (pu_pq (pc_impl pc) (prq_processQueue r)))} \<and>
    pc_config pc' = pc_config pc \<and> length (rb_heap (pc_rb pc')) = length (rb_heap (pc_rb pc))"
proof (cases "px_pullStatus pr'")
  case FOUND
  with assms(1,3) obtain x where x: "onSuccess_found fuel rt (r\<lparr>prq_messageQueue := mq'\<rparr>) pr' (pc\<lparr>pc_wrapper := pw'\<rparr>) = Some x" "pc' = x"
    by (auto simp: onSuccess_def)
  have "prq_processQueue (r\<lparr>prq_messageQueue := mq'\<rparr>) < length (rb_heap (pc_rb (pc\<lparr>pc_wrapper := pw'\<rparr>)))" using assms(2) by simp
  from onSuccess_found_queue [OF x(1) this] show ?thesis by (simp add: x(2))
qed (use assms(1,3) in \<open>auto simp: onSuccess_def onSuccess_illegal_def correctTagsOffset_def Let_def split: if_splits\<close>)

lemma backlog_answer:
  assumes "backlog_ok a lost pc True" "prq_processQueue r = a" "onSuccess fuel e unzip rt sub r pr pc = Some (Inr pc')"
    and "processPullResult fuel e unzip (ap_projectGroupPrefix (cl_api (pc_client pc))) (prq_messageQueue r) pr sub (pc_wrapper pc) =
      Some (Inr (pw', mq', sub', pr'))"
    and "int (length (px_msgFoundList pr')) \<le> dc_pullBatchSize (pc_config pc)" "distinct (offsets (px_msgFoundList pr'))"
    and "\<forall>off \<in> set (offsets (px_msgFoundList pr')). pending (pu_pq (pc_impl pc) a) off = None"
  shows "backlog_ok a lost pc' False"
proof -
  let ?pq = "pu_pq (pc_impl pc) a" and ?put = "fst (putMessage (px_msgFoundList pr') (pu_pq (pc_impl pc) a))"
  have i: "checkConfig (pc_config pc) = Inr ()" "a < length (rb_heap (pc_rb pc))" "pq_ok ?pq" "pq_counted lost ?pq"
    "int (held ?pq + lost) \<le> dc_pullThresholdForQueue (pc_config pc)"
    using assms(1) by (simp_all add: backlog_ok_def)
  have q: "pu_pq (pc_impl pc') a \<in> {?pq, ?put}" "pc_config pc' = pc_config pc" "length (rb_heap (pc_rb pc')) = length (rb_heap (pc_rb pc))"
    using onSuccess_queue [OF assms(3) _ assms(4)] i(2) assms(2) by simp_all
  have "mok (pq_msgTreeMap ?pq)" using i(3) by (simp add: pq_ok_def keyed_def)
  then have "int (held ?put + lost) \<le> dc_pullThresholdForQueue (pc_config pc) + dc_pullBatchSize (pc_config pc)"
    using held_put [of ?pq "px_msgFoundList pr'"] i(5) assms(5) by linarith
  moreover have "0 \<le> dc_pullBatchSize (pc_config pc)" using i(1) by (simp add: checkConfig_ok)
  ultimately show ?thesis
    using pq_put_ok [OF i(3) assms(6,7), of lost] i q by (auto simp: backlog_ok_def)
qed

lemma pull_cycle_ok: "pull_cycle a lost pc b \<Longrightarrow> backlog_ok a lost pc b"
proof (induction rule: pull_cycle.induct)
  case (cycle_new pc now)
  then show ?case using new_ok [of now] by (simp add: backlog_ok_def checkConfig_ok) (simp add: held_def ProcessQueue_new_def)
next
  case (cycle_pull lost pc r env pc' out)
  then show ?case using backlog_pull by blast
next
  case (cycle_answer lost pc r fuel e unzip pr sub pw' mq' sub' pr' rt pc')
  then show ?case using backlog_answer by blast
next
  case (cycle_exception lost pc r)
  then show ?case by (simp add: backlog_ok_def onException_pull_def push_later_def checkConfig_ok)
next
  case (cycle_work lost pc b n pq')
  then have "pq_ok pq' \<and> pq_counted (lost + n) pq'" "held pq' + n \<le> held (pu_pq (pc_impl pc) a)"
    using pq_work_ok pq_work_held unfolding backlog_ok_def by blast+
  with cycle_work.IH show ?case by (auto simp: backlog_ok_def)
next
  case (cycle_other lost pc b pc')
  then show ?case by (cases b) (simp_all add: backlog_ok_def)
qed

text \<open>
  Property C15. The messages waiting for one queue are bounded, in every state its pulls, their
  answers and the consume services can reach: the queue holds at most the configured threshold
  while a pull is on its way, and at most the threshold and one batch at any time, which with an
  accepted configuration is at most 65535 + 1024. The counter the flow control reads is the
  number of held messages, raised by the number of messages rollbacks threw away.
\<close>

theorem backlog_bounded:
  assumes "pull_cycle a lost pc in_flight"
  shows "pq_msgCount (pu_pq (pc_impl pc) a) =
      int (length (pq_msgTreeMap (pu_pq (pc_impl pc) a)) + length (pq_msgTreeMapTemp (pu_pq (pc_impl pc) a)) + lost) \<and>
    pq_msgCount (pu_pq (pc_impl pc) a) \<le> dc_pullThresholdForQueue (pc_config pc) + (if in_flight then 0 else dc_pullBatchSize (pc_config pc)) \<and>
    pq_msgCount (pu_pq (pc_impl pc) a) \<le> 65535 + 1024"
  using backlog_count [OF pull_cycle_ok [OF assms]] pull_cycle_ok [OF assms]
  by (simp add: backlog_ok_def held_def checkConfig_ok split: if_splits)

lemma sample_config_ok: "checkConfig (pc_config sample_consumer_impl) = Inr ()"
proof -
  have "checkGroup ''cg'' = Inr ()" by code_simp
  then show ?thesis
    by (simp add: checkConfig_ok sample_consumer_impl_def sample_push_def DefaultMQPushConsumer_new_def DEFAULT_CONSUMER_GROUP_def)
qed

lemma sample_may_pull: "may_pull sample_request sample_consumer_impl"
proof -
  have c: "pq_msgCount sample_pq = 3" by (simp add: sample_pq_def putMessage_def put_one_def ProcessQueue_new_def Let_def i64_def)
  have t: "pq_msgTreeMap sample_pq \<noteq> []" "mkeys (pq_msgTreeMap sample_pq) = [3, 4, 5]" using sample_pq_tree by auto
  then have "fst (hd (pq_msgTreeMap sample_pq)) = 3" "fst (last (pq_msgTreeMap sample_pq)) = 5"
    by (metis hd_map list.sel(1) mkeys_def, metis last.simps last_map list.distinct(1) mkeys_def)
  with t have s: "getMaxSpan sample_pq = 2" by (simp add: getMaxSpan_def i64_def)
  show ?thesis
    unfolding may_pull_def Let_def sample_pull_state
    using sample_pull_state(3) c s
    by (simp add: sample_consumer_impl_def sample_push_def DefaultMQPushConsumer_new_def sample_request_def sample_consumer_def sample_rebalance_def)
qed

lemma sample_pull_result:
  assumes "may_pull sample_request pc" "pc_config pc = pc_config sample_consumer_impl"
    and "rb_subscriptionInner (pc_rb pc) = rb_subscriptionInner (pc_rb sample_consumer_impl)"
    and "co_store (pu_consumer (pc_impl pc)) = co_store (pu_consumer (pc_impl sample_consumer_impl))"
    and "pc_client pc = sample_client" "pc_wrapper pc = PullAPIWrapper_new ''cg''"
  shows "\<exists>pc' cmd. push_pullMessage (silent_env\<lparr>en_sends := f\<rparr>) sample_request pc = Inr (pc', if f ''h9:1'' cmd then [(''h9:1'', cmd)] else [])"
proof -
  let ?env = "silent_env\<lparr>en_sends := f\<rparr>" and ?st = "RemoteBrokerOffsetStore_new ''cg''" and ?q = "prq_messageQueue sample_request"
  have sd: "mget (rb_subscriptionInner (pc_rb pc)) (getTopic ?q) = Some (SubscriptionData_new 0 ''T'' ''*'')"
    by (simp add: assms(3) sample_consumer_impl_def sample_push_def sample_request_def sample_rebalance_def)
  have st: "co_store (pu_consumer (pc_impl pc)) = Remote ?st" "dc_messageModel (pc_config pc) = CLUSTERING"
    unfolding assms(2,4) by (simp_all add: sample_consumer_impl_def sample_push_def DefaultMQPushConsumer_new_def)
  have rd: "(if dc_messageModel (pc_config pc) = CLUSTERING
      then store_readOffset ?env ?q READ_FROM_MEMORY (co_store (pu_consumer (pc_impl pc))) (pc_client pc)
      else Inr (co_store (pu_consumer (pc_impl pc)), pc_client pc, 0)) = Inr (Remote ?st, sample_client, - 1)"
    by (simp add: st assms(5) readOffset_def RemoteBrokerOffsetStore_new_def)
  have "isBlank []" by code_simp
  then have b: "isBlank (ap_projectGroupPrefix (cl_api sample_client))" by (simp add: sample_client_def sample_api_def)
  have known: "mget (f_brokerAddrTable (cl_factory sample_client)) (getBrokerName ?q) = Some [(0, ''h9:1'')]"
    "mget [(0, ''h9:1'')] (recalculatePullFromWhichNode ?q (pc_wrapper pc)) = Some ''h9:1''" "''h9:1'' \<noteq> []"
    by (simp_all add: assms(6) sample_request_def recalculatePullFromWhichNode_def PullAPIWrapper_new_def MASTER_ID_def sample_client_def sample_factory_def)
  obtain c' cmd where k: "pullKernelImpl ?env ?q [] (sd_subVersion (SubscriptionData_new 0 ''T'' ''*''))
      (prq_nextOffset sample_request) (dc_pullBatchSize (pc_config pc)) (buildSysFlag (dc_messageModel (pc_config pc) = CLUSTERING \<and> - 1 > (0::int)) True False)
      (- 1) s_BrokerSuspendMaxTimeMillis ASYNC (pc_wrapper pc) sample_client = (c', if en_sends ?env ''h9:1'' cmd then [(''h9:1'', cmd)] else [], Inr None)"
    using pullKernel_known [OF known b] by blast
  show ?thesis using push_pull_kernel [OF assms(1) sd rd k] by auto
qed

lemma sample_consumer_parts: "pc_client sample_consumer_impl = sample_client" "pc_wrapper sample_consumer_impl = PullAPIWrapper_new ''cg''"
  "pc_pullService sample_consumer_impl = PullMessageService_new 0"
  by (simp_all add: sample_consumer_impl_def sample_push_def sample_consumer_def)

theorem pull_flow_control_witness:
  "\<exists>pc'. push_pullMessage (silent_env\<lparr>en_sends := (\<lambda>_ _. False)\<rparr>) sample_request sample_consumer_impl = Inr (pc', []) \<and>
     (pc_pullService pc' = PullMessageService_new 0 \<or>
      (\<exists>d \<in> {100, 1000, 3000}. pc_pullService pc' = executePullRequestLater sample_request d (PullMessageService_new 0)))"
proof -
  let ?env = "silent_env\<lparr>en_sends := (\<lambda>_ _. False)\<rparr>"
  obtain pc' where e: "push_pullMessage ?env sample_request sample_consumer_impl = Inr (pc', [])"
    using sample_pull_result [OF sample_may_pull refl refl refl sample_consumer_parts(1,2), of "\<lambda>_ _. False"] by auto
  from pull_flow_control [OF e] e show ?thesis
    unfolding sample_consumer_parts(3) sample_pull_state by (auto simp: sample_pull_state)
qed

text \<open>A queue that was just gained is pulled for the first time.\<close>

definition gained_consumer :: PushConsumerImpl where
  "gained_consumer = sample_consumer_impl\<lparr>pc_impl := with_pq 0 (\<lambda>_. ProcessQueue_new 0) (pc_impl sample_consumer_impl)\<rparr>"

lemma gained_parts: "pu_pq (pc_impl gained_consumer) 0 = ProcessQueue_new 0" "0 < length (rb_heap (pc_rb gained_consumer))"
  "pc_config gained_consumer = pc_config sample_consumer_impl" "pc_client gained_consumer = sample_client"
  "pc_wrapper gained_consumer = PullAPIWrapper_new ''cg''" "rb_subscriptionInner (pc_rb gained_consumer) = rb_subscriptionInner (pc_rb sample_consumer_impl)"
  "co_store (pu_consumer (pc_impl gained_consumer)) = co_store (pu_consumer (pc_impl sample_consumer_impl))"
  "\<not> pc_consumeOrderly gained_consumer" "pc_serviceState gained_consumer = RUNNING" "\<not> pc_pause gained_consumer"
proof -
  have "0 < length (rb_heap (pc_rb sample_consumer_impl))" by (simp add: sample_consumer_impl_def sample_push_def)
  then show "pu_pq (pc_impl gained_consumer) 0 = ProcessQueue_new 0" "0 < length (rb_heap (pc_rb gained_consumer))"
    by (simp_all add: gained_consumer_def)
qed (simp_all add: gained_consumer_def sample_consumer_parts with_pq_def set_pq_def,
     simp_all add: sample_consumer_impl_def)

lemma gained_may_pull: "may_pull sample_request gained_consumer"
  unfolding may_pull_def Let_def sample_pull_state gained_parts
  by (simp add: gained_parts ProcessQueue_new_def getMaxSpan_def)
    (simp add: sample_consumer_impl_def sample_push_def DefaultMQPushConsumer_new_def sample_request_def sample_rebalance_def)

theorem backlog_bounded_witness:
  "\<exists>pc' out. push_pullMessage silent_env sample_request gained_consumer = Inr (pc', out) \<and> out \<noteq> [] \<and>
     pull_cycle 0 0 pc' True \<and> pq_msgCount (pu_pq (pc_impl pc') 0) \<le> 1000"
proof -
  have s: "silent_env = silent_env\<lparr>en_sends := (\<lambda>_ _. True)\<rparr>" by (simp add: silent_env_def)
  obtain pc' cmd where p: "push_pullMessage silent_env sample_request gained_consumer = Inr (pc', [(''h9:1'', cmd)])"
    using sample_pull_result [OF gained_may_pull gained_parts(3,6,7,4,5), of "\<lambda>_ _. True"] unfolding s [symmetric] by auto
  have "pull_cycle 0 0 gained_consumer False"
    by (rule cycle_new [OF _ gained_parts(2,1)]) (simp add: gained_parts(3) sample_config_ok)
  from cycle_pull [OF this sample_pull_state(2) p] have c: "pull_cycle 0 0 pc' True" by simp
  have "pc_config pc' = pc_config sample_consumer_impl" using may_pull_sends [OF gained_may_pull p] gained_parts(3) by simp
  then have "dc_pullThresholdForQueue (pc_config pc') = 1000"
    by (simp add: sample_consumer_impl_def sample_push_def DefaultMQPushConsumer_new_def)
  with backlog_bounded [OF c] p c show ?thesis by auto
qed

lemma processPull_frame:
  assumes "processPullResult fuel e decompress projectPrefix mq pr sub pw = Some (Inr (pw', mq', sub', pr'))" "isBlank projectPrefix"
  shows "pw' = updatePullFromWhichNode mq (px_suggestWhichBrokerId pr) pw \<and> mq' = mq \<and> sub' = sub \<and>
    px_pullStatus pr' = px_pullStatus pr \<and> px_nextBeginOffset pr' = px_nextBeginOffset pr \<and>
    px_minOffset pr' = px_minOffset pr \<and> px_maxOffset pr' = px_maxOffset pr"
  using assms by (auto simp: processPullResult_def Let_def split: if_splits option.splits sum.splits prod.splits)

lemma onSuccess_found_service:
  assumes "onSuccess_found fuel rt r pr pc = Some pc'"
  shows "pc_pullService pc' = (if dc_pullInterval (pc_config pc) > 0
      then executePullRequestLater (r\<lparr>prq_nextOffset := px_nextBeginOffset pr\<rparr>) (dc_pullInterval (pc_config pc)) (pc_pullService pc)
      else executePullRequestImmediately (r\<lparr>prq_nextOffset := px_nextBeginOffset pr\<rparr>) (pc_pullService pc))"
  using assms by (cases "dc_pullInterval (pc_config pc) > 0") (auto simp: onSuccess_found_def Let_def split: prod.splits if_splits)

lemma correctTags_service [simp]: "pc_pullService (correctTagsOffset r pc) = pc_pullService pc"
  by (simp add: correctTagsOffset_def)

lemma processed_answer:
  assumes "isBlank projectPrefix"
    and "px_pullStatus pr = FOUND \<longrightarrow> pr = found ws suggest nextBegin mn mx \<and> batch_ok unzip ws \<and> length ws < fuel \<and>
      (sd_tagsSet sub = [] \<or> (\<forall>w \<in> set ws. getTags (wire_msg e unzip w) \<noteq> []))"
  shows "\<exists>pw' pr'. processPullResult fuel e unzip projectPrefix mq pr sub pw = Some (Inr (pw', mq, sub, pr')) \<and>
    (px_pullStatus pr = FOUND \<longrightarrow> length (px_msgFoundList pr') < fuel)"
proof (cases "px_pullStatus pr = FOUND")
  case True
  with assms(2) have a: "pr = found ws suggest nextBegin mn mx" "batch_ok unzip ws" "length ws < fuel"
    "sd_tagsSet sub = [] \<or> (\<forall>w \<in> set ws. getTags (wire_msg e unzip w) \<noteq> [])" by simp_all
  let ?msgs = "filter (\<lambda>m. sd_tagsSet sub = [] \<or> getTags m \<in> set (sd_tagsSet sub)) (map (wire_msg e unzip) ws)"
  have "length ?msgs \<le> length ws" by (metis length_filter_le length_map)
  then have l: "length ?msgs < fuel" using a(3) by (rule le_less_trans)
  from process_batch [OF a(2,3) assms(1) a(4), of mq suggest nextBegin mn mx pw] obtain pw' where
    "processPullResult fuel e unzip projectPrefix mq pr sub pw = Some (Inr (pw', mq, sub,
       pr\<lparr>px_msgFoundList := map (put_offsets pr) ?msgs, px_messageBinary := None, px_messageBinaryLen := 0\<rparr>))"
    unfolding a(1) by blast
  with l show ?thesis by (intro exI [of _ pw'] exI) auto
qed (simp add: processPullResult_def Let_def)

lemma onSuccess_found_ends:
  assumes "checkConfig (pc_config pc) = Inr ()" "prq_processQueue r < length (rb_heap (pc_rb pc))" "length (px_msgFoundList pr) < fuel"
  shows "\<exists>pc'. onSuccess_found fuel rt r pr pc = Some pc'"
proof (cases "pc_consumeOrderly pc")
  case True
  then show ?thesis by (simp add: onSuccess_found_def Let_def split: prod.split)
next
  case False
  have "1 \<le> dc_consumeMessageBatchMaxSize (pc_config pc)" "dc_consumeMessageBatchMaxSize (pc_config pc) \<le> 1024"
    using assms(1) by (simp_all add: checkConfig_ok)
  from onSuccess_found_result [OF this assms(3) False assms(2)] show ?thesis by blast
qed

text \<open>
  Property C18. A pull that is answered ends and is submitted again exactly once, for the same queue: from
  the offset the broker names as the next one, or, when it calls the offset illegal, from the old
  one moved into the range the broker gives. What was found must be a well-formed batch in which
  every message has a tag when the subscription names tags; then more rounds than there are
  messages are enough. The request goes to the timer, which never fires, only when messages were
  found and a pull interval is configured; otherwise it is submitted for immediate execution.
\<close>

theorem answered_pull_resubmitted:
  assumes "isBlank (ap_projectGroupPrefix (cl_api (pc_client pc)))" "checkConfig (pc_config pc) = Inr ()"
    and "prq_processQueue r < length (rb_heap (pc_rb pc))"
    and "px_pullStatus pr = FOUND \<longrightarrow> pr = found ws suggest nextBegin mn mx \<and> batch_ok unzip ws \<and> length ws < fuel \<and>
      (sd_tagsSet sub = [] \<or> (\<forall>w \<in> set ws. getTags (wire_msg e unzip w) \<noteq> []))"
  shows "\<exists>pc' r'. onSuccess fuel e unzip rt sub r pr pc = Some (Inr pc') \<and>
    prq_messageQueue r' = prq_messageQueue r \<and> prq_processQueue r' = prq_processQueue r \<and>
    prq_consumerGroup r' = prq_consumerGroup r \<and>
    prq_nextOffset r' = (if px_pullStatus pr = OFFSET_ILLEGAL
      then (if prq_nextOffset r < px_minOffset pr then px_minOffset pr else min (prq_nextOffset r) (px_maxOffset pr))
      else px_nextBeginOffset pr) \<and>
    pc_pullService pc' = (if px_pullStatus pr = FOUND \<and> dc_pullInterval (pc_config pc) > 0
      then executePullRequestLater r' (dc_pullInterval (pc_config pc)) (pc_pullService pc)
      else executePullRequestImmediately r' (pc_pullService pc))"
proof -
  obtain pw' pr' where p: "processPullResult fuel e unzip (ap_projectGroupPrefix (cl_api (pc_client pc)))
      (prq_messageQueue r) pr sub (pc_wrapper pc) = Some (Inr (pw', prq_messageQueue r, sub, pr'))"
    and l: "px_pullStatus pr = FOUND \<longrightarrow> length (px_msgFoundList pr') < fuel"
    using processed_answer [OF assms(1,4)] by blast
  note f = processPull_frame [OF p assms(1)]
  define n where "n = (if px_pullStatus pr = OFFSET_ILLEGAL
      then (if prq_nextOffset r < px_minOffset pr then px_minOffset pr else min (prq_nextOffset r) (px_maxOffset pr))
      else px_nextBeginOffset pr)"
  obtain pc' where q: "onSuccess fuel e unzip rt sub r pr pc = Some (Inr pc')"
  proof (cases "px_pullStatus pr")
    case FOUND
    with l have "length (px_msgFoundList pr') < fuel" by simp
    from onSuccess_found_ends [of "pc\<lparr>pc_wrapper := pw'\<rparr>" r pr' fuel rt, OF _ _ this] assms(2,3) obtain x where
      "onSuccess_found fuel rt r pr' (pc\<lparr>pc_wrapper := pw'\<rparr>) = Some x" by auto
    with FOUND f that show thesis by (simp add: onSuccess_def p)
  qed (use f that in \<open>simp_all add: onSuccess_def p Let_def\<close>)
  have "pc_pullService pc' = (if px_pullStatus pr = FOUND \<and> dc_pullInterval (pc_config pc) > 0
      then executePullRequestLater (r\<lparr>prq_nextOffset := n\<rparr>) (dc_pullInterval (pc_config pc)) (pc_pullService pc)
      else executePullRequestImmediately (r\<lparr>prq_nextOffset := n\<rparr>) (pc_pullService pc))"
    using q f
    by (cases "px_pullStatus pr")
      (auto simp: onSuccess_def p n_def onSuccess_illegal_def Let_def min_def dest!: onSuccess_found_service)
  with q show ?thesis by (intro exI [of _ pc'] exI [of _ "r\<lparr>prq_nextOffset := n\<rparr>"]) (simp add: n_def)
qed

definition illegal_answer :: PullResult where
  "illegal_answer = \<lparr>px_pullStatus = OFFSET_ILLEGAL, px_nextBeginOffset = 0, px_minOffset = 20, px_maxOffset = 30,
     px_msgFoundList = [], px_suggestWhichBrokerId = 0, px_messageBinary = None, px_messageBinaryLen = 0\<rparr>"

lemma illegal_answered:
  "\<exists>pc'. onSuccess 0 LE (\<lambda>_. None) 0 (SubscriptionData_new 0 ''T'' ''*'') sample_request illegal_answer sample_consumer_impl = Some (Inr pc')"
  by (simp add: onSuccess_def processPullResult_def illegal_answer_def Let_def)

lemma sample_prefix_blank: "isBlank (ap_projectGroupPrefix (cl_api (pc_client sample_consumer_impl)))"
proof -
  have "isBlank []" by code_simp
  then show ?thesis by (simp add: sample_consumer_impl_def sample_push_def sample_consumer_def sample_client_def sample_api_def)
qed

theorem answered_pull_resubmitted_witness:
  "\<exists>pc' r'. onSuccess 2 LE (\<lambda>_. None) 0 (SubscriptionData_new 0 ''T'' ''*'') sample_request (found [sample_wire] 1 6 0 9) sample_consumer_impl = Some (Inr pc') \<and>
     prq_nextOffset r' = 6 \<and> pc_pullService pc' = executePullRequestImmediately r' (pc_pullService sample_consumer_impl)"
proof -
  let ?sub = "SubscriptionData_new 0 ''T'' ''*''" and ?pr = "found [sample_wire] 1 6 0 9"
  have b: "batch_ok (\<lambda>_. None) [sample_wire]" using sample_batch_ok by (simp add: batch_ok_def)
  have h: "prq_processQueue sample_request < length (rb_heap (pc_rb sample_consumer_impl))" "dc_pullInterval (pc_config sample_consumer_impl) = 0"
    by (simp_all add: sample_request_def sample_consumer_impl_def sample_push_def DefaultMQPushConsumer_new_def)
  have t: "sd_tagsSet ?sub = []" by (simp add: SubscriptionData_new_def)
  have f: "px_pullStatus ?pr = FOUND \<longrightarrow> ?pr = found [sample_wire] 1 6 0 9 \<and> batch_ok (\<lambda>_. None) [sample_wire] \<and> length [sample_wire] < 2 \<and>
      (sd_tagsSet ?sub = [] \<or> (\<forall>w \<in> set [sample_wire]. getTags (wire_msg LE (\<lambda>_. None) w) \<noteq> []))"
    using b t by simp
  from answered_pull_resubmitted [OF sample_prefix_blank sample_config_ok h(1) f, of 0] h(2) show ?thesis
    by (auto simp: found_def)
qed

text \<open>
  When the broker calls an offset illegal and gives a range, the next pull starts inside
  that range, and that offset, whatever was stored before, becomes the stored one.
\<close>

theorem illegal_offset_corrected:
  assumes "onSuccess fuel e decompress rt sub r pr pc = Some (Inr pc')" "isBlank (ap_projectGroupPrefix (cl_api (pc_client pc)))"
    and "px_pullStatus pr = OFFSET_ILLEGAL" "px_minOffset pr \<le> px_maxOffset pr" "co_store (pu_consumer (pc_impl pc)) = Remote st"
  shows "\<exists>n. px_minOffset pr \<le> n \<and> n \<le> px_maxOffset pr \<and> committed (pc_impl pc') (prq_messageQueue r) = Some n \<and>
    ps_pullRequestQueue (pc_pullService pc') = ps_pullRequestQueue (pc_pullService pc) @ [r\<lparr>prq_nextOffset := n\<rparr>]"
proof -
  obtain pw' mq' sub' pr' where p: "processPullResult fuel e decompress (ap_projectGroupPrefix (cl_api (pc_client pc)))
      (prq_messageQueue r) pr sub (pc_wrapper pc) = Some (Inr (pw', mq', sub', pr'))"
    using assms(1) by (auto simp: onSuccess_def split: option.splits sum.splits)
  note f = processPull_frame [OF p assms(2)]
  define n where "n = (if prq_nextOffset r < px_minOffset pr then px_minOffset pr
      else if prq_nextOffset r > px_maxOffset pr then px_maxOffset pr else prq_nextOffset r)"
  have e: "pc' = push_immediately (r\<lparr>prq_nextOffset := n\<rparr>)
      (pc\<lparr>pc_wrapper := pw', pc_impl := commit_offset (prq_messageQueue r) n False (pc_impl pc)\<rparr>)"
    using assms(1,3) f by (auto simp: onSuccess_def p n_def onSuccess_illegal_def Let_def)
  have "committed (pc_impl pc') (prq_messageQueue r) = Some n"
    using assms(5) by (auto simp: e committed_def commit_offset_def updateOffset_def mget_mput split: option.splits)
  then show ?thesis
    using assms(4) by (intro exI [of _ n]) (auto simp: n_def e executePullRequestImmediately_def)
qed

theorem illegal_offset_corrected_witness:
  "\<exists>pc' n. onSuccess 0 LE (\<lambda>_. None) 0 (SubscriptionData_new 0 ''T'' ''*'') sample_request illegal_answer sample_consumer_impl = Some (Inr pc') \<and>
     20 \<le> n \<and> n \<le> 30 \<and> committed (pc_impl pc') (MessageQueue ''T'' ''z'' 1) = Some n"
proof -
  obtain pc' where p: "onSuccess 0 LE (\<lambda>_. None) 0 (SubscriptionData_new 0 ''T'' ''*'') sample_request illegal_answer sample_consumer_impl = Some (Inr pc')"
    using illegal_answered by blast
  have h: "px_pullStatus illegal_answer = OFFSET_ILLEGAL" "px_minOffset illegal_answer \<le> px_maxOffset illegal_answer"
    "co_store (pu_consumer (pc_impl sample_consumer_impl)) = Remote (RemoteBrokerOffsetStore_new ''cg'')"
    by (simp_all add: illegal_answer_def sample_consumer_impl_def sample_push_def)
  from illegal_offset_corrected [OF p sample_prefix_blank h] p show ?thesis
    by (auto simp: illegal_answer_def sample_request_def)
qed

lemma install_route_consumers:
  "install_route topic route f = Inr f' \<Longrightarrow> (mget (f_consumerTable f') g = None) = (mget (f_consumerTable f) g = None)"
  by (auto simp: install_route_def Let_def mget_map_values split: sum.splits)

lemma refresh_route_consumers:
  "refresh_route env topic c = Inr (c', b) \<Longrightarrow>
    (mget (f_consumerTable (cl_factory c')) g = None) = (mget (f_consumerTable (cl_factory c)) g = None)"
  by (auto simp: refresh_route_def updateTopicRouteInfoFromNameServer_def Let_def install_route_consumers
      split: if_splits prod.splits sum.splits option.splits)

lemma share_out_fields [simp]:
  "pc_serviceState (share_out pc) = pc_serviceState pc" "pc_config (share_out pc) = pc_config pc" "pc_client (share_out pc) = pc_client pc"
  "rb_subscriptionInner (pc_rb (share_out pc)) = rb_subscriptionInner (pc_rb pc)"
  by (auto simp: share_out_def with_rb_def split: option.split)

lemma with_client_fields [simp]:
  "pc_client (with_client c pc) = c" "pc_rb (with_client c pc) = pc_rb pc" "pc_config (with_client c pc) = pc_config pc"
  "pc_serviceState (with_client c pc) = pc_serviceState pc" "pc_listenerInner (with_client c pc) = pc_listenerInner pc"
  by (simp_all add: with_client_def)

lemma refresh_topics_frame:
  "refresh_topics env topics pc = Inr pc' \<Longrightarrow> pc_serviceState pc' = pc_serviceState pc \<and> pc_config pc' = pc_config pc \<and>
    rb_subscriptionInner (pc_rb pc') = rb_subscriptionInner (pc_rb pc) \<and>
    (mget (f_consumerTable (cl_factory (pc_client pc'))) g = None) = (mget (f_consumerTable (cl_factory (pc_client pc))) g = None)"
proof (induction topics arbitrary: pc)
  case (Cons topic topics)
  from Cons.prems obtain c' b where r: "refresh_route env topic (pc_client pc) = Inr (c', b)"
    and t: "refresh_topics env topics (share_out (with_client c' pc)) = Inr pc'" by (auto simp: bind_r_Inr)
  from Cons.IH [OF t] refresh_route_consumers [OF r, of g] show ?case by simp
qed simp

lemma copy_topics_frame:
  "copy_topics now l pc = (pc', x) \<Longrightarrow> pc_serviceState pc' = pc_serviceState pc \<and> pc_config pc' = pc_config pc \<and>
    (\<forall>topic. mget (rb_subscriptionInner (pc_rb pc)) topic \<noteq> None \<longrightarrow> mget (rb_subscriptionInner (pc_rb pc')) topic \<noteq> None) \<and>
    (x = Inr () \<longrightarrow> (\<forall>topic \<in> fst ` set l. mget (rb_subscriptionInner (pc_rb pc')) topic \<noteq> None))"
proof (induction l arbitrary: pc)
  case (Cons a l)
  obtain topic s where a: "a = (topic, s)" by (cases a)
  show ?case
  proof (cases "buildSubscriptionData now topic s")
    case (Inl y)
    with Cons.prems a show ?thesis by (auto simp: subscription_exception_def)
  next
    case (Inr sd)
    let ?pc = "with_rb (\<lambda>rb. rb\<lparr>rb_subscriptionInner := mput topic sd (rb_subscriptionInner rb)\<rparr>) pc"
    from Inr Cons.prems a have "copy_topics now l ?pc = (pc', x)" by simp
    note IH = Cons.IH [OF this]
    have m: "mget (rb_subscriptionInner (pc_rb ?pc)) t = (if t = topic then Some sd else mget (rb_subscriptionInner (pc_rb pc)) t)" for t
      by (simp add: with_rb_def mget_mput)
    have "pc_serviceState ?pc = pc_serviceState pc" "pc_config ?pc = pc_config pc" by (simp_all add: with_rb_def)
    with IH m a show ?thesis by auto
  qed
qed auto

lemma copySubscription_frame:
  assumes "copySubscription now pc = (pc', x)"
  shows "pc_serviceState pc' = pc_serviceState pc \<and> pc_config pc' = pc_config pc \<and>
    (x = Inr () \<longrightarrow> (\<forall>topic \<in> set (mkeys (dc_subscription (pc_config pc))). mget (rb_subscriptionInner (pc_rb pc')) topic \<noteq> None) \<and>
      (dc_messageModel (pc_config pc) = CLUSTERING \<longrightarrow>
         mget (rb_subscriptionInner (pc_rb pc')) (getRetryTopic (dc_consumerGroup (pc_config pc))) \<noteq> None))"
proof -
  obtain pc1 y where c: "copy_topics now (dc_subscription (pc_config pc)) pc = (pc1, y)"
    by (cases "copy_topics now (dc_subscription (pc_config pc)) pc")
  note f = copy_topics_frame [OF c]
  show ?thesis
  proof (cases y)
    case (Inl z)
    with assms c f show ?thesis by (auto simp: copySubscription_def)
  next
    case (Inr u)
    define pc2 where "pc2 = (if pc_listenerInner pc1 = None then pc1\<lparr>pc_listenerInner := dc_messageListener (pc_config pc)\<rparr> else pc1)"
    have p2: "pc_serviceState pc2 = pc_serviceState pc1" "pc_impl pc2 = pc_impl pc1" by (simp_all add: pc2_def)
    show ?thesis
    proof (cases "dc_messageModel (pc_config pc)")
      case BROADCASTING
      with assms c f Inr p2 show ?thesis by (auto simp: copySubscription_def mkeys_def simp flip: pc2_def)
    next
      case CLUSTERING
      with assms c Inr have "copy_topics now [(getRetryTopic (dc_consumerGroup (pc_config pc)), SUB_ALL)] pc2 = (pc', x)"
        by (simp add: copySubscription_def flip: pc2_def)
      from copy_topics_frame [OF this] f Inr p2 show ?thesis by (auto simp: mkeys_def)
    qed
  qed
qed

lemma attach_fields [simp]:
  "pc_serviceState (attach us c n pc) = pc_serviceState pc" "pc_config (attach us c n pc) = pc_config pc"
  "rb_subscriptionInner (pc_rb (attach us c n pc)) = rb_subscriptionInner (pc_rb pc)" "pc_client (attach us c n pc) = c"
  by (simp_all add: attach_def service_start_def schedule_def Let_def)

lemma announce_frame:
  assumes "announce env pc = Inr pc'"
  shows "pc_serviceState pc' = pc_serviceState pc" "pc_rb pc' = pc_rb pc" "cl_factory (pc_client pc') = cl_factory (pc_client pc)"
  using assms heartbeat_keeps by (fastforce simp: announce_def bind_r_Inr)+

lemma push_start_running:
  assumes "push_start fuel env now us c n started pc = Some (pc', Inr ())"
  shows "pc_serviceState pc = CREATE_JUST \<and> checkConfig (pc_config pc) = Inr () \<and> pc_serviceState pc' = RUNNING \<and>
    mget (f_consumerTable (cl_factory c)) (dc_consumerGroup (pc_config pc)) = None \<and>
    mget (f_consumerTable (cl_factory (pc_client pc'))) (dc_consumerGroup (pc_config pc)) \<noteq> None \<and>
    (\<forall>topic \<in> set (mkeys (dc_subscription (pc_config pc))). mget (rb_subscriptionInner (pc_rb pc')) topic \<noteq> None) \<and>
    (dc_messageModel (pc_config pc) = CLUSTERING \<longrightarrow>
       mget (rb_subscriptionInner (pc_rb pc')) (getRetryTopic (dc_consumerGroup (pc_config pc))) \<noteq> None)"
proof -
  let ?grp = "dc_consumerGroup (pc_config pc)" and ?pc0 = "pc\<lparr>pc_serviceState := START_FAILED\<rparr>"
  have s: "pc_serviceState pc = CREATE_JUST" using assms by (cases "pc_serviceState pc") (simp_all add: push_start_def)
  have k: "checkConfig (pc_config pc) = Inr ()" using assms s by (cases "checkConfig (pc_config pc)") (simp_all add: push_start_def Let_def)
  obtain pc1 x where cs: "copySubscription now ?pc0 = (pc1, x)" by (cases "copySubscription now ?pc0")
  have x: "x = Inr ()" using assms s k cs by (cases x) (simp_all add: push_start_def Let_def)
  note f = copySubscription_frame [OF cs]
  define pc2 where "pc2 = attach us c n pc1"
  obtain f1 ok1 where rg: "registerConsumer ?grp (Some (inner_of (pc_config pc2) (pc_rb pc2))) (cl_factory c) = (f1, ok1)"
    by (cases "registerConsumer ?grp (Some (inner_of (pc_config pc2) (pc_rb pc2))) (cl_factory c)")
  define pc3 where "pc3 = with_client (c\<lparr>cl_factory := f1\<rparr>) pc2"
  obtain f2 y where fs: "factory_start started f1 = (f2, y)" by (cases "factory_start started f1")
  define pc4 where "pc4 = (with_client (c\<lparr>cl_factory := f2\<rparr>) pc3)\<lparr>pc_serviceState := RUNNING\<rparr>"
  have c3: "pc_client pc2 = c" "pc_client pc3 = c\<lparr>cl_factory := f1\<rparr>" by (simp_all add: pc2_def pc3_def)
  have lst: "pc_listenerInner pc1 \<in> {Some ListenerOrderly, Some ListenerConcurrently}"
    using assms s k cs x by (auto simp: push_start_def Let_def split: if_splits)
  have okay: "ok1" "y = Inr ()" "bind_r (updateTopicSubscribeInfoWhenSubscriptionChanged env pc4) (announce env) = Inr pc'"
    using assms s k cs x lst unfolding push_start_def Let_def
    by (auto simp: rg fs c3 pc4_def simp flip: pc2_def pc3_def split: if_splits option.splits sum.splits)
  then obtain pc5 where p5: "updateTopicSubscribeInfoWhenSubscriptionChanged env pc4 = Inr pc5" "announce env pc5 = Inr pc'"
    by (auto simp: bind_r_Inr)
  have reg: "mget (f_consumerTable (cl_factory c)) ?grp = None" "mget (f_consumerTable f1) ?grp \<noteq> None"
    using rg okay(1) by (auto simp: registerConsumer_def mget_mput split: if_splits)
  have "f_consumerTable f2 = f_consumerTable f1"
    using fs okay(2) by (auto simp: factory_start_def registerProducer_def Let_def split: ServiceState.splits if_splits)
  moreover note refresh_topics_frame [OF p5(1) [unfolded updateTopicSubscribeInfoWhenSubscriptionChanged_def], of ?grp]
  ultimately show ?thesis
    using s k f x reg announce_frame [OF p5(2)] by (simp add: pc4_def pc3_def pc2_def)
qed

text \<open>
  Property C36. Starting a push consumer. Only a fresh consumer starts, and only with an accepted
  configuration and a group that is not yet registered; afterwards it runs, is registered and
  subscribes to its topics and, when clustering, to its retry topic.
\<close>

theorem push_start_outcome:
  assumes "push_start fuel env now us c n started pc = Some (pc', Inr ())"
  shows "pc_serviceState pc = CREATE_JUST \<and> checkConfig (pc_config pc) = Inr () \<and> pc_serviceState pc' = RUNNING \<and>
    mget (f_consumerTable (cl_factory c)) (dc_consumerGroup (pc_config pc)) = None \<and>
    mget (f_consumerTable (cl_factory (pc_client pc'))) (dc_consumerGroup (pc_config pc)) \<noteq> None \<and>
    (\<forall>topic \<in> set (mkeys (dc_subscription (pc_config pc))). mget (rb_subscriptionInner (pc_rb pc')) topic \<noteq> None) \<and>
    (dc_messageModel (pc_config pc) = CLUSTERING \<longrightarrow>
       mget (rb_subscriptionInner (pc_rb pc')) (getRetryTopic (dc_consumerGroup (pc_config pc))) \<noteq> None)"
  by (rule push_start_running [OF assms])

definition fresh_consumer :: PushConsumerImpl where
  "fresh_consumer = sample_consumer_impl\<lparr>pc_serviceState := CREATE_JUST\<rparr>"

definition starting_client :: Client where
  "starting_client = sample_client\<lparr>cl_factory := (cl_factory sample_client)\<lparr>f_serviceState := RUNNING, f_consumerTable := []\<rparr>\<rparr>"

lemma fresh_starts:
  "\<exists>pc'. push_start 1 (silent_env\<lparr>en_trylock := False, en_lockHeartbeat := False\<rparr>) 0 None starting_client 0 True fresh_consumer = Some (pc', Inr ())"
proof -
  let ?pc0 = "fresh_consumer\<lparr>pc_serviceState := START_FAILED\<rparr>" and ?env = "silent_env\<lparr>en_trylock := False, en_lockHeartbeat := False\<rparr>"
  have k: "pc_serviceState fresh_consumer = CREATE_JUST" "checkConfig (pc_config fresh_consumer) = Inr ()"
    using sample_config_ok by (simp_all add: fresh_consumer_def)
  have cfg: "dc_subscription (pc_config fresh_consumer) = []" "dc_messageModel (pc_config fresh_consumer) = CLUSTERING"
    "dc_consumerGroup (pc_config fresh_consumer) = ''cg''" "pc_listenerInner fresh_consumer = Some ListenerConcurrently"
    by (simp_all add: fresh_consumer_def sample_consumer_impl_def sample_push_def DefaultMQPushConsumer_new_def)
  obtain pc1 where c: "copySubscription 0 ?pc0 = (pc1, Inr ())" "pc_listenerInner pc1 = Some ListenerConcurrently"
    using cfg by (simp add: copySubscription_def buildSubscriptionData_def with_rb_def Let_def)
  define pc2 where "pc2 = attach None starting_client 0 pc1"
  have c2: "pc_client pc2 = starting_client" by (simp add: pc2_def)
  have r: "registerConsumer ''cg'' (Some (inner_of (pc_config pc2) (pc_rb pc2))) (cl_factory starting_client) =
      ((cl_factory starting_client)\<lparr>f_consumerTable := [(''cg'', inner_of (pc_config pc2) (pc_rb pc2))]\<rparr>, True)"
    by (simp add: registerConsumer_def starting_client_def)
  have st: "factory_start True ((cl_factory starting_client)\<lparr>f_consumerTable := [(''cg'', inner_of (pc_config pc2) (pc_rb pc2))]\<rparr>) =
      ((cl_factory starting_client)\<lparr>f_consumerTable := [(''cg'', inner_of (pc_config pc2) (pc_rb pc2))]\<rparr>, Inr ())"
    by (simp add: factory_start_def starting_client_def)
  have "\<exists>pc'. refresh_topics ?env l pc = Inr pc'" for l pc
    by (induction l arbitrary: pc) (simp_all add: refresh_route_def)
  then have u: "\<exists>pc'. bind_r (updateTopicSubscribeInfoWhenSubscriptionChanged ?env pc) (announce ?env) = Inr pc'" for pc
    by (simp add: updateTopicSubscribeInfoWhenSubscriptionChanged_def announce_def sendHeartbeatToAllBrokerWithLock_def bind_r_Inr)
  show ?thesis
    unfolding push_start_def Let_def
    using u by (auto simp: k cfg c c2 r st simp flip: pc2_def split: sum.splits) (metis sum.distinct(1))
qed

theorem push_start_outcome_witness:
  "\<exists>pc'. push_start 1 (silent_env\<lparr>en_trylock := False, en_lockHeartbeat := False\<rparr>) 0 None starting_client 0 True fresh_consumer = Some (pc', Inr ()) \<and>
     pc_serviceState pc' = RUNNING \<and> mget (f_consumerTable (cl_factory (pc_client pc'))) ''cg'' \<noteq> None"
proof -
  have g: "dc_consumerGroup (pc_config fresh_consumer) = ''cg''"
    by (simp add: fresh_consumer_def sample_consumer_impl_def sample_push_def DefaultMQPushConsumer_new_def)
  obtain pc' where p: "push_start 1 (silent_env\<lparr>en_trylock := False, en_lockHeartbeat := False\<rparr>) 0 None starting_client 0 True fresh_consumer = Some (pc', Inr ())"
    using fresh_starts by blast
  from push_start_outcome [OF p] p g show ?thesis by auto
qed

text \<open>
  A refused configuration is final: the consumer is left in \<^const>\<open>START_FAILED\<close>, nothing is
  registered, and every later start is refused, however the configuration is repaired.
\<close>

theorem refused_config_is_final:
  assumes "pc_serviceState pc = CREATE_JUST" "checkConfig (pc_config pc) = Inl x"
  shows "\<exists>pc1. push_start fuel env now us c n started pc = Some (pc1, Inl x) \<and> pc_serviceState pc1 = START_FAILED \<and>
    pc_client pc1 = pc_client pc \<and>
    (\<forall>cfg fuel' env' now' us' c' n' started'.
       push_start fuel' env' now' us' c' n' started' (pc1\<lparr>pc_impl := (pc_impl pc1)\<lparr>pu_config := cfg\<rparr>\<rparr>) =
       Some (pc1\<lparr>pc_impl := (pc_impl pc1)\<lparr>pu_config := cfg\<rparr>\<rparr>,
         Inl (MQClientException ''The PullConsumer service state not OK, maybe started once, '' (- 1))))"
  using assms by (simp add: push_start_def Let_def)

theorem refused_config_is_final_witness:
  "\<exists>pc1 x. push_start 1 silent_env 0 None starting_client 0 True
       (fresh_consumer\<lparr>pc_impl := sample_push\<lparr>pu_config := DefaultMQPushConsumer_new ''DEFAULT_CONSUMER''\<rparr>\<rparr>) = Some (pc1, Inl x) \<and>
     pc_serviceState pc1 = START_FAILED"
proof -
  let ?pc = "fresh_consumer\<lparr>pc_impl := sample_push\<lparr>pu_config := DefaultMQPushConsumer_new ''DEFAULT_CONSUMER''\<rparr>\<rparr>"
  have s: "pc_serviceState ?pc = CREATE_JUST" by (simp add: fresh_consumer_def)
  have "checkConfig (pc_config ?pc) \<noteq> Inr ()" unfolding checkConfig_ok by (simp add: DefaultMQPushConsumer_new_def DEFAULT_CONSUMER_GROUP_def)
  then obtain x where x: "checkConfig (pc_config ?pc) = Inl x" by (cases "checkConfig (pc_config ?pc)") auto
  from refused_config_is_final [OF s x, of 1 silent_env 0 None starting_client 0 True] show ?thesis by blast
qed

text \<open>Talking to the name server does not change which consumers are registered.\<close>

abbreviation groups :: "Client \<Rightarrow> string list" where
  "groups c \<equiv> mkeys (f_consumerTable (cl_factory c))"

lemma install_route_groups: "install_route topic route f = Inr f' \<Longrightarrow> mkeys (f_consumerTable f') = mkeys (f_consumerTable f)"
  by (auto simp: install_route_def mkeys_def Let_def comp_def split: sum.splits)

lemma refresh_route_groups: "refresh_route env topic c = Inr (c', b) \<Longrightarrow> groups c' = groups c"
  by (auto simp: refresh_route_def updateTopicRouteInfoFromNameServer_def Let_def install_route_groups
      split: if_splits prod.splits sum.splits option.splits)

lemma find_or_refresh_groups: "find_or_refresh look env topic c = Inr (c', r) \<Longrightarrow> groups c' = groups c"
  by (auto simp: find_or_refresh_def bind_r_Inr dest!: refresh_route_groups split: if_splits)

lemma updateToBroker_groups: "updateConsumeOffsetToBroker env mq v st c = Inr (c', out) \<Longrightarrow> groups c' = groups c"
  by (auto simp: updateConsumeOffsetToBroker_def bind_r_Inr Let_def dest!: find_or_refresh_groups split: if_splits prod.splits)

lemma persist_loop_groups: "persist_loop env st l c = Inr (c', out) \<Longrightarrow> groups c' = groups c"
proof (induction l arbitrary: c out)
  case (Cons e l)
  obtain mq v where e: "e = (mq, v)" by (cases e)
  show ?case
  proof (cases "updateConsumeOffsetToBroker env mq v st c")
    case (Inl x)
    with Cons e show ?thesis by (cases x) auto
  next
    case (Inr p)
    obtain c1 o1 where "p = (c1, o1)" by (cases p)
    with Cons e Inr updateToBroker_groups [of env mq v st c c1 o1] show ?thesis by (auto simp: bind_r_Inr)
  qed
qed simp

lemma persistConsumerOffset_frame:
  assumes "persistConsumerOffset env pc = Inr (pc', out)"
  shows "groups (pc_client pc') = groups (pc_client pc) \<and> pc_config pc' = pc_config pc \<and>
    pu_executor (pc_impl pc') = pu_executor (pc_impl pc) \<and> pu_destroyed (pc_impl pc') = pu_destroyed (pc_impl pc) \<and>
    pu_scheduled (pc_impl pc') = pu_scheduled (pc_impl pc)"
proof -
  have w: "pu_executor (pc_impl (with_consumer g pc)) = pu_executor (pc_impl pc)" "pu_destroyed (pc_impl (with_consumer g pc)) = pu_destroyed (pc_impl pc)"
    "pu_scheduled (pc_impl (with_consumer g pc)) = pu_scheduled (pc_impl pc)" for g pc by (simp_all add: with_consumer_def)
  show ?thesis
    using assms
    by (auto simp: persistConsumerOffset_def persistAll_def bind_r_Inr w Let_def dest!: persist_loop_groups
        split: if_splits OffsetStore.splits sum.splits error.splits)
qed

text \<open>
  Shutting down a running concurrent consumer ends it: it is unregistered, its pool is
  destroyed with nothing left in it, its timer is closed, and a second shutdown does nothing.
\<close>

theorem push_shutdown_outcome:
  assumes "pc_serviceState pc = RUNNING" "\<not> pc_consumeOrderly pc" "mok (f_consumerTable (cl_factory (pc_client pc)))"
    and "push_shutdown fuel env pc = Some (Inr (pc', out))"
  shows "pc_serviceState pc' = SHUTDOWN_ALREADY \<and> pu_executor (pc_impl pc') = [] \<and> pu_destroyed (pc_impl pc') \<and>
    tt_closed (pu_scheduled (pc_impl pc')) \<and> dc_consumerGroup (pc_config pc) \<notin> set (groups (pc_client pc')) \<and>
    push_shutdown fuel' env' pc' = Some (Inr (pc', []))"
proof -
  let ?pu = "(pc_impl pc)\<lparr>pu_executor := [], pu_destroyed := True, pu_scheduled := timer_Close (pu_scheduled (pc_impl pc))\<rparr>"
  let ?f = "\<lambda>pc1. factory_shutdown (unregisterConsumer (dc_consumerGroup (pc_config pc1)) (cl_factory (pc_client pc1)))"
  obtain pc1 where p: "persistConsumerOffset env (pc\<lparr>pc_impl := ?pu\<rparr>) = Inr (pc1, out)"
    and e: "pc' = (with_client ((pc_client pc1)\<lparr>cl_factory := ?f pc1\<rparr>) pc1)\<lparr>pc_serviceState := SHUTDOWN_ALREADY\<rparr>"
    using assms by (auto simp: push_shutdown_def service_shutdown_def bind_r_Inr Let_def)
  note f = persistConsumerOffset_frame [OF p]
  have w: "pu_executor (pc_impl (with_client c pc)) = pu_executor (pc_impl pc)" "pu_destroyed (pc_impl (with_client c pc)) = pu_destroyed (pc_impl pc)"
    "pu_scheduled (pc_impl (with_client c pc)) = pu_scheduled (pc_impl pc)" for c pc by (simp_all add: with_client_def with_consumer_def)
  have "mok (f_consumerTable (cl_factory (pc_client pc1)))" using assms(3) f by (simp add: mok_def)
  then have "dc_consumerGroup (pc_config pc) \<notin> set (mkeys (f_consumerTable (?f pc1)))"
    using f by (auto simp: factory_shutdown_def unregisterConsumer_def set_mkeys mget_mdel split: ServiceState.splits)
  with f show ?thesis by (simp add: e w timer_Close_def push_shutdown_def)
qed

theorem push_shutdown_outcome_witness:
  "\<exists>pc' out. push_shutdown 1 silent_env sample_consumer_impl = Some (Inr (pc', out)) \<and> pc_serviceState pc' = SHUTDOWN_ALREADY"
proof -
  let ?pc = sample_consumer_impl
  have h: "pc_serviceState ?pc = RUNNING" "\<not> pc_consumeOrderly ?pc" "mok (f_consumerTable (cl_factory (pc_client ?pc)))"
    by (simp_all add: sample_consumer_impl_def sample_push_def sample_consumer_def sample_client_def sample_factory_def)
  have "\<exists>st'. persistAll silent_env l (RemoteBrokerOffsetStore_new ''cg'') c = Inr (st', c, [])" for l c
    by (simp add: persistAll_def RemoteBrokerOffsetStore_new_def Let_def)
  moreover have "co_store (pu_consumer (pc_impl ?pc)) = Remote (RemoteBrokerOffsetStore_new ''cg'')"
    by (simp add: sample_consumer_impl_def sample_push_def)
  ultimately have "\<exists>x. persistConsumerOffset silent_env (?pc\<lparr>pc_impl := pu\<rparr>) = Inr x" if "pu_consumer pu = pu_consumer (pc_impl ?pc)" for pu
    using h(1) that by (auto simp: persistConsumerOffset_def split: sum.splits error.splits prod.splits) (metis sum.distinct(1))
  from this [of "(pc_impl ?pc)\<lparr>pu_executor := [], pu_destroyed := True, pu_scheduled := timer_Close (pu_scheduled (pc_impl ?pc))\<rparr>"]
  obtain pc' out where p: "push_shutdown 1 silent_env ?pc = Some (Inr (pc', out))"
    using h(1,2) by (auto simp: push_shutdown_def service_shutdown_def Let_def)
  from push_shutdown_outcome [OF h p] p show ?thesis by blast
qed

text \<open>
  An ordered consumer that owns at least one queue cannot be shut down: the loop that
  collects the queues to unlock never ends, and no number of rounds is enough.
\<close>

theorem ordered_shutdown_never_ends:
  assumes "pc_serviceState pc = RUNNING" "pc_consumeOrderly pc" "rb_processQueueTable (pc_rb pc) \<noteq> []"
  shows "push_shutdown fuel env pc = None"
  using assms build_loop_stuck [of "rb_processQueueTable (pc_rb pc)" fuel]
  by (simp add: push_shutdown_def service_shutdown_def unlockAll_def buildProcessQueueTableByBrokerName_def)

theorem ordered_shutdown_never_ends_witness:
  "push_shutdown 1000000 silent_env (sample_consumer_impl\<lparr>pc_consumeOrderly := True\<rparr>) = None"
  by (rule ordered_shutdown_never_ends) (simp_all add: sample_consumer_impl_def sample_push_def sample_rebalance_def)

end
