(* ===== verification/PullConsumer.thy ===== *)
theory PullConsumer
  imports Push
begin

text \<open>
  \<^verbatim>\<open>src/src/consumer/DefaultMQPullConsumerImpl.cpp\<close>: the pull consumer. The application pulls queues of
  its choice, synchronously or with a callback, over the wrapper of the push consumer. Its hooks for
  the factory (subscriptions, queues of a topic, offsets) are not written yet, which shows in what
  it never does.
\<close>

section \<open>State\<close>

record DefaultMQPullConsumer =
  dl_consumerGroup :: string
  dl_brokerSuspendMaxTimeMillis :: int
  dl_consumerTimeoutMillisWhenSuspend :: int
  dl_consumerPullTimeoutMillis :: int
  dl_messageModel :: MessageModel
  dl_listenerPresent :: bool
  dl_offsetStore :: "OffsetStore option"
  dl_registerTopics :: "string list"
  dl_strategyPresent :: bool

definition DefaultMQPullConsumer_new :: "string \<Rightarrow> DefaultMQPullConsumer" where
  "DefaultMQPullConsumer_new consumerGroup =
     \<lparr>dl_consumerGroup = consumerGroup, dl_brokerSuspendMaxTimeMillis = 1000 * 20,
      dl_consumerTimeoutMillisWhenSuspend = 1000 * 30, dl_consumerPullTimeoutMillis = 1000 * 10,
      dl_messageModel = BROADCASTING, dl_listenerPresent = False, dl_offsetStore = None, dl_registerTopics = [],
      dl_strategyPresent = True\<rparr>"

definition registerMessageQueueListener :: "string \<Rightarrow> bool \<Rightarrow> DefaultMQPullConsumer \<Rightarrow> DefaultMQPullConsumer" where
  "registerMessageQueueListener topic present cfg =
     (let cfg1 = cfg\<lparr>dl_registerTopics := sput topic (dl_registerTopics cfg)\<rparr>
      in if present then cfg1\<lparr>dl_listenerPresent := True\<rparr> else cfg1)"

text \<open>Until the start there is no factory, wrapper or offset store; \<open>pl_factoryPresent\<close> says so.\<close>

record PullConsumerImpl =
  pl_config :: DefaultMQPullConsumer
  pl_serviceState :: ServiceState
  pl_factoryPresent :: bool
  pl_wrapper :: PullAPIWrapper
  pl_consumer :: Consumer

abbreviation pl_rb :: "PullConsumerImpl \<Rightarrow> RebalanceImpl" where
  "pl_rb pl \<equiv> co_rebalance (pl_consumer pl)"

abbreviation pl_client :: "PullConsumerImpl \<Rightarrow> Client" where
  "pl_client pl \<equiv> co_client (pl_consumer pl)"

definition pl_with :: "(Consumer \<Rightarrow> Consumer) \<Rightarrow> PullConsumerImpl \<Rightarrow> PullConsumerImpl" where
  "pl_with g pl = pl\<lparr>pl_consumer := g (pl_consumer pl)\<rparr>"

definition pl_with_client :: "Client \<Rightarrow> PullConsumerImpl \<Rightarrow> PullConsumerImpl" where
  "pl_with_client c = pl_with (\<lambda>co. co\<lparr>co_client := c\<rparr>)"

definition pl_subscribe :: "string \<Rightarrow> SubscriptionData \<Rightarrow> PullConsumerImpl \<Rightarrow> PullConsumerImpl" where
  "pl_subscribe topic sd =
     pl_with (\<lambda>co. co\<lparr>co_rebalance := (co_rebalance co)\<lparr>rb_subscriptionInner := mput topic sd (rb_subscriptionInner (co_rebalance co))\<rparr>\<rparr>)"

text \<open>The constructor; \<open>nothing\<close> stands for the store and the client the object does not have yet.\<close>

definition DefaultMQPullConsumerImpl_new :: "Consumer \<Rightarrow> DefaultMQPullConsumer \<Rightarrow> PullConsumerImpl" where
  "DefaultMQPullConsumerImpl_new nothing cfg =
     \<lparr>pl_config = cfg, pl_serviceState = CREATE_JUST, pl_factoryPresent = False, pl_wrapper = PullAPIWrapper_new [],
      pl_consumer = nothing\<lparr>co_rebalance := \<lparr>rb_consumerGroup = [], rb_messageModel = BROADCASTING, rb_subscriptionInner = [],
        rb_topicSubscribeInfoTable = [], rb_processQueueTable = [], rb_heap = []\<rparr>\<rparr>\<rparr>"

section \<open>Life cycle\<close>

definition pull_makeSureStateOK :: "PullConsumerImpl \<Rightarrow> unit result" where
  "pull_makeSureStateOK pl =
     (if pl_serviceState pl \<noteq> RUNNING then Inl (MQClientException ''The consumer service state not OK, '' (- 1)) else Inr ())"

definition pull_checkConfig :: "DefaultMQPullConsumer \<Rightarrow> unit result" where
  "pull_checkConfig cfg =
     bind_r (checkGroup (dl_consumerGroup cfg)) (\<lambda>_.
     if dl_consumerGroup cfg = DEFAULT_CONSUMER_GROUP
     then Inl (MQClientException (''consumerGroup can not equal '' @ DEFAULT_CONSUMER_GROUP @ '', please specify another one.'') (- 1))
     else if \<not> dl_strategyPresent cfg then Inl (MQClientException ''allocateMessageQueueStrategy is null'' (- 1))
     else Inr ())"

fun pull_copySubscription :: "int \<Rightarrow> string list \<Rightarrow> PullConsumerImpl \<Rightarrow> PullConsumerImpl \<times> unit result" where
  "pull_copySubscription now [] pl = (pl, Inr ())"
| "pull_copySubscription now (topic # topics) pl =
     (case buildSubscriptionData now topic SUB_ALL of
        Inl x \<Rightarrow> (pl, subscription_exception)
      | Inr sd \<Rightarrow> pull_copySubscription now topics (pl_subscribe topic sd pl))"

text \<open>What the factory sees: a pull consumer answers the hooks with constants.\<close>

definition pull_inner :: "PullConsumerImpl \<Rightarrow> ConsumerInner" where
  "pull_inner pl = \<lparr>ci_push = False, ci_groupName = dl_consumerGroup (pl_config pl), ci_messageModel = dl_messageModel (pl_config pl),
     ci_consumeFromWhere = CONSUME_FROM_LAST_OFFSET, ci_subscriptionInner = rb_subscriptionInner (pl_rb pl),
     ci_topicSubscribeInfoTable = []\<rparr>"

definition pull_attach :: "Client \<Rightarrow> PullConsumerImpl \<Rightarrow> PullConsumerImpl" where
  "pull_attach c pl =
     (let cfg = pl_config pl;
          store = (case dl_offsetStore cfg of
                     Some st \<Rightarrow> st
                   | None \<Rightarrow> (case dl_messageModel cfg of
                                BROADCASTING \<Rightarrow> LocalFile (LocalFileOffsetStore_new (cl_factory c) (dl_consumerGroup cfg))
                              | CLUSTERING \<Rightarrow> Remote (RemoteBrokerOffsetStore_new (dl_consumerGroup cfg))))
      in (pl_with (\<lambda>co. co\<lparr>co_client := c, co_store := store,
            co_rebalance := (co_rebalance co)\<lparr>rb_consumerGroup := dl_consumerGroup cfg, rb_messageModel := dl_messageModel cfg\<rparr>\<rparr>) pl)
           \<lparr>pl_factoryPresent := True, pl_wrapper := PullAPIWrapper_new (dl_consumerGroup cfg)\<rparr>)"

definition pull_start :: "int \<Rightarrow> Client \<Rightarrow> bool \<Rightarrow> PullConsumerImpl \<Rightarrow> PullConsumerImpl \<times> unit result" where
  "pull_start now c started pl =
     (case pl_serviceState pl of
        CREATE_JUST \<Rightarrow>
          (let pl0 = pl\<lparr>pl_serviceState := START_FAILED\<rparr>; grp = dl_consumerGroup (pl_config pl) in
           case pull_checkConfig (pl_config pl) of
             Inl x \<Rightarrow> (pl0, Inl x)
           | Inr _ \<Rightarrow>
               (case pull_copySubscription now (dl_registerTopics (pl_config pl)) pl0 of
                  (pl1, Inl x) \<Rightarrow> (pl1, Inl x)
                | (pl1, Inr _) \<Rightarrow>
                    (let pl2 = pull_attach c pl1;
                         (f', registerOK) = registerConsumer grp (Some (pull_inner pl2)) (cl_factory c);
                         pl3 = pl_with_client (c\<lparr>cl_factory := f'\<rparr>) pl2
                     in if \<not> registerOK then
                          (pl3\<lparr>pl_serviceState := CREATE_JUST\<rparr>,
                           Inl (MQClientException (''The consumer group['' @ grp @
                             ''] has been created before, specify another name please.'') (- 1)))
                        else
                          (case factory_start started f' of
                             (f2, Inl x) \<Rightarrow> (pl_with_client (c\<lparr>cl_factory := f2\<rparr>) pl3, Inl x)
                           | (f2, Inr _) \<Rightarrow> ((pl_with_client (c\<lparr>cl_factory := f2\<rparr>) pl3)\<lparr>pl_serviceState := RUNNING\<rparr>, Inr ())))))
      | _ \<Rightarrow> (pl, Inl (MQClientException ''The PullConsumer service state not OK, maybe started once, '' (- 1))))"

text \<open>\<^verbatim>\<open>persistConsumerOffset\<close> does nothing.\<close>

definition pull_persistConsumerOffset :: "PullConsumerImpl \<Rightarrow> PullConsumerImpl" where
  "pull_persistConsumerOffset pl = pl"

definition pull_shutdown :: "PullConsumerImpl \<Rightarrow> PullConsumerImpl" where
  "pull_shutdown pl =
     (case pl_serviceState pl of
        RUNNING \<Rightarrow>
          (let pl1 = pull_persistConsumerOffset pl; c = pl_client pl1;
               f' = factory_shutdown (unregisterConsumer (dl_consumerGroup (pl_config pl1)) (cl_factory c))
           in (pl_with_client (c\<lparr>cl_factory := f'\<rparr>) pl1)\<lparr>pl_serviceState := SHUTDOWN_ALREADY\<rparr>)
      | _ \<Rightarrow> pl)"

section \<open>Pulling\<close>

definition subscriptionAutomatically :: "int \<Rightarrow> string \<Rightarrow> PullConsumerImpl \<Rightarrow> PullConsumerImpl" where
  "subscriptionAutomatically now topic pl =
     (case mget (rb_subscriptionInner (pl_rb pl)) topic of
        Some sd \<Rightarrow> pl
      | None \<Rightarrow> (case buildSubscriptionData now topic SUB_ALL of Inl x \<Rightarrow> pl | Inr sd \<Rightarrow> pl_subscribe topic sd pl))"

definition pull_guard :: "int \<Rightarrow> int \<Rightarrow> PullConsumerImpl \<Rightarrow> unit result" where
  "pull_guard offset maxNums pl =
     bind_r (pull_makeSureStateOK pl) (\<lambda>_.
     if offset < 0 then Inl (MQClientException ''offset < 0'' (- 1))
     else if maxNums \<le> 0 then Inl (MQClientException ''maxNums <= 0'' (- 1))
     else Inr ())"

definition parse_subscription :: "int \<Rightarrow> string \<Rightarrow> string \<Rightarrow> SubscriptionData result" where
  "parse_subscription now topic subExpression =
     (case buildSubscriptionData now topic subExpression of
        Inl x \<Rightarrow> Inl (MQClientException ''parse subscription error'' (- 1))
      | Inr sd \<Rightarrow> Inr sd)"

text \<open>
  The call of the wrapper both pulls share. The time a request may take is a matter of the network and
  has no argument here.
\<close>

definition pull_kernel ::
  "ClientEnv \<Rightarrow> MessageQueue \<Rightarrow> SubscriptionData \<Rightarrow> int \<Rightarrow> int \<Rightarrow> bool \<Rightarrow> CommunicationMode \<Rightarrow> PullConsumerImpl \<Rightarrow>
   PullConsumerImpl \<times> (string \<times> RemotingCommand) list \<times> PullResult option result" where
  "pull_kernel env mq sd offset maxNums block mode pl =
     (let (c', out, res) = pullKernelImpl env mq (sd_subString sd) 0 offset maxNums (buildSysFlag False block True) 0
            (dl_brokerSuspendMaxTimeMillis (pl_config pl)) mode (pl_wrapper pl) (pl_client pl)
      in (pl_with_client c' pl, out, res))"

text \<open>\<^const>\<open>None\<close> says that a loop over the answer has not ended within the fuel.\<close>

definition pullSyncImpl ::
  "nat \<Rightarrow> ClientEnv \<Rightarrow> (string \<Rightarrow> string option) \<Rightarrow> int \<Rightarrow> MessageQueue \<Rightarrow> string \<Rightarrow> int \<Rightarrow> int \<Rightarrow> bool \<Rightarrow> PullConsumerImpl \<Rightarrow>
   (PullConsumerImpl \<times> (string \<times> RemotingCommand) list \<times> (MessageQueue \<times> PullResult) result) option" where
  "pullSyncImpl fuel env decompress now mq subExpression offset maxNums block pl =
     (case pull_guard offset maxNums pl of
        Inl x \<Rightarrow> Some (pl, [], Inl x)
      | Inr _ \<Rightarrow>
          (let pl1 = subscriptionAutomatically now (getTopic mq) pl in
           case parse_subscription now (getTopic mq) subExpression of
             Inl x \<Rightarrow> Some (pl1, [], Inl x)
           | Inr sd \<Rightarrow>
               (let (pl2, out, res) = pull_kernel env mq sd offset maxNums block SYNC pl1 in
                case res of
                  Inl x \<Rightarrow> Some (pl2, out, Inl x)
                | Inr None \<Rightarrow> Some (pl2, out, Inl Undefined)
                | Inr (Some pullResult) \<Rightarrow>
                    (case processPullResult fuel (en_endian env) decompress (ap_projectGroupPrefix (cl_api (pl_client pl2)))
                            mq pullResult sd (pl_wrapper pl2) of
                       None \<Rightarrow> None
                     | Some (Inl x) \<Rightarrow> Some (pl2, out, Inl x)
                     | Some (Inr (pw', mq', sd', pr')) \<Rightarrow> Some (pl2\<lparr>pl_wrapper := pw'\<rparr>, out, Inr (mq', pr'))))))"

text \<open>An asynchronous pull returns the subscription its callback keeps.\<close>

definition pullAsyncImpl ::
  "ClientEnv \<Rightarrow> int \<Rightarrow> MessageQueue \<Rightarrow> string \<Rightarrow> int \<Rightarrow> int \<Rightarrow> bool \<Rightarrow> bool \<Rightarrow> PullConsumerImpl \<Rightarrow>
   PullConsumerImpl \<times> (string \<times> RemotingCommand) list \<times> SubscriptionData result" where
  "pullAsyncImpl env now mq subExpression offset maxNums callbackPresent block pl =
     (case pull_guard offset maxNums pl of
        Inl x \<Rightarrow> (pl, [], Inl x)
      | Inr _ \<Rightarrow>
          if \<not> callbackPresent then (pl, [], Inl (MQClientException ''pullCallback is null'' (- 1)))
          else
            (let pl1 = subscriptionAutomatically now (getTopic mq) pl in
             case parse_subscription now (getTopic mq) subExpression of
               Inl x \<Rightarrow> (pl1, [], Inl x)
             | Inr sd \<Rightarrow>
                 (let (pl2, out, res) = pull_kernel env mq sd offset maxNums block ASYNC pl1 in
                  case res of
                    Inl (MQBrokerException m n) \<Rightarrow> (pl2, out, Inl (MQClientException ''pullAsync unknow exception'' (- 1)))
                  | Inl x \<Rightarrow> (pl2, out, Inl x)
                  | Inr _ \<Rightarrow> (pl2, out, Inr sd))))"

definition pull_onSuccess ::
  "nat \<Rightarrow> ClientEnv \<Rightarrow> (string \<Rightarrow> string option) \<Rightarrow> MessageQueue \<Rightarrow> SubscriptionData \<Rightarrow> PullResult \<Rightarrow> PullConsumerImpl \<Rightarrow>
   (PullConsumerImpl \<times> PullResult) result option" where
  "pull_onSuccess fuel env decompress mq sd pullResult pl =
     map_option (\<lambda>r. bind_r r (\<lambda>(pw', mq', sd', pr'). Inr (pl\<lparr>pl_wrapper := pw'\<rparr>, pr')))
       (processPullResult fuel (en_endian env) decompress (ap_projectGroupPrefix (cl_api (pl_client pl))) mq pullResult sd (pl_wrapper pl))"

section \<open>Other operations\<close>

definition pull_updateConsumeOffset :: "MessageQueue \<Rightarrow> int \<Rightarrow> PullConsumerImpl \<Rightarrow> PullConsumerImpl \<times> unit result" where
  "pull_updateConsumeOffset mq offset pl =
     (case pull_makeSureStateOK pl of
        Inl x \<Rightarrow> (pl, Inl x)
      | Inr _ \<Rightarrow> (pl_with (\<lambda>co. co\<lparr>co_store := store_updateOffset mq offset False (co_store co)\<rparr>) pl, Inr ()))"

definition pull_fetchConsumeOffset :: "MessageQueue \<Rightarrow> bool \<Rightarrow> PullConsumerImpl \<Rightarrow> int result" where
  "pull_fetchConsumeOffset mq fromStore pl = bind_r (pull_makeSureStateOK pl) (\<lambda>_. Inr 0)"

definition pull_fetchMessageQueuesInBalance :: "string \<Rightarrow> PullConsumerImpl \<Rightarrow> MessageQueue list result" where
  "pull_fetchMessageQueuesInBalance topic pl = bind_r (pull_makeSureStateOK pl) (\<lambda>_. Inr [])"

definition pull_doRebalance :: "strategy_fun \<Rightarrow> ClientEnv \<Rightarrow> int \<Rightarrow> PullConsumerImpl \<Rightarrow> PullConsumerImpl result" where
  "pull_doRebalance allocate env now pl =
     bind_r (doRebalance PullConsumer allocate env now (pl_consumer pl)) (\<lambda>(co, reqs). Inr (pl\<lparr>pl_consumer := co\<rparr>))"

text \<open>Sending back does not check the state: before the start there is no factory to ask.\<close>

definition pull_sendMessageBack :: "SendBackEnv \<Rightarrow> MessageExt \<Rightarrow> int \<Rightarrow> PullConsumerImpl \<Rightarrow> PullConsumerImpl \<times> MessageExt \<times> unit result" where
  "pull_sendMessageBack sb msg delayLevel pl =
     (if \<not> pl_factoryPresent pl then (pl, msg, Inl Undefined)
      else
        (let c = pl_client pl; grp = dl_consumerGroup (pl_config pl);
             (api', msg', r) = consumerSendMessageBack (en_endian (sb_env sb)) (en_net (sb_env sb)) msg grp delayLevel (cl_api c);
             c1 = c\<lparr>cl_api := api'\<rparr>
         in case r of
              Inr _ \<Rightarrow> (pl_with_client c1 pl, msg', Inr ())
            | Inl Undefined \<Rightarrow> (pl_with_client c1 pl, msg', Inl Undefined)
            | Inl _ \<Rightarrow>
                (case retry_message grp msg' of
                   Inl x \<Rightarrow> (pl_with_client c1 pl, msg', Inl x)
                 | Inr newMsg \<Rightarrow>
                     (case sendDefaultImpl (sb_env sb) (sb_deflate sb) (sb_junk sb) (sb_clock sb) (sb_producer sb) newMsg SYNC c1 of
                        ((c2, out, newMsg', res), tried) \<Rightarrow>
                          (pl_with_client c2 pl, msg', (case res of Inl x \<Rightarrow> Inl x | Inr _ \<Rightarrow> Inr ()))))))"

section \<open>Administrative calls\<close>

definition pull_admin :: "(Client \<Rightarrow> (Client \<times> 'a result) result) \<Rightarrow> PullConsumerImpl \<Rightarrow> (PullConsumerImpl \<times> 'a result) result" where
  "pull_admin call pl =
     (case pull_makeSureStateOK pl of
        Inl x \<Rightarrow> Inr (pl, Inl x)
      | Inr _ \<Rightarrow> bind_r (call (pl_client pl)) (\<lambda>(c', r). Inr (pl_with_client c' pl, r)))"

definition pull_createTopic :: "ClientEnv \<Rightarrow> string \<Rightarrow> string \<Rightarrow> int \<Rightarrow> PullConsumerImpl \<Rightarrow> (PullConsumerImpl \<times> unit result) result" where
  "pull_createTopic env key newTopic queueNum =
     pull_admin (\<lambda>c. let ((c', sent), r) = admin_createTopic env key newTopic queueNum c in Inr (c', r))"

definition pull_fetchPublishMessageQueues :: "ClientEnv \<Rightarrow> string \<Rightarrow> PullConsumerImpl \<Rightarrow> (PullConsumerImpl \<times> MessageQueue list result) result" where
  "pull_fetchPublishMessageQueues env topic = pull_admin (\<lambda>c. Inr (admin_fetchPublishMessageQueues env topic c))"

definition pull_fetchSubscribeMessageQueues :: "ClientEnv \<Rightarrow> string \<Rightarrow> PullConsumerImpl \<Rightarrow> (PullConsumerImpl \<times> MessageQueue list result) result" where
  "pull_fetchSubscribeMessageQueues env topic = pull_admin (\<lambda>c. Inr (admin_fetchSubscribeMessageQueues env topic c))"

definition pull_earliestMsgStoreTime :: "ClientEnv \<Rightarrow> MessageQueue \<Rightarrow> PullConsumerImpl \<Rightarrow> (PullConsumerImpl \<times> int result) result" where
  "pull_earliestMsgStoreTime env mq = pull_admin (admin_earliestMsgStoreTime env mq)"

definition pull_maxOffset :: "ClientEnv \<Rightarrow> MessageQueue \<Rightarrow> PullConsumerImpl \<Rightarrow> (PullConsumerImpl \<times> int result) result" where
  "pull_maxOffset env mq = pull_admin (admin_maxOffset env mq)"

definition pull_minOffset :: "ClientEnv \<Rightarrow> MessageQueue \<Rightarrow> PullConsumerImpl \<Rightarrow> (PullConsumerImpl \<times> int result) result" where
  "pull_minOffset env mq = pull_admin (admin_minOffset env mq)"

definition pull_searchOffset :: "ClientEnv \<Rightarrow> MessageQueue \<Rightarrow> int \<Rightarrow> PullConsumerImpl \<Rightarrow> (PullConsumerImpl \<times> int result) result" where
  "pull_searchOffset env mq timestamp = pull_admin (admin_searchOffset env mq timestamp)"

definition pull_queryMessage :: "string \<Rightarrow> string \<Rightarrow> int \<Rightarrow> int \<Rightarrow> int \<Rightarrow> PullConsumerImpl \<Rightarrow> (PullConsumerImpl \<times> QueryResult result) result" where
  "pull_queryMessage topic key maxNum begin_time end_time =
     pull_admin (\<lambda>c. Inr (c, Inr (admin_queryMessage topic key maxNum begin_time end_time)))"

definition pull_viewMessage :: "ClientEnv \<Rightarrow> string \<Rightarrow> PullConsumerImpl \<Rightarrow> (PullConsumerImpl \<times> MessageExt result) result" where
  "pull_viewMessage env msgId = pull_admin (\<lambda>c. Inr (c, admin_viewMessage (en_endian env) msgId))"

section \<open>Pulling: lemmas\<close>

lemma pl_with_fields [simp]:
  "pl_config (pl_with g pl) = pl_config pl" "pl_serviceState (pl_with g pl) = pl_serviceState pl"
  "pl_wrapper (pl_with g pl) = pl_wrapper pl" "pl_consumer (pl_with g pl) = g (pl_consumer pl)"
  "pl_factoryPresent (pl_with g pl) = pl_factoryPresent pl"
  by (simp_all add: pl_with_def)

lemma pl_with_client_fields [simp]:
  "pl_config (pl_with_client c pl) = pl_config pl" "pl_serviceState (pl_with_client c pl) = pl_serviceState pl"
  "pl_wrapper (pl_with_client c pl) = pl_wrapper pl" "pl_client (pl_with_client c pl) = c" "pl_rb (pl_with_client c pl) = pl_rb pl"
  by (simp_all add: pl_with_client_def)

lemma pl_subscribe_fields [simp]:
  "pl_config (pl_subscribe t sd pl) = pl_config pl" "pl_serviceState (pl_subscribe t sd pl) = pl_serviceState pl"
  "pl_wrapper (pl_subscribe t sd pl) = pl_wrapper pl" "pl_client (pl_subscribe t sd pl) = pl_client pl"
  "rb_processQueueTable (pl_rb (pl_subscribe t sd pl)) = rb_processQueueTable (pl_rb pl)"
  "rb_topicSubscribeInfoTable (pl_rb (pl_subscribe t sd pl)) = rb_topicSubscribeInfoTable (pl_rb pl)"
  by (simp_all add: pl_subscribe_def)

lemma subscriptionAutomatically_fields [simp]:
  "pl_config (subscriptionAutomatically now t pl) = pl_config pl"
  "pl_serviceState (subscriptionAutomatically now t pl) = pl_serviceState pl"
  "pl_wrapper (subscriptionAutomatically now t pl) = pl_wrapper pl"
  "pl_client (subscriptionAutomatically now t pl) = pl_client pl"
  "rb_processQueueTable (pl_rb (subscriptionAutomatically now t pl)) = rb_processQueueTable (pl_rb pl)"
  "rb_topicSubscribeInfoTable (pl_rb (subscriptionAutomatically now t pl)) = rb_topicSubscribeInfoTable (pl_rb pl)"
  by (simp_all add: subscriptionAutomatically_def split: option.split sum.split)

text \<open>The consumer runs, the arguments are accepted and the broker is known.\<close>

definition pull_ready :: "int \<Rightarrow> MessageQueue \<Rightarrow> string \<Rightarrow> int \<Rightarrow> int \<Rightarrow> SubscriptionData \<Rightarrow> string \<Rightarrow> bool \<Rightarrow> PullConsumerImpl \<Rightarrow> bool" where
  "pull_ready now mq subExpression offset maxNums sd addr slave pl \<longleftrightarrow>
     pl_serviceState pl = RUNNING \<and> 0 \<le> offset \<and> 0 < maxNums \<and> buildSubscriptionData now (getTopic mq) subExpression = Inr sd \<and>
     findBrokerAddressInSubscribe (getBrokerName mq) (recalculatePullFromWhichNode mq (pl_wrapper pl)) False (cl_factory (pl_client pl)) =
       Inr \<lparr>fb_brokerAddr = addr, fb_slave = slave\<rparr> \<and> addr \<noteq> [] \<and> isBlank (ap_projectGroupPrefix (cl_api (pl_client pl)))"

definition pull_header :: "MessageQueue \<Rightarrow> SubscriptionData \<Rightarrow> int \<Rightarrow> int \<Rightarrow> bool \<Rightarrow> bool \<Rightarrow> PullConsumerImpl \<Rightarrow> CommandCustomHeader" where
  "pull_header mq sd offset maxNums block slave pl =
     PullMessageRequestHeader (pw_consumerGroup (pl_wrapper pl)) (getTopic mq) (getQueueId mq) offset maxNums
       (let flag = buildSysFlag False block True in if slave then clearCommitOffsetFlag flag else flag) 0
       (dl_brokerSuspendMaxTimeMillis (pl_config pl)) (sd_subString sd) 0"

lemma pull_kernel_sync:
  assumes "pull_ready now mq subExpression offset maxNums sd addr slave pl"
  shows "\<exists>pl2 cmd. pull_kernel env mq sd offset maxNums block SYNC (subscriptionAutomatically now (getTopic mq) pl) =
      (pl2, [(addr, cmd)], bind_r (processPullResponse (en_net env addr cmd)) (\<lambda>p. Inr (Some p))) \<and>
    rc_code cmd = PULL_MESSAGE_VALUE \<and> rc_customHeader cmd = Some (pull_header mq sd offset maxNums block slave pl) \<and>
    pl_wrapper pl2 = pl_wrapper pl \<and> ap_projectGroupPrefix (cl_api (pl_client pl2)) = ap_projectGroupPrefix (cl_api (pl_client pl))"
proof -
  let ?api = "cl_api (pl_client pl)" and ?h = "pull_header mq sd offset maxNums block slave pl"
  obtain cmd api' where n: "new_request (en_endian env) PULL_MESSAGE_VALUE (Some ?h) None ?api = (cmd, api')"
    by (cases "new_request (en_endian env) PULL_MESSAGE_VALUE (Some ?h) None ?api")
  note f = new_request_fields [OF n]
  have p: "pullMessage (en_endian env) (en_net env) (en_sends env) addr ?h SYNC ?api =
      (api', [(addr, cmd)], bind_r (processPullResponse (en_net env addr cmd)) (\<lambda>p. Inr (Some p)))"
    using assms n by (simp add: pullMessage_def with_prefix_def pull_ready_def pull_header_def)
  have "pullKernelImpl env mq (sd_subString sd) 0 offset maxNums (buildSysFlag False block True) 0
      (dl_brokerSuspendMaxTimeMillis (pl_config pl)) SYNC (pl_wrapper pl) (pl_client pl) =
      ((pl_client pl)\<lparr>cl_api := api'\<rparr>, [(addr, cmd)], bind_r (processPullResponse (en_net env addr cmd)) (\<lambda>p. Inr (Some p)))"
    using assms p by (simp add: pullKernelImpl_def find_or_refresh_def pull_ready_def pull_header_def Let_def split: if_splits)
  then show ?thesis using f by (simp add: pull_kernel_def)
qed

lemma pull_guard_ready: "pull_ready now mq subExpression offset maxNums sd addr slave pl \<Longrightarrow> pull_guard offset maxNums pl = Inr ()"
  by (simp add: pull_ready_def pull_guard_def pull_makeSureStateOK_def)

lemma parse_ready: "pull_ready now mq subExpression offset maxNums sd addr slave pl \<Longrightarrow> parse_subscription now (getTopic mq) subExpression = Inr sd"
  by (simp add: pull_ready_def parse_subscription_def)

section \<open>Properties\<close>

definition broker_finds :: "network \<Rightarrow> string \<Rightarrow> wire list \<Rightarrow> int \<Rightarrow> int \<Rightarrow> int \<Rightarrow> int \<Rightarrow> bool" where
  "broker_finds net addr ws suggest nextBegin mn mx \<longleftrightarrow>
     (\<forall>cmd. \<exists>resp. net addr cmd = Some resp \<and> rc_code resp = SUCCESS_VALUE \<and>
        rc_customHeader resp = Some (PullMessageResponseHeader suggest nextBegin mn mx) \<and>
        rc_body resp = Some (concat (map encode_msg ws)) \<and> rc_bodyLen resp = int (length (concat (map encode_msg ws))))"

text \<open>
  Property C31. A synchronous pull. With a known broker one request is sent that names the group, the
  queue, the offset, the number of messages and the tags asked for; from the bytes the broker
  returns the application gets exactly the messages whose tag it asked for, in their order, and
  the offset to go on from, and the next pull goes to the node the broker suggests.
\<close>

theorem pull_returns_batch:
  assumes "pull_ready now mq subExpression offset maxNums sd addr slave pl" "broker_finds (en_net env) addr ws suggest nextBegin mn mx"
    and "batch_ok decompress ws" "length ws < fuel"
    and "sd_tagsSet sd = [] \<or> (\<forall>w \<in> set ws. getTags (wire_msg (en_endian env) decompress w) \<noteq> [])"
  shows "\<exists>pl' cmd pr. pullSyncImpl fuel env decompress now mq subExpression offset maxNums block pl = Some (pl', [(addr, cmd)], Inr (mq, pr)) \<and>
    rc_code cmd = PULL_MESSAGE_VALUE \<and> rc_customHeader cmd = Some (pull_header mq sd offset maxNums block slave pl) \<and>
    px_pullStatus pr = FOUND \<and> px_nextBeginOffset pr = nextBegin \<and>
    px_msgFoundList pr = map (put_offsets (found ws suggest nextBegin mn mx))
      (filter (\<lambda>m. sd_tagsSet sd = [] \<or> getTags m \<in> set (sd_tagsSet sd)) (map (wire_msg (en_endian env) decompress) ws)) \<and>
    recalculatePullFromWhichNode mq (pl_wrapper pl') = suggest"
proof -
  obtain pl2 cmd where k: "pull_kernel env mq sd offset maxNums block SYNC (subscriptionAutomatically now (getTopic mq) pl) =
      (pl2, [(addr, cmd)], bind_r (processPullResponse (en_net env addr cmd)) (\<lambda>p. Inr (Some p)))"
    "rc_code cmd = PULL_MESSAGE_VALUE" "rc_customHeader cmd = Some (pull_header mq sd offset maxNums block slave pl)"
    "pl_wrapper pl2 = pl_wrapper pl" "ap_projectGroupPrefix (cl_api (pl_client pl2)) = ap_projectGroupPrefix (cl_api (pl_client pl))"
    using pull_kernel_sync [OF assms(1)] by blast
  obtain resp where "en_net env addr cmd = Some resp" "rc_code resp = SUCCESS_VALUE"
    "rc_customHeader resp = Some (PullMessageResponseHeader suggest nextBegin mn mx)"
    "rc_body resp = Some (concat (map encode_msg ws))" "rc_bodyLen resp = int (length (concat (map encode_msg ws)))"
    using assms(2) unfolding broker_finds_def by blast
  then have r: "processPullResponse (en_net env addr cmd) = Inr (found ws suggest nextBegin mn mx)"
    by (simp add: processPullResponse_def found_def)
  have b: "isBlank (ap_projectGroupPrefix (cl_api (pl_client pl2)))" using assms(1) k(5) by (simp add: pull_ready_def)
  obtain pw' where p: "processPullResult fuel (en_endian env) decompress (ap_projectGroupPrefix (cl_api (pl_client pl2))) mq
        (found ws suggest nextBegin mn mx) sd (pl_wrapper pl2) =
      Some (Inr (pw', mq, sd, (found ws suggest nextBegin mn mx)
        \<lparr>px_msgFoundList := map (put_offsets (found ws suggest nextBegin mn mx))
            (filter (\<lambda>m. sd_tagsSet sd = [] \<or> getTags m \<in> set (sd_tagsSet sd)) (map (wire_msg (en_endian env) decompress) ws)),
         px_messageBinary := None, px_messageBinaryLen := 0\<rparr>))" "recalculatePullFromWhichNode mq pw' = suggest"
    using process_batch [OF assms(3,4) b assms(5)] by blast
  have "pullSyncImpl fuel env decompress now mq subExpression offset maxNums block pl =
      Some (pl2\<lparr>pl_wrapper := pw'\<rparr>, [(addr, cmd)], Inr (mq, (found ws suggest nextBegin mn mx)
        \<lparr>px_msgFoundList := map (put_offsets (found ws suggest nextBegin mn mx))
            (filter (\<lambda>m. sd_tagsSet sd = [] \<or> getTags m \<in> set (sd_tagsSet sd)) (map (wire_msg (en_endian env) decompress) ws)),
         px_messageBinary := None, px_messageBinaryLen := 0\<rparr>))"
    unfolding pullSyncImpl_def pull_guard_ready [OF assms(1)] parse_ready [OF assms(1)] Let_def sum.case k(1) prod.case r bind_r.simps option.case p ..
  then show ?thesis using k(2,3) p(2) by (simp add: found_def)
qed

text \<open>
  A synchronous pull without an answer, because of a timeout or a broken connection, reads
  through a null pointer.
\<close>

theorem unanswered_pull_crashes:
  assumes "pull_ready now mq subExpression offset maxNums sd addr slave pl" "\<forall>cmd. en_net env addr cmd = None"
  shows "\<exists>pl' out. pullSyncImpl fuel env decompress now mq subExpression offset maxNums block pl = Some (pl', out, Inl Undefined)"
proof -
  obtain pl2 cmd where k: "pull_kernel env mq sd offset maxNums block SYNC (subscriptionAutomatically now (getTopic mq) pl) =
      (pl2, [(addr, cmd)], bind_r (processPullResponse (en_net env addr cmd)) (\<lambda>p. Inr (Some p)))"
    using pull_kernel_sync [OF assms(1)] by blast
  have "processPullResponse (en_net env addr cmd) = Inl Undefined" using assms(2) by (simp add: processPullResponse_def)
  then show ?thesis
    unfolding pullSyncImpl_def pull_guard_ready [OF assms(1)] parse_ready [OF assms(1)] Let_def sum.case k prod.case by simp
qed

section \<open>Rebalancing a pull consumer\<close>

text \<open>
  What an application and the threads of the factory do with a pull consumer, in any order. The
  administrative calls and what the factory does for others change the client alone.
\<close>

inductive pull_step :: "PullConsumerImpl \<Rightarrow> PullConsumerImpl \<Rightarrow> bool" where
  step_start: "pull_step pl (fst (pull_start now c started pl))"
| step_sync: "pullSyncImpl fuel env decompress now mq sub offset maxNums block pl = Some (pl', out, r) \<Longrightarrow> pull_step pl pl'"
| step_async: "pull_step pl (fst (pullAsyncImpl env now mq sub offset maxNums present block pl))"
| step_callback: "pull_onSuccess fuel env decompress mq sd pr pl = Some (Inr (pl', pr')) \<Longrightarrow> pull_step pl pl'"
| step_rebalance: "pull_doRebalance allocate env now pl = Inr pl' \<Longrightarrow> pull_step pl pl'"
| step_offset: "pull_step pl (fst (pull_updateConsumeOffset mq offset pl))"
| step_back: "pull_step pl (fst (pull_sendMessageBack sb msg delayLevel pl))"
| step_client: "pull_step pl (pl_with_client c pl)"
| step_shutdown: "pull_step pl (pull_shutdown pl)"

inductive pull_reachable :: "PullConsumerImpl \<Rightarrow> PullConsumerImpl \<Rightarrow> bool" for pl0 where
  pull_refl: "pull_reachable pl0 pl0"
| pull_next: "pull_reachable pl0 pl \<Longrightarrow> pull_step pl pl' \<Longrightarrow> pull_reachable pl0 pl'"

definition owns_nothing :: "RebalanceImpl \<Rightarrow> bool" where
  "owns_nothing rb \<longleftrightarrow> rb_processQueueTable rb = [] \<and> rb_topicSubscribeInfoTable rb = []"

lemma rebalance_nothing:
  assumes "rebalanceByTopic kind allocate env now topic co = Inr (co', reqs, chgs)" "owns_nothing (co_rebalance co)"
  shows "co_rebalance co' = co_rebalance co \<and> reqs = [] \<and> chgs = []"
  using assms by (cases "rb_messageModel (co_rebalance co)") (auto simp: rebalanceByTopic_def owns_nothing_def bind_r_Inr)

lemma rebalance_topics_nothing:
  "rebalance_topics kind allocate env now topics co = Inr (co', reqs) \<Longrightarrow> owns_nothing (co_rebalance co) \<Longrightarrow>
   co_rebalance co' = co_rebalance co \<and> reqs = []"
proof (induction topics arbitrary: co co' reqs)
  case (Cons topic topics)
  from Cons.prems(1) obtain co1 r1 c1 r2 where
    y: "rebalanceByTopic kind allocate env now topic co = Inr (co1, r1, c1)"
    and t: "rebalance_topics kind allocate env now topics co1 = Inr (co', r2)" "reqs = r1 @ r2" by (auto simp: bind_r_Inr)
  from rebalance_nothing [OF y Cons.prems(2)] Cons.IH [OF t(1)] Cons.prems(2) t(2) show ?case by simp
qed simp

lemma doRebalance_nothing:
  assumes "doRebalance kind allocate env now co = Inr (co', reqs)" "owns_nothing (co_rebalance co)"
  shows "owns_nothing (co_rebalance co') \<and> reqs = []"
proof -
  obtain co1 where c: "rebalance_topics kind allocate env now (mkeys (rb_subscriptionInner (co_rebalance co))) co = Inr (co1, reqs)"
    "co' = co1\<lparr>co_rebalance := truncateMessageQueueNotMyTopic (co_rebalance co1)\<rparr>"
    using assms(1) by (auto simp: doRebalance_def bind_r_Inr)
  from rebalance_topics_nothing [OF c(1) assms(2)] assms(2) show ?thesis
    by (simp add: c(2) truncateMessageQueueNotMyTopic_def owns_nothing_def Let_def)
qed

lemma copy_owns: "pull_copySubscription now topics pl = (pl', r) \<Longrightarrow> owns_nothing (pl_rb pl) \<Longrightarrow> owns_nothing (pl_rb pl')"
  by (induction topics arbitrary: pl) (auto simp: owns_nothing_def split: sum.splits)

lemma attach_owns [simp]: "owns_nothing (pl_rb (pull_attach c pl)) \<longleftrightarrow> owns_nothing (pl_rb pl)"
  by (simp add: pull_attach_def Let_def owns_nothing_def)

lemma start_owns: "owns_nothing (pl_rb pl) \<Longrightarrow> owns_nothing (pl_rb (fst (pull_start now c started pl)))"
proof -
  assume o: "owns_nothing (pl_rb pl)"
  obtain pl1 r where c: "pull_copySubscription now (dl_registerTopics (pl_config pl)) (pl\<lparr>pl_serviceState := START_FAILED\<rparr>) = (pl1, r)"
    by (cases "pull_copySubscription now (dl_registerTopics (pl_config pl)) (pl\<lparr>pl_serviceState := START_FAILED\<rparr>)")
  with o copy_owns have "owns_nothing (pl_rb pl1)" by fastforce
  with o c show ?thesis
    by (simp add: pull_start_def Let_def split: ServiceState.split sum.split prod.split)
qed

lemma auto_owns [simp]: "owns_nothing (pl_rb (subscriptionAutomatically now t pl)) \<longleftrightarrow> owns_nothing (pl_rb pl)"
  by (simp add: owns_nothing_def)

lemma kernel_keeps [simp]: "pl_rb (fst (pull_kernel env mq sd offset maxNums block mode pl)) = pl_rb pl"
  by (simp add: pull_kernel_def split: prod.split)

lemma sync_owns:
  assumes "pullSyncImpl fuel env decompress now mq sub offset maxNums block pl = Some (pl', out, r)" "owns_nothing (pl_rb pl)"
  shows "owns_nothing (pl_rb pl')"
proof (cases "pull_guard offset maxNums pl \<noteq> Inr () \<or> isl (parse_subscription now (getTopic mq) sub)")
  case True
  with assms show ?thesis by (auto simp: pullSyncImpl_def Let_def split: sum.splits)
next
  case False
  then obtain sd where p: "pull_guard offset maxNums pl = Inr ()" "parse_subscription now (getTopic mq) sub = Inr sd"
    by (cases "parse_subscription now (getTopic mq) sub") auto
  obtain pl2 o2 r2 where k: "pull_kernel env mq sd offset maxNums block SYNC (subscriptionAutomatically now (getTopic mq) pl) = (pl2, o2, r2)"
    by (metis surj_pair)
  then have "owns_nothing (pl_rb pl2)" using kernel_keeps [of env mq sd offset maxNums block SYNC] assms(2) by (metis auto_owns fst_conv)
  with assms(1) p k show ?thesis
    by (auto simp: pullSyncImpl_def Let_def split: sum.splits option.splits)
qed

lemma async_owns:
  assumes "owns_nothing (pl_rb pl)"
  shows "owns_nothing (pl_rb (fst (pullAsyncImpl env now mq sub offset maxNums present block pl)))"
proof (cases "parse_subscription now (getTopic mq) sub")
  case (Inl x)
  with assms show ?thesis by (simp add: pullAsyncImpl_def Let_def split: sum.split)
next
  case (Inr sd)
  obtain pl2 o2 r2 where k: "pull_kernel env mq sd offset maxNums block ASYNC (subscriptionAutomatically now (getTopic mq) pl) = (pl2, o2, r2)"
    by (metis surj_pair)
  then have "owns_nothing (pl_rb pl2)" using kernel_keeps [of env mq sd offset maxNums block ASYNC] assms by (metis auto_owns fst_conv)
  with assms Inr k show ?thesis by (simp add: pullAsyncImpl_def Let_def split: sum.split error.split)
qed

lemma back_keeps: "pl_rb (fst (pull_sendMessageBack sb msg delayLevel pl)) = pl_rb pl"
  by (simp add: pull_sendMessageBack_def Let_def split: prod.split sum.split error.split)

lemma step_owns: "pull_step pl pl' \<Longrightarrow> owns_nothing (pl_rb pl) \<Longrightarrow> owns_nothing (pl_rb pl')"
proof (induction rule: pull_step.induct)
  case (step_callback fuel env decompress mq sd pr pl pl' pr')
  then show ?case by (auto simp: pull_onSuccess_def bind_r_Inr)
next
  case (step_rebalance allocate env now pl pl')
  then show ?case using doRebalance_nothing by (auto simp: pull_doRebalance_def bind_r_Inr)
next
  case (step_offset pl mq offset)
  then show ?case by (simp add: pull_updateConsumeOffset_def split: sum.split)
next
  case (step_shutdown pl)
  then show ?case by (simp add: pull_shutdown_def pull_persistConsumerOffset_def Let_def split: ServiceState.split)
qed (auto simp: start_owns async_owns back_keeps intro: sync_owns)

text \<open>
  A pull consumer owns nothing: whatever is done with it and in whichever order, it never
  learns the queues of a topic, so a rebalance never gives it a queue, asks for no pull and never
  calls the listener for changed queues that the application has registered.
\<close>

theorem pull_consumer_owns_nothing:
  assumes "pull_reachable (DefaultMQPullConsumerImpl_new nothing cfg) pl"
  shows "rb_processQueueTable (pl_rb pl) = [] \<and>
    (\<forall>topic allocate env now co' reqs changes. rebalanceByTopic PullConsumer allocate env now topic (pl_consumer pl) = Inr (co', reqs, changes) \<longrightarrow>
       co_rebalance co' = pl_rb pl \<and> reqs = [] \<and> changes = [])"
proof -
  from assms have "owns_nothing (pl_rb pl)"
  proof (induction rule: pull_reachable.induct)
    case pull_refl
    show ?case by (simp add: DefaultMQPullConsumerImpl_new_def owns_nothing_def)
  qed (rule step_owns)
  then show ?thesis using rebalance_nothing by (auto simp: owns_nothing_def)
qed

definition pull_config :: DefaultMQPullConsumer where
  "pull_config = (DefaultMQPullConsumer_new ''lg'')\<lparr>dl_messageModel := CLUSTERING, dl_registerTopics := [''T'']\<rparr>"

definition new_puller :: PullConsumerImpl where
  "new_puller = DefaultMQPullConsumerImpl_new sample_consumer pull_config"

definition running_puller :: PullConsumerImpl where
  "running_puller = fst (pull_start 5 sample_client True new_puller)"

lemma running_puller_runs:
  "pl_serviceState running_puller = RUNNING \<and> cl_api (pl_client running_puller) = sample_api \<and>
   f_brokerAddrTable (cl_factory (pl_client running_puller)) = f_brokerAddrTable sample_factory \<and>
   pl_wrapper running_puller = PullAPIWrapper_new ''lg''"
proof -
  have k: "pull_checkConfig pull_config = Inr ()" by code_simp
  have c: "dl_consumerGroup pull_config = ''lg''" "dl_registerTopics pull_config = [''T'']"
    by (simp_all add: pull_config_def DefaultMQPullConsumer_new_def)
  have "pl_config new_puller = pull_config" "pl_serviceState new_puller = CREATE_JUST"
    by (simp_all add: new_puller_def DefaultMQPullConsumerImpl_new_def)
  then show ?thesis
    by (simp add: running_puller_def pull_start_def k c Let_def buildSubscriptionData_def pull_attach_def registerConsumer_def
        sample_client_def sample_factory_def factory_start_def)
qed

lemma puller_ready:
  "pull_ready 5 (MessageQueue ''T'' ''a'' 2) ''*'' 7 32 (SubscriptionData_new 5 ''T'' ''*'') ''old:1'' False running_puller"
proof -
  have "buildSubscriptionData 5 ''T'' ''*'' = Inr (SubscriptionData_new 5 ''T'' ''*'')"
    by (simp add: buildSubscriptionData_def SubscriptionData_new_def SUB_ALL_def Let_def)
  then show ?thesis
    using running_puller_runs
    by (simp add: pull_ready_def findBrokerAddressInSubscribe_def recalculatePullFromWhichNode_def PullAPIWrapper_new_def
        sample_factory_def MASTER_ID_def sample_api_def isBlank_def)
qed

definition finding_env :: ClientEnv where
  "finding_env = silent_env\<lparr>en_net := (\<lambda>addr cmd. Some ((RemotingCommand_new SUCCESS_VALUE ''JAVA'' 0 (rc_opaque cmd) 1 []
       (Some (PullMessageResponseHeader 1 8 0 9)))
     \<lparr>rc_body := Some (concat (map encode_msg [sample_wire])), rc_bodyLen := int (length (concat (map encode_msg [sample_wire])))\<rparr>))\<rparr>"

theorem pull_returns_batch_witness:
  "\<exists>pl' cmd pr. pullSyncImpl 2 finding_env (\<lambda>_. None) 5 (MessageQueue ''T'' ''a'' 2) ''*'' 7 32 False running_puller =
      Some (pl', [(''old:1'', cmd)], Inr (MessageQueue ''T'' ''a'' 2, pr)) \<and> px_nextBeginOffset pr = 8 \<and> length (px_msgFoundList pr) = 1"
proof -
  have f: "broker_finds (en_net finding_env) ''old:1'' [sample_wire] 1 8 0 9"
    by (simp add: broker_finds_def finding_env_def RemotingCommand_new_def)
  have b: "batch_ok (\<lambda>_. None) [sample_wire]" using sample_batch_ok by (simp add: batch_ok_def)
  have t: "sd_tagsSet (SubscriptionData_new 5 ''T'' ''*'') = []" by (simp add: SubscriptionData_new_def)
  from pull_returns_batch [OF puller_ready f b, of 2 False] t show ?thesis by fastforce
qed

theorem unanswered_pull_crashes_witness:
  "\<exists>pl' out. pullSyncImpl 2 silent_env (\<lambda>_. None) 5 (MessageQueue ''T'' ''a'' 2) ''*'' 7 32 False running_puller = Some (pl', out, Inl Undefined)"
  by (rule unanswered_pull_crashes [OF puller_ready]) (simp add: silent_env_def)

theorem pull_consumer_owns_nothing_witness: "rb_processQueueTable (pl_rb running_puller) = []"
proof -
  have "pull_reachable new_puller running_puller"
    unfolding running_puller_def by (rule pull_next [OF pull_refl step_start])
  from pull_consumer_owns_nothing [OF this [unfolded new_puller_def]] show ?thesis by simp
qed

end
