(* ===== verification/Schedule.thy ===== *)
theory Schedule
  imports PullConsumer
begin

text \<open>
  The tasks a client factory runs on its timers (\<^verbatim>\<open>MQClientFactory::startScheduledTask\<close>): refreshing the routes of all
  topics in use, persisting the offsets of all consumers, recording statistics; and the round of
  the rebalance service over all consumers. The heartbeat task is in \<open>Heartbeat\<close>, the timers in \<open>Timer\<close>.
\<close>

section \<open>Routes of all topics\<close>

text \<open>The topics of \<^verbatim>\<open>updateTopicRouteInfoFromNameServer()\<close>: a \<^verbatim>\<open>std::set\<close> of what consumers subscribe to and producers publish.\<close>

definition consumer_topics :: "ClientFactory \<Rightarrow> string list" where
  "consumer_topics f = concat (map (\<lambda>(g, inner). map sd_topic (subscriptions inner)) (f_consumerTable f))"

definition producer_topics :: "ClientFactory \<Rightarrow> string list" where
  "producer_topics f = concat (map (\<lambda>(g, p). mkeys (pr_topicPublishInfoTable p)) (f_producerTable f))"

definition topics_in_use :: "ClientFactory \<Rightarrow> string list" where
  "topics_in_use f = fold sput (consumer_topics f @ producer_topics f) []"

fun refresh_routes :: "ClientEnv \<Rightarrow> string list \<Rightarrow> Client \<Rightarrow> Client result" where
  "refresh_routes env [] c = Inr c"
| "refresh_routes env (topic # rest) c = bind_r (refresh_route env topic c) (\<lambda>(c', b). refresh_routes env rest c')"

definition updateTopicRouteInfoFromNameServerTask :: "ClientEnv \<Rightarrow> Client \<Rightarrow> Client result" where
  "updateTopicRouteInfoFromNameServerTask env c = refresh_routes env (topics_in_use (cl_factory c)) c"

section \<open>All consumers\<close>

text \<open>
  The consumers registered at the factory, as objects. They share the client, which is passed
  from one to the next; a pull consumer persists nothing.
\<close>

datatype consumer_object = PushObject PushConsumerImpl | PullObject PullConsumerImpl

fun persistAllConsumerOffset ::
  "ClientEnv \<Rightarrow> (string \<times> consumer_object) list \<Rightarrow> Client \<Rightarrow>
   ((string \<times> consumer_object) list \<times> Client \<times> (string \<times> RemotingCommand) list) result" where
  "persistAllConsumerOffset env [] c = Inr ([], c, [])"
| "persistAllConsumerOffset env ((g, PushObject pc) # rest) c =
     bind_r (persistConsumerOffset env (with_client c pc)) (\<lambda>(pc', out).
     bind_r (persistAllConsumerOffset env rest (pc_client pc')) (\<lambda>(rest', c', outs).
       Inr ((g, PushObject pc') # rest', c', out @ outs)))"
| "persistAllConsumerOffset env ((g, PullObject pl) # rest) c =
     bind_r (persistAllConsumerOffset env rest c) (\<lambda>(rest', c', outs).
       Inr ((g, PullObject (pull_persistConsumerOffset (pl_with_client c pl))) # rest', c', outs))"

text \<open>A push consumer hands the pull requests of the queues it newly owns to the pull service.\<close>

definition push_doRebalance :: "strategy_fun \<Rightarrow> ClientEnv \<Rightarrow> int \<Rightarrow> PushConsumerImpl \<Rightarrow> PushConsumerImpl result" where
  "push_doRebalance allocate env now pc =
     bind_r (doRebalance (PushConsumer (dc_consumeFromWhere (pc_config pc)) (pc_consumeOrderly pc)) allocate env now
               (pu_consumer (pc_impl pc))) (\<lambda>(co, reqs).
       Inr (fold push_immediately reqs (with_consumer (\<lambda>_. co) pc)))"

text \<open>\<^verbatim>\<open>doRebalance\<close> over the consumer table; an exception of one consumer is caught and leaves it as it was.\<close>

definition caught :: "'a \<Rightarrow> 'a result \<Rightarrow> 'a result" where
  "caught old r = (case r of Inr new \<Rightarrow> Inr new | Inl x \<Rightarrow> if x = Undefined then Inl Undefined else Inr old)"

fun factory_doRebalance ::
  "strategy_fun \<Rightarrow> ClientEnv \<Rightarrow> int \<Rightarrow> (string \<times> consumer_object) list \<Rightarrow> Client \<Rightarrow>
   ((string \<times> consumer_object) list \<times> Client) result" where
  "factory_doRebalance allocate env now [] c = Inr ([], c)"
| "factory_doRebalance allocate env now ((g, PushObject pc) # rest) c =
     (let pc0 = with_client c pc in
      bind_r (caught pc0 (push_doRebalance allocate env now pc0)) (\<lambda>pc'.
      bind_r (factory_doRebalance allocate env now rest (pc_client pc')) (\<lambda>(rest', c').
        Inr ((g, PushObject pc') # rest', c'))))"
| "factory_doRebalance allocate env now ((g, PullObject pl) # rest) c =
     (let pl0 = pl_with_client c pl in
      bind_r (caught pl0 (pull_doRebalance allocate env now pl0)) (\<lambda>pl'.
      bind_r (factory_doRebalance allocate env now rest (pl_client pl')) (\<lambda>(rest', c').
        Inr ((g, PullObject pl') # rest', c'))))"

section \<open>Statistics\<close>

text \<open>\<^verbatim>\<open>ConsumerStatManager::recordSnapshotPeriodically\<close> keeps the last 60 snapshots.\<close>

definition recordSnapshotPeriodically :: "ConsumerStat \<Rightarrow> ConsumerStat list \<Rightarrow> ConsumerStat list" where
  "recordSnapshotPeriodically stat snapshotList =
     (let l = snapshotList @ [stat] in if length l > 60 then tl l else l)"

section \<open>Timers\<close>

definition scheduled_tasks :: "ClientConfig \<Rightarrow> (int \<times> int \<times> nat) list" where
  "scheduled_tasks cfg =
     [(1000 * 10, 1000 * 60 * 2, 0), (10, cc_pollNameServerInterval cfg, 1), (1000, cc_heartbeatBrokerInterval cfg, 2),
      (1000 * 10, cc_persistConsumerOffsetInterval cfg, 3), (1000 * 10, 1000, 4), (1000 * 10, 1000 * 60, 5)]"

fun register_tasks :: "(int \<times> int \<times> nat) list \<Rightarrow> TimerTaskManager \<Rightarrow> TimerTaskManager \<times> int list" where
  "register_tasks [] tm = (tm, [])"
| "register_tasks ((delay, period, task) # rest) tm =
     (let (tm1, n) = mgr_RegisterTimer delay period task tm; (tm2, ids) = register_tasks rest tm1 in (tm2, n # ids))"

definition startScheduledTask :: "ClientConfig \<Rightarrow> TimerTaskManager \<Rightarrow> TimerTaskManager \<times> int list" where
  "startScheduledTask cfg tm = register_tasks (scheduled_tasks cfg) tm"

text \<open>The loop of \<^verbatim>\<open>shutdown\<close> over the six identifiers.\<close>

definition stopScheduledTask :: "int list \<Rightarrow> TimerTaskManager \<Rightarrow> TimerTaskManager" where
  "stopScheduledTask ids tm = fold (\<lambda>i tm. fst (mgr_UnRegisterTimer i tm)) ids tm"

section \<open>Lemmas\<close>

lemma topics_in_use_set: "set (topics_in_use f) = set (consumer_topics f) \<union> set (producer_topics f)" "distinct (topics_in_use f)"
proof -
  from set_fold_sput show "set (topics_in_use f) = set (consumer_topics f) \<union> set (producer_topics f)" by (simp add: topics_in_use_def)
  show "distinct (topics_in_use f)" unfolding topics_in_use_def by (intro sok_distinct sok_fold_sput) (simp add: sok_def)
qed

lemma route_query_keeps:
  "getTopicRouteInfoFromNameServer e net topic api = (api', answer) \<Longrightarrow>
    ap_projectGroupPrefix api' = ap_projectGroupPrefix api \<and> ap_nameSrvAddr api' = ap_nameSrvAddr api"
  by (auto simp: getTopicRouteInfoFromNameServer_def Let_def dest: new_request_fields(5,6) split: sum.splits prod.splits)

lemma install_route_table: "install_route topic route f = Inr f' \<Longrightarrow> f_topicRouteTable f' = mput topic route (f_topicRouteTable f)"
  by (auto simp: install_route_def Let_def split: sum.splits)

lemma update_route_table:
  assumes "updateTopicRouteInfoFromNameServer locked answer topic f = Inr (f', b)"
  shows "t \<noteq> topic \<Longrightarrow> mget (f_topicRouteTable f') t = mget (f_topicRouteTable f) t"
    "locked \<Longrightarrow> answer = Inr (Some r) \<Longrightarrow> \<exists>r'. mget (f_topicRouteTable f') topic = Some r' \<and> \<not> topicRouteDataIsChange r' r"
  using assms
  by (auto simp: updateTopicRouteInfoFromNameServer_def Let_def install_route_table mget_mput same_route_unchanged
      split: if_splits sum.splits option.splits)

lemma refresh_route_table:
  assumes "refresh_route env topic c = Inr (c', b)"
  shows "ap_projectGroupPrefix (cl_api c') = ap_projectGroupPrefix (cl_api c)" "ap_nameSrvAddr (cl_api c') = ap_nameSrvAddr (cl_api c)"
    "t \<noteq> topic \<Longrightarrow> mget (f_topicRouteTable (cl_factory c')) t = mget (f_topicRouteTable (cl_factory c)) t"
    "en_trylock env \<Longrightarrow> snd (getTopicRouteInfoFromNameServer (en_endian env) (en_net env) topic (cl_api c)) = Inr (Some r) \<Longrightarrow>
      \<exists>r'. mget (f_topicRouteTable (cl_factory c')) topic = Some r' \<and> \<not> topicRouteDataIsChange r' r"
  using assms update_route_table
  by (auto simp: refresh_route_def Let_def dest: route_query_keeps split: if_splits prod.splits sum.splits)

text \<open>\<open>serves env c t r\<close>: the name server answers a question for \<open>t\<close> with the route \<open>r\<close>, whatever its sequence number.\<close>

definition serves :: "ClientEnv \<Rightarrow> Client \<Rightarrow> string \<Rightarrow> TopicRouteData \<Rightarrow> bool" where
  "serves env c t r \<longleftrightarrow> (\<forall>api. ap_projectGroupPrefix api = ap_projectGroupPrefix (cl_api c) \<and> ap_nameSrvAddr api = ap_nameSrvAddr (cl_api c) \<longrightarrow>
     snd (getTopicRouteInfoFromNameServer (en_endian env) (en_net env) t api) = Inr (Some r))"

lemma refresh_routes_table:
  "refresh_routes env topics c = Inr c' \<Longrightarrow> distinct topics \<Longrightarrow>
    (t \<notin> set topics \<longrightarrow> mget (f_topicRouteTable (cl_factory c')) t = mget (f_topicRouteTable (cl_factory c)) t) \<and>
    (t \<in> set topics \<and> en_trylock env \<and> serves env c t r \<longrightarrow>
      (\<exists>r'. mget (f_topicRouteTable (cl_factory c')) t = Some r' \<and> \<not> topicRouteDataIsChange r' r))"
proof (induction topics arbitrary: c)
  case (Cons topic rest)
  then obtain c1 b where r: "refresh_route env topic c = Inr (c1, b)" "refresh_routes env rest c1 = Inr c'" by (auto simp: bind_r_Inr)
  note k = refresh_route_table [OF r(1)]
  have s: "serves env c1 t r = serves env c t r" using k(1,2) by (simp add: serves_def)
  have now: "topic = t \<Longrightarrow> en_trylock env \<Longrightarrow> serves env c t r \<Longrightarrow>
      \<exists>r'. mget (f_topicRouteTable (cl_factory c1)) t = Some r' \<and> \<not> topicRouteDataIsChange r' r"
    using k(4) by (auto simp: serves_def)
  show ?case using Cons.IH [OF r(2)] Cons.prems(2) k(3) [of t] s now by auto
qed simp

section \<open>Properties\<close>

text \<open>
  The route task serves every topic in use: after it has run, the route of each topic that a push
  consumer subscribes to or a producer publishes, and that the name server answered, is the answered
  one (up to the order of its parts), even if the queries for other topics failed; and the routes of
  all other topics are as before.
\<close>

theorem route_task_refreshes:
  assumes "updateTopicRouteInfoFromNameServerTask env c = Inr c'"
  shows "(t \<in> set (consumer_topics (cl_factory c)) \<union> set (producer_topics (cl_factory c)) \<and> en_trylock env \<and> serves env c t r \<longrightarrow>
      (\<exists>r'. mget (f_topicRouteTable (cl_factory c')) t = Some r' \<and> \<not> topicRouteDataIsChange r' r)) \<and>
    (t \<notin> set (consumer_topics (cl_factory c)) \<union> set (producer_topics (cl_factory c)) \<longrightarrow>
      mget (f_topicRouteTable (cl_factory c')) t = mget (f_topicRouteTable (cl_factory c)) t)"
  using refresh_routes_table [OF assms [unfolded updateTopicRouteInfoFromNameServerTask_def] topics_in_use_set(2)]
    topics_in_use_set(1) [of "cl_factory c"] by auto

definition publishing_factory :: Client where
  "publishing_factory = hb_client\<lparr>cl_factory := hb_factory\<lparr>f_producerTable := [(''p'', \<lparr>pr_topicPublishInfoTable = [(''T'', TopicPublishInfo_new)]\<rparr>)]\<rparr>\<rparr>"

lemma answering_serves: "serves answering_env publishing_factory t sample_route_text"
proof -
  have "TopicRouteData_Decode (c_str (jprint (JObj (route_json sample_route_text)))) = Inr (Some sample_route_text)"
    using route_read [OF sample_route_fits, of "[]"] by (simp only: append_Nil2)
  then show ?thesis
    by (auto simp: serves_def getTopicRouteInfoFromNameServer_def with_prefix_def publishing_factory_def hb_client_def isBlank_def
        answering_env_def route_answer_def RemotingCommand_new_def Let_def simp del: jprint.simps split: prod.splits)
qed

theorem route_task_refreshes_witness:
  "\<exists>c' r'. updateTopicRouteInfoFromNameServerTask answering_env publishing_factory = Inr c' \<and>
     mget (f_topicRouteTable (cl_factory c')) ''T'' = Some r' \<and> \<not> topicRouteDataIsChange r' sample_route_text"
proof -
  let ?c = publishing_factory
  obtain api answer where q: "getTopicRouteInfoFromNameServer (en_endian answering_env) (en_net answering_env) ''T'' (cl_api ?c) = (api, answer)"
    by fastforce
  then have a: "answer = Inr (Some sample_route_text)" using answering_serves [of "''T''"] by (auto simp: serves_def)
  have "\<exists>f. updateTopicRouteInfoFromNameServer True (Inr (Some sample_route_text)) ''T'' (cl_factory ?c) = Inr (f, True)"
    by (simp add: updateTopicRouteInfoFromNameServer_def publishing_factory_def hb_factory_def install_route_def Let_def
        topicRouteData2TopicPublishInfo_def sample_route_text_def)
  then obtain f where u: "updateTopicRouteInfoFromNameServer True (Inr (Some sample_route_text)) ''T'' (cl_factory ?c) = Inr (f, True)" by blast
  have t: "topics_in_use (cl_factory ?c) = [''T'']" "''T'' \<in> set (producer_topics (cl_factory ?c))"
    by (simp_all add: topics_in_use_def consumer_topics_def producer_topics_def publishing_factory_def hb_factory_def)
  have l: "en_trylock answering_env" by (simp add: answering_env_def silent_env_def)
  have "refresh_route answering_env ''T'' ?c = Inr (\<lparr>cl_factory = f, cl_api = api\<rparr>, True)"
    unfolding refresh_route_def q a using l u by simp
  then have c': "updateTopicRouteInfoFromNameServerTask answering_env ?c = Inr \<lparr>cl_factory = f, cl_api = api\<rparr>"
    unfolding updateTopicRouteInfoFromNameServerTask_def t(1) by simp
  have "\<exists>r'. mget (f_topicRouteTable (cl_factory \<lparr>cl_factory = f, cl_api = api\<rparr>)) ''T'' = Some r' \<and> \<not> topicRouteDataIsChange r' sample_route_text"
    using route_task_refreshes [OF c', of "''T''" sample_route_text] t(2) l answering_serves by blast
  with c' show ?thesis by blast
qed

text \<open>What registering and unregistering does to the tables, by key.\<close>

definition fresh_ids :: "int \<Rightarrow> nat \<Rightarrow> int list" where
  "fresh_ids n k = map (\<lambda>i. u32 (n + 1 + int i)) [0..<k]"

lemma fresh_ids_simps: "fresh_ids n 0 = []" "fresh_ids n (Suc k) = u32 (n + 1) # fresh_ids (u32 (n + 1)) k"
proof -
  have "[0..<Suc k] = 0 # map Suc [0..<k]" by (simp add: map_Suc_upt upt_conv_Cons del: upt_Suc)
  moreover have "u32 (u32 (n + 1) + 1 + int i) = u32 (n + 1 + int (Suc i))" for i
    using mod_add_left_eq [of "n + 1" 4294967296 "1 + int i"] by (simp add: u32_def add.assoc)
  ultimately show "fresh_ids n (Suc k) = u32 (n + 1) # fresh_ids (u32 (n + 1)) k" by (simp add: fresh_ids_def comp_def)
qed (simp add: fresh_ids_def)

lemma fresh_ids_distinct: "k \<le> 4294967296 \<Longrightarrow> distinct (fresh_ids n k)"
  unfolding fresh_ids_def
proof (simp add: distinct_map, intro inj_onI)
  fix i j
  assume "k \<le> 4294967296" "i \<in> {0..<k}" "j \<in> {0..<k}" "u32 (n + 1 + int i) = u32 (n + 1 + int j)"
  then obtain d where d: "int i - int j = 4294967296 * d" "i < k" "j < k" "k \<le> 4294967296" by (auto simp: u32_def mod_eq_dvd_iff dvd_def)
  then have "d < 1" "- 1 < d" by linarith+
  with d(1) show "i = j" by simp
qed

abbreviation timers_of :: "TimerTaskManager \<Rightarrow> (int, unit TimerInfo) stdmap" where
  "timers_of tm \<equiv> tt_timers (tm_timerThread tm)"

lemma register_one:
  assumes "mgr_RegisterTimer delay period task tm = (tm', n)"
  shows "n = u32 (tt_nextTimerID (tm_timerThread tm) + 1)" "tt_nextTimerID (tm_timerThread tm') = n"
    "tm_timerTasks tm' = mput n task (tm_timerTasks tm)" "\<exists>i. timers_of tm' = mput n i (timers_of tm) \<and> ti_elapse i = period"
  using assms by (auto simp: mgr_RegisterTimer_def RegisterTimer_def GetNextTimerID_def Let_def)

lemma register_tasks_tables:
  "register_tasks ts tm = (tm', ids) \<Longrightarrow> mok (timers_of tm) \<Longrightarrow> mok (tm_timerTasks tm) \<Longrightarrow>
    ids = fresh_ids (tt_nextTimerID (tm_timerThread tm)) (length ts) \<and> mok (timers_of tm') \<and> mok (tm_timerTasks tm') \<and>
    (\<forall>i. i \<notin> set ids \<longrightarrow> mget (timers_of tm') i = mget (timers_of tm) i \<and> mget (tm_timerTasks tm') i = mget (tm_timerTasks tm) i) \<and>
    (distinct ids \<longrightarrow> (\<forall>k < length ts. mget (tm_timerTasks tm') (ids ! k) = Some (snd (snd (ts ! k))) \<and>
      (\<exists>i. mget (timers_of tm') (ids ! k) = Some i \<and> ti_elapse i = fst (snd (ts ! k)))))"
proof (induction ts arbitrary: tm tm' ids)
  case (Cons t ts)
  obtain delay period task where t: "t = (delay, period, task)" by (cases t)
  obtain tm1 n js where r: "mgr_RegisterTimer delay period task tm = (tm1, n)" "register_tasks ts tm1 = (tm', js)" "ids = n # js"
    using Cons.prems(1) by (auto simp: t Let_def split: prod.splits)
  note o = register_one [OF r(1)]
  obtain inf where inf: "timers_of tm1 = mput n inf (timers_of tm)" "ti_elapse inf = period" using o(4) by blast
  have ok: "mok (timers_of tm1)" "mok (tm_timerTasks tm1)" using Cons.prems(2,3) o(3) inf(1) by (simp_all add: mok_mput)
  note IH = Cons.IH [OF r(2) ok]
  have first: "n \<notin> set js \<Longrightarrow> mget (timers_of tm') n = Some inf \<and> mget (tm_timerTasks tm') n = Some task"
    using IH o(3) inf(1) by (auto simp: mget_mput)
  show ?case
    using IH first o inf r(3) by (auto simp: t fresh_ids_simps mget_mput nth_Cons less_Suc_eq_0_disj split: nat.split)
qed (simp add: fresh_ids_simps)

lemma stop_tables:
  "mok (timers_of tm) \<Longrightarrow> mok (tm_timerTasks tm) \<Longrightarrow>
    mget (timers_of (stopScheduledTask ids tm)) i = (if i \<in> set ids then None else mget (timers_of tm) i) \<and>
    mget (tm_timerTasks (stopScheduledTask ids tm)) i = (if i \<in> set ids then None else mget (tm_timerTasks tm) i)"
proof (induction ids arbitrary: tm)
  case (Cons k ids)
  let ?t = "fst (mgr_UnRegisterTimer k tm)"
  have u: "timers_of ?t = (if mget (timers_of tm) k \<noteq> None then mdel k (timers_of tm) else timers_of tm)" "tm_timerTasks ?t = mdel k (tm_timerTasks tm)"
    by (auto simp: mgr_UnRegisterTimer_def UnRegisterTimer_def Let_def)
  have ok: "mok (timers_of ?t)" "mok (tm_timerTasks ?t)" using Cons.prems u by (simp_all add: mok_mdel)
  have s: "stopScheduledTask (k # ids) tm = stopScheduledTask ids ?t" by (simp add: stopScheduledTask_def)
  show ?case unfolding s using Cons.IH [OF ok] Cons.prems u by (auto simp: mget_mdel)
qed (simp add: stopScheduledTask_def)

text \<open>
  Starting a factory schedules its six tasks, each under an identifier of its own with the configured
  period; the shutdown takes exactly these down again, so the timer manager is what it was before.
\<close>

theorem scheduled_tasks_come_and_go:
  assumes "mok (timers_of tm)" "mok (tm_timerTasks tm)" "startScheduledTask cfg tm = (tm', ids)"
    and "\<forall>i \<in> set ids. mget (timers_of tm) i = None \<and> mget (tm_timerTasks tm) i = None"
  shows "length ids = 6 \<and> distinct ids \<and>
    (\<forall>k < 6. mget (tm_timerTasks tm') (ids ! k) = Some k \<and>
      (\<exists>i. mget (timers_of tm') (ids ! k) = Some i \<and> ti_elapse i = fst (snd (scheduled_tasks cfg ! k)))) \<and>
    mget (timers_of (stopScheduledTask ids tm')) = mget (timers_of tm) \<and>
    mget (tm_timerTasks (stopScheduledTask ids tm')) = mget (tm_timerTasks tm)"
proof -
  note r = register_tasks_tables [OF assms(3) [unfolded startScheduledTask_def] assms(1,2)]
  have l: "length (scheduled_tasks cfg) = 6" by (simp add: scheduled_tasks_def)
  have ids: "ids = fresh_ids (tt_nextTimerID (tm_timerThread tm)) 6" using r l by simp
  then have d: "length ids = 6" "distinct ids" using fresh_ids_distinct [of 6] by (simp_all add: fresh_ids_def)
  have "snd (snd (scheduled_tasks cfg ! k)) = k" if "k < 6" for k
    using that by (auto simp: scheduled_tasks_def less_Suc_eq numeral_eq_Suc)
  then have tasks: "\<forall>k < 6. mget (tm_timerTasks tm') (ids ! k) = Some k \<and>
      (\<exists>i. mget (timers_of tm') (ids ! k) = Some i \<and> ti_elapse i = fst (snd (scheduled_tasks cfg ! k)))"
    using r [THEN conjunct2, THEN conjunct2, THEN conjunct2, THEN conjunct2] d(2) l by simp
  have "mget (timers_of (stopScheduledTask ids tm')) i = mget (timers_of tm) i \<and>
      mget (tm_timerTasks (stopScheduledTask ids tm')) i = mget (tm_timerTasks tm) i" for i
    using stop_tables [of tm' ids i] r assms(4) by auto
  with d tasks show ?thesis by (simp add: fun_eq_iff)
qed

theorem scheduled_tasks_come_and_go_witness:
  "\<exists>tm' ids. startScheduledTask (ClientConfig_new None ''h'') \<lparr>tm_timerThread = TimerThread_new 0 1000, tm_timerTasks = [], tm_processing = {}, tm_pool = [],
      tm_running = []\<rparr> = (tm', ids) \<and> length ids = 6 \<and> mget (tm_timerTasks tm') (ids ! 3) = Some 3"
proof -
  let ?tm = "\<lparr>tm_timerThread = TimerThread_new 0 1000, tm_timerTasks = [], tm_processing = {}, tm_pool = [], tm_running = []\<rparr> :: TimerTaskManager"
  obtain tm' ids where s: "startScheduledTask (ClientConfig_new None ''h'') ?tm = (tm', ids)" by fastforce
  from scheduled_tasks_come_and_go [OF _ _ s] have "length ids = 6 \<and> mget (tm_timerTasks tm') (ids ! 3) = Some 3"
    by (auto simp: TimerThread_new_def)
  with s show ?thesis by blast
qed

text \<open>The list of snapshots never grows beyond 60, and the latest snapshot is its last element.\<close>

lemma snapshots_bounded:
  assumes "length l \<le> 60"
  shows "length (recordSnapshotPeriodically stat l) \<le> 60 \<and> last (recordSnapshotPeriodically stat l) = stat"
  using assms by (cases l) (auto simp: recordSnapshotPeriodically_def Let_def)

lemma push_immediately_fold:
  "pc_impl (fold push_immediately reqs pc) = pc_impl pc"
  "ps_pullRequestQueue (pc_pullService (fold push_immediately reqs pc)) = ps_pullRequestQueue (pc_pullService pc) @ reqs"
  by (induction reqs arbitrary: pc) (simp_all add: push_immediately_def executePullRequestImmediately_def)

text \<open>
  Property C6. Every queue a push consumer gains is pulled: after a rebalance round the pull service has, behind
  the requests it already had, a request for each queue that entered the table, with the process
  queue of that entry (which is not dropped) and a starting offset that is not negative.
\<close>

theorem gained_queues_are_pulled:
  assumes "rb_inv (pc_rb pc)" "push_doRebalance allocate env now pc = Inr pc'"
  shows "\<exists>reqs. ps_pullRequestQueue (pc_pullService pc') = ps_pullRequestQueue (pc_pullService pc) @ reqs \<and>
    (\<forall>q a. mget (rb_processQueueTable (pc_rb pc')) q = Some a \<and> mget (rb_processQueueTable (pc_rb pc)) q \<noteq> Some a \<longrightarrow>
      \<not> pq_dropped (rb_heap (pc_rb pc') ! a) \<and>
      (\<exists>r \<in> set reqs. prq_messageQueue r = q \<and> prq_processQueue r = a \<and> 0 \<le> prq_nextOffset r))"
proof -
  let ?kind = "PushConsumer (dc_consumeFromWhere (pc_config pc)) (pc_consumeOrderly pc)"
  from assms(2) obtain co reqs where d: "doRebalance ?kind allocate env now (pu_consumer (pc_impl pc)) = Inr (co, reqs)"
    and pc': "pc' = fold push_immediately reqs (with_consumer (\<lambda>_. co) pc)"
    by (auto simp: push_doRebalance_def bind_r_Inr)
  have q: "ps_pullRequestQueue (pc_pullService pc') = ps_pullRequestQueue (pc_pullService pc) @ reqs" "pc_rb pc' = co_rebalance co"
    by (simp_all add: pc' push_immediately_fold with_consumer_def)
  have "\<not> pq_dropped (rb_heap (co_rebalance co) ! a)" if "mget (rb_processQueueTable (co_rebalance co)) q = Some a" for q a
    using doRebalance_inv [OF assms(1) d] map_of_SomeD [OF that] by (auto simp: rb_inv_def rb_ok_def)
  moreover have "\<exists>r \<in> set reqs. prq_messageQueue r = q \<and> prq_processQueue r = a \<and> 0 \<le> prq_nextOffset r"
    if "mget (rb_processQueueTable (co_rebalance co)) q = Some a" "mget (rb_processQueueTable (pc_rb pc)) q \<noteq> Some a" for q a
    using doRebalance_requests [OF assms(1) d that(1)] that(2) by (simp add: requested_def)
  ultimately show ?thesis unfolding q by blast
qed

definition fresh_member :: PushConsumerImpl where
  "fresh_member = with_consumer (\<lambda>_. sample_consumer\<lparr>co_rebalance := sample_rebalance\<lparr>rb_messageModel := BROADCASTING,
      rb_topicSubscribeInfoTable := [(''T'', [MessageQueue ''T'' ''a'' 0])], rb_processQueueTable := [], rb_heap := []\<rparr>\<rparr>)
    (sample_consumer_impl\<lparr>pc_impl := (pc_impl sample_consumer_impl)\<lparr>pu_config :=
      (pc_config sample_consumer_impl)\<lparr>dc_consumeFromWhere := CONSUME_FROM_MIN_OFFSET\<rparr>\<rparr>\<rparr>)"

theorem gained_queues_are_pulled_witness:
  "\<exists>pc' r. push_doRebalance allocate_averagely silent_env 5 fresh_member = Inr pc' \<and>
     r \<in> set (ps_pullRequestQueue (pc_pullService pc')) \<and> prq_messageQueue r = MessageQueue ''T'' ''a'' 0"
proof -
  let ?q = "MessageQueue ''T'' ''a'' 0"
  have "sok [?q]" by code_simp
  then have inv: "rb_inv (pc_rb fresh_member)" and none: "mget (rb_processQueueTable (pc_rb fresh_member)) ?q = None"
    by (simp_all add: fresh_member_def with_consumer_def rb_inv_def rb_ok_def sample_rebalance_def split: if_splits)
  obtain pc' where p: "push_doRebalance allocate_averagely silent_env 5 fresh_member = Inr pc'"
    and t: "mget (rb_processQueueTable (pc_rb pc')) ?q = Some 0"
    by (simp add: push_doRebalance_def doRebalance_def fresh_member_def with_consumer_def sample_consumer_def sample_rebalance_def
        rebalanceByTopic_def updateProcessQueueTableInRebalance_def computePullFromWhere_def
        truncateMessageQueueNotMyTopic_def push_immediately_fold Let_def)
  from gained_queues_are_pulled [OF inv p] t none obtain r where
    "r \<in> set (ps_pullRequestQueue (pc_pullService pc'))" "prq_messageQueue r = ?q" by fastforce
  with p show ?thesis by (intro exI conjI)
qed

end
