(* ===== verification/Calls.thy ===== *)
theory Calls
  imports Api
begin

text \<open>
  The calls of \<^verbatim>\<open>TcpRemotingClient\<close> that wait for a response, all of them at once: the response table, the
  futures it points to with their reference counts, the threads that called \<^verbatim>\<open>invokeSyncImpl\<close> or
  \<^verbatim>\<open>invokeAsyncImpl\<close>, and the workers that run \<^verbatim>\<open>ProcessData\<close>. A thread moves from one lock to the next in
  one step, so a sequence of actions is an interleaving. Using a deleted future is \<open>Undefined\<close>.
\<close>

section \<open>ResponseFuture\<close>

text \<open>A callback object is known by a number; \<^const>\<open>None\<close> is NULL.\<close>

record ResponseFuture =
  fu_requestCode :: int
  fu_opaque :: int
  fu_timeoutMillis :: int
  fu_invokeCallback :: "nat option"
  fu_beginTimestamp :: int
  fu_responseCommand :: "RemotingCommand option"
  fu_notifyFlag :: bool
  fu_sendRequestOK :: bool
  fu_refCount :: int

definition ResponseFuture_new :: "int \<Rightarrow> int \<Rightarrow> int \<Rightarrow> nat option \<Rightarrow> int \<Rightarrow> ResponseFuture" where
  "ResponseFuture_new requestCode opaque timeoutMillis pInvokeCallback now =
     \<lparr>fu_requestCode = requestCode, fu_opaque = opaque, fu_timeoutMillis = timeoutMillis,
      fu_invokeCallback = pInvokeCallback, fu_beginTimestamp = now, fu_responseCommand = None,
      fu_notifyFlag = False, fu_sendRequestOK = False, fu_refCount = 1\<rparr>"

definition isTimeout :: "int \<Rightarrow> ResponseFuture \<Rightarrow> bool" where
  "isTimeout now f \<longleftrightarrow> i64 (now - fu_beginTimestamp f) > fu_timeoutMillis f"

definition putResponse :: "RemotingCommand \<Rightarrow> ResponseFuture \<Rightarrow> ResponseFuture" where
  "putResponse cmd f = f\<lparr>fu_responseCommand := Some cmd, fu_notifyFlag := True\<rparr>"

section \<open>The client and its threads\<close>

text \<open>
  The thread that made the call of a future stands at the same index as the future.
  \<open>rt_completed\<close> records each run of \<^verbatim>\<open>operationComplete\<close> with the response the callback finds.
\<close>

datatype call_kind = SyncCall | AsyncCall

datatype worker = Looked RemotingCommand | Took RemotingCommand nat | Filled nat | Finished

record remoting =
  rt_futures :: "ResponseFuture list"
  rt_responseTable :: "(int, nat) stdmap"
  rt_callers :: "(call_kind \<times> inv_pc) list"
  rt_results :: "(nat \<times> RemotingCommand option) list"
  rt_workers :: "worker list"
  rt_completed :: "(nat \<times> RemotingCommand option) list"

definition remoting_new :: remoting where
  "remoting_new = \<lparr>rt_futures = [], rt_responseTable = [], rt_callers = [], rt_results = [], rt_workers = [], rt_completed = []\<rparr>"

abbreviation future :: "remoting \<Rightarrow> nat \<Rightarrow> ResponseFuture" where
  "future s a \<equiv> rt_futures s ! a"

definition with_future :: "nat \<Rightarrow> (ResponseFuture \<Rightarrow> ResponseFuture) \<Rightarrow> remoting \<Rightarrow> remoting result" where
  "with_future a g s =
     (if a < length (rt_futures s) \<and> fu_refCount (future s a) > 0
      then Inr (s\<lparr>rt_futures := (rt_futures s)[a := g (future s a)]\<rparr>) else Inl Undefined)"

definition future_DecRef :: "nat \<Rightarrow> remoting \<Rightarrow> remoting result" where
  "future_DecRef a = with_future a (\<lambda>f. f\<lparr>fu_refCount := fu_refCount f - 1\<rparr>)"

text \<open>The first block of both calls: \<^verbatim>\<open>insert\<close> leaves an entry that is already there.\<close>

definition register_future :: "call_kind \<Rightarrow> int \<Rightarrow> int \<Rightarrow> int \<Rightarrow> nat option \<Rightarrow> int \<Rightarrow> remoting \<Rightarrow> remoting" where
  "register_future kind code opaque timeoutMillis cb now s =
     (let a = length (rt_futures s);
          f = ResponseFuture_new code opaque timeoutMillis cb now
      in s\<lparr>rt_futures := rt_futures s @ [f\<lparr>fu_refCount := fu_refCount f + 1\<rparr>],
           rt_callers := rt_callers s @ [(kind, Registered)],
           rt_responseTable := (if mget (rt_responseTable s) opaque = None then mput opaque a (rt_responseTable s)
                                else rt_responseTable s)\<rparr>)"

text \<open>The block that removes the entry of a call that failed or is over.\<close>

definition drop_entry :: "int \<Rightarrow> remoting \<Rightarrow> remoting result" where
  "drop_entry opaque s =
     (case mget (rt_responseTable s) opaque of
        Some b \<Rightarrow> bind_r (future_DecRef b s) (\<lambda>s'. Inr (s'\<lparr>rt_responseTable := mdel opaque (rt_responseTable s')\<rparr>))
      | None \<Rightarrow> Inr s)"

definition caller_at :: "nat \<Rightarrow> inv_pc \<Rightarrow> remoting \<Rightarrow> remoting" where
  "caller_at a pc s = s\<lparr>rt_callers := (rt_callers s)[a := (fst (rt_callers s ! a), pc)]\<rparr>"

definition call_sent :: "nat \<Rightarrow> remoting \<Rightarrow> remoting result" where
  "call_sent a s =
     bind_r (with_future a (\<lambda>f. f\<lparr>fu_sendRequestOK := True\<rparr>) s) (\<lambda>s'.
       Inr (caller_at a (case fst (rt_callers s ! a) of SyncCall \<Rightarrow> Waiting | AsyncCall \<Rightarrow> Cleaned) s'))"

definition call_removed :: "nat \<Rightarrow> remoting \<Rightarrow> remoting result" where
  "call_removed a s = bind_r (drop_entry (fu_opaque (future s a)) s) (\<lambda>s'. Inr (caller_at a Cleaned s'))"

text \<open>\<^verbatim>\<open>waitResponse\<close> ends with the response or, after the timeout, without.\<close>

definition call_woken :: "nat \<Rightarrow> remoting \<Rightarrow> remoting result" where
  "call_woken a s =
     bind_r (with_future a (\<lambda>f. f) s) (\<lambda>s'.
       Inr (caller_at a Woken (s'\<lparr>rt_results := rt_results s' @ [(a, fu_responseCommand (future s a))]\<rparr>)))"

definition call_returned :: "nat \<Rightarrow> remoting \<Rightarrow> remoting result" where
  "call_returned a s = bind_r (future_DecRef a s) (\<lambda>s'. Inr (caller_at a Returned s'))"

section \<open>Receiving\<close>

text \<open>
  \<^verbatim>\<open>ProcessData\<close> up to \<^verbatim>\<open>processMessageReceived\<close>: a header that is not JSON gives a NULL command; a response
  nobody waits for is dropped; the header is read for the code of the request.
\<close>

definition lookup_response :: "endian \<Rightarrow> string \<Rightarrow> remoting \<Rightarrow> RemotingCommand option result" where
  "lookup_response e data s =
     bind_r (Decode_cmd e data (int (length data))) (\<lambda>decoded.
       case decoded of
         None \<Rightarrow> Inl Undefined
       | Some cmd \<Rightarrow>
           if isResponseType cmd then
             (case mget (rt_responseTable s) (rc_opaque cmd) of
                Some a \<Rightarrow> bind_r (MakeCustomHeader (fu_requestCode (future s a)) data cmd) (\<lambda>c. Inr (Some c))
              | None \<Rightarrow> Inr None)
           else bind_r (MakeCustomHeader (rc_code cmd) data cmd) (\<lambda>c. Inr (Some c)))"

definition process_data :: "endian \<Rightarrow> string \<Rightarrow> remoting \<Rightarrow> remoting result" where
  "process_data e data s =
     bind_r (lookup_response e data s) (\<lambda>r.
       Inr (s\<lparr>rt_workers := rt_workers s @ [case r of Some cmd \<Rightarrow> Looked cmd | None \<Rightarrow> Finished]\<rparr>))"

definition worker_at :: "nat \<Rightarrow> worker \<Rightarrow> remoting \<Rightarrow> remoting" where
  "worker_at i w s = s\<lparr>rt_workers := (rt_workers s)[i := w]\<rparr>"

text \<open>\<^verbatim>\<open>processMessageReceived\<close>; \<^verbatim>\<open>processRequestCommand\<close> is empty.\<close>

definition take_future :: "nat \<Rightarrow> RemotingCommand \<Rightarrow> remoting \<Rightarrow> remoting" where
  "take_future i cmd s =
     (case getType cmd of
        REQUEST_COMMAND \<Rightarrow> worker_at i Finished s
      | RESPONSE_COMMAND \<Rightarrow>
          (case mget (rt_responseTable s) (rc_opaque cmd) of
             Some a \<Rightarrow> worker_at i (Took cmd a) (s\<lparr>rt_responseTable := mdel (rc_opaque cmd) (rt_responseTable s)\<rparr>)
           | None \<Rightarrow> worker_at i Finished s))"

definition executeInvokeCallback :: "nat \<Rightarrow> remoting \<Rightarrow> remoting result" where
  "executeInvokeCallback a s =
     bind_r (with_future a (\<lambda>f. f) s) (\<lambda>s'.
       future_DecRef a (s'\<lparr>rt_completed := (if fu_invokeCallback (future s a) \<noteq> None
         then rt_completed s' @ [(a, fu_responseCommand (future s a))] else rt_completed s')\<rparr>))"

definition HandleTimerEvent :: "int \<Rightarrow> remoting \<Rightarrow> remoting" where
  "HandleTimerEvent tm s = s"

section \<open>Actions\<close>

datatype action =
    Call call_kind int int int "nat option" int
  | Sent nat | SendFailed nat | Wake nat | Cleanup nat | Return nat
  | Receive string | Take nat | Fill nat | Complete nat
  | Tick int

definition caller_pc :: "remoting \<Rightarrow> nat \<Rightarrow> inv_pc" where
  "caller_pc s a = snd (rt_callers s ! a)"

fun enabled :: "remoting \<Rightarrow> action \<Rightarrow> bool" where
  "enabled s (Sent a) \<longleftrightarrow> a < length (rt_callers s) \<and> caller_pc s a = Registered"
| "enabled s (SendFailed a) \<longleftrightarrow> a < length (rt_callers s) \<and> caller_pc s a = Registered"
| "enabled s (Wake a) \<longleftrightarrow> a < length (rt_callers s) \<and> caller_pc s a = Waiting"
| "enabled s (Cleanup a) \<longleftrightarrow> a < length (rt_callers s) \<and> caller_pc s a = Woken"
| "enabled s (Return a) \<longleftrightarrow> a < length (rt_callers s) \<and> caller_pc s a = Cleaned"
| "enabled s (Take i) \<longleftrightarrow> i < length (rt_workers s) \<and> (case rt_workers s ! i of Looked _ \<Rightarrow> True | _ \<Rightarrow> False)"
| "enabled s (Fill i) \<longleftrightarrow> i < length (rt_workers s) \<and> (case rt_workers s ! i of Took _ _ \<Rightarrow> True | _ \<Rightarrow> False)"
| "enabled s (Complete i) \<longleftrightarrow> i < length (rt_workers s) \<and> (case rt_workers s ! i of Filled _ \<Rightarrow> True | _ \<Rightarrow> False)"
| "enabled s _ \<longleftrightarrow> True"

fun perform :: "endian \<Rightarrow> action \<Rightarrow> remoting \<Rightarrow> remoting result" where
  "perform e (Call kind code opaque timeoutMillis cb now) s = Inr (register_future kind code opaque timeoutMillis cb now s)"
| "perform e (Sent a) s = call_sent a s"
| "perform e (SendFailed a) s = call_removed a s"
| "perform e (Wake a) s = call_woken a s"
| "perform e (Cleanup a) s = call_removed a s"
| "perform e (Return a) s = call_returned a s"
| "perform e (Receive data) s = process_data e data s"
| "perform e (Take i) s = (case rt_workers s ! i of Looked cmd \<Rightarrow> Inr (take_future i cmd s) | _ \<Rightarrow> Inl Undefined)"
| "perform e (Fill i) s =
     (case rt_workers s ! i of
        Took cmd a \<Rightarrow> bind_r (with_future a (putResponse cmd) s) (\<lambda>s'. Inr (worker_at i (Filled a) s'))
      | _ \<Rightarrow> Inl Undefined)"
| "perform e (Complete i) s =
     (case rt_workers s ! i of
        Filled a \<Rightarrow> bind_r (executeInvokeCallback a s) (\<lambda>s'. Inr (worker_at i Finished s'))
      | _ \<Rightarrow> Inl Undefined)"
| "perform e (Tick tm) s = Inr (HandleTimerEvent tm s)"

fun run_actions :: "endian \<Rightarrow> action list \<Rightarrow> remoting \<Rightarrow> remoting result" where
  "run_actions e [] s = Inr s"
| "run_actions e (x # xs) s = (if enabled s x then bind_r (perform e x s) (run_actions e xs) else run_actions e xs s)"

inductive calls_reachable :: "endian \<Rightarrow> remoting \<Rightarrow> bool" for e where
  start: "calls_reachable e remoting_new"
| step: "calls_reachable e s \<Longrightarrow> enabled s x \<Longrightarrow> perform e x s = Inr s' \<Longrightarrow> calls_reachable e s'"

section \<open>The calls in one piece\<close>

definition invokeAsyncImpl ::
  "(string \<Rightarrow> TcpTransport \<Rightarrow> TcpTransport \<times> string \<times> int) \<Rightarrow> TcpTransport \<Rightarrow> RemotingCommand \<Rightarrow> int \<Rightarrow>
   nat option \<Rightarrow> int \<Rightarrow> remoting \<Rightarrow> (TcpTransport \<times> string \<times> remoting \<times> int) result" where
  "invokeAsyncImpl sendData t request timeoutMillis cb now s =
     (let a = length (rt_futures s);
          s1 = register_future AsyncCall (rc_code request) (rc_opaque request) timeoutMillis cb now s;
          (t', sent, ret) = SendCmd sendData t request
      in bind_r (if ret = 0 then call_sent a s1 else call_removed a s1) (\<lambda>s2.
         bind_r (call_returned a s2) (\<lambda>s3. Inr (t', sent, s3, ret))))"

definition invokeAsync ::
  "(string \<Rightarrow> TcpTransport \<Rightarrow> (TcpTransport \<times> int) result) \<Rightarrow> (int \<Rightarrow> bool) \<Rightarrow>
   (string \<Rightarrow> TcpTransport \<Rightarrow> TcpTransport \<times> string \<times> int) \<Rightarrow> string \<Rightarrow> RemotingCommand \<Rightarrow> int \<Rightarrow> nat option \<Rightarrow> int \<Rightarrow>
   (string, TcpTransport) stdmap \<Rightarrow> remoting \<Rightarrow> ((string, TcpTransport) stdmap \<times> string \<times> remoting \<times> int) result" where
  "invokeAsync connect alloc sendData addr request timeoutMillis cb now table s =
     bind_r (GetAndCreateTransport connect alloc addr table) (\<lambda>(table', tts).
       case tts of
         Some t \<Rightarrow>
           if IsConnected t then
             bind_r (invokeAsyncImpl sendData t request timeoutMillis cb now s) (\<lambda>(t', sent, s', ret).
               Inr (mput addr t' table', sent, s', ret))
           else bind_r (RemoveTTS tts table') (\<lambda>table''. Inr (table'', [], s, - 1))
       | None \<Rightarrow> bind_r (RemoveTTS tts table') (\<lambda>table''. Inr (table'', [], s, - 1)))"

text \<open>
  \<^verbatim>\<open>HandleSocketEvent\<close>: every connection whose socket is ready is read once, in the order of the table; each
  message becomes one work of the pool. \<open>ready\<close> gives the answer of \<^verbatim>\<open>recv\<close> for a ready socket.
\<close>

primrec receive_ready ::
  "endian \<Rightarrow> (int \<Rightarrow> bool) \<Rightarrow> (string \<Rightarrow> recv_answer option) \<Rightarrow> (string, TcpTransport) stdmap \<Rightarrow>
   ((string, TcpTransport) stdmap \<times> string list) result option" where
  "receive_ready e alloc ready [] = Some (Inr ([], []))"
| "receive_ready e alloc ready (entry # rest) =
     (case (case ready (fst entry) of
              None \<Rightarrow> Some (Inr (snd entry, [], 0))
            | Some ans \<Rightarrow> RecvData e alloc ans (snd entry)) of
        None \<Rightarrow> None
      | Some (Inl x) \<Rightarrow> Some (Inl x)
      | Some (Inr (t', out, ret)) \<Rightarrow>
          (case receive_ready e alloc ready rest of
             None \<Rightarrow> None
           | Some (Inl x) \<Rightarrow> Some (Inl x)
           | Some (Inr (rest', outs)) \<Rightarrow> Some (Inr ((fst entry, t') # rest', out @ outs))))"

datatype work = ProcessDataWork string

definition HandleSocketEvent ::
  "endian \<Rightarrow> (int \<Rightarrow> bool) \<Rightarrow> (string \<Rightarrow> recv_answer option) \<Rightarrow> (string, TcpTransport) stdmap \<Rightarrow> work list \<Rightarrow>
   ((string, TcpTransport) stdmap \<times> work list) result option" where
  "HandleSocketEvent e alloc ready table queue =
     (case receive_ready e alloc ready table of
        None \<Rightarrow> None
      | Some (Inl x) \<Rightarrow> Some (Inl x)
      | Some (Inr (table', datas)) \<Rightarrow> Some (Inr (table', queue @ map ProcessDataWork datas)))"

section \<open>Invariant\<close>

fun in_hand :: "worker \<Rightarrow> nat option" where
  "in_hand (Took cmd a) = Some a"
| "in_hand (Filled a) = Some a"
| "in_hand _ = None"

definition hands :: "remoting \<Rightarrow> nat \<Rightarrow> nat" where
  "hands s a = length (filter (\<lambda>w. in_hand w = Some a) (rt_workers s))"

definition entries :: "remoting \<Rightarrow> nat \<Rightarrow> nat" where
  "entries s a = (if mget (rt_responseTable s) (fu_opaque (future s a)) = Some a then 1 else 0)"

definition runs :: "remoting \<Rightarrow> nat \<Rightarrow> nat" where
  "runs s a = length (filter (\<lambda>c. fst c = a) (rt_completed s))"

definition answers :: "remoting \<Rightarrow> nat \<Rightarrow> RemotingCommand \<Rightarrow> bool" where
  "answers s a cmd \<longleftrightarrow> a < length (rt_futures s) \<and> isResponseType cmd \<and> rc_opaque cmd = fu_opaque (future s a)"

fun worker_ok :: "remoting \<Rightarrow> worker \<Rightarrow> bool" where
  "worker_ok s (Took cmd a) \<longleftrightarrow> answers s a cmd"
| "worker_ok s (Filled a) \<longleftrightarrow> (\<exists>cmd. fu_responseCommand (future s a) = Some cmd \<and> answers s a cmd)"
| "worker_ok s _ \<longleftrightarrow> True"

definition owners :: "remoting \<Rightarrow> nat \<Rightarrow> nat" where
  "owners s a = (if caller_pc s a = Returned then 0 else 1) + entries s a + hands s a"

definition calls_ok :: "remoting \<Rightarrow> bool" where
  "calls_ok s \<longleftrightarrow> length (rt_callers s) = length (rt_futures s) \<and> mok (rt_responseTable s) \<and>
     (\<forall>k a. mget (rt_responseTable s) k = Some a \<longrightarrow> a < length (rt_futures s) \<and> fu_opaque (future s a) = k) \<and>
     (\<forall>w \<in> set (rt_workers s). worker_ok s w) \<and>
     (\<forall>(a, r) \<in> set (rt_completed s). \<exists>cmd. r = Some cmd \<and> answers s a cmd) \<and>
     (\<forall>a < length (rt_futures s). int (owners s a) \<le> fu_refCount (future s a) \<and> entries s a + hands s a + runs s a \<le> 1)"

lemma length_filter_update:
  "i < length xs \<Longrightarrow> length (filter P (xs[i := x])) + (if P (xs ! i) then 1 else 0) = length (filter P xs) + (if P x then 1 else 0)"
proof (induction xs arbitrary: i)
  case (Cons y ys)
  then show ?case by (cases i) auto
qed simp

lemma with_future_Inr:
  "with_future a g s = Inr s' \<longleftrightarrow> a < length (rt_futures s) \<and> fu_refCount (future s a) > 0 \<and>
     s' = s\<lparr>rt_futures := (rt_futures s)[a := g (future s a)]\<rparr>"
  by (auto simp: with_future_def)

lemma update_opaque:
  "(\<And>f. fu_opaque (g f) = fu_opaque f) \<Longrightarrow> fu_opaque (fs[a := g (fs ! a)] ! b) = fu_opaque (fs ! b)"
  by (cases "a < length fs") (auto simp: nth_list_update list_update_beyond)

lemma remoting_new_ok: "calls_ok remoting_new"
  by (simp add: calls_ok_def remoting_new_def)

lemma calls_okD:
  assumes "calls_ok s"
  shows "length (rt_callers s) = length (rt_futures s)" "mok (rt_responseTable s)"
    "mget (rt_responseTable s) k = Some a \<Longrightarrow> a < length (rt_futures s)"
    "mget (rt_responseTable s) k = Some a \<Longrightarrow> fu_opaque (future s a) = k"
    "w \<in> set (rt_workers s) \<Longrightarrow> worker_ok s w"
    "(a, r) \<in> set (rt_completed s) \<Longrightarrow> \<exists>cmd. r = Some cmd \<and> answers s a cmd"
    "a < length (rt_futures s) \<Longrightarrow> int (owners s a) \<le> fu_refCount (future s a)"
    "a < length (rt_futures s) \<Longrightarrow> entries s a + hands s a + runs s a \<le> 1"
  using assms unfolding calls_ok_def by blast+

lemma fresh_address:
  assumes "calls_ok s"
  shows "hands s (length (rt_futures s)) = 0" "runs s (length (rt_futures s)) = 0"
proof -
  have "in_hand w \<noteq> Some (length (rt_futures s))" if "w \<in> set (rt_workers s)" for w
    using calls_okD(5) [OF assms that] by (cases w) (auto simp: answers_def)
  then show "hands s (length (rt_futures s)) = 0" by (simp add: hands_def)
  have "fst c \<noteq> length (rt_futures s)" if "c \<in> set (rt_completed s)" for c
    using calls_okD(6) [OF assms, of "fst c" "snd c"] that by (auto simp: answers_def)
  then show "runs s (length (rt_futures s)) = 0" by (simp add: runs_def)
qed

text \<open>A worker and a completion stay well formed as long as futures keep their numbers and their responses.\<close>

definition keeps_futures :: "remoting \<Rightarrow> remoting \<Rightarrow> bool" where
  "keeps_futures s s' \<longleftrightarrow> length (rt_futures s) \<le> length (rt_futures s') \<and>
     (\<forall>a < length (rt_futures s). fu_opaque (future s' a) = fu_opaque (future s a) \<and>
        (fu_responseCommand (future s' a) = fu_responseCommand (future s a) \<or>
         (\<exists>cmd. fu_responseCommand (future s' a) = Some cmd \<and> answers s a cmd)))"

lemma keeps_answers: "keeps_futures s s' \<Longrightarrow> answers s a cmd \<Longrightarrow> answers s' a cmd"
  by (auto simp: keeps_futures_def answers_def)

lemma keeps_worker:
  assumes "keeps_futures s s'" "worker_ok s w"
  shows "worker_ok s' w"
proof (cases w)
  case (Filled a)
  with assms(2) obtain cmd where c: "fu_responseCommand (future s a) = Some cmd" "answers s a cmd" by auto
  then have "a < length (rt_futures s)" by (simp add: answers_def)
  with assms(1) c show ?thesis using Filled keeps_answers [OF assms(1)] by (auto simp: keeps_futures_def)
qed (use assms keeps_answers in auto)

lemma register_ok:
  assumes "calls_ok s"
  shows "calls_ok (register_future kind code opaque timeoutMillis cb now s)" (is "calls_ok ?s")
  unfolding calls_ok_def
proof (intro conjI allI ballI impI)
  note ok = calls_okD [OF assms]
  let ?n = "length (rt_futures s)"
  have same: "hands ?s a = hands s a" "runs ?s a = runs s a" for a
    by (simp_all add: hands_def runs_def register_future_def Let_def)
  have old: "future ?s a = future s a" "owners ?s a = owners s a" "entries ?s a = entries s a" if "a < ?n" for a
    using that ok(1) by (auto simp: register_future_def Let_def nth_append caller_pc_def owners_def hands_def entries_def mget_mput)
  have new: "fu_refCount (future ?s ?n) = 2" "entries ?s ?n \<le> 1" "hands ?s ?n = 0" "runs ?s ?n = 0"
    using fresh_address [OF assms] same
    by (auto simp: register_future_def Let_def nth_append entries_def ResponseFuture_new_def)
  have keep: "keeps_futures s ?s" using old(1) by (simp add: keeps_futures_def register_future_def Let_def nth_append)
  show "length (rt_callers ?s) = length (rt_futures ?s)" using ok(1) by (simp add: register_future_def Let_def)
  show "mok (rt_responseTable ?s)" using ok(2) by (simp add: register_future_def Let_def mok_mput)
  show "a < length (rt_futures ?s)" "fu_opaque (future ?s a) = k" if "mget (rt_responseTable ?s) k = Some a" for k a
    using that ok(3,4) [of k a] by (auto simp: register_future_def Let_def mget_mput nth_append ResponseFuture_new_def split: if_splits)
  show "worker_ok ?s w" if "w \<in> set (rt_workers ?s)" for w
    using that by (intro keeps_worker [OF keep] ok(5)) (simp add: register_future_def Let_def)
  show "case c of (a, r) \<Rightarrow> \<exists>cmd. r = Some cmd \<and> answers ?s a cmd" if "c \<in> set (rt_completed ?s)" for c
    using that ok(6) [of "fst c" "snd c"] keeps_answers [OF keep] by (auto simp: register_future_def Let_def)
  fix a
  assume "a < length (rt_futures ?s)"
  then consider "a < ?n" | "a = ?n" by (auto simp: register_future_def Let_def less_Suc_eq)
  then show "int (owners ?s a) \<le> fu_refCount (future ?s a)" "entries ?s a + hands ?s a + runs ?s a \<le> 1"
    using ok(7,8) [of a] old [of a] same [of a] new by (cases; simp add: owners_def)+
qed

lemma calls_ok_change:
  assumes "calls_ok s" "keeps_futures s s'" "length (rt_callers s') = length (rt_callers s)"
    and "length (rt_futures s') = length (rt_futures s)" "mok (rt_responseTable s')"
    and "\<And>k a. mget (rt_responseTable s') k = Some a \<Longrightarrow> mget (rt_responseTable s) k = Some a"
    and "\<And>w. w \<in> set (rt_workers s') \<Longrightarrow> w \<in> set (rt_workers s) \<or> worker_ok s' w"
    and "\<And>a r. (a, r) \<in> set (rt_completed s') \<Longrightarrow> (a, r) \<in> set (rt_completed s) \<or> (\<exists>cmd. r = Some cmd \<and> answers s a cmd)"
    and "\<And>a. a < length (rt_futures s) \<Longrightarrow> int (owners s' a) + fu_refCount (future s a) \<le> int (owners s a) + fu_refCount (future s' a)"
    and "\<And>a. a < length (rt_futures s) \<Longrightarrow> entries s' a + hands s' a + runs s' a \<le> entries s a + hands s a + runs s a"
  shows "calls_ok s'"
  unfolding calls_ok_def
proof (intro conjI allI ballI impI)
  note ok = calls_okD [OF assms(1)]
  show "length (rt_callers s') = length (rt_futures s')" using ok(1) assms(3,4) by simp
  show "mok (rt_responseTable s')" by fact
  show "a < length (rt_futures s')" if "mget (rt_responseTable s') k = Some a" for k a
    using ok(3) [OF assms(6) [OF that]] assms(4) by simp
  show "fu_opaque (future s' a) = k" if "mget (rt_responseTable s') k = Some a" for k a
    using ok(3,4) [OF assms(6) [OF that]] assms(2) by (simp add: keeps_futures_def)
  show "worker_ok s' w" if "w \<in> set (rt_workers s')" for w
    using assms(7) [OF that] ok(5) keeps_worker [OF assms(2)] by blast
  show "case c of (a, r) \<Rightarrow> \<exists>cmd. r = Some cmd \<and> answers s' a cmd" if "c \<in> set (rt_completed s')" for c
    using that assms(8) [of "fst c" "snd c"] ok(6) [of "fst c" "snd c"] keeps_answers [OF assms(2)] by fastforce
  show "int (owners s' a) \<le> fu_refCount (future s' a)" "entries s' a + hands s' a + runs s' a \<le> 1"
    if "a < length (rt_futures s')" for a
    using that assms(4) assms(9,10) [of a] ok(7,8) [of a] by simp_all
qed

text \<open>The counts after the elementary changes of the state.\<close>

lemma counts_caller_at:
  "entries (caller_at a pc s) b = entries s b" "hands (caller_at a pc s) b = hands s b" "runs (caller_at a pc s) b = runs s b"
  "rt_futures (caller_at a pc s) = rt_futures s" "rt_responseTable (caller_at a pc s) = rt_responseTable s"
  "rt_workers (caller_at a pc s) = rt_workers s" "rt_completed (caller_at a pc s) = rt_completed s"
  "length (rt_callers (caller_at a pc s)) = length (rt_callers s)"
  "a < length (rt_callers s) \<Longrightarrow> caller_pc (caller_at a pc s) b = (if b = a then pc else caller_pc s b)"
  by (simp_all add: caller_at_def entries_def hands_def runs_def caller_pc_def nth_list_update)

lemma counts_futures:
  assumes "\<And>f. fu_opaque (g f) = fu_opaque f"
  shows "entries (s\<lparr>rt_futures := (rt_futures s)[a := g (future s a)]\<rparr>) b = entries s b"
    "hands (s\<lparr>rt_futures := (rt_futures s)[a := g (future s a)]\<rparr>) b = hands s b"
    "runs (s\<lparr>rt_futures := (rt_futures s)[a := g (future s a)]\<rparr>) b = runs s b"
    "caller_pc (s\<lparr>rt_futures := (rt_futures s)[a := g (future s a)]\<rparr>) b = caller_pc s b"
  by (simp_all add: entries_def hands_def runs_def caller_pc_def update_opaque [of g, OF assms])

lemma keeps_update:
  assumes "\<And>f. fu_opaque (g f) = fu_opaque f" "\<And>f. fu_responseCommand (g f) = fu_responseCommand f"
  shows "rt_futures s' = (rt_futures s)[a := g (future s a)] \<Longrightarrow> keeps_futures s s'"
  using assms by (cases "a < length (rt_futures s)") (auto simp: keeps_futures_def nth_list_update list_update_beyond)

lemma sent_ok:
  assumes "calls_ok s" "enabled s (Sent a)" "call_sent a s = Inr s'"
  shows "calls_ok s'"
proof -
  let ?g = "\<lambda>f. f\<lparr>fu_sendRequestOK := True\<rparr>"
  let ?s = "s\<lparr>rt_futures := (rt_futures s)[a := ?g (future s a)]\<rparr>"
  obtain pc where pc: "pc \<noteq> Returned" and s': "s' = caller_at a pc ?s" and al: "a < length (rt_futures s)"
    using assms(3) by (auto simp: call_sent_def bind_r_Inr with_future_Inr split: call_kind.splits)
  note c = counts_futures [of ?g, simplified]
  show ?thesis
  proof (rule calls_ok_change [OF assms(1)])
    show "keeps_futures s s'" unfolding s' by (rule keeps_update [of ?g]) (simp_all add: counts_caller_at)
  qed (use pc al calls_okD(1,2) [OF assms(1)] assms(2) in \<open>auto simp: s' counts_caller_at c owners_def nth_list_update\<close>)
qed

lemma woken_ok:
  assumes "calls_ok s" "enabled s (Wake a)" "call_woken a s = Inr s'"
  shows "calls_ok s'"
proof -
  have s': "s' = caller_at a Woken (s\<lparr>rt_results := rt_results s @ [(a, fu_responseCommand (future s a))]\<rparr>)"
    using assms(3) by (auto simp: call_woken_def bind_r_Inr with_future_Inr)
  have c: "entries s' b = entries s b" "hands s' b = hands s b" "runs s' b = runs s b" for b
    by (simp_all add: s' counts_caller_at) (simp_all add: entries_def hands_def runs_def)
  have p: "caller_pc s' b = (if b = a then Woken else caller_pc s b)" for b
    using assms(2) by (simp add: s' caller_at_def caller_pc_def nth_list_update)
  show ?thesis
  proof (rule calls_ok_change [OF assms(1)])
    show "keeps_futures s s'" by (rule keeps_update [of "\<lambda>f. f" _ _ a]) (simp_all add: s' counts_caller_at)
  qed (use calls_okD(1,2) [OF assms(1)] assms(2) c p in \<open>auto simp: s' counts_caller_at owners_def\<close>)
qed

lemma returned_ok:
  assumes "calls_ok s" "enabled s (Return a)" "call_returned a s = Inr s'"
  shows "calls_ok s'"
proof -
  let ?g = "\<lambda>f. f\<lparr>fu_refCount := fu_refCount f - 1\<rparr>"
  let ?s = "s\<lparr>rt_futures := (rt_futures s)[a := ?g (future s a)]\<rparr>"
  have s': "s' = caller_at a Returned ?s" and al: "a < length (rt_futures s)"
    using assms(3) by (auto simp: call_returned_def future_DecRef_def bind_r_Inr with_future_Inr)
  note c = counts_futures [of ?g, simplified]
  show ?thesis
  proof (rule calls_ok_change [OF assms(1)])
    show "keeps_futures s s'" unfolding s' by (rule keeps_update [of ?g]) (simp_all add: counts_caller_at)
  qed (use al calls_okD(1,2) [OF assms(1)] assms(2) in \<open>auto simp: s' counts_caller_at c owners_def nth_list_update\<close>)
qed

lemma drop_entry_ok:
  assumes "calls_ok s" "drop_entry k s = Inr s'"
  shows "calls_ok s' \<and> rt_callers s' = rt_callers s"
proof (cases "mget (rt_responseTable s) k")
  case (Some b)
  let ?g = "\<lambda>f. f\<lparr>fu_refCount := fu_refCount f - 1\<rparr>"
  have s': "s' = s\<lparr>rt_futures := (rt_futures s)[b := ?g (future s b)], rt_responseTable := mdel k (rt_responseTable s)\<rparr>"
    using assms(2) Some by (auto simp: drop_entry_def future_DecRef_def bind_r_Inr with_future_Inr)
  note ok = calls_okD [OF assms(1)]
  have c: "hands s' a = hands s a" "runs s' a = runs s a" "caller_pc s' a = caller_pc s a" for a
    by (simp_all add: s' hands_def runs_def caller_pc_def)
  have en: "entries s' a = (if a = b then 0 else entries s a)" "entries s b = 1" for a
    using ok(2) ok(4) [OF Some] ok(4) [of "fu_opaque (future s a)" a] Some update_opaque [of ?g]
    by (auto simp: s' entries_def mget_mdel)
  have "calls_ok s'"
  proof (rule calls_ok_change [OF assms(1)])
    show "keeps_futures s s'" unfolding s' by (rule keeps_update [of ?g]) simp_all
    show "int (owners s' a) + fu_refCount (future s a) \<le> int (owners s a) + fu_refCount (future s' a)"
      if "a < length (rt_futures s)" for a
      using that c en by (auto simp: owners_def) (auto simp: s' nth_list_update)
    show "entries s' a + hands s' a + runs s' a \<le> entries s a + hands s a + runs s a" for a using c en by auto
  qed (use ok(2) in \<open>auto simp: s' mok_mdel mget_mdel split: if_splits\<close>)
  then show ?thesis by (simp add: s')
qed (use assms in \<open>simp add: drop_entry_def\<close>)

lemma removed_ok:
  assumes "calls_ok s" "a < length (rt_callers s)" "caller_pc s a \<noteq> Returned" "call_removed a s = Inr s'"
  shows "calls_ok s'"
proof -
  obtain t where t: "drop_entry (fu_opaque (future s a)) s = Inr t" "s' = caller_at a Cleaned t"
    using assms(4) by (auto simp: call_removed_def bind_r_Inr)
  have ok: "calls_ok t" "rt_callers t = rt_callers s" using drop_entry_ok [OF assms(1) t(1)] by simp_all
  then have pc: "caller_pc t b = caller_pc s b" for b by (simp add: caller_pc_def)
  show ?thesis
  proof (rule calls_ok_change [OF ok(1)])
    show "keeps_futures t s'" by (rule keeps_update [of "\<lambda>f. f" _ _ a]) (simp_all add: t counts_caller_at)
  qed (use calls_okD(1,2) [OF ok(1)] assms(2,3) ok(2) pc in \<open>auto simp: t counts_caller_at owners_def\<close>)
qed

lemma process_data_ok:
  assumes "calls_ok s" "process_data e data s = Inr s'"
  shows "calls_ok s'"
proof -
  obtain w where w: "in_hand w = None" "worker_ok s' w" "s' = s\<lparr>rt_workers := rt_workers s @ [w]\<rparr>"
  proof -
    obtain r where "s' = s\<lparr>rt_workers := rt_workers s @ [case r of Some cmd \<Rightarrow> Looked cmd | None \<Rightarrow> Finished]\<rparr>"
      using assms(2) by (auto simp: process_data_def bind_r_Inr)
    then show thesis by (intro that [of "case r of Some cmd \<Rightarrow> Looked cmd | None \<Rightarrow> Finished"]) (simp_all split: option.split)
  qed
  have c: "entries s' b = entries s b" "hands s' b = hands s b" "runs s' b = runs s b" "caller_pc s' b = caller_pc s b" for b
    using w(1) by (simp_all add: w(3) entries_def hands_def runs_def caller_pc_def)
  show ?thesis
  proof (rule calls_ok_change [OF assms(1)])
    show "keeps_futures s s'" by (rule keeps_update [of "\<lambda>f. f" _ _ 0]) (simp_all add: w(3))
  qed (use calls_okD(2) [OF assms(1)] c w(2) in \<open>auto simp: owners_def\<close>, auto simp: w(3))
qed

lemma hands_worker_at:
  assumes "i < length (rt_workers s)"
  shows "hands (worker_at i w s) a + (if in_hand (rt_workers s ! i) = Some a then 1 else 0) =
    hands s a + (if in_hand w = Some a then 1 else 0)"
  unfolding hands_def worker_at_def using length_filter_update [OF assms, of "\<lambda>w. in_hand w = Some a" w] by simp

lemma worker_at_fields:
  "rt_futures (worker_at i w s) = rt_futures s" "rt_responseTable (worker_at i w s) = rt_responseTable s"
  "rt_callers (worker_at i w s) = rt_callers s" "rt_completed (worker_at i w s) = rt_completed s"
  "entries (worker_at i w s) a = entries s a" "runs (worker_at i w s) a = runs s a" "caller_pc (worker_at i w s) a = caller_pc s a"
  "w' \<in> set (rt_workers (worker_at i w s)) \<Longrightarrow> w' = w \<or> w' \<in> set (rt_workers s)"
  by (auto simp: worker_at_def entries_def runs_def caller_pc_def dest: set_update_subset_insert [THEN subsetD])

lemma worker_done_ok:
  assumes "calls_ok s" "i < length (rt_workers s)"
  shows "calls_ok (worker_at i Finished s)"
proof (rule calls_ok_change [OF assms(1)])
  show "keeps_futures s (worker_at i Finished s)" by (rule keeps_update [of "\<lambda>f. f" _ _ 0]) (simp_all add: worker_at_fields)
  have h: "hands (worker_at i Finished s) a \<le> hands s a" for a using hands_worker_at [OF assms(2), of Finished a] by simp
  show "int (owners (worker_at i Finished s) a) + fu_refCount (future s a) \<le> int (owners s a) + fu_refCount (future (worker_at i Finished s) a)"
    "entries (worker_at i Finished s) a + hands (worker_at i Finished s) a + runs (worker_at i Finished s) a \<le> entries s a + hands s a + runs s a" for a
    using h [of a] by (simp_all add: owners_def worker_at_fields)
  show "w \<in> set (rt_workers s) \<or> worker_ok (worker_at i Finished s) w" if "w \<in> set (rt_workers (worker_at i Finished s))" for w
    using worker_at_fields(8) [OF that] by auto
qed (use calls_okD(2) [OF assms(1)] in \<open>auto simp: worker_at_fields\<close>)

lemma take_future_ok:
  assumes "calls_ok s" "i < length (rt_workers s)" "rt_workers s ! i = Looked cmd"
  shows "calls_ok (take_future i cmd s)"
proof (cases "isResponseType cmd \<and> mget (rt_responseTable s) (rc_opaque cmd) \<noteq> None")
  case True
  then obtain b where b: "isResponseType cmd" "mget (rt_responseTable s) (rc_opaque cmd) = Some b" by auto
  let ?t = "s\<lparr>rt_responseTable := mdel (rc_opaque cmd) (rt_responseTable s)\<rparr>"
  let ?s = "worker_at i (Took cmd b) ?t"
  note ok = calls_okD [OF assms(1)]
  have h: "hands ?s a = hands s a + (if a = b then 1 else 0)" for a
    using hands_worker_at [of i ?t "Took cmd b" a] assms(2,3) by (auto simp: hands_def)
  have en: "entries ?s a = (if a = b then 0 else entries s a)" "entries s b = 1" for a
    using ok(2) ok(4) [OF b(2)] ok(4) [of "fu_opaque (future s a)" a] b by (auto simp: worker_at_fields entries_def mget_mdel)
  have c: "runs ?s a = runs s a" "caller_pc ?s a = caller_pc s a" for a by (simp_all add: worker_at_fields) (simp_all add: runs_def caller_pc_def)
  have k: "keeps_futures s ?s" by (rule keeps_update [of "\<lambda>f. f" _ _ 0]) (simp_all add: worker_at_fields)
  have "calls_ok ?s"
  proof (rule calls_ok_change [OF assms(1) k])
    show "w \<in> set (rt_workers s) \<or> worker_ok ?s w" if "w \<in> set (rt_workers ?s)" for w
      using worker_at_fields(8) [OF that] ok(3,4) [OF b(2)] b(1) by (auto simp: answers_def worker_at_fields)
    show "int (owners ?s a) + fu_refCount (future s a) \<le> int (owners s a) + fu_refCount (future ?s a)" for a
      using h [of a] en(1) [of a] en(2) c [of a] by (simp add: owners_def worker_at_fields(1))
    show "entries ?s a + hands ?s a + runs ?s a \<le> entries s a + hands s a + runs s a" for a
      using h [of a] en(1) [of a] en(2) c [of a] by simp
  qed (use ok(2) in \<open>auto simp: worker_at_fields mok_mdel mget_mdel split: if_splits\<close>)
  with b show ?thesis by (simp add: take_future_def getType_def)
next
  case False
  then show ?thesis using worker_done_ok [OF assms(1,2)] by (auto simp: take_future_def getType_def)
qed

lemma fill_ok:
  assumes "calls_ok s" "i < length (rt_workers s)" "rt_workers s ! i = Took cmd a" "with_future a (putResponse cmd) s = Inr t"
  shows "calls_ok (worker_at i (Filled a) t)" (is "calls_ok ?s")
proof -
  let ?g = "putResponse cmd"
  have t: "t = s\<lparr>rt_futures := (rt_futures s)[a := ?g (future s a)]\<rparr>" "a < length (rt_futures s)"
    using assms(4) by (simp_all add: with_future_Inr)
  have op: "fu_opaque (?g f) = fu_opaque f" for f by (simp add: putResponse_def)
  note c = counts_futures [of ?g s a, OF op, folded t(1)]
  have an: "answers s a cmd" using calls_okD(5) [OF assms(1), of "Took cmd a"] assms(2,3) by (metis nth_mem worker_ok.simps(1))
  have k: "keeps_futures s ?s" using an t(2) by (auto simp: keeps_futures_def worker_at_fields t(1) nth_list_update putResponse_def)
  have h: "hands ?s b = hands s b" for b
    using hands_worker_at [of i t "Filled a" b] assms(2,3) c by (simp add: t(1) split: if_splits)
  show ?thesis
  proof (rule calls_ok_change [OF assms(1) k])
    show "w \<in> set (rt_workers s) \<or> worker_ok ?s w" if "w \<in> set (rt_workers ?s)" for w
      using worker_at_fields(8) [OF that] keeps_answers [OF k an] t(2) by (auto simp: worker_at_fields t(1) putResponse_def)
    show "int (owners ?s b) + fu_refCount (future s b) \<le> int (owners s b) + fu_refCount (future ?s b)" for b
      using h [of b] c t(2) by (simp add: owners_def worker_at_fields) (simp add: t(1) nth_list_update putResponse_def)
    show "entries ?s b + hands ?s b + runs ?s b \<le> entries s b + hands s b + runs s b" for b
      using h [of b] c by (simp add: worker_at_fields)
  qed (use calls_okD(2) [OF assms(1)] in \<open>auto simp: worker_at_fields t(1)\<close>)
qed

lemma complete_ok:
  assumes "calls_ok s" "i < length (rt_workers s)" "rt_workers s ! i = Filled a" "executeInvokeCallback a s = Inr t"
  shows "calls_ok (worker_at i Finished t)" (is "calls_ok ?s")
proof -
  let ?g = "\<lambda>f. f\<lparr>fu_refCount := fu_refCount f - 1\<rparr>"
  obtain cs where t: "t = s\<lparr>rt_completed := cs, rt_futures := (rt_futures s)[a := ?g (future s a)]\<rparr>" "a < length (rt_futures s)"
    and cs: "cs = rt_completed s \<or> cs = rt_completed s @ [(a, fu_responseCommand (future s a))]"
    using assms(4) by (auto simp: executeInvokeCallback_def future_DecRef_def bind_r_Inr with_future_Inr split: if_splits)
  have an: "\<exists>cmd. fu_responseCommand (future s a) = Some cmd \<and> answers s a cmd"
    using calls_okD(5) [OF assms(1), of "Filled a"] assms(2,3) by (metis nth_mem worker_ok.simps(2))
  have k: "keeps_futures s ?s" by (rule keeps_update [of ?g]) (simp_all add: worker_at_fields t(1))
  have h: "hands ?s b + (if b = a then 1 else 0) = hands s b" for b
    using hands_worker_at [of i t Finished b] assms(2,3) by (auto simp: t(1) hands_def split: if_splits)
  have en: "entries ?s b = entries s b" "caller_pc ?s b = caller_pc s b" "runs ?s b \<le> runs s b + (if b = a then 1 else 0)" for b
    using cs update_opaque [of ?g "rt_futures s" a] by (auto simp: worker_at_fields) (auto simp: t(1) entries_def caller_pc_def runs_def)
  show ?thesis
  proof (rule calls_ok_change [OF assms(1) k])
    show "w \<in> set (rt_workers s) \<or> worker_ok ?s w" if "w \<in> set (rt_workers ?s)" for w
      using worker_at_fields(8) [OF that] by (auto simp: t(1))
    show "int (owners ?s b) + fu_refCount (future s b) \<le> int (owners s b) + fu_refCount (future ?s b)" for b
      using h [of b] en [of b] t(2) by (simp add: owners_def worker_at_fields(1) split: if_splits) (simp_all add: t(1) nth_list_update)
    show "entries ?s b + hands ?s b + runs ?s b \<le> entries s b + hands s b + runs s b" for b
      using h [of b] en [of b] by (simp split: if_splits)
    show "(b, r) \<in> set (rt_completed s) \<or> (\<exists>cmd. r = Some cmd \<and> answers s b cmd)" if "(b, r) \<in> set (rt_completed ?s)" for b r
      using that cs an by (auto simp: worker_at_fields t(1))
  qed (use calls_okD(2) [OF assms(1)] in \<open>auto simp: worker_at_fields t(1)\<close>)
qed

lemma perform_ok:
  assumes "calls_ok s" "enabled s x" "perform e x s = Inr s'"
  shows "calls_ok s'"
proof (cases x)
  case (Take i)
  then show ?thesis using assms take_future_ok by (auto split: worker.splits)
next
  case (Fill i)
  then show ?thesis using assms fill_ok by (auto simp: bind_r_Inr split: worker.splits)
next
  case (Complete i)
  then show ?thesis using assms complete_ok by (auto simp: bind_r_Inr split: worker.splits)
next
  case (SendFailed a)
  then show ?thesis using assms by (auto intro: removed_ok)
next
  case (Cleanup a)
  then show ?thesis using assms by (auto intro: removed_ok)
qed (use assms in \<open>auto simp: HandleTimerEvent_def simp del: enabled.simps
    intro: register_ok sent_ok woken_ok returned_ok process_data_ok\<close>)

lemma calls_reachable_ok: "calls_reachable e s \<Longrightarrow> calls_ok s"
  by (induction rule: calls_reachable.induct) (auto intro: remoting_new_ok perform_ok)

text \<open>Whoever refers to a future finds it alive.\<close>

lemma future_alive:
  assumes "calls_ok s" "a < length (rt_futures s)" "caller_pc s a \<noteq> Returned \<or> entries s a = 1 \<or> hands s a > 0"
  shows "\<exists>s'. with_future a g s = Inr s'"
proof -
  have "0 < owners s a" using assms(3) by (auto simp: owners_def)
  then show ?thesis using calls_okD(7) [OF assms(1,2)] assms(2) by (simp add: with_future_def)
qed

lemma hands_positive: "i < length (rt_workers s) \<Longrightarrow> in_hand (rt_workers s ! i) = Some a \<Longrightarrow> hands s a > 0"
  by (auto simp: hands_def filter_empty_conv intro: nth_mem)

lemma entry_alive:
  assumes "calls_ok s" "mget (rt_responseTable s) k = Some b"
  shows "\<exists>s'. with_future b g s = Inr s'"
  using calls_okD(3,4) [OF assms] assms by (intro future_alive) (auto simp: entries_def)

lemma bind_r_total: "\<exists>v. x = Inr v \<Longrightarrow> (\<And>v. \<exists>y. f v = Inr y) \<Longrightarrow> \<exists>y. bind_r x f = Inr y"
  by auto

lemma drop_entry_defined:
  assumes "calls_ok s"
  shows "\<exists>s'. drop_entry k s = Inr s'"
proof (cases "mget (rt_responseTable s) k")
  case (Some b)
  then show ?thesis using entry_alive [OF assms Some] by (auto simp: drop_entry_def future_DecRef_def intro!: bind_r_total)
qed (simp add: drop_entry_def)

lemma perform_defined:
  assumes "calls_ok s" "enabled s x" "\<forall>d. x \<noteq> Receive d"
  shows "\<exists>s'. perform e x s = Inr s'"
proof -
  have own: "\<exists>s'. with_future a g s = Inr s'" if "a < length (rt_callers s)" "caller_pc s a \<noteq> Returned" for a g
    using future_alive [OF assms(1)] that calls_okD(1) [OF assms(1)] by simp
  have held: "\<exists>s'. with_future a g s = Inr s'"
    if "i < length (rt_workers s)" "in_hand (rt_workers s ! i) = Some a" for i a g
  proof (rule future_alive [OF assms(1)])
    have "worker_ok s (rt_workers s ! i)" using that(1) calls_okD(5) [OF assms(1)] by simp
    with that(2) show "a < length (rt_futures s)" by (cases "rt_workers s ! i") (auto simp: answers_def)
  qed (use hands_positive [OF that] in simp)
  have run: "\<exists>s'. executeInvokeCallback a s = Inr s'"
    if "i < length (rt_workers s)" "in_hand (rt_workers s ! i) = Some a" for i a
    using held [OF that, of "\<lambda>f. f"]
    by (auto simp: executeInvokeCallback_def future_DecRef_def with_future_def split: if_splits)
  show ?thesis
  proof (cases x)
    case (Fill i)
    then show ?thesis using assms(2) held [of i] by (auto split: worker.splits intro!: bind_r_total)
  next
    case (Complete i)
    then show ?thesis using assms(2) run [of i] by (auto split: worker.splits intro!: bind_r_total)
  next
    case (SendFailed a)
    then show ?thesis using drop_entry_defined [OF assms(1)] by (auto simp: call_removed_def intro!: bind_r_total)
  next
    case (Cleanup a)
    then show ?thesis using drop_entry_defined [OF assms(1)] by (auto simp: call_removed_def intro!: bind_r_total)
  next
    case (Take i)
    then show ?thesis using assms(2) by (auto split: worker.splits)
  next
    case (Sent a)
    then show ?thesis using assms(2) own [of a] by (auto simp: call_sent_def intro!: bind_r_total)
  next
    case (Wake a)
    then show ?thesis using assms(2) own [of a] by (auto simp: call_woken_def intro!: bind_r_total)
  next
    case (Return a)
    then show ?thesis using assms(2) own [of a] by (auto simp: call_returned_def future_DecRef_def intro!: bind_r_total)
  qed (use assms(3) in auto)
qed

lemma distinct_fst: "(\<And>a. length (filter (\<lambda>c. fst c = a) xs) \<le> 1) \<Longrightarrow> distinct (map fst xs)"
proof (induction xs)
  case (Cons x xs)
  have "length (filter (\<lambda>c. fst c = a) xs) \<le> 1" for a using Cons.prems [of a] by (simp split: if_splits)
  moreover have "fst x \<notin> fst ` set xs"
    using Cons.prems [of "fst x"] by (auto simp: filter_empty_conv)
  ultimately show ?case using Cons.IH by simp
qed simp

section \<open>Properties\<close>

text \<open>
  Property C16. Calls in flight are safe under every interleaving of callers, workers, timeouts and failed
  sends: a callback runs at most once per call, only for a response that carries the number of
  that call, and never without a response; and no thread ever uses a future that was deleted.
\<close>

theorem callbacks_run_once:
  assumes "calls_reachable e s"
  shows "distinct (map fst (rt_completed s)) \<and>
    (\<forall>(a, r) \<in> set (rt_completed s). \<exists>cmd. r = Some cmd \<and> isResponseType cmd \<and> rc_opaque cmd = fu_opaque (future s a)) \<and>
    (\<forall>x. enabled s x \<and> (\<forall>d. x \<noteq> Receive d) \<longrightarrow> perform e x s \<noteq> Inl Undefined)"
proof (intro conjI)
  note ok = calls_reachable_ok [OF assms]
  have "runs s a \<le> 1" for a
  proof (cases "a < length (rt_futures s)")
    case False
    then have "c \<in> set (rt_completed s) \<Longrightarrow> fst c \<noteq> a" for c
      using calls_okD(6) [OF ok, of "fst c" "snd c"] by (auto simp: answers_def)
    then show ?thesis by (simp add: runs_def)
  qed (use calls_okD(8) [OF ok] in fastforce)
  then show "distinct (map fst (rt_completed s))" by (intro distinct_fst) (simp add: runs_def)
  show "\<forall>(a, r) \<in> set (rt_completed s). \<exists>cmd. r = Some cmd \<and> isResponseType cmd \<and> rc_opaque cmd = fu_opaque (future s a)"
    using calls_okD(6) [OF ok] by (fastforce simp: answers_def)
  show "\<forall>x. enabled s x \<and> (\<forall>d. x \<noteq> Receive d) \<longrightarrow> perform e x s \<noteq> Inl Undefined"
    using perform_defined [OF ok, of _ e] by force
qed

text \<open>A response as a broker sends it, to the call with number 7.\<close>

definition sample_answer :: RemotingCommand where
  "sample_answer = RemotingCommand_new 0 ''CPP'' 19 7 1 [] None"

definition sample_calls :: remoting where
  "sample_calls = register_future AsyncCall 34 7 3000 (Some 0) 1000 remoting_new"

definition sample_message :: "endian \<Rightarrow> string" where
  "sample_message e = the (rc_head (Encode_cmd e sample_answer))"

lemma sample_calls_reachable: "calls_reachable e sample_calls"
  unfolding sample_calls_def
  by (rule calls_reachable.step [OF calls_reachable.start, where x = "Call AsyncCall 34 7 3000 (Some 0) 1000"]) simp_all

theorem callbacks_run_once_witness:
  "calls_reachable LE sample_calls \<and> distinct (map fst (rt_completed sample_calls))"
  using callbacks_run_once [OF sample_calls_reachable] sample_calls_reachable by blast

text \<open>
  \<open>waits k a s\<close>: the table points from number \<open>k\<close> to future \<open>a\<close>, every call with that number was asynchronous and has
  been sent, and no worker carries a response with it.
\<close>

definition waits :: "int \<Rightarrow> nat \<Rightarrow> remoting \<Rightarrow> bool" where
  "waits k a s \<longleftrightarrow> mget (rt_responseTable s) k = Some a \<and>
     (\<forall>cmd. Looked cmd \<in> set (rt_workers s) \<longrightarrow> \<not> (isResponseType cmd \<and> rc_opaque cmd = k)) \<and>
     (\<forall>b < length (rt_futures s). fu_opaque (future s b) = k \<longrightarrow>
        fst (rt_callers s ! b) = AsyncCall \<and> caller_pc s b \<in> {Cleaned, Returned})"

text \<open>Actions that bring neither an answer to \<open>k\<close> nor a new call with that number; any amount of time may pass.\<close>

fun unrelated :: "endian \<Rightarrow> int \<Rightarrow> action \<Rightarrow> bool" where
  "unrelated e k (Receive d) \<longleftrightarrow>
     (\<forall>cmd. Decode_cmd e d (int (length d)) = Inr (Some cmd) \<longrightarrow> \<not> (isResponseType cmd \<and> rc_opaque cmd = k))"
| "unrelated e k (Call kind code opaque timeoutMillis cb now) \<longleftrightarrow> opaque \<noteq> k"
| "unrelated e k _ \<longleftrightarrow> True"

lemma MakeCustomHeader_keeps:
  "MakeCustomHeader code d cmd = Inr c \<Longrightarrow> rc_opaque c = rc_opaque cmd \<and> isResponseType c = isResponseType cmd"
  by (auto simp: MakeCustomHeader_def bind_r_Inr isResponseType_def split: if_splits)

lemma waits_update:
  assumes "waits k a s" "mget (rt_responseTable s') k = mget (rt_responseTable s) k"
    and "set (rt_workers s') \<subseteq> set (rt_workers s) \<union> W" "\<And>cmd. Looked cmd \<in> W \<Longrightarrow> \<not> (isResponseType cmd \<and> rc_opaque cmd = k)"
    and "length (rt_futures s') = length (rt_futures s)" "\<And>b. fu_opaque (future s' b) = fu_opaque (future s b)"
    and "\<And>b. b < length (rt_futures s) \<Longrightarrow> fu_opaque (future s b) = k \<Longrightarrow>
      fst (rt_callers s' ! b) = fst (rt_callers s ! b) \<and> caller_pc s' b \<in> {caller_pc s b, Returned}"
  shows "waits k a s'"
  unfolding waits_def
proof (intro conjI allI impI)
  show "mget (rt_responseTable s') k = Some a" using assms(1,2) by (simp add: waits_def)
  show "\<not> (isResponseType cmd \<and> rc_opaque cmd = k)" if "Looked cmd \<in> set (rt_workers s')" for cmd
    using assms(1,4) subsetD [OF assms(3) that] unfolding waits_def by blast
  show "fst (rt_callers s' ! b) = AsyncCall" "caller_pc s' b \<in> {Cleaned, Returned}"
    if "b < length (rt_futures s')" "fu_opaque (future s' b) = k" for b
    using assms(1,5,6) assms(7) [of b] that by (auto simp: waits_def)
qed

lemma futures_opaque:
  assumes "with_future b g s = Inr s'" "\<And>f. fu_opaque (g f) = fu_opaque f"
  shows "length (rt_futures s') = length (rt_futures s)" "fu_opaque (future s' c) = fu_opaque (future s c)"
    "rt_responseTable s' = rt_responseTable s" "rt_workers s' = rt_workers s" "rt_callers s' = rt_callers s"
    "rt_completed s' = rt_completed s"
  using assms update_opaque [of g, OF assms(2)] by (auto simp: with_future_Inr)

lemma waits_caller:
  assumes "waits k a s" "with_future b g s = Inr s'" "\<And>f. fu_opaque (g f) = fu_opaque f"
    and "b < length (rt_callers s)" "caller_pc s b \<notin> {Cleaned, Returned} \<or> pc = Returned"
    and "rt_futures t = rt_futures s'" "rt_responseTable t = rt_responseTable s'" "rt_workers t = rt_workers s'" "rt_callers t = rt_callers s'"
  shows "waits k a (caller_at b pc t)"
proof (rule waits_update [where W = "{}", OF assms(1)])
  note f = futures_opaque [OF assms(2,3)]
  show "fst (rt_callers (caller_at b pc t) ! c) = fst (rt_callers s ! c) \<and> caller_pc (caller_at b pc t) c \<in> {caller_pc s c, Returned}"
    if "c < length (rt_futures s)" "fu_opaque (future s c) = k" for c
    using that assms(1,4,5,9) f by (auto simp: caller_at_def caller_pc_def waits_def nth_list_update)
qed (use assms(6-9) futures_opaque [OF assms(2,3)] in \<open>simp_all add: counts_caller_at\<close>)

lemma waits_removed:
  assumes "waits k a s" "b < length (rt_callers s)" "caller_pc s b \<notin> {Cleaned, Returned}" "call_removed b s = Inr s'" "calls_ok s"
  shows "waits k a s'"
proof -
  have ne: "fu_opaque (future s b) \<noteq> k" using assms(1-3) calls_okD(1) [OF assms(5)] by (auto simp: waits_def)
  obtain t where t: "drop_entry (fu_opaque (future s b)) s = Inr t" "s' = caller_at b Cleaned t"
    using assms(4) by (auto simp: call_removed_def bind_r_Inr)
  have d: "length (rt_futures t) = length (rt_futures s)" "fu_opaque (future t c) = fu_opaque (future s c)"
    "rt_workers t = rt_workers s" "rt_callers t = rt_callers s" "mget (rt_responseTable t) k = mget (rt_responseTable s) k" for c
    using t(1) ne calls_okD(2) [OF assms(5)]
    by (auto simp: drop_entry_def future_DecRef_def bind_r_Inr mget_mdel futures_opaque split: option.splits)
  show ?thesis unfolding t(2)
  proof (rule waits_update [where W = "{}", OF assms(1)])
    show "fst (rt_callers (caller_at b Cleaned t) ! c) = fst (rt_callers s ! c) \<and> caller_pc (caller_at b Cleaned t) c \<in> {caller_pc s c, Returned}"
      if "c < length (rt_futures s)" "fu_opaque (future s c) = k" for c
      using that ne d(4) assms(2) by (auto simp: caller_at_def caller_pc_def nth_list_update)
  qed (use d in \<open>simp_all add: counts_caller_at\<close>)
qed

lemma waits_register:
  assumes "waits k a s" "opaque \<noteq> k" "calls_ok s"
  shows "waits k a (register_future kind code opaque timeoutMillis cb now s)"
  using assms calls_okD(1) [OF assms(3)]
  by (auto simp: waits_def register_future_def Let_def mget_mput nth_append caller_pc_def ResponseFuture_new_def less_Suc_eq)

lemma waits_take:
  assumes "waits k a s" "i < length (rt_workers s)" "rt_workers s ! i = Looked cmd" "calls_ok s"
  shows "waits k a (take_future i cmd s)"
proof (rule waits_update [where W = "{Finished} \<union> range (Took cmd)", OF assms(1)])
  have "Looked cmd \<in> set (rt_workers s)" using assms(2,3) by (metis nth_mem)
  then have "isResponseType cmd \<Longrightarrow> rc_opaque cmd \<noteq> k" using assms(1) by (auto simp: waits_def)
  then show "mget (rt_responseTable (take_future i cmd s)) k = mget (rt_responseTable s) k"
    using calls_okD(2) [OF assms(4)] by (auto simp: take_future_def getType_def worker_at_fields mget_mdel split: option.split)
  show "set (rt_workers (take_future i cmd s)) \<subseteq> set (rt_workers s) \<union> ({Finished} \<union> range (Took cmd))"
    using worker_at_fields(8) by (fastforce simp: take_future_def split: option.splits RemotingCommandType.splits)
qed (auto simp: take_future_def worker_at_fields caller_pc_def split: option.split RemotingCommandType.split)

lemma waits_worker:
  assumes "waits k a s" "with_future b g s = Inr t" "\<And>f. fu_opaque (g f) = fu_opaque f" "\<And>cmd. w \<noteq> Looked cmd"
    and "rt_futures u = rt_futures t" "rt_responseTable u = rt_responseTable t" "rt_workers u = rt_workers t" "rt_callers u = rt_callers t"
  shows "waits k a (worker_at i w u)"
proof (rule waits_update [where W = "{w}", OF assms(1)])
  note f = futures_opaque [OF assms(2,3)]
  show "set (rt_workers (worker_at i w u)) \<subseteq> set (rt_workers s) \<union> {w}" using worker_at_fields(8) [of _ i w u] assms(7) f(4) by auto
qed (use assms(4-8) futures_opaque [OF assms(2,3)] in \<open>auto simp: worker_at_fields caller_pc_def\<close>)

lemma lookup_response_Some:
  assumes "lookup_response e d s = Inr (Some c)"
  shows "\<exists>cmd. Decode_cmd e d (int (length d)) = Inr (Some cmd) \<and> rc_opaque c = rc_opaque cmd \<and> isResponseType c = isResponseType cmd"
proof -
  obtain decoded where d: "Decode_cmd e d (int (length d)) = Inr decoded"
    using assms by (auto simp: lookup_response_def bind_r_Inr)
  show ?thesis
  proof (cases decoded)
    case (Some cmd)
    have "\<exists>code. MakeCustomHeader code d cmd = Inr c"
      using assms d Some
      by (cases "mget (rt_responseTable s) (rc_opaque cmd)") (auto simp: lookup_response_def bind_r_Inr split: if_splits)
    with d Some show ?thesis using MakeCustomHeader_keeps by blast
  qed (use assms d in \<open>simp add: lookup_response_def\<close>)
qed

lemma waits_step:
  assumes "waits k a s" "calls_ok s" "unrelated e k x" "enabled s x" "perform e x s = Inr s'"
  shows "waits k a s'"
proof (cases x)
  case (Sent b)
  then show ?thesis using assms(4,5)
    by (auto simp: call_sent_def bind_r_Inr intro!: waits_caller [OF assms(1)] split: call_kind.split)
next
  case (Wake b)
  then show ?thesis using assms(4,5) by (auto simp: call_woken_def bind_r_Inr intro!: waits_caller [OF assms(1)])
next
  case (Return b)
  then show ?thesis using assms(4,5)
    by (auto simp: call_returned_def future_DecRef_def bind_r_Inr intro!: waits_caller [OF assms(1)])
next
  case (Receive d)
  then obtain r where r: "lookup_response e d s = Inr r"
      "s' = s\<lparr>rt_workers := rt_workers s @ [case r of Some cmd \<Rightarrow> Looked cmd | None \<Rightarrow> Finished]\<rparr>"
    using assms(5) by (auto simp: process_data_def bind_r_Inr)
  have n: "r = Some cmd \<Longrightarrow> \<not> (isResponseType cmd \<and> rc_opaque cmd = k)" for cmd
    using r(1) assms(3) Receive lookup_response_Some [of e d s cmd] by auto
  show ?thesis
    by (rule waits_update [where W = "{case r of Some cmd \<Rightarrow> Looked cmd | None \<Rightarrow> Finished}", OF assms(1)])
      (use n in \<open>auto simp: r(2) caller_pc_def split: option.splits\<close>)
next
  case (Fill i)
  then show ?thesis using assms(4,5)
    by (auto simp: bind_r_Inr putResponse_def intro!: waits_worker [OF assms(1)] split: worker.splits)
next
  case (Complete i)
  then obtain b u where u: "executeInvokeCallback b s = Inr u" "s' = worker_at i Finished u"
    using assms(4,5) by (auto simp: bind_r_Inr split: worker.splits)
  let ?g = "\<lambda>f. f\<lparr>fu_refCount := fu_refCount f - 1\<rparr>"
  have "with_future b ?g s = Inr (s\<lparr>rt_futures := (rt_futures s)[b := ?g (future s b)]\<rparr>)"
    using u(1) by (auto simp: executeInvokeCallback_def future_DecRef_def bind_r_Inr with_future_Inr)
  then show ?thesis unfolding u(2)
    by (rule waits_worker [OF assms(1)])
      (use u(1) in \<open>auto simp: executeInvokeCallback_def future_DecRef_def bind_r_Inr with_future_Inr split: if_splits\<close>)
qed (use assms in \<open>auto simp: HandleTimerEvent_def waits_take split: worker.splits intro: waits_register waits_removed\<close>)

lemma waits_run:
  "waits k a s \<Longrightarrow> calls_ok s \<Longrightarrow> \<forall>x \<in> set xs. unrelated e k x \<Longrightarrow> run_actions e xs s = Inr s' \<Longrightarrow> waits k a s' \<and> calls_ok s'"
proof (induction xs arbitrary: s)
  case (Cons x xs)
  show ?case
  proof (cases "enabled s x")
    case True
    with Cons.prems(4) obtain t where "perform e x s = Inr t" "run_actions e xs t = Inr s'" by (auto simp: bind_r_Inr)
    with Cons True show ?thesis using waits_step [of k a s e x t] perform_ok [of s x e t] by auto
  qed (use Cons in auto)
qed simp

text \<open>
  An asynchronous call that is not answered never ends: whatever the other threads do and however
  much time passes, its entry stays in the response table and its callback is not run, neither
  with an exception nor otherwise, unless a response with its number arrives (nothing looks
  at the timeout of a future). A synchronous call with another number does not help either.
\<close>

theorem unanswered_call_stays:
  assumes "calls_reachable e s" "waits k a s" "\<forall>x \<in> set xs. unrelated e k x" "run_actions e xs s = Inr s'"
  shows "mget (rt_responseTable s') k = Some a \<and> a \<notin> fst ` set (rt_completed s')"
proof -
  have w: "waits k a s'" "calls_ok s'" using waits_run [OF assms(2) calls_reachable_ok [OF assms(1)] assms(3,4)] by simp_all
  then have t: "mget (rt_responseTable s') k = Some a" by (simp add: waits_def)
  then have "entries s' a = 1" "a < length (rt_futures s')" using calls_okD(3,4) [OF w(2) t] by (simp_all add: entries_def)
  then have "runs s' a = 0" using calls_okD(8) [OF w(2)] by fastforce
  then have "a \<notin> fst ` set (rt_completed s')" by (auto simp: runs_def filter_empty_conv)
  with t show ?thesis by simp
qed

lemma run_reachable: "calls_reachable e s \<Longrightarrow> run_actions e xs s = Inr s' \<Longrightarrow> calls_reachable e s'"
  by (induction xs arbitrary: s) (auto simp: bind_r_Inr split: if_splits intro: calls_reachable.step)

definition sample_sent :: remoting where
  "sample_sent = sample_calls\<lparr>
     rt_futures := [(ResponseFuture_new 34 7 3000 (Some 0) 1000)\<lparr>fu_sendRequestOK := True\<rparr>], rt_callers := [(AsyncCall, Returned)]\<rparr>"

lemma sample_sent_run: "run_actions e [Sent 0, Return 0] sample_calls = Inr sample_sent"
  by (simp add: sample_calls_def register_future_def remoting_new_def ResponseFuture_new_def call_sent_def call_returned_def
      with_future_def caller_at_def future_DecRef_def caller_pc_def sample_sent_def Let_def)

lemmas sample_sent_reachable = run_reachable [OF sample_calls_reachable sample_sent_run]

theorem unanswered_call_stays_witness:
  "run_actions LE [Tick 86400000, Call SyncCall 14 8 3000 None 2000, SendFailed 1] sample_sent \<noteq> Inl Undefined \<and>
   (\<forall>s'. run_actions LE [Tick 86400000, Call SyncCall 14 8 3000 None 2000, SendFailed 1] sample_sent = Inr s' \<longrightarrow>
      mget (rt_responseTable s') 7 = Some 0)"
proof -
  have "waits 7 0 sample_sent"
    by (simp add: waits_def sample_sent_def sample_calls_def register_future_def remoting_new_def ResponseFuture_new_def
        caller_pc_def Let_def)
  then have "run_actions LE [Tick 86400000, Call SyncCall 14 8 3000 None 2000, SendFailed 1] sample_sent = Inr s' \<Longrightarrow>
      mget (rt_responseTable s') 7 = Some 0" for s'
    using unanswered_call_stays [OF sample_sent_reachable, of 7 0 "[Tick 86400000, Call SyncCall 14 8 3000 None 2000, SendFailed 1]" LE s']
    by simp
  then show ?thesis
    by (simp add: sample_sent_def sample_calls_def register_future_def remoting_new_def ResponseFuture_new_def HandleTimerEvent_def
        call_removed_def drop_entry_def future_DecRef_def with_future_def caller_at_def caller_pc_def Let_def)
qed

text \<open>
  Property C17. A response completes its call: once a message is decoded as a response with the number of a
  pending asynchronous call, the worker that processes it removes the entry, runs the callback
  exactly once, with this response, and gives up the reference the table held.
\<close>

theorem answered_call_completes:
  assumes "calls_reachable e s" "mget (rt_responseTable s) (rc_opaque cmd) = Some a" "fu_invokeCallback (future s a) \<noteq> None"
    and "lookup_response e d s = Inr (Some cmd)" "isResponseType cmd" "i = length (rt_workers s)"
  shows "\<exists>s'. run_actions e [Receive d, Take i, Fill i, Complete i] s = Inr s' \<and>
    rt_completed s' = rt_completed s @ [(a, Some cmd)] \<and> mget (rt_responseTable s') (rc_opaque cmd) = None \<and>
    fu_refCount (future s' a) = fu_refCount (future s a) - 1 \<and> rt_workers s' ! i = Finished"
proof -
  have ok: "calls_ok s" by (rule calls_reachable_ok [OF assms(1)])
  have al: "a < length (rt_futures s)" "fu_refCount (future s a) > 0"
    using entry_alive [OF ok assms(2), of "\<lambda>f. f"] by (auto simp: with_future_def split: if_splits)
  show ?thesis
    using assms al calls_okD(2) [OF ok]
    by (simp add: process_data_def take_future_def getType_def worker_at_def with_future_def putResponse_def
        executeInvokeCallback_def future_DecRef_def mget_mdel nth_append)
qed

theorem answered_call_completes_witness:
  "\<exists>s' cmd. run_actions LE [Receive (sample_message LE), Take 0, Fill 0, Complete 0] sample_sent = Inr s' \<and>
     rt_completed s' = [(0, Some cmd)] \<and> rc_opaque cmd = 7"
proof -
  have "length (show_int 0) < 10" "length (show_int 19) < 10" "length (show_int 7) < 10" "length (show_int 1) < 10"
    by (simp_all add: show_int_def show_nat.simps)
  then have f: "cmd_fits sample_answer"
    by (simp add: cmd_fits_def sample_answer_def RemotingCommand_new_def head_json_def quote_def Let_def)
  have p: "cmd_plain sample_answer" by (simp add: sample_answer_def RemotingCommand_new_def cmd_plain_def is_int32_def)
  have b: "body_bytes sample_answer = []" by (simp add: sample_answer_def RemotingCommand_new_def body_bytes_def)
  obtain c where c: "Decode_cmd LE (sample_message LE) (int (length (sample_message LE))) = Inr (Some c)"
      "rc_opaque c = 7" "rc_flag c = 1"
    using command_decodes [OF f p refl, of LE]
    by (auto simp: sample_message_def b) (auto simp: sample_answer_def RemotingCommand_new_def)
  have r: "isResponseType c" using c(3) by (simp add: isResponseType_def RPC_TYPE_def)
  have t: "mget (rt_responseTable sample_sent) 7 = Some 0" "fu_requestCode (future sample_sent 0) = 34"
      "fu_invokeCallback (future sample_sent 0) \<noteq> None" "rt_workers sample_sent = []" "rt_completed sample_sent = []"
    by (simp_all add: sample_sent_def sample_calls_def register_future_def remoting_new_def ResponseFuture_new_def Let_def)
  have "\<exists>c'. MakeCustomHeader 34 (sample_message LE) c = Inr c'"
    by (simp add: MakeCustomHeader_def header_Decode_def SEND_MESSAGE_VALUE_def PULL_MESSAGE_VALUE_def QUERY_CONSUMER_OFFSET_VALUE_def)
  then obtain c' where c': "MakeCustomHeader 34 (sample_message LE) c = Inr c'" by blast
  have k: "rc_opaque c' = 7" "isResponseType c'" using MakeCustomHeader_keeps [OF c'] c(2) r by simp_all
  have "lookup_response LE (sample_message LE) sample_sent = Inr (Some c')"
    using c r c' t(1,2) by (simp add: lookup_response_def)
  then show ?thesis
    using answered_call_completes [OF sample_sent_reachable, of c' 0 LE "sample_message LE" 0] k t(1,3,4,5) by auto
qed

text \<open>
  \<^verbatim>\<open>invokeAsyncImpl\<close> as a whole, with a number that is not in use: after a successful send the call waits in
  the table, which holds the last reference; after a failed one the entry is gone and the future
  deleted, and the callback has not been told: only the returned code shows the failure.
\<close>

theorem invokeAsync_outcome:
  assumes "calls_reachable e s" "mget (rt_responseTable s) (rc_opaque request) = None" "SendCmd sendData t request = (t', sent, ret)"
    and "a = length (rt_futures s)"
  shows "\<exists>s'. invokeAsyncImpl sendData t request timeoutMillis cb now s = Inr (t', sent, s', ret) \<and>
    rt_completed s' = rt_completed s \<and> caller_pc s' a = Returned \<and>
    (if ret = 0 then mget (rt_responseTable s') (rc_opaque request) = Some a \<and> fu_refCount (future s' a) = 1
     else mget (rt_responseTable s') (rc_opaque request) = None \<and> fu_refCount (future s' a) = 0)"
proof -
  have ok: "length (rt_callers s) = length (rt_futures s)" "mok (rt_responseTable s)"
    using calls_okD [OF calls_reachable_ok [OF assms(1)]] by simp_all
  then have "mok (mput (rc_opaque request) a (rt_responseTable s))" by (simp add: mok_mput)
  then show ?thesis
    using assms(2-4) ok(1)
    by (simp add: invokeAsyncImpl_def register_future_def ResponseFuture_new_def call_sent_def call_removed_def call_returned_def
        drop_entry_def future_DecRef_def with_future_def caller_at_def caller_pc_def mget_mput mget_mdel nth_append Let_def)
qed

theorem invokeAsync_outcome_witness:
  "\<exists>s' t. invokeAsyncImpl (\<lambda>d t. (t, [], - 1)) t sample_answer 3000 (Some 1) 0 remoting_new = Inr (t, [], s', - 1) \<and>
     fu_refCount (future s' 0) = 0"
proof -
  let ?t = "TcpTransport_new (\<lambda>_. True) []"
  have "SendCmd (\<lambda>d t. (t, [], - 1)) ?t sample_answer = (?t, [], - 1)" by (simp add: SendCmd_def)
  from invokeAsync_outcome [OF calls_reachable.start [of LE] _ this, of 0 3000 "Some 1" 0] show ?thesis
    by (auto simp: remoting_new_def)
qed

end
