(* ===== verification/Events.thy ===== *)
theory Events
  imports Calls
begin

text \<open>
  The event thread of \<^verbatim>\<open>src/src/transport/TcpRemotingClient.cpp\<close>: the set of sockets it watches (\<^verbatim>\<open>m_rset\<close>, \<^verbatim>\<open>m_maxFd\<close>), how callers keep it
  up to date when they create and remove connections, and the loop of \<^verbatim>\<open>Run\<close> around \<^verbatim>\<open>select\<close>. The answers of \<^verbatim>\<open>select\<close> and
  \<^verbatim>\<open>recv\<close> are arguments.
\<close>

section \<open>State and operations\<close>

text \<open>
  \<open>el_sfd\<close> is the socket of the connection under an address (\<^verbatim>\<open>GetSocket\<close>). The last two fields are not of the program:
  the descriptors that are open in the process, and how many callers have put a connection into
  the table and not yet called \<^verbatim>\<open>UpdateEvent\<close>.
\<close>

record EventLoop =
  el_table :: "(string, TcpTransport) stdmap"
  el_sfd :: "string \<Rightarrow> int"
  el_rset :: "int list"
  el_maxFd :: int
  el_stop :: bool
  el_pool :: "work list"
  el_open :: "int list"
  el_behind :: nat

definition EventLoop_new :: EventLoop where
  "EventLoop_new = \<lparr>el_table = [], el_sfd = (\<lambda>_. - 1), el_rset = [], el_maxFd = 0, el_stop = False, el_pool = [], el_open = [], el_behind = 0\<rparr>"

definition FD_SETSIZE :: int where "FD_SETSIZE = 1024"
definition EBADF :: int where "EBADF = 9"

definition sockets :: "EventLoop \<Rightarrow> int list" where
  "sockets s = map (el_sfd s) (mkeys (el_table s))"

text \<open>\<^verbatim>\<open>FD_SET\<close> outside of the bits of an \<^verbatim>\<open>fd_set\<close> is undefined.\<close>

definition UpdateEvent :: "EventLoop \<Rightarrow> EventLoop result" where
  "UpdateEvent s =
     (if \<exists>fd \<in> set (sockets s). fd < 0 \<or> fd \<ge> FD_SETSIZE then Inl Undefined
      else Inr (s\<lparr>el_rset := fold sput (sockets s) [], el_maxFd := fold max (sockets s) 0\<rparr>))"

text \<open>
  \<^verbatim>\<open>GetAndCreateTransport\<close> up to the end of its locked section; \<open>fd\<close> is the descriptor of the new socket. A caller that
  has created a connection then calls \<^verbatim>\<open>UpdateEvent\<close>. A connection that fails is deleted, which closes its socket.
\<close>

definition create_section ::
  "(string \<Rightarrow> TcpTransport \<Rightarrow> (TcpTransport \<times> int) result) \<Rightarrow> (int \<Rightarrow> bool) \<Rightarrow> int \<Rightarrow> string \<Rightarrow> EventLoop \<Rightarrow>
   (EventLoop \<times> TcpTransport option) result" where
  "create_section connect alloc fd addr s =
     bind_r (GetAndCreateTransport connect alloc addr (el_table s)) (\<lambda>(table', tts).
       Inr (if mget (el_table s) addr = None \<and> tts \<noteq> None
            then s\<lparr>el_table := table', el_sfd := (el_sfd s)(addr := fd), el_open := fd # el_open s, el_behind := Suc (el_behind s)\<rparr>
            else s, tts))"

text \<open>\<^verbatim>\<open>RemoveTTS\<close>: the connection leaves the table and is deleted, which closes its socket; the watched set is not touched.\<close>

definition remove_connection :: "TcpTransport option \<Rightarrow> EventLoop \<Rightarrow> EventLoop result" where
  "remove_connection tts s =
     bind_r (RemoveTTS tts (el_table s)) (\<lambda>table'.
       Inr (case tts of
              None \<Rightarrow> s
            | Some t \<Rightarrow> s\<lparr>el_table := table', el_open := removeAll (el_sfd s (t_serverURL t)) (el_open s)\<rparr>))"

text \<open>One round of \<^verbatim>\<open>Run\<close>. An exception ends the round; a bad descriptor in the set makes the loop start over.\<close>

datatype select_answer = Select_failed int | Selected "int list"

definition event_round ::
  "endian \<Rightarrow> (int \<Rightarrow> bool) \<Rightarrow> select_answer \<Rightarrow> (string \<Rightarrow> recv_answer) \<Rightarrow> EventLoop \<Rightarrow> EventLoop result option" where
  "event_round e alloc ans recv s =
     (case ans of
        Select_failed err \<Rightarrow> Some (Inr s)
      | Selected fds \<Rightarrow>
          if fds = [] then Some (Inr s)
          else
            (case HandleSocketEvent e alloc (\<lambda>addr. if el_sfd s addr \<in> set fds then Some (recv addr) else None) (el_table s) (el_pool s) of
               None \<Rightarrow> None
             | Some (Inl x) \<Rightarrow> if x = Undefined then Some (Inl Undefined) else Some (Inr s)
             | Some (Inr (table', pool')) \<Rightarrow> Some (Inr (s\<lparr>el_table := table', el_pool := pool'\<rparr>))))"

text \<open>\<^verbatim>\<open>Run\<close>, as far as the given answers go.\<close>

fun Run ::
  "endian \<Rightarrow> (int \<Rightarrow> bool) \<Rightarrow> (select_answer \<times> (string \<Rightarrow> recv_answer)) list \<Rightarrow> EventLoop \<Rightarrow> EventLoop result option" where
  "Run e alloc [] s = Some (Inr s)"
| "Run e alloc ((ans, recv) # later) s =
     (case event_round e alloc ans recv s of
        None \<Rightarrow> None
      | Some (Inl x) \<Rightarrow> Some (Inl x)
      | Some (Inr s') \<Rightarrow> if el_stop s' then Some (Inr s') else Run e alloc later s')"

inductive events_reachable :: "endian \<Rightarrow> EventLoop \<Rightarrow> bool" for e where
  start: "events_reachable e EventLoop_new"
| create: "events_reachable e s \<Longrightarrow> create_section connect alloc fd addr s = Inr (s', tts) \<Longrightarrow> fd \<notin> set (el_open s) \<Longrightarrow> events_reachable e s'"
| update: "events_reachable e s \<Longrightarrow> el_behind s > 0 \<Longrightarrow> UpdateEvent s = Inr s' \<Longrightarrow> events_reachable e (s'\<lparr>el_behind := el_behind s' - 1\<rparr>)"
| remove: "events_reachable e s \<Longrightarrow> remove_connection tts s = Inr s' \<Longrightarrow> events_reachable e s'"
| rounds: "events_reachable e s \<Longrightarrow> event_round e alloc ans recv s = Some (Inr s') \<Longrightarrow> events_reachable e s'"
| stop: "events_reachable e s \<Longrightarrow> events_reachable e (s\<lparr>el_stop := True\<rparr>)"

section \<open>Every connection is watched\<close>

definition watched :: "EventLoop \<Rightarrow> int \<Rightarrow> bool" where
  "watched s fd \<longleftrightarrow> fd \<in> set (el_rset s) \<and> fd < el_maxFd s + 1"

definition events_ok :: "EventLoop \<Rightarrow> bool" where
  "events_ok s \<longleftrightarrow> mok (el_table s) \<and> (el_behind s = 0 \<longrightarrow> (\<forall>fd \<in> set (sockets s). watched s fd))"

lemma fold_max: "fold max xs k \<ge> (k :: int) \<and> (\<forall>x \<in> set xs. x \<le> fold max xs k)"
  by (induction xs arbitrary: k) force+

lemma UpdateEvent_watches:
  "UpdateEvent s = Inr s' \<Longrightarrow> (\<forall>fd \<in> set (sockets s'). watched s' fd) \<and> el_table s' = el_table s \<and> el_sfd s' = el_sfd s"
  using fold_max [where xs = "sockets s" and k = 0] by (auto simp: UpdateEvent_def watched_def sockets_def split: if_splits)

lemma receive_ready_keys: "receive_ready e alloc ready table = Some (Inr (table', out)) \<Longrightarrow> mkeys table' = mkeys table"
  by (induction table arbitrary: table' out) (auto split: option.splits sum.splits prod.splits)

lemma event_round_keeps:
  assumes "event_round e alloc ans recv s = Some (Inr s')"
  shows "mkeys (el_table s') = mkeys (el_table s) \<and> el_sfd s' = el_sfd s \<and> el_rset s' = el_rset s \<and> el_maxFd s' = el_maxFd s \<and>
    el_behind s' = el_behind s"
  using assms by (auto simp: event_round_def HandleSocketEvent_def dest: receive_ready_keys
      split: select_answer.splits if_splits option.splits sum.splits prod.splits)

lemma events_reachable_ok: "events_reachable e s \<Longrightarrow> events_ok s"
proof (induction rule: events_reachable.induct)
  case start
  then show ?case by (simp add: events_ok_def EventLoop_new_def sockets_def)
next
  case (create s connect alloc fd addr s' tts)
  then show ?case
    by (auto simp: create_section_def GetAndCreateTransport_def bind_r_Inr events_ok_def mok_mput split: option.splits if_splits)
next
  case (update s s')
  then show ?case using UpdateEvent_watches [OF update(3)] by (auto simp: events_ok_def watched_def sockets_def)
next
  case (remove s tts s')
  show ?case
  proof (cases tts)
    case (Some t)
    with remove(2) have s': "el_table s' = mdel (t_serverURL t) (el_table s)" "el_sfd s' = el_sfd s" "el_rset s' = el_rset s" "el_maxFd s' = el_maxFd s"
      "el_behind s' = el_behind s" by (auto simp: remove_connection_def RemoveTTS_def bind_r_Inr split: option.splits)
    then have "set (sockets s') \<subseteq> set (sockets s)" using mkeys_mdel_subset [of "t_serverURL t" "el_table s"] by (auto simp: sockets_def)
    then show ?thesis using remove(3) s' by (auto simp: events_ok_def mok_mdel watched_def)
  qed (use remove in \<open>auto simp: remove_connection_def RemoveTTS_def\<close>)
next
  case (rounds s alloc ans recv s')
  then show ?case using event_round_keeps [OF rounds(2)] by (simp add: events_ok_def sockets_def watched_def mok_def)
next
  case (stop s)
  then show ?case by (simp add: events_ok_def sockets_def watched_def)
qed

section \<open>What a round reads\<close>

text \<open>
  A connection whose peer speaks the protocol: what is in the buffer, what \<^verbatim>\<open>recv\<close> answers now and some bytes still to
  come are the frames of the messages \<open>ps\<close>, none of them empty or as long as the length word can no longer say.
\<close>

definition received :: "recv_answer \<Rightarrow> string" where
  "received ans = (case ans of Data c \<Rightarrow> c | _ \<Rightarrow> [])"

definition in_stream :: "endian \<Rightarrow> TcpTransport \<Rightarrow> recv_answer \<Rightarrow> string list \<Rightarrow> string \<Rightarrow> bool" where
  "in_stream e t ans ps rest \<longleftrightarrow> recv_ok e t \<and> (\<forall>p \<in> set ps. payload_ok p) \<and>
     t_recvBuf t @ received ans @ rest = concat (map frame ps) \<and>
     (\<forall>c. ans = Data c \<longrightarrow> c \<noteq> [] \<and> int (length (t_recvBuf t) + length c) \<le> t_recvBufSize t)"

text \<open>The messages cut off are the first ones; what stays in the buffer does not hold the next one in full.\<close>

definition served :: "endian \<Rightarrow> string list \<Rightarrow> string \<Rightarrow> TcpTransport \<Rightarrow> string list \<Rightarrow> bool" where
  "served e ps rest t' handed \<longleftrightarrow> (\<exists>k \<le> length ps. handed = map frame (take k ps) \<and>
     t_recvBuf t' @ rest = concat (map frame (drop k ps)) \<and>
     (k < length ps \<longrightarrow> length (t_recvBuf t') < length (frame (ps ! k))) \<and> recv_ok e t')"

lemma framing_served: "framing_done e t t' rest ps k \<Longrightarrow> served e ps rest t' (map frame (take k ps))"
  unfolding served_def framing_done_def by blast

lemma RecvData_stream:
  assumes "\<forall>n. alloc n" "in_stream e t ans ps rest"
  shows "\<exists>t' handed ret. RecvData e alloc ans t = Some (Inr (t', handed, ret)) \<and> served e ps rest t' handed"
proof (cases "\<exists>c. ans = Data c")
  case True
  then obtain c where c: "ans = Data c" ..
  from RecvData_frames [OF assms(1), of ps e t c rest] assms(2) show ?thesis
    by (auto simp: in_stream_def c received_def dest: framing_served)
next
  case False
  then obtain t1 ret where t1: "RecvMsg ans t = Inr (t1, ret)" "t1 = t \<or> t1 = Close t"
    by (cases ans) (auto simp: RecvMsg_def)
  have same: "t_recvBuf t1 = t_recvBuf t" "t_recvBufSize t1 = t_recvBufSize t" "t_shrinkMax t1 = t_shrinkMax t"
    using t1(2) by (auto simp: Close_def)
  have "\<exists>k t'. ProcessData (Suc (length (t_recvBuf t1))) e alloc t1 [] = Some (Inr (t', [] @ map frame (take k ps))) \<and>
      framing_done e t1 t' rest ps k"
    using assms False by (intro ProcessData_frames) (auto simp: in_stream_def recv_ok_def same received_def split: recv_answer.splits)
  with t1(1) show ?thesis
    by (auto simp: RecvData_def dest: framing_served simp del: ProcessData.simps)
qed

lemma receive_ready_Cons:
  "(case ready a of None \<Rightarrow> Some (Inr (t, [], 0)) | Some ans \<Rightarrow> RecvData e alloc ans t) = Some (Inr (t1, out, ret)) \<Longrightarrow>
   receive_ready e alloc ready table = Some (Inr (table', outs)) \<Longrightarrow>
   receive_ready e alloc ready ((a, t) # table) = Some (Inr ((a, t1) # table', out @ outs))"
  by (cases "ready a") simp_all

lemma receive_ready_all:
  assumes "\<forall>n. alloc n" "mok table"
    and "\<forall>addr t ans. mget table addr = Some t \<and> ready addr = Some ans \<longrightarrow> in_stream e t ans (ps addr) (rest addr)"
  shows "\<exists>table' handed. receive_ready e alloc ready table = Some (Inr (table', concat (map handed (mkeys table)))) \<and>
    (\<forall>addr t. mget table addr = Some t \<longrightarrow> (\<exists>t'. mget table' addr = Some t' \<and>
       (case ready addr of None \<Rightarrow> t' = t \<and> handed addr = [] | Some ans \<Rightarrow> served e (ps addr) (rest addr) t' (handed addr))))"
  using assms(2,3)
proof (induction table)
  case (Cons entry table)
  obtain a t where entry: "entry = (a, t)" by (cases entry)
  have fresh: "a \<notin> set (mkeys table)" "mget table a = None" and ok: "mok table"
    using Cons.prems(1) by (auto simp: entry mkeys_def domIff map_of_eq_None_iff)
  have "in_stream e t' ans (ps addr) (rest addr)" if "mget table addr = Some t'" "ready addr = Some ans" for addr t' ans
    using Cons.prems(2) that fresh(2) by (cases "addr = a") (auto simp: entry)
  with Cons.IH [OF ok] obtain table' handed where
    r: "receive_ready e alloc ready table = Some (Inr (table', concat (map handed (mkeys table))))"
    and each: "\<forall>addr t. mget table addr = Some t \<longrightarrow> (\<exists>t'. mget table' addr = Some t' \<and>
       (case ready addr of None \<Rightarrow> t' = t \<and> handed addr = [] | Some ans \<Rightarrow> served e (ps addr) (rest addr) t' (handed addr)))"
    by blast
  have "\<exists>t1 out ret. (case ready a of None \<Rightarrow> Some (Inr (t, [], 0)) | Some ans \<Rightarrow> RecvData e alloc ans t) = Some (Inr (t1, out, ret)) \<and>
      (case ready a of None \<Rightarrow> t1 = t \<and> out = [] | Some ans \<Rightarrow> served e (ps a) (rest a) t1 out)"
  proof (cases "ready a")
    case (Some ans)
    then have "in_stream e t ans (ps a) (rest a)" using Cons.prems(2) by (simp add: entry)
    from RecvData_stream [OF assms(1) this] Some show ?thesis by simp
  qed simp
  then obtain t1 out ret where one: "(case ready a of None \<Rightarrow> Some (Inr (t, [], 0)) | Some ans \<Rightarrow> RecvData e alloc ans t) = Some (Inr (t1, out, ret))"
    "case ready a of None \<Rightarrow> t1 = t \<and> out = [] | Some ans \<Rightarrow> served e (ps a) (rest a) t1 out" by blast
  let ?h = "handed(a := out)"
  have "mkeys (entry # table) = a # mkeys table" by (simp add: entry mkeys_def)
  then have "concat (map ?h (mkeys (entry # table))) = out @ concat (map handed (mkeys table))" using fresh(1) by simp
  then have "receive_ready e alloc ready (entry # table) = Some (Inr ((a, t1) # table', concat (map ?h (mkeys (entry # table)))))"
    using receive_ready_Cons [OF one(1) r] by (simp only: entry)
  moreover have "\<exists>t'. mget ((a, t1) # table') addr = Some t' \<and>
      (case ready addr of None \<Rightarrow> t' = t2 \<and> ?h addr = [] | Some ans \<Rightarrow> served e (ps addr) (rest addr) t' (?h addr))"
    if "mget (entry # table) addr = Some t2" for addr t2
  proof (cases "addr = a")
    case True
    with that one(2) show ?thesis by (cases "ready a") (simp_all add: entry)
  next
    case False
    then have "mget table addr = Some t2" using that by (simp add: entry)
    moreover have "?h addr = handed addr" "mget ((a, t1) # table') addr = mget table' addr" using False by simp_all
    ultimately show ?thesis using each by (simp only:)
  qed
  ultimately show ?case by blast
qed (simp add: mkeys_def)

text \<open>
  Property C26. Every connection is served. In every state the creations, removals and rounds reach in which no caller is
  between creating a connection and \<^verbatim>\<open>UpdateEvent\<close> (\<open>el_behind\<close> is 0), the socket of every connection of the table is in
  the set that \<^verbatim>\<open>select\<close> is given and below its limit. When the peers of the ready connections speak the protocol
  (the bytes are frames of a length whose word plus 4 does not wrap, cut anywhere) and memory is
  available, the round ends; the pool gets, connection by connection in the order of the
  table, exactly the messages that are now complete, in order, and what stays in a
  buffer is the beginning of the next one; a connection that is not ready stays as it was.
\<close>

theorem connections_served:
  assumes "events_reachable e s" "el_behind s = 0" "\<forall>n. alloc n"
    and "\<forall>addr t. mget (el_table s) addr = Some t \<and> el_sfd s addr \<in> set fds \<longrightarrow>
      in_stream e t (recv addr) (ps addr) (rest addr)"
  shows "(\<forall>addr \<in> set (mkeys (el_table s)). watched s (el_sfd s addr)) \<and>
    (\<exists>s' handed. event_round e alloc (Selected fds) recv s = Some (Inr s') \<and>
       el_pool s' = el_pool s @ map ProcessDataWork (concat (map handed (mkeys (el_table s)))) \<and>
       (\<forall>addr t. mget (el_table s) addr = Some t \<longrightarrow> (\<exists>t'. mget (el_table s') addr = Some t' \<and>
          (if el_sfd s addr \<in> set fds then served e (ps addr) (rest addr) t' (handed addr)
           else t' = t \<and> handed addr = []))))"
proof
  have ok: "events_ok s" by (rule events_reachable_ok [OF assms(1)])
  then show "\<forall>addr \<in> set (mkeys (el_table s)). watched s (el_sfd s addr)"
    using assms(2) by (simp add: events_ok_def sockets_def)
  let ?ready = "\<lambda>addr. if el_sfd s addr \<in> set fds then Some (recv addr) else None"
  have m: "mok (el_table s)" using ok by (simp add: events_ok_def)
  have inp: "\<forall>addr t ans. mget (el_table s) addr = Some t \<and> ?ready addr = Some ans \<longrightarrow> in_stream e t ans (ps addr) (rest addr)"
    using assms(4) by auto
  obtain table' handed where
    r: "receive_ready e alloc ?ready (el_table s) = Some (Inr (table', concat (map handed (mkeys (el_table s)))))"
    and each: "\<forall>addr t. mget (el_table s) addr = Some t \<longrightarrow> (\<exists>t'. mget table' addr = Some t' \<and>
      (case ?ready addr of None \<Rightarrow> t' = t \<and> handed addr = [] | Some ans \<Rightarrow> served e (ps addr) (rest addr) t' (handed addr)))"
    using receive_ready_all [OF assms(3) m inp] by (elim exE conjE) (rule that)
  show "\<exists>s' handed. event_round e alloc (Selected fds) recv s = Some (Inr s') \<and>
     el_pool s' = el_pool s @ map ProcessDataWork (concat (map handed (mkeys (el_table s)))) \<and>
     (\<forall>addr t. mget (el_table s) addr = Some t \<longrightarrow> (\<exists>t'. mget (el_table s') addr = Some t' \<and>
        (if el_sfd s addr \<in> set fds then served e (ps addr) (rest addr) t' (handed addr) else t' = t \<and> handed addr = [])))"
  proof (cases "fds = []")
    case True
    then show ?thesis by (intro exI [of _ s] exI [of _ "\<lambda>_. []"]) (simp add: event_round_def)
  next
    case False
    let ?s' = "s\<lparr>el_table := table', el_pool := el_pool s @ map ProcessDataWork (concat (map handed (mkeys (el_table s))))\<rparr>"
    have "event_round e alloc (Selected fds) recv s = Some (Inr ?s')"
      using False r by (simp add: event_round_def HandleSocketEvent_def)
    with each show ?thesis
      by (intro exI [of _ ?s'] exI [of _ handed]) (force split: if_splits)
  qed
qed

definition connecting :: "string \<Rightarrow> TcpTransport \<Rightarrow> (TcpTransport \<times> int) result" where
  "connecting addr t = Inr (t\<lparr>t_state := CLIENT_STATE_CONNECTED, t_serverURL := addr\<rparr>, CLIENT_ERROR_SUCCESS)"

definition one_transport :: TcpTransport where
  "one_transport = (TcpTransport_new (\<lambda>_. True) client_config)\<lparr>t_state := CLIENT_STATE_CONNECTED, t_serverURL := ''h:1''\<rparr>"

definition one_connection :: EventLoop where
  "one_connection = EventLoop_new\<lparr>el_table := [(''h:1'', one_transport)], el_sfd := (\<lambda>_. - 1)(''h:1'' := 3), el_rset := [3], el_maxFd := 3, el_open := [3]\<rparr>"

lemma one_connection_reachable: "events_reachable e one_connection"
proof -
  let ?s = "EventLoop_new\<lparr>el_table := [(''h:1'', one_transport)], el_sfd := (\<lambda>_. - 1)(''h:1'' := 3), el_open := [3], el_behind := 1\<rparr>"
  have "events_reachable e ?s"
    by (rule events_reachable.create [OF events_reachable.start, where connect = connecting and alloc = "\<lambda>_. True" and fd = 3 and addr = "''h:1''"])
      (simp_all add: create_section_def GetAndCreateTransport_def EventLoop_new_def connecting_def one_transport_def)
  then have "events_reachable e (?s\<lparr>el_rset := [3], el_maxFd := 3\<rparr>\<lparr>el_behind := el_behind (?s\<lparr>el_rset := [3], el_maxFd := 3\<rparr>) - 1\<rparr>)"
    by (rule events_reachable.update) (simp_all add: UpdateEvent_def sockets_def FD_SETSIZE_def EventLoop_new_def)
  then show ?thesis by (simp add: one_connection_def EventLoop_new_def)
qed

text \<open>The peer has sent one message and three bytes of the next.\<close>

theorem connections_served_witness:
  "watched one_connection 3 \<and>
   (\<exists>s' t'. event_round LE (\<lambda>_. True) (Selected [3]) (\<lambda>_. Data (frame ''ab'' @ take 3 (frame ''cde''))) one_connection = Some (Inr s') \<and>
     el_pool s' = [ProcessDataWork (frame ''ab'')] \<and>
     mget (el_table s') ''h:1'' = Some t' \<and> t_recvBuf t' = take 3 (frame ''cde''))"
proof -
  let ?now = "frame ''ab'' @ take 3 (frame ''cde'')" and ?rest = "drop 3 (frame ''cde'')" and ?ps = "[''ab'', ''cde'']"
  have tr: "t_recvBuf one_transport = []" "t_recvBufSize one_transport = 16384" "t_shrinkMax one_transport = 16384"
    by (simp_all add: one_transport_def TcpTransport_new_def client_config_def Let_def DEFAULT_RECV_BUFFER_SIZE_def)
  have "in_stream LE one_transport (Data ?now) ?ps ?rest"
    by (simp add: in_stream_def recv_ok_def tr received_def payload_ok_def) (simp add: frame_def)
  then have all: "\<forall>addr t. mget (el_table one_connection) addr = Some t \<and> el_sfd one_connection addr \<in> set [3] \<longrightarrow>
      in_stream LE t (Data ?now) ?ps ?rest" by (simp add: one_connection_def)
  have el: "mget (el_table one_connection) ''h:1'' = Some one_transport" "mkeys (el_table one_connection) = [''h:1'']"
    "el_sfd one_connection ''h:1'' = 3" "el_pool one_connection = []" "el_behind one_connection = 0"
    by (simp_all add: one_connection_def EventLoop_new_def mkeys_def)
  have mem: "\<forall>n. (\<lambda>_. True) (n :: int)" by simp
  note C = connections_served [OF one_connection_reachable el(5) mem all, unfolded el]
  from C have w: "watched one_connection 3" by (simp add: el)
  from C obtain s' handed where s': "event_round LE (\<lambda>_. True) (Selected [3]) (\<lambda>_. Data ?now) one_connection = Some (Inr s')"
      "el_pool s' = [] @ map ProcessDataWork (concat (map handed [''h:1'']))"
    and each: "\<forall>addr t. mget (el_table one_connection) addr = Some t \<longrightarrow> (\<exists>t'. mget (el_table s') addr = Some t' \<and>
      (if el_sfd one_connection addr \<in> set [3] then served LE ?ps ?rest t' (handed addr) else t' = t \<and> handed addr = []))"
    by (elim conjE exE) (rule that)
  from each el(1,3) obtain t' where t': "mget (el_table s') ''h:1'' = Some t'" and sv: "served LE ?ps ?rest t' (handed ''h:1'')"
    by fastforce
  from sv obtain k where k: "k \<le> length ?ps" "handed ''h:1'' = map frame (take k ?ps)" "t_recvBuf t' @ ?rest = concat (map frame (drop k ?ps))"
    "k < length ?ps \<longrightarrow> length (t_recvBuf t') < length (frame (?ps ! k))" unfolding served_def by blast
  have rest: "length ?rest = 4" by simp
  have len: "length (t_recvBuf t') + 4 = length (concat (map frame (drop k ?ps)))"
    using arg_cong [OF k(3), of length] by simp
  have "k = 0 \<or> k = 1 \<or> k = 2" using k(1) by auto
  with k(4) len have "k = 1" by auto
  with k(3) have "t_recvBuf t' @ ?rest = take 3 (frame ''cde'') @ ?rest" by simp
  then have "t_recvBuf t' = take 3 (frame ''cde'')" by (simp only: append_same_eq)
  with w s' t' k(2) \<open>k = 1\<close> show ?thesis by auto
qed

section \<open>A removed connection\<close>

text \<open>What the manual of \<^verbatim>\<open>select\<close> promises: with a descriptor in the set that is not open the answer is \<^verbatim>\<open>EBADF\<close>.\<close>

definition select_answers :: "EventLoop \<Rightarrow> select_answer \<Rightarrow> bool" where
  "select_answers s ans \<longleftrightarrow> ((\<exists>fd \<in> set (el_rset s). fd \<notin> set (el_open s)) \<longrightarrow> ans = Select_failed EBADF)"

lemma deaf_rounds:
  assumes "\<forall>x \<in> set xs. fst x = Select_failed EBADF"
  shows "Run e alloc xs s = Some (Inr s)"
  using assms by (induction xs) (auto simp: event_round_def)

text \<open>
  After a connection has been removed the event thread hears nothing: its socket is closed and still in the watched set,
  so every \<^verbatim>\<open>select\<close> fails, and however long the loop runs, no other connection is read, until some
  caller creates a new connection.
\<close>

theorem removed_connection_deafens:
  assumes "events_reachable e s" "el_behind s = 0" "mget (el_table s) (t_serverURL t) = Some t"
    and "remove_connection (Some t) s = Inr s'" "\<forall>x \<in> set xs. select_answers s' (fst x)"
  shows "Run e alloc xs s' = Some (Inr s')"
proof (rule deaf_rounds, rule ballI)
  fix x assume "x \<in> set xs"
  have k: "t_serverURL t \<in> set (mkeys (el_table s))" using assms(3) by (simp add: set_mkeys dom_def)
  have "el_rset s' = el_rset s \<and> el_open s' = removeAll (el_sfd s (t_serverURL t)) (el_open s)"
    using assms(3,4) by (auto simp: remove_connection_def RemoveTTS_def)
  moreover have "el_sfd s (t_serverURL t) \<in> set (el_rset s)"
    using events_reachable_ok [OF assms(1)] assms(2) k by (auto simp: events_ok_def sockets_def watched_def)
  ultimately show "fst x = Select_failed EBADF" using assms(5) \<open>x \<in> set xs\<close> by (auto simp: select_answers_def)
qed

theorem removed_connection_deafens_witness:
  "\<exists>s'. remove_connection (Some one_transport) one_connection = Inr s' \<and>
     Run LE (\<lambda>_. True) (replicate 100 (Select_failed EBADF, \<lambda>_. Eof)) s' = Some (Inr s')"
proof -
  obtain s' where s': "remove_connection (Some one_transport) one_connection = Inr s'"
    by (simp add: remove_connection_def RemoveTTS_def one_connection_def one_transport_def)
  have "\<forall>x \<in> set (replicate 100 (Select_failed EBADF, \<lambda>_. Eof)). select_answers s' (fst x)"
    by (simp add: select_answers_def)
  then have "Run LE (\<lambda>_. True) (replicate 100 (Select_failed EBADF, \<lambda>_. Eof)) s' = Some (Inr s')"
    by (intro removed_connection_deafens [OF one_connection_reachable _ _ s'])
      (simp_all add: one_connection_def EventLoop_new_def one_transport_def)
  with s' show ?thesis by blast
qed

end
