(* ===== verification/NameServer.thy ===== *)
theory NameServer
  imports Api
begin

text \<open>
  Where the name server is: \<^verbatim>\<open>src/src/common/TopAddressing.h\<close> asks a web server, \<^verbatim>\<open>MQClientAPIImpl\<close> (in \<open>Api\<close>) keeps the answer, and a
  task of the factory repeats this. What curl does with a request is an argument: the chunks it
  hands to the callback and whether the transfer succeeded.
\<close>

definition ROCKETMQ_NAMESRV_DOMAIN :: string where
  "ROCKETMQ_NAMESRV_DOMAIN = ''172.30.30.125''"

definition curl_callback :: "string \<Rightarrow> string \<Rightarrow> string" where
  "curl_callback data buffer = buffer @ data"

definition fetchNameServer :: "(string \<Rightarrow> string list \<times> bool) \<Rightarrow> string \<Rightarrow> string result" where
  "fetchNameServer curl domain =
     (let (chunks, ok) = curl domain; result = fold curl_callback chunks [] in if ok then Inr result else Inl StdException)"

definition fetchNSAddr :: "(string \<Rightarrow> string list \<times> bool) \<Rightarrow> string result" where
  "fetchNSAddr curl = fetchNameServer curl (ROCKETMQ_NAMESRV_DOMAIN @ ''/rocketmq/nsaddr'')"

definition factory_fetchNameServerAddr :: "string \<Rightarrow> (string \<Rightarrow> string list \<times> bool) \<Rightarrow> ApiImpl \<Rightarrow> ApiImpl" where
  "factory_fetchNameServerAddr configured curl api =
     (if configured = [] then fst (fetchNameServerAddr (fetchNSAddr curl) api) else api)"

lemma curl_chunks: "fold curl_callback chunks b = b @ concat chunks"
  by (induction chunks arbitrary: b) (simp_all add: curl_callback_def)

lemma hand_over: "fold (\<lambda>i a. a\<lparr>ap_namesrvAddrList := take (Suc i) av\<rparr>) [0 ..< n] api =
    (if n = 0 then api else api\<lparr>ap_namesrvAddrList := take n av\<rparr>)"
  by (induction n) simp_all

lemma update_list:
  "updateNameServerAddressList addrs api = api\<lparr>ap_nameSrvAddr := addrs, ap_namesrvAddrList := Split [] addrs '';''\<rparr>"
proof -
  have "Split [] addrs '';'' \<noteq> []" by (simp add: Split_def)
  then show ?thesis by (simp add: updateNameServerAddressList_def Let_def hand_over)
qed

text \<open>
  The address follows the discovery service: a successful answer, in however many chunks it came, becomes the address and its
  parts the list; a failed or empty one changes nothing, and neither does any answer when an address is configured.
\<close>

theorem name_server_follows:
  assumes "curl (''172.30.30.125/rocketmq/nsaddr'') = (chunks, ok)"
  shows "factory_fetchNameServerAddr configured curl api =
    (if configured = [] \<and> ok \<and> concat chunks \<noteq> [] \<and> concat chunks \<noteq> ap_nameSrvAddr api
     then api\<lparr>ap_nameSrvAddr := concat chunks, ap_namesrvAddrList := Split [] (concat chunks) '';''\<rparr> else api)"
proof -
  have f: "fetchNSAddr curl = (if ok then Inr (concat chunks) else Inl StdException)"
    using assms by (simp add: fetchNSAddr_def fetchNameServer_def ROCKETMQ_NAMESRV_DOMAIN_def curl_chunks)
  then show ?thesis
    by (simp add: factory_fetchNameServerAddr_def fetchNameServerAddr_def update_list Let_def)
qed

lemma split_two: "Split [] ''a:1;b:2'' '';'' = [''a:1'', ''b:2'']"
  using Split_char_split_on [of "''a:1;b:2''" "CHR '';''" "[]"] by (simp add: Split_char_def Split_def)

theorem name_server_follows_witness:
  "\<forall>api. ap_nameSrvAddr api = [] \<longrightarrow>
     ap_namesrvAddrList (factory_fetchNameServerAddr [] (\<lambda>_. ([''a:1;'', ''b:2''], True)) api) = [''a:1'', ''b:2'']"
  using name_server_follows [of "\<lambda>_. ([''a:1;'', ''b:2''], True)" "[''a:1;'', ''b:2'']" True "[]"]
  by (simp add: split_two)

text \<open>
  With several name servers the address that requests are sent to is none of them: it is the whole text, and the list is not used.
\<close>

lemma split_on_pieces: "p \<in> set (split_on c s) \<Longrightarrow> c \<notin> set p"
  by (induction s arbitrary: p) (auto split: if_splits list.splits)

theorem several_name_servers_unused:
  assumes "CHR '';'' \<in> set addrs" "\<exists>x \<in> set addrs. x \<noteq> CHR '';''"
  shows "ap_nameSrvAddr (updateNameServerAddressList addrs api) = addrs \<and>
    addrs \<notin> set (ap_namesrvAddrList (updateNameServerAddressList addrs api))"
proof -
  have "Split [] addrs '';'' = split_on (CHR '';'') addrs"
    using Split_char_split_on [OF assms(2), of "[]"] by (simp add: Split_char_def Split_def)
  then show ?thesis using assms(1) by (auto simp: update_list dest: split_on_pieces)
qed

theorem several_name_servers_unused_witness:
  "\<forall>api. ''a:1;b:2'' \<notin> set (ap_namesrvAddrList (updateNameServerAddressList ''a:1;b:2'' api))"
proof -
  have "CHR '';'' \<in> set ''a:1;b:2''" "\<exists>x \<in> set ''a:1;b:2''. x \<noteq> CHR '';''" by simp_all
  from several_name_servers_unused [OF this] show ?thesis by blast
qed

end
