(* ===== verification/Sync.thy ===== *)
theory Sync
  imports Prelude
begin

text \<open>
  The monitor of \<^verbatim>\<open>src/src/kpr\<close> on POSIX threads: \<^verbatim>\<open>RecursiveMutex\<close> is built from two plain mutexes, a count and an owner,
  and \<^verbatim>\<open>Condition::wait\<close> gives the recursive mutex up and takes it back. Every thread moves by the steps
  of \<open>mon_step\<close>, between two calls of the pthread library each. Then \<^verbatim>\<open>ServiceThread\<close>, a loop that waits on a monitor.
\<close>

section \<open>RecursiveMutex and Condition\<close>

text \<open>
  Where a thread stands. \<open>L_start n\<close>: \<^verbatim>\<open>lock(n)\<close> before \<^verbatim>\<open>m_internal.Lock\<close>; \<open>L_claim\<close>: count and owner are set, before \<^verbatim>\<open>pthread_mutex_lock\<close>;
  \<open>L_done\<close>: before \<^verbatim>\<open>m_internal.Unlock\<close>; \<open>L_busy\<close>, \<open>L_wait\<close>, \<open>L_pass\<close>: not obtained, the thread queues on \<^verbatim>\<open>m_mutex\<close>; \<open>T_\<close>: \<^verbatim>\<open>tryLock\<close>;
  \<open>U_\<close>: \<^verbatim>\<open>unlock\<close>; \<open>W_start\<close>, \<open>W_reset\<close>: \<^verbatim>\<open>reset4Condvar\<close>; \<open>W_enter\<close>: before \<^verbatim>\<open>pthread_cond_wait\<close>; \<open>W_blocked\<close>: in it; \<open>W_woken\<close>: woken,
  without the mutex yet; \<open>W_back\<close>: the destructor of \<^verbatim>\<open>ConditionHelper\<close>.
\<close>

datatype mon_pc =
    Outside
  | L_start nat | L_claim | L_done | L_busy nat | L_wait nat | L_pass nat
  | T_start | T_fail
  | U_start | U_free | U_done
  | W_start | W_reset nat | W_enter nat | W_blocked nat | W_woken nat | W_back nat

text \<open>\<open>km_held\<close> is no field of the code: how many times a thread holds the mutex by its own account.\<close>

record RecursiveMutex =
  km_internal :: "nat option"
  km_mutex :: "nat option"
  km_count :: nat
  km_owner :: "nat option"
  km_pc :: "nat \<Rightarrow> mon_pc"
  km_held :: "nat \<Rightarrow> nat"

definition RecursiveMutex_new :: RecursiveMutex where
  "RecursiveMutex_new = \<lparr>km_internal = None, km_mutex = None, km_count = 0, km_owner = None, km_pc = (\<lambda>_. Outside), km_held = (\<lambda>_. 0)\<rparr>"

definition at_pc :: "nat \<Rightarrow> mon_pc \<Rightarrow> RecursiveMutex \<Rightarrow> RecursiveMutex" where
  "at_pc t pc s = s\<lparr>km_pc := (km_pc s)(t := pc)\<rparr>"

text \<open>The section of \<^verbatim>\<open>lock(n)\<close> and of \<^verbatim>\<open>tryLock\<close> under \<^verbatim>\<open>m_internal\<close>, with the place where a busy mutex leads.\<close>

definition lock_section :: "nat \<Rightarrow> nat \<Rightarrow> mon_pc \<Rightarrow> RecursiveMutex \<Rightarrow> RecursiveMutex" where
  "lock_section t n busy s =
     (let s1 = s\<lparr>km_internal := Some t\<rparr> in
      if km_count s = 0 then at_pc t L_claim (s1\<lparr>km_count := n, km_owner := Some t\<rparr>)
      else if km_owner s = Some t then at_pc t L_done (s1\<lparr>km_count := km_count s + n\<rparr>)
      else at_pc t busy s1)"

definition try_section :: "nat \<Rightarrow> RecursiveMutex \<Rightarrow> RecursiveMutex" where
  "try_section t s = lock_section t 1 T_fail s"

definition unlock_section :: "nat \<Rightarrow> RecursiveMutex \<Rightarrow> RecursiveMutex" where
  "unlock_section t s =
     (let s1 = s\<lparr>km_internal := Some t, km_count := km_count s - 1\<rparr> in
      if km_count s - 1 = 0 then at_pc t U_free (s1\<lparr>km_owner := None\<rparr>) else at_pc t U_done s1)"

definition reset4Condvar :: "nat \<Rightarrow> RecursiveMutex \<Rightarrow> RecursiveMutex" where
  "reset4Condvar t s = at_pc t (W_reset (km_count s)) (s\<lparr>km_internal := Some t, km_count := 0, km_owner := None\<rparr>)"

text \<open>The destructor of \<^verbatim>\<open>ConditionHelper\<close>: release \<^verbatim>\<open>m_mutex\<close> and call \<^verbatim>\<open>lock\<close> with the old count.\<close>

definition ConditionHelper_end :: "nat \<Rightarrow> nat \<Rightarrow> RecursiveMutex \<Rightarrow> RecursiveMutex" where
  "ConditionHelper_end t n s = at_pc t (L_start n) (s\<lparr>km_mutex := None\<rparr>)"

text \<open>
  A thread that holds the mutex may lock it again, unlock it, wait, or signal; a wait also ends by a
  timeout (or without a cause). Entering \<^verbatim>\<open>pthread_cond_wait\<close> and releasing its mutex is one step.
\<close>

inductive mon_step :: "nat \<Rightarrow> RecursiveMutex \<Rightarrow> RecursiveMutex \<Rightarrow> bool" for t where
  call_lock: "km_pc s t = Outside \<Longrightarrow> mon_step t s (at_pc t (L_start 1) s)"
| call_tryLock: "km_pc s t = Outside \<Longrightarrow> mon_step t s (at_pc t T_start s)"
| call_unlock: "km_pc s t = Outside \<Longrightarrow> km_held s t > 0 \<Longrightarrow>
    mon_step t s (at_pc t U_start (s\<lparr>km_held := (km_held s)(t := km_held s t - 1)\<rparr>))"
| call_wait: "km_pc s t = Outside \<Longrightarrow> km_held s t > 0 \<Longrightarrow> mon_step t s (at_pc t W_start (s\<lparr>km_held := (km_held s)(t := 0)\<rparr>))"
| signal: "km_pc s t = Outside \<Longrightarrow> km_held s t > 0 \<Longrightarrow> km_pc s u = W_blocked n \<Longrightarrow> mon_step t s (at_pc u (W_woken n) s)"
| lock_enter: "km_pc s t = L_start n \<Longrightarrow> km_internal s = None \<Longrightarrow> mon_step t s (lock_section t n (L_busy n) s)"
| lock_claim: "km_pc s t = L_claim \<Longrightarrow> km_mutex s = None \<Longrightarrow> mon_step t s (at_pc t L_done (s\<lparr>km_mutex := Some t\<rparr>))"
| lock_done: "km_pc s t = L_done \<Longrightarrow>
    mon_step t s (at_pc t Outside (s\<lparr>km_internal := None, km_held := (km_held s)(t := km_count s)\<rparr>))"
| lock_busy: "km_pc s t = L_busy n \<Longrightarrow> mon_step t s (at_pc t (L_wait n) (s\<lparr>km_internal := None\<rparr>))"
| lock_wait: "km_pc s t = L_wait n \<Longrightarrow> km_mutex s = None \<Longrightarrow> mon_step t s (at_pc t (L_pass n) (s\<lparr>km_mutex := Some t\<rparr>))"
| lock_pass: "km_pc s t = L_pass n \<Longrightarrow> mon_step t s (at_pc t (L_start n) (s\<lparr>km_mutex := None\<rparr>))"
| try_enter: "km_pc s t = T_start \<Longrightarrow> km_internal s = None \<Longrightarrow> mon_step t s (try_section t s)"
| try_fail: "km_pc s t = T_fail \<Longrightarrow> mon_step t s (at_pc t Outside (s\<lparr>km_internal := None\<rparr>))"
| unlock_enter: "km_pc s t = U_start \<Longrightarrow> km_internal s = None \<Longrightarrow> mon_step t s (unlock_section t s)"
| unlock_free: "km_pc s t = U_free \<Longrightarrow> mon_step t s (at_pc t U_done (s\<lparr>km_mutex := None\<rparr>))"
| unlock_done: "km_pc s t = U_done \<Longrightarrow> mon_step t s (at_pc t Outside (s\<lparr>km_internal := None\<rparr>))"
| wait_enter: "km_pc s t = W_start \<Longrightarrow> km_internal s = None \<Longrightarrow> mon_step t s (reset4Condvar t s)"
| wait_reset: "km_pc s t = W_reset n \<Longrightarrow> mon_step t s (at_pc t (W_enter n) (s\<lparr>km_internal := None\<rparr>))"
| wait_block: "km_pc s t = W_enter n \<Longrightarrow> mon_step t s (at_pc t (W_blocked n) (s\<lparr>km_mutex := None\<rparr>))"
| wait_timeout: "km_pc s t = W_blocked n \<Longrightarrow> mon_step t s (at_pc t (W_woken n) s)"
| wait_woken: "km_pc s t = W_woken n \<Longrightarrow> km_mutex s = None \<Longrightarrow> mon_step t s (at_pc t (W_back n) (s\<lparr>km_mutex := Some t\<rparr>))"
| wait_back: "km_pc s t = W_back n \<Longrightarrow> mon_step t s (ConditionHelper_end t n s)"

inductive mon_reachable :: "RecursiveMutex \<Rightarrow> bool" where
  start: "mon_reachable RecursiveMutex_new"
| step: "mon_reachable s \<Longrightarrow> mon_step t s s' \<Longrightarrow> mon_reachable s'"

section \<open>Invariant\<close>

fun holds_internal :: "mon_pc \<Rightarrow> bool" where
  "holds_internal L_claim = True"
| "holds_internal L_done = True"
| "holds_internal (L_busy n) = True"
| "holds_internal T_fail = True"
| "holds_internal U_free = True"
| "holds_internal U_done = True"
| "holds_internal (W_reset n) = True"
| "holds_internal _ = False"

fun passes_mutex :: "mon_pc \<Rightarrow> bool" where
  "passes_mutex (L_pass n) = True"
| "passes_mutex U_free = True"
| "passes_mutex (W_reset n) = True"
| "passes_mutex (W_enter n) = True"
| "passes_mutex (W_back n) = True"
| "passes_mutex _ = False"

text \<open>Where the owner can stand, with the count it then has; and where a thread that is not the owner can.\<close>

fun owner_at :: "mon_pc \<Rightarrow> nat \<Rightarrow> nat \<Rightarrow> bool" where
  "owner_at Outside held count \<longleftrightarrow> count = held"
| "owner_at (L_start n) held count \<longleftrightarrow> count = held \<and> n > 0"
| "owner_at T_start held count \<longleftrightarrow> count = held"
| "owner_at U_start held count \<longleftrightarrow> count = Suc held"
| "owner_at U_done held count \<longleftrightarrow> count = held"
| "owner_at L_claim held count \<longleftrightarrow> held = 0"
| "owner_at L_done held count \<longleftrightarrow> True"
| "owner_at W_start held count \<longleftrightarrow> held = 0"
| "owner_at _ held count \<longleftrightarrow> False"

fun other_at :: "mon_pc \<Rightarrow> bool" where
  "other_at L_claim = False"
| "other_at L_done = False"
| "other_at U_start = False"
| "other_at W_start = False"
| "other_at (L_start n) = (n > 0)"
| "other_at (L_busy n) = (n > 0)"
| "other_at (L_wait n) = (n > 0)"
| "other_at (L_pass n) = (n > 0)"
| "other_at (W_reset n) = (n > 0)"
| "other_at (W_enter n) = (n > 0)"
| "other_at (W_blocked n) = (n > 0)"
| "other_at (W_woken n) = (n > 0)"
| "other_at (W_back n) = (n > 0)"
| "other_at _ = True"

definition thread_ok :: "RecursiveMutex \<Rightarrow> nat \<Rightarrow> bool" where
  "thread_ok s t \<longleftrightarrow>
     (km_internal s = Some t \<longleftrightarrow> holds_internal (km_pc s t)) \<and>
     (km_mutex s = Some t \<longleftrightarrow> passes_mutex (km_pc s t) \<or> (km_owner s = Some t \<and> km_pc s t \<noteq> L_claim)) \<and>
     (if km_owner s = Some t then owner_at (km_pc s t) (km_held s t) (km_count s) else km_held s t = 0 \<and> other_at (km_pc s t))"

definition mutex_ok :: "RecursiveMutex \<Rightarrow> bool" where
  "mutex_ok s \<longleftrightarrow> (km_count s = 0 \<longleftrightarrow> km_owner s = None) \<and> (\<forall>t. thread_ok s t)"

lemma mutex_new_ok: "mutex_ok RecursiveMutex_new"
  by (simp add: mutex_ok_def thread_ok_def RecursiveMutex_new_def)

lemma mutex_okD: "mutex_ok s \<Longrightarrow> thread_ok s t"
  by (simp add: mutex_ok_def)

lemma mutex_okI:
  assumes "mutex_ok s" "km_count s' = 0 \<longleftrightarrow> km_owner s' = None" "thread_ok s' t"
    and "\<And>u. u \<noteq> t \<Longrightarrow> thread_ok s u \<Longrightarrow> thread_ok s' u"
  shows "mutex_ok s'"
  using assms unfolding mutex_ok_def by metis

lemma mutex_step_ok:
  assumes "mon_step t s s'" "mutex_ok s"
  shows "mutex_ok s'"
proof -
  have z: "km_count s = 0 \<longleftrightarrow> km_owner s = None" using assms(2) by (simp add: mutex_ok_def)
  have ok: "thread_ok s t" by (rule mutex_okD [OF assms(2)])
  show ?thesis
    using assms(1)
  proof cases
    case (signal u n)
    have "thread_ok s u" by (rule mutex_okD [OF assms(2)])
    with signal show ?thesis using z
      by (intro mutex_okI [OF assms(2), where t = u]) (auto simp: at_pc_def thread_ok_def)
  next
    case (lock_enter n)
    show ?thesis
      by (rule mutex_okI [OF assms(2), where t = t])
        (use z ok lock_enter in \<open>auto simp: at_pc_def thread_ok_def lock_section_def Let_def split: if_splits\<close>)
  next
    case try_enter
    show ?thesis
      by (rule mutex_okI [OF assms(2), where t = t])
        (use z ok try_enter in \<open>auto simp: at_pc_def thread_ok_def try_section_def lock_section_def Let_def split: if_splits\<close>)
  next
    case unlock_enter
    show ?thesis
      by (rule mutex_okI [OF assms(2), where t = t])
        (use z ok unlock_enter in \<open>auto simp: at_pc_def thread_ok_def unlock_section_def Let_def split: if_splits\<close>)
  next
    case wait_enter
    show ?thesis
      by (rule mutex_okI [OF assms(2), where t = t])
        (use z ok wait_enter in \<open>auto simp: at_pc_def thread_ok_def reset4Condvar_def split: if_splits\<close>)
  qed (use z ok in \<open>auto simp: at_pc_def thread_ok_def ConditionHelper_end_def split: if_splits intro!: mutex_okI [OF assms(2), where t = t]\<close>)
qed

lemma mon_reachable_ok: "mon_reachable s \<Longrightarrow> mutex_ok s"
  by (induction rule: mon_reachable.induct) (auto intro: mutex_new_ok mutex_step_ok)

text \<open>The holder of a mutex that others queue on can move, or has the monitor in use.\<close>

definition can_move :: "RecursiveMutex \<Rightarrow> nat \<Rightarrow> bool" where
  "can_move s u \<longleftrightarrow> km_pc s u \<noteq> Outside \<and> (\<forall>n. km_pc s u \<noteq> W_blocked n) \<and> (\<exists>s'. mon_step u s s')"

definition in_use :: "RecursiveMutex \<Rightarrow> nat \<Rightarrow> bool" where
  "in_use s u \<longleftrightarrow> km_owner s = Some u \<and> km_pc s u = Outside \<and> km_held s u > 0"

lemma free_steps:
  "km_pc s t \<in> {L_done, T_fail, U_free, U_done} \<union> range L_busy \<union> range L_pass \<union> range W_reset \<union> range W_enter \<union> range W_back \<Longrightarrow>
    can_move s t"
  "km_pc s t \<in> {T_start, U_start, W_start} \<union> range L_start \<Longrightarrow> km_internal s = None \<Longrightarrow> can_move s t"
  "km_pc s t \<in> {L_claim} \<union> range L_wait \<union> range W_woken \<Longrightarrow> km_mutex s = None \<Longrightarrow> can_move s t"
  unfolding can_move_def by (auto intro: mon_step.intros)

lemma internal_moves:
  assumes "mutex_ok s" "km_internal s = Some u"
  shows "\<exists>v. can_move s v"
proof (cases "km_pc s u = L_claim \<and> km_mutex s \<noteq> None")
  case True
  then obtain v where v: "km_mutex s = Some v" by auto
  have u: "km_owner s = Some u" using mutex_okD [OF assms(1), of u] True by (auto simp: thread_ok_def split: if_splits)
  have "passes_mutex (km_pc s v)" using mutex_okD [OF assms(1), of v] v u True by (auto simp: thread_ok_def)
  then have "can_move s v" by (intro free_steps(1)) (cases "km_pc s v"; auto)
  then show ?thesis by blast
next
  case False
  have "holds_internal (km_pc s u)" using mutex_okD [OF assms(1), of u] assms(2) by (simp add: thread_ok_def)
  with False have "can_move s u" by (cases "km_pc s u") (auto intro: free_steps)
  then show ?thesis by blast
qed

lemma mutex_moves:
  assumes "mutex_ok s" "km_internal s = None" "km_mutex s = Some v"
  shows "can_move s v \<or> in_use s v"
proof -
  note ok = mutex_okD [OF assms(1), of v, unfolded thread_ok_def]
  have z: "km_count s = 0 \<longleftrightarrow> km_owner s = None" using assms(1) by (simp add: mutex_ok_def)
  show ?thesis
  proof (cases "passes_mutex (km_pc s v)")
    case True
    then show ?thesis by (intro disjI1 free_steps(1)) (cases "km_pc s v"; auto)
  next
    case False
    with ok assms(2,3) z show ?thesis by (cases "km_pc s v") (auto intro: free_steps simp: in_use_def)
  qed
qed

section \<open>Properties\<close>

text \<open>
  Property C24. The monitor keeps threads apart: under every interleaving of locking, trying, unlocking, waiting,
  signalling and timing out, at most one thread holds the recursive mutex, as often as the count
  says; and no signal is lost, because while a thread holds it no other thread is between giving the
  mutex up and blocking on the condition.
\<close>

theorem monitor_excludes:
  assumes "mon_reachable s" "km_held s t > 0"
  shows "km_owner s = Some t \<and> (km_pc s t = Outside \<longrightarrow> km_count s = km_held s t) \<and> (\<forall>u. km_held s u > 0 \<longrightarrow> u = t) \<and>
    (\<forall>u n. km_pc s u \<noteq> W_reset n \<and> km_pc s u \<noteq> W_enter n)"
proof -
  note ok = mutex_okD [OF mon_reachable_ok [OF assms(1)], unfolded thread_ok_def]
  have t: "km_owner s = Some t" "owner_at (km_pc s t) (km_held s t) (km_count s)"
    using ok [of t] assms(2) by (auto split: if_splits)
  then have "km_pc s t \<noteq> L_claim" using assms(2) by auto
  then have m: "km_mutex s = Some t" using ok [of t] t(1) by simp
  have one: "u = t" if "km_held s u > 0" for u using ok [of u] that t(1) by (auto split: if_splits)
  have "km_pc s u \<noteq> W_reset n \<and> km_pc s u \<noteq> W_enter n" for u n
    using ok [of u] m t by (cases "u = t") auto
  with t one show ?thesis by auto
qed

text \<open>
  The monitor does not deadlock by itself: whenever a thread is inside one of its operations and not
  blocked on the condition, some thread inside an operation can take its next step, or the mutex is
  held by a thread that runs code of its own. (\<^verbatim>\<open>lock\<close> waits for one mutex while it holds the other.)
\<close>

theorem monitor_never_stuck:
  assumes "mon_reachable s" "km_pc s t \<noteq> Outside" "\<forall>n. km_pc s t \<noteq> W_blocked n"
  shows "(\<exists>u. can_move s u) \<or> (\<exists>u. in_use s u)"
proof -
  note ok = mon_reachable_ok [OF assms(1)]
  show ?thesis
  proof (cases "km_internal s")
    case (Some u)
    then show ?thesis using internal_moves [OF ok] by blast
  next
    case None
    show ?thesis
    proof (cases "km_mutex s")
      case (Some v)
      then show ?thesis using mutex_moves [OF ok None] by blast
    next
      case free: None
      have "can_move s t" using assms(2,3) None free by (cases "km_pc s t") (auto intro: free_steps)
      then show ?thesis by blast
    qed
  qed
qed

definition locked_once :: RecursiveMutex where
  "locked_once = RecursiveMutex_new\<lparr>km_mutex := Some 0, km_count := 1, km_owner := Some 0,
     km_pc := (\<lambda>_. Outside)(1 := L_start 1), km_held := (\<lambda>_. 0)(0 := 1)\<rparr>"

lemma locked_once_reachable: "mon_reachable locked_once"
proof -
  let ?s1 = "at_pc 0 (L_start 1) RecursiveMutex_new"
  let ?s2 = "lock_section 0 1 (L_busy 1) ?s1"
  let ?s3 = "at_pc 0 L_done (?s2\<lparr>km_mutex := Some 0\<rparr>)"
  let ?s4 = "at_pc 0 Outside (?s3\<lparr>km_internal := None, km_held := (km_held ?s3)(0 := km_count ?s3)\<rparr>)"
  note d = at_pc_def RecursiveMutex_new_def lock_section_def
  have "mon_reachable ?s1" by (rule mon_reachable.step [OF mon_reachable.start mon_step.call_lock]) (simp add: d)
  then have "mon_reachable ?s2" by (rule mon_reachable.step [OF _ mon_step.lock_enter]) (simp_all add: d)
  then have "mon_reachable ?s3" by (rule mon_reachable.step [OF _ mon_step.lock_claim]) (simp_all add: d)
  then have "mon_reachable ?s4" by (rule mon_reachable.step [OF _ mon_step.lock_done]) (simp_all add: d)
  then have "mon_reachable (at_pc 1 (L_start 1) ?s4)" by (rule mon_reachable.step [OF _ mon_step.call_lock]) (simp_all add: d)
  moreover have "at_pc 1 (L_start 1) ?s4 = locked_once" by (simp add: d locked_once_def fun_eq_iff)
  ultimately show ?thesis by simp
qed

theorem monitor_excludes_witness: "mon_reachable locked_once \<and> km_held locked_once 0 > 0 \<and> km_owner locked_once = Some 0"
proof -
  have "km_held locked_once 0 > 0" by (simp add: locked_once_def)
  then show ?thesis using monitor_excludes [OF locked_once_reachable, of 0] locked_once_reachable by blast
qed

theorem monitor_never_stuck_witness: "mon_reachable locked_once \<and> ((\<exists>u. can_move locked_once u) \<or> (\<exists>u. in_use locked_once u))"
  using monitor_never_stuck [OF locked_once_reachable, of 1] locked_once_reachable
  by (simp add: locked_once_def)

section \<open>ServiceThread\<close>

text \<open>
  The thread of a service and those that wake it up, between two sections under its monitor.
  \<open>sv_at\<close> is where the loop of \<^verbatim>\<open>Run\<close> stands: before its test, blocked in \<^verbatim>\<open>waitForRunning\<close>, at its work, or ended.
\<close>

datatype service_pc = Testing | Blocked | Working | Ended

record ServiceThread =
  sv_notified :: bool
  sv_stoped :: bool
  sv_at :: service_pc
  sv_rounds :: nat

definition ServiceThread_new :: ServiceThread where
  "ServiceThread_new = \<lparr>sv_notified = False, sv_stoped = False, sv_at = Testing, sv_rounds = 0\<rparr>"

text \<open>\<^verbatim>\<open>Notify\<close> unblocks the loop; what it does not do is reset \<^verbatim>\<open>m_notified\<close> when the wait is over.\<close>

definition wakeup :: "ServiceThread \<Rightarrow> ServiceThread" where
  "wakeup s = (if \<not> sv_notified s then s\<lparr>sv_notified := True, sv_at := (if sv_at s = Blocked then Working else sv_at s)\<rparr> else s)"

definition waitForRunning :: "ServiceThread \<Rightarrow> ServiceThread" where
  "waitForRunning s = (if sv_notified s then s\<lparr>sv_notified := False, sv_at := Working\<rparr> else s\<lparr>sv_at := Blocked\<rparr>)"

definition service_stop :: "ServiceThread \<Rightarrow> ServiceThread" where
  "service_stop s = wakeup (s\<lparr>sv_stoped := True\<rparr>)"

text \<open>One step of \<^verbatim>\<open>RebalanceService::Run\<close>; a blocked thread moves only by its timeout.\<close>

definition service_loop :: "ServiceThread \<Rightarrow> ServiceThread" where
  "service_loop s =
     (case sv_at s of
        Testing \<Rightarrow> if sv_stoped s then s\<lparr>sv_at := Ended\<rparr> else waitForRunning s
      | Blocked \<Rightarrow> s\<lparr>sv_at := Working\<rparr>
      | Working \<Rightarrow> s\<lparr>sv_rounds := sv_rounds s + 1, sv_at := Testing\<rparr>
      | Ended \<Rightarrow> s)"

inductive service_reachable :: "ServiceThread \<Rightarrow> bool" where
  start: "service_reachable ServiceThread_new"
| loop: "service_reachable s \<Longrightarrow> service_reachable (service_loop s)"
| woken: "service_reachable s \<Longrightarrow> service_reachable (wakeup s)"
| stopped: "service_reachable s \<Longrightarrow> service_reachable (service_stop s)"

lemma service_ok: "service_reachable s \<Longrightarrow> (sv_notified s \<longrightarrow> sv_at s \<noteq> Blocked) \<and> (sv_stoped s \<longrightarrow> sv_at s \<noteq> Blocked)"
  by (induction rule: service_reachable.induct)
    (auto simp: ServiceThread_new_def service_loop_def wakeup_def waitForRunning_def service_stop_def split: service_pc.splits)

lemma loop_Ended: "sv_at s = Ended \<Longrightarrow> (service_loop ^^ n) s = s"
  by (induction n) (simp_all add: service_loop_def)

text \<open>
  A service is never asleep while it is asked to work: after a wake-up it is not blocked, whatever
  happened before, and its next two steps begin or finish a round; and after a stop its loop ends
  within four steps of its own, with at most one more round.
\<close>

theorem wakeup_not_lost:
  assumes "service_reachable s"
  shows "sv_at (wakeup s) \<noteq> Blocked \<and>
    (\<not> sv_stoped s \<and> sv_at s \<noteq> Ended \<longrightarrow> sv_at (service_loop (wakeup s)) = Working \<or> sv_rounds (service_loop (wakeup s)) = Suc (sv_rounds s)) \<and>
    sv_at ((service_loop ^^ 4) (service_stop s)) = Ended \<and>
    sv_rounds ((service_loop ^^ 4) (service_stop s)) \<le> Suc (sv_rounds s)"
  using service_ok [OF assms]
  by (cases "sv_at s") (auto simp: numeral_eq_Suc wakeup_def service_stop_def service_loop_def waitForRunning_def)

theorem wakeup_not_lost_witness: "sv_at (wakeup (service_loop ServiceThread_new)) \<noteq> Blocked"
  using wakeup_not_lost [OF service_reachable.loop [OF service_reachable.start]] by blast

text \<open>
  A wake-up that meets a blocked service makes it do its work twice: the flag is still set when the wait ends,
  so the next wait returns at once.
\<close>

theorem wakeup_counts_twice:
  assumes "service_reachable s" "sv_at s = Blocked" "\<not> sv_stoped s"
  shows "sv_rounds ((service_loop ^^ 3) (wakeup s)) = sv_rounds s + 2 \<and> sv_at ((service_loop ^^ 4) (wakeup s)) = Blocked"
  using service_ok [OF assms(1)] assms(2,3)
  by (auto simp: numeral_eq_Suc wakeup_def service_loop_def waitForRunning_def)

theorem wakeup_counts_twice_witness: "sv_rounds ((service_loop ^^ 3) (wakeup (service_loop ServiceThread_new))) = 2"
  using wakeup_counts_twice [OF service_reachable.loop [OF service_reachable.start]]
  by (simp add: service_loop_def ServiceThread_new_def waitForRunning_def)

end
