(* ===== verification/Monitor.thy ===== *)
theory Monitor
  imports Sync "HOL-Library.Multiset"
begin

text \<open>
  \<^verbatim>\<open>src/src/kpr/Monitor.cpp\<close>: a monitor whose notifications are put off until its owner lets go of it. The
  recursive mutex and the condition are those of \<open>Sync\<close>, which shows that threads exclude each other and that
  no signal falls between letting go and blocking; here a call of them is one step. A blocked thread
  is kept with the count it takes back. Which of the blocked threads a signal wakes is the choice of the system.
\<close>

section \<open>State and operations\<close>

record Monitor =
  mo_owner :: "nat option"
  mo_count :: nat
  mo_notifyCount :: int
  mo_waiting :: "(nat \<times> nat) list"
  mo_woken :: "(nat \<times> nat) list"

definition Monitor_new :: Monitor where
  "Monitor_new = \<lparr>mo_owner = None, mo_count = 0, mo_notifyCount = 0, mo_waiting = [], mo_woken = []\<rparr>"

text \<open>\<^verbatim>\<open>Condition::Notify\<close> and \<^verbatim>\<open>NotifyAll\<close>; \<open>c\<close> chooses among the blocked threads.\<close>

definition Condition_Notify :: "nat \<Rightarrow> Monitor \<Rightarrow> Monitor" where
  "Condition_Notify c s =
     (if mo_waiting s = [] then s
      else let i = c mod length (mo_waiting s)
           in s\<lparr>mo_waiting := take i (mo_waiting s) @ drop (Suc i) (mo_waiting s), mo_woken := mo_woken s @ [mo_waiting s ! i]\<rparr>)"

definition Condition_NotifyAll :: "Monitor \<Rightarrow> Monitor" where
  "Condition_NotifyAll s = s\<lparr>mo_waiting := [], mo_woken := mo_woken s @ mo_waiting s\<rparr>"

primrec notify_loop :: "(nat \<Rightarrow> nat) \<Rightarrow> nat \<Rightarrow> Monitor \<Rightarrow> Monitor" where
  "notify_loop ch 0 s = s"
| "notify_loop ch (Suc n) s = notify_loop ch n (Condition_Notify (ch n) s)"

definition monitor_notify :: "(nat \<Rightarrow> nat) \<Rightarrow> int \<Rightarrow> Monitor \<Rightarrow> Monitor" where
  "monitor_notify ch nnotify s =
     (if nnotify \<noteq> 0 then if nnotify = - 1 then Condition_NotifyAll s else notify_loop ch (nat nnotify) s else s)"

text \<open>
  The operations of a thread. An operation of a thread that does not own the monitor fails its assertion;
  \<^verbatim>\<open>Lock\<close> of a thread that has to wait for the mutex is not a step yet. Counting past the largest \<^verbatim>\<open>int\<close> is undefined.
\<close>

datatype monitor_op = Lock | Unlock | Notify | NotifyAll | Wait

definition validateOwner :: "nat \<Rightarrow> Monitor \<Rightarrow> bool" where
  "validateOwner t s \<longleftrightarrow> mo_count s > 0 \<and> mo_owner s = Some t"

definition Monitor_Lock :: "nat \<Rightarrow> Monitor \<Rightarrow> Monitor" where
  "Monitor_Lock t s =
     (if mo_count s = 0 then s\<lparr>mo_owner := Some t, mo_count := 1, mo_notifyCount := 0\<rparr>
      else s\<lparr>mo_count := mo_count s + 1\<rparr>)"

definition Monitor_Unlock :: "(nat \<Rightarrow> nat) \<Rightarrow> Monitor \<Rightarrow> Monitor" where
  "Monitor_Unlock ch s =
     (let s1 = (if mo_count s = 1 then monitor_notify ch (mo_notifyCount s) s else s)
      in if mo_count s1 = 1 then s1\<lparr>mo_count := 0, mo_owner := None\<rparr> else s1\<lparr>mo_count := mo_count s1 - 1\<rparr>)"

definition Monitor_Notify :: "Monitor \<Rightarrow> Monitor result" where
  "Monitor_Notify s =
     (if mo_notifyCount s = - 1 then Inr s
      else if mo_notifyCount s = 2147483647 then Inl Undefined
      else Inr (s\<lparr>mo_notifyCount := mo_notifyCount s + 1\<rparr>))"

definition Monitor_NotifyAll :: "Monitor \<Rightarrow> Monitor" where
  "Monitor_NotifyAll s = s\<lparr>mo_notifyCount := - 1\<rparr>"

definition Monitor_Wait :: "(nat \<Rightarrow> nat) \<Rightarrow> nat \<Rightarrow> Monitor \<Rightarrow> Monitor" where
  "Monitor_Wait ch t s =
     (let s1 = monitor_notify ch (mo_notifyCount s) s
      in s1\<lparr>mo_waiting := mo_waiting s1 @ [(t, mo_count s1)], mo_count := 0, mo_owner := None\<rparr>)"

definition monitor_call :: "(nat \<Rightarrow> nat) \<Rightarrow> nat \<Rightarrow> monitor_op \<Rightarrow> Monitor \<Rightarrow> Monitor result" where
  "monitor_call ch t x s =
     (if x = Lock then (if mo_count s = 0 \<or> mo_owner s = Some t then Inr (Monitor_Lock t s) else Inr s)
      else if \<not> validateOwner t s then Inl Undefined
      else case x of
             Unlock \<Rightarrow> Inr (Monitor_Unlock ch s)
           | Notify \<Rightarrow> Monitor_Notify s
           | NotifyAll \<Rightarrow> Inr (Monitor_NotifyAll s)
           | _ \<Rightarrow> Inr (Monitor_Wait ch t s))"

text \<open>The end of a wait: the thread that was woken takes the free monitor back as often as it held it, and resets the count.\<close>

definition wait_resume :: "nat \<Rightarrow> nat \<Rightarrow> Monitor \<Rightarrow> Monitor" where
  "wait_resume t n s = s\<lparr>mo_woken := remove1 (t, n) (mo_woken s), mo_owner := Some t, mo_count := n, mo_notifyCount := 0\<rparr>"

definition wait_timeout :: "nat \<times> nat \<Rightarrow> Monitor \<Rightarrow> Monitor" where
  "wait_timeout w s = s\<lparr>mo_waiting := remove1 w (mo_waiting s), mo_woken := mo_woken s @ [w]\<rparr>"

definition parked :: "Monitor \<Rightarrow> (nat \<times> nat) multiset" where
  "parked s = mset (mo_waiting s) + mset (mo_woken s)"

definition is_parked :: "nat \<Rightarrow> Monitor \<Rightarrow> bool" where
  "is_parked t s \<longleftrightarrow> t \<in># image_mset fst (parked s)"

inductive monitor_reachable :: "Monitor \<Rightarrow> bool" where
  start: "monitor_reachable Monitor_new"
| call: "monitor_reachable s \<Longrightarrow> \<not> is_parked t s \<Longrightarrow> monitor_call ch t x s = Inr s' \<Longrightarrow> monitor_reachable s'"
| timeout: "monitor_reachable s \<Longrightarrow> w \<in> set (mo_waiting s) \<Longrightarrow> monitor_reachable (wait_timeout w s)"
| resume: "monitor_reachable s \<Longrightarrow> (t, n) \<in> set (mo_woken s) \<Longrightarrow> mo_count s = 0 \<Longrightarrow> monitor_reachable (wait_resume t n s)"

section \<open>Waking\<close>

text \<open>A signal moves threads from the blocked to the woken and touches nothing else.\<close>

lemma notify_one:
  "parked (Condition_Notify c s) = parked s"
  "length (mo_waiting (Condition_Notify c s)) = length (mo_waiting s) - 1"
  "mo_owner (Condition_Notify c s) = mo_owner s" "mo_count (Condition_Notify c s) = mo_count s"
  "mo_notifyCount (Condition_Notify c s) = mo_notifyCount s"
proof -
  let ?w = "mo_waiting s" and ?i = "c mod length (mo_waiting s)"
  have i: "?i < length ?w" if "?w \<noteq> []" using that by simp
  have "mset ?w = add_mset (?w ! ?i) (mset (take ?i ?w @ drop (Suc ?i) ?w))" if "?w \<noteq> []"
    using arg_cong [OF id_take_nth_drop [OF i [OF that]], of mset] by simp
  then show "parked (Condition_Notify c s) = parked s"
    by (cases "?w = []") (simp_all add: Condition_Notify_def parked_def Let_def)
  show "length (mo_waiting (Condition_Notify c s)) = length ?w - 1"
  proof (cases "?w = []")
    case False
    have "?i + (length ?w - Suc ?i) = length ?w - 1" using i [OF False] by arith
    with False show ?thesis by (simp add: Condition_Notify_def Let_def)
  qed (simp add: Condition_Notify_def)
qed (simp_all add: Condition_Notify_def Let_def)

lemma notify_loop_wakes:
  "parked (notify_loop ch n s) = parked s \<and> length (mo_waiting (notify_loop ch n s)) = length (mo_waiting s) - n \<and>
   mo_owner (notify_loop ch n s) = mo_owner s \<and> mo_count (notify_loop ch n s) = mo_count s \<and>
   mo_notifyCount (notify_loop ch n s) = mo_notifyCount s"
  by (induction n arbitrary: s) (simp_all add: notify_one)

lemma monitor_notify_wakes:
  "parked (monitor_notify ch k s) = parked s \<and>
   length (mo_waiting (monitor_notify ch k s)) = (if k = - 1 then 0 else length (mo_waiting s) - nat k) \<and>
   mo_owner (monitor_notify ch k s) = mo_owner s \<and> mo_count (monitor_notify ch k s) = mo_count s"
  using notify_loop_wakes [of ch "nat k" s]
  by (auto simp: monitor_notify_def Condition_NotifyAll_def parked_def add.commute)

section \<open>Invariant\<close>

definition monitor_ok :: "Monitor \<Rightarrow> bool" where
  "monitor_ok s \<longleftrightarrow> (mo_count s = 0 \<longleftrightarrow> mo_owner s = None) \<and> mo_notifyCount s \<ge> - 1 \<and>
     (\<forall>t. count (image_mset fst (parked s)) t \<le> 1) \<and> (\<forall>x \<in># parked s. snd x > 0) \<and>
     (\<forall>t. mo_owner s = Some t \<longrightarrow> \<not> is_parked t s)"

lemma monitor_okI:
  assumes "monitor_ok s" "parked s' = parked s" "mo_count s' = 0 \<longleftrightarrow> mo_owner s' = None" "mo_notifyCount s' \<ge> - 1"
    and "\<And>t. mo_owner s' = Some t \<Longrightarrow> mo_owner s = Some t \<or> \<not> is_parked t s"
  shows "monitor_ok s'"
  using assms unfolding monitor_ok_def is_parked_def by metis

lemma parked_update [simp]:
  "parked (s\<lparr>mo_owner := x\<rparr>) = parked s" "parked (s\<lparr>mo_count := n\<rparr>) = parked s" "parked (s\<lparr>mo_notifyCount := k\<rparr>) = parked s"
  "parked (s\<lparr>mo_waiting := l\<rparr>) = mset l + mset (mo_woken s)" "parked (s\<lparr>mo_woken := l\<rparr>) = mset (mo_waiting s) + mset l"
  by (simp_all add: parked_def)

lemma monitor_notify_count: "mo_notifyCount (monitor_notify ch k s) = mo_notifyCount s"
  using notify_loop_wakes by (simp add: monitor_notify_def Condition_NotifyAll_def)

lemmas waking = monitor_notify_wakes [THEN conjunct1] monitor_notify_wakes [THEN conjunct2, THEN conjunct2, THEN conjunct1]
  monitor_notify_wakes [THEN conjunct2, THEN conjunct2, THEN conjunct2] monitor_notify_count

lemma monitor_call_ok:
  assumes "monitor_ok s" "\<not> is_parked t s" "monitor_call ch t x s = Inr s'"
  shows "monitor_ok s'"
proof -
  have z: "mo_count s = 0 \<longleftrightarrow> mo_owner s = None" "mo_notifyCount s \<ge> - 1" using assms(1) by (simp_all add: monitor_ok_def)
  show ?thesis
  proof (cases "x = Wait")
    case False
    show ?thesis
      by (rule monitor_okI [OF assms(1)])
        (use z assms False in \<open>auto simp: monitor_call_def Monitor_Lock_def Monitor_Unlock_def Monitor_Notify_def Monitor_NotifyAll_def
          waking Let_def split: if_splits monitor_op.splits\<close>)
  next
    case True
    with assms(3) have s': "s' = Monitor_Wait ch t s" "validateOwner t s" by (auto simp: monitor_call_def split: if_splits)
    then have "parked s' = add_mset (t, mo_count s) (parked s)" "mo_owner s' = None" "mo_count s' = 0" "mo_notifyCount s' = mo_notifyCount s"
      using waking [of ch "mo_notifyCount s" s] by (simp_all add: Monitor_Wait_def Let_def parked_def)
    then show ?thesis using assms(1,2) s'(2)
      by (auto simp: monitor_ok_def is_parked_def validateOwner_def count_eq_zero_iff)
  qed
qed

lemma monitor_reachable_ok: "monitor_reachable s \<Longrightarrow> monitor_ok s"
proof (induction rule: monitor_reachable.induct)
  case start
  then show ?case by (simp add: monitor_ok_def Monitor_new_def parked_def)
next
  case (call s t ch x s')
  then show ?case by (blast intro: monitor_call_ok)
next
  case (timeout s w)
  have "parked (wait_timeout w s) = parked s"
    using timeout(2) by (simp add: wait_timeout_def parked_def mset_remove1)
  then show ?case using timeout(3) by (intro monitor_okI [OF timeout(3)]) (simp_all add: wait_timeout_def monitor_ok_def)
next
  case (resume s t n)
  have p: "parked s = add_mset (t, n) (parked (wait_resume t n s))"
    using resume(2) by (simp add: wait_resume_def parked_def)
  have "count (image_mset fst (parked (wait_resume t n s))) u \<le> 1" for u
    using resume(4) unfolding monitor_ok_def p by (metis count_add_mset image_mset_add_mset le_SucE Suc_le_eq less_imp_le le_refl linorder_not_le fst_conv)
  moreover have "\<not> is_parked t (wait_resume t n s)"
    using resume(4) unfolding monitor_ok_def p is_parked_def by (metis count_add_mset count_greater_zero_iff fst_conv image_mset_add_mset less_Suc_eq_le not_less Suc_le_eq One_nat_def)
  ultimately show ?case using resume(4) p by (auto simp: monitor_ok_def wait_resume_def)
qed

section \<open>Notifications reach the waiters\<close>

primrec run_monitor :: "(nat \<Rightarrow> nat) \<Rightarrow> nat \<Rightarrow> monitor_op list \<Rightarrow> Monitor \<Rightarrow> Monitor result" where
  "run_monitor ch t [] s = Inr s"
| "run_monitor ch t (x # xs) s = (case monitor_call ch t x s of Inl e \<Rightarrow> Inl e | Inr s' \<Rightarrow> run_monitor ch t xs s')"

text \<open>The calls of an owner between its first lock and its last unlock, and how deep its locks nest after them.\<close>

fun inner :: "nat \<Rightarrow> monitor_op list \<Rightarrow> bool" where
  "inner d [] \<longleftrightarrow> True"
| "inner d (Lock # r) \<longleftrightarrow> inner (d + 1) r"
| "inner d (Unlock # r) \<longleftrightarrow> d > 1 \<and> inner (d - 1) r"
| "inner d (Wait # r) \<longleftrightarrow> False"
| "inner d (Notify # r) \<longleftrightarrow> inner d r"
| "inner d (NotifyAll # r) \<longleftrightarrow> inner d r"

fun depth :: "nat \<Rightarrow> monitor_op list \<Rightarrow> nat" where
  "depth d [] = d"
| "depth d (Lock # r) = depth (d + 1) r"
| "depth d (Unlock # r) = depth (d - 1) r"
| "depth d (x # r) = depth d r"

definition asked :: "int \<Rightarrow> monitor_op list \<Rightarrow> int" where
  "asked k ops = (if k = - 1 \<or> NotifyAll \<in> set ops then - 1 else k + int (count_list ops Notify))"

lemma run_inner:
  assumes "inner (mo_count s) ops" "validateOwner t s" "mo_notifyCount s \<ge> - 1" "mo_notifyCount s + int (length ops) < 2147483647"
  shows "\<exists>s'. run_monitor ch t ops s = Inr s' \<and> mo_owner s' = Some t \<and> mo_count s' = depth (mo_count s) ops \<and>
    mo_waiting s' = mo_waiting s \<and> mo_woken s' = mo_woken s \<and> mo_notifyCount s' = asked (mo_notifyCount s) ops"
  using assms
proof (induction "mo_count s" ops arbitrary: s rule: inner.induct)
  case 1
  then show ?case by (simp add: validateOwner_def asked_def)
next
  case (2 r)
  from 2(2-) show ?case using 2(1) [of "Monitor_Lock t s"]
    by (auto simp: monitor_call_def Monitor_Lock_def validateOwner_def asked_def)
next
  case (3 r)
  from 3(2-) show ?case using 3(1) [of "Monitor_Unlock ch s"]
    by (auto simp: monitor_call_def Monitor_Unlock_def validateOwner_def asked_def Let_def)
next
  case (5 r)
  from 5(2-) show ?case
    using 5(1) [of "if mo_notifyCount s = - 1 then s else s\<lparr>mo_notifyCount := mo_notifyCount s + 1\<rparr>"]
    by (auto simp: monitor_call_def Monitor_Notify_def validateOwner_def asked_def split: if_splits)
next
  case (6 r)
  from 6(2-) show ?case using 6(1) [of "Monitor_NotifyAll s"]
    by (auto simp: monitor_call_def Monitor_NotifyAll_def validateOwner_def asked_def)
qed simp

text \<open>
  Property C25. Notifications are neither lost nor early: what the owner of a free monitor asks for between its first
  lock and its last unlock, however its locks nest, wakes nobody before that unlock, and then as many
  blocked threads as it asked for (all of them after a \<^verbatim>\<open>NotifyAll\<close>, whatever came before or after it); every
  other thread stays blocked, and no request of an earlier owner is left over.
\<close>

theorem notifications_delivered:
  assumes "monitor_reachable s" "mo_count s = 0" "inner 1 ops" "depth 1 ops = 1" "length ops < 2147483647"
  shows "\<exists>s1 s'. run_monitor ch t (Lock # ops) s = Inr s1 \<and> mo_waiting s1 = mo_waiting s \<and> mo_woken s1 = mo_woken s \<and>
    monitor_call ch t Unlock s1 = Inr s' \<and> mo_owner s' = None \<and> parked s' = parked s \<and>
    length (mo_waiting s') = (if NotifyAll \<in> set ops then 0 else length (mo_waiting s) - count_list ops Notify)"
proof -
  let ?s0 = "Monitor_Lock t s"
  from run_inner [of ?s0 ops t ch] assms obtain s1 where r: "run_monitor ch t ops ?s0 = Inr s1"
    "mo_owner s1 = Some t" "mo_count s1 = 1" "mo_waiting s1 = mo_waiting s" "mo_woken s1 = mo_woken s" "mo_notifyCount s1 = asked 0 ops"
    by (auto simp: Monitor_Lock_def validateOwner_def)
  let ?n = "monitor_notify ch (asked 0 ops) s1"
  have "mo_count ?n = 1" "parked ?n = parked s" "length (mo_waiting ?n) = (if NotifyAll \<in> set ops then 0 else length (mo_waiting s) - count_list ops Notify)"
    using waking [of ch "asked 0 ops" s1] monitor_notify_wakes [of ch "asked 0 ops" s1] r by (simp_all add: parked_def asked_def)
  moreover have "monitor_call ch t Unlock s1 = Inr (?n\<lparr>mo_count := 0, mo_owner := None\<rparr>)"
    using r calculation by (simp add: monitor_call_def validateOwner_def Monitor_Unlock_def)
  ultimately show ?thesis using r assms(2)
    by (intro exI [of _ s1] exI [of _ "?n\<lparr>mo_count := 0, mo_owner := None\<rparr>"] conjI) (simp_all add: monitor_call_def)
qed

definition two_waiters :: Monitor where
  "two_waiters = Monitor_new\<lparr>mo_waiting := [(1, 1), (2, 1)]\<rparr>"

lemma two_waiters_reachable: "monitor_reachable two_waiters"
proof -
  note d = Monitor_new_def Monitor_Lock_def Monitor_Wait_def monitor_notify_def Let_def
  let ?s1 = "Monitor_Wait id 1 (Monitor_Lock 1 Monitor_new)"
  have "monitor_reachable (Monitor_Lock 1 Monitor_new)"
    by (rule monitor_reachable.call [OF monitor_reachable.start, where t = 1 and x = Lock and ch = id])
      (simp_all add: d is_parked_def parked_def monitor_call_def)
  then have "monitor_reachable ?s1"
    by (rule monitor_reachable.call [where t = 1 and x = Wait and ch = id])
      (simp_all add: d is_parked_def parked_def monitor_call_def validateOwner_def)
  then have "monitor_reachable (Monitor_Lock 2 ?s1)"
    by (rule monitor_reachable.call [where t = 2 and x = Lock and ch = id])
      (simp_all add: d is_parked_def parked_def monitor_call_def)
  then have "monitor_reachable (Monitor_Wait id 2 (Monitor_Lock 2 ?s1))"
    by (rule monitor_reachable.call [where t = 2 and x = Wait and ch = id])
      (simp_all add: d is_parked_def parked_def monitor_call_def validateOwner_def)
  then show ?thesis by (simp add: d two_waiters_def)
qed

theorem notifications_delivered_witness:
  "\<exists>s1 s'. run_monitor id 0 [Lock, Lock, Notify, Unlock] two_waiters = Inr s1 \<and> monitor_call id 0 Unlock s1 = Inr s' \<and>
     length (mo_waiting s') = 1"
  using notifications_delivered [OF two_waiters_reachable, of "[Lock, Notify, Unlock]" id 0]
  by (auto simp: two_waiters_def Monitor_new_def)

text \<open>
  A thread comes back from a wait as it went in: it owns the monitor again, as often as before, no other
  thread does, and no stale request is pending.
\<close>

theorem wait_gives_back:
  assumes "monitor_reachable s" "(t, n) \<in> set (mo_woken s)" "mo_count s = 0"
  shows "n > 0 \<and> validateOwner t (wait_resume t n s) \<and> mo_count (wait_resume t n s) = n \<and> mo_notifyCount (wait_resume t n s) = 0 \<and>
    \<not> is_parked t (wait_resume t n s)"
proof -
  have "monitor_ok s" "monitor_ok (wait_resume t n s)"
    using monitor_reachable_ok [OF assms(1)] monitor_reachable_ok [OF monitor_reachable.resume [OF assms]] by simp_all
  then show ?thesis using assms(2) by (auto simp: monitor_ok_def validateOwner_def wait_resume_def parked_def)
qed

theorem wait_gives_back_witness:
  "validateOwner 2 (wait_resume 2 1 (wait_timeout (2, 1) two_waiters))"
  using wait_gives_back [OF monitor_reachable.timeout [OF two_waiters_reachable, of "(2, 1)"], of 2 1]
  by (simp add: two_waiters_def wait_timeout_def Monitor_new_def)

end
