(* ===== verification/Handles.thy ===== *)
theory Handles
  imports Util
begin

text \<open>
  Counted references of \<^verbatim>\<open>src/src/kpr\<close>: \<^verbatim>\<open>RefCount\<close>, the handles \<^verbatim>\<open>RefHandleT\<close> over it, and \<^verbatim>\<open>Thread\<close>, an object that is
  counted and hands itself to a new thread of the system. Objects are addresses into a list of counts (0 for
  a deleted object), variables of handle type are indices. Using a deleted object is undefined.
\<close>

section \<open>Objects and handles\<close>

text \<open>
  \<open>hs_vars\<close>: the handle variables, \<^const>\<open>None\<close> once destroyed, with their \<^verbatim>\<open>m_ptr\<close>. The last two fields are no data of the
  program: the references that plain pointers own, and those that nobody owns any more.
\<close>

record Handles =
  hs_refCount :: "int list"
  hs_vars :: "nat option option list"
  hs_raw :: "nat list"
  hs_leaked :: "nat list"

definition Handles_new :: Handles where
  "Handles_new = \<lparr>hs_refCount = [], hs_vars = [], hs_raw = [], hs_leaked = []\<rparr>"

definition RefCount_new :: "Handles \<Rightarrow> Handles" where
  "RefCount_new s = s\<lparr>hs_refCount := hs_refCount s @ [1], hs_raw := length (hs_refCount s) # hs_raw s\<rparr>"

text \<open>
  An object is deleted when its count becomes 0. The count is a 32-bit number that wraps. Both operations assert
  that it is positive; a failed assertion ends the program.
\<close>

definition alive :: "Handles \<Rightarrow> nat \<Rightarrow> bool" where
  "alive s a \<longleftrightarrow> a < length (hs_refCount s) \<and> hs_refCount s ! a \<noteq> 0"

definition RefCount_IncRef :: "nat \<Rightarrow> Handles \<Rightarrow> Handles result" where
  "RefCount_IncRef a s = 
     (if alive s a \<and> hs_refCount s ! a \<ge> 1
      then Inr (s\<lparr>hs_refCount := (hs_refCount s)[a := i32 (hs_refCount s ! a + 1)]\<rparr>) else Inl Undefined)"

definition RefCount_DecRef :: "nat \<Rightarrow> Handles \<Rightarrow> Handles result" where
  "RefCount_DecRef a s = 
     (if alive s a \<and> hs_refCount s ! a > 0
      then Inr (s\<lparr>hs_refCount := (hs_refCount s)[a := i32 (hs_refCount s ! a - 1)]\<rparr>) else Inl Undefined)"

definition Duplicate :: "nat option \<Rightarrow> Handles \<Rightarrow> Handles result" where
  "Duplicate p s = (case p of None \<Rightarrow> Inr s | Some a \<Rightarrow> RefCount_IncRef a s)"

definition Release :: "nat option \<Rightarrow> Handles \<Rightarrow> Handles result" where
  "Release p s = (case p of None \<Rightarrow> Inr s | Some a \<Rightarrow> RefCount_DecRef a s)"

text \<open>The members of \<^verbatim>\<open>RefHandleT\<close>. A handle made from a plain pointer takes its reference over; a copied handle must not be empty.\<close>

definition ptr :: "Handles \<Rightarrow> nat \<Rightarrow> nat option" where
  "ptr s v = the (hs_vars s ! v)"

definition set_ptr :: "nat \<Rightarrow> nat option \<Rightarrow> Handles \<Rightarrow> Handles" where
  "set_ptr v p s = s\<lparr>hs_vars := (hs_vars s)[v := Some p]\<rparr>"

definition handle_new :: "nat option \<Rightarrow> Handles \<Rightarrow> Handles" where
  "handle_new p s = s\<lparr>hs_vars := hs_vars s @ [Some p]\<rparr>"

definition handle_copy :: "nat \<Rightarrow> Handles \<Rightarrow> Handles result" where
  "handle_copy v s =
     (case ptr s v of
        None \<Rightarrow> Inl Undefined
      | Some a \<Rightarrow> (case RefCount_IncRef a s of Inl x \<Rightarrow> Inl x | Inr s' \<Rightarrow> Inr (handle_new (Some a) s')))"

definition handle_end :: "nat \<Rightarrow> Handles \<Rightarrow> Handles result" where
  "handle_end v s =
     (case Release (ptr s v) s of Inl x \<Rightarrow> Inl x | Inr s' \<Rightarrow> Inr (s'\<lparr>hs_vars := (hs_vars s')[v := None]\<rparr>))"

definition handle_assign :: "nat \<Rightarrow> nat \<Rightarrow> Handles \<Rightarrow> Handles result" where
  "handle_assign h v s =
     (if ptr s h \<noteq> ptr s v then
        (case Release (ptr s h) s of
           Inl x \<Rightarrow> Inl x
         | Inr s' \<Rightarrow> Duplicate (ptr s v) (set_ptr h (ptr s v) s'))
      else Inr s)"

definition handle_assign_raw :: "nat \<Rightarrow> nat option \<Rightarrow> Handles \<Rightarrow> Handles result" where
  "handle_assign_raw h p s =
     (if ptr s h \<noteq> p then
        (case Release (ptr s h) s of Inl x \<Rightarrow> Inl x | Inr s' \<Rightarrow> Inr (set_ptr h p s'))
      else Inr s)"

definition retn :: "nat \<Rightarrow> Handles \<Rightarrow> Handles \<times> nat option" where
  "retn h s = (set_ptr h None s, ptr s h)"

section \<open>What a program does with them\<close>

datatype handle_op =
    New
  | Wrap "nat option"
  | Copy nat
  | End nat
  | Assign nat nat
  | AssignRaw nat "nat option"
  | Retn nat
  | DuplicateRaw nat
  | ReleaseRaw nat

definition live_var :: "Handles \<Rightarrow> nat \<Rightarrow> bool" where
  "live_var s v \<longleftrightarrow> v < length (hs_vars s) \<and> hs_vars s ! v \<noteq> None"

definition owners_of :: "Handles \<Rightarrow> nat \<Rightarrow> nat" where
  "owners_of s a = count_list (hs_vars s) (Some (Some a)) + count_list (hs_raw s) a"

text \<open>
  The discipline: variables are used while they live, a plain pointer gives away only a reference it owns, and no
  object gets more references than its count can hold.
\<close>

definition room :: "Handles \<Rightarrow> nat \<Rightarrow> bool" where
  "room s a \<longleftrightarrow> owners_of s a + count_list (hs_leaked s) a < 2147483647"

fun allowed :: "Handles \<Rightarrow> handle_op \<Rightarrow> bool" where
  "allowed s New \<longleftrightarrow> True"
| "allowed s (Wrap p) \<longleftrightarrow> set_option p \<subseteq> set (hs_raw s)"
| "allowed s (Copy v) \<longleftrightarrow> live_var s v \<and> ptr s v \<noteq> None \<and> (\<forall>a \<in> set_option (ptr s v). room s a)"
| "allowed s (End v) \<longleftrightarrow> live_var s v"
| "allowed s (Assign h v) \<longleftrightarrow> live_var s h \<and> live_var s v \<and> (\<forall>a \<in> set_option (ptr s v). room s a)"
| "allowed s (AssignRaw h p) \<longleftrightarrow> live_var s h \<and> set_option p \<subseteq> set (hs_raw s)"
| "allowed s (Retn v) \<longleftrightarrow> live_var s v"
| "allowed s (DuplicateRaw a) \<longleftrightarrow> owners_of s a > 0 \<and> room s a"
| "allowed s (ReleaseRaw a) \<longleftrightarrow> a \<in> set (hs_raw s)"

definition give :: "nat option \<Rightarrow> Handles \<Rightarrow> Handles" where
  "give p s = (case p of None \<Rightarrow> s | Some a \<Rightarrow> s\<lparr>hs_raw := remove1 a (hs_raw s)\<rparr>)"

definition gain :: "nat option \<Rightarrow> Handles \<Rightarrow> Handles" where
  "gain p s = (case p of None \<Rightarrow> s | Some a \<Rightarrow> s\<lparr>hs_raw := a # hs_raw s\<rparr>)"

text \<open>The reference that an assignment from a plain pointer takes from it is nobody's when the handle held the object already.\<close>

definition leak :: "nat option \<Rightarrow> Handles \<Rightarrow> Handles" where
  "leak p s = (case p of None \<Rightarrow> s | Some a \<Rightarrow> s\<lparr>hs_leaked := a # hs_leaked s\<rparr>)"

fun perform_handle :: "handle_op \<Rightarrow> Handles \<Rightarrow> Handles result" where
  "perform_handle New s = Inr (RefCount_new s)"
| "perform_handle (Wrap p) s = Inr (handle_new p (give p s))"
| "perform_handle (Copy v) s = handle_copy v s"
| "perform_handle (End v) s = handle_end v s"
| "perform_handle (Assign h v) s = handle_assign h v s"
| "perform_handle (AssignRaw h p) s =
     (case handle_assign_raw h p (give p s) of
        Inl x \<Rightarrow> Inl x
      | Inr s' \<Rightarrow> Inr (if ptr s h = p then leak p s' else s'))"
| "perform_handle (Retn v) s = (let (s', p) = retn v s in Inr (gain p s'))"
| "perform_handle (DuplicateRaw a) s =
     (case Duplicate (Some a) s of Inl x \<Rightarrow> Inl x | Inr s' \<Rightarrow> Inr (gain (Some a) s'))"
| "perform_handle (ReleaseRaw a) s = Release (Some a) (give (Some a) s)"

inductive handles_reachable :: "Handles \<Rightarrow> bool" where
  start: "handles_reachable Handles_new"
| step: "handles_reachable s \<Longrightarrow> allowed s x \<Longrightarrow> perform_handle x s = Inr s' \<Longrightarrow> handles_reachable s'"

section \<open>The count is the number of owners\<close>

definition refs :: "Handles \<Rightarrow> nat \<Rightarrow> int" where
  "refs s a = (if a < length (hs_refCount s) then hs_refCount s ! a else 0)"

definition refs_ok :: "Handles \<Rightarrow> bool" where
  "refs_ok s \<longleftrightarrow> (\<forall>a. refs s a = int (owners_of s a + count_list (hs_leaked s) a) \<and> refs s a \<le> 2147483647)"

lemma count_list_update:
  "v < length xs \<Longrightarrow> int (count_list (xs[v := y]) z) = int (count_list xs z) - of_bool (xs ! v = z) + of_bool (y = z)"
proof (induction xs arbitrary: v)
  case (Cons x xs)
  then show ?case by (cases v) auto
qed simp

lemma count_list_remove1: "a \<in> set xs \<Longrightarrow> int (count_list (remove1 a xs) b) = int (count_list xs b) - of_bool (a = b)"
  by (induction xs) auto

lemma refs_update [simp]:
  "refs (s\<lparr>hs_vars := vs\<rparr>) = refs s" "refs (s\<lparr>hs_raw := r\<rparr>) = refs s" "refs (s\<lparr>hs_leaked := l\<rparr>) = refs s"
  by (simp_all add: refs_def fun_eq_iff)

lemma owners_of_int: "int (owners_of s a) = int (count_list (hs_vars s) (Some (Some a))) + int (count_list (hs_raw s) a)"
  by (simp add: owners_of_def)

lemma alive_refs: "alive s a \<longleftrightarrow> refs s a \<noteq> 0"
  by (simp add: alive_def refs_def)

lemma refs_le: "refs_ok s \<Longrightarrow> refs s a \<le> 2147483647"
  unfolding refs_ok_def by blast

lemma room_refs: "refs_ok s \<Longrightarrow> room s a \<Longrightarrow> refs s a < 2147483647"
  by (simp add: refs_ok_def room_def)

lemma counted:
  assumes "refs s a > 0" "refs s a \<le> 2147483647"
  shows "refs s a < 2147483647 \<Longrightarrow> RefCount_IncRef a s = Inr (s\<lparr>hs_refCount := (hs_refCount s)[a := refs s a + 1]\<rparr>)"
    and "RefCount_DecRef a s = Inr (s\<lparr>hs_refCount := (hs_refCount s)[a := refs s a - 1]\<rparr>)"
    and "refs (s\<lparr>hs_refCount := (hs_refCount s)[a := k], hs_vars := vs, hs_raw := r, hs_leaked := l\<rparr>) b = (if b = a then k else refs s b)"
    and "refs (s\<lparr>hs_refCount := (hs_refCount s)[a := k], hs_vars := vs\<rparr>) b = (if b = a then k else refs s b)"
    and "refs (s\<lparr>hs_refCount := (hs_refCount s)[a := k], hs_raw := r\<rparr>) b = (if b = a then k else refs s b)"
    and "refs (s\<lparr>hs_refCount := (hs_refCount s)[a := k]\<rparr>) b = (if b = a then k else refs s b)"
  using assms by (auto simp: RefCount_IncRef_def RefCount_DecRef_def alive_def refs_def i32_id split: if_splits)

lemma held_counted:
  assumes "refs_ok s"
  shows "a \<in> set (hs_raw s) \<Longrightarrow> refs s a > 0" "live_var s v \<Longrightarrow> ptr s v = Some a \<Longrightarrow> refs s a > 0" "owners_of s a > 0 \<Longrightarrow> refs s a > 0"
proof -
  have h: "owners_of s a > 0 \<Longrightarrow> refs s a > 0" using assms by (simp add: refs_ok_def)
  then show "owners_of s a > 0 \<Longrightarrow> refs s a > 0" .
  show "a \<in> set (hs_raw s) \<Longrightarrow> refs s a > 0" using h by (simp add: owners_of_def count_list_0_iff flip: neq0_conv)
  have "live_var s v \<Longrightarrow> ptr s v = Some a \<Longrightarrow> Some (Some a) \<in> set (hs_vars s)"
    by (force simp: live_var_def ptr_def in_set_conv_nth)
  then show "live_var s v \<Longrightarrow> ptr s v = Some a \<Longrightarrow> refs s a > 0" using h by (auto simp: owners_of_def count_list_0_iff simp flip: neq0_conv)
qed

lemma live_at: "live_var s v \<Longrightarrow> v < length (hs_vars s) \<and> hs_vars s ! v = Some (ptr s v)"
  by (auto simp: live_var_def ptr_def)

text \<open>Releasing what a variable points to, and taking a reference to something else.\<close>

lemma release_var:
  assumes "refs_ok s" "live_var s v"
  shows "\<exists>s'. Release (ptr s v) s = Inr s' \<and> hs_vars s' = hs_vars s \<and> hs_raw s' = hs_raw s \<and> hs_leaked s' = hs_leaked s \<and>
    (\<forall>a. refs s' a = refs s a - of_bool (ptr s v = Some a))"
proof (cases "ptr s v")
  case (Some a)
  note p = held_counted(2) [OF assms Some]
  show ?thesis unfolding Some Release_def by (simp add: counted [OF p refs_le [OF assms(1)]])
qed (simp add: Release_def)

lemma duplicate_ptr:
  assumes "\<And>a. p = Some a \<Longrightarrow> refs s a > 0 \<and> refs s a < 2147483647"
  shows "\<exists>s'. Duplicate p s = Inr s' \<and> hs_vars s' = hs_vars s \<and> hs_raw s' = hs_raw s \<and> hs_leaked s' = hs_leaked s \<and>
    (\<forall>a. refs s' a = refs s a + of_bool (p = Some a))"
proof (cases p)
  case (Some a)
  have "refs s a > 0" "refs s a < 2147483647" using assms [OF Some] by simp_all
  then show ?thesis unfolding Some Duplicate_def by (simp add: counted)
qed (simp add: Duplicate_def)

lemma refs_okI:
  assumes "\<And>a. refs s' a = int (count_list (hs_vars s') (Some (Some a))) + int (count_list (hs_raw s') a) + int (count_list (hs_leaked s') a)"
    and "\<And>a. refs s' a \<le> 2147483647"
  shows "refs_ok s'"
  using assms by (simp add: refs_ok_def owners_of_def)

lemma refs_okD: "refs_ok s \<Longrightarrow> refs s a = int (count_list (hs_vars s) (Some (Some a))) + int (count_list (hs_raw s) a) + int (count_list (hs_leaked s) a)"
  by (simp add: refs_ok_def owners_of_def)

lemma give_raw:
  assumes "set_option p \<subseteq> set (hs_raw s)"
  shows "hs_vars (give p s) = hs_vars s" "hs_leaked (give p s) = hs_leaked s" "refs (give p s) = refs s" "ptr (give p s) = ptr s"
    "int (count_list (hs_raw (give p s)) a) = int (count_list (hs_raw s) a) - of_bool (p = Some a)"
proof -
  show "int (count_list (hs_raw (give p s)) a) = int (count_list (hs_raw s) a) - of_bool (p = Some a)"
  proof (cases p)
    case (Some b)
    with assms have "int (count_list (remove1 b (hs_raw s)) a) = int (count_list (hs_raw s) a) - of_bool (b = a)"
      by (intro count_list_remove1) simp
    with Some show ?thesis unfolding give_def option.case(2) Handles.simps by simp
  qed (simp add: give_def)
qed (simp_all add: give_def ptr_def fun_eq_iff split: option.splits)

lemma gain_raw:
  "hs_vars (gain p s) = hs_vars s" "hs_leaked (gain p s) = hs_leaked s" "refs (gain p s) = refs s"
  "int (count_list (hs_raw (gain p s)) a) = int (count_list (hs_raw s) a) + of_bool (p = Some a)"
  by (auto simp: gain_def split: option.splits)

lemma handle_end_ok:
  assumes "refs_ok s" "live_var s v"
  shows "\<exists>s'. handle_end v s = Inr s' \<and> refs_ok s'"
proof -
  from release_var [OF assms] obtain s1 where r: "Release (ptr s v) s = Inr s1" "hs_vars s1 = hs_vars s" "hs_raw s1 = hs_raw s"
    "hs_leaked s1 = hs_leaked s" "\<forall>a. refs s1 a = refs s a - of_bool (ptr s v = Some a)" by auto
  have "refs s1 a \<le> 2147483647" for a using r(5) refs_le [OF assms(1), of a] by simp
  then have "refs_ok (s1\<lparr>hs_vars := (hs_vars s1)[v := None]\<rparr>)"
    using r live_at [OF assms(2)] by (intro refs_okI) (simp_all add: count_list_update refs_okD [OF assms(1)])
  then show ?thesis using r(1) by (simp add: handle_end_def)
qed

lemma handle_assign_ok:
  assumes "refs_ok s" "live_var s h" "live_var s v" "\<forall>a \<in> set_option (ptr s v). room s a"
  shows "\<exists>s'. handle_assign h v s = Inr s' \<and> refs_ok s'"
proof (cases "ptr s h = ptr s v")
  case False
  from release_var [OF assms(1,2)] obtain s1 where r: "Release (ptr s h) s = Inr s1" "hs_vars s1 = hs_vars s" "hs_raw s1 = hs_raw s"
    "hs_leaked s1 = hs_leaked s" "\<forall>a. refs s1 a = refs s a - of_bool (ptr s h = Some a)" by auto
  let ?s = "set_ptr h (ptr s v) s1"
  have "refs ?s a > 0 \<and> refs ?s a < 2147483647" if "ptr s v = Some a" for a
    using held_counted(2) [OF assms(1,3) that] room_refs [OF assms(1)] assms(4) r(5) that False by (simp add: set_ptr_def)
  from duplicate_ptr [of "ptr s v" ?s, OF this] obtain s2 where d: "Duplicate (ptr s v) ?s = Inr s2" "hs_vars s2 = hs_vars ?s" "hs_raw s2 = hs_raw ?s"
    "hs_leaked s2 = hs_leaked ?s" "\<forall>a. refs s2 a = refs ?s a + of_bool (ptr s v = Some a)" by auto
  have "refs s2 a \<le> 2147483647" for a
    using d(5) r(5) refs_le [OF assms(1), of a] room_refs [OF assms(1), of a] assms(4) by (auto simp: set_ptr_def)
  then have "refs_ok s2"
    using d r live_at [OF assms(2)] by (intro refs_okI) (simp_all add: set_ptr_def count_list_update refs_okD [OF assms(1)])
  then show ?thesis using False r(1) d(1) by (simp add: handle_assign_def)
qed (use assms in \<open>simp add: handle_assign_def\<close>)

lemma handle_assign_raw_ok:
  assumes "refs_ok s" "live_var s h" "set_option p \<subseteq> set (hs_raw s)" "ptr s h \<noteq> p"
  shows "\<exists>s'. handle_assign_raw h p (give p s) = Inr s' \<and> refs_ok s'"
proof -
  note g = give_raw [OF assms(3)]
  have "refs (give p s) a > 0" if "ptr s h = Some a" for a using held_counted(2) [OF assms(1,2) that] g by simp
  then obtain s1 where r: "Release (ptr s h) (give p s) = Inr s1" "hs_vars s1 = hs_vars s" "hs_raw s1 = hs_raw (give p s)"
    "hs_leaked s1 = hs_leaked s" "\<forall>a. refs s1 a = refs s a - of_bool (ptr s h = Some a)"
    using g refs_le [OF assms(1)] by (cases "ptr s h") (auto simp: Release_def counted)
  have "refs s1 a \<le> 2147483647" for a using r(5) refs_le [OF assms(1), of a] by simp
  then have "refs_ok (set_ptr h p s1)"
    using r live_at [OF assms(2)] by (intro refs_okI) (simp_all add: set_ptr_def count_list_update g refs_okD [OF assms(1)])
  then show ?thesis using assms(4) r(1) by (simp add: handle_assign_raw_def g)
qed

lemma one_more:
  assumes "refs_ok s" "refs s a > 0" "refs s a < 2147483647" "hs_refCount s' = (hs_refCount s)[a := refs s a + 1]"
    and "\<And>b. count_list (hs_vars s') (Some (Some b)) + count_list (hs_raw s') b + count_list (hs_leaked s') b =
      count_list (hs_vars s) (Some (Some b)) + count_list (hs_raw s) b + count_list (hs_leaked s) b + of_bool (a = b)"
  shows "refs_ok s'"
proof (rule refs_okI)
  fix b
  have e: "refs s' b = refs s b + of_bool (a = b)"
    using assms(2,4) by (auto simp: refs_def split: if_splits)
  then show "refs s' b \<le> 2147483647" using assms(3) refs_le [OF assms(1), of b] by auto
  show "refs s' b = int (count_list (hs_vars s') (Some (Some b))) + int (count_list (hs_raw s') b) + int (count_list (hs_leaked s') b)"
    using e refs_okD [OF assms(1), of b] arg_cong [OF assms(5) [of b], of int] by (cases "a = b") simp_all
qed

lemma perform_handle_ok:
  assumes "refs_ok s" "allowed s x"
  shows "\<exists>s'. perform_handle x s = Inr s' \<and> refs_ok s'"
proof (cases x)
  case New
  have n: "refs (RefCount_new s) a = refs s a + of_bool (a = length (hs_refCount s))" for a
    by (auto simp: RefCount_new_def refs_def nth_append)
  have "refs s (length (hs_refCount s)) = 0" by (simp add: refs_def)
  then have "refs (RefCount_new s) a \<le> 2147483647" for a using n [of a] refs_le [OF assms(1), of a] by auto
  then have "refs_ok (RefCount_new s)"
    using n refs_okD [OF assms(1)] by (intro refs_okI) (auto simp: RefCount_new_def simp del: refs_update)
  with New show ?thesis by simp
next
  case (Wrap p)
  have "refs_ok (handle_new p (give p s))"
    using Wrap assms(2) give_raw [of p s] refs_okD [OF assms(1)] refs_le [OF assms(1)]
    by (intro refs_okI) (auto simp: handle_new_def)
  with Wrap show ?thesis by simp
next
  case (Copy v)
  then obtain a where a: "ptr s v = Some a" "refs s a > 0" "refs s a < 2147483647"
    using assms held_counted(2) [OF assms(1)] room_refs [OF assms(1)] by auto
  have l: "refs s b \<le> 2147483647" for b by (rule refs_le [OF assms(1)])
  have "refs_ok (handle_new (Some a) (s\<lparr>hs_refCount := (hs_refCount s)[a := refs s a + 1]\<rparr>))"
    by (rule one_more [OF assms(1) a(2,3)]) (auto simp: handle_new_def)
  then show ?thesis using Copy a by (simp add: handle_copy_def counted(1) [OF a(2) l a(3)])
next
  case (End v)
  then show ?thesis using handle_end_ok [OF assms(1)] assms(2) by simp
next
  case (Assign h v)
  then show ?thesis using handle_assign_ok [OF assms(1)] assms(2) by simp
next
  case (AssignRaw h p)
  then have al: "live_var s h" "set_option p \<subseteq> set (hs_raw s)" using assms(2) by simp_all
  show ?thesis
  proof (cases "ptr s h = p")
    case True
    have "refs_ok (leak p (give p s))"
      using give_raw [OF al(2)] refs_okD [OF assms(1)] refs_le [OF assms(1)]
      by (intro refs_okI) (auto simp: leak_def split: option.splits)
    with AssignRaw True show ?thesis by (simp add: handle_assign_raw_def give_raw [OF al(2)])
  next
    case False
    then show ?thesis using handle_assign_raw_ok [OF assms(1) al] AssignRaw by auto
  qed
next
  case (Retn v)
  then have "refs_ok (gain (ptr s v) (set_ptr v None s))"
    using assms(2) live_at [of s v] refs_okD [OF assms(1)] refs_le [OF assms(1)]
    by (intro refs_okI) (simp_all add: gain_raw set_ptr_def count_list_update)
  with Retn show ?thesis by (simp add: retn_def)
next
  case (DuplicateRaw a)
  then have a: "refs s a > 0" "refs s a < 2147483647" using held_counted(3) [OF assms(1)] room_refs [OF assms(1)] assms(2) by simp_all
  have l: "refs s b \<le> 2147483647" for b by (rule refs_le [OF assms(1)])
  have "refs_ok (gain (Some a) (s\<lparr>hs_refCount := (hs_refCount s)[a := refs s a + 1]\<rparr>))"
    by (rule one_more [OF assms(1) a]) (auto simp: gain_def)
  then show ?thesis using DuplicateRaw by (simp add: Duplicate_def counted(1) [OF a(1) l a(2)])
next
  case (ReleaseRaw a)
  then have al: "set_option (Some a) \<subseteq> set (hs_raw s)" "refs s a > 0" using assms held_counted(1) [OF assms(1)] by simp_all
  note g = give_raw [OF al(1)]
  have l: "refs s b \<le> 2147483647" for b by (rule refs_le [OF assms(1)])
  have ga: "refs (give (Some a) s) a > 0" "refs (give (Some a) s) a \<le> 2147483647" using al(2) l by (simp_all add: g)
  have "refs_ok ((give (Some a) s)\<lparr>hs_refCount := (hs_refCount (give (Some a) s))[a := refs (give (Some a) s) a - 1]\<rparr>)"
  proof (rule refs_okI)
    fix b
    show "refs ((give (Some a) s)\<lparr>hs_refCount := (hs_refCount (give (Some a) s))[a := refs (give (Some a) s) a - 1]\<rparr>) b \<le> 2147483647"
      using l [of b] l [of a] by (simp add: counted(6) [OF ga] g)
    show "refs ((give (Some a) s)\<lparr>hs_refCount := (hs_refCount (give (Some a) s))[a := refs (give (Some a) s) a - 1]\<rparr>) b =
        int (count_list (hs_vars ((give (Some a) s)\<lparr>hs_refCount := (hs_refCount (give (Some a) s))[a := refs (give (Some a) s) a - 1]\<rparr>)) (Some (Some b))) +
        int (count_list (hs_raw ((give (Some a) s)\<lparr>hs_refCount := (hs_refCount (give (Some a) s))[a := refs (give (Some a) s) a - 1]\<rparr>)) b) +
        int (count_list (hs_leaked ((give (Some a) s)\<lparr>hs_refCount := (hs_refCount (give (Some a) s))[a := refs (give (Some a) s) a - 1]\<rparr>)) b)"
      using refs_okD [OF assms(1), of b] by (cases "b = a") (simp_all add: counted(6) [OF ga] g)
  qed
  then show ?thesis using ReleaseRaw by (simp add: Release_def counted(2) [OF ga])
qed

lemma handles_reachable_ok: "handles_reachable s \<Longrightarrow> refs_ok s"
proof (induction rule: handles_reachable.induct)
  case start
  then show ?case by (simp add: refs_ok_def refs_def owners_of_def Handles_new_def)
next
  case (step s x s')
  then show ?case using perform_handle_ok [of s x] by auto
qed

text \<open>
  Property C38. Counted references are safe and exact up to one leak: whatever a program does with handles and plain
  pointers inside the discipline (which keeps the number of references to an object below the bound of its 32-bit
  count), no operation touches a deleted object or fails an assertion, and after every operation exactly the objects
  are alive that somebody owns, or of which a reference was given to a handle that already held the object; nobody
  releases such a reference any more, so its object stays alive for ever.
\<close>

theorem object_lives_while_held:
  assumes "handles_reachable s" "allowed s x"
  shows "\<exists>s'. perform_handle x s = Inr s' \<and> (\<forall>a. alive s' a \<longleftrightarrow> owners_of s' a > 0 \<or> a \<in> set (hs_leaked s'))"
proof -
  obtain s' where s': "perform_handle x s = Inr s'" "refs_ok s'" using perform_handle_ok [OF handles_reachable_ok [OF assms(1)] assms(2)] by blast
  then have "alive s' a \<longleftrightarrow> owners_of s' a > 0 \<or> count_list (hs_leaked s') a \<noteq> 0" for a
    by (auto simp: alive_refs refs_ok_def)
  with s'(1) show ?thesis by (simp add: count_list_0_iff)
qed

definition one_handle :: Handles where
  "one_handle = \<lparr>hs_refCount = [1], hs_vars = [Some (Some 0)], hs_raw = [], hs_leaked = []\<rparr>"

lemma one_handle_reachable: "handles_reachable one_handle"
proof -
  have "handles_reachable (RefCount_new Handles_new)"
    by (rule handles_reachable.step [OF handles_reachable.start, where x = New]) simp_all
  then have "handles_reachable (handle_new (Some 0) (give (Some 0) (RefCount_new Handles_new)))"
    by (rule handles_reachable.step [where x = "Wrap (Some 0)"]) (simp_all add: RefCount_new_def Handles_new_def)
  then show ?thesis by (simp add: one_handle_def handle_new_def give_def RefCount_new_def Handles_new_def)
qed

theorem object_lives_while_held_witness:
  "\<exists>s'. perform_handle (End 0) one_handle = Inr s' \<and> \<not> alive s' 0"
  using object_lives_while_held [OF one_handle_reachable, of "End 0"]
  by (auto simp: one_handle_def live_var_def owners_of_def handle_end_def Release_def ptr_def RefCount_DecRef_def alive_def)

text \<open>Outside the discipline: copying an empty handle calls a member of a null pointer, and a self-assignment from a plain pointer leaks.\<close>

lemma empty_copy_undefined: "ptr s v = None \<Longrightarrow> perform_handle (Copy v) s = Inl Undefined"
  by (simp add: handle_copy_def)

lemma self_assign_leaks:
  "ptr s h = Some a \<Longrightarrow> perform_handle (AssignRaw h (Some a)) s = Inr s' \<Longrightarrow> a \<in> set (hs_leaked s') \<and> hs_refCount s' = hs_refCount s"
  by (auto simp: handle_assign_raw_def leak_def give_def ptr_def)

section \<open>Threads\<close>

text \<open>
  \<^verbatim>\<open>Thread\<close>: the name of a thread, \<^verbatim>\<open>Start\<close>, which passes the object as a plain pointer to \<^verbatim>\<open>pthread_create\<close>, and \<^verbatim>\<open>ThreadRoute\<close>, which
  runs in the new thread and takes a reference of its own first. \<open>ts_pending\<close> are the objects whose new thread
  has not come that far, \<open>ts_running\<close> those that run, with the handle variable \<^verbatim>\<open>tv\<close> of their route.
\<close>

definition SetName :: "string option \<Rightarrow> nat \<Rightarrow> string" where
  "SetName name threadNumber = (case name of None \<Rightarrow> ''Thread-'' @ show_nat threadNumber | Some n \<Rightarrow> c_str n)"

record Threads =
  ts_handles :: Handles
  ts_started :: "nat list"
  ts_pending :: "nat list"
  ts_running :: "(nat \<times> nat) list"

datatype start_outcome = Started | AlreadyStarted | SystemCallException string

definition Thread_Start :: "bool \<Rightarrow> bool \<Rightarrow> nat \<Rightarrow> Threads \<Rightarrow> (Threads \<times> start_outcome) result" where
  "Thread_Start attr_ok created a s =
     (if \<not> alive (ts_handles s) a then Inl Undefined
      else if a \<in> set (ts_started s) then Inr (s, AlreadyStarted)
      else if \<not> attr_ok then Inr (s, SystemCallException ''pthread_attr_init failed!'')
      else if \<not> created then Inr (s, SystemCallException ''pthread_create error'')
      else Inr (s\<lparr>ts_started := a # ts_started s, ts_pending := a # ts_pending s\<rparr>, Started))"

definition ThreadRoute_begin :: "nat \<Rightarrow> Threads \<Rightarrow> Threads result" where
  "ThreadRoute_begin a s =
     (case Duplicate (Some a) (ts_handles s) of
        Inl x \<Rightarrow> Inl x
      | Inr h \<Rightarrow> Inr (s\<lparr>ts_handles := handle_new (Some a) h, ts_pending := remove1 a (ts_pending s),
                          ts_running := (a, length (hs_vars h)) # ts_running s\<rparr>))"

definition ThreadRoute_end :: "nat \<Rightarrow> nat \<Rightarrow> Threads \<Rightarrow> Threads result" where
  "ThreadRoute_end a tv s =
     (case handle_end tv (ts_handles s) of
        Inl x \<Rightarrow> Inl x
      | Inr h \<Rightarrow> Inr (s\<lparr>ts_handles := h, ts_running := remove1 (a, tv) (ts_running s)\<rparr>))"

definition ESRCH :: int where "ESRCH = 3"

definition IsAlive :: "bool \<Rightarrow> int \<Rightarrow> bool" where
  "IsAlive started pthread_kill \<longleftrightarrow> started \<and> pthread_kill = ESRCH"

text \<open>What the program does with handles while threads are started and run; the \<^verbatim>\<open>tv\<close> of a route is that route's own.\<close>

definition uses :: "handle_op \<Rightarrow> nat set" where
  "uses x = (case x of End v \<Rightarrow> {v} | Assign h v \<Rightarrow> {h} | AssignRaw h p \<Rightarrow> {h} | Retn v \<Rightarrow> {v} | _ \<Rightarrow> {})"

inductive threads_reachable :: "Threads \<Rightarrow> bool" where
  start: "threads_reachable \<lparr>ts_handles = Handles_new, ts_started = [], ts_pending = [], ts_running = []\<rparr>"
| handle: "threads_reachable s \<Longrightarrow> allowed (ts_handles s) x \<Longrightarrow> uses x \<inter> snd ` set (ts_running s) = {} \<Longrightarrow>
    perform_handle x (ts_handles s) = Inr h \<Longrightarrow> threads_reachable (s\<lparr>ts_handles := h\<rparr>)"
| started: "threads_reachable s \<Longrightarrow> Thread_Start attr_ok created a s = Inr (s', r) \<Longrightarrow> threads_reachable s'"
| route: "threads_reachable s \<Longrightarrow> a \<in> set (ts_pending s) \<Longrightarrow> room (ts_handles s) a \<Longrightarrow> ThreadRoute_begin a s = Inr s' \<Longrightarrow> threads_reachable s'"
| finish: "threads_reachable s \<Longrightarrow> (a, tv) \<in> set (ts_running s) \<Longrightarrow> ThreadRoute_end a tv s = Inr s' \<Longrightarrow> threads_reachable s'"

definition routes_ok :: "Threads \<Rightarrow> bool" where
  "routes_ok s \<longleftrightarrow> refs_ok (ts_handles s) \<and> distinct (map snd (ts_running s)) \<and>
     (\<forall>(a, tv) \<in> set (ts_running s). tv < length (hs_vars (ts_handles s)) \<and> hs_vars (ts_handles s) ! tv = Some (Some a))"

lemma perform_keeps_var:
  assumes "perform_handle x s = Inr s'" "v \<notin> uses x" "v < length (hs_vars s)"
  shows "v < length (hs_vars s') \<and> hs_vars s' ! v = hs_vars s ! v"
  using assms
  by (cases x) (auto simp: uses_def RefCount_new_def handle_new_def handle_copy_def handle_end_def handle_assign_def handle_assign_raw_def
      retn_def set_ptr_def give_def gain_def leak_def Release_def Duplicate_def RefCount_IncRef_def RefCount_DecRef_def nth_append
      split: option.splits sum.splits if_splits)

lemma route_begins:
  assumes "refs_ok h" "alive h a" "room h a"
  shows "\<exists>h'. Duplicate (Some a) h = Inr h' \<and> hs_vars h' = hs_vars h \<and> refs_ok (handle_new (Some a) h')"
proof -
  have a: "refs h a > 0" "refs h a < 2147483647" "refs h a \<le> 2147483647"
    using assms room_refs by (auto simp: alive_refs refs_ok_def room_def)
  have "refs_ok (handle_new (Some a) (h\<lparr>hs_refCount := (hs_refCount h)[a := refs h a + 1]\<rparr>))"
    by (rule one_more [OF assms(1) a(1,2)]) (auto simp: handle_new_def)
  then show ?thesis by (simp add: Duplicate_def counted(1) [OF a(1,3,2)])
qed

lemma remove1_others:
  assumes "distinct (map snd l)"
  shows "distinct (map snd (remove1 x l))" "x \<in> set l \<Longrightarrow> y \<in> set (remove1 x l) \<Longrightarrow> snd y \<noteq> snd x"
  using assms by (induction l) (auto simp: image_iff dest: set_remove1_subset [THEN subsetD] split: if_splits)

lemma routes_ok_reachable: "threads_reachable s \<Longrightarrow> routes_ok s"
proof (induction rule: threads_reachable.induct)
  case start
  then show ?case by (simp add: routes_ok_def refs_ok_def refs_def owners_of_def Handles_new_def)
next
  case (handle s x h)
  have "tv < length (hs_vars h) \<and> hs_vars h ! tv = Some (Some a)" if "(a, tv) \<in> set (ts_running s)" for a tv
    using perform_keeps_var [OF handle(4), of tv] that handle(3,5) by (force simp: routes_ok_def)
  with handle perform_handle_ok [of "ts_handles s" x] show ?case by (auto simp: routes_ok_def)
next
  case (started s attr_ok created a s' r)
  then show ?case by (auto simp: routes_ok_def Thread_Start_def split: if_splits)
next
  case (route s a s')
  then have al: "alive (ts_handles s) a" by (auto simp: ThreadRoute_begin_def Duplicate_def RefCount_IncRef_def split: if_splits)
  have "refs_ok (ts_handles s)" using route(5) by (simp add: routes_ok_def)
  from route_begins [OF this al route(3)] obtain h where "Duplicate (Some a) (ts_handles s) = Inr h" "hs_vars h = hs_vars (ts_handles s)"
    "refs_ok (handle_new (Some a) h)" by blast
  moreover have k: "tv < length (hs_vars (ts_handles s)) \<and> hs_vars (ts_handles s) ! tv = Some (Some b)" if "(b, tv) \<in> set (ts_running s)" for b tv
    using route(5) that by (auto simp: routes_ok_def)
  ultimately show ?case using route(4,5)
    by (auto simp: ThreadRoute_begin_def routes_ok_def handle_new_def nth_append dest!: k)
next
  case (finish s a tv s')
  then have l: "live_var (ts_handles s) tv" by (auto simp: routes_ok_def live_var_def)
  then obtain h where h: "handle_end tv (ts_handles s) = Inr h" "refs_ok h"
    using handle_end_ok [of "ts_handles s" tv] finish(4) by (auto simp: routes_ok_def)
  have "perform_handle (End tv) (ts_handles s) = Inr h" using h by simp
  then have k: "u < length (hs_vars h) \<and> hs_vars h ! u = hs_vars (ts_handles s) ! u" if "u \<noteq> tv" "u < length (hs_vars (ts_handles s))" for u
    using perform_keeps_var [of "End tv"] that by (simp add: uses_def)
  have d: "distinct (map snd (ts_running s))" using finish(4) by (simp add: routes_ok_def)
  have "u < length (hs_vars h) \<and> hs_vars h ! u = Some (Some b)" if "(b, u) \<in> set (remove1 (a, tv) (ts_running s))" for b u
    using k [of u] remove1_others(2) [OF d finish(2) that] that finish(4) set_remove1_subset [of "(a, tv)" "ts_running s"]
    by (auto simp: routes_ok_def)
  then show ?case using finish(3) h remove1_others(1) [OF d] by (auto simp: ThreadRoute_end_def routes_ok_def)
qed

text \<open>
  A running thread keeps its object: whatever handles the rest of the program gives up, the object is alive until its
  route ends.
\<close>

theorem running_thread_alive:
  assumes "threads_reachable s" "(a, tv) \<in> set (ts_running s)"
  shows "alive (ts_handles s) a"
proof -
  note ok = routes_ok_reachable [OF assms(1)]
  then have "live_var (ts_handles s) tv" "ptr (ts_handles s) tv = Some a"
    using assms(2) by (auto simp: routes_ok_def live_var_def ptr_def)
  with ok held_counted(2) have "refs (ts_handles s) a > 0" by (simp add: routes_ok_def)
  then show ?thesis by (simp add: alive_refs)
qed

definition held_thread :: Threads where
  "held_thread = \<lparr>ts_handles = one_handle, ts_started = [0], ts_pending = [0], ts_running = []\<rparr>"

lemma held_thread_reachable: "threads_reachable held_thread"
proof -
  let ?s = "\<lparr>ts_handles = Handles_new, ts_started = [], ts_pending = [], ts_running = []\<rparr>"
  have "threads_reachable (?s\<lparr>ts_handles := RefCount_new Handles_new\<rparr>)"
    by (rule threads_reachable.handle [OF threads_reachable.start, where x = New]) simp_all
  then have "threads_reachable (?s\<lparr>ts_handles := RefCount_new Handles_new\<rparr>\<lparr>ts_handles := one_handle\<rparr>)"
    by (rule threads_reachable.handle [where x = "Wrap (Some 0)"])
      (simp_all add: RefCount_new_def Handles_new_def one_handle_def handle_new_def give_def)
  then show ?thesis
    by (rule threads_reachable.started [where attr_ok = True and created = True and a = 0 and r = Started])
      (simp add: Thread_Start_def alive_def one_handle_def held_thread_def)
qed

text \<open>
  But a thread that has been started is not kept before its route has taken its reference: when the starter
  gives up the only handle first, the new thread uses a deleted object.
\<close>

theorem start_races_with_release:
  assumes "threads_reachable s" "a \<in> set (ts_pending s)" "live_var (ts_handles s) v" "ptr (ts_handles s) v = Some a"
    and "owners_of (ts_handles s) a = 1" "a \<notin> set (hs_leaked (ts_handles s))"
  shows "\<exists>h. handle_end v (ts_handles s) = Inr h \<and> ThreadRoute_begin a (s\<lparr>ts_handles := h\<rparr>) = Inl Undefined"
proof -
  have ok: "refs_ok (ts_handles s)" using routes_ok_reachable [OF assms(1)] by (simp add: routes_ok_def)
  from release_var [OF ok assms(3)] obtain h where h: "Release (Some a) (ts_handles s) = Inr h" "refs h a = refs (ts_handles s) a - 1"
    using assms(4) by auto
  have "refs h a = 0" using h(2) ok assms(5,6) by (simp add: refs_ok_def)
  then show ?thesis using h(1) assms(4) by (simp add: handle_end_def ThreadRoute_begin_def Duplicate_def RefCount_IncRef_def alive_refs)
qed

theorem start_races_with_release_witness:
  "\<exists>h. handle_end 0 one_handle = Inr h \<and> ThreadRoute_begin 0 (held_thread\<lparr>ts_handles := h\<rparr>) = Inl Undefined"
  using start_races_with_release [OF held_thread_reachable, of 0 0]
  by (simp add: held_thread_def one_handle_def live_var_def ptr_def owners_of_def)

theorem running_thread_alive_witness:
  "\<exists>s'. ThreadRoute_begin 0 held_thread = Inr s' \<and> (0, 1) \<in> set (ts_running s') \<and> alive (ts_handles s') 0"
proof -
  obtain s' where s': "ThreadRoute_begin 0 held_thread = Inr s'" "(0, 1) \<in> set (ts_running s')"
    by (simp add: ThreadRoute_begin_def held_thread_def one_handle_def Duplicate_def RefCount_IncRef_def alive_def)
  moreover have "threads_reachable s'"
    by (rule threads_reachable.route [OF held_thread_reachable _ _ s'(1)])
      (simp_all add: held_thread_def room_def one_handle_def owners_of_def)
  ultimately show ?thesis using running_thread_alive by blast
qed

text \<open>\<^verbatim>\<open>pthread_kill\<close> answers 0 for a thread that exists and \<^verbatim>\<open>ESRCH\<close> for one that does not: \<^verbatim>\<open>IsAlive\<close> says the opposite.\<close>

lemma IsAlive_inverted: "\<not> IsAlive started 0 \<and> IsAlive True ESRCH"
  by (simp add: IsAlive_def ESRCH_def)

text \<open>A second start changes nothing, and only the first one creates a thread.\<close>

lemma start_once:
  assumes "Thread_Start attr_ok created a s = Inr (s', Started)"
  shows "a \<notin> set (ts_started s) \<and> ts_pending s' = a # ts_pending s \<and> Thread_Start attr_ok' created' a s' = Inr (s', AlreadyStarted)"
  using assms by (auto simp: Thread_Start_def alive_def split: if_splits)

text \<open>The generated name fits the buffer of 32 characters.\<close>

lemma show_nat_length: "n < 10 ^ Suc k \<Longrightarrow> length (show_nat n) \<le> Suc k"
proof (induction k arbitrary: n)
  case (Suc k)
  then have "n div 10 < 10 ^ Suc k" by (simp add: div_less_iff_less_mult)
  from Suc.IH [OF this] show ?case by (simp add: show_nat.simps [of n])
qed (simp add: show_nat.simps)

lemma thread_name_fits: "n < 4294967296 \<Longrightarrow> length (SetName None n) < 32"
  using show_nat_length [of n 9] by (simp add: SetName_def)

end
