(* ===== verification/Zip.thy ===== *)
theory Zip
  imports Prelude "HOL-Library.Sublist"
begin

text \<open>
  \<^verbatim>\<open>UtilAll::compress\<close> and \<^verbatim>\<open>UtilAll::decompress\<close>: the loops that feed zlib in chunks and collect its output in a
  growing buffer. zlib itself is an argument: \<^verbatim>\<open>deflate\<close> and \<^verbatim>\<open>inflate\<close> take a state, the input that is
  left, the flush mode and the room, and give a state, the unused input, the output and a code.
  What zlib documents of them is stated as two contracts.
\<close>

type_synonym 'z codec = "'z \<Rightarrow> string \<Rightarrow> bool \<Rightarrow> nat \<Rightarrow> 'z \<times> string \<times> string \<times> int"

definition CHUNK :: nat where "CHUNK = 8192"

definition Z_OK :: int where "Z_OK = 0"
definition Z_STREAM_END :: int where "Z_STREAM_END = 1"
definition Z_NEED_DICT :: int where "Z_NEED_DICT = 2"
definition Z_STREAM_ERROR :: int where "Z_STREAM_ERROR = - 2"
definition Z_DATA_ERROR :: int where "Z_DATA_ERROR = - 3"
definition Z_MEM_ERROR :: int where "Z_MEM_ERROR = - 4"
definition Z_BUF_ERROR :: int where "Z_BUF_ERROR = - 5"

lemmas z_codes = Z_OK_def Z_STREAM_END_def Z_NEED_DICT_def Z_STREAM_ERROR_def Z_DATA_ERROR_def Z_MEM_ERROR_def Z_BUF_ERROR_def

section \<open>The output buffer\<close>

text \<open>\<open>ob_null\<close>: the buffer could not be allocated. Writing past its length, or to NULL, is undefined.\<close>

record OutBuffer =
  ob_data :: string
  ob_len :: int
  ob_null :: bool


definition copy_out :: "string \<Rightarrow> OutBuffer \<Rightarrow> OutBuffer option result" where
  "copy_out out ob =
     (if out \<noteq> [] \<and> (ob_null ob \<or> int (length (ob_data ob) + length out) > ob_len ob) then Inl Undefined
      else Inr (Some (ob\<lparr>ob_data := ob_data ob @ out\<rparr>)))"

text \<open>Growing and copying; \<^const>\<open>None\<close> is the early return of false.\<close>

definition append_out :: "(int \<Rightarrow> bool) \<Rightarrow> string \<Rightarrow> OutBuffer \<Rightarrow> OutBuffer option result" where
  "append_out alloc out ob =
     (let n = i32 (int (length (ob_data ob)) + int (length out)) in
      if n > ob_len ob then
        (let l = i32 (2 * n) in if alloc l then copy_out out (ob\<lparr>ob_len := l, ob_null := False\<rparr>) else Inr None)
      else copy_out out ob)"

section \<open>Compressing\<close>

primrec deflate_chunk ::
  "nat \<Rightarrow> (int \<Rightarrow> bool) \<Rightarrow> 'z codec \<Rightarrow> bool \<Rightarrow> 'z \<Rightarrow> string \<Rightarrow> OutBuffer \<Rightarrow> ('z \<times> string \<times> OutBuffer \<times> int) option result option" where
  "deflate_chunk 0 alloc deflate finish z inp ob = None"
| "deflate_chunk (Suc n) alloc deflate finish z inp ob =
     (let (z', rest, out, ret) = deflate z inp finish CHUNK in
      if ret = Z_STREAM_ERROR then Some (Inl Undefined)
      else
        (case append_out alloc out ob of
           Inl x \<Rightarrow> Some (Inl x)
         | Inr None \<Rightarrow> Some (Inr None)
         | Inr (Some ob') \<Rightarrow>
             if length out = CHUNK then deflate_chunk n alloc deflate finish z' rest ob'
             else Some (Inr (Some (z', rest, ob', ret)))))"



section \<open>Decompressing\<close>





section \<open>What zlib promises\<close>





section \<open>Lemmas\<close>










text \<open>When the last output fills the buffer, the loop calls \<^verbatim>\<open>deflate\<close> again in the state after the end.\<close>

lemma deflate_called_after_end:
  assumes "deflate z inp True CHUNK = (z', rest, out, Z_STREAM_END)" "length out = CHUNK" "append_out alloc out ob = Inr (Some ob')"
    and "deflate z' rest True CHUNK = (z'', rest', out', Z_STREAM_ERROR)"
  shows "deflate_chunk (Suc (Suc n)) alloc deflate True z inp ob = Some (Inl Undefined)"
  using assms by (simp add: z_codes)

section \<open>Properties\<close>


















end
