(* ===== verification/ThreadPool.thy ===== *)
theory ThreadPool
  imports Prelude "HOL-Library.Multiset"
begin

text \<open>
  \<^verbatim>\<open>src/src/kpr/ThreadPool.cpp\<close>: the pool that runs consume requests, responses and timer tasks. A step of
  a worker is what it does under one hold of a monitor, so the interleavings of the steps are
  the schedules of the code. \<open>'w\<close> stands for the work items. Starting a thread is taken to
  succeed; the names of the threads are left out.
\<close>

section \<open>State\<close>

text \<open>Where a worker is in \<^verbatim>\<open>Run\<close>.\<close>

datatype 'w wpc = AtTop | AtWait | AtInner | AtDo 'w | AtCheck | AtExit

record 'w Worker =
  wk_pc :: "'w wpc"
  wk_canWork :: bool
  wk_isWaiting :: bool
  wk_stop :: bool
  wk_idleTime :: int
  wk_idle :: bool

text \<open>
  The pool; \<open>tp_accepted\<close>, \<open>tp_taken\<close> and \<open>tp_done\<close> only record the work that was added, given to
  a worker and carried out.
\<close>

record 'w ThreadPool =
  tp_destroy :: bool
  tp_minCount :: int
  tp_maxCount :: int
  tp_maxIdleTime :: int
  tp_count :: int
  tp_step :: int
  tp_index :: nat
  tp_lastRemoveIdleThreadsTime :: int
  tp_works :: "'w list"
  tp_workers :: "(nat \<times> 'w Worker) list"
  tp_accepted :: "'w list"
  tp_taken :: "'w list"
  tp_done :: "'w list"

definition MAX_THREAD_COUNT :: int where "MAX_THREAD_COUNT = 300"
definition MIN_THREAD_COUNT :: int where "MIN_THREAD_COUNT = 5"
definition MAX_IDLE_THREAD_TIME :: int where "MAX_IDLE_THREAD_TIME = 300000"

section \<open>Workers\<close>

definition Worker_new :: "'w Worker" where
  "Worker_new = \<lparr>wk_pc = AtTop, wk_canWork = False, wk_isWaiting = False, wk_stop = False, wk_idleTime = 0, wk_idle = True\<rparr>"

definition SetIdle :: "bool \<Rightarrow> 'w Worker \<Rightarrow> 'w Worker" where
  "SetIdle idle w = w\<lparr>wk_idle := idle, wk_idleTime := 0\<rparr>"

definition IdleTime :: "int \<Rightarrow> 'w Worker \<Rightarrow> 'w Worker" where
  "IdleTime idleTime w = (if wk_idle w then w\<lparr>wk_idleTime := i32 (wk_idleTime w + idleTime)\<rparr> else w\<lparr>wk_idleTime := 0\<rparr>)"

definition WakeUp :: "'w Worker \<Rightarrow> 'w Worker" where
  "WakeUp w = (SetIdle False w)\<lparr>wk_canWork := True\<rparr>"

definition worker_Stop :: "'w Worker \<Rightarrow> 'w Worker" where
  "worker_Stop w = w\<lparr>wk_canWork := True, wk_stop := True\<rparr>"

text \<open>A fresh worker, when \<^verbatim>\<open>AddThreads\<close> has seen it wait.\<close>

definition worker_started :: "'w Worker" where
  "worker_started = (SetIdle True Worker_new)\<lparr>wk_pc := AtWait, wk_isWaiting := True\<rparr>"

section \<open>The pool\<close>

definition AddThreads :: "int \<Rightarrow> 'w ThreadPool \<Rightarrow> 'w ThreadPool" where
  "AddThreads n tp =
     tp\<lparr>tp_workers := tp_workers tp @ map (\<lambda>i. (i, worker_started)) [tp_index tp ..< tp_index tp + nat n],
        tp_index := tp_index tp + nat n, tp_count := tp_count tp + int (nat n)\<rparr>"

definition ThreadPool_new :: "int \<Rightarrow> int \<Rightarrow> int \<Rightarrow> int \<Rightarrow> int \<Rightarrow> int \<Rightarrow> 'w ThreadPool" where
  "ThreadPool_new now count0 minCount maxCount step maxIdleTime =
     (let min1 = (if minCount \<le> 0 then MIN_THREAD_COUNT else minCount);
          max1 = (if maxCount < 0 then MAX_THREAD_COUNT else maxCount);
          idle1 = (if maxIdleTime < 0 then MAX_IDLE_THREAD_TIME else maxIdleTime);
          min2 = (if max1 \<noteq> 0 \<and> max1 < min1 then MIN_THREAD_COUNT else min1);
          count1 = (if (max1 \<noteq> 0 \<and> count0 > max1) \<or> count0 < min2 then min2 else count0)
      in AddThreads count1
           \<lparr>tp_destroy = False, tp_minCount = min2, tp_maxCount = max1, tp_maxIdleTime = idle1, tp_count = 0, tp_step = step,
            tp_index = 0, tp_lastRemoveIdleThreadsTime = now, tp_works = [], tp_workers = [],
            tp_accepted = [], tp_taken = [], tp_done = []\<rparr>)"

fun wake_first :: "(nat \<times> 'w Worker) list \<Rightarrow> (nat \<times> 'w Worker) list \<times> bool" where
  "wake_first [] = ([], False)"
| "wake_first ((i, w) # ws) =
     (if wk_idle w then ((i, WakeUp w) # ws, True) else (let (ws', b) = wake_first ws in ((i, w) # ws', b)))"

definition WakeOneThread :: "'w ThreadPool \<Rightarrow> 'w ThreadPool \<times> bool" where
  "WakeOneThread tp = (let (ws, b) = wake_first (tp_workers tp) in (tp\<lparr>tp_workers := ws\<rparr>, b))"

definition AddWork :: "'w \<Rightarrow> 'w ThreadPool \<Rightarrow> 'w ThreadPool \<times> int" where
  "AddWork pWork tp =
     (if tp_destroy tp then (tp, - 1)
      else
        (let tp1 = tp\<lparr>tp_works := tp_works tp @ [pWork], tp_accepted := tp_accepted tp @ [pWork]\<rparr>;
             (tp2, woken) = WakeOneThread tp1
         in if woken then (tp2, 0)
            else if tp_maxCount tp2 = 0 \<or> tp_count tp2 < tp_maxCount tp2 then
              (let step = (if 0 < tp_maxCount tp2 \<and> tp_count tp2 + tp_step tp2 > tp_maxCount tp2
                           then tp_maxCount tp2 - tp_count tp2 else tp_step tp2)
               in (fst (WakeOneThread (AddThreads step tp2)), 0))
            else (tp2, 0)))"

definition GetWork :: "'w ThreadPool \<Rightarrow> 'w ThreadPool \<times> 'w option" where
  "GetWork tp =
     (if \<not> tp_destroy tp \<and> tp_works tp \<noteq> []
      then (tp\<lparr>tp_works := tl (tp_works tp), tp_taken := tp_taken tp @ [hd (tp_works tp)]\<rparr>, Some (hd (tp_works tp)))
      else (tp, None))"

definition RemoveThread :: "nat \<Rightarrow> 'w ThreadPool \<Rightarrow> 'w ThreadPool" where
  "RemoveThread i tp =
     (if i \<in> fst ` set (tp_workers tp)
      then tp\<lparr>tp_workers := filter (\<lambda>x. fst x \<noteq> i) (tp_workers tp), tp_count := tp_count tp - 1\<rparr> else tp)"

fun remove_idle :: "int \<Rightarrow> int \<Rightarrow> int \<Rightarrow> int \<Rightarrow> (nat \<times> 'w Worker) list \<Rightarrow> (nat \<times> 'w Worker) list" where
  "remove_idle interval maxIdleTime minCount sz [] = []"
| "remove_idle interval maxIdleTime minCount sz ((i, w) # ws) =
     (if sz > minCount then
        (let w1 = IdleTime interval w in
         if wk_idleTime w1 > maxIdleTime then (i, worker_Stop w1) # remove_idle interval maxIdleTime minCount (sz - 1) ws
         else (i, w1) # remove_idle interval maxIdleTime minCount sz ws)
      else (i, w) # ws)"

definition RemoveIdleThreads :: "int \<Rightarrow> 'w ThreadPool \<Rightarrow> 'w ThreadPool" where
  "RemoveIdleThreads now tp =
     (if tp_maxIdleTime tp = 0 then tp
      else tp\<lparr>tp_lastRemoveIdleThreadsTime := now,
              tp_workers := remove_idle (i32 (now - tp_lastRemoveIdleThreadsTime tp)) (tp_maxIdleTime tp) (tp_minCount tp)
                (int (length (tp_workers tp))) (tp_workers tp)\<rparr>)"

text \<open>\<^verbatim>\<open>Destroy\<close> before and after it has joined the workers.\<close>

definition destroy_begin :: "'w ThreadPool \<Rightarrow> 'w ThreadPool" where
  "destroy_begin tp =
     (if tp_destroy tp then tp
      else tp\<lparr>tp_destroy := True, tp_workers := map (\<lambda>(i, w). (i, worker_Stop w)) (tp_workers tp)\<rparr>)"

definition destroy_end :: "'w ThreadPool \<Rightarrow> 'w ThreadPool" where
  "destroy_end tp = tp\<lparr>tp_works := []\<rparr>"

section \<open>A step of a worker\<close>

definition set_worker :: "nat \<Rightarrow> 'w Worker \<Rightarrow> 'w ThreadPool \<Rightarrow> 'w ThreadPool" where
  "set_worker i w tp = tp\<lparr>tp_workers := map (\<lambda>(j, v). (j, if j = i then w else v)) (tp_workers tp)\<rparr>"

text \<open>\<^const>\<open>None\<close> says that the worker is blocked (or that there is none).\<close>

definition worker_step :: "nat \<Rightarrow> 'w ThreadPool \<Rightarrow> 'w ThreadPool option" where
  "worker_step i tp =
     (case map_of (tp_workers tp) i of
        None \<Rightarrow> None
      | Some w \<Rightarrow>
          (case wk_pc w of
             AtTop \<Rightarrow> Some (set_worker i (if wk_stop w then w\<lparr>wk_pc := AtExit\<rparr> else (SetIdle True w)\<lparr>wk_pc := AtWait\<rparr>) tp)
           | AtWait \<Rightarrow>
               if wk_canWork w then Some (set_worker i (w\<lparr>wk_pc := AtInner, wk_canWork := False, wk_isWaiting := False\<rparr>) tp)
               else if wk_isWaiting w then None else Some (set_worker i (w\<lparr>wk_isWaiting := True\<rparr>) tp)
           | AtInner \<Rightarrow>
               if wk_stop w then Some (set_worker i (w\<lparr>wk_pc := AtCheck\<rparr>) tp)
               else
                 (case GetWork tp of
                    (tp', None) \<Rightarrow> Some (set_worker i (w\<lparr>wk_pc := AtCheck\<rparr>) tp')
                  | (tp', Some request) \<Rightarrow> Some (set_worker i (w\<lparr>wk_pc := AtDo request\<rparr>) tp'))
           | AtDo request \<Rightarrow>
               Some ((set_worker i ((SetIdle False w)\<lparr>wk_pc := AtInner\<rparr>) tp)\<lparr>tp_done := tp_done tp @ [request]\<rparr>)
           | AtCheck \<Rightarrow> Some (set_worker i (w\<lparr>wk_pc := (if wk_stop w \<or> tp_destroy tp then AtExit else AtTop)\<rparr>) tp)
           | AtExit \<Rightarrow> Some (RemoveThread i tp)))"

inductive tp_step_rel :: "'w ThreadPool \<Rightarrow> 'w ThreadPool \<Rightarrow> bool" where
  tp_add: "tp_step_rel tp (fst (AddWork w tp))"
| tp_work: "worker_step i tp = Some tp' \<Longrightarrow> tp_step_rel tp tp'"
| tp_clean: "tp_step_rel tp (RemoveIdleThreads now tp)"
| tp_begin: "tp_step_rel tp (destroy_begin tp)"
| tp_end: "tp_destroy tp \<Longrightarrow> tp_workers tp = [] \<Longrightarrow> tp_step_rel tp (destroy_end tp)"

inductive tp_reachable :: "'w ThreadPool \<Rightarrow> bool" where
  tp_init: "tp_reachable (ThreadPool_new now c mn mx step idle)"
| tp_next: "tp_reachable tp \<Longrightarrow> tp_step_rel tp tp' \<Longrightarrow> tp_reachable tp'"

inductive_cases tp_step_relE: "tp_step_rel tp tp'"

section \<open>Invariant\<close>

fun in_hand :: "'w wpc \<Rightarrow> 'w list" where
  "in_hand (AtDo w) = [w]"
| "in_hand _ = []"

definition running :: "(nat \<times> 'w Worker) list \<Rightarrow> 'w multiset" where
  "running ws = mset (concat (map (\<lambda>x. in_hand (wk_pc (snd x))) ws))"

definition worker_ok :: "'w Worker \<Rightarrow> bool" where
  "worker_ok w \<longleftrightarrow> wk_stop w \<or> (wk_idle w \<longrightarrow> wk_pc w = AtWait \<and> \<not> wk_canWork w) \<and> (wk_canWork w \<longrightarrow> wk_pc w = AtWait)"

definition tp_inv :: "'w ThreadPool \<Rightarrow> bool" where
  "tp_inv tp \<longleftrightarrow> distinct (map fst (tp_workers tp)) \<and> (\<forall>i \<in> fst ` set (tp_workers tp). i < tp_index tp) \<and>
     tp_count tp = int (length (tp_workers tp)) \<and> 0 \<le> tp_maxCount tp \<and>
     (0 < tp_maxCount tp \<longrightarrow> tp_count tp \<le> max (tp_maxCount tp) MIN_THREAD_COUNT) \<and>
     (\<forall>w \<in> snd ` set (tp_workers tp). worker_ok w) \<and>
     (\<exists>rest. tp_accepted tp = tp_taken tp @ rest \<and> (\<not> tp_destroy tp \<longrightarrow> rest = tp_works tp)) \<and>
     mset (tp_taken tp) = mset (tp_done tp) + running (tp_workers tp)"

lemma running_simps [simp]:
  "running [] = {#}" "running ((i, w) # ws) = mset (in_hand (wk_pc w)) + running ws" "running (xs @ ys) = running xs + running ys"
  by (simp_all add: running_def)

text \<open>A list of workers with distinct names, taken apart at one of them.\<close>

lemma worker_split:
  assumes "map_of ws i = Some w" "distinct (map fst ws)"
  obtains xs ys where "ws = xs @ (i, w) # ys" "map (\<lambda>(j, v). (j, if j = i then w' else v)) ws = xs @ (i, w') # ys"
    "filter (\<lambda>x. fst x \<noteq> i) ws = xs @ ys"
proof -
  from assms(1) have "(i, w) \<in> set ws" by (rule map_of_SomeD)
  then obtain xs ys where ws: "ws = xs @ (i, w) # ys" by (auto simp: in_set_conv_decomp)
  have n: "i \<notin> fst ` set xs" "i \<notin> fst ` set ys" using assms(2) ws by auto
  then have "map (\<lambda>(j, v). (j, if j = i then w' else v)) zs = zs" "filter (\<lambda>x. fst x \<noteq> i) zs = zs" if "zs = xs \<or> zs = ys" for zs
    using that by (auto intro!: map_idI filter_True simp: rev_image_eqI split: prod.splits)
  with ws that show thesis by simp
qed

text \<open>Changing one worker changes nothing but that worker.\<close>

lemma set_worker_inv:
  assumes "tp_inv tp" "map_of (tp_workers tp) i = Some w" "worker_ok w'" "in_hand (wk_pc w') = in_hand (wk_pc w)"
  shows "tp_inv (set_worker i w' tp)"
proof -
  have d: "distinct (map fst (tp_workers tp))" using assms(1) by (simp add: tp_inv_def)
  obtain xs ys where s: "tp_workers tp = xs @ (i, w) # ys" "map (\<lambda>(j, v). (j, if j = i then w' else v)) (tp_workers tp) = xs @ (i, w') # ys"
    by (rule worker_split [OF assms(2) d, of w'])
  then show ?thesis using assms by (auto simp: tp_inv_def set_worker_def)
qed

lemma wake_first_keeps:
  assumes "wake_first ws = (ws', b)"
  shows "map fst ws' = map fst ws \<and> running ws' = running ws \<and> ((\<forall>w \<in> snd ` set ws. worker_ok w) \<longrightarrow> (\<forall>w \<in> snd ` set ws'. worker_ok w))"
  using assms
proof (induction ws arbitrary: ws')
  case (Cons a ws)
  obtain i w where a: "a = (i, w)" by (cases a)
  from Cons a show ?case
    by (cases "wake_first ws") (auto simp: WakeUp_def SetIdle_def worker_ok_def split: if_splits)
qed simp

lemma new_workers_inv:
  assumes "tp_inv tp" "map fst ws = map fst (tp_workers tp)" "running ws = running (tp_workers tp)" "\<forall>w \<in> snd ` set ws. worker_ok w"
  shows "tp_inv (tp\<lparr>tp_workers := ws\<rparr>)"
proof -
  from arg_cong [OF assms(2), of length] arg_cong [OF assms(2), of set]
  have "length ws = length (tp_workers tp)" "fst ` set ws = fst ` set (tp_workers tp)" by simp_all
  with assms show ?thesis unfolding tp_inv_def by (elim conjE) simp
qed

lemma WakeOneThread_inv: "tp_inv tp \<Longrightarrow> tp_inv (fst (WakeOneThread tp))"
proof -
  assume a: "tp_inv tp"
  obtain ws b where w: "wake_first (tp_workers tp) = (ws, b)" by (cases "wake_first (tp_workers tp)")
  have "\<forall>w \<in> snd ` set (tp_workers tp). worker_ok w" using a by (simp add: tp_inv_def)
  with wake_first_keeps [OF w] new_workers_inv [OF a, of ws] show ?thesis by (simp add: WakeOneThread_def w)
qed

lemma AddThreads_inv:
  assumes "tp_inv tp" "0 < tp_maxCount tp \<Longrightarrow> tp_count tp + int (nat n) \<le> max (tp_maxCount tp) MIN_THREAD_COUNT"
  shows "tp_inv (AddThreads n tp)"
proof -
  have r: "running (map (\<lambda>i. (i, worker_started)) l) = {#}" for l :: "nat list"
    by (induction l) (simp_all add: worker_started_def)
  have o: "worker_ok worker_started" by (simp add: worker_started_def worker_ok_def SetIdle_def Worker_new_def)
  show ?thesis
    using assms o by (auto simp: AddThreads_def tp_inv_def r comp_def)
qed

lemma AddWork_inv: "tp_inv tp \<Longrightarrow> tp_inv (fst (AddWork w tp))"
proof -
  assume a: "tp_inv tp"
  show ?thesis
  proof (cases "tp_destroy tp")
    case False
    define tp1 where "tp1 = tp\<lparr>tp_works := tp_works tp @ [w], tp_accepted := tp_accepted tp @ [w]\<rparr>"
    have i1: "tp_inv tp1" using a False unfolding tp1_def tp_inv_def by auto
    obtain tp2 b where t2: "WakeOneThread tp1 = (tp2, b)" by (cases "WakeOneThread tp1")
    have i2: "tp_inv tp2" using WakeOneThread_inv [OF i1] t2 by simp
    have i3: "tp_inv (AddThreads (if 0 < tp_maxCount tp2 \<and> tp_count tp2 + tp_step tp2 > tp_maxCount tp2
        then tp_maxCount tp2 - tp_count tp2 else tp_step tp2) tp2)" if "tp_maxCount tp2 = 0 \<or> tp_count tp2 < tp_maxCount tp2"
      by (rule AddThreads_inv [OF i2]) (use that in auto)
    show ?thesis
      using i2 WakeOneThread_inv [OF i3] False by (auto simp: AddWork_def t2 Let_def simp flip: tp1_def)
  qed (use a in \<open>simp add: AddWork_def\<close>)
qed

lemma remove_idle_keeps:
  "map fst (remove_idle t mi mc n ws) = map fst ws \<and> running (remove_idle t mi mc n ws) = running ws \<and>
    ((\<forall>w \<in> snd ` set ws. worker_ok w) \<longrightarrow> (\<forall>w \<in> snd ` set (remove_idle t mi mc n ws). worker_ok w))"
proof (induction ws arbitrary: n)
  case (Cons a ws)
  obtain i w where "a = (i, w)" by (cases a)
  with Cons show ?case by (auto simp: Let_def IdleTime_def worker_Stop_def worker_ok_def)
qed simp

lemma RemoveIdleThreads_inv: "tp_inv tp \<Longrightarrow> tp_inv (RemoveIdleThreads now tp)"
proof -
  assume a: "tp_inv tp"
  then have b: "tp_inv (tp\<lparr>tp_lastRemoveIdleThreadsTime := now\<rparr>)" unfolding tp_inv_def by (elim conjE) simp
  have "\<forall>w \<in> snd ` set (tp_workers tp). worker_ok w" using a by (simp add: tp_inv_def)
  with remove_idle_keeps have ok: "\<forall>w \<in> snd ` set (remove_idle t mi mc n (tp_workers tp)). worker_ok w" for t mi mc n by blast
  have same: "map fst (remove_idle t mi mc n ws) = map fst ws" "running (remove_idle t mi mc n ws) = running ws"
    for t mi mc n and ws :: "(nat \<times> 'a Worker) list" using remove_idle_keeps by blast+
  have "tp_inv (tp\<lparr>tp_lastRemoveIdleThreadsTime := now, tp_workers := remove_idle t mi mc n (tp_workers tp)\<rparr>)" for t mi mc n
    by (rule new_workers_inv [OF b _ _ ok, simplified]) (simp_all add: same)
  with a show ?thesis by (simp add: RemoveIdleThreads_def)
qed

lemma destroy_begin_inv: "tp_inv tp \<Longrightarrow> tp_inv (destroy_begin tp)"
proof -
  assume a: "tp_inv tp"
  then have b: "tp_inv (tp\<lparr>tp_destroy := True\<rparr>)" unfolding tp_inv_def by (elim conjE) auto
  let ?ws = "map (\<lambda>(i, w). (i, worker_Stop w)) (tp_workers tp)"
  have "running (map (\<lambda>(i, w). (i, worker_Stop w)) l) = running l" for l :: "(nat \<times> 'a Worker) list"
    by (induction l) (auto simp: worker_Stop_def)
  moreover have "map fst ?ws = map fst (tp_workers tp)" "\<forall>w \<in> snd ` set ?ws. worker_ok w"
    by (auto simp: worker_Stop_def worker_ok_def)
  ultimately show ?thesis using new_workers_inv [OF b, of ?ws] a by (simp add: destroy_begin_def)
qed

lemma destroy_end_inv: "tp_inv tp \<Longrightarrow> tp_destroy tp \<Longrightarrow> tp_inv (destroy_end tp)"
  unfolding tp_inv_def destroy_end_def by (elim conjE) auto

text \<open>The three steps of a worker that touch the pool: taking work, finishing it, leaving.\<close>

lemma take_inv:
  assumes "tp_inv tp" "map_of (tp_workers tp) i = Some w" "wk_pc w = AtInner" "\<not> wk_stop w" "\<not> tp_destroy tp" "tp_works tp \<noteq> []"
  shows "tp_inv (set_worker i (w\<lparr>wk_pc := AtDo (hd (tp_works tp))\<rparr>) (fst (GetWork tp)))"
proof -
  let ?w = "w\<lparr>wk_pc := AtDo (hd (tp_works tp))\<rparr>"
  have d: "distinct (map fst (tp_workers tp))" and ok: "worker_ok w"
    using assms(1) map_of_SomeD [OF assms(2)] by (force simp: tp_inv_def)+
  obtain xs ys where s: "tp_workers tp = xs @ (i, w) # ys" "map (\<lambda>(j, v). (j, if j = i then ?w else v)) (tp_workers tp) = xs @ (i, ?w) # ys"
    by (rule worker_split [OF assms(2) d, of ?w])
  have "worker_ok ?w" using ok assms(3,4) by (simp add: worker_ok_def)
  moreover have "tp_works tp = hd (tp_works tp) # tl (tp_works tp)" using assms(6) by simp
  ultimately show ?thesis using assms(1,3,5,6) s by (auto simp: tp_inv_def set_worker_def GetWork_def)
qed

lemma done_inv:
  assumes "tp_inv tp" "map_of (tp_workers tp) i = Some w" "wk_pc w = AtDo r"
  shows "tp_inv ((set_worker i ((SetIdle False w)\<lparr>wk_pc := AtInner\<rparr>) tp)\<lparr>tp_done := tp_done tp @ [r]\<rparr>)"
proof -
  let ?w = "(SetIdle False w)\<lparr>wk_pc := AtInner\<rparr>"
  have d: "distinct (map fst (tp_workers tp))" using assms(1) by (simp add: tp_inv_def)
  obtain xs ys where s: "tp_workers tp = xs @ (i, w) # ys" "map (\<lambda>(j, v). (j, if j = i then ?w else v)) (tp_workers tp) = xs @ (i, ?w) # ys"
    by (rule worker_split [OF assms(2) d, of ?w])
  have "worker_ok w" using assms(1) map_of_SomeD [OF assms(2)] by (force simp: tp_inv_def)
  then have "worker_ok ?w" using assms(3) by (auto simp: worker_ok_def SetIdle_def)
  with assms(1,3) s show ?thesis by (auto simp: tp_inv_def set_worker_def)
qed

lemma leave_inv:
  assumes "tp_inv tp" "map_of (tp_workers tp) i = Some w" "wk_pc w = AtExit"
  shows "tp_inv (RemoveThread i tp)"
proof -
  have d: "distinct (map fst (tp_workers tp))" using assms(1) by (simp add: tp_inv_def)
  obtain xs ys where s: "tp_workers tp = xs @ (i, w) # ys" "filter (\<lambda>x. fst x \<noteq> i) (tp_workers tp) = xs @ ys"
    by (rule worker_split [OF assms(2) d, of w])
  then show ?thesis using assms(1,3) by (auto simp: tp_inv_def RemoveThread_def)
qed

lemma worker_step_inv:
  assumes "tp_inv tp" "worker_step i tp = Some tp'"
  shows "tp_inv tp'"
proof -
  obtain w where w: "map_of (tp_workers tp) i = Some w" using assms(2) by (auto simp: worker_step_def split: option.splits)
  have ok: "worker_ok w" using assms(1) map_of_SomeD [OF w] by (force simp: tp_inv_def)
  note keep = set_worker_inv [OF assms(1) w]
  show ?thesis
  proof (cases "wk_pc w")
    case AtTop
    with assms w ok show ?thesis by (auto simp: worker_step_def worker_ok_def SetIdle_def intro!: keep)
  next
    case AtWait
    with assms w ok show ?thesis by (auto simp: worker_step_def worker_ok_def split: if_splits intro!: keep)
  next
    case AtInner
    with assms w ok take_inv [OF assms(1) w AtInner] show ?thesis
      by (auto simp: worker_step_def worker_ok_def GetWork_def split: if_splits intro!: keep)
  next
    case (AtDo r)
    with assms w done_inv [OF assms(1) w AtDo] show ?thesis by (auto simp: worker_step_def)
  next
    case AtCheck
    with assms w ok show ?thesis by (auto simp: worker_step_def worker_ok_def intro!: keep)
  next
    case AtExit
    with assms w leave_inv [OF assms(1) w AtExit] show ?thesis by (simp add: worker_step_def)
  qed
qed

lemma ThreadPool_new_inv: "tp_inv (ThreadPool_new now c mn mx step idle)"
proof -

  have e: "tp_inv tp" if "tp_workers tp = []" "tp_count tp = 0" "0 \<le> tp_maxCount tp" "tp_accepted tp = []" "tp_taken tp = []" "tp_works tp = []" "tp_done tp = []"
    for tp :: "'w ThreadPool"
    using that by (simp add: tp_inv_def MIN_THREAD_COUNT_def max_def)
  show ?thesis
    unfolding ThreadPool_new_def Let_def
    by (rule AddThreads_inv [OF e]) (auto simp: MAX_THREAD_COUNT_def MIN_THREAD_COUNT_def)
qed

lemma tp_reachable_inv: "tp_reachable tp \<Longrightarrow> tp_inv tp"
proof (induction rule: tp_reachable.induct)
  case (tp_next tp tp')
  from tp_next.hyps(2) tp_next.IH show ?case
    by (cases rule: tp_step_rel.cases) (simp_all add: AddWork_inv worker_step_inv RemoveIdleThreads_inv destroy_begin_inv destroy_end_inv)
qed (rule ThreadPool_new_inv)

section \<open>Properties\<close>

text \<open>
  Property C23. Whatever the schedule, the pool hands out the accepted work in the order of its
  acceptance, and every item that was handed out is either being carried out by exactly one
  worker or has been carried out exactly once; until the pool is destroyed nothing is dropped.
\<close>

theorem pool_runs_in_order:
  assumes "tp_reachable tp"
  shows "(\<exists>rest. tp_accepted tp = tp_taken tp @ rest \<and> (\<not> tp_destroy tp \<longrightarrow> rest = tp_works tp)) \<and>
    mset (tp_taken tp) = mset (tp_done tp) + running (tp_workers tp)"
  using tp_reachable_inv [OF assms] unfolding tp_inv_def by blast

text \<open>
  The number of threads is the number of workers and never exceeds the configured
  maximum (or five, when the maximum is below that).
\<close>

theorem pool_threads_bounded:
  assumes "tp_reachable tp" "0 < tp_maxCount tp"
  shows "tp_count tp = int (length (tp_workers tp)) \<and> tp_count tp \<le> max (tp_maxCount tp) MIN_THREAD_COUNT \<and>
    distinct (map fst (tp_workers tp))"
  using tp_reachable_inv [OF assms(1)] assms(2) unfolding tp_inv_def by blast

lemma wake_first_idle:
  assumes "(i, w) \<in> set ws" "wk_idle w"
  shows "\<exists>xs j v ys. ws = xs @ (j, v) # ys \<and> wk_idle v \<and> (\<forall>x \<in> set xs. \<not> wk_idle (snd x)) \<and> wake_first ws = (xs @ (j, WakeUp v) # ys, True)"
  using assms
proof (induction ws)
  case (Cons a ws)
  obtain k u where a: "a = (k, u)" by (cases a)
  show ?case
  proof (cases "wk_idle u")
    case True
    with a show ?thesis by (intro exI [of _ "[]"]) simp
  next
    case False
    with Cons a obtain xs j v ys where "ws = xs @ (j, v) # ys" "wk_idle v" "\<forall>x \<in> set xs. \<not> wk_idle (snd x)"
      "wake_first ws = (xs @ (j, WakeUp v) # ys, True)" by force
    with a False show ?thesis by (intro exI [of _ "a # xs"] exI [of _ j] exI [of _ v] exI [of _ ys]) simp
  qed
qed simp

text \<open>
  No work waits while a worker idles: when some worker is idle and none of the idle ones
  is being stopped, adding work wakes one of them, and the next two steps of that worker take
  the oldest work of the pool.
\<close>

theorem idle_worker_takes_work:
  assumes "tp_reachable tp" "\<not> tp_destroy tp" "(i, w) \<in> set (tp_workers tp)" "wk_idle w"
    and "\<forall>x \<in> set (tp_workers tp). wk_idle (snd x) \<longrightarrow> \<not> wk_stop (snd x)"
  shows "\<exists>j tp1 tp2 tp3. AddWork pWork tp = (tp1, 0) \<and> worker_step j tp1 = Some tp2 \<and> worker_step j tp2 = Some tp3 \<and>
    tp_taken tp3 = tp_taken tp @ [hd (tp_works tp @ [pWork])]"
proof -
  note inv = tp_reachable_inv [OF assms(1)]
  obtain xs j v ys where s: "tp_workers tp = xs @ (j, v) # ys" "wk_idle v" "wake_first (tp_workers tp) = (xs @ (j, WakeUp v) # ys, True)"
    using wake_first_idle [OF assms(3,4)] by blast
  have v: "\<not> wk_stop v" "wk_pc v = AtWait" "wk_pc (WakeUp v) = AtWait" "wk_canWork (WakeUp v)" "\<not> wk_stop (WakeUp v)"
  proof -
    have "(j, v) \<in> set (tp_workers tp)" by (simp add: s)
    then show "\<not> wk_stop v" "wk_pc v = AtWait" using inv assms(5) s(2) by (force simp: tp_inv_def worker_ok_def)+
    then show "wk_pc (WakeUp v) = AtWait" "wk_canWork (WakeUp v)" "\<not> wk_stop (WakeUp v)" by (simp_all add: WakeUp_def SetIdle_def)
  qed
  have d: "j \<notin> fst ` set xs" "j \<notin> fst ` set ys" using inv s(1) by (auto simp: tp_inv_def)
  then have n: "mget xs j = None" "map_of ys j = None" by (simp_all add: map_of_eq_None_iff)
  have same: "map (\<lambda>(k, u). (k, if k = j then w' else u)) zs = zs" if "zs = xs \<or> zs = ys" for zs w'
    using that d by (auto intro!: map_idI simp: rev_image_eqI split: prod.splits)
  define tp1 where "tp1 = tp\<lparr>tp_works := tp_works tp @ [pWork], tp_accepted := tp_accepted tp @ [pWork], tp_workers := xs @ (j, WakeUp v) # ys\<rparr>"
  let ?w2 = "(WakeUp v)\<lparr>wk_pc := AtInner, wk_canWork := False, wk_isWaiting := False\<rparr>"
  let ?tp2 = "tp1\<lparr>tp_workers := xs @ (j, ?w2) # ys\<rparr>"
  have 1: "AddWork pWork tp = (tp1, 0)" using assms(2) s(3) by (simp add: AddWork_def WakeOneThread_def tp1_def)
  have 2: "worker_step j tp1 = Some ?tp2"
    using v n same by (simp add: worker_step_def set_worker_def tp1_def map_add_def)
  have 3: "\<exists>tp3. worker_step j ?tp2 = Some tp3 \<and> tp_taken tp3 = tp_taken tp @ [hd (tp_works tp @ [pWork])]"
    using v n assms(2) by (simp add: worker_step_def set_worker_def tp1_def map_add_def GetWork_def)
  from 1 2 3 show ?thesis by blast
qed

text \<open>A pool with one worker and no room for another.\<close>

definition one_worker :: "'w wpc \<Rightarrow> bool \<Rightarrow> bool \<Rightarrow> bool \<Rightarrow> 'w list \<Rightarrow> 'w list \<Rightarrow> 'w list \<Rightarrow> 'w list \<Rightarrow> 'w ThreadPool" where
  "one_worker pc canWork waiting idle works accepted taken finished =
     \<lparr>tp_destroy = False, tp_minCount = 1, tp_maxCount = 1, tp_maxIdleTime = 0, tp_count = 1, tp_step = 10, tp_index = 1,
      tp_lastRemoveIdleThreadsTime = 0, tp_works = works,
      tp_workers = [(0, \<lparr>wk_pc = pc, wk_canWork = canWork, wk_isWaiting = waiting, wk_stop = False, wk_idleTime = 0, wk_idle = idle\<rparr>)],
      tp_accepted = accepted, tp_taken = taken, tp_done = finished\<rparr>"

lemma one_worker_start: "tp_reachable (one_worker AtWait False True True [] [] [] [])"
proof -
  have "ThreadPool_new 0 1 1 1 10 0 = (one_worker AtWait False True True [] [] [] [] :: 'w ThreadPool)"
    by (simp add: ThreadPool_new_def AddThreads_def one_worker_def worker_started_def SetIdle_def Worker_new_def Let_def)
  then show ?thesis by (metis tp_init)
qed

lemma one_worker_add:
  "fst (AddWork w (one_worker pc b c d works acc taken fin)) =
    one_worker pc (if d then True else b) c False (works @ [w]) (acc @ [w]) taken fin"
  by (simp add: AddWork_def WakeOneThread_def one_worker_def WakeUp_def SetIdle_def)

lemma one_worker_step:
  "worker_step 0 (one_worker AtTop b c d works acc taken fin) = Some (one_worker AtWait b c True works acc taken fin)"
  "worker_step 0 (one_worker AtWait True c d works acc taken fin) = Some (one_worker AtInner False False d works acc taken fin)"
  "worker_step 0 (one_worker AtWait False False d works acc taken fin) = Some (one_worker AtWait False True d works acc taken fin)"
  "worker_step 0 (one_worker AtWait False True d works acc taken fin) = None"
  "worker_step 0 (one_worker AtInner b c d [] acc taken fin) = Some (one_worker AtCheck b c d [] acc taken fin)"
  "worker_step 0 (one_worker AtInner b c d (w # works) acc taken fin) = Some (one_worker (AtDo w) b c d works acc (taken @ [w]) fin)"
  "worker_step 0 (one_worker (AtDo w) b c d works acc taken fin) = Some (one_worker AtInner b c False works acc taken (fin @ [w]))"
  "worker_step 0 (one_worker AtCheck b c d works acc taken fin) = Some (one_worker AtTop b c d works acc taken fin)"
  by (simp_all add: worker_step_def one_worker_def set_worker_def SetIdle_def GetWork_def)

lemma one_worker_other: "i \<noteq> 0 \<Longrightarrow> worker_step i (one_worker pc b c d works acc taken fin) = None"
  by (simp add: worker_step_def one_worker_def)

lemma reach_add:
  "tp_reachable (one_worker pc b c d works acc taken fin) \<Longrightarrow>
    tp_reachable (one_worker pc (if d then True else b) c False (works @ [w]) (acc @ [w]) taken fin)"
  by (metis one_worker_add tp_add tp_next)

lemmas reach_step = tp_next [OF _ tp_work [of 0]]

text \<open>
  A wake-up can be lost. Work that is added while the only worker is between its last
  look at the empty queue and its next announcement that it is idle wakes nobody: the pool can
  come to rest with work in its queue and every worker asleep, until more work is added.
\<close>

theorem wakeup_lost:
  "\<exists>tp. tp_reachable tp \<and> \<not> tp_destroy tp \<and> tp_works tp = [w2] \<and> tp_done tp = [w1] \<and> tp_workers tp \<noteq> [] \<and>
     (\<forall>i. worker_step i tp = None)"
proof -
  have "tp_reachable (one_worker AtWait True True False [w1] [w1] [] [])" using reach_add [OF one_worker_start, of w1] by simp
  then have "tp_reachable (one_worker AtInner False False False [w1] [w1] [] [])" by (rule reach_step) (simp add: one_worker_step)
  then have "tp_reachable (one_worker (AtDo w1) False False False [] [w1] [w1] [])" by (rule reach_step) (simp add: one_worker_step)
  then have "tp_reachable (one_worker AtInner False False False [] [w1] [w1] [w1])" by (rule reach_step) (simp add: one_worker_step)
  then have "tp_reachable (one_worker AtCheck False False False [] [w1] [w1] [w1])" by (rule reach_step) (simp add: one_worker_step)
  from reach_add [OF this, of w2] have "tp_reachable (one_worker AtCheck False False False [w2] [w1, w2] [w1] [w1])" by simp
  then have "tp_reachable (one_worker AtTop False False False [w2] [w1, w2] [w1] [w1])" by (rule reach_step) (simp add: one_worker_step)
  then have "tp_reachable (one_worker AtWait False False True [w2] [w1, w2] [w1] [w1])" by (rule reach_step) (simp add: one_worker_step)
  then have "tp_reachable (one_worker AtWait False True True [w2] [w1, w2] [w1] [w1])" by (rule reach_step) (simp add: one_worker_step)
  moreover have "worker_step i (one_worker AtWait False True True [w2] [w1, w2] [w1] [w1]) = None" for i
    by (cases "i = 0") (simp_all add: one_worker_step one_worker_other)
  ultimately show ?thesis by (intro exI [of _ "one_worker AtWait False True True [w2] [w1, w2] [w1] [w1]"]) (simp add: one_worker_def)
qed

theorem pool_runs_in_order_witness:
  "tp_reachable (one_worker AtWait True True False [5 :: nat] [5] [] []) \<and>
     mset (tp_taken (one_worker AtWait True True False [5 :: nat] [5] [] [])) = {#}"
proof -
  have r: "tp_reachable (one_worker AtWait True True False [5 :: nat] [5] [] [])" using reach_add [OF one_worker_start, of 5] by simp
  from pool_runs_in_order [OF r] r show ?thesis by (simp add: one_worker_def)
qed

theorem pool_threads_bounded_witness:
  "tp_count (one_worker AtWait False True True [] [] [] ([] :: nat list)) \<le> max 1 MIN_THREAD_COUNT"
proof -
  let ?tp = "one_worker AtWait False True True [] [] [] ([] :: nat list)"
  have "tp_maxCount ?tp = 1" by (simp add: one_worker_def)
  with pool_threads_bounded [OF one_worker_start, where 'a = nat] show ?thesis by simp
qed

theorem idle_worker_takes_work_witness:
  "\<exists>j tp1 tp2 tp3. AddWork (7 :: nat) (one_worker AtWait False True True [] [] [] []) = (tp1, 0) \<and> worker_step j tp1 = Some tp2 \<and>
     worker_step j tp2 = Some tp3 \<and> tp_taken tp3 = [7]"
proof -
  let ?tp = "one_worker AtWait False True True [] [] [] ([] :: nat list)" and
    ?w = "\<lparr>wk_pc = AtWait, wk_canWork = False, wk_isWaiting = True, wk_stop = False, wk_idleTime = 0, wk_idle = True\<rparr> :: nat Worker"
  have h: "\<not> tp_destroy ?tp" "(0, ?w) \<in> set (tp_workers ?tp)" "wk_idle ?w"
    "\<forall>x \<in> set (tp_workers ?tp). wk_idle (snd x) \<longrightarrow> \<not> wk_stop (snd x)" "tp_taken ?tp @ [hd (tp_works ?tp @ [7])] = [7]"
    by (simp_all add: one_worker_def)
  from idle_worker_takes_work [OF one_worker_start h(1-4), of 7] show ?thesis unfolding h(5) .
qed

section \<open>The pool as a work queue\<close>

lemma wake_keeps_queue [simp]:
  "tp_works (fst (WakeOneThread tp)) = tp_works tp" "tp_destroy (fst (WakeOneThread tp)) = tp_destroy tp"
  "tp_works (AddThreads n tp) = tp_works tp" "tp_destroy (AddThreads n tp) = tp_destroy tp"
  by (simp_all add: WakeOneThread_def AddThreads_def split: prod.split)

lemma AddWork_queue:
  "tp_works (fst (AddWork w tp)) = (if tp_destroy tp then tp_works tp else tp_works tp @ [w])"
  "tp_destroy (fst (AddWork w tp)) = tp_destroy tp"
proof -
  let ?tp = "tp\<lparr>tp_works := tp_works tp @ [w], tp_accepted := tp_accepted tp @ [w]\<rparr>"
  obtain tp1 b where w: "WakeOneThread ?tp = (tp1, b)" by (cases "WakeOneThread ?tp")
  have "tp_works (fst (WakeOneThread ?tp)) = tp_works tp @ [w]" "tp_destroy (fst (WakeOneThread ?tp)) = tp_destroy tp" by simp_all
  then have "tp_works tp1 = tp_works tp @ [w]" "tp_destroy tp1 = tp_destroy tp" unfolding w by simp_all
  then show "tp_works (fst (AddWork w tp)) = (if tp_destroy tp then tp_works tp else tp_works tp @ [w])"
    "tp_destroy (fst (AddWork w tp)) = tp_destroy tp"
    by (simp_all add: AddWork_def w Let_def)
qed

interpretation pool: work_queue "\<lambda>w tp. fst (AddWork w tp)" GetWork tp_works tp_destroy
  by unfold_locales (auto simp: AddWork_queue GetWork_def)

text \<open>
  The pool refines a queue: after any works have been added to an open pool, asking as often
  gives exactly these works in their order, and a destroyed pool gives none.
\<close>

theorem pool_refines_queue:
  assumes "tp_works tp = []"
  shows "snd (take_many GetWork (length ws) (fold (\<lambda>w tp. fst (AddWork w tp)) ws tp)) =
    (if tp_destroy tp then replicate (length ws) None else map Some ws)"
  using pool.first_in_first_out [of tp ws] pool.closed_stays_empty [of tp "length ws" ws] assms by simp

theorem pool_refines_queue_witness:
  "snd (take_many GetWork 2 (fold (\<lambda>w tp. fst (AddWork w tp)) [3, 4 :: nat] (one_worker AtWait False True True [] [] [] []))) = [Some 3, Some 4]"
proof -
  have "tp_works (one_worker AtWait False True True [] [] [] ([] :: nat list)) = []" "\<not> tp_destroy (one_worker AtWait False True True [] [] [] ([] :: nat list))"
    by (simp_all add: one_worker_def)
  with pool_refines_queue [of "one_worker AtWait False True True [] [] [] []" "[3, 4 :: nat]"] show ?thesis by (simp add: eval_nat_numeral)
qed

end
