(* ===== verification/Manager.thy ===== *)
theory Manager
  imports Offsets
begin

text \<open>
  \<^verbatim>\<open>src/src/MQClientManager.cpp\<close>: the table of client factories, one per client id, that all producers
  and consumers of the process share, with the constructor of \<^verbatim>\<open>src/src/MQClientFactory.cpp\<close> and
  \<^verbatim>\<open>src/src/ClientRemotingProcessor.cpp\<close>, which answers requests of a broker. Factories are objects on
  a heap; the table holds their addresses.
\<close>

section \<open>Operations\<close>

text \<open>
  The constructor of a factory. The sequence number and the version of the commands are static
  fields, given as arguments.
\<close>

definition MQClientAPIImpl_new :: "int \<Rightarrow> int \<Rightarrow> ApiImpl" where
  "MQClientAPIImpl_new seqNumber configVersion =
     \<lparr>ap_projectGroupPrefix = [], ap_nameSrvAddr = [], ap_namesrvAddrList = [], ap_seqNumber = seqNumber,
      ap_configVersion = configVersion\<rparr>"

definition MQClientFactory_new :: "int \<Rightarrow> int \<Rightarrow> ClientConfig \<Rightarrow> string \<Rightarrow> Client" where
  "MQClientFactory_new seqNumber configVersion clientConfig clientId =
     (let api = MQClientAPIImpl_new seqNumber configVersion in
      \<lparr>cl_factory = \<lparr>f_topicRouteTable = [], f_brokerAddrTable = [], f_producerTable = [], f_consumerTable = [],
         f_adminExtTable = [], f_serviceState = CREATE_JUST, f_clientId = clientId\<rparr>,
       cl_api = (if cc_namesrvAddr clientConfig \<noteq> [] then updateNameServerAddressList (cc_namesrvAddr clientConfig) api else api)\<rparr>)"

text \<open>Looking up the project group of the host asks nobody: it is always empty.\<close>

definition getKVConfigValue :: "string \<Rightarrow> string \<Rightarrow> string" where
  "getKVConfigValue projectNamespace key = []"

definition NAMESPACE_PROJECT_CONFIG :: string where "NAMESPACE_PROJECT_CONFIG = ''PROJECT_CONFIG''"

definition getProjectGroupByIp :: "string \<Rightarrow> string" where
  "getProjectGroupByIp ip = getKVConfigValue NAMESPACE_PROJECT_CONFIG ip"

definition api_start :: "string \<Rightarrow> ApiImpl \<Rightarrow> ApiImpl" where
  "api_start localAddress api = api\<lparr>ap_projectGroupPrefix := getProjectGroupByIp localAddress\<rparr>"

text \<open>The requests a broker may send are recognised and not answered.\<close>

definition CHECK_TRANSACTION_STATE_VALUE :: int where "CHECK_TRANSACTION_STATE_VALUE = 39"
definition NOTIFY_CONSUMER_IDS_CHANGED_VALUE :: int where "NOTIFY_CONSUMER_IDS_CHANGED_VALUE = 40"

definition checkTransactionState :: "RemotingCommand \<Rightarrow> RemotingCommand option" where
  "checkTransactionState request = None"

definition notifyConsumerIdsChanged :: "RemotingCommand \<Rightarrow> RemotingCommand option" where
  "notifyConsumerIdsChanged request = None"

definition processRequest :: "RemotingCommand \<Rightarrow> RemotingCommand option" where
  "processRequest request =
     (if rc_code request = CHECK_TRANSACTION_STATE_VALUE then checkTransactionState request
      else if rc_code request = NOTIFY_CONSUMER_IDS_CHANGED_VALUE then notifyConsumerIdsChanged request
      else None)"

text \<open>
  The factories on \<open>mm_leaving\<close> are inside a shutdown that has removed them from the table and has not yet
  set their state; it holds their mutex.
\<close>

record MQClientManager =
  mm_factoryIndexGenerator :: int
  mm_factoryTable :: "(string, nat) stdmap"
  mm_heap :: "Client list"
  mm_leaving :: "nat list"

definition MQClientManager_new :: MQClientManager where
  "MQClientManager_new = \<lparr>mm_factoryIndexGenerator = 0, mm_factoryTable = [], mm_heap = [], mm_leaving = []\<rparr>"

definition getAndCreateMQClientFactory :: "int \<Rightarrow> int \<Rightarrow> ClientConfig \<Rightarrow> MQClientManager \<Rightarrow> MQClientManager \<times> nat" where
  "getAndCreateMQClientFactory seqNumber configVersion clientConfig m =
     (let clientId = buildMQClientId clientConfig in
      case mget (mm_factoryTable m) clientId of
        Some a \<Rightarrow> (m, a)
      | None \<Rightarrow>
          (let a = length (mm_heap m) in
           (m\<lparr>mm_factoryIndexGenerator := i32 (mm_factoryIndexGenerator m + 1),
              mm_factoryTable := mput clientId a (mm_factoryTable m),
              mm_heap := mm_heap m @ [MQClientFactory_new seqNumber configVersion clientConfig clientId]\<rparr>, a)))"

definition removeClientFactory :: "string \<Rightarrow> MQClientManager \<Rightarrow> MQClientManager" where
  "removeClientFactory clientId m =
     (case mget (mm_factoryTable m) clientId of
        Some a \<Rightarrow> m\<lparr>mm_factoryTable := mdel clientId (mm_factoryTable m)\<rparr>
      | None \<Rightarrow> m)"

text \<open>
  A factory object starts and shuts down. A shutdown that takes effect first removes the factory from
  the table, under the lock of the manager, and then sets its state, under the lock of the factory
  alone: other users of the manager come in between, but no start or shutdown of the same factory.
\<close>

abbreviation mm_factory :: "MQClientManager \<Rightarrow> nat \<Rightarrow> ClientFactory" where
  "mm_factory m a \<equiv> cl_factory (mm_heap m ! a)"

definition with_factory :: "nat \<Rightarrow> ClientFactory \<Rightarrow> MQClientManager \<Rightarrow> MQClientManager" where
  "with_factory a f m = m\<lparr>mm_heap := (mm_heap m)[a := (mm_heap m ! a)\<lparr>cl_factory := f\<rparr>]\<rparr>"

definition manager_start :: "bool \<Rightarrow> nat \<Rightarrow> MQClientManager \<Rightarrow> MQClientManager \<times> unit result" where
  "manager_start started a m = (let (f, r) = factory_start started (mm_factory m a) in (with_factory a f m, r))"

definition manager_shutdown_begin :: "nat \<Rightarrow> MQClientManager \<Rightarrow> MQClientManager" where
  "manager_shutdown_begin a m =
     (let f = mm_factory m a; f' = factory_shutdown f in
      if f_serviceState f = RUNNING \<and> f_serviceState f' = SHUTDOWN_ALREADY
      then (removeClientFactory (f_clientId f) (with_factory a (f'\<lparr>f_serviceState := RUNNING\<rparr>) m))\<lparr>mm_leaving := a # mm_leaving m\<rparr>
      else with_factory a f' m)"

definition manager_shutdown_end :: "nat \<Rightarrow> MQClientManager \<Rightarrow> MQClientManager" where
  "manager_shutdown_end a m =
     (with_factory a ((mm_factory m a)\<lparr>f_serviceState := SHUTDOWN_ALREADY\<rparr>) m)\<lparr>mm_leaving := removeAll a (mm_leaving m)\<rparr>"

text \<open>What the users of the manager do, in any order; the other calls on a factory keep its identity and its state.\<close>

inductive mm_step :: "MQClientManager \<Rightarrow> MQClientManager \<Rightarrow> bool" where
  mm_get: "mm_step m (fst (getAndCreateMQClientFactory seq ver cfg m))"
| mm_start: "a < length (mm_heap m) \<Longrightarrow> a \<notin> set (mm_leaving m) \<Longrightarrow> mm_step m (fst (manager_start started a m))"
| mm_leave: "a < length (mm_heap m) \<Longrightarrow> a \<notin> set (mm_leaving m) \<Longrightarrow> mm_step m (manager_shutdown_begin a m)"
| mm_left: "a \<in> set (mm_leaving m) \<Longrightarrow> mm_step m (manager_shutdown_end a m)"
| mm_use: "a < length (mm_heap m) \<Longrightarrow> f_clientId f = f_clientId (mm_factory m a) \<Longrightarrow>
    f_serviceState f = f_serviceState (mm_factory m a) \<Longrightarrow> mm_step m (with_factory a f m)"

inductive mm_reachable :: "MQClientManager \<Rightarrow> MQClientManager \<Rightarrow> bool" for m0 where
  mm_refl: "mm_reachable m0 m0"
| mm_next: "mm_reachable m0 m \<Longrightarrow> mm_step m m' \<Longrightarrow> mm_reachable m0 m'"

section \<open>Lemmas\<close>

text \<open>A factory that is not in the table is shut down or about to be; one that is stands under its own id.\<close>

definition mm_ok :: "MQClientManager \<Rightarrow> bool" where
  "mm_ok m \<longleftrightarrow> mok (mm_factoryTable m) \<and>
     (\<forall>i a. mget (mm_factoryTable m) i = Some a \<longrightarrow> a < length (mm_heap m) \<and> f_clientId (mm_factory m a) = i) \<and>
     (\<forall>a \<in> set (mm_leaving m). a < length (mm_heap m) \<and> f_serviceState (mm_factory m a) = RUNNING) \<and>
     (\<forall>a < length (mm_heap m). mget (mm_factoryTable m) (f_clientId (mm_factory m a)) = Some a \<or>
        f_serviceState (mm_factory m a) = SHUTDOWN_ALREADY \<or> a \<in> set (mm_leaving m))"

lemma with_factory_fields [simp]:
  "mm_factoryTable (with_factory a f m) = mm_factoryTable m" "mm_leaving (with_factory a f m) = mm_leaving m" "length (mm_heap (with_factory a f m)) = length (mm_heap m)"
  "a < length (mm_heap m) \<Longrightarrow> b < length (mm_heap m) \<Longrightarrow> mm_factory (with_factory a f m) b = (if a = b then f else mm_factory m b)"
  by (simp_all add: with_factory_def)

lemma with_factory_ok:
  assumes "mm_ok m" "a < length (mm_heap m)" "f_clientId f = f_clientId (mm_factory m a)"
    and "f_serviceState (mm_factory m a) = SHUTDOWN_ALREADY \<Longrightarrow> f_serviceState f = SHUTDOWN_ALREADY"
    and "a \<in> set (mm_leaving m) \<Longrightarrow> f_serviceState f = RUNNING"
  shows "mm_ok (with_factory a f m)"
  using assms unfolding mm_ok_def by (auto split: if_splits)

lemma factory_start_id: "f_clientId (fst (factory_start b f)) = f_clientId f"
  by (auto simp: factory_start_def registerProducer_def Let_def split: ServiceState.splits)

lemma factory_start_ended: "f_serviceState f = SHUTDOWN_ALREADY \<Longrightarrow> f_serviceState (fst (factory_start b f)) = SHUTDOWN_ALREADY"
  by (simp add: factory_start_def)

lemma factory_shutdown_facts:
  "f_clientId (factory_shutdown f) = f_clientId f"
  "f_serviceState (factory_shutdown f) = f_serviceState f \<or> f_serviceState f = RUNNING \<and> f_serviceState (factory_shutdown f) = SHUTDOWN_ALREADY"
  by (auto simp: factory_shutdown_def split: ServiceState.splits)

text \<open>The factory that leaves makes room for another one of its id.\<close>

lemma leave_ok:
  assumes "mm_ok m" "a < length (mm_heap m)" "f_serviceState (mm_factory m a) = RUNNING" "a \<notin> set (mm_leaving m)"
  shows "mm_ok ((removeClientFactory (f_clientId (mm_factory m a)) m)\<lparr>mm_leaving := a # mm_leaving m\<rparr>)"
proof -
  have t: "mget (mm_factoryTable m) (f_clientId (mm_factory m a)) = Some a"
    using assms unfolding mm_ok_def by (metis ServiceState.distinct(7))
  let ?i = "f_clientId (mm_factory m a)" and ?t = "mm_factoryTable m"
  have e: "removeClientFactory ?i m = m\<lparr>mm_factoryTable := mdel ?i ?t\<rparr>" by (simp add: removeClientFactory_def t)
  have ok: "mok ?t" "\<And>i b. mget ?t i = Some b \<Longrightarrow> b < length (mm_heap m) \<and> f_clientId (mm_factory m b) = i"
    "\<And>b. b \<in> set (mm_leaving m) \<Longrightarrow> b < length (mm_heap m) \<and> f_serviceState (mm_factory m b) = RUNNING"
    "\<And>b. b < length (mm_heap m) \<Longrightarrow> mget ?t (f_clientId (mm_factory m b)) = Some b \<or> f_serviceState (mm_factory m b) = SHUTDOWN_ALREADY \<or>
      b \<in> set (mm_leaving m)"
    using assms(1) unfolding mm_ok_def by blast+
  have "mget (mdel ?i ?t) (f_clientId (mm_factory m b)) = Some b \<or> f_serviceState (mm_factory m b) = SHUTDOWN_ALREADY \<or>
      b \<in> set (a # mm_leaving m)" if "b < length (mm_heap m)" for b
    using ok(4) [OF that] t by (cases "b = a") (auto simp: mget_mdel [OF ok(1)])
  moreover have "b < length (mm_heap m) \<and> f_clientId (mm_factory m b) = i" if "mget (mdel ?i ?t) i = Some b" for i b
    using ok(2) [of i b] that by (simp add: mget_mdel [OF ok(1)] split: if_splits)
  moreover have "b < length (mm_heap m) \<and> f_serviceState (mm_factory m b) = RUNNING" if "b \<in> set (a # mm_leaving m)" for b
    using ok(3) [of b] assms(2,3) that by auto
  moreover let ?m = "m\<lparr>mm_factoryTable := mdel ?i ?t, mm_leaving := a # mm_leaving m\<rparr>"
  have f: "mm_factoryTable ?m = mdel ?i ?t" "mm_heap ?m = mm_heap m" "mm_leaving ?m = a # mm_leaving m" by simp_all
  ultimately show ?thesis
    unfolding mm_ok_def e f using mok_mdel [OF ok(1)] by blast
qed

lemma create_ok:
  assumes "mm_ok m"
  shows "mm_ok (fst (getAndCreateMQClientFactory seq ver cfg m))"
proof (cases "mget (mm_factoryTable m) (buildMQClientId cfg)")
  case (Some a)
  with assms show ?thesis by (simp add: getAndCreateMQClientFactory_def)
next
  case None
  let ?i = "buildMQClientId cfg" and ?n = "length (mm_heap m)" and ?m = "fst (getAndCreateMQClientFactory seq ver cfg m)"
  have old: "mok (mm_factoryTable m)"
    "\<And>i a. mget (mm_factoryTable m) i = Some a \<Longrightarrow> a < ?n \<and> f_clientId (mm_factory m a) = i"
    "\<And>a. a < ?n \<Longrightarrow> mget (mm_factoryTable m) (f_clientId (mm_factory m a)) = Some a \<or> f_serviceState (mm_factory m a) = SHUTDOWN_ALREADY \<or>
      a \<in> set (mm_leaving m)"
    "\<And>a. a \<in> set (mm_leaving m) \<Longrightarrow> a < ?n \<and> f_serviceState (mm_factory m a) = RUNNING"
    using assms unfolding mm_ok_def by blast+
  have t: "mm_factoryTable ?m = mput ?i ?n (mm_factoryTable m)" "length (mm_heap ?m) = Suc ?n" "mm_leaving ?m = mm_leaving m"
    using None by (simp_all add: getAndCreateMQClientFactory_def Let_def)
  have h: "mm_factory ?m a = mm_factory m a" if "a < ?n" for a
    using None that by (simp add: getAndCreateMQClientFactory_def nth_append Let_def)
  have n: "f_clientId (mm_factory ?m ?n) = ?i"
    using None by (simp add: getAndCreateMQClientFactory_def nth_append MQClientFactory_new_def Let_def)
  show ?thesis
    unfolding mm_ok_def t
  proof (intro conjI allI ballI impI)
    fix a
    assume "a \<in> set (mm_leaving m)"
    with old(4) [of a] h [of a] show "a < Suc ?n" "f_serviceState (mm_factory ?m a) = RUNNING" by auto
  next
    fix i a
    assume g: "mget (mput ?i ?n (mm_factoryTable m)) i = Some a"
    have "a < Suc ?n \<and> f_clientId (mm_factory ?m a) = i"
    proof (cases "i = ?i")
      case True
      with g n show ?thesis by (simp add: mget_mput)
    next
      case False
      with g have "mget (mm_factoryTable m) i = Some a" by (simp add: mget_mput)
      with old(2) [OF this] h [of a] show ?thesis by simp
    qed
    then show "a < Suc ?n" "f_clientId (mm_factory ?m a) = i" by blast+
  next
    fix a
    assume "a < Suc ?n"
    then consider "a = ?n" | "a < ?n" by linarith
    then show "mget (mput ?i ?n (mm_factoryTable m)) (f_clientId (mm_factory ?m a)) = Some a \<or>
      f_serviceState (mm_factory ?m a) = SHUTDOWN_ALREADY \<or> a \<in> set (mm_leaving m)"
    proof cases
      case 2
      with old(3) [OF 2] None show ?thesis by (auto simp: h mget_mput)
    qed (simp add: n mget_mput)
  qed (simp add: old(1) mok_mput)
qed

lemma mm_step_ok:
  assumes "mm_step m m'" "mm_ok m"
  shows "mm_ok m'"
  using assms(1)
proof (cases rule: mm_step.cases)
  case (mm_get seq ver cfg)
  with create_ok [OF assms(2)] show ?thesis by simp
next
  case (mm_start a started)
  then show ?thesis
    using with_factory_ok [OF assms(2) mm_start(2), of "fst (factory_start started (mm_factory m a))"] factory_start_id factory_start_ended mm_start(3)
    by (simp add: manager_start_def case_prod_unfold Let_def)
next
  case (mm_leave a)
  let ?f = "factory_shutdown (mm_factory m a)"
  show ?thesis
  proof (cases "f_serviceState (mm_factory m a) = RUNNING \<and> f_serviceState ?f = SHUTDOWN_ALREADY")
    case True
    let ?m = "with_factory a (?f\<lparr>f_serviceState := RUNNING\<rparr>) m"
    have "mm_ok ?m"
      using True with_factory_ok [OF assms(2) mm_leave(2), of "?f\<lparr>f_serviceState := RUNNING\<rparr>"] factory_shutdown_facts(1) [of "mm_factory m a"] by simp
    from leave_ok [OF this, of a] mm_leave(2,3) True show ?thesis
      by (simp add: mm_leave(1) manager_shutdown_begin_def Let_def factory_shutdown_facts(1))
  next
    case False
    with factory_shutdown_facts [of "mm_factory m a"] have "f_serviceState ?f = f_serviceState (mm_factory m a)" by blast
    with with_factory_ok [OF assms(2) mm_leave(2), of ?f] factory_shutdown_facts(1) [of "mm_factory m a"] mm_leave(3) have "mm_ok (with_factory a ?f m)"
      by simp
    with False mm_leave(1) show ?thesis by (auto simp: manager_shutdown_begin_def Let_def)
  qed
next
  case (mm_left a)
  then have "a < length (mm_heap m)" using assms(2) unfolding mm_ok_def by blast
  with assms(2) mm_left(1) show ?thesis unfolding mm_ok_def by (auto simp: manager_shutdown_end_def)
next
  case (mm_use a f)
  have "f_serviceState f = RUNNING" if "a \<in> set (mm_leaving m)" using assms(2) mm_use(4) that unfolding mm_ok_def by metis
  with mm_use with_factory_ok [OF assms(2) mm_use(2), of f] show ?thesis by simp
qed

lemma mm_reachable_ok: "mm_reachable m0 m \<Longrightarrow> mm_ok m0 \<Longrightarrow> mm_ok m"
  by (induction rule: mm_reachable.induct) (auto intro: mm_step_ok)

lemma mm_new_ok: "mm_ok MQClientManager_new"
  by (simp add: mm_ok_def MQClientManager_new_def)

section \<open>Properties\<close>

text \<open>
  Property C33. Whatever the users of the manager do, a client id has at most one factory that is
  neither shut down nor inside the last steps of a shutdown (which has already removed it from the
  table), and asking for a factory of that id answers exactly that one.
\<close>

theorem one_factory_per_client:
  assumes "mm_reachable MQClientManager_new m" "a < length (mm_heap m)" "f_serviceState (mm_factory m a) \<noteq> SHUTDOWN_ALREADY"
    and "a \<notin> set (mm_leaving m)" "f_clientId (mm_factory m a) = buildMQClientId cfg"
  shows "getAndCreateMQClientFactory seq ver cfg m = (m, a) \<and>
    (\<forall>b < length (mm_heap m). f_clientId (mm_factory m b) = buildMQClientId cfg \<longrightarrow>
       b = a \<or> f_serviceState (mm_factory m b) = SHUTDOWN_ALREADY \<or> b \<in> set (mm_leaving m))"
proof -
  have "mm_ok m" using mm_reachable_ok [OF assms(1) mm_new_ok] .
  then have live: "mget (mm_factoryTable m) (f_clientId (mm_factory m b)) = Some b"
    if "b < length (mm_heap m)" "f_serviceState (mm_factory m b) \<noteq> SHUTDOWN_ALREADY" "b \<notin> set (mm_leaving m)" for b
    using that unfolding mm_ok_def by blast
  have a: "mget (mm_factoryTable m) (buildMQClientId cfg) = Some a" using live [OF assms(2-4)] assms(5) by simp
  have "b = a \<or> f_serviceState (mm_factory m b) = SHUTDOWN_ALREADY \<or> b \<in> set (mm_leaving m)"
    if "b < length (mm_heap m)" "f_clientId (mm_factory m b) = buildMQClientId cfg" for b
    using live [OF that(1)] that(2) a by auto
  with a show ?thesis by (simp add: getAndCreateMQClientFactory_def)
qed

text \<open>A started factory under the default instance name.\<close>

definition sample_config :: ClientConfig where
  "sample_config = ClientConfig_new None ''10.0.0.1''"

definition sample_manager :: MQClientManager where
  "sample_manager = fst (getAndCreateMQClientFactory 0 19 sample_config MQClientManager_new)"

lemma sample_manager_facts:
  "mm_reachable MQClientManager_new sample_manager" "length (mm_heap sample_manager) = 1"
  "f_serviceState (mm_factory sample_manager 0) = CREATE_JUST" "f_clientId (mm_factory sample_manager 0) = buildMQClientId sample_config"
  "mget (mm_factoryTable sample_manager) (buildMQClientId sample_config) = Some 0" "mm_leaving sample_manager = []"
proof -
  show "mm_reachable MQClientManager_new sample_manager"
    unfolding sample_manager_def by (rule mm_next [OF mm_refl mm_get])
qed (simp_all add: sample_manager_def getAndCreateMQClientFactory_def MQClientManager_new_def MQClientFactory_new_def Let_def mget_mput)

theorem one_factory_per_client_witness:
  "getAndCreateMQClientFactory 5 19 sample_config sample_manager = (sample_manager, 0)"
  using one_factory_per_client [of sample_manager 0 sample_config 5 19] sample_manager_facts by simp

text \<open>A factory whose start has failed keeps its state under every step.\<close>

lemma failed_step:
  assumes "mm_step m m'" "mm_ok m" "a < length (mm_heap m)" "f_serviceState (mm_factory m a) = START_FAILED"
  shows "a < length (mm_heap m') \<and> f_serviceState (mm_factory m' a) = START_FAILED \<and>
    f_clientId (mm_factory m' a) = f_clientId (mm_factory m a)"
  using assms(1)
proof (cases rule: mm_step.cases)
  case (mm_get seq ver cfg)
  with assms(3,4) show ?thesis
    by (auto simp: getAndCreateMQClientFactory_def Let_def nth_append split: option.splits)
next
  case (mm_start b started)
  with assms(3,4) show ?thesis
    by (auto simp: manager_start_def Let_def case_prod_unfold factory_start_def)
next
  case (mm_leave b)
  have h: "mm_heap (removeClientFactory i n) = mm_heap n" for i n by (simp add: removeClientFactory_def split: option.splits)
  have "factory_shutdown (mm_factory m a) = mm_factory m a" using assms(4) by (simp add: factory_shutdown_def)
  with mm_leave assms(3,4) show ?thesis by (auto simp: manager_shutdown_begin_def Let_def h)
next
  case (mm_left b)
  have "a \<noteq> b" using assms(2,4) mm_left(2) unfolding mm_ok_def by force
  then show ?thesis using assms(3,4) mm_left(1) by (simp add: manager_shutdown_end_def with_factory_def)
next
  case (mm_use b f)
  with assms(3,4) show ?thesis by auto
qed

lemma failed_reachable:
  assumes "mm_reachable m0 m" "mm_ok m0" "a < length (mm_heap m0)" "f_serviceState (mm_factory m0 a) = START_FAILED"
  shows "a < length (mm_heap m) \<and> f_serviceState (mm_factory m a) = START_FAILED \<and>
    f_clientId (mm_factory m a) = f_clientId (mm_factory m0 a)"
  using assms(1)
proof (induction rule: mm_reachable.induct)
  case (mm_next m m')
  with failed_step [OF mm_next(2) mm_reachable_ok [OF mm_next(1) assms(2)], of a] show ?case by simp
qed (use assms(3,4) in simp)

text \<open>
  Property C37. A factory whose start has failed once stays in the table for good: whatever happens
  later, every producer and consumer of that client id is given it and its start is refused.
\<close>

theorem failed_factory_is_final:
  assumes "mm_reachable MQClientManager_new m0" "a < length (mm_heap m0)" "f_serviceState (mm_factory m0 a) = START_FAILED"
    and "mm_reachable m0 m" "buildMQClientId cfg = f_clientId (mm_factory m0 a)"
  shows "getAndCreateMQClientFactory seq ver cfg m = (m, a) \<and>
    snd (manager_start started a m) = Inl (MQClientException ''The Factory object start failed'' (- 1))"
proof -
  have ok: "mm_ok m0" using mm_reachable_ok [OF assms(1) mm_new_ok] .
  have ok': "mm_ok m" using mm_reachable_ok [OF assms(4) ok] .
  note f = failed_reachable [OF assms(4) ok assms(2,3)]
  have "mget (mm_factoryTable m) (f_clientId (mm_factory m a)) = Some a"
    using ok' f unfolding mm_ok_def by (metis ServiceState.distinct(9,11))
  with f assms(5) show ?thesis
    by (simp add: getAndCreateMQClientFactory_def manager_start_def factory_start_def Let_def case_prod_unfold)
qed

theorem failed_factory_is_final_witness:
  "snd (manager_start True 0 (fst (manager_start False 0 sample_manager))) =
     Inl (MQClientException ''The Factory object start failed'' (- 1))"
proof -
  let ?m = "fst (manager_start False 0 sample_manager)"
  have r: "mm_reachable MQClientManager_new ?m"
    by (rule mm_next [OF sample_manager_facts(1) mm_start]) (simp_all add: sample_manager_facts)
  have f: "0 < length (mm_heap ?m)" "f_serviceState (mm_factory ?m 0) = START_FAILED"
    "f_clientId (mm_factory ?m 0) = buildMQClientId sample_config"
    using sample_manager_facts by (simp_all add: manager_start_def factory_start_def Let_def case_prod_unfold)
  from failed_factory_is_final [OF r f(1,2) mm_refl, of sample_config] f(3) show ?thesis by simp
qed

end
