(* ===== verification/Spec2Isabelle.thy ===== *)
theory Spec2Isabelle
  imports Schedule Events NameServer Monitor Handles Zip ThreadPool Manager
begin

text \<open>
  A verification library for the C++ client of RocketMQ (\<^verbatim>\<open>src/src\<close> and \<^verbatim>\<open>src/include\<close>).

  \<^bold>\<open>The program.\<close> A producer sends messages to brokers; a consumer group shares the queues of its topics,
  each member pulls the queues it owns, shows the messages to a listener and reports how far it
  has come. Both sit on a client factory, which learns from a name server which broker serves
  which queue, and on a remoting client, which exchanges commands over TCP.

  \<^bold>\<open>Theories, from the bottom up.\<close>
  \<^item> \<open>Prelude\<close>: results (\<open>error + 'a\<close>; undefined behaviour is the error \<open>Undefined\<close>), C++ integers as HOL integers
    with their wrap-around, \<^verbatim>\<open>std::map\<close> and \<^verbatim>\<open>std::set\<close> as sorted lists behind the locale of ordered maps.
  \<^item> \<open>Util\<close>, \<open>Bytes\<close>, \<open>Flags\<close>, \<open>Queue\<close>, \<open>Allocate\<close>, \<open>Common\<close>: string helpers, byte order, flag words, queue
    identity and its order, the allocation strategies, validators, subscriptions, send results.
  \<^item> \<open>Message\<close>, \<open>Decoder\<close>: messages and their properties, and the format in which brokers store them.
  \<^item> \<open>Json\<close>: the reader of the bundled JSON library, from characters to values, with its errors and its
    fixed buffers, and the accessors the client uses.
  \<^item> \<open>Transport\<close>, \<open>Headers\<close>, \<open>Remoting\<close>, \<open>Api\<close>, \<open>Calls\<close>, \<open>Events\<close>: the TCP connection with its receive buffer and framing
    (\<^verbatim>\<open>TcpTransport\<close>), the headers and bodies of commands, commands and response futures
    (\<^verbatim>\<open>RemotingCommand\<close>, \<^verbatim>\<open>TcpRemotingClient\<close>), the calls (\<^verbatim>\<open>MQClientAPIImpl\<close>), and the calls in flight: callers,
    the event thread and the workers that complete them, interleaved; and the event loop with the
    sockets it watches.
  \<^item> \<open>Config\<close>, \<open>RouteText\<close>, \<open>Heartbeat\<close>, \<open>Manager\<close>, \<open>NameServer\<close>: the client configuration, the text of routes, the
    heartbeats, the discovery of name servers and the table of factories (\<^verbatim>\<open>MQClientManager\<close>).
  \<^item> \<open>Route\<close>: the tables and the life cycle of \<^verbatim>\<open>MQClientFactory\<close> and the choice of queues in \<^verbatim>\<open>TopicPublishInfo\<close>.
  \<^item> \<open>Producer\<close>, \<open>Admin\<close>, \<open>Zip\<close>: \<^verbatim>\<open>DefaultMQProducerImpl\<close>, with the retry loop of a send; \<^verbatim>\<open>MQAdminImpl\<close>; and the loops that
    compress a body through zlib.
  \<^item> \<open>ProcessQ\<close>, \<open>Offsets\<close>, \<open>Rebalance\<close>: the messages of one owned queue, the two offset stores, and who owns what.
  \<^item> \<open>Timer\<close>, \<open>ThreadPool\<close>, \<open>Sync\<close>, \<open>Monitor\<close>, \<open>Handles\<close>: the timer threads, the pool, the recursive mutex with its
    condition, the monitor over them, the service thread, counted references and the life of a
    thread (\<^verbatim>\<open>src/src/kpr\<close>), as steps that interleave.
  \<^item> \<open>Pull\<close>, \<open>Consume\<close>, \<open>Push\<close>: asking a broker and working off pull requests, the two consume services, and
    \<^verbatim>\<open>DefaultMQPushConsumerImpl\<close>, which ties them together.
  \<^item> \<open>PullConsumer\<close>, \<open>Schedule\<close>: \<^verbatim>\<open>DefaultMQPullConsumerImpl\<close>; and the rounds the factory repeats, refreshing routes,
    persisting offsets, rebalancing all consumers.
  \<^item> This theory imports all of them and states what spans components.

  \<^bold>\<open>State and effects.\<close> A class is a record and an operation a function from the old state to the new one;
  an exception is a value. What the program asks of the outside is an argument: the network
  answers a command with a command or nothing, and says whether a connection accepts an asynchronous request at
  all (\<open>ClientEnv\<close>); zlib is a pair of stream functions with their documented contract, which says nothing about
  calls after the end of a stream; clocks are sequences of readings, sockets are lists of answers. Process queues,
  which the code shares by pointer, live in a heap of the rebalance record. Threads meet where
  the code takes a lock: the response futures, the timer manager, the pull service, the pool,
  the monitor, the handles, the table of factories and the watched sockets are transition relations, and their
  invariants hold for every interleaving. The life of one process queue and the cycle of one queue's pulls, answers and
  consumed batches are transition relations too (\<open>pq_step\<close>, \<open>pull_cycle\<close>). A shutdown of a factory takes two steps,
  as in the code: it leaves the table of the manager first and changes its state afterwards. Counts of references are
  32-bit numbers that wrap.

  \<^bold>\<open>Loops and fuel.\<close> A loop that the code bounds is structural. A loop that may not end takes fuel, and
  \<open>None\<close> says that it has not ended: the batch decoder, the framing of the transport, the tag filter,
  the batches of the concurrent service, the compression loops, the JSON reader, the ordered consume loop, and the loop over the owned
  queues of the lock operations. Each comes with a theorem that a stated amount of fuel is
  enough (one round per message, byte, chunk or batch), or that no amount is.

  \<^bold>\<open>What is shown.\<close> Round trips of the wire formats and of JSON texts; safety of the receive path under any cutting of the
  byte stream; that a group divides the queues of a topic among its members without overlap;
  that the committed offset never passes a waiting message; bounds on attempts, threads and
  waiting messages (the counter the flow control reads is exact up to the messages a rollback throws away); the life cycles; order and exactly-once execution in the pool; that
  callbacks run at most once; mutual exclusion in the monitor, the delivery of its notifications and
  the exactness of reference counts; and the behaviours in which the code departs from its
  intention, among them a timer that is never started, an asynchronous pull that an unreachable broker swallows,
  a wake-up that can be lost, a closed socket that keeps the event thread from every other connection, a
  reference that an assignment leaks, and three loops that can run forever.

  \<^bold>\<open>Interfaces.\<close> The ordered maps, the offset memory and the other contracts are locales, interpreted on
  the definitions that model the code; the clients' lemmas are proved inside them.

  \<^bold>\<open>Not modelled.\<close> TLS, the socket calls and \<^verbatim>\<open>select\<close>, plain mutexes, the Windows
  variants, HTTP and logging, which are system or library calls; the
  hooks, which are user code; transactions and the queries that the code leaves as stubs without
  a result; accessors that only read or write one field; and the bundled libraries other than
  the JSON reader. Memory management is modelled where it is counted by hand (the response
  futures, and the objects behind handles); leaks elsewhere are not.
\<close>

section \<open>Commands over a connection\<close>

definition wire_bytes :: "endian \<Rightarrow> RemotingCommand \<Rightarrow> string" where
  "wire_bytes e cmd = the (rc_head (Encode_cmd e cmd)) @ body_bytes cmd"

text \<open>The decoder makes no custom header; the header fields are compared in the text, by \<open>arrived\<close>.\<close>

definition same_command :: "RemotingCommand \<Rightarrow> RemotingCommand \<Rightarrow> bool" where
  "same_command a b \<longleftrightarrow> rc_code a = rc_code b \<and> rc_language a = rc_language b \<and> rc_version a = rc_version b \<and>
     rc_opaque a = rc_opaque b \<and> rc_flag a = rc_flag b \<and> rc_remark a = rc_remark b \<and> body_bytes a = body_bytes b"

text \<open>
  What the receiver has of a command: the decoder makes the same command of the message, and the
  object read from its header text has, under \<^verbatim>\<open>extFields\<close>, the fields of the custom header, which
  is where the decoders of the custom headers look for them.
\<close>

definition arrived :: "endian \<Rightarrow> string \<Rightarrow> RemotingCommand \<Rightarrow> bool" where
  "arrived e d cmd \<longleftrightarrow>
     (case (Decode_cmd e d (int (length d)), json_parse (c_str (drop 8 d))) of
        (Inr (Some cmd'), Inr (Some object)) \<Rightarrow>
          same_command cmd' cmd \<and> jget object ''extFields'' = Inr (canon (extFields_of cmd))
      | _ \<Rightarrow> False)"

text \<open>A command of this client that the wire format can carry: its texts need no escapes and its numbers have their widths.\<close>

definition sendable :: "RemotingCommand \<Rightarrow> bool" where
  "sendable cmd \<longleftrightarrow> cmd_fits cmd \<and> cmd_plain cmd \<and> rc_language cmd = ''CPP''"

lemma wire_bytes_frame:
  assumes "sendable cmd"
  shows "\<exists>p. payload_ok p \<and> wire_bytes e cmd = frame p"
proof -
  let ?p = "be_bytes 4 (int (length (head_json cmd))) @ head_json cmd @ body_bytes cmd"
  have c: "cmd_fits cmd" using assms by (simp add: sendable_def)
  then have "length (head_json cmd) + length (body_bytes cmd) + 8 < 2147483648"
    by (auto simp: cmd_fits_def body_bytes_def split: option.splits)
  then have "payload_ok ?p" by (auto simp: payload_ok_def dest: arg_cong [of _ _ length])
  with encoded_frame [OF c, of e] show ?thesis by (auto simp: wire_bytes_def)
qed

lemma wire_bytes_text: "cmd_fits cmd \<Longrightarrow> drop 8 (wire_bytes e cmd) = head_json cmd @ body_bytes cmd"
  by (simp add: wire_bytes_def Encode_head)

lemma wire_bytes_decode:
  assumes "sendable cmd"
  shows "arrived e (wire_bytes e cmd) cmd"
  using command_decodes [where cmd = cmd and e = e and d = "wire_bytes e cmd"] assms
  by (auto simp: arrived_def sendable_def same_command_def wire_bytes_text head_parse head_fields_get wire_bytes_def [symmetric]
      simp del: canon.simps)

text \<open>
  Property C2. Commands cross a connection unharmed. However the bytes of a sequence of encoded
  commands are cut into reads, the transport hands out exactly one message per command, in
  order, and from each the receiver gets the code, language, version, opaque, flag, remark and body
  of the command, and in the object of its header text all the fields of its custom header.
\<close>

theorem commands_cross_the_wire:
  assumes "\<forall>n. alloc n" "\<forall>cmd \<in> set cmds. sendable cmd" "recv_ok e t" "t_recvBuf t = []"
    and "length (concat (map (wire_bytes e) cmds)) \<le> length ns"
  shows "\<exists>t' msgs. feed e alloc ns (concat (map (wire_bytes e) cmds)) t [] = Some (Inr ([], t', msgs)) \<and> t_recvBuf t' = [] \<and>
    list_all2 (arrived e) msgs cmds"
proof -
  have "\<forall>cmd \<in> set cmds. \<exists>p. payload_ok p \<and> wire_bytes e cmd = frame p" using wire_bytes_frame assms(2) by blast
  from bchoice [OF this] obtain pay where p: "\<forall>cmd \<in> set cmds. payload_ok (pay cmd) \<and> wire_bytes e cmd = frame (pay cmd)" by blast
  then have w: "map (wire_bytes e) cmds = map frame (map pay cmds)" by simp
  have "concat (map frame (map pay cmds)) = [] \<Longrightarrow> map pay cmds = []" using p by (cases cmds) (auto simp: frame_def payload_ok_def)
  then obtain t' where f: "feed e alloc ns (concat (map (wire_bytes e) cmds)) t [] = Some (Inr ([], t', map (wire_bytes e) cmds))" "t_recvBuf t' = []"
    using feed_frames [OF assms(1), of "map pay cmds" e t "concat (map frame (map pay cmds))" ns "[]"] p assms(3-5) unfolding w by auto
  moreover have "list_all2 (arrived e) (map (wire_bytes e) cmds) cmds"
    unfolding list_all2_map1 using wire_bytes_decode assms(2) by (intro list.rel_refl_strong) blast
  ultimately show ?thesis by blast
qed

definition sample_query :: RemotingCommand where
  "sample_query = (fst (RemotingCommand_request QUERY_CONSUMER_OFFSET_VALUE 6))
     \<lparr>rc_customHeader := Some (QueryConsumerOffsetRequestHeader ''cg'' ''T'' 1)\<rparr>"

lemma sample_fits: "cmd_fits sample_cmd" "cmd_fits sample_query"
proof -
  have "length (head_json sample_cmd) < 200" "length (head_json sample_query) < 200" by code_simp+
  then show "cmd_fits sample_cmd" "cmd_fits sample_query"
    by (simp_all add: cmd_fits_def sample_cmd_def SetBody_def sample_query_def RemotingCommand_request_def)
qed

lemma sample_sendable: "sendable sample_cmd" "sendable sample_query"
  using sample_fits
  by (simp_all add: sendable_def cmd_plain_def sample_cmd_def SetBody_def sample_query_def RemotingCommand_request_def is_int32_def
      QUERY_CONSUMER_OFFSET_VALUE_def plain_header_def plain_char_def int64_def)

theorem commands_cross_the_wire_witness:
  "\<exists>t' d1 d2. feed LE (\<lambda>_. True) (replicate (length (concat (map (wire_bytes LE) [sample_cmd, sample_query]))) 3)
      (concat (map (wire_bytes LE) [sample_cmd, sample_query])) (TcpTransport_new (\<lambda>_. True) []) [] = Some (Inr ([], t', [d1, d2])) \<and>
    arrived LE d2 sample_query"
proof -
  let ?s = "concat (map (wire_bytes LE) [sample_cmd, sample_query])"
  have "\<exists>t' msgs. feed LE (\<lambda>_. True) (replicate (length ?s) 3) ?s (TcpTransport_new (\<lambda>_. True) []) [] = Some (Inr ([], t', msgs)) \<and> t_recvBuf t' = [] \<and>
    list_all2 (arrived LE) msgs [sample_cmd, sample_query]"
    by (rule commands_cross_the_wire)
      (use sample_sendable in \<open>simp_all add: TcpTransport_new_def recv_ok_def Let_def DEFAULT_RECV_BUFFER_SIZE_def\<close>)
  then show ?thesis by (auto simp: list_all2_Cons2)
qed

section \<open>From the broker to the listener\<close>

text \<open>
  Property C1. From the bytes a broker returns to the pool of a concurrent consumer: the requests that
  are added carry, batch after batch, exactly the messages whose tag the subscription names, in
  the order of the broker, and all of them wait in the process queue. The pull goes on from the
  offset the broker names: without a pull interval it is submitted for immediate execution, with
  one it is handed to the timer of the pull service, which never fires. The client has no project
  group prefix, and when the subscription names tags every message of the batch has one (a
  message without one keeps the filter loop from ending).
\<close>

theorem pulled_messages_reach_pool:
  assumes "batch_ok unzip ws" "length ws < fuel" "isBlank (ap_projectGroupPrefix (cl_api (pc_client pc)))"
    and "sd_tagsSet sub = [] \<or> (\<forall>w \<in> set ws. getTags (wire_msg e unzip w) \<noteq> [])"
    and "checkConfig (pc_config pc) = Inr ()" "\<not> pc_consumeOrderly pc" "\<not> pu_destroyed (pc_impl pc)"
    and "prq_processQueue r < length (rb_heap (pc_rb pc))"
  shows "\<exists>pc' batches. onSuccess fuel e unzip rt sub r (found ws suggest nextBegin mn mx) pc = Some (Inr pc') \<and>
    concat batches = map (put_offsets (found ws suggest nextBegin mn mx))
      (filter (\<lambda>m. sd_tagsSet sub = [] \<or> getTags m \<in> set (sd_tagsSet sub)) (map (wire_msg e unzip) ws)) \<and>
    pu_executor (pc_impl pc') = pu_executor (pc_impl pc) @
      map (\<lambda>b. ConsumeConcurrentlyRequest b (prq_processQueue r) (prq_messageQueue r)) batches \<and>
    pu_pq (pc_impl pc') (prq_processQueue r) = fst (putMessage (concat batches) (pu_pq (pc_impl pc) (prq_processQueue r))) \<and>
    pc_pullService pc' = (if dc_pullInterval (pc_config pc) > 0
      then executePullRequestLater (r\<lparr>prq_nextOffset := nextBegin\<rparr>) (dc_pullInterval (pc_config pc)) (pc_pullService pc)
      else executePullRequestImmediately (r\<lparr>prq_nextOffset := nextBegin\<rparr>) (pc_pullService pc))"
proof -
  let ?pr = "found ws suggest nextBegin mn mx"
  let ?msgs = "map (put_offsets ?pr) (filter (\<lambda>m. sd_tagsSet sub = [] \<or> getTags m \<in> set (sd_tagsSet sub)) (map (wire_msg e unzip) ws))"
  let ?pr' = "?pr\<lparr>px_msgFoundList := ?msgs, px_messageBinary := None, px_messageBinaryLen := 0\<rparr>"
  obtain pw' where p: "processPullResult fuel e unzip (ap_projectGroupPrefix (cl_api (pc_client pc))) (prq_messageQueue r) ?pr sub (pc_wrapper pc) =
      Some (Inr (pw', prq_messageQueue r, sub, ?pr'))"
    using process_batch [OF assms(1-4), of "prq_messageQueue r" suggest nextBegin mn mx "pc_wrapper pc"] by blast
  define pc1 where "pc1 = pc\<lparr>pc_wrapper := pw'\<rparr>"
  have c: "pc_impl pc1 = pc_impl pc" "pc_consumeOrderly pc1 = pc_consumeOrderly pc" "pc_pullService pc1 = pc_pullService pc"
    by (simp_all add: pc1_def)
  have s: "px_pullStatus ?pr' = FOUND" "px_nextBeginOffset ?pr' = nextBegin" "px_msgFoundList ?pr' = ?msgs" by (simp_all add: found_def)
  have "length ?msgs \<le> length ws" by (metis length_filter_le length_map)
  then have l: "length (px_msgFoundList ?pr') < fuel" using assms(2) unfolding s(3) by (rule le_less_trans)
  have b: "1 \<le> dc_consumeMessageBatchMaxSize (pc_config pc1)" "dc_consumeMessageBatchMaxSize (pc_config pc1) \<le> 1024"
    using assms(5) by (simp_all add: checkConfig_ok c)
  have o: "\<not> pc_consumeOrderly pc1" "prq_processQueue r < length (rb_heap (pc_rb pc1))" using assms(6,8) by (simp_all add: c)
  obtain batches pc' where r: "onSuccess_found fuel rt r ?pr' pc1 = Some pc'" "concat batches = ?msgs"
    "pu_pq (pc_impl pc') (prq_processQueue r) = fst (putMessage ?msgs (pu_pq (pc_impl pc1) (prq_processQueue r)))"
    "\<not> pu_destroyed (pc_impl pc1) \<longrightarrow> pu_executor (pc_impl pc') = pu_executor (pc_impl pc1) @
       map (\<lambda>b. ConsumeConcurrentlyRequest b (prq_processQueue r) (prq_messageQueue r)) batches"
    "pc_pullService pc' = (if dc_pullInterval (pc_config pc1) > 0
      then executePullRequestLater (r\<lparr>prq_nextOffset := nextBegin\<rparr>) (dc_pullInterval (pc_config pc1)) (pc_pullService pc1)
      else executePullRequestImmediately (r\<lparr>prq_nextOffset := nextBegin\<rparr>) (pc_pullService pc1))"
    using onSuccess_found_result [OF b l o, of rt] unfolding s(2,3) by blast
  have "onSuccess fuel e unzip rt sub r ?pr pc = Some (Inr pc')"
    unfolding onSuccess_def p using s(1) r(1) by (simp add: Let_def flip: pc1_def)
  then show ?thesis using r(2-5) assms(7) c by (intro exI [of _ pc'] exI [of _ batches]) simp
qed

theorem pulled_messages_reach_pool_witness:
  "\<exists>pc' batches. onSuccess 3 LE (\<lambda>_. None) 0 ((SubscriptionData_new 0 ''T'' ''y'')\<lparr>sd_tagsSet := [''y'']\<rparr>) sample_request
      (found [sample_wire, sample_wire\<lparr>w_props := [(''TAGS'', ''y'')]\<rparr>] 1 6 0 9) sample_consumer_impl = Some (Inr pc') \<and>
    length (concat batches) = 1 \<and>
    pu_executor (pc_impl pc') = map (\<lambda>b. ConsumeConcurrentlyRequest b 0 (MessageQueue ''T'' ''z'' 1)) batches"
proof -
  let ?ws = "[sample_wire, sample_wire\<lparr>w_props := [(''TAGS'', ''y'')]\<rparr>]"
  let ?sub = "(SubscriptionData_new 0 ''T'' ''y'')\<lparr>sd_tagsSet := [''y'']\<rparr>"
  have b: "batch_ok (\<lambda>_. None) ?ws" using sample_batch_ok by (simp add: batch_ok_def)
  have t: "getTags (wire_msg LE (\<lambda>_. None) sample_wire) = ''x''"
    "getTags (wire_msg LE (\<lambda>_. None) (sample_wire\<lparr>w_props := [(''TAGS'', ''y'')]\<rparr>)) = ''y''"
    by (simp_all add: wire_msg_def sample_wire_def getTags_def getProperty_def PROPERTY_TAGS_def Let_def)
  have h: "\<not> pc_consumeOrderly sample_consumer_impl" "\<not> pu_destroyed (pc_impl sample_consumer_impl)"
    "prq_processQueue sample_request < length (rb_heap (pc_rb sample_consumer_impl))" "prq_processQueue sample_request = 0"
    "prq_messageQueue sample_request = MessageQueue ''T'' ''z'' 1" "pu_executor (pc_impl sample_consumer_impl) = []"
    by (simp_all add: sample_consumer_impl_def sample_push_def sample_request_def)
  have g: "sd_tagsSet ?sub = [] \<or> (\<forall>w \<in> set ?ws. getTags (wire_msg LE (\<lambda>_. None) w) \<noteq> [])" "length ?ws < 3" by (simp_all add: t)
  obtain pc' batches where p: "onSuccess 3 LE (\<lambda>_. None) 0 ?sub sample_request (found ?ws 1 6 0 9) sample_consumer_impl = Some (Inr pc')"
    and c: "concat batches = map (put_offsets (found ?ws 1 6 0 9))
      (filter (\<lambda>m. sd_tagsSet ?sub = [] \<or> getTags m \<in> set (sd_tagsSet ?sub)) (map (wire_msg LE (\<lambda>_. None)) ?ws))"
    and x: "pu_executor (pc_impl pc') = pu_executor (pc_impl sample_consumer_impl) @
      map (\<lambda>b. ConsumeConcurrentlyRequest b (prq_processQueue sample_request) (prq_messageQueue sample_request)) batches"
    using pulled_messages_reach_pool [OF b g(2) sample_prefix_blank g(1) sample_config_ok h(1-3), of 0 1 6 0 9] by blast
  have "length (concat batches) = 1" unfolding c by (simp add: t)
  with p x show ?thesis unfolding h(4-6) by auto
qed

section \<open>Flow control and the pull service\<close>







end
